(* ===== verification/Prelude.thy ===== *)
theory Prelude
  imports Main "HOL-Library.Sublist"
begin

text \<open>
  Shared vocabulary of the development: Rust strings as lists of Unicode scalar values with the
  \<open>str\<close> operations the sources call, saturating unsigned arithmetic on \<open>nat\<close> with the width
  written out, results as sums, and the generic list facts the component theories share.

  A Rust \<open>str\<close> is modelled by the list of its scalar values (\<open>char\<close>s). Positions returned by
  \<open>find\<close> and used to slice are counted in scalar values here and in bytes in the source; a match
  always begins and ends on a character boundary, so the slices are the same. Where the source
  measures bytes (\<open>len\<close>, byte budgets) the model uses the UTF-8 length \<open>len_bytes\<close>.
\<close>

named_theorems str_simps \<open>evaluation rules for the string operations\<close>

section \<open>Results\<close>

type_synonym ('e, 'a) result = "'e + 'a"

abbreviation Err :: "'e \<Rightarrow> ('e, 'a) result" where "Err \<equiv> Inl"
abbreviation Ok :: "'a \<Rightarrow> ('e, 'a) result" where "Ok \<equiv> Inr"

section \<open>Saturating unsigned arithmetic\<close>

definition u32_max :: nat where "u32_max = 2 ^ 32 - 1"
definition u64_max :: nat where "u64_max = 2 ^ 64 - 1"

text \<open>\<open>u32::saturating_add\<close>, \<open>u64::saturating_add\<close>, \<open>u64::saturating_mul\<close>; on \<open>nat\<close> the
  truncated subtraction is \<open>saturating_sub\<close>.\<close>

definition sat_add32 :: "nat \<Rightarrow> nat \<Rightarrow> nat" where
  "sat_add32 a b = min u32_max (a + b)"

definition sat_add64 :: "nat \<Rightarrow> nat \<Rightarrow> nat" where
  "sat_add64 a b = min u64_max (a + b)"

definition sat_mul64 :: "nat \<Rightarrow> nat \<Rightarrow> nat" where
  "sat_mul64 a b = min u64_max (a * b)"

lemma sat_add32_le [simp]: "sat_add32 a b \<le> u32_max"
  by (simp add: sat_add32_def)

lemma sat_add64_le [simp]: "sat_add64 a b \<le> u64_max"
  by (simp add: sat_add64_def)

lemma sat_mul64_le [simp]: "sat_mul64 a b \<le> u64_max"
  by (simp add: sat_mul64_def)

lemma sat_add32_exact: "a + b \<le> u32_max \<Longrightarrow> sat_add32 a b = a + b"
  by (simp add: sat_add32_def)

text \<open>Folding saturating addition from an in-range accumulator is the clipped sum.\<close>

lemma fold_sat_add32:
  "acc \<le> u32_max \<Longrightarrow> fold (\<lambda>x a. sat_add32 a x) xs acc = min u32_max (acc + sum_list xs)"
proof (induction xs arbitrary: acc)
  case Nil
  then show ?case by (simp add: min_absorb2)
next
  case (Cons x xs)
  have "fold (\<lambda>x a. sat_add32 a x) xs (sat_add32 acc x)
      = min u32_max (sat_add32 acc x + sum_list xs)"
    by (rule Cons.IH) simp
  also have "\<dots> = min u32_max (acc + sum_list (x # xs))"
    by (auto simp: sat_add32_def min_def)
  finally show ?case by simp
qed

section \<open>Strings\<close>

type_synonym rchar = nat
type_synonym rstr = "nat list"

definition lit :: "string \<Rightarrow> rstr" where
  "lit s = map of_char s"

lemma lit_simps [simp, str_simps]:
  "lit [] = []" "lit (c # cs) = of_char c # lit cs"
  by (simp_all add: lit_def)

text \<open>\<open>char::is_whitespace\<close>: the Unicode property \<open>White_Space\<close>.\<close>

definition is_whitespace :: "rchar \<Rightarrow> bool" where
  "is_whitespace c \<longleftrightarrow> (9 \<le> c \<and> c \<le> 13) \<or> c = 32 \<or> c = 133 \<or> c = 160 \<or> c = 5760
     \<or> (8192 \<le> c \<and> c \<le> 8202) \<or> c = 8232 \<or> c = 8233 \<or> c = 8239 \<or> c = 8287 \<or> c = 12288"

definition trim_start :: "rstr \<Rightarrow> rstr" where
  "trim_start s = dropWhile is_whitespace s"

definition trim_end :: "rstr \<Rightarrow> rstr" where
  "trim_end s = rev (dropWhile is_whitespace (rev s))"

definition trim :: "rstr \<Rightarrow> rstr" where
  "trim s = trim_end (trim_start s)"

fun strip_prefix :: "rstr \<Rightarrow> rstr \<Rightarrow> rstr option" where
  "strip_prefix [] s = Some s"
| "strip_prefix (p # ps) [] = None"
| "strip_prefix (p # ps) (c # cs) = (if p = c then strip_prefix ps cs else None)"

definition starts_with :: "rstr \<Rightarrow> rstr \<Rightarrow> bool" where
  "starts_with p s \<longleftrightarrow> strip_prefix p s \<noteq> None"

definition ends_with :: "rstr \<Rightarrow> rstr \<Rightarrow> bool" where
  "ends_with p s \<longleftrightarrow> starts_with (rev p) (rev s)"

text \<open>\<open>str::find\<close> with a string pattern: the first position where the pattern starts.\<close>

fun find_sub :: "rstr \<Rightarrow> rstr \<Rightarrow> nat option" where
  "find_sub p [] = (if starts_with p [] then Some 0 else None)"
| "find_sub p (c # cs) =
     (if starts_with p (c # cs) then Some 0 else map_option Suc (find_sub p cs))"

text \<open>\<open>str::rfind\<close>: the last position where the pattern starts.\<close>

fun rfind_sub :: "rstr \<Rightarrow> rstr \<Rightarrow> nat option" where
  "rfind_sub p [] = (if starts_with p [] then Some 0 else None)"
| "rfind_sub p (c # cs) =
     (case rfind_sub p cs of
        Some i \<Rightarrow> Some (Suc i)
      | None \<Rightarrow> if starts_with p (c # cs) then Some 0 else None)"

definition contains_sub :: "rstr \<Rightarrow> rstr \<Rightarrow> bool" where
  "contains_sub p s \<longleftrightarrow> find_sub p s \<noteq> None"

text \<open>\<open>str::replace\<close>: leftmost matches, without overlap, one pass; an empty pattern matches at
  every character boundary.
  \<open>replace_go k\<close> still has to drop \<open>k\<close> characters of the match it has just replaced.\<close>

fun replace_go :: "nat \<Rightarrow> rstr \<Rightarrow> rstr \<Rightarrow> rstr \<Rightarrow> rstr" where
  "replace_go k p r [] = []"
| "replace_go (Suc k) p r (c # cs) = replace_go k p r cs"
| "replace_go 0 p r (c # cs) =
     (if starts_with p (c # cs) then r @ replace_go (length p - 1) p r cs
      else c # replace_go 0 p r cs)"

definition replace_sub :: "rstr \<Rightarrow> rstr \<Rightarrow> rstr \<Rightarrow> rstr" where
  "replace_sub p r s = (if p = [] then r @ concat (map (\<lambda>c. c # r) s) else replace_go 0 p r s)"

text \<open>\<open>str::matches(p).count()\<close>: non-overlapping matches.\<close>

fun count_go :: "nat \<Rightarrow> rstr \<Rightarrow> rstr \<Rightarrow> nat" where
  "count_go k p [] = 0"
| "count_go (Suc k) p (c # cs) = count_go k p cs"
| "count_go 0 p (c # cs) =
     (if starts_with p (c # cs) then Suc (count_go (length p - 1) p cs) else count_go 0 p cs)"

definition count_matches :: "rstr \<Rightarrow> rstr \<Rightarrow> nat" where
  "count_matches p s = count_go 0 p s"

text \<open>\<open>str::split\<close> on one character (at least one piece) and \<open>[..].join(sep)\<close>.\<close>

fun split_on :: "rchar \<Rightarrow> rstr \<Rightarrow> rstr list" where
  "split_on d [] = [[]]"
| "split_on d (c # cs) =
     (if c = d then [] # split_on d cs
      else (case split_on d cs of [] \<Rightarrow> [[c]] | l # ls \<Rightarrow> (c # l) # ls))"

fun join :: "rstr \<Rightarrow> rstr list \<Rightarrow> rstr" where
  "join sep [] = []"
| "join sep [x] = x"
| "join sep (x # y # ys) = x @ sep @ join sep (y # ys)"

abbreviation nl :: rchar where "nl \<equiv> 10"

text \<open>\<open>str::lines\<close>: pieces between line feeds, without a final empty piece; a piece that ends with a
  line feed also loses one carriage return before it.\<close>

definition strip_cr :: "rstr \<Rightarrow> rstr" where
  "strip_cr l = (if l \<noteq> [] \<and> last l = 13 then butlast l else l)"

definition str_lines :: "rstr \<Rightarrow> rstr list" where
  "str_lines s =
     (let ps = split_on nl s in map strip_cr (butlast ps) @ (if last ps = [] then [] else [last ps]))"

text \<open>UTF-8 lengths (\<open>str::len\<close>).\<close>

definition utf8_len :: "rchar \<Rightarrow> nat" where
  "utf8_len c = (if c < 128 then 1 else if c < 2048 then 2 else if c < 65536 then 3 else 4)"

definition len_bytes :: "rstr \<Rightarrow> nat" where
  "len_bytes s = sum_list (map utf8_len s)"

text \<open>\<open>to_ascii_lowercase\<close> and the decimal rendering of an unsigned integer (\<open>format!("{n}")\<close>).\<close>

definition ascii_lower :: "rstr \<Rightarrow> rstr" where
  "ascii_lower s = map (\<lambda>c. if 65 \<le> c \<and> c \<le> 90 then c + 32 else c) s"

fun show_nat :: "nat \<Rightarrow> rstr" where
  "show_nat n = (if n < 10 then [48 + n] else show_nat (n div 10) @ [48 + n mod 10])"

declare show_nat.simps [simp del]

subsection \<open>Facts about the string operations\<close>

lemma strip_prefix_Some_iff: "strip_prefix p s = Some r \<longleftrightarrow> s = p @ r"
  by (induction p s rule: strip_prefix.induct) auto

lemma strip_prefix_append [simp]: "strip_prefix p (p @ r) = Some r"
  by (simp add: strip_prefix_Some_iff)

lemma starts_with_prefix: "starts_with p s \<longleftrightarrow> prefix p s"
  by (auto simp: starts_with_def strip_prefix_Some_iff prefix_def)

lemma starts_with_append [simp]: "starts_with p (p @ r)"
  by (simp add: starts_with_def)

lemma starts_with_Nil [simp]: "starts_with [] s"
  by (simp add: starts_with_def)

lemma starts_with_Cons_Nil [simp]: "\<not> starts_with (p # ps) []"
  by (simp add: starts_with_def)

lemma starts_with_Cons_Cons [simp]:
  "starts_with (p # ps) (c # cs) \<longleftrightarrow> p = c \<and> starts_with ps cs"
  by (simp add: starts_with_def)

lemma find_sub_Some:
  "find_sub p s = Some i \<Longrightarrow>
     \<exists>r. s = take i s @ p @ r \<and> i \<le> length s \<and> (\<forall>j < i. \<not> starts_with p (drop j s))"
proof (induction p s arbitrary: i rule: find_sub.induct)
  case (1 p)
  then show ?case by (auto simp: starts_with_prefix split: if_splits)
next
  case (2 p c cs)
  show ?case
  proof (cases "starts_with p (c # cs)")
    case True
    with "2.prems" show ?thesis by (auto simp: starts_with_prefix prefix_def)
  next
    case False
    with "2.prems" obtain k where k: "find_sub p cs = Some k" "i = Suc k" by auto
    from "2.IH" [OF False k(1)] obtain r where
      r: "cs = take k cs @ p @ r" "k \<le> length cs" "\<forall>j < k. \<not> starts_with p (drop j cs)"
      by blast
    have "\<not> starts_with p (drop j (c # cs))" if "j < i" for j
      using that False r(3) k(2) by (cases j) auto
    with r(1,2) k(2) show ?thesis by auto
  qed
qed

lemma find_sub_None: "find_sub p s = None \<longleftrightarrow> (\<forall>j \<le> length s. \<not> starts_with p (drop j s))"
proof (induction p s rule: find_sub.induct)
  case (1 p)
  then show ?case by simp
next
  case (2 p c cs)
  show ?case
  proof (cases "starts_with p (c # cs)")
    case True
    then show ?thesis by force
  next
    case False
    have "(\<forall>j \<le> length (c # cs). \<not> starts_with p (drop j (c # cs)))
        \<longleftrightarrow> (\<forall>j \<le> length cs. \<not> starts_with p (drop j cs))"
      using False by (metis Suc_le_mono drop0 drop_Suc_Cons length_Cons not0_implies_Suc)
    with False "2.IH" [OF False] show ?thesis by simp
  qed
qed

lemma contains_sub_sublist: "contains_sub p s \<longleftrightarrow> sublist p s"
proof
  assume "contains_sub p s"
  then obtain i where "find_sub p s = Some i" by (auto simp: contains_sub_def)
  then show "sublist p s" by (metis find_sub_Some sublist_appendI)
next
  assume "sublist p s"
  then obtain a b where s: "s = a @ p @ b" by (auto simp: sublist_def)
  then have "length a \<le> length s" "starts_with p (drop (length a) s)" by simp_all
  then show "contains_sub p s" unfolding contains_sub_def by (auto simp: find_sub_None)
qed

lemma split_on_not_Nil [simp]: "split_on d s \<noteq> []"
  by (induction s) (auto split: list.splits)

lemma join_Cons: "ys \<noteq> [] \<Longrightarrow> join sep (x # ys) = x @ sep @ join sep ys"
  by (cases ys) auto

text \<open>Splitting on a separator and joining with it is the identity.\<close>

lemma join_split_on: "join [d] (split_on d s) = s"
proof (induction s)
  case Nil
  then show ?case by simp
next
  case (Cons c s)
  obtain l ls where sp: "split_on d s = l # ls" by (cases "split_on d s") auto
  with Cons show ?case by (cases ls) (auto simp: join_Cons)
qed

lemma split_on_no_sep: "p \<in> set (split_on d s) \<Longrightarrow> d \<notin> set p"
proof (induction s arbitrary: p)
  case Nil
  then show ?case by simp
next
  case (Cons c s)
  then show ?case by (cases "split_on d s") (auto split: if_splits)
qed

lemma split_on_no_sep_append:
  "d \<notin> set l \<Longrightarrow> split_on d (l @ d # s) = l # split_on d s"
  by (induction l) auto

lemma split_on_single: "d \<notin> set l \<Longrightarrow> split_on d l = [l]"
  by (induction l) auto

lemma split_on_join:
  "ls \<noteq> [] \<Longrightarrow> \<forall>l \<in> set ls. d \<notin> set l \<Longrightarrow> split_on d (join [d] ls) = ls"
  by (induction "[d]" ls rule: join.induct) (auto simp: split_on_single split_on_no_sep_append)

lemma length_trim_le: "length (trim s) \<le> length s"
  using length_dropWhile_le [of is_whitespace "rev (trim_start s)"]
    length_dropWhile_le [of is_whitespace s]
  by (simp add: trim_def trim_end_def trim_start_def)

lemma dropWhile_hd_id: "\<not> P (hd xs) \<Longrightarrow> dropWhile P xs = xs"
  by (cases xs) simp_all

lemma trim_id: "s \<noteq> [] \<Longrightarrow> \<not> is_whitespace (hd s) \<Longrightarrow> \<not> is_whitespace (last s) \<Longrightarrow> trim s = s"
  by (simp add: trim_def trim_start_def trim_end_def dropWhile_hd_id hd_rev)

lemma len_bytes_append [simp]: "len_bytes (s @ t) = len_bytes s + len_bytes t"
  by (simp add: len_bytes_def)

lemma len_bytes_Nil [simp]: "len_bytes [] = 0"
  by (simp add: len_bytes_def)

lemma len_bytes_Cons [simp]: "len_bytes (c # s) = utf8_len c + len_bytes s"
  by (simp add: len_bytes_def)

lemma utf8_len_bounds: "1 \<le> utf8_len c" "utf8_len c \<le> 4"
  by (simp_all add: utf8_len_def)

lemma length_le_len_bytes: "length s \<le> len_bytes s"
  by (induction s) (auto simp: utf8_len_def)

section \<open>Lists\<close>

lemma takeWhile_dropWhile_id: "takeWhile P xs @ dropWhile P xs = xs"
  by simp

lemma dropWhile_hd_not: "dropWhile P xs = y # ys \<Longrightarrow> \<not> P y"
  by (metis hd_dropWhile list.distinct(1) list.sel(1))

lemma in_set_tl: "x \<in> set (tl xs) \<Longrightarrow> x \<in> set xs"
  by (cases xs) auto

text \<open>How many elements satisfy a predicate, and how one update changes that number.\<close>

definition cnt :: "('a \<Rightarrow> bool) \<Rightarrow> 'a list \<Rightarrow> nat" where
  "cnt P xs = length (filter P xs)"

lemma cnt_simps [simp]:
  "cnt P [] = 0" "cnt P (x # xs) = (if P x then Suc (cnt P xs) else cnt P xs)"
  "cnt P (xs @ ys) = cnt P xs + cnt P ys"
  by (simp_all add: cnt_def)

lemma cnt_le_length: "cnt P xs \<le> length xs"
  by (simp add: cnt_def)

lemma cnt_update:
  "i < length xs \<Longrightarrow>
     cnt P (xs[i := y]) + (if P (xs ! i) then 1 else 0) = cnt P xs + (if P y then 1 else 0)"
proof (induction xs arbitrary: i)
  case (Cons x xs)
  then show ?case by (cases i) auto
qed simp

lemma cnt_disjoint: "(\<And>x. P x \<Longrightarrow> \<not> Q x) \<Longrightarrow> cnt P xs + cnt Q xs \<le> length xs"
  by (induction xs) auto

lemma subseq_filter_id: "subseq (filter P xs) xs"
  by (rule subseq_filter_left)

end
