(* ===== verification/F64.thy ===== *)
theory F64
  imports Prelude "HOL-Library.Log_Nat"
begin

text \<open>
  IEEE binary64 arithmetic on the finite non-negative values the sources compute with (error
  rates, reduction ratios, token ratios). A value is the rational it denotes; every operation
  rounds the exact result to 53 significant bits, to nearest with ties to even. The magnitudes
  involved are far from the subnormal and overflow ranges, which are not represented.
\<close>

section \<open>Rounding to an integer\<close>

definition rne :: "rat \<Rightarrow> int" where
  "rne m = (let f = \<lfloor>m\<rfloor>; d = m - of_int f
            in if d < 1 / 2 then f else if d > 1 / 2 then f + 1 else if even f then f else f + 1)"

lemma rne_bounds: "\<lfloor>m\<rfloor> \<le> rne m" "rne m \<le> \<lfloor>m\<rfloor> + 1"
  by (simp_all add: rne_def Let_def)

lemma rne_of_int [simp]: "rne (of_int k) = k"
  by (simp add: rne_def)

lemma rne_mono: "a \<le> b \<Longrightarrow> rne a \<le> rne b"
proof -
  assume ab: "a \<le> b"
  then have "\<lfloor>a\<rfloor> \<le> \<lfloor>b\<rfloor>" by (rule floor_mono)
  then consider "\<lfloor>a\<rfloor> < \<lfloor>b\<rfloor>" | "\<lfloor>a\<rfloor> = \<lfloor>b\<rfloor>" by linarith
  then show ?thesis
  proof cases
    case 1
    then show ?thesis using rne_bounds [of a] rne_bounds [of b] by linarith
  next
    case 2
    with ab show ?thesis by (auto simp: rne_def Let_def)
  qed
qed

section \<open>The binary exponent\<close>

definition f64_exp :: "rat \<Rightarrow> int" where
  "f64_exp x = (if 1 \<le> x then int (floorlog 2 (nat \<lfloor>x\<rfloor>)) - 1 else - int (ceillog2 (nat \<lceil>1 / x\<rceil>)))"

lemma f64_exp_ge1:
  assumes "1 \<le> x"
  shows "2 powi f64_exp x \<le> x" "x < 2 powi (f64_exp x + 1)"
proof -
  let ?n = "nat \<lfloor>x\<rfloor>"
  from assms have n: "1 \<le> ?n" "of_nat ?n \<le> x" "x < of_nat ?n + 1" by linarith+
  have b: "2 ^ (floorlog 2 ?n - 1) \<le> ?n" "?n < 2 ^ floorlog 2 ?n"
    using floorlog_bounds [of ?n 2] n(1) by (simp_all only:)
  have l: "1 \<le> floorlog 2 ?n" using n(1) by (simp add: floorlog_ge_SucI)
  then have e: "f64_exp x = int (floorlog 2 ?n - 1)" "f64_exp x + 1 = int (floorlog 2 ?n)"
    using assms by (simp_all add: f64_exp_def)
  have "(2 :: rat) ^ (floorlog 2 ?n - 1) \<le> of_nat ?n"
    using b(1) by (metis of_nat_le_iff of_nat_numeral of_nat_power)
  with n(2) show "2 powi f64_exp x \<le> x" unfolding e(1) power_int_of_nat by linarith
  have "of_nat ?n + 1 \<le> (2 :: rat) ^ floorlog 2 ?n"
    using b(2) by (metis Suc_leI of_nat_Suc of_nat_le_iff of_nat_numeral of_nat_power add.commute)
  with n(3) show "x < 2 powi (f64_exp x + 1)" unfolding e(2) power_int_of_nat by linarith
qed

lemma f64_exp_lt1:
  assumes "0 < x" "x < 1"
  shows "2 powi f64_exp x \<le> x" "x < 2 powi (f64_exp x + 1)"
proof -
  define n where "n = nat \<lceil>1 / x\<rceil>"
  have "1 < 1 / x" using assms by simp
  then have n: "2 \<le> n" "1 / x \<le> of_nat n" "of_nat n < 1 / x + 1"
    unfolding n_def by (simp_all add: le_nat_iff) linarith+
  obtain k where k: "k = ceillog2 n" by simp
  have k1: "n \<le> 2 ^ k" unfolding k by (rule le_two_power_ceillog2)
  have k2: "2 ^ k < 2 * n" unfolding k using n(1) by (intro two_power_ceillog2_gt) simp
  obtain j where j: "k = Suc j" using k1 n(1) by (cases k) auto
  have e: "f64_exp x = - int k" using assms by (simp add: f64_exp_def k n_def)
  have "1 / x \<le> 2 ^ k"
    using n(2) k1 by (metis of_nat_le_iff of_nat_numeral of_nat_power order_trans)
  then have "1 \<le> 2 ^ k * x" using assms(1) by (simp add: divide_le_eq)
  then have "1 / 2 ^ k \<le> x" by (simp add: divide_le_eq mult.commute)
  then show "2 powi f64_exp x \<le> x" by (simp add: e power_int_minus divide_inverse)
  have "2 ^ j + 1 \<le> n" using k2 j by simp
  then have "of_nat (2 ^ j + 1) \<le> (of_nat n :: rat)" by (simp only: of_nat_le_iff)
  then have "(2 :: rat) ^ j + 1 \<le> of_nat n" by simp
  with n(3) have "2 ^ j < 1 / x" by (metis add_less_cancel_right order_le_less_trans)
  then have "2 ^ j * x < 1" using assms(1) by (simp add: less_divide_eq)
  then have "x < 1 / 2 ^ j" by (simp add: less_divide_eq mult.commute)
  moreover have "f64_exp x + 1 = - int j" by (simp add: e j)
  ultimately show "x < 2 powi (f64_exp x + 1)" by (simp add: power_int_minus divide_inverse)
qed

lemma f64_exp_bounds:
  assumes "0 < x"
  shows "2 powi f64_exp x \<le> x" "x < 2 powi (f64_exp x + 1)"
  using f64_exp_ge1 f64_exp_lt1 assms by (cases "1 \<le> x"; simp)+

lemma powi2_less_iff: "(2 :: rat) powi a < 2 powi b \<longleftrightarrow> a < b"
  using power_int_strict_increasing [of a b "2 :: rat"] power_int_increasing [of b a "2 :: rat"]
  by (cases "a < b") auto

lemma powi2_le_iff: "(2 :: rat) powi a \<le> 2 powi b \<longleftrightarrow> a \<le> b"
  by (metis linorder_not_le powi2_less_iff)

lemma f64_exp_mono: "0 < x \<Longrightarrow> x \<le> y \<Longrightarrow> f64_exp x \<le> f64_exp y"
proof -
  assume "0 < x" "x \<le> y"
  then have "(2 :: rat) powi f64_exp x < 2 powi (f64_exp y + 1)"
    using f64_exp_bounds(1) [of x] f64_exp_bounds(2) [of y] by linarith
  then show ?thesis by (simp add: powi2_less_iff)
qed

section \<open>Rounding to binary64\<close>

definition f64_round :: "rat \<Rightarrow> rat" where
  "f64_round x = (if x \<le> 0 then 0
     else let e = f64_exp x - 52 in of_int (rne (x / 2 powi e)) * 2 powi e)"

lemma f64_round_0 [simp]: "f64_round 0 = 0"
  by (simp add: f64_round_def)

lemma f64_scaled_bounds:
  assumes "0 < x"
  shows "2 ^ 52 \<le> x / 2 powi (f64_exp x - 52)" "x / 2 powi (f64_exp x - 52) < 2 ^ 53"
proof -
  have p: "(0 :: rat) < 2 powi (f64_exp x - 52)" by simp
  have a: "(2 :: rat) powi f64_exp x = 2 ^ 52 * 2 powi (f64_exp x - 52)"
    by (simp add: power_int_diff)
  have b: "(2 :: rat) powi (f64_exp x + 1) = 2 ^ 53 * 2 powi (f64_exp x - 52)"
    by (simp add: power_int_diff power_int_add)
  show "2 ^ 52 \<le> x / 2 powi (f64_exp x - 52)" "x / 2 powi (f64_exp x - 52) < 2 ^ 53"
    using f64_exp_bounds [OF assms] p unfolding a b by (simp_all add: field_simps)
qed

text \<open>A positive value rounds into its own binade, its upper end included.\<close>

lemma f64_round_binade:
  assumes "0 < x"
  shows "2 powi f64_exp x \<le> f64_round x" "f64_round x \<le> 2 powi (f64_exp x + 1)"
proof -
  let ?e = "f64_exp x - 52" and ?m = "x / 2 powi (f64_exp x - 52)"
  note sb = f64_scaled_bounds [OF assms]
  have lo: "2 ^ 52 \<le> rne ?m"
    using rne_mono [of "of_int (2 ^ 52)" ?m] sb(1) by (metis of_int_numeral of_int_power rne_of_int)
  have hi: "rne ?m \<le> 2 ^ 53"
    using rne_mono [of ?m "of_int (2 ^ 53)"] sb(2)
    by (metis less_imp_le of_int_numeral of_int_power rne_of_int)
  have r: "f64_round x = of_int (rne ?m) * 2 powi ?e"
    using assms by (simp add: f64_round_def Let_def)
  have "(2 :: rat) ^ 52 \<le> of_int (rne ?m)" "of_int (rne ?m) \<le> (2 :: rat) ^ 53"
    using lo hi by (metis of_int_le_iff of_int_numeral of_int_power)+
  then have "2 ^ 52 * 2 powi ?e \<le> f64_round x" "f64_round x \<le> 2 ^ 53 * 2 powi ?e"
    unfolding r by (simp_all add: mult_right_mono)
  moreover have "(2 :: rat) ^ 52 * 2 powi ?e = 2 powi f64_exp x"
    "(2 :: rat) ^ 53 * 2 powi ?e = 2 powi (f64_exp x + 1)"
    by (simp_all add: power_int_diff power_int_add)
  ultimately show "2 powi f64_exp x \<le> f64_round x" "f64_round x \<le> 2 powi (f64_exp x + 1)"
    by simp_all
qed

lemma f64_round_nonneg [simp]: "0 \<le> f64_round x"
proof (cases "x \<le> 0")
  case False
  then have "0 < x" by simp
  have "(0 :: rat) \<le> 2 powi f64_exp x" by simp
  with f64_round_binade(1) [OF \<open>0 < x\<close>] show ?thesis by linarith
qed (simp add: f64_round_def)

theorem f64_round_mono: "x \<le> y \<Longrightarrow> f64_round x \<le> f64_round y"
proof -
  assume xy: "x \<le> y"
  show ?thesis
  proof (cases "x \<le> 0")
    case True
    then show ?thesis by (simp add: f64_round_def [of x])
  next
    case False
    then have x: "0 < x" and y: "0 < y" using xy by linarith+
    from f64_exp_mono [OF x xy] consider "f64_exp x + 1 \<le> f64_exp y" | "f64_exp x = f64_exp y"
      by linarith
    then show ?thesis
    proof cases
      case 1
      then have "(2 :: rat) powi (f64_exp x + 1) \<le> 2 powi f64_exp y" by (simp add: powi2_le_iff)
      with f64_round_binade(2) [OF x] f64_round_binade(1) [OF y] show ?thesis by linarith
    next
      case 2
      have "x / 2 powi (f64_exp y - 52) \<le> y / 2 powi (f64_exp y - 52)"
        using xy by (simp add: divide_right_mono)
      from rne_mono [OF this] show ?thesis
        using x y 2 by (simp add: f64_round_def Let_def mult_right_mono)
    qed
  qed
qed

text \<open>Integers below \<open>2^53\<close> are exact.\<close>

lemma f64_round_of_nat:
  assumes "n < 2 ^ 53"
  shows "f64_round (of_nat n) = of_nat n"
proof (cases "n = 0")
  case False
  then have pos: "(0 :: rat) < of_nat n" by simp
  have "(2 :: rat) powi f64_exp (of_nat n) < 2 powi 53"
  proof -
    have "(of_nat n :: rat) < 2 ^ 53" using assms by (metis of_nat_less_iff of_nat_numeral of_nat_power)
    with f64_exp_bounds(1) [OF pos] show ?thesis by (simp add: power_int_numeral)
  qed
  then have "f64_exp (of_nat n :: rat) \<le> 52" unfolding powi2_less_iff by simp
  then obtain k where k: "f64_exp (of_nat n :: rat) - 52 = - int k"
    by (metis diff_ge_0_iff_ge minus_diff_eq zero_le_imp_eq_int)
  have "(of_nat n :: rat) / 2 powi (- int k) = of_int (int n * 2 ^ k)"
    by (simp add: power_int_minus field_simps)
  then have "rne (of_nat n / 2 powi (- int k)) = int n * 2 ^ k" by (simp only: rne_of_int)
  then show ?thesis using pos k by (simp add: f64_round_def Let_def power_int_minus)
qed simp

section \<open>The operations the sources use\<close>

definition f64_of_nat :: "nat \<Rightarrow> rat" where "f64_of_nat n = f64_round (of_nat n)"
definition f64_div :: "rat \<Rightarrow> rat \<Rightarrow> rat" where "f64_div a b = f64_round (a / b)"
definition f64_mul :: "rat \<Rightarrow> rat \<Rightarrow> rat" where "f64_mul a b = f64_round (a * b)"

text \<open>Saturating casts (\<open>as u32\<close>, \<open>as u64\<close>) truncate; \<open>ceil\<close>; \<open>round\<close> is half away from zero.\<close>

definition f64_as_u32 :: "rat \<Rightarrow> nat" where "f64_as_u32 x = min u32_max (nat \<lfloor>x\<rfloor>)"
definition f64_as_u64 :: "rat \<Rightarrow> nat" where "f64_as_u64 x = min u64_max (nat \<lfloor>x\<rfloor>)"
definition f64_ceil :: "rat \<Rightarrow> rat" where "f64_ceil x = of_int \<lceil>x\<rceil>"
definition f64_round_int :: "rat \<Rightarrow> rat" where "f64_round_int x = of_int \<lfloor>x + 1 / 2\<rfloor>"

lemma f64_of_nat_exact: "n < 2 ^ 53 \<Longrightarrow> f64_of_nat n = of_nat n"
  by (simp add: f64_of_nat_def f64_round_of_nat)

lemma f64_of_nat_mono: "a \<le> b \<Longrightarrow> f64_of_nat a \<le> f64_of_nat b"
  by (simp add: f64_of_nat_def f64_round_mono)

lemma f64_mul_mono: "0 \<le> c \<Longrightarrow> a \<le> b \<Longrightarrow> f64_mul a c \<le> f64_mul b c"
  by (simp add: f64_mul_def f64_round_mono mult_right_mono)

lemma f64_as_u32_mono: "a \<le> b \<Longrightarrow> f64_as_u32 a \<le> f64_as_u32 b"
  unfolding f64_as_u32_def by (intro min.mono nat_mono floor_mono) simp_all

text \<open>The threshold one half: a quotient of integers below \<open>2^53\<close> rounds across it only when the
  exact quotient is on that side already.\<close>

lemma f64_exp_below_half:
  assumes "1 / 4 \<le> x" "x < 1 / 2"
  shows "f64_exp x = - 2"
proof -
  have x: "0 < x" using assms(1) by linarith
  have "(2 :: rat) powi f64_exp x < 2 powi (- 1)" "(2 :: rat) powi (- 2) < 2 powi (f64_exp x + 1)"
    using f64_exp_bounds [OF x] assms by (simp_all add: power_int_minus field_simps)
  then show ?thesis unfolding powi2_less_iff by linarith
qed

lemma f64_round_via:
  assumes "0 < x" "f64_exp x = e" "x / 2 powi (e - 52) = of_int k"
  shows "f64_round x = x"
proof -
  have "rne (x / 2 powi (e - 52)) = k" unfolding assms(3) by (rule rne_of_int)
  then have "f64_round x = of_int k * 2 powi (e - 52)"
    using assms(1,2) by (simp add: f64_round_def Let_def)
  also have "\<dots> = x" unfolding assms(3) [symmetric] by simp
  finally show ?thesis .
qed

lemma f64_round_half: "f64_round (1 / 2) = 1 / 2"
proof (rule f64_round_via)
  have "(2 :: rat) powi f64_exp (1 / 2) < 2 powi 0"
    "(2 :: rat) powi (- 1) < 2 powi (f64_exp (1 / 2) + 1)"
    using f64_exp_bounds [of "1 / 2"] by (simp_all add: power_int_minus)
  then show "f64_exp (1 / 2) = - 1" unfolding powi2_less_iff by linarith
  show "(1 / 2 :: rat) / 2 powi (- 1 - 52) = of_int (2 ^ 52)"
    by (simp add: power_int_minus)
qed simp

lemma f64_round_pred_half: "f64_round (1 / 2 - 1 / 2 ^ 54) = 1 / 2 - 1 / 2 ^ 54"
proof (rule f64_round_via)
  show "f64_exp (1 / 2 - 1 / 2 ^ 54) = - 2" by (rule f64_exp_below_half) simp_all
  show "(1 / 2 - 1 / 2 ^ 54 :: rat) / 2 powi (- 2 - 52) = of_int (2 ^ 53 - 1)"
    by (simp add: power_int_minus)
qed simp

lemma f64_ratio_below_half:
  assumes "2 * f + 1 \<le> n" "n < 2 ^ 53"
  shows "f64_round (of_nat f / of_nat n) < 1 / 2"
proof -
  have n: "(0 :: rat) < of_nat n" using assms(1) by simp
  have "of_nat (2 * f + 1) \<le> (of_nat n :: rat)" using assms(1) by (simp only: of_nat_le_iff)
  then have f: "2 * of_nat f + 1 \<le> (of_nat n :: rat)" by simp
  have "of_nat n < (of_nat (2 ^ 53) :: rat)" using assms(2) by (simp only: of_nat_less_iff)
  then have n2: "(of_nat n :: rat) * (1 / 2 ^ 54) \<le> 1 / 2" by simp
  have "of_nat f \<le> (1 / 2 - 1 / 2 ^ 54) * (of_nat n :: rat)"
    using f n2 unfolding left_diff_distrib mult.commute [of _ "of_nat n"] by simp
  then have le: "of_nat f / of_nat n \<le> (1 / 2 - 1 / 2 ^ 54 :: rat)"
    using n by (simp only: divide_le_eq if_True)
  have "(1 / 2 - 1 / 2 ^ 54 :: rat) < 1 / 2" by simp
  with f64_round_mono [OF le] f64_round_pred_half show ?thesis by linarith
qed

end
