(* ===== verification/Breaker.thy ===== *)
theory Breaker
  imports Prelude F64
begin

text \<open>
  The shared HTTP circuit breaker (\<open>crates/common/xai-circuit-breaker\<close>): the bounded sliding
  window, the configuration and its environment lookup, the three-state machine, the keyed
  registry and the HTTP status classification. Here every public operation runs alone; the
  interleaving of its atomic accesses is the subject of \<open>Breaker_Race\<close>.

  Instants and durations are natural numbers of nanoseconds. An operation that reads the clock
  more than once takes each reading as an argument. Observer callbacks are appended to a log.
\<close>

section \<open>State types (\<open>state.rs\<close>)\<close>

datatype BreakerState = Closed | Open | HalfOpen

datatype Outcome = Success | Failure

record BreakerOpen =
  retry_after :: nat

fun as_u8 :: "BreakerState \<Rightarrow> nat" where
  "as_u8 Closed = 0"
| "as_u8 Open = 1"
| "as_u8 HalfOpen = 2"

definition from_u8 :: "nat \<Rightarrow> BreakerState" where
  "from_u8 v = (if v = 0 then Closed else if v = 1 then Open else if v = 2 then HalfOpen else Closed)"

lemma from_u8_as_u8 [simp]: "from_u8 (as_u8 s) = s"
  by (cases s) (simp_all add: from_u8_def)

section \<open>The sliding window (\<open>window.rs\<close>)\<close>

definition MAX_WINDOW_ENTRIES :: nat where "MAX_WINDOW_ENTRIES = 10000"

record SlidingWindow =
  entries :: "(nat \<times> bool) list"
  failures :: nat

definition window_new :: SlidingWindow where
  "window_new = \<lparr>entries = [], failures = 0\<rparr>"

definition window_push :: "bool \<Rightarrow> nat \<Rightarrow> SlidingWindow \<Rightarrow> SlidingWindow" where
  "window_push is_failure at_time w =
     (let w1 = (case entries w of
                  (t, was_failure) # es \<Rightarrow>
                    if MAX_WINDOW_ENTRIES \<le> length (entries w)
                    then \<lparr>entries = es,
                          failures = (if was_failure then failures w - 1 else failures w)\<rparr>
                    else w
                | [] \<Rightarrow> w)
      in \<lparr>entries = entries w1 @ [(at_time, is_failure)],
          failures = (if is_failure then failures w1 + 1 else failures w1)\<rparr>)"

text \<open>The \<open>while let\<close> of \<open>evict\<close>, over the deque and the running failure count.\<close>

fun evict_loop :: "nat \<Rightarrow> (nat \<times> bool) list \<Rightarrow> nat \<Rightarrow> (nat \<times> bool) list \<times> nat" where
  "evict_loop cutoff [] f = ([], f)"
| "evict_loop cutoff ((ts, was_failure) # es) f =
     (if ts < cutoff then evict_loop cutoff es (if was_failure then f - 1 else f)
      else ((ts, was_failure) # es, f))"

definition window_evict :: "nat \<Rightarrow> nat \<Rightarrow> SlidingWindow \<Rightarrow> SlidingWindow" where
  "window_evict window now w =
     (if now < window then w
      else (let (es, f) = evict_loop (now - window) (entries w) (failures w)
            in \<lparr>entries = es, failures = f\<rparr>))"

definition window_error_rate :: "SlidingWindow \<Rightarrow> rat" where
  "window_error_rate w =
     (if entries w = [] then 0
      else f64_div (f64_of_nat (failures w)) (f64_of_nat (length (entries w))))"

definition window_sample_count :: "SlidingWindow \<Rightarrow> nat" where
  "window_sample_count w = length (entries w)"

definition window_clear :: "SlidingWindow \<Rightarrow> SlidingWindow" where
  "window_clear w = \<lparr>entries = [], failures = 0\<rparr>"

section \<open>Configuration (\<open>config.rs\<close>)\<close>

record BreakerConfig =
  window_duration :: nat
  min_samples :: nat
  error_rate_threshold :: rat
  open_duration :: nat
  half_open_max_probes :: nat
  failure_codes :: "nat set"
  enabled :: bool

definition secs :: "nat \<Rightarrow> nat" where "secs n = n * 1000000000"

definition default_failure_codes :: "nat set" where
  "default_failure_codes = {429, 500, 502, 503, 504}"

definition config_server :: BreakerConfig where
  "config_server = \<lparr>window_duration = secs 60, min_samples = 10, error_rate_threshold = 1 / 2,
     open_duration = secs 10, half_open_max_probes = 1,
     failure_codes = default_failure_codes, enabled = True\<rparr>"

definition config_client :: BreakerConfig where
  "config_client = \<lparr>window_duration = secs 60, min_samples = 5, error_rate_threshold = 1 / 2,
     open_duration = secs 60, half_open_max_probes = 1,
     failure_codes = {401}, enabled = True\<rparr>"

definition config_is_failure_status :: "BreakerConfig \<Rightarrow> nat \<Rightarrow> bool" where
  "config_is_failure_status c status \<longleftrightarrow> status \<in> failure_codes c"

text \<open>\<open>str::parse\<close> for an unsigned integer type with the given maximum, and for \<open>bool\<close>.\<close>

fun parse_digits :: "nat \<Rightarrow> rstr \<Rightarrow> nat option" where
  "parse_digits acc [] = Some acc"
| "parse_digits acc (c # cs) =
     (if 48 \<le> c \<and> c \<le> 57 then parse_digits (acc * 10 + (c - 48)) cs else None)"

definition parse_uint :: "nat \<Rightarrow> rstr \<Rightarrow> nat option" where
  "parse_uint bound s =
     (let ds = (case s of c # cs \<Rightarrow> if c = 43 then cs else s | [] \<Rightarrow> s)
      in if ds = [] then None
         else case parse_digits 0 ds of
                Some n \<Rightarrow> if n \<le> bound then Some n else None
              | None \<Rightarrow> None)"

definition parse_bool :: "rstr \<Rightarrow> bool option" where
  "parse_bool s = (if s = lit ''true'' then Some True
                   else if s = lit ''false'' then Some False else None)"

definition lookup_or :: "(rstr \<Rightarrow> rstr option) \<Rightarrow> (rstr \<Rightarrow> 'a option) \<Rightarrow> rstr \<Rightarrow> 'a \<Rightarrow> 'a" where
  "lookup_or get parse key dflt =
     (case get key of
        Some v \<Rightarrow> (case parse v of Some parsed \<Rightarrow> parsed | None \<Rightarrow> dflt)
      | None \<Rightarrow> dflt)"

definition parse_failure_codes :: "rstr \<Rightarrow> nat set" where
  "parse_failure_codes s = set (List.map_filter (\<lambda>c. parse_uint 65535 (trim c)) (split_on 44 s))"

text \<open>\<open>parse_f64\<close> stands for the standard library's \<open>f64::from_str\<close>.\<close>

definition from_lookup_with_prefix ::
  "(rstr \<Rightarrow> rat option) \<Rightarrow> rstr \<Rightarrow> (rstr \<Rightarrow> rstr option) \<Rightarrow> BreakerConfig" where
  "from_lookup_with_prefix parse_f64 pfx get =
     (let key = (\<lambda>k. pfx @ lit k);
          codes = (case get (key ''FAILURE_CODES'') of
                     Some raw \<Rightarrow> let cs = parse_failure_codes raw
                                 in if cs = {} then default_failure_codes else cs
                   | None \<Rightarrow> default_failure_codes)
      in \<lparr>window_duration = secs (lookup_or get (parse_uint u64_max) (key ''WINDOW_SECS'') 60),
          min_samples = lookup_or get (parse_uint u64_max) (key ''MIN_SAMPLES'') 10,
          error_rate_threshold = lookup_or get parse_f64 (key ''ERROR_RATE_THRESHOLD'') (1 / 2),
          open_duration = secs (lookup_or get (parse_uint u64_max) (key ''OPEN_DURATION_SECS'') 10),
          half_open_max_probes =
            max (lookup_or get (parse_uint u64_max) (key ''HALF_OPEN_MAX_PROBES'') 1) 1,
          failure_codes = codes,
          enabled = lookup_or get parse_bool (key ''ENABLED'') True\<rparr>)"

section \<open>The breaker (\<open>breaker.rs\<close>)\<close>

datatype ObserverEvent =
    OnStateChange BreakerState BreakerState string
  | OnProbeAdmission bool
  | OnOutcome Outcome BreakerState

record CircuitBreaker =
  config :: BreakerConfig
  state :: BreakerState
  baseline :: nat
  opened_at_millis :: nat
  half_open_probes :: nat
  probe_claimed_at_millis :: nat
  is_open_fast :: bool
  window :: SlidingWindow
  observed :: "ObserverEvent list"

definition with_clock :: "BreakerConfig \<Rightarrow> nat \<Rightarrow> CircuitBreaker" where
  "with_clock cfg now =
     \<lparr>config = cfg\<lparr>half_open_max_probes := max (half_open_max_probes cfg) 1\<rparr>,
      state = Closed, baseline = now, opened_at_millis = 0, half_open_probes = 0,
      probe_claimed_at_millis = 0, is_open_fast = False, window = window_new, observed = []\<rparr>"

definition notify :: "ObserverEvent \<Rightarrow> CircuitBreaker \<Rightarrow> CircuitBreaker" where
  "notify ev cb = cb\<lparr>observed := observed cb @ [ev]\<rparr>"

definition millis :: "nat \<Rightarrow> nat" where "millis d = d div 1000000 mod 2 ^ 64"

definition from_millis :: "nat \<Rightarrow> nat" where "from_millis m = m * 1000000"

definition elapsed_millis :: "CircuitBreaker \<Rightarrow> nat \<Rightarrow> nat" where
  "elapsed_millis cb now = millis (now - baseline cb)"

definition trip :: "BreakerState \<Rightarrow> string \<Rightarrow> nat \<Rightarrow> CircuitBreaker \<Rightarrow> CircuitBreaker" where
  "trip prev reason now cb =
     (let cb1 = cb\<lparr>state := Open, opened_at_millis := elapsed_millis cb now,
                   half_open_probes := 0, is_open_fast := True\<rparr>
      in if prev \<noteq> Open then notify (OnStateChange prev Open reason) cb1 else cb1)"

definition close :: "BreakerState \<Rightarrow> string \<Rightarrow> CircuitBreaker \<Rightarrow> CircuitBreaker" where
  "close prev reason cb =
     (let cb1 = cb\<lparr>state := Closed, window := window_clear (window cb),
                   half_open_probes := 0, is_open_fast := False\<rparr>
      in if prev \<noteq> Closed then notify (OnStateChange prev Closed reason) cb1 else cb1)"

definition HALF_OPEN_PROBE_BACKOFF :: nat where "HALF_OPEN_PROBE_BACKOFF = 50000000"

text \<open>With no other thread between the \<open>fetch_add\<close> and the \<open>fetch_sub\<close> the counter of a rejected
  caller is unchanged, and the \<open>compare_exchange\<close> on the claim succeeds.\<close>

definition try_half_open_probe ::
  "nat \<Rightarrow> CircuitBreaker \<Rightarrow> (BreakerOpen, unit) result \<times> CircuitBreaker" where
  "try_half_open_probe t cb =
     (let now = elapsed_millis cb t;
          prev = half_open_probes cb;
          lease_millis = millis (open_duration (config cb))
      in if prev < half_open_max_probes (config cb)
         then (Ok (), notify (OnProbeAdmission True)
                 (cb\<lparr>half_open_probes := prev + 1, probe_claimed_at_millis := now\<rparr>))
         else if lease_millis \<le> now - probe_claimed_at_millis cb
         then (Ok (), notify (OnProbeAdmission True) (cb\<lparr>probe_claimed_at_millis := now\<rparr>))
         else (Err \<lparr>retry_after = min HALF_OPEN_PROBE_BACKOFF (open_duration (config cb))\<rparr>,
               notify (OnProbeAdmission False) cb))"

definition check_open ::
  "nat \<Rightarrow> nat \<Rightarrow> CircuitBreaker \<Rightarrow> (BreakerOpen, unit) result \<times> CircuitBreaker" where
  "check_open t1 t2 cb =
     (let elapsed = from_millis (elapsed_millis cb t1 - opened_at_millis cb)
      in if open_duration (config cb) \<le> elapsed
         then try_half_open_probe t2
                (notify (OnStateChange Open HalfOpen ''open_elapsed'')
                   (cb\<lparr>state := HalfOpen, is_open_fast := False\<rparr>))
         else (Err \<lparr>retry_after = open_duration (config cb) - elapsed\<rparr>, cb))"

text \<open>\<open>t1\<close> and \<open>t2\<close> are the clock readings of \<open>check_open\<close> and of \<open>try_half_open_probe\<close>.\<close>

definition check ::
  "nat \<Rightarrow> nat \<Rightarrow> CircuitBreaker \<Rightarrow> (BreakerOpen, unit) result \<times> CircuitBreaker" where
  "check t1 t2 cb =
     (if \<not> enabled (config cb) then (Ok (), cb)
      else case state cb of
             Closed \<Rightarrow> (Ok (), cb)
           | Open \<Rightarrow> check_open t1 t2 cb
           | HalfOpen \<Rightarrow> try_half_open_probe t2 cb)"

definition observe_window :: "bool \<Rightarrow> nat \<Rightarrow> CircuitBreaker \<Rightarrow> CircuitBreaker" where
  "observe_window is_failure now cb =
     cb\<lparr>window := window_evict (window_duration (config cb)) now
                   (window_push is_failure now (window cb))\<rparr>"

definition should_trip :: "CircuitBreaker \<Rightarrow> bool" where
  "should_trip cb \<longleftrightarrow> min_samples (config cb) \<le> window_sample_count (window cb)
     \<and> error_rate_threshold (config cb) \<le> window_error_rate (window cb)"

text \<open>\<open>t1\<close> is the reading at the head of \<open>record\<close>, \<open>t2\<close> the one inside \<open>trip\<close>.\<close>

definition record_outcome :: "Outcome \<Rightarrow> nat \<Rightarrow> nat \<Rightarrow> CircuitBreaker \<Rightarrow> CircuitBreaker" where
  "record_outcome outcome t1 t2 cb =
     (if \<not> enabled (config cb) then cb
      else let is_failure = (outcome = Failure);
               prev_state = state cb;
               cb1 = (case prev_state of
                        Closed \<Rightarrow> let cb' = observe_window is_failure t1 cb
                                  in if should_trip cb' then trip prev_state ''trip'' t2 cb' else cb'
                      | HalfOpen \<Rightarrow> if is_failure then trip prev_state ''probe_failure'' t2 cb
                                    else close prev_state ''probe_success'' cb
                      | Open \<Rightarrow> observe_window is_failure t1 cb)
           in notify (OnOutcome outcome (state cb1)) cb1)"

definition is_open :: "CircuitBreaker \<Rightarrow> bool" where
  "is_open cb = is_open_fast cb"

definition error_rate :: "nat \<Rightarrow> CircuitBreaker \<Rightarrow> rat \<times> CircuitBreaker" where
  "error_rate now cb =
     (let w = window_evict (window_duration (config cb)) now (window cb)
      in (window_error_rate w, cb\<lparr>window := w\<rparr>))"

section \<open>The registry (\<open>registry.rs\<close>)\<close>

text \<open>\<open>Arc\<close> handles are indices into the list of breakers the registry has created.\<close>

record CircuitBreakerRegistry =
  reg_config :: BreakerConfig
  reg_keys :: "rstr \<rightharpoonup> nat"
  reg_breakers :: "CircuitBreaker list"

definition registry_new :: "BreakerConfig \<Rightarrow> CircuitBreakerRegistry" where
  "registry_new cfg = \<lparr>reg_config = cfg, reg_keys = Map.empty, reg_breakers = []\<rparr>"

definition registry_get ::
  "rstr \<Rightarrow> nat \<Rightarrow> CircuitBreakerRegistry \<Rightarrow> nat option \<times> CircuitBreakerRegistry" where
  "registry_get key now r =
     (if \<not> enabled (reg_config r) then (None, r)
      else case reg_keys r key of
             Some cb \<Rightarrow> (Some cb, r)
           | None \<Rightarrow> let cb = length (reg_breakers r)
                     in (Some cb, r\<lparr>reg_keys := (reg_keys r)(key \<mapsto> cb),
                                    reg_breakers := reg_breakers r @ [with_clock (reg_config r) now]\<rparr>))"

section \<open>Retry classification (\<open>retry_policy.rs\<close>)\<close>

datatype Disposition = Retryable | AuthRefresh | Terminal

record RetryPolicy =
  retryable :: "nat list"
  auth_refresh :: "nat list"
  terminal :: "nat list"
  default_disposition :: Disposition

definition classify :: "RetryPolicy \<Rightarrow> nat \<Rightarrow> Disposition option" where
  "classify p status =
     (if 200 \<le> status \<and> status < 300 then None
      else if status \<in> set (auth_refresh p) then Some AuthRefresh
      else if status \<in> set (terminal p) then Some Terminal
      else if status \<in> set (retryable p) \<or> (500 \<le> status \<and> status < 600) then Some Retryable
      else Some (default_disposition p))"

definition should_retry :: "RetryPolicy \<Rightarrow> nat \<Rightarrow> bool" where
  "should_retry p status \<longleftrightarrow> classify p status = Some Retryable"

definition policy_server :: RetryPolicy where
  "policy_server = \<lparr>retryable = [429], auth_refresh = [], terminal = [],
                    default_disposition = Terminal\<rparr>"

definition policy_client_storage :: RetryPolicy where
  "policy_client_storage = \<lparr>retryable = [], auth_refresh = [401], terminal = [400, 403, 404],
                            default_disposition = Retryable\<rparr>"

section \<open>The window as a bounded queue of outcomes\<close>

definition failed_count :: "(nat \<times> bool) list \<Rightarrow> nat" where
  "failed_count es = length (filter snd es)"

definition window_inv :: "SlidingWindow \<Rightarrow> bool" where
  "window_inv w \<longleftrightarrow> failures w = failed_count (entries w)
     \<and> length (entries w) \<le> MAX_WINDOW_ENTRIES \<and> sorted (map fst (entries w))"

text \<open>What the breaker relies on: pushing appends one sample and drops the oldest at the cap,
  eviction keeps exactly the samples of the last \<open>win\<close> nanoseconds, and the rate and the count
  are those of the samples held.\<close>

locale outcome_window =
  fixes samples :: "'w \<Rightarrow> (nat \<times> bool) list"
    and inv :: "'w \<Rightarrow> bool"
    and push :: "bool \<Rightarrow> nat \<Rightarrow> 'w \<Rightarrow> 'w"
    and evict :: "nat \<Rightarrow> nat \<Rightarrow> 'w \<Rightarrow> 'w"
    and rate :: "'w \<Rightarrow> rat"
    and cap :: nat
  assumes cap_bounds: "0 < cap" "cap < 2 ^ 53"
    and inv_sorted: "inv w \<Longrightarrow> sorted (map fst (samples w))"
    and inv_cap: "inv w \<Longrightarrow> length (samples w) \<le> cap"
    and push_samples: "inv w \<Longrightarrow> samples (push b t w) =
          (if cap \<le> length (samples w) then tl (samples w) else samples w) @ [(t, b)]"
    and push_inv: "inv w \<Longrightarrow> \<forall>e \<in> set (samples w). fst e \<le> t \<Longrightarrow> inv (push b t w)"
    and evict_samples: "inv w \<Longrightarrow>
          samples (evict win now w) = filter (\<lambda>e. now \<le> fst e + win) (samples w)"
    and evict_inv: "inv w \<Longrightarrow> inv (evict win now w)"
    and rate_samples: "inv w \<Longrightarrow> samples w \<noteq> [] \<Longrightarrow>
          rate w = f64_div (f64_of_nat (failed_count (samples w))) (f64_of_nat (length (samples w)))"
begin

lemma failed_count_le: "failed_count es \<le> length es"
  by (simp add: failed_count_def)

lemma half_le_rate_iff:
  assumes "inv w" "samples w \<noteq> []"
  shows "1 / 2 \<le> rate w \<longleftrightarrow> length (samples w) \<le> 2 * failed_count (samples w)"
proof -
  let ?n = "length (samples w)" and ?f = "failed_count (samples w)"
  have lt: "?n < 2 ^ 53" "?f < 2 ^ 53"
    using inv_cap [OF assms(1)] cap_bounds(2) failed_count_le [of "samples w"] by linarith+
  have n: "0 < ?n" using assms(2) by simp
  have r: "rate w = f64_round (of_nat ?f / of_nat ?n)"
    using rate_samples [OF assms] lt by (simp add: f64_div_def f64_of_nat_exact)
  show ?thesis
  proof
    assume "?n \<le> 2 * ?f"
    then have "(1 :: rat) / 2 \<le> of_nat ?f / of_nat ?n"
      using n by (simp add: field_simps)
    from f64_round_mono [OF this] show "1 / 2 \<le> rate w" by (simp add: r f64_round_half)
  next
    assume h: "1 / 2 \<le> rate w"
    show "?n \<le> 2 * ?f"
    proof (rule ccontr)
      assume "\<not> ?n \<le> 2 * ?f"
      then have "2 * ?f + 1 \<le> ?n" by simp
      from f64_ratio_below_half [OF this lt(1)] h r show False by simp
    qed
  qed
qed

lemma evict_push_nonempty:
  assumes "inv w" "\<forall>e \<in> set (samples w). fst e \<le> t"
  shows "samples (evict win t (push b t w)) \<noteq> []"
  using evict_samples [OF push_inv [OF assms], of win t b] push_samples [OF assms(1)] by simp

end

lemma failed_count_simps [simp]:
  "failed_count [] = 0"
  "failed_count (e # es) = (if snd e then Suc (failed_count es) else failed_count es)"
  "failed_count (es @ fs) = failed_count es + failed_count fs"
  by (simp_all add: failed_count_def)

text \<open>Popping from the front while the timestamp is too old, on a time-ordered deque, is a filter;
  the running count never underflows.\<close>

lemma evict_loop_filter:
  "sorted (map fst es) \<Longrightarrow> f = failed_count es \<Longrightarrow>
   evict_loop c es f = (filter (\<lambda>e. c \<le> fst e) es, failed_count (filter (\<lambda>e. c \<le> fst e) es))"
proof (induction c es f rule: evict_loop.induct)
  case (2 c ts wf es f)
  show ?case
  proof (cases "ts < c")
    case True
    with 2 show ?thesis by simp
  next
    case False
    with "2.prems"(1) have "filter (\<lambda>e. c \<le> fst e) es = es" by (intro filter_True) auto
    with False "2.prems" show ?thesis by simp
  qed
qed simp

lemma window_evict_eq:
  assumes "window_inv w"
  shows "window_evict win now w =
    (let es = filter (\<lambda>e. now \<le> fst e + win) (entries w)
     in \<lparr>entries = es, failures = failed_count es\<rparr>)"
proof (cases "now < win")
  case True
  then have "filter (\<lambda>e. now \<le> fst e + win) (entries w) = entries w" by (intro filter_True) auto
  with True assms show ?thesis by (simp add: window_evict_def window_inv_def Let_def)
next
  case False
  then have "(\<lambda>e. now - win \<le> fst e) = (\<lambda>e :: nat \<times> bool. now \<le> fst e + win)" by auto
  with False assms show ?thesis
    by (simp add: window_evict_def window_inv_def evict_loop_filter Let_def)
qed

lemma window_push_eq:
  assumes "window_inv w"
  shows "window_push b t w =
    (let es = (if MAX_WINDOW_ENTRIES \<le> length (entries w) then tl (entries w) else entries w) @ [(t, b)]
     in \<lparr>entries = es, failures = failed_count es\<rparr>)"
  using assms
  by (cases "entries w") (auto simp: window_push_def window_inv_def Let_def MAX_WINDOW_ENTRIES_def)

interpretation sw: outcome_window entries window_inv window_push window_evict window_error_rate
  MAX_WINDOW_ENTRIES
proof unfold_locales
  show "0 < MAX_WINDOW_ENTRIES" "MAX_WINDOW_ENTRIES < 2 ^ 53" by (simp_all add: MAX_WINDOW_ENTRIES_def)
next
  fix w :: SlidingWindow and t b
  assume w: "window_inv w" and le: "\<forall>e \<in> set (entries w). fst e \<le> t"
  from w have "sorted (map fst (tl (entries w)))" by (simp add: window_inv_def map_tl sorted_tl)
  with w le show "window_inv (window_push b t w)"
    by (auto simp: window_push_eq window_inv_def Let_def sorted_append MAX_WINDOW_ENTRIES_def
        dest: in_set_tl)
next
  fix w :: SlidingWindow and win now
  assume w: "window_inv w"
  then show "window_inv (window_evict win now w)"
    unfolding window_evict_eq [OF w] window_inv_def Let_def
    by (auto intro: sorted_filter order_trans [OF length_filter_le])
qed (simp_all add: window_inv_def window_push_eq window_evict_eq window_error_rate_def Let_def)

section \<open>Histories of a breaker\<close>

text \<open>A breaker used by one caller at a time: each public operation reads a clock that never goes
  back. \<open>cb_reachable cfg t cb\<close>: \<open>cb\<close> is the breaker after some history whose last reading is \<open>t\<close>.\<close>

inductive cb_reachable :: "BreakerConfig \<Rightarrow> nat \<Rightarrow> CircuitBreaker \<Rightarrow> bool" for cfg where
  init: "cb_reachable cfg t (with_clock cfg t)"
| check: "cb_reachable cfg t cb \<Longrightarrow> t \<le> t1 \<Longrightarrow> t1 \<le> t2 \<Longrightarrow> cb_reachable cfg t2 (snd (check t1 t2 cb))"
| record_outcome: "cb_reachable cfg t cb \<Longrightarrow> t \<le> t1 \<Longrightarrow> t1 \<le> t2 \<Longrightarrow>
    cb_reachable cfg t2 (record_outcome outcome t1 t2 cb)"
| error_rate: "cb_reachable cfg t cb \<Longrightarrow> t \<le> t1 \<Longrightarrow> cb_reachable cfg t1 (snd (error_rate t1 cb))"

text \<open>The control part of the invariant, and the window part relative to the current time.\<close>

definition cb_ctrl :: "CircuitBreaker \<Rightarrow> bool" where
  "cb_ctrl cb \<longleftrightarrow> (is_open_fast cb \<longleftrightarrow> state cb = Open)
     \<and> (if state cb = HalfOpen
        then 1 \<le> half_open_probes cb \<and> half_open_probes cb \<le> half_open_max_probes (config cb)
        else half_open_probes cb = 0)
     \<and> 1 \<le> half_open_max_probes (config cb)"

definition cb_inv :: "nat \<Rightarrow> CircuitBreaker \<Rightarrow> bool" where
  "cb_inv t cb \<longleftrightarrow> cb_ctrl cb \<and> window_inv (window cb)
     \<and> (\<forall>e \<in> set (entries (window cb)). fst e \<le> t) \<and> baseline cb \<le> t"

lemma notify_simps [simp]:
  "config (notify ev cb) = config cb" "state (notify ev cb) = state cb"
  "baseline (notify ev cb) = baseline cb" "opened_at_millis (notify ev cb) = opened_at_millis cb"
  "half_open_probes (notify ev cb) = half_open_probes cb"
  "probe_claimed_at_millis (notify ev cb) = probe_claimed_at_millis cb"
  "is_open_fast (notify ev cb) = is_open_fast cb" "window (notify ev cb) = window cb"
  by (simp_all add: notify_def)

lemmas breaker_defs = check_def check_open_def try_half_open_probe_def record_outcome_def trip_def
  close_def observe_window_def error_rate_def

lemma check_frame [simp]:
  "config (snd (check t1 t2 cb)) = config cb" "baseline (snd (check t1 t2 cb)) = baseline cb"
  "window (snd (check t1 t2 cb)) = window cb"
  by (auto simp: breaker_defs Let_def split: BreakerState.splits)

lemma record_frame [simp]:
  "config (record_outcome outcome t1 t2 cb) = config cb"
  "baseline (record_outcome outcome t1 t2 cb) = baseline cb"
  by (auto simp: breaker_defs Let_def split: BreakerState.splits)

lemma check_ctrl: "cb_ctrl cb \<Longrightarrow> cb_ctrl (snd (check t1 t2 cb))"
  by (auto simp: cb_ctrl_def breaker_defs Let_def split: BreakerState.splits if_splits)

lemma record_ctrl: "cb_ctrl cb \<Longrightarrow> cb_ctrl (record_outcome outcome t1 t2 cb)"
  by (auto simp: cb_ctrl_def breaker_defs Let_def split: BreakerState.splits if_splits)

lemma observe_window_inv:
  assumes "cb_inv t cb" "t \<le> t1"
  shows "window_inv (window (observe_window b t1 cb))"
    "e \<in> set (entries (window (observe_window b t1 cb))) \<Longrightarrow> fst e \<le> t1"
proof -
  have w: "window_inv (window cb)" and le: "\<forall>e \<in> set (entries (window cb)). fst e \<le> t1"
    using assms by (auto simp: cb_inv_def)
  from sw.push_inv [OF this] have p: "window_inv (window_push b t1 (window cb))" .
  from sw.evict_inv [OF this] show "window_inv (window (observe_window b t1 cb))"
    by (simp add: observe_window_def)
  assume "e \<in> set (entries (window (observe_window b t1 cb)))"
  then have "e \<in> set (entries (window_push b t1 (window cb)))"
    using sw.evict_samples [OF p] by (auto simp: observe_window_def)
  then show "fst e \<le> t1"
    using sw.push_samples [OF w] le by (auto split: if_splits dest: in_set_tl)
qed

text \<open>The window a \<open>record\<close> leaves behind: the observed one, or an empty one after a close.\<close>

lemma record_window:
  "window (record_outcome outcome t1 t2 cb) =
     (if \<not> enabled (config cb) then window cb
      else if state cb \<noteq> HalfOpen then window (observe_window (outcome = Failure) t1 cb)
      else if outcome = Failure then window cb else window_clear (window cb))"
  by (auto simp: record_outcome_def trip_def close_def Let_def split: BreakerState.splits)

lemma window_clear_inv [simp]: "window_inv (window_clear w)" "entries (window_clear w) = []"
  by (simp_all add: window_inv_def window_clear_def)

lemma record_inv:
  assumes "cb_inv t cb" "t \<le> t1" "t1 \<le> t2"
  shows "cb_inv t2 (record_outcome outcome t1 t2 cb)"
proof -
  note ow = observe_window_inv [OF assms(1,2)]
  have c: "cb_ctrl (record_outcome outcome t1 t2 cb)" "baseline cb \<le> t2"
    using assms record_ctrl [of cb] by (simp_all add: cb_inv_def)
  have w: "window_inv (window (record_outcome outcome t1 t2 cb))"
    using assms(1) ow(1) by (simp add: record_window cb_inv_def)
  have "fst e \<le> t2" if "e \<in> set (entries (window (record_outcome outcome t1 t2 cb)))" for e
  proof (cases "e \<in> set (entries (window cb))")
    case True
    then have "fst e \<le> t" using assms(1) by (simp add: cb_inv_def)
    with assms show ?thesis by simp
  next
    case False
    with that have "e \<in> set (entries (window (observe_window (outcome = Failure) t1 cb)))"
      by (simp add: record_window split: if_splits)
    from ow(2) [OF this] assms show ?thesis by simp
  qed
  with c w show ?thesis by (simp add: cb_inv_def)
qed

lemma error_rate_inv: "cb_inv t cb \<Longrightarrow> t \<le> t1 \<Longrightarrow> cb_inv t1 (snd (error_rate t1 cb))"
  using sw.evict_inv [of "window cb"] sw.evict_samples [of "window cb"]
  by (auto simp: cb_inv_def cb_ctrl_def error_rate_def Let_def)

lemma with_clock_inv: "cb_inv t (with_clock cfg t)"
  by (auto simp: cb_inv_def cb_ctrl_def with_clock_def window_new_def window_inv_def)

lemma cb_reachable_inv: "cb_reachable cfg t cb \<Longrightarrow> cb_inv t cb"
proof (induction rule: cb_reachable.induct)
  case (check t cb t1 t2)
  then show ?case using check_ctrl [of cb] by (auto simp: cb_inv_def)
qed (auto intro: with_clock_inv record_inv error_rate_inv)

section \<open>Trip decision\<close>

definition recent_samples :: "bool \<Rightarrow> nat \<Rightarrow> CircuitBreaker \<Rightarrow> (nat \<times> bool) list" where
  "recent_samples is_failure now cb =
     (let old = entries (window cb);
          kept = (if MAX_WINDOW_ENTRIES \<le> length old then tl old else old)
      in filter (\<lambda>e. now \<le> fst e + window_duration (config cb)) (kept @ [(now, is_failure)]))"

lemma should_trip_observed:
  assumes "cb_inv t cb" "t \<le> t1" "error_rate_threshold (config cb) = 1 / 2"
  shows "should_trip (observe_window b t1 cb) \<longleftrightarrow>
    min_samples (config cb) \<le> length (recent_samples b t1 cb) \<and>
    length (recent_samples b t1 cb) \<le> 2 * failed_count (recent_samples b t1 cb)"
proof -
  let ?w = "window (observe_window b t1 cb)"
  have w: "window_inv (window cb)" and le: "\<forall>e \<in> set (entries (window cb)). fst e \<le> t1"
    using assms(1,2) by (auto simp: cb_inv_def)
  have es: "entries ?w = recent_samples b t1 cb"
    using sw.evict_samples [OF sw.push_inv [OF w le]] sw.push_samples [OF w]
    by (simp add: observe_window_def recent_samples_def Let_def)
  have ne: "entries ?w \<noteq> []"
    using sw.evict_push_nonempty [OF w le] by (simp add: observe_window_def)
  have c: "config (observe_window b t1 cb) = config cb" by (simp add: observe_window_def)
  show ?thesis
    using sw.half_le_rate_iff [OF observe_window_inv(1) [OF assms(1,2)] ne]
    unfolding should_trip_def window_sample_count_def c assms(3) es by blast
qed

lemma record_closed_state:
  assumes "enabled (config cb)" "state cb = Closed"
  shows "state (record_outcome outcome t1 t2 cb) =
    (if should_trip (observe_window (outcome = Failure) t1 cb) then Open else Closed)"
  using assms by (simp add: record_outcome_def trip_def observe_window_def Let_def)

section \<open>Cool-down, probes and the lease\<close>

text \<open>Recorded times are in the past.\<close>

definition cb_past :: "nat \<Rightarrow> CircuitBreaker \<Rightarrow> bool" where
  "cb_past t cb \<longleftrightarrow> opened_at_millis cb \<le> (t - baseline cb) div 1000000
     \<and> probe_claimed_at_millis cb \<le> (t - baseline cb) div 1000000"

lemma millis_le: "millis d \<le> d div 1000000"
  by (simp add: millis_def)

lemma elapsed_millis_le: "t \<le> t' \<Longrightarrow> elapsed_millis cb t \<le> (t' - baseline cb) div 1000000"
  unfolding elapsed_millis_def
  by (rule order_trans [OF millis_le]) (simp add: div_le_mono diff_le_mono)

lemma cb_past_later: "cb_past t cb \<Longrightarrow> t \<le> t' \<Longrightarrow> cb_past t' cb"
  unfolding cb_past_def by (meson diff_le_mono div_le_mono order_trans)

lemma elapsed_millis_frame [simp]:
  "elapsed_millis (notify ev cb) = elapsed_millis cb"
  "elapsed_millis (cb\<lparr>state := s, is_open_fast := f\<rparr>) = elapsed_millis cb"
  "elapsed_millis (cb\<lparr>window := w\<rparr>) = elapsed_millis cb"
  "elapsed_millis (cb\<lparr>half_open_probes := n, probe_claimed_at_millis := c\<rparr>) = elapsed_millis cb"
  by (auto simp: elapsed_millis_def fun_eq_iff)

lemma check_past: "cb_past t2 cb \<Longrightarrow> cb_past t2 (snd (check t1 t2 cb))"
  using elapsed_millis_le [of t2 t2 cb]
  by (auto simp: cb_past_def breaker_defs Let_def split: BreakerState.splits)

lemma record_past: "cb_past t2 cb \<Longrightarrow> cb_past t2 (record_outcome outcome t1 t2 cb)"
  using elapsed_millis_le [of t2 t2 cb]
  by (auto simp: cb_past_def breaker_defs Let_def split: BreakerState.splits)

lemma cb_reachable_past: "cb_reachable cfg t cb \<Longrightarrow> cb_past t cb"
proof (induction rule: cb_reachable.induct)
  case (init t)
  then show ?case by (simp add: cb_past_def with_clock_def)
next
  case (check t cb t1 t2)
  then show ?case using check_past cb_past_later order_trans by metis
next
  case (record_outcome t cb t1 t2 outcome)
  then show ?case using record_past cb_past_later order_trans by metis
next
  case (error_rate t cb t1)
  from cb_past_later [OF error_rate.IH error_rate.hyps(2)] show ?case
    by (simp add: cb_past_def error_rate_def Let_def)
qed

lemma cooled_down:
  assumes "x \<le> (t - b) div 1000000" "b \<le> t" "t + d + 1000000 \<le> t1"
    "(t1 - b) div 1000000 < 2 ^ 64"
  shows "d \<le> from_millis (millis (t1 - b) - x)"
proof -
  have m: "millis (t1 - b) = (t1 - b) div 1000000" using assms(4) by (simp add: millis_def)
  have "t1 - b < 1000000 * ((t1 - b) div 1000000) + 1000000"
    using div_mult_mod_eq [of "t1 - b" 1000000] mod_less_divisor [of 1000000 "t1 - b"] by linarith
  moreover have "1000000 * x \<le> t - b"
    using assms(1) div_times_less_eq_dividend [of "t - b" 1000000] by linarith
  ultimately show ?thesis using assms(2,3) unfolding m from_millis_def by linarith
qed

lemma probe_after_lease:
  assumes "cb_ctrl cb" "cb_past t cb" "baseline cb \<le> t" "t + open_duration (config cb) + 1000000 \<le> t2"
    "(t2 - baseline cb) div 1000000 < 2 ^ 64"
  shows "fst (try_half_open_probe t2 cb) = Ok ()"
proof -
  have "open_duration (config cb) \<le> from_millis (elapsed_millis cb t2 - probe_claimed_at_millis cb)"
    using cooled_down [of "probe_claimed_at_millis cb" t "baseline cb"] assms
    by (simp add: cb_past_def elapsed_millis_def)
  then have "open_duration (config cb) div 1000000 \<le> elapsed_millis cb t2 - probe_claimed_at_millis cb"
    by (simp add: from_millis_def div_le_mono [where k = 1000000, of _ "_ * 1000000", simplified])
  then have "millis (open_duration (config cb)) \<le> elapsed_millis cb t2 - probe_claimed_at_millis cb"
    using millis_le order_trans by blast
  then show ?thesis by (simp add: try_half_open_probe_def Let_def)
qed

text \<open>The number of admitted callers in a sequence of checks.\<close>

fun admitted :: "(nat \<times> nat) list \<Rightarrow> CircuitBreaker \<Rightarrow> nat" where
  "admitted [] cb = 0"
| "admitted ((t1, t2) # ts) cb =
     (case check t1 t2 cb of (r, cb') \<Rightarrow> (if r = Ok () then 1 else 0) + admitted ts cb')"

lemma admitted_half_open:
  assumes "state cb = HalfOpen" "enabled (config cb)"
    "half_open_probes cb \<le> half_open_max_probes (config cb)"
    "\<forall>t \<in> set ts. lo \<le> elapsed_millis cb (snd t) \<and>
       elapsed_millis cb (snd t) < lo + millis (open_duration (config cb))"
    "half_open_probes cb = half_open_max_probes (config cb) \<longrightarrow> lo \<le> probe_claimed_at_millis cb"
  shows "admitted ts cb = min (length ts) (half_open_max_probes (config cb) - half_open_probes cb)"
  using assms
proof (induction ts arbitrary: cb)
  case (Cons t ts)
  obtain t1 t2 where t: "t = (t1, t2)" by (cases t)
  have e: "lo \<le> elapsed_millis cb t2" "elapsed_millis cb t2 < lo + millis (open_duration (config cb))"
    using Cons.prems(4) t by auto
  show ?case
  proof (cases "half_open_probes cb < half_open_max_probes (config cb)")
    case True
    let ?cb = "notify (OnProbeAdmission True) (cb\<lparr>half_open_probes := half_open_probes cb + 1,
      probe_claimed_at_millis := elapsed_millis cb t2\<rparr>)"
    have c: "check t1 t2 cb = (Ok (), ?cb)"
      using Cons.prems(1,2) True by (simp add: check_def try_half_open_probe_def Let_def)
    have "admitted ts ?cb =
        min (length ts) (half_open_max_probes (config ?cb) - half_open_probes ?cb)"
      using Cons.prems True e by (intro Cons.IH) simp_all
    then show ?thesis using True by (simp add: t c)
  next
    case False
    with Cons.prems(3,5) have p: "half_open_probes cb = half_open_max_probes (config cb)"
      "lo \<le> probe_claimed_at_millis cb" by auto
    let ?cb = "notify (OnProbeAdmission False) cb"
    have c: "check t1 t2 cb =
        (Err \<lparr>retry_after = min HALF_OPEN_PROBE_BACKOFF (open_duration (config cb))\<rparr>, ?cb)"
      using Cons.prems(1,2) False e p(2) by (simp add: check_def try_half_open_probe_def Let_def)
    have "admitted ts ?cb =
        min (length ts) (half_open_max_probes (config ?cb) - half_open_probes ?cb)"
      using Cons.prems p by (intro Cons.IH) simp_all
    then show ?thesis using p by (simp add: t c)
  qed
qed simp

lemma admitted_open:
  assumes "cb_ctrl cb" "state cb = Open" "enabled (config cb)" "ts \<noteq> []"
    "open_duration (config cb) \<le>
       from_millis (elapsed_millis cb (fst (hd ts)) - opened_at_millis cb)"
    "\<forall>t \<in> set ts. lo \<le> elapsed_millis cb (snd t) \<and>
       elapsed_millis cb (snd t) < lo + millis (open_duration (config cb))"
  shows "admitted ts cb = min (length ts) (half_open_max_probes (config cb))"
proof -
  obtain t1 t2 us where ts: "ts = (t1, t2) # us" using assms(4) by (cases ts) auto
  let ?cb = "notify (OnStateChange Open HalfOpen ''open_elapsed'')
    (cb\<lparr>state := HalfOpen, is_open_fast := False\<rparr>)"
  have p: "half_open_probes cb = 0" "1 \<le> half_open_max_probes (config cb)"
    using assms(1,2) by (simp_all add: cb_ctrl_def)
  have "check t1 t2 cb = check t1 t2 ?cb"
    using assms(2,3,5) ts by (simp add: check_def check_open_def Let_def)
  then have "admitted ts cb = admitted ts ?cb" by (simp add: ts)
  also have "\<dots> = min (length ts) (half_open_max_probes (config ?cb) - half_open_probes ?cb)"
    using assms(3,6) p by (intro admitted_half_open) simp_all
  finally show ?thesis using p by simp
qed

section \<open>Registry and configuration\<close>

fun registry_gets :: "(rstr \<times> nat) list \<Rightarrow> CircuitBreakerRegistry \<Rightarrow> CircuitBreakerRegistry" where
  "registry_gets [] r = r"
| "registry_gets ((key, now) # ks) r = registry_gets ks (snd (registry_get key now r))"

definition registry_inv :: "CircuitBreakerRegistry \<Rightarrow> bool" where
  "registry_inv r \<longleftrightarrow> inj_on (reg_keys r) (dom (reg_keys r))
     \<and> (\<forall>k h. reg_keys r k = Some h \<longrightarrow> h < length (reg_breakers r))"

lemma registry_get_inv: "registry_inv r \<Longrightarrow> registry_inv (snd (registry_get key now r))"
  by (auto simp: registry_inv_def registry_get_def inj_on_def dom_def Let_def less_SucI
      split: option.splits) (metis nat_neq_iff)+

lemma registry_get_keeps:
  "reg_keys r k = Some h \<Longrightarrow> reg_keys (snd (registry_get key now r)) k = Some h"
  by (auto simp: registry_get_def Let_def split: option.splits)

lemma registry_gets_inv: "registry_inv r \<Longrightarrow> registry_inv (registry_gets ks r)"
  by (induction ks r rule: registry_gets.induct) (simp_all add: registry_get_inv)

lemma registry_gets_keeps: "reg_keys r k = Some h \<Longrightarrow> reg_keys (registry_gets ks r) k = Some h"
  by (induction ks r rule: registry_gets.induct) (simp_all add: registry_get_keeps)

lemma registry_get_config [simp]: "reg_config (snd (registry_get key now r)) = reg_config r"
  by (auto simp: registry_get_def Let_def split: option.splits)

lemma registry_gets_config [simp]: "reg_config (registry_gets ks r) = reg_config r"
  by (induction ks r rule: registry_gets.induct) simp_all

lemma registry_get_enabled:
  "enabled (reg_config r) \<Longrightarrow>
     fst (registry_get key now r) = reg_keys (snd (registry_get key now r)) key
     \<and> fst (registry_get key now r) \<noteq> None"
  by (auto simp: registry_get_def Let_def split: option.splits)

lemma from_lookup_probes: "1 \<le> half_open_max_probes (from_lookup_with_prefix pf pfx get)"
  by (simp add: from_lookup_with_prefix_def Let_def)

lemma from_lookup_codes: "failure_codes (from_lookup_with_prefix pf pfx get) \<noteq> {}"
  by (simp add: from_lookup_with_prefix_def default_failure_codes_def Let_def split: option.splits)

lemma from_lookup_unset: "from_lookup_with_prefix pf pfx (\<lambda>k. None) = config_server"
  by (simp add: from_lookup_with_prefix_def lookup_or_def config_server_def Let_def)

section \<open>Properties\<close>

text \<open>C1. After any sequential history of checks, outcomes and rate queries with a clock that does
  not go back, the lock-free mirror agrees with the state, the incremental failure counter is the
  number of failed samples held (so its decrements never underflow), the window is within its cap
  and ordered by time, and the probe counter is zero outside \<open>HalfOpen\<close> and between one and the
  configured maximum inside it.\<close>

theorem breaker_history_invariant:
  assumes "cb_reachable cfg t cb"
  shows "(is_open cb \<longleftrightarrow> state cb = Open)
    \<and> failures (window cb) = length (filter snd (entries (window cb)))
    \<and> length (entries (window cb)) \<le> MAX_WINDOW_ENTRIES
    \<and> sorted (map fst (entries (window cb)))
    \<and> (if state cb = HalfOpen
       then 1 \<le> half_open_probes cb \<and> half_open_probes cb \<le> half_open_max_probes (config cb)
       else half_open_probes cb = 0)"
  using cb_reachable_inv [OF assms]
  by (simp add: cb_inv_def cb_ctrl_def window_inv_def is_open_def failed_count_def split: if_splits)

theorem breaker_history_invariant_witness:
  "cb_reachable config_server 7 (record_outcome Failure 5 7 (with_clock config_server 3))
   \<and> (is_open (record_outcome Failure 5 7 (with_clock config_server 3)) \<longleftrightarrow>
      state (record_outcome Failure 5 7 (with_clock config_server 3)) = Open)"
proof -
  have r: "cb_reachable config_server 7 (record_outcome Failure 5 7 (with_clock config_server 3))"
    by (rule cb_reachable.record_outcome [OF cb_reachable.init]) simp_all
  show ?thesis using r breaker_history_invariant [OF r] by blast
qed

text \<open>C31. A closed, enabled breaker with the presets' threshold of one half opens on an outcome
  exactly when the samples of the last window (the new one included, at most \<open>MAX_WINDOW_ENTRIES\<close>)
  number at least \<open>min_samples\<close> and at least half of them failed: the double-precision quotient
  decides the comparison exactly.\<close>

theorem record_trips_iff:
  assumes "cb_reachable cfg t cb" "t \<le> t1" "enabled (config cb)" "state cb = Closed"
    "error_rate_threshold (config cb) = 1 / 2"
  shows "state (record_outcome outcome t1 t2 cb) = Open \<longleftrightarrow>
    (let es = recent_samples (outcome = Failure) t1 cb
     in min_samples (config cb) \<le> length es \<and> length es \<le> 2 * length (filter snd es))"
  using should_trip_observed [OF cb_reachable_inv [OF assms(1)] assms(2,5)]
  by (simp add: record_closed_state [OF assms(3,4)] Let_def failed_count_def)

theorem record_trips_iff_witness:
  "state (record_outcome Failure 5 7 (with_clock (config_server\<lparr>min_samples := 1\<rparr>) 3)) = Open"
proof -
  let ?cfg = "config_server\<lparr>min_samples := 1\<rparr>"
  have "state (record_outcome Failure 5 7 (with_clock ?cfg 3)) = Open \<longleftrightarrow>
    (let es = recent_samples (Failure = Failure) 5 (with_clock ?cfg 3)
     in min_samples (config (with_clock ?cfg 3)) \<le> length es
        \<and> length es \<le> 2 * length (filter snd es))"
    by (rule record_trips_iff [OF cb_reachable.init]) (simp_all add: with_clock_def config_server_def)
  then show ?thesis
    by (simp add: recent_samples_def with_clock_def config_server_def window_new_def Let_def
        MAX_WINDOW_ENTRIES_def)
qed

text \<open>C34. No breaker sheds traffic for ever: whatever its history, lost probes included, a check made
  one open duration and one millisecond after the last operation is admitted (for the first
  \<open>2^64\<close> milliseconds of the breaker's life).\<close>

theorem breaker_never_stuck:
  assumes "cb_reachable cfg t cb" "t + open_duration (config cb) + 1000000 \<le> t1" "t1 \<le> t2"
    "(t2 - baseline cb) div 1000000 < 2 ^ 64"
  shows "fst (check t1 t2 cb) = Ok ()"
proof -
  have inv: "cb_ctrl cb" "baseline cb \<le> t" and past: "cb_past t cb"
    using cb_reachable_inv [OF assms(1)] cb_reachable_past [OF assms(1)] by (simp_all add: cb_inv_def)
  have t1: "(t1 - baseline cb) div 1000000 < 2 ^ 64"
    using assms(3,4) by (meson diff_le_mono div_le_mono le_less_trans)
  show ?thesis
  proof (cases "state cb")
    case Open
    have "open_duration (config cb) \<le> from_millis (elapsed_millis cb t1 - opened_at_millis cb)"
      using cooled_down [OF _ inv(2) assms(2) t1] past by (simp add: cb_past_def elapsed_millis_def)
    moreover have "half_open_probes cb < half_open_max_probes (config cb)"
      using inv(1) Open by (simp add: cb_ctrl_def)
    ultimately show ?thesis using Open
      by (simp add: check_def check_open_def try_half_open_probe_def Let_def)
  next
    case HalfOpen
    then show ?thesis using probe_after_lease [OF inv(1) past inv(2) _ assms(4)] assms(2,3)
      by (simp add: check_def)
  qed (simp add: check_def)
qed

theorem breaker_never_stuck_witness:
  "fst (check 10001000003 10001000003 (with_clock config_server 3)) = Ok ()"
  by (rule breaker_never_stuck [OF cb_reachable.init])
    (simp_all add: with_clock_def config_server_def secs_def)

text \<open>When an open breaker cools down, a burst of checks made within one lease (the open duration
  in milliseconds) admits exactly as many callers as there are probe slots, or all of them if they
  are fewer; every other caller is shed.\<close>

theorem half_open_admits_exactly_max_probes:
  assumes "cb_reachable cfg t cb" "state cb = Open" "enabled (config cb)" "ts \<noteq> []"
    "open_duration (config cb) \<le>
       from_millis (elapsed_millis cb (fst (hd ts)) - opened_at_millis cb)"
    "\<forall>s \<in> set ts. lo \<le> elapsed_millis cb (snd s) \<and>
       elapsed_millis cb (snd s) < lo + millis (open_duration (config cb))"
  shows "admitted ts cb = min (length ts) (half_open_max_probes (config cb))"
  using admitted_open [OF _ assms(2-6)] cb_reachable_inv [OF assms(1)] by (simp add: cb_inv_def)

theorem half_open_admits_exactly_max_probes_witness:
  "admitted [(10000000009, 10000000009), (10000000010, 10000000011), (10000000012, 10000000012)]
     (record_outcome Failure 5 7 (with_clock (config_server\<lparr>min_samples := 1\<rparr>) 3)) = 1"
proof -
  let ?cfg = "config_server\<lparr>min_samples := 1\<rparr>"
  let ?cb = "record_outcome Failure 5 7 (with_clock ?cfg 3)"
  let ?ts = "[(10000000009, 10000000009), (10000000010, 10000000011), (10000000012, 10000000012)]
    :: (nat \<times> nat) list"
  have r: "cb_reachable ?cfg 7 ?cb"
    by (rule cb_reachable.record_outcome [OF cb_reachable.init]) simp_all
  have cfg: "config ?cb = ?cfg" "baseline ?cb = 3"
    by (simp_all add: with_clock_def config_server_def)
  have st: "should_trip (observe_window True 5 (with_clock ?cfg 3))"
    by (subst should_trip_observed [OF with_clock_inv])
      (simp_all add: recent_samples_def with_clock_def config_server_def window_new_def
        MAX_WINDOW_ENTRIES_def)
  have o: "state ?cb = Open" "opened_at_millis ?cb = 0"
    using st by (simp_all add: record_outcome_def trip_def with_clock_def config_server_def
        observe_window_def elapsed_millis_def millis_def Let_def)
  have "admitted ?ts ?cb = min (length ?ts) (half_open_max_probes (config ?cb))"
    by (rule half_open_admits_exactly_max_probes [OF r o(1), where lo = 10000],
      unfold elapsed_millis_def cfg o)
      (simp_all add: millis_def from_millis_def config_server_def secs_def)
  then show ?thesis unfolding cfg by (simp add: config_server_def)
qed

text \<open>In an enabled registry every key has one breaker: whatever other keys are asked for before
  and in between, two lookups return the same handle exactly when their keys are the same.\<close>

theorem registry_one_breaker_per_key:
  assumes "enabled cfg"
    and "r = registry_gets ks (registry_new cfg)"
    and "r' = registry_gets ks' (snd (registry_get k1 t1 r))"
  shows "fst (registry_get k1 t1 r) \<noteq> None
    \<and> (fst (registry_get k1 t1 r) = fst (registry_get k2 t2 r') \<longleftrightarrow> k1 = k2)"
proof -
  have "registry_inv (registry_new cfg)" by (simp add: registry_inv_def registry_new_def)
  then have i: "registry_inv r'"
    unfolding assms(2,3) by (intro registry_gets_inv registry_get_inv)
  have en: "enabled (reg_config r)" "enabled (reg_config r')"
    using assms by (simp_all add: registry_new_def)
  obtain h1 where h1: "fst (registry_get k1 t1 r) = Some h1"
    "reg_keys (snd (registry_get k1 t1 r)) k1 = Some h1"
    using registry_get_enabled [OF en(1)] by (metis not_None_eq)
  obtain h2 where h2: "fst (registry_get k2 t2 r') = Some h2"
    "reg_keys (snd (registry_get k2 t2 r')) k2 = Some h2"
    using registry_get_enabled [OF en(2)] by (metis not_None_eq)
  have k1: "reg_keys (snd (registry_get k2 t2 r')) k1 = Some h1"
    using registry_get_keeps [OF registry_gets_keeps [OF h1(2)]] assms(3) by simp
  have "inj_on (reg_keys (snd (registry_get k2 t2 r'))) (dom (reg_keys (snd (registry_get k2 t2 r'))))"
    using registry_get_inv [OF i] by (simp add: registry_inv_def)
  with k1 h2(2) have "h1 = h2 \<longleftrightarrow> k1 = k2" by (metis domI inj_onD option.inject)
  with h1(1) h2(1) show ?thesis by simp
qed

theorem registry_one_breaker_per_key_witness:
  "fst (registry_get (lit ''a'') 1 (registry_new config_client)) \<noteq>
   fst (registry_get (lit ''b'') 2 (snd (registry_get (lit ''a'') 1 (registry_new config_client))))"
  using registry_one_breaker_per_key [of config_client "registry_new config_client" "[]"
      "snd (registry_get (lit ''a'') 1 (registry_new config_client))" "[]" "lit ''a''" 1 "lit ''b''" 2]
  by (simp add: config_client_def)

end
