(* ===== verification/Breaker_Race.thy ===== *)
theory Breaker_Race
  imports Breaker "HOL-Library.Word"
begin

text \<open>
  The circuit breaker under concurrent callers (\<open>breaker.rs\<close>). Each thread runs one \<open>check\<close> or one
  \<open>record\<close> call; a step is one access to the shared cells: an atomic load, store, \<open>fetch_add\<close>,
  \<open>fetch_sub\<close> or \<open>compare_exchange\<close>, one clock reading, or one critical section of the window
  mutex. Steps of the threads and of the clock interleave freely. Atomic accesses are sequentially
  consistent here; observer callbacks touch none of these cells and take no step.
\<close>

section \<open>Shared cells and program points\<close>

record Shared =
  sh_state :: BreakerState
  sh_opened :: nat
  sh_probes :: "64 word"
  sh_claimed :: nat
  sh_fast :: bool
  sh_window :: SlidingWindow
  sh_now :: nat

datatype pc =
    CheckLoad
  | OpenLoad
  | OpenClock nat
  | OpenCas
  | FastClear
  | OpenReload
  | ReopenedLoad
  | ReopenedClock nat
  | ProbeClock
  | ProbeAdd nat
  | ProbeStore nat
  | ProbeSub nat
  | ProbeClaim nat
  | ProbeCas nat nat
  | CheckDone "(BreakerOpen, unit) result"
  | RecordStart Outcome
  | RecordLoad Outcome nat
  | ObserveClosed Outcome nat
  | ObserveOpen Outcome nat
  | TripState
  | TripClock
  | TripOpened nat
  | TripProbes
  | TripFast
  | CloseState
  | CloseWindow
  | CloseProbes
  | CloseFast
  | RecordDone

section \<open>Steps of one thread\<close>

definition sh_elapsed :: "nat \<Rightarrow> Shared \<Rightarrow> nat" where
  "sh_elapsed base sh = millis (sh_now sh - base)"

definition admit :: pc where "admit = CheckDone (Ok ())"

definition shed :: "nat \<Rightarrow> pc" where "shed d = CheckDone (Err \<lparr>retry_after = d\<rparr>)"

definition sh_observe :: "BreakerConfig \<Rightarrow> Outcome \<Rightarrow> nat \<Rightarrow> SlidingWindow \<Rightarrow> SlidingWindow" where
  "sh_observe cfg oc now w =
     window_evict (window_duration cfg) now (window_push (oc = Failure) now w)"

text \<open>\<open>check\<close> and \<open>check_open\<close>.\<close>

fun check_step :: "BreakerConfig \<Rightarrow> nat \<Rightarrow> pc \<Rightarrow> Shared \<Rightarrow> pc \<times> Shared" where
  "check_step cfg base CheckLoad sh =
     (if \<not> enabled cfg then (admit, sh)
      else case sh_state sh of
             Closed \<Rightarrow> (admit, sh) | Open \<Rightarrow> (OpenLoad, sh) | HalfOpen \<Rightarrow> (ProbeClock, sh))"
| "check_step cfg base OpenLoad sh = (OpenClock (sh_opened sh), sh)"
| "check_step cfg base (OpenClock opened) sh =
     (let elapsed = from_millis (sh_elapsed base sh - opened)
      in if open_duration cfg \<le> elapsed then (OpenCas, sh)
         else (shed (open_duration cfg - elapsed), sh))"
| "check_step cfg base OpenCas sh =
     (if sh_state sh = Open then (FastClear, sh\<lparr>sh_state := HalfOpen\<rparr>) else (OpenReload, sh))"
| "check_step cfg base FastClear sh = (ProbeClock, sh\<lparr>sh_fast := False\<rparr>)"
| "check_step cfg base OpenReload sh =
     (case sh_state sh of
        Closed \<Rightarrow> (admit, sh) | HalfOpen \<Rightarrow> (ProbeClock, sh) | Open \<Rightarrow> (ReopenedLoad, sh))"
| "check_step cfg base ReopenedLoad sh = (ReopenedClock (sh_opened sh), sh)"
| "check_step cfg base (ReopenedClock opened) sh =
     (shed (open_duration cfg - from_millis (sh_elapsed base sh - opened)), sh)"
| "check_step cfg base p sh = (p, sh)"

text \<open>\<open>try_half_open_probe\<close>.\<close>

fun probe_step :: "BreakerConfig \<Rightarrow> nat \<Rightarrow> pc \<Rightarrow> Shared \<Rightarrow> pc \<times> Shared" where
  "probe_step cfg base ProbeClock sh = (ProbeAdd (sh_elapsed base sh), sh)"
| "probe_step cfg base (ProbeAdd now) sh =
     ((if unat (sh_probes sh) < half_open_max_probes cfg then ProbeStore now else ProbeSub now),
      sh\<lparr>sh_probes := sh_probes sh + 1\<rparr>)"
| "probe_step cfg base (ProbeStore now) sh = (admit, sh\<lparr>sh_claimed := now\<rparr>)"
| "probe_step cfg base (ProbeSub now) sh = (ProbeClaim now, sh\<lparr>sh_probes := sh_probes sh - 1\<rparr>)"
| "probe_step cfg base (ProbeClaim now) sh =
     (if millis (open_duration cfg) \<le> now - sh_claimed sh then (ProbeCas now (sh_claimed sh), sh)
      else (shed (min HALF_OPEN_PROBE_BACKOFF (open_duration cfg)), sh))"
| "probe_step cfg base (ProbeCas now claimed) sh =
     (if sh_claimed sh = claimed then (admit, sh\<lparr>sh_claimed := now\<rparr>)
      else (shed (min HALF_OPEN_PROBE_BACKOFF (open_duration cfg)), sh))"
| "probe_step cfg base p sh = (p, sh)"

text \<open>\<open>record\<close>, \<open>trip\<close> and \<open>close\<close>.\<close>

fun record_step :: "BreakerConfig \<Rightarrow> nat \<Rightarrow> pc \<Rightarrow> Shared \<Rightarrow> pc \<times> Shared" where
  "record_step cfg base (RecordStart oc) sh =
     (if \<not> enabled cfg then (RecordDone, sh) else (RecordLoad oc (sh_now sh), sh))"
| "record_step cfg base (RecordLoad oc now) sh =
     (case sh_state sh of
        Closed \<Rightarrow> (ObserveClosed oc now, sh)
      | HalfOpen \<Rightarrow> (if oc = Failure then (TripState, sh) else (CloseState, sh))
      | Open \<Rightarrow> (ObserveOpen oc now, sh))"
| "record_step cfg base (ObserveClosed oc now) sh =
     (let w = sh_observe cfg oc now (sh_window sh)
      in ((if min_samples cfg \<le> window_sample_count w \<and> error_rate_threshold cfg \<le> window_error_rate w
           then TripState else RecordDone), sh\<lparr>sh_window := w\<rparr>))"
| "record_step cfg base (ObserveOpen oc now) sh =
     (RecordDone, sh\<lparr>sh_window := sh_observe cfg oc now (sh_window sh)\<rparr>)"
| "record_step cfg base TripState sh = (TripClock, sh\<lparr>sh_state := Open\<rparr>)"
| "record_step cfg base TripClock sh = (TripOpened (sh_elapsed base sh), sh)"
| "record_step cfg base (TripOpened now) sh = (TripProbes, sh\<lparr>sh_opened := now\<rparr>)"
| "record_step cfg base TripProbes sh = (TripFast, sh\<lparr>sh_probes := 0\<rparr>)"
| "record_step cfg base TripFast sh = (RecordDone, sh\<lparr>sh_fast := True\<rparr>)"
| "record_step cfg base CloseState sh = (CloseWindow, sh\<lparr>sh_state := Closed\<rparr>)"
| "record_step cfg base CloseWindow sh = (CloseProbes, sh\<lparr>sh_window := window_clear (sh_window sh)\<rparr>)"
| "record_step cfg base CloseProbes sh = (CloseFast, sh\<lparr>sh_probes := 0\<rparr>)"
| "record_step cfg base CloseFast sh = (RecordDone, sh\<lparr>sh_fast := False\<rparr>)"
| "record_step cfg base p sh = (p, sh)"

fun is_check_pc :: "pc \<Rightarrow> bool" where
  "is_check_pc CheckLoad = True"
| "is_check_pc OpenLoad = True"
| "is_check_pc (OpenClock _) = True"
| "is_check_pc OpenCas = True"
| "is_check_pc FastClear = True"
| "is_check_pc OpenReload = True"
| "is_check_pc ReopenedLoad = True"
| "is_check_pc (ReopenedClock _) = True"
| "is_check_pc _ = False"

fun is_probe_pc :: "pc \<Rightarrow> bool" where
  "is_probe_pc ProbeClock = True"
| "is_probe_pc (ProbeAdd _) = True"
| "is_probe_pc (ProbeStore _) = True"
| "is_probe_pc (ProbeSub _) = True"
| "is_probe_pc (ProbeClaim _) = True"
| "is_probe_pc (ProbeCas _ _) = True"
| "is_probe_pc _ = False"

definition thread_step :: "BreakerConfig \<Rightarrow> nat \<Rightarrow> pc \<Rightarrow> Shared \<Rightarrow> pc \<times> Shared" where
  "thread_step cfg base p sh =
     (if is_check_pc p then check_step cfg base p sh
      else if is_probe_pc p then probe_step cfg base p sh
      else record_step cfg base p sh)"

section \<open>Interleavings\<close>

datatype event = Run nat | Tick nat

record Race =
  shared :: Shared
  threads :: "pc list"

definition race_step :: "BreakerConfig \<Rightarrow> nat \<Rightarrow> event \<Rightarrow> Race \<Rightarrow> Race" where
  "race_step cfg base ev r =
     (case ev of
        Tick d \<Rightarrow> r\<lparr>shared := (shared r)\<lparr>sh_now := sh_now (shared r) + d\<rparr>\<rparr>
      | Run i \<Rightarrow>
          if i < length (threads r)
          then (let (p, sh) = thread_step cfg base (threads r ! i) (shared r)
                in \<lparr>shared = sh, threads = (threads r)[i := p]\<rparr>)
          else r)"

definition race_run :: "BreakerConfig \<Rightarrow> nat \<Rightarrow> event list \<Rightarrow> Race \<Rightarrow> Race" where
  "race_run cfg base evs r = fold (race_step cfg base) evs r"

definition admitted_threads :: "Race \<Rightarrow> nat" where
  "admitted_threads r = cnt (\<lambda>p. p = admit) (threads r)"

section \<open>A thread that runs alone\<close>

definition alone :: "BreakerConfig \<Rightarrow> nat \<Rightarrow> nat \<Rightarrow> pc \<Rightarrow> Shared \<Rightarrow> pc \<times> Shared" where
  "alone cfg base n p sh = ((\<lambda>(p, sh). thread_step cfg base p sh) ^^ n) (p, sh)"

lemma alone_0 [simp]: "alone cfg base 0 p sh = (p, sh)"
  by (simp add: alone_def)

lemma alone_Suc:
  "alone cfg base (Suc n) p sh =
     (case thread_step cfg base p sh of (p', sh') \<Rightarrow> alone cfg base n p' sh')"
  by (simp add: alone_def funpow_Suc_right split: prod.splits del: funpow.simps)

lemma alone_CheckDone [simp]: "alone cfg base n (CheckDone r) sh = (CheckDone r, sh)"
  by (induction n) (simp_all add: thread_step_def alone_Suc)

lemma alone_RecordDone [simp]: "alone cfg base n RecordDone sh = (RecordDone, sh)"
  by (induction n) (simp_all add: thread_step_def alone_Suc)

definition shared_of :: "nat \<Rightarrow> CircuitBreaker \<Rightarrow> Shared" where
  "shared_of now cb = \<lparr>sh_state = state cb, sh_opened = opened_at_millis cb,
     sh_probes = of_nat (half_open_probes cb), sh_claimed = probe_claimed_at_millis cb,
     sh_fast = is_open_fast cb, sh_window = window cb, sh_now = now\<rparr>"

lemma shared_of_notify [simp]: "shared_of now (notify ev cb) = shared_of now cb"
  by (simp add: shared_of_def)

lemma unat_of_nat_probes: "n < 2 ^ 64 \<Longrightarrow> unat (of_nat n :: 64 word) = n"
  by (simp add: unsigned_of_nat take_bit_nat_eq_self)

lemma alone_probe:
  assumes "half_open_probes cb < 2 ^ 64" "n = Suc (Suc (Suc (Suc (Suc m))))"
  shows "alone (config cb) (baseline cb) n ProbeClock (shared_of t cb) =
    (CheckDone (fst (try_half_open_probe t cb)), shared_of t (snd (try_half_open_probe t cb)))"
  using assms
  by (auto simp: alone_Suc thread_step_def try_half_open_probe_def shared_of_def sh_elapsed_def
      elapsed_millis_def unat_of_nat_probes admit_def shed_def notify_def Let_def add.commute)

lemma alone_step:
  assumes "thread_step cfg base p sh = (p', sh')" "n = Suc m"
  shows "alone cfg base n p sh = alone cfg base m p' sh'"
  using assms by (simp add: alone_Suc)

lemma alone_check_open:
  fixes cb :: CircuitBreaker and t :: nat
  assumes "half_open_probes cb < 2 ^ 64" "state cb = Open"
  shows "alone (config cb) (baseline cb) 9 OpenLoad (shared_of t cb) =
    (CheckDone (fst (check_open t t cb)), shared_of t (snd (check_open t t cb)))"
proof -
  let ?el = "from_millis (elapsed_millis cb t - opened_at_millis cb)"
  let ?cb = "notify (OnStateChange Open HalfOpen ''open_elapsed'')
    (cb\<lparr>state := HalfOpen, is_open_fast := False\<rparr>)"
  have 1: "alone (config cb) (baseline cb) 9 OpenLoad (shared_of t cb) =
    alone (config cb) (baseline cb) 8 (OpenClock (opened_at_millis cb)) (shared_of t cb)"
    by (rule alone_step) (simp_all add: thread_step_def shared_of_def)
  show ?thesis
  proof (cases "open_duration (config cb) \<le> ?el")
    case False
    have "alone (config cb) (baseline cb) 8 (OpenClock (opened_at_millis cb)) (shared_of t cb) =
      alone (config cb) (baseline cb) 7 (shed (open_duration (config cb) - ?el)) (shared_of t cb)"
      using False by (intro alone_step)
        (simp_all add: thread_step_def shared_of_def sh_elapsed_def elapsed_millis_def Let_def)
    with 1 False show ?thesis by (simp add: check_open_def shed_def Let_def)
  next
    case True
    have 2: "alone (config cb) (baseline cb) 8 (OpenClock (opened_at_millis cb)) (shared_of t cb) =
      alone (config cb) (baseline cb) 7 OpenCas (shared_of t cb)"
      using True by (intro alone_step)
        (simp_all add: thread_step_def shared_of_def sh_elapsed_def elapsed_millis_def Let_def)
    have 3: "alone (config cb) (baseline cb) 7 OpenCas (shared_of t cb) =
      alone (config cb) (baseline cb) 6 FastClear ((shared_of t cb)\<lparr>sh_state := HalfOpen\<rparr>)"
      using assms(2) by (intro alone_step) (simp_all add: thread_step_def shared_of_def)
    have 4: "alone (config cb) (baseline cb) 6 FastClear ((shared_of t cb)\<lparr>sh_state := HalfOpen\<rparr>) =
      alone (config cb) (baseline cb) 5 ProbeClock (shared_of t ?cb)"
      by (intro alone_step) (simp_all add: thread_step_def shared_of_def)
    have 5: "alone (config cb) (baseline cb) 5 ProbeClock (shared_of t ?cb) =
      (CheckDone (fst (try_half_open_probe t ?cb)), shared_of t (snd (try_half_open_probe t ?cb)))"
      using alone_probe [of ?cb 5 0 t] assms(1) by simp
    show ?thesis unfolding 1 2 3 4 5 using True by (simp add: check_open_def Let_def)
  qed
qed

lemma alone_check:
  assumes "half_open_probes cb < 2 ^ 64"
  shows "alone (config cb) (baseline cb) 10 CheckLoad (shared_of t cb) =
    (CheckDone (fst (check t t cb)), shared_of t (snd (check t t cb)))"
proof (cases "enabled (config cb) \<and> state cb \<noteq> Closed")
  case False
  have "alone (config cb) (baseline cb) 10 CheckLoad (shared_of t cb) =
    alone (config cb) (baseline cb) 9 admit (shared_of t cb)"
    using False by (intro alone_step) (auto simp: thread_step_def shared_of_def)
  with False show ?thesis by (auto simp: check_def admit_def)
next
  case True
  have 9: "alone (config cb) (baseline cb) 9 ProbeClock (shared_of t cb) =
    (CheckDone (fst (try_half_open_probe t cb)), shared_of t (snd (try_half_open_probe t cb)))"
    by (rule alone_probe [OF assms, where m = 4]) simp
  have "alone (config cb) (baseline cb) 10 CheckLoad (shared_of t cb) =
    alone (config cb) (baseline cb) 9 (if state cb = Open then OpenLoad else ProbeClock) (shared_of t cb)"
    using True by (intro alone_step)
      (auto simp: thread_step_def shared_of_def split: BreakerState.splits)
  with True show ?thesis
    using alone_check_open [OF assms] 9 by (cases "state cb") (simp_all add: check_def)
qed

lemma alone_trip:
  assumes "n = Suc (Suc (Suc (Suc (Suc m))))"
  shows "alone (config cb) (baseline cb) n TripState (shared_of t cb) =
    (RecordDone, shared_of t (trip prev reason t cb))"
  using assms
  by (simp add: alone_Suc thread_step_def trip_def shared_of_def sh_elapsed_def elapsed_millis_def
      notify_def Let_def)

lemma alone_close:
  assumes "n = Suc (Suc (Suc (Suc m)))"
  shows "alone (config cb) (baseline cb) n CloseState (shared_of t cb) =
    (RecordDone, shared_of t (close prev reason cb))"
  using assms by (simp add: alone_Suc thread_step_def close_def shared_of_def notify_def Let_def)

lemma alone_observe_closed:
  assumes "n = Suc (Suc (Suc (Suc (Suc (Suc m)))))"
  shows "alone (config cb) (baseline cb) n (ObserveClosed oc t) (shared_of t cb) =
    (RecordDone, shared_of t (let cb' = observe_window (oc = Failure) t cb
                              in if should_trip cb' then trip prev reason t cb' else cb'))"
proof -
  let ?cb = "observe_window (oc = Failure) t cb"
  have c: "config ?cb = config cb" "baseline ?cb = baseline cb" by (simp_all add: observe_window_def)
  have "alone (config cb) (baseline cb) n (ObserveClosed oc t) (shared_of t cb) =
    alone (config cb) (baseline cb) (Suc (Suc (Suc (Suc (Suc m)))))
      (if should_trip ?cb then TripState else RecordDone) (shared_of t ?cb)"
    using assms by (intro alone_step)
      (simp_all add: thread_step_def sh_observe_def should_trip_def observe_window_def shared_of_def Let_def)
  then show ?thesis using alone_trip [OF refl, of ?cb m] by (simp add: c Let_def)
qed

lemma alone_record:
  "alone (config cb) (baseline cb) 8 (RecordStart oc) (shared_of t cb) =
    (RecordDone, shared_of t (record_outcome oc t t cb))"
proof (cases "enabled (config cb)")
  case False
  have "alone (config cb) (baseline cb) 8 (RecordStart oc) (shared_of t cb) =
    alone (config cb) (baseline cb) 7 RecordDone (shared_of t cb)"
    using False by (intro alone_step) (simp_all add: thread_step_def)
  with False show ?thesis by (simp add: record_outcome_def)
next
  case True
  have 1: "alone (config cb) (baseline cb) 8 (RecordStart oc) (shared_of t cb) =
    alone (config cb) (baseline cb) 7 (RecordLoad oc t) (shared_of t cb)"
    using True by (intro alone_step) (simp_all add: thread_step_def shared_of_def)
  have 2: "alone (config cb) (baseline cb) 7 (RecordLoad oc t) (shared_of t cb) =
    alone (config cb) (baseline cb) 6
      (case state cb of Closed \<Rightarrow> ObserveClosed oc t | Open \<Rightarrow> ObserveOpen oc t
       | HalfOpen \<Rightarrow> if oc = Failure then TripState else CloseState) (shared_of t cb)"
    by (intro alone_step) (simp_all add: thread_step_def shared_of_def split: BreakerState.splits)
  have 3: "alone (config cb) (baseline cb) 6 (ObserveClosed oc t) (shared_of t cb) =
    (RecordDone, shared_of t (let cb' = observe_window (oc = Failure) t cb
                              in if should_trip cb' then trip Closed ''trip'' t cb' else cb'))"
    by (rule alone_observe_closed [where m = 0]) simp
  have 4: "alone (config cb) (baseline cb) 6 (ObserveOpen oc t) (shared_of t cb) =
    alone (config cb) (baseline cb) 5 RecordDone (shared_of t (observe_window (oc = Failure) t cb))"
    by (intro alone_step) (simp_all add: thread_step_def shared_of_def observe_window_def sh_observe_def)
  have 5: "alone (config cb) (baseline cb) 6 TripState (shared_of t cb) =
    (RecordDone, shared_of t (trip HalfOpen ''probe_failure'' t cb))"
    by (rule alone_trip [where m = 1]) simp
  have 6: "alone (config cb) (baseline cb) 6 CloseState (shared_of t cb) =
    (RecordDone, shared_of t (close HalfOpen ''probe_success'' cb))"
    by (rule alone_close [where m = 2]) simp
  show ?thesis unfolding 1 2 using True 3 4 5 6
    by (cases "state cb") (simp_all add: record_outcome_def Let_def)
qed

section \<open>Invariants of every interleaving\<close>

text \<open>The window is only touched under its mutex: its counter is exact at every point. (Its order
  is not kept: \<open>record\<close> reads the clock before it takes the lock.)\<close>

definition counter_exact :: "SlidingWindow \<Rightarrow> bool" where
  "counter_exact w \<longleftrightarrow> failures w = failed_count (entries w) \<and> length (entries w) \<le> MAX_WINDOW_ENTRIES"

lemma evict_loop_exact:
  "f = failed_count es \<Longrightarrow>
     snd (evict_loop c es f) = failed_count (fst (evict_loop c es f))
     \<and> length (fst (evict_loop c es f)) \<le> length es"
  by (induction c es f rule: evict_loop.induct) (auto simp: le_SucI split: if_splits)

lemma window_clear_exact [simp]: "counter_exact (window_clear w)"
  by (simp add: counter_exact_def window_clear_def)

lemma window_evict_exact: "counter_exact w \<Longrightarrow> counter_exact (window_evict win now w)"
  using evict_loop_exact [of "failures w" "entries w" "now - win"]
  by (auto simp: counter_exact_def window_evict_def split: prod.splits)

lemma window_push_exact: "counter_exact w \<Longrightarrow> counter_exact (window_push b t w)"
  by (cases "entries w") (auto simp: counter_exact_def window_push_def Let_def MAX_WINDOW_ENTRIES_def)

lemma sh_observe_exact: "counter_exact w \<Longrightarrow> counter_exact (sh_observe cfg oc now w)"
  by (simp add: sh_observe_def window_push_exact window_evict_exact)

lemma thread_step_window:
  "counter_exact (sh_window sh) \<Longrightarrow> counter_exact (sh_window (snd (thread_step cfg base p sh)))"
  by (cases p) (auto simp: thread_step_def sh_observe_exact Let_def
      split: BreakerState.splits)

lemma race_step_window:
  "counter_exact (sh_window (shared r)) \<Longrightarrow> counter_exact (sh_window (shared (race_step cfg base ev r)))"
  using thread_step_window [of "shared r" cfg base]
  by (auto simp: race_step_def split: event.splits prod.splits) (metis snd_conv)

lemma race_run_window:
  "counter_exact (sh_window (shared r)) \<Longrightarrow> counter_exact (sh_window (shared (race_run cfg base evs r)))"
  unfolding race_run_def by (induction evs arbitrary: r) (simp_all add: race_step_window)

section \<open>How many concurrent checks are admitted\<close>

text \<open>The clock readings a thread holds lie in one lease, and a claim about to be taken over was made
  before it.\<close>

fun pc_ok :: "nat \<Rightarrow> nat \<Rightarrow> pc \<Rightarrow> bool" where
  "pc_ok lo hi (ProbeAdd now) \<longleftrightarrow> lo \<le> now \<and> now < hi"
| "pc_ok lo hi (ProbeStore now) \<longleftrightarrow> lo \<le> now \<and> now < hi"
| "pc_ok lo hi (ProbeSub now) \<longleftrightarrow> lo \<le> now \<and> now < hi"
| "pc_ok lo hi (ProbeClaim now) \<longleftrightarrow> lo \<le> now \<and> now < hi"
| "pc_ok lo hi (ProbeCas now claimed) \<longleftrightarrow> lo \<le> now \<and> now < hi \<and> claimed < lo"
| "pc_ok lo hi ProbeClock \<longleftrightarrow> True"
| "pc_ok lo hi (CheckDone r) \<longleftrightarrow> True"
| "pc_ok lo hi p \<longleftrightarrow> is_check_pc p"

fun is_store :: "pc \<Rightarrow> bool" where
  "is_store (ProbeStore _) = True"
| "is_store _ = False"

fun is_sub :: "pc \<Rightarrow> bool" where
  "is_sub (ProbeSub _) = True"
| "is_sub _ = False"

abbreviation is_admit :: "pc \<Rightarrow> bool" where "is_admit p \<equiv> p = admit"

text \<open>\<open>slots\<close> callers were admitted on a slot of the counter and \<open>k\<close> by taking over a claim.\<close>

definition probe_inv :: "BreakerConfig \<Rightarrow> nat \<Rightarrow> nat \<Rightarrow> nat \<Rightarrow> nat \<Rightarrow> Race \<Rightarrow> bool" where
  "probe_inv cfg lo hi slots k r \<longleftrightarrow>
     cnt is_admit (threads r) = slots + k \<and> k \<le> 1 \<and> (k = 1 \<longrightarrow> lo \<le> sh_claimed (shared r))
     \<and> sh_probes (shared r) = of_nat (slots + cnt is_store (threads r) + cnt is_sub (threads r))
     \<and> slots + cnt is_store (threads r) \<le> half_open_max_probes cfg
     \<and> sh_state (shared r) \<noteq> Closed \<and> (\<forall>p \<in> set (threads r). pc_ok lo hi p)
     \<and> length (threads r) < 2 ^ 64"

lemma cnt3_le: "cnt is_admit ts + cnt is_store ts + cnt is_sub ts \<le> length ts"
proof (induction ts)
  case (Cons p ts)
  then show ?case by (cases p) (auto simp: admit_def)
qed simp

lemma pc_kinds:
  "is_store p \<Longrightarrow> \<not> is_sub p \<and> p \<noteq> admit" "is_sub p \<Longrightarrow> \<not> is_store p \<and> p \<noteq> admit"
  "\<not> is_store admit" "\<not> is_sub admit"
  by (cases p; simp add: admit_def)+

text \<open>One step of a thread, classified by its effect on the counts, the counter and the claim.\<close>

datatype probe_effect = Neutral | TakeSlot | MissSlot | AdmitSlot | ReturnSlot | TakeOver

fun effect_ok :: "BreakerConfig \<Rightarrow> nat \<Rightarrow> probe_effect \<Rightarrow> pc \<Rightarrow> Shared \<Rightarrow> pc \<Rightarrow> Shared \<Rightarrow> bool" where
  "effect_ok cfg lo Neutral p sh p' sh' \<longleftrightarrow>
     (is_admit p' \<longleftrightarrow> is_admit p) \<and> \<not> is_store p \<and> \<not> is_store p' \<and> \<not> is_sub p \<and> \<not> is_sub p' \<and>
     sh_probes sh' = sh_probes sh \<and> sh_claimed sh' = sh_claimed sh"
| "effect_ok cfg lo TakeSlot p sh p' sh' \<longleftrightarrow>
     \<not> is_admit p \<and> \<not> is_store p \<and> \<not> is_sub p \<and> is_store p' \<and>
     unat (sh_probes sh) < half_open_max_probes cfg \<and>
     sh_probes sh' = sh_probes sh + 1 \<and> sh_claimed sh' = sh_claimed sh"
| "effect_ok cfg lo MissSlot p sh p' sh' \<longleftrightarrow>
     \<not> is_admit p \<and> \<not> is_store p \<and> \<not> is_sub p \<and> is_sub p' \<and>
     sh_probes sh' = sh_probes sh + 1 \<and> sh_claimed sh' = sh_claimed sh"
| "effect_ok cfg lo AdmitSlot p sh p' sh' \<longleftrightarrow>
     is_store p \<and> is_admit p' \<and> sh_probes sh' = sh_probes sh \<and> lo \<le> sh_claimed sh'"
| "effect_ok cfg lo ReturnSlot p sh p' sh' \<longleftrightarrow>
     is_sub p \<and> \<not> is_admit p' \<and> \<not> is_store p' \<and> \<not> is_sub p' \<and>
     sh_probes sh' = sh_probes sh - 1 \<and> sh_claimed sh' = sh_claimed sh"
| "effect_ok cfg lo TakeOver p sh p' sh' \<longleftrightarrow>
     \<not> is_admit p \<and> \<not> is_store p \<and> \<not> is_sub p \<and> is_admit p' \<and>
     sh_probes sh' = sh_probes sh \<and> sh_claimed sh < lo \<and> lo \<le> sh_claimed sh'"

lemma thread_step_effect:
  assumes "pc_ok lo hi p" "sh_state sh \<noteq> Closed" "enabled cfg"
    "lo \<le> sh_elapsed base sh" "sh_elapsed base sh < hi" "hi = lo + millis (open_duration cfg)"
    "thread_step cfg base p sh = (p', sh')"
  shows "\<exists>e. effect_ok cfg lo e p sh p' sh'" "pc_ok lo hi p'" "sh_state sh' \<noteq> Closed"
    "sh_now sh' = sh_now sh"
proof -
  consider "effect_ok cfg lo Neutral p sh p' sh'" | "effect_ok cfg lo TakeSlot p sh p' sh'"
    | "effect_ok cfg lo MissSlot p sh p' sh'" | "effect_ok cfg lo AdmitSlot p sh p' sh'"
    | "effect_ok cfg lo ReturnSlot p sh p' sh'" | "effect_ok cfg lo TakeOver p sh p' sh'"
    using assms
    by (cases p) (auto simp: thread_step_def admit_def shed_def Let_def
        split: BreakerState.splits if_splits)
  then show "\<exists>e. effect_ok cfg lo e p sh p' sh'" by cases blast+
  show "pc_ok lo hi p'" "sh_state sh' \<noteq> Closed" "sh_now sh' = sh_now sh"
    using assms
    by (cases p; auto simp: thread_step_def admit_def shed_def Let_def
        split: BreakerState.splits if_splits)+
qed

lemma probe_inv_Run:
  assumes inv: "probe_inv cfg lo hi slots k r" and i: "i < length (threads r)"
    and ts: "thread_step cfg base (threads r ! i) (shared r) = (p', sh')"
    and e: "effect_ok cfg lo e (threads r ! i) (shared r) p' sh'"
    and ok: "pc_ok lo hi p'" "sh_state sh' \<noteq> Closed"
  shows "\<exists>slots k. probe_inv cfg lo hi slots k \<lparr>shared = sh', threads = (threads r)[i := p']\<rparr>"
proof -
  let ?ts = "threads r" and ?ts' = "(threads r)[i := p']"
  note c = cnt_update [OF i, of is_admit p'] cnt_update [OF i, of is_store p']
    cnt_update [OF i, of is_sub p']
  let ?n = "slots + cnt is_store ?ts + cnt is_sub ?ts"
  have n: "?n < 2 ^ 64" using inv cnt3_le [of ?ts] by (simp add: probe_inv_def)
  have u: "unat (sh_probes (shared r)) = ?n"
    using inv unat_of_nat_probes [OF n] by (simp add: probe_inv_def)
  have w: "sh_probes (shared r) = of_nat ?n" using inv by (simp add: probe_inv_def)
  have rest: "\<forall>p \<in> set ?ts'. pc_ok lo hi p" "length ?ts' < 2 ^ 64"
    using inv ok(1) set_update_subset_insert [of ?ts i p'] by (auto simp: probe_inv_def)
  note facts = inv [unfolded probe_inv_def] c e ok(2) rest u w
  have neutral: "probe_inv cfg lo hi slots k \<lparr>shared = sh', threads = ?ts'\<rparr>" if "e = Neutral"
    using facts that by (auto simp: probe_inv_def split: if_splits)
  have take: "probe_inv cfg lo hi slots k \<lparr>shared = sh', threads = ?ts'\<rparr>" if "e = TakeSlot"
    using facts that by (auto simp: probe_inv_def pc_kinds(3,4) dest: pc_kinds(1,2) split: if_splits)
  have miss: "probe_inv cfg lo hi slots k \<lparr>shared = sh', threads = ?ts'\<rparr>" if "e = MissSlot"
    using facts that by (auto simp: probe_inv_def pc_kinds(3,4) dest: pc_kinds(1,2) split: if_splits)
  have store: "cnt is_store ?ts = Suc (cnt is_store ?ts')" if "e = AdmitSlot"
    using c(2) e that by (auto simp: pc_kinds(3,4))
  have adm: "probe_inv cfg lo hi (Suc slots) k \<lparr>shared = sh', threads = ?ts'\<rparr>" if "e = AdmitSlot"
    using inv [unfolded probe_inv_def] c(1,3) e ok(2) rest w store [OF that] that
    by (auto simp: probe_inv_def pc_kinds(3,4) dest: pc_kinds(1,2) split: if_splits)
  have sub: "cnt is_sub ?ts = Suc (cnt is_sub ?ts')" if "e = ReturnSlot"
    using c(3) e that by (auto simp: pc_kinds(3,4))
  have ret: "probe_inv cfg lo hi slots k \<lparr>shared = sh', threads = ?ts'\<rparr>" if "e = ReturnSlot"
    using inv [unfolded probe_inv_def] c(1,2) e ok(2) rest w sub [OF that] that
    by (auto simp: probe_inv_def pc_kinds(3,4) dest: pc_kinds(1,2) split: if_splits)
  have over: "probe_inv cfg lo hi slots 1 \<lparr>shared = sh', threads = ?ts'\<rparr>" if "e = TakeOver"
    using facts that by (auto simp: probe_inv_def pc_kinds(3,4) dest: pc_kinds(1,2) split: if_splits)
  show ?thesis using neutral take miss adm ret over by (cases e) blast+
qed

lemma race_step_now: "sh_now (shared r) \<le> sh_now (shared (race_step cfg base ev r))"
proof (cases ev)
  case (Run i)
  have "sh_now (snd (thread_step cfg base p sh)) = sh_now sh" for p sh
    by (cases p) (auto simp: thread_step_def Let_def split: BreakerState.splits)
  from this [of "threads r ! i" "shared r"] show ?thesis
    by (auto simp: Run race_step_def split: prod.splits)
qed (simp add: race_step_def)

lemma race_run_Cons: "race_run cfg base (ev # evs) r = race_run cfg base evs (race_step cfg base ev r)"
  by (simp add: race_run_def)

lemma race_run_now: "sh_now (shared r) \<le> sh_now (shared (race_run cfg base evs r))"
proof (induction evs arbitrary: r)
  case (Cons ev evs)
  show ?case unfolding race_run_Cons
    using order_trans [OF race_step_now Cons.IH] .
qed (simp add: race_run_def)

lemma probe_inv_step:
  assumes "probe_inv cfg lo hi slots k r" "enabled cfg" "hi = lo + millis (open_duration cfg)"
    "lo \<le> sh_elapsed base (shared r)" "sh_elapsed base (shared r) < hi"
  shows "\<exists>slots k. probe_inv cfg lo hi slots k (race_step cfg base ev r)"
proof (cases "\<exists>i < length (threads r). ev = Run i")
  case True
  then obtain i where i: "i < length (threads r)" "ev = Run i" by blast
  obtain p' sh' where ts: "thread_step cfg base (threads r ! i) (shared r) = (p', sh')"
    by (cases "thread_step cfg base (threads r ! i) (shared r)")
  have p: "pc_ok lo hi (threads r ! i)" "sh_state (shared r) \<noteq> Closed"
    using assms(1) i(1) by (auto simp: probe_inv_def)
  note te = thread_step_effect [OF p assms(2,4,5,3) ts]
  from te(1) obtain e where "effect_ok cfg lo e (threads r ! i) (shared r) p' sh'" ..
  from probe_inv_Run [OF assms(1) i(1) ts this te(2,3)] show ?thesis
    by (simp add: race_step_def i ts)
next
  case False
  then have "probe_inv cfg lo hi slots k (race_step cfg base ev r)"
    using assms(1) by (cases ev) (auto simp: race_step_def probe_inv_def)
  then show ?thesis by blast
qed

lemma elapsed_in_lease:
  assumes "lo \<le> (sh_now sh - base) div 1000000" "(m - base) div 1000000 < min (2 ^ 64) hi" "sh_now sh \<le> m"
  shows "lo \<le> sh_elapsed base sh" "sh_elapsed base sh < hi"
proof -
  have "(sh_now sh - base) div 1000000 \<le> (m - base) div 1000000"
    using assms(3) by (intro div_le_mono diff_le_mono)
  then have "(sh_now sh - base) div 1000000 < 2 ^ 64" "(sh_now sh - base) div 1000000 < hi"
    using assms(2) by simp_all
  then show "lo \<le> sh_elapsed base sh" "sh_elapsed base sh < hi"
    using assms(1) by (simp_all add: sh_elapsed_def millis_def)
qed

lemma probe_inv_run:
  assumes "probe_inv cfg lo hi slots k r" "enabled cfg" "hi = lo + millis (open_duration cfg)"
    "lo \<le> (sh_now (shared r) - base) div 1000000"
    "(sh_now (shared (race_run cfg base evs r)) - base) div 1000000 < min (2 ^ 64) hi"
  shows "\<exists>slots k. probe_inv cfg lo hi slots k (race_run cfg base evs r)"
  using assms
proof (induction evs arbitrary: r slots k)
  case Nil
  then show ?case by (auto simp: race_run_def)
next
  case (Cons ev evs)
  note el = elapsed_in_lease [OF Cons.prems(4,5) race_run_now]
  from probe_inv_step [OF Cons.prems(1,2,3) el] obtain slots' k' where
    "probe_inv cfg lo hi slots' k' (race_step cfg base ev r)" by blast
  moreover have "lo \<le> (sh_now (shared (race_step cfg base ev r)) - base) div 1000000"
    using Cons.prems(4) race_step_now [of r cfg base ev]
    by (meson diff_le_mono div_le_mono order_trans)
  ultimately show ?case using Cons.IH Cons.prems(2,3,5) by (simp add: race_run_Cons)
qed

lemma cnt_replicate [simp]: "cnt P (replicate n x) = (if P x then n else 0)"
  by (induction n) auto

lemma probe_inv_start:
  "sh_state sh \<noteq> Closed \<Longrightarrow> sh_probes sh = 0 \<Longrightarrow> n < 2 ^ 64 \<Longrightarrow>
   probe_inv cfg lo hi 0 0 \<lparr>shared = sh, threads = replicate n CheckLoad\<rparr>"
  by (simp add: probe_inv_def admit_def)

section \<open>A breaker that has tripped, and one whose probe is in flight\<close>

definition race_cfg :: BreakerConfig where
  "race_cfg = config_server\<lparr>min_samples := 1\<rparr>"

definition tripped :: CircuitBreaker where
  "tripped = record_outcome Failure 5000000 5000000 (with_clock race_cfg 0)"

definition probing :: CircuitBreaker where
  "probing = snd (check 10005000000 10005000000 tripped)"

lemma tripped_fields:
  "config tripped = race_cfg" "baseline tripped = 0" "state tripped = Open"
  "opened_at_millis tripped = 5" "half_open_probes tripped = 0" "probe_claimed_at_millis tripped = 0"
  "is_open_fast tripped"
proof -
  have "should_trip (observe_window True 5000000 (with_clock race_cfg 0))"
    by (subst should_trip_observed [OF with_clock_inv])
      (simp_all add: recent_samples_def with_clock_def race_cfg_def config_server_def window_new_def
        MAX_WINDOW_ENTRIES_def)
  then show "config tripped = race_cfg" "baseline tripped = 0" "state tripped = Open"
    "opened_at_millis tripped = 5" "half_open_probes tripped = 0" "probe_claimed_at_millis tripped = 0"
    "is_open_fast tripped"
    by (simp_all add: tripped_def record_outcome_def trip_def with_clock_def race_cfg_def
        config_server_def observe_window_def elapsed_millis_def millis_def Let_def)
qed

lemma race_cfg_simps [simp]:
  "enabled race_cfg" "open_duration race_cfg = 10000000000" "half_open_max_probes race_cfg = 1"
  by (simp_all add: race_cfg_def config_server_def secs_def)

lemma probing_fields:
  "config probing = race_cfg" "baseline probing = 0" "state probing = HalfOpen"
  "opened_at_millis probing = 5" "half_open_probes probing = 1"
  "probe_claimed_at_millis probing = 10005" "\<not> is_open_fast probing"
  by (simp_all add: probing_def check_def check_open_def try_half_open_probe_def tripped_fields
      elapsed_millis_def millis_def from_millis_def Let_def)

lemma tripped_reachable: "cb_reachable race_cfg 5000000 tripped"
  unfolding tripped_def by (rule cb_reachable.record_outcome [OF cb_reachable.init]) simp_all

lemma probing_reachable: "cb_reachable race_cfg 10005000000 probing"
  unfolding probing_def by (rule cb_reachable.check [OF tripped_reachable]) simp_all

lemmas race_eval = race_run_def race_step_def thread_step_def shared_of_def sh_elapsed_def millis_def
  from_millis_def admit_def shed_def Let_def

section \<open>Properties\<close>



text \<open>C16. Under every interleaving of any number of concurrent checks and of the clock, within one
  lease of an open or half-open breaker whose counter is zero, at most one caller more than the
  configured number of probes is admitted.\<close>

theorem concurrent_probe_bound:
  assumes "enabled cfg" "sh_state sh \<noteq> Closed" "sh_probes sh = 0" "n < 2 ^ 64"
    "lo \<le> (sh_now sh - base) div 1000000"
    "r = race_run cfg base evs \<lparr>shared = sh, threads = replicate n CheckLoad\<rparr>"
    "(sh_now (shared r) - base) div 1000000 < min (2 ^ 64) (lo + millis (open_duration cfg))"
  shows "admitted_threads r \<le> half_open_max_probes cfg + 1"
proof -
  have "\<exists>slots k. probe_inv cfg lo (lo + millis (open_duration cfg)) slots k r"
    unfolding assms(6)
    by (rule probe_inv_run [OF probe_inv_start [OF assms(2-4)] assms(1) refl])
      (use assms(5) assms(7) [unfolded assms(6)] in simp_all)
  then obtain slots k where "probe_inv cfg lo (lo + millis (open_duration cfg)) slots k r" by blast
  then show ?thesis by (simp add: probe_inv_def admitted_threads_def)
qed

theorem concurrent_probe_bound_witness:
  "admitted_threads (race_run race_cfg 0 [Run 0, Run 1, Run 0, Tick 7, Run 2]
     \<lparr>shared = shared_of 10005000000 tripped, threads = replicate 3 CheckLoad\<rparr>) \<le> 2"
proof -
  let ?r = "race_run race_cfg 0 [Run 0, Run 1, Run 0, Tick 7, Run 2]
    \<lparr>shared = shared_of 10005000000 tripped, threads = replicate 3 CheckLoad\<rparr>"
  have now: "sh_now (shared ?r) = 10005000007"
    by (simp add: race_eval tripped_fields numeral_3_eq_3)
  have "admitted_threads ?r \<le> half_open_max_probes race_cfg + 1"
    by (rule concurrent_probe_bound [where lo = 10005, OF _ _ _ _ _ refl], unfold now)
      (simp_all add: shared_of_def tripped_fields millis_def)
  then show ?thesis by simp
qed

text \<open>The bound is reached: two checks on a cooled-down breaker with one probe slot are both
  admitted when the loser reads the claim time between the winner's \<open>fetch_add\<close> and its store of
  the claim. The claim it reads is the initial zero, which looks abandoned.\<close>

theorem two_probes_admitted:
  "cb_reachable race_cfg 5000000 tripped \<and> half_open_max_probes race_cfg = 1
   \<and> (let r = race_run race_cfg 0
          [Run 0, Run 0, Run 0, Run 0, Run 0, Run 0, Run 0,
           Run 1, Run 1, Run 1, Run 1, Run 1, Run 1, Run 0]
          \<lparr>shared = shared_of 10005000000 tripped, threads = [CheckLoad, CheckLoad]\<rparr>
      in admitted_threads r = 2)"
  using tripped_reachable by (simp add: race_eval tripped_fields admitted_threads_def)

text \<open>\<open>trip\<close> publishes \<open>Open\<close> before it stores \<open>opened_at_millis\<close>: when a probe fails, a check
  that runs between the two stores measures the cool-down from the previous trip and is admitted
  at once, with no time passed. The breaker is left half-open with \<open>is_open\<close> answering true.\<close>

theorem failed_probe_skips_cooldown:
  "cb_reachable race_cfg 10005000000 probing
   \<and> (let r = race_run race_cfg 0
          [Run 0, Run 0, Run 0, Run 1, Run 1, Run 1, Run 1, Run 1,
           Run 0, Run 0, Run 0, Run 0, Run 1, Run 1, Run 1]
          \<lparr>shared = shared_of 10005000000 probing, threads = [RecordStart Failure, CheckLoad]\<rparr>
      in threads r = [RecordDone, CheckDone (Ok ())] \<and> sh_now (shared r) = 10005000000
         \<and> sh_state (shared r) = HalfOpen \<and> sh_fast (shared r))"
  using probing_reachable by (simp add: race_eval probing_fields)

text \<open>A rejected caller gives its slot back with \<open>fetch_sub\<close>; when a failing probe resets the
  counter in between, the counter wraps below zero to \<open>2^64 - 1\<close>.\<close>

theorem probe_counter_wraps:
  "cb_reachable race_cfg 10005000000 probing
   \<and> (let r = race_run race_cfg 0
          [Run 1, Run 1, Run 1, Run 0, Run 0, Run 0, Run 0, Run 0, Run 0, Run 0, Run 1]
          \<lparr>shared = shared_of 10005000000 probing, threads = [RecordStart Failure, CheckLoad]\<rparr>
      in unat (sh_probes (shared r)) = 2 ^ 64 - 1 \<and> sh_state (shared r) = Open)"
  using probing_reachable
  by (simp add: race_eval probing_fields unsigned_minus_1_eq_mask mask_eq_exp_minus_1)

text \<open>The window is consistent at every point of every interleaving of any calls: its failure
  counter is the number of failed samples it holds, so no decrement underflows, and it is within
  its cap.\<close>

theorem concurrent_window_exact:
  assumes "cb_reachable cfg t cb"
  shows "let w = sh_window (shared (race_run cfg' base evs \<lparr>shared = shared_of t' cb, threads = ts\<rparr>))
    in failures w = length (filter snd (entries w)) \<and> length (entries w) \<le> MAX_WINDOW_ENTRIES"
proof -
  have "counter_exact (window cb)"
    using cb_reachable_inv [OF assms] by (simp add: cb_inv_def window_inv_def counter_exact_def)
  then have "counter_exact (sh_window (shared
      (race_run cfg' base evs \<lparr>shared = shared_of t' cb, threads = ts\<rparr>)))"
    by (intro race_run_window) (simp add: shared_of_def)
  then show ?thesis by (simp add: counter_exact_def failed_count_def Let_def)
qed

theorem concurrent_window_exact_witness:
  "length (entries (sh_window (shared (race_run race_cfg 0 [Run 0, Run 0, Run 0]
     \<lparr>shared = shared_of 6000000 tripped, threads = [RecordStart Failure]\<rparr>)))) \<le> MAX_WINDOW_ENTRIES"
  using concurrent_window_exact [OF tripped_reachable] by (simp add: Let_def)

end
