(* ===== verification/Patch_Parser.thy ===== *)
theory Patch_Parser
  imports Prelude
begin

text \<open>
  The parser of the codex patch format (\<open>codex/apply_patch/parser.rs\<close>, \<open>errors.rs\<close>), a printer for
  parsed patches, and the proofs that the parser consumes lines it has, ends, and reads back what
  the printer writes. A path is the string it is written as.
\<close>

section \<open>Errors and markers\<close>

datatype ParseError = InvalidPatchError rstr | InvalidHunkError rstr nat

definition BEGIN_PATCH_MARKER :: rstr where "BEGIN_PATCH_MARKER = lit ''*** Begin Patch''"
definition END_PATCH_MARKER :: rstr where "END_PATCH_MARKER = lit ''*** End Patch''"
definition ADD_FILE_MARKER :: rstr where "ADD_FILE_MARKER = lit ''*** Add File: ''"
definition DELETE_FILE_MARKER :: rstr where "DELETE_FILE_MARKER = lit ''*** Delete File: ''"
definition UPDATE_FILE_MARKER :: rstr where "UPDATE_FILE_MARKER = lit ''*** Update File: ''"
definition MOVE_TO_MARKER :: rstr where "MOVE_TO_MARKER = lit ''*** Move to: ''"
definition EOF_MARKER :: rstr where "EOF_MARKER = lit ''*** End of File''"
definition CHANGE_CONTEXT_MARKER :: rstr where "CHANGE_CONTEXT_MARKER = lit ''@@ ''"
definition EMPTY_CHANGE_CONTEXT_MARKER :: rstr where "EMPTY_CHANGE_CONTEXT_MARKER = lit ''@@''"

lemmas marker_defs = BEGIN_PATCH_MARKER_def END_PATCH_MARKER_def ADD_FILE_MARKER_def
  DELETE_FILE_MARKER_def UPDATE_FILE_MARKER_def MOVE_TO_MARKER_def EOF_MARKER_def
  CHANGE_CONTEXT_MARKER_def EMPTY_CHANGE_CONTEXT_MARKER_def

section \<open>Parsed patches\<close>

record UpdateFileChunk =
  change_context :: "rstr option"
  old_lines :: "rstr list"
  new_lines :: "rstr list"
  is_end_of_file :: bool

datatype Hunk =
    AddFile rstr rstr
  | DeleteFile rstr
  | UpdateFile rstr "rstr option" "UpdateFileChunk list"

record ParsedPatch =
  hunks :: "Hunk list"
  patch :: rstr

section \<open>Boundaries\<close>

definition check_start_and_end_lines_strict ::
  "rstr option \<Rightarrow> rstr option \<Rightarrow> (ParseError, unit) result" where
  "check_start_and_end_lines_strict first_line last_line =
     (case (map_option trim first_line, map_option trim last_line) of
        (Some first, Some final) \<Rightarrow>
          if first = BEGIN_PATCH_MARKER \<and> final = END_PATCH_MARKER then Ok ()
          else if first \<noteq> BEGIN_PATCH_MARKER
          then Err (InvalidPatchError (lit ''The first line of the patch must be '' @ [39]
                      @ lit ''*** Begin Patch'' @ [39]))
          else Err (InvalidPatchError (lit ''The last line of the patch must be '' @ [39]
                      @ lit ''*** End Patch'' @ [39]))
      | (Some first, None) \<Rightarrow>
          if first \<noteq> BEGIN_PATCH_MARKER
          then Err (InvalidPatchError (lit ''The first line of the patch must be '' @ [39]
                      @ lit ''*** Begin Patch'' @ [39]))
          else Err (InvalidPatchError (lit ''The last line of the patch must be '' @ [39]
                      @ lit ''*** End Patch'' @ [39]))
      | _ \<Rightarrow> Err (InvalidPatchError (lit ''The last line of the patch must be '' @ [39]
                      @ lit ''*** End Patch'' @ [39])))"

definition check_patch_boundaries_strict :: "rstr list \<Rightarrow> (ParseError, unit) result" where
  "check_patch_boundaries_strict ls =
     (case ls of
        [] \<Rightarrow> check_start_and_end_lines_strict None None
      | f # rest \<Rightarrow> check_start_and_end_lines_strict (Some f) (Some (last ls)))"

definition heredoc_open :: "rstr \<Rightarrow> bool" where
  "heredoc_open l \<longleftrightarrow> l = lit ''<<EOF'' \<or> l = lit ''<<'' @ [39] @ lit ''EOF'' @ [39]
     \<or> l = lit ''<<'' @ [34] @ lit ''EOF'' @ [34]"

definition check_patch_boundaries_lenient ::
  "rstr list \<Rightarrow> ParseError \<Rightarrow> (ParseError, rstr list) result" where
  "check_patch_boundaries_lenient original_lines original_parse_error =
     (case original_lines of
        first # second # rest \<Rightarrow>
          if heredoc_open first \<and> ends_with (lit ''EOF'') (last original_lines)
             \<and> 4 \<le> length original_lines
          then (let inner_lines = butlast (tl original_lines)
                in case check_patch_boundaries_strict inner_lines of
                     Ok _ \<Rightarrow> Ok inner_lines
                   | Err e \<Rightarrow> Err e)
          else Err original_parse_error
      | _ \<Rightarrow> Err original_parse_error)"

section \<open>Chunks\<close>

definition no_lines_error :: "nat \<Rightarrow> ParseError" where
  "no_lines_error n = InvalidHunkError (lit ''Update hunk does not contain any lines'') n"

definition unexpected_line_error :: "rstr \<Rightarrow> nat \<Rightarrow> ParseError" where
  "unexpected_line_error l n = InvalidHunkError
     (lit ''Unexpected line found in update hunk: '' @ [39] @ l @ [39]
      @ lit ''. Every line should start with '' @ [39] @ lit '' '' @ [39] @ lit '' (context line), ''
      @ [39] @ lit ''+'' @ [39] @ lit '' (added line), or '' @ [39] @ lit ''-'' @ [39]
      @ lit '' (removed line)'') n"

text \<open>The \<open>for\<close> loop over the lines of a chunk; it returns the chunk and the lines counted.\<close>

fun chunk_loop ::
  "rstr list \<Rightarrow> UpdateFileChunk \<Rightarrow> nat \<Rightarrow> nat \<Rightarrow> (ParseError, UpdateFileChunk \<times> nat) result" where
  "chunk_loop [] chunk parsed_lines line_number = Ok (chunk, parsed_lines)"
| "chunk_loop (line # ls) chunk parsed_lines line_number =
     (if line = EOF_MARKER
      then (if parsed_lines = 0 then Err (no_lines_error (line_number + 1))
            else Ok (chunk\<lparr>is_end_of_file := True\<rparr>, parsed_lines + 1))
      else (case line of
              [] \<Rightarrow> chunk_loop ls
                     (chunk\<lparr>old_lines := old_lines chunk @ [[]], new_lines := new_lines chunk @ [[]]\<rparr>)
                     (parsed_lines + 1) line_number
            | c # rest \<Rightarrow>
                if c = 32
                then chunk_loop ls
                       (chunk\<lparr>old_lines := old_lines chunk @ [rest], new_lines := new_lines chunk @ [rest]\<rparr>)
                       (parsed_lines + 1) line_number
                else if c = 43
                then chunk_loop ls (chunk\<lparr>new_lines := new_lines chunk @ [rest]\<rparr>)
                       (parsed_lines + 1) line_number
                else if c = 45
                then chunk_loop ls (chunk\<lparr>old_lines := old_lines chunk @ [rest]\<rparr>)
                       (parsed_lines + 1) line_number
                else if parsed_lines = 0
                then Err (unexpected_line_error line (line_number + 1))
                else Ok (chunk, parsed_lines)))"

definition chunk_header :: "rstr \<Rightarrow> nat \<Rightarrow> bool \<Rightarrow> (ParseError, rstr option \<times> nat) result" where
  "chunk_header first line_number allow_missing_context =
     (if first = EMPTY_CHANGE_CONTEXT_MARKER then Ok (None, 1)
      else case strip_prefix CHANGE_CONTEXT_MARKER first of
             Some context \<Rightarrow> Ok (Some context, 1)
           | None \<Rightarrow>
               if \<not> allow_missing_context
               then Err (InvalidHunkError
                      (lit ''Expected update hunk to start with a @@ context marker, got: ''
                       @ [39] @ first @ [39]) line_number)
               else Ok (None, 0))"

definition parse_update_file_chunk ::
  "rstr list \<Rightarrow> nat \<Rightarrow> bool \<Rightarrow> (ParseError, UpdateFileChunk \<times> nat) result" where
  "parse_update_file_chunk ls line_number allow_missing_context =
     (case ls of
        [] \<Rightarrow> Err (no_lines_error line_number)
      | first # _ \<Rightarrow>
          (case chunk_header first line_number allow_missing_context of
             Err e \<Rightarrow> Err e
           | Ok (ctx, start_index) \<Rightarrow>
               if length ls \<le> start_index then Err (no_lines_error (line_number + 1))
               else (case chunk_loop (drop start_index ls)
                            \<lparr>change_context = ctx, old_lines = [], new_lines = [], is_end_of_file = False\<rparr>
                            0 line_number of
                       Err e \<Rightarrow> Err e
                     | Ok (chunk, parsed_lines) \<Rightarrow> Ok (chunk, parsed_lines + start_index))))"

text \<open>A chunk consumes at least one line and no more than there are.\<close>

lemma chunk_loop_consumes:
  "chunk_loop ls c p n = Ok (c', k) \<Longrightarrow> p \<le> k \<and> k \<le> p + length ls \<and> (ls \<noteq> [] \<longrightarrow> 1 \<le> k)"
  by (induction ls c p n arbitrary: c' k rule: chunk_loop.induct)
    (fastforce split: if_splits list.splits)+

lemma parse_update_file_chunk_consumes:
  assumes "parse_update_file_chunk ls n a = Ok (c, k)"
  shows "1 \<le> k" "k \<le> length ls"
proof -
  obtain l ls' where ls: "ls = l # ls'" using assms
    by (cases ls) (auto simp: parse_update_file_chunk_def)
  obtain ctx s where h: "chunk_header l n a = Ok (ctx, s)" using assms
    by (auto simp: parse_update_file_chunk_def ls split: sum.splits)
  then have "s \<le> 1" by (auto simp: chunk_header_def split: if_splits option.splits)
  from assms h obtain p where s: "s < length ls" and k: "k = p + s" and
    p: "chunk_loop (drop s ls) \<lparr>change_context = ctx, old_lines = [], new_lines = [], is_end_of_file = False\<rparr>
          0 n = Ok (c, p)"
    by (auto simp: parse_update_file_chunk_def ls split: if_splits sum.splits prod.splits)
  from chunk_loop_consumes [OF p] s show "1 \<le> k" "k \<le> length ls" unfolding k by auto
qed

section \<open>Hunks\<close>

fun add_loop :: "rstr list \<Rightarrow> rstr \<Rightarrow> nat \<Rightarrow> rstr \<times> nat" where
  "add_loop [] contents parsed_lines = (contents, parsed_lines)"
| "add_loop (add_line # ls) contents parsed_lines =
     (case strip_prefix (lit ''+'') add_line of
        Some line_to_add \<Rightarrow> add_loop ls (contents @ line_to_add @ [nl]) (parsed_lines + 1)
      | None \<Rightarrow> (contents, parsed_lines))"

text \<open>The \<open>while\<close> loop over the chunks of an update hunk.\<close>

function update_loop ::
  "rstr list \<Rightarrow> nat \<Rightarrow> nat \<Rightarrow> UpdateFileChunk list \<Rightarrow> (ParseError, UpdateFileChunk list \<times> nat) result" where
  "update_loop remaining line_number parsed_lines chunks =
     (case remaining of
        [] \<Rightarrow> Ok (chunks, parsed_lines)
      | l # ls \<Rightarrow>
          if trim l = [] then update_loop ls line_number (parsed_lines + 1) chunks
          else if starts_with (lit ''***'') l then Ok (chunks, parsed_lines)
          else case parse_update_file_chunk remaining (line_number + parsed_lines) (chunks = []) of
                 Err e \<Rightarrow> Err e
               | Ok (chunk, chunk_lines) \<Rightarrow>
                   update_loop (drop chunk_lines remaining) line_number (parsed_lines + chunk_lines)
                     (chunks @ [chunk]))"
  by auto

termination
  by (relation "measure (\<lambda>(remaining, _, _, _). length remaining)")
    (auto dest: parse_update_file_chunk_consumes)

declare update_loop.simps [simp del]

definition parse_one_hunk :: "rstr list \<Rightarrow> nat \<Rightarrow> (ParseError, Hunk \<times> nat) result" where
  "parse_one_hunk ls line_number =
     (let first_line = trim (hd ls) in
      case strip_prefix ADD_FILE_MARKER first_line of
        Some path \<Rightarrow>
          (let (contents, parsed_lines) = add_loop (tl ls) [] 1
           in Ok (AddFile path contents, parsed_lines))
      | None \<Rightarrow>
      (case strip_prefix DELETE_FILE_MARKER first_line of
        Some path \<Rightarrow> Ok (DeleteFile path, 1)
      | None \<Rightarrow>
      (case strip_prefix UPDATE_FILE_MARKER first_line of
        Some path \<Rightarrow>
          (let remaining = tl ls;
               move_path = (case remaining of [] \<Rightarrow> None | x # _ \<Rightarrow> strip_prefix MOVE_TO_MARKER x);
               (remaining', parsed) =
                 (if move_path \<noteq> None then (tl remaining, 2) else (remaining, 1))
           in case update_loop remaining' line_number parsed [] of
                Err e \<Rightarrow> Err e
              | Ok (chunks, parsed_lines) \<Rightarrow>
                  if chunks = []
                  then Err (InvalidHunkError (lit ''Update file hunk for path '' @ [39] @ path @ [39]
                              @ lit '' is empty'') line_number)
                  else Ok (UpdateFile path move_path chunks, parsed_lines))
      | None \<Rightarrow>
          Err (InvalidHunkError
                 ([39] @ first_line @ [39] @ lit '' is not a valid hunk header. Valid hunk headers: ''
                  @ [39] @ lit ''*** Add File: {path}'' @ [39] @ lit '', ''
                  @ [39] @ lit ''*** Delete File: {path}'' @ [39] @ lit '', ''
                  @ [39] @ lit ''*** Update File: {path}'' @ [39]) line_number))))"

lemma add_loop_consumes: "add_loop ls c p = (c', k) \<Longrightarrow> p \<le> k \<and> k \<le> p + length ls"
  by (induction ls c p arbitrary: c' k rule: add_loop.induct) (fastforce split: option.splits)+

lemma update_loop_consumes:
  "update_loop ls n p cs = Ok (cs', k) \<Longrightarrow> p \<le> k \<and> k \<le> p + length ls"
proof (induction ls n p cs arbitrary: cs' k rule: update_loop.induct)
  case (1 ls n p cs)
  show ?case
  proof (cases ls)
    case Nil
    with "1.prems" show ?thesis by (simp add: update_loop.simps)
  next
    case (Cons l ls')
    consider "trim l = []" | "trim l \<noteq> []" "starts_with (lit ''***'') l"
      | "trim l \<noteq> []" "\<not> starts_with (lit ''***'') l" by blast
    then show ?thesis
    proof cases
      case 1
      have "update_loop ls n p cs = update_loop ls' n (p + 1) cs"
        by (subst update_loop.simps) (simp add: Cons 1)
      with "1.IH"(1) [OF Cons 1] "1.prems" Cons show ?thesis by fastforce
    next
      case 2
      with "1.prems" Cons show ?thesis by (simp add: update_loop.simps)
    next
      case 3
      with "1.prems" Cons obtain c j where c: "parse_update_file_chunk ls (n + p) (cs = []) = Ok (c, j)"
        and u: "update_loop (drop j ls) n (p + j) (cs @ [c]) = Ok (cs', k)"
        by (subst (asm) update_loop.simps) (auto split: sum.splits)
      from "1.IH"(2) [OF Cons 3 c refl u] parse_update_file_chunk_consumes [OF c]
      show ?thesis by auto
    qed
  qed
qed

lemma parse_one_hunk_consumes:
  assumes "parse_one_hunk ls n = Ok (h, k)" "ls \<noteq> []"
  shows "1 \<le> k" "k \<le> length ls"
proof -
  obtain l ls' where ls: "ls = l # ls'" using assms(2) by (cases ls) auto
  have "1 \<le> k \<and> k \<le> length ls"
    using assms(1) unfolding ls parse_one_hunk_def
    by (auto simp: Let_def split: option.splits prod.splits sum.splits if_splits list.splits
        dest!: add_loop_consumes update_loop_consumes)
  then show "1 \<le> k" "k \<le> length ls" by auto
qed

section \<open>Patches\<close>

text \<open>The \<open>while\<close> loop of \<open>parse_patch_text\<close>.\<close>

function hunks_loop :: "rstr list \<Rightarrow> nat \<Rightarrow> Hunk list \<Rightarrow> (ParseError, Hunk list) result" where
  "hunks_loop remaining line_number hs =
     (if remaining = [] then Ok hs
      else case parse_one_hunk remaining line_number of
             Err e \<Rightarrow> Err e
           | Ok (hunk, hunk_lines) \<Rightarrow>
               hunks_loop (drop hunk_lines remaining) (line_number + hunk_lines) (hs @ [hunk]))"
  by auto

termination
  by (relation "measure (\<lambda>(remaining, _, _). length remaining)")
    (auto dest: parse_one_hunk_consumes)

declare hunks_loop.simps [simp del]

datatype ParseMode = Strict | Lenient

definition parse_patch_text :: "rstr \<Rightarrow> ParseMode \<Rightarrow> (ParseError, ParsedPatch) result" where
  "parse_patch_text p mode =
     (let lines0 = str_lines (trim p);
          checked = (case check_patch_boundaries_strict lines0 of
                       Ok _ \<Rightarrow> Ok lines0
                     | Err e \<Rightarrow> (case mode of Strict \<Rightarrow> Err e
                                 | Lenient \<Rightarrow> check_patch_boundaries_lenient lines0 e))
      in case checked of
           Err e \<Rightarrow> Err e
         | Ok ls \<Rightarrow>
             (case hunks_loop (tl (take (length ls - 1) ls)) 2 [] of
                Err e \<Rightarrow> Err e
              | Ok hs \<Rightarrow> Ok \<lparr>hunks = hs, patch = join [nl] ls\<rparr>))"

definition parse_patch :: "rstr \<Rightarrow> (ParseError, ParsedPatch) result" where
  "parse_patch p = parse_patch_text p Lenient"

section \<open>A printer\<close>

definition print_chunk :: "UpdateFileChunk \<Rightarrow> rstr list" where
  "print_chunk c =
     (case change_context c of None \<Rightarrow> EMPTY_CHANGE_CONTEXT_MARKER | Some x \<Rightarrow> CHANGE_CONTEXT_MARKER @ x)
     # map ((#) 45) (old_lines c) @ map ((#) 43) (new_lines c)
     @ (if is_end_of_file c then [EOF_MARKER] else [])"

fun print_hunk :: "Hunk \<Rightarrow> rstr list" where
  "print_hunk (AddFile path contents) =
     (ADD_FILE_MARKER @ path) # map ((#) 43) (butlast (split_on nl contents))"
| "print_hunk (DeleteFile path) = [DELETE_FILE_MARKER @ path]"
| "print_hunk (UpdateFile path move_path chunks) =
     (UPDATE_FILE_MARKER @ path)
     # (case move_path of None \<Rightarrow> [] | Some d \<Rightarrow> [MOVE_TO_MARKER @ d])
     @ concat (map print_chunk chunks)"

definition patch_lines :: "Hunk list \<Rightarrow> rstr list" where
  "patch_lines hs = BEGIN_PATCH_MARKER # concat (map print_hunk hs) @ [END_PATCH_MARKER]"

definition print_patch :: "Hunk list \<Rightarrow> rstr" where
  "print_patch hs = join [nl] (patch_lines hs)"

text \<open>Hunks that can be written in the format: one line per line, a path that survives the trimming
  of its header, at least one line in a chunk and one chunk in an update, added contents made of
  whole lines.\<close>

definition wf_line :: "rstr \<Rightarrow> bool" where
  "wf_line l \<longleftrightarrow> nl \<notin> set l \<and> (l \<noteq> [] \<longrightarrow> last l \<noteq> 13)"

definition wf_path :: "rstr \<Rightarrow> bool" where
  "wf_path p \<longleftrightarrow> nl \<notin> set p \<and> p \<noteq> [] \<and> \<not> is_whitespace (last p)"

definition wf_chunk :: "UpdateFileChunk \<Rightarrow> bool" where
  "wf_chunk c \<longleftrightarrow> old_lines c @ new_lines c \<noteq> [] \<and> list_all wf_line (old_lines c @ new_lines c)
     \<and> (case change_context c of None \<Rightarrow> True | Some x \<Rightarrow> wf_line x)"

fun wf_hunk :: "Hunk \<Rightarrow> bool" where
  "wf_hunk (AddFile path contents) \<longleftrightarrow>
     wf_path path \<and> (contents \<noteq> [] \<longrightarrow> last contents = nl) \<and> list_all wf_line (split_on nl contents)"
| "wf_hunk (DeleteFile path) \<longleftrightarrow> wf_path path"
| "wf_hunk (UpdateFile path move_path chunks) \<longleftrightarrow>
     wf_path path \<and> (case move_path of None \<Rightarrow> True | Some d \<Rightarrow> wf_line d)
     \<and> chunks \<noteq> [] \<and> list_all wf_chunk chunks"

section \<open>Reading back what was printed\<close>

lemma is_whitespace_simps [simp]:
  "\<not> is_whitespace 42" "\<not> is_whitespace 64" "\<not> is_whitespace 104" "is_whitespace 32"
  by (simp_all add: is_whitespace_def)

lemma trim_header: "wf_path p \<Longrightarrow> hd m = 42 \<Longrightarrow> m \<noteq> [] \<Longrightarrow> trim (m @ p) = m @ p"
  by (rule trim_id) (auto simp: wf_path_def)

text \<open>What may follow a chunk: nothing, the next chunk or the next hunk.\<close>

definition chunk_end :: "rstr list \<Rightarrow> bool" where
  "chunk_end rest \<longleftrightarrow>
     (case rest of [] \<Rightarrow> True | l # _ \<Rightarrow> l \<noteq> EOF_MARKER \<and> l \<noteq> [] \<and> (hd l = 42 \<or> hd l = 64))"

definition hunk_end :: "rstr list \<Rightarrow> bool" where
  "hunk_end rest \<longleftrightarrow>
     (case rest of [] \<Rightarrow> True
      | l # _ \<Rightarrow> l \<noteq> EOF_MARKER \<and> starts_with (lit ''*** '') l \<and> trim l \<noteq> [])"

lemma hunk_end_chunk_end: "hunk_end rest \<Longrightarrow> chunk_end rest"
  by (auto simp: hunk_end_def chunk_end_def starts_with_prefix prefix_def split: list.splits)

lemma chunk_loop_old:
  "chunk_loop (map ((#) 45) ls @ rest) c p n =
   chunk_loop rest (c\<lparr>old_lines := old_lines c @ ls\<rparr>) (p + length ls) n"
  by (induction ls arbitrary: c p) (simp_all add: EOF_MARKER_def)

lemma chunk_loop_new:
  "chunk_loop (map ((#) 43) ls @ rest) c p n =
   chunk_loop rest (c\<lparr>new_lines := new_lines c @ ls\<rparr>) (p + length ls) n"
  by (induction ls arbitrary: c p) (simp_all add: EOF_MARKER_def)

lemma chunk_loop_end:
  "chunk_end rest \<Longrightarrow> 0 < p \<Longrightarrow> chunk_loop rest c p n = Ok (c, p)"
  by (cases rest) (auto simp: chunk_end_def split: list.splits)

lemma chunk_header_print:
  "chunk_header (hd (print_chunk c)) n a = Ok (change_context c, 1)"
  by (auto simp: print_chunk_def chunk_header_def marker_defs starts_with_def split: option.splits)

lemma parse_print_chunk:
  assumes "wf_chunk c" "chunk_end rest"
  shows "parse_update_file_chunk (print_chunk c @ rest) n a = Ok (c, length (print_chunk c))"
proof -
  have pos: "0 < length (old_lines c) + length (new_lines c)"
    using assms(1) by (auto simp: wf_chunk_def)
  obtain h b where pc: "print_chunk c = h # b" and
    b: "b = map ((#) 45) (old_lines c) @ map ((#) 43) (new_lines c)
          @ (if is_end_of_file c then [EOF_MARKER] else [])"
    by (simp add: print_chunk_def)
  have "b \<noteq> []" using pos b by auto
  moreover have "chunk_loop (b @ rest)
      \<lparr>change_context = change_context c, old_lines = [], new_lines = [], is_end_of_file = False\<rparr> 0 n
    = Ok (c, length b)"
    using pos chunk_loop_end [OF assms(2)]
    by (cases c) (auto simp: b chunk_loop_old chunk_loop_new)
  ultimately show ?thesis
    using chunk_header_print [of c n a] by (simp add: parse_update_file_chunk_def pc)
qed

lemma chunk_end_print: "chunk_end (print_chunk c @ rest)"
  by (auto simp: chunk_end_def print_chunk_def marker_defs split: option.splits)

lemma print_chunk_hd:
  obtains l ls where "print_chunk c = l # ls" "trim l \<noteq> []" "\<not> starts_with (lit ''***'') l"
    "strip_prefix MOVE_TO_MARKER l = None"
proof -
  obtain l ls where pc: "print_chunk c = l # ls" by (simp add: print_chunk_def)
  then have h: "l \<noteq> []" "hd l = 64"
    by (auto simp: print_chunk_def marker_defs split: option.splits)
  then obtain l' where l: "l = 64 # l'" by (cases l) auto
  have "trim_start l = l" by (simp add: l trim_start_def)
  then have "trim l \<noteq> []" by (auto simp: trim_def trim_end_def l dropWhile_eq_Nil_conv)
  then show ?thesis using that [OF pc] by (simp add: l marker_defs)
qed

lemma update_loop_print:
  assumes "list_all wf_chunk cs" "hunk_end rest"
  shows "update_loop (concat (map print_chunk cs) @ rest) n p acc =
    Ok (acc @ cs, p + length (concat (map print_chunk cs)))"
  using assms(1)
proof (induction cs arbitrary: p acc)
  case Nil
  from assms(2) show ?case
    by (subst update_loop.simps)
      (auto simp: hunk_end_def starts_with_prefix prefix_def split: list.splits)
next
  case (Cons c cs)
  obtain l ls where l: "print_chunk c = l # ls" "trim l \<noteq> []" "\<not> starts_with (lit ''***'') l"
    by (rule print_chunk_hd)
  let ?rest = "concat (map print_chunk cs) @ rest"
  have "chunk_end ?rest"
    using hunk_end_chunk_end [OF assms(2)] chunk_end_print by (cases cs) simp_all
  with Cons.prems have "parse_update_file_chunk (print_chunk c @ ?rest) (n + p) (acc = [])
      = Ok (c, length (print_chunk c))"
    by (intro parse_print_chunk) simp_all
  then have "update_loop (print_chunk c @ ?rest) n p acc =
      update_loop ?rest n (p + length (print_chunk c)) (acc @ [c])"
    using l(3) by (subst update_loop.simps) (simp add: l(1,2))
  with Cons show ?case by simp
qed

lemma add_loop_print:
  assumes "hunk_end rest"
  shows "add_loop (map ((#) 43) ls @ rest) acc p =
    (acc @ concat (map (\<lambda>l. l @ [nl]) ls), p + length ls)"
proof (induction ls arbitrary: acc p)
  case Nil
  then show ?case using assms
    by (auto simp: hunk_end_def starts_with_prefix prefix_def split: list.splits)
qed simp

lemma lines_of_contents:
  "(c \<noteq> [] \<longrightarrow> last c = nl) \<Longrightarrow> concat (map (\<lambda>l. l @ [nl]) (butlast (split_on nl c))) = c"
proof (induction c)
  case (Cons x c)
  show ?case
  proof (cases "c = []")
    case True
    with Cons.prems show ?thesis by simp
  next
    case False
    with Cons have IH: "concat (map (\<lambda>l. l @ [nl]) (butlast (split_on nl c))) = c" by auto
    obtain l ls where sp: "split_on nl c = l # ls" by (cases "split_on nl c") auto
    from IH False have "ls \<noteq> []" by (auto simp: sp)
    with IH show ?thesis by (auto simp: sp)
  qed
qed simp

lemma strip_header_simps [simp]:
  "strip_prefix ADD_FILE_MARKER (DELETE_FILE_MARKER @ p) = None"
  "strip_prefix ADD_FILE_MARKER (UPDATE_FILE_MARKER @ p) = None"
  "strip_prefix DELETE_FILE_MARKER (UPDATE_FILE_MARKER @ p) = None"
  by (simp_all add: marker_defs)

lemma trim_markers:
  assumes "wf_path p"
  shows "trim (ADD_FILE_MARKER @ p) = ADD_FILE_MARKER @ p"
    "trim (DELETE_FILE_MARKER @ p) = DELETE_FILE_MARKER @ p"
    "trim (UPDATE_FILE_MARKER @ p) = UPDATE_FILE_MARKER @ p"
  by (rule trim_header [OF assms]; simp add: marker_defs)+

lemma parse_print_hunk:
  assumes "wf_hunk h" "hunk_end rest"
  shows "parse_one_hunk (print_hunk h @ rest) n = Ok (h, length (print_hunk h))"
proof (cases h)
  case (AddFile path contents)
  with assms(1) show ?thesis
    by (simp add: parse_one_hunk_def trim_markers add_loop_print [OF assms(2)] lines_of_contents)
next
  case (DeleteFile path)
  with assms(1) show ?thesis by (simp add: parse_one_hunk_def trim_markers)
next
  case (UpdateFile path move_path chunks)
  with assms(1) have wf: "wf_path path" "chunks \<noteq> []" "list_all wf_chunk chunks" by auto
  let ?b = "concat (map print_chunk chunks)"
  have mv: "(case ?b @ rest of [] \<Rightarrow> None | x # _ \<Rightarrow> strip_prefix MOVE_TO_MARKER x) = None"
  proof -
    obtain c cs where c: "chunks = c # cs" using wf(2) by (cases chunks) auto
    obtain l ls where "print_chunk c = l # ls" "strip_prefix MOVE_TO_MARKER l = None"
      by (rule print_chunk_hd)
    then show ?thesis by (simp add: c)
  qed
  show ?thesis
    using wf mv update_loop_print [OF wf(3) assms(2)]
    by (cases move_path) (simp_all add: UpdateFile parse_one_hunk_def trim_markers)
qed

lemma hunk_end_print:
  assumes "wf_hunk h"
  shows "hunk_end (print_hunk h @ rest)"
proof -
  obtain m p ls where ph: "print_hunk h = (m @ p) # ls" "wf_path p"
    and m: "m \<in> {ADD_FILE_MARKER, DELETE_FILE_MARKER, UPDATE_FILE_MARKER}"
    using assms by (cases h) auto
  from m have "trim (m @ p) = m @ p" using trim_markers [OF ph(2)] by auto
  moreover from m have "m @ p \<noteq> EOF_MARKER" "starts_with (lit ''*** '') (m @ p)" "m @ p \<noteq> []"
    by (auto simp: marker_defs)
  ultimately show ?thesis by (simp add: hunk_end_def ph)
qed

lemma hunks_loop_print:
  "list_all wf_hunk hs \<Longrightarrow> hunks_loop (concat (map print_hunk hs)) n acc = Ok (acc @ hs)"
proof (induction hs arbitrary: n acc)
  case Nil
  then show ?case by (simp add: hunks_loop.simps)
next
  case (Cons h hs)
  let ?rest = "concat (map print_hunk hs)"
  have "hunk_end ?rest"
    using Cons.prems hunk_end_print by (cases hs) (simp_all add: hunk_end_def [of "[]"])
  with Cons.prems have "parse_one_hunk (print_hunk h @ ?rest) n = Ok (h, length (print_hunk h))"
    by (intro parse_print_hunk) simp_all
  moreover have "print_hunk h \<noteq> []" by (cases h) simp_all
  ultimately have "hunks_loop (print_hunk h @ ?rest) n acc =
      hunks_loop ?rest (n + length (print_hunk h)) (acc @ [h])"
    by (subst hunks_loop.simps) simp
  with Cons show ?case by simp
qed

text \<open>Printed lines survive being joined and split again.\<close>

lemma str_lines_join:
  assumes "list_all wf_line ls" "ls \<noteq> []" "last ls \<noteq> []"
  shows "str_lines (join [nl] ls) = ls"
proof -
  have "split_on nl (join [nl] ls) = ls"
    using assms(1,2) by (intro split_on_join) (auto simp: list_all_iff wf_line_def)
  moreover have "map strip_cr (butlast ls) = butlast ls"
    using assms(1) by (intro map_idI) (auto simp: list_all_iff wf_line_def strip_cr_def dest: in_set_butlastD)
  ultimately show ?thesis using assms(2,3) by (simp add: str_lines_def)
qed

lemma wf_line_append: "wf_line (a @ b) \<longleftrightarrow> nl \<notin> set a \<and> nl \<notin> set b \<and>
    (if b = [] then a \<noteq> [] \<longrightarrow> last a \<noteq> 13 else last b \<noteq> 13)"
  by (auto simp: wf_line_def)

lemma wf_path_line: "wf_path p \<Longrightarrow> nl \<notin> set p \<and> p \<noteq> [] \<and> last p \<noteq> 13"
  by (auto simp: wf_path_def is_whitespace_def)

lemma markers_wf_line:
  "wf_line BEGIN_PATCH_MARKER" "wf_line END_PATCH_MARKER" "wf_line EOF_MARKER"
  "wf_path p \<Longrightarrow> wf_line (ADD_FILE_MARKER @ p)" "wf_path p \<Longrightarrow> wf_line (DELETE_FILE_MARKER @ p)"
  "wf_path p \<Longrightarrow> wf_line (UPDATE_FILE_MARKER @ p)" "wf_line d \<Longrightarrow> wf_line (MOVE_TO_MARKER @ d)"
  "wf_line EMPTY_CHANGE_CONTEXT_MARKER" "wf_line d \<Longrightarrow> wf_line (CHANGE_CONTEXT_MARKER @ d)"
  by (auto simp: wf_line_append dest: wf_path_line) (auto simp: wf_line_def marker_defs)

lemma print_chunk_wf: "wf_chunk c \<Longrightarrow> list_all wf_line (print_chunk c)"
  by (auto simp: wf_chunk_def print_chunk_def list_all_iff markers_wf_line wf_line_def [of "_ # _"]
      split: option.splits) (auto simp: wf_line_def)

lemma print_hunk_wf: "wf_hunk h \<Longrightarrow> list_all wf_line (print_hunk h)"
proof (cases h)
  case (AddFile path contents)
  assume "wf_hunk h"
  then have "wf_path path" "\<forall>l \<in> set (butlast (split_on nl contents)). wf_line l"
    by (auto simp: AddFile list_all_iff dest: in_set_butlastD)
  then show ?thesis by (auto simp: AddFile list_all_iff markers_wf_line) (auto simp: wf_line_def)
qed (auto simp: markers_wf_line list_all_iff dest!: bspec print_chunk_wf [unfolded list_all_iff]
      split: option.splits)

lemma patch_lines_wf: "list_all wf_hunk hs \<Longrightarrow> list_all wf_line (patch_lines hs)"
  by (auto simp: patch_lines_def markers_wf_line list_all_iff
      dest!: bspec print_hunk_wf [unfolded list_all_iff])

lemma hd_join: "hd l = x \<Longrightarrow> l \<noteq> [] \<Longrightarrow> hd (join sep (l # ls)) = x"
  by (cases ls) simp_all

lemma last_join: "last ls \<noteq> [] \<Longrightarrow> ls \<noteq> [] \<Longrightarrow> last (join sep ls) = last (last ls)"
proof (induction sep ls rule: join.induct)
  case (3 sep x y ys)
  have "join sep (y # ys) \<noteq> []"
    using 3 by (induction sep "y # ys" arbitrary: y ys rule: join.induct) (auto split: if_splits)
  with 3 show ?case by simp
qed simp_all

lemma trim_print_patch: "trim (print_patch hs) = print_patch hs"
proof (rule trim_id)
  have h: "hd (print_patch hs) = 42"
    unfolding print_patch_def patch_lines_def by (rule hd_join) (simp_all add: marker_defs)
  have l: "last (print_patch hs) = 104"
    unfolding print_patch_def by (subst last_join) (simp_all add: patch_lines_def marker_defs)
  show "\<not> is_whitespace (hd (print_patch hs))" "\<not> is_whitespace (last (print_patch hs))"
    by (simp_all add: h l)
  show "print_patch hs \<noteq> []" unfolding print_patch_def patch_lines_def
    by (cases "concat (map print_hunk hs) @ [END_PATCH_MARKER]") (simp_all add: marker_defs)
qed

lemma boundaries_print: "check_patch_boundaries_strict (patch_lines hs) = Ok ()"
proof -
  have "trim BEGIN_PATCH_MARKER = BEGIN_PATCH_MARKER" "trim END_PATCH_MARKER = END_PATCH_MARKER"
    by (rule trim_id; simp add: marker_defs)+
  then show ?thesis
    by (simp add: check_patch_boundaries_strict_def patch_lines_def check_start_and_end_lines_strict_def)
qed

lemma parse_print_patch:
  assumes "list_all wf_hunk hs"
  shows "parse_patch (print_patch hs) = Ok \<lparr>hunks = hs, patch = print_patch hs\<rparr>"
proof -
  have ls: "str_lines (trim (print_patch hs)) = patch_lines hs"
    unfolding trim_print_patch unfolding print_patch_def
    by (rule str_lines_join [OF patch_lines_wf [OF assms]]) (simp_all add: patch_lines_def marker_defs)
  have "tl (take (length (patch_lines hs) - 1) (patch_lines hs)) = concat (map print_hunk hs)"
    by (simp add: patch_lines_def)
  then show ?thesis
    using hunks_loop_print [OF assms, of 2 "[]"]
    by (simp add: parse_patch_def parse_patch_text_def ls boundaries_print) (simp add: print_patch_def)
qed

text \<open>The slices of \<open>parse_patch_text\<close> are in range: accepted boundaries leave at least two lines.\<close>

lemma strict_boundaries_length:
  assumes "check_patch_boundaries_strict ls = Ok u"
  shows "2 \<le> length ls"
proof (rule ccontr)
  assume "\<not> 2 \<le> length ls"
  then consider "ls = []" | l where "ls = [l]" by (cases ls; cases "tl ls") auto
  then show False
    using assms by cases (auto simp: check_patch_boundaries_strict_def
        check_start_and_end_lines_strict_def marker_defs split: if_splits)
qed

lemma lenient_boundaries_length:
  "check_patch_boundaries_lenient ls e = Ok ls' \<Longrightarrow> 2 \<le> length ls'"
  by (auto simp: check_patch_boundaries_lenient_def Let_def dest: strict_boundaries_length
      split: list.splits if_splits sum.splits)

section \<open>Properties\<close>

text \<open>C6. Printing and parsing: every list of hunks that can be written in the format is read back
  unchanged from its printed text, with the text itself as the normalised patch.\<close>

theorem parse_patch_roundtrip:
  assumes "list_all wf_hunk hs"
  shows "parse_patch (print_patch hs) = Ok \<lparr>hunks = hs, patch = print_patch hs\<rparr>"
  using assms by (rule parse_print_patch)

theorem parse_patch_roundtrip_witness:
  "parse_patch (print_patch
     [AddFile (lit ''a'') (lit ''x'' @ [nl, nl]), DeleteFile (lit ''b''),
      UpdateFile (lit ''c'') (Some (lit ''d''))
        [\<lparr>change_context = Some (lit ''fn''), old_lines = [lit ''o'', []], new_lines = [lit ''n''],
          is_end_of_file = True\<rparr>]])
   = Ok \<lparr>hunks = [AddFile (lit ''a'') (lit ''x'' @ [nl, nl]), DeleteFile (lit ''b''),
      UpdateFile (lit ''c'') (Some (lit ''d''))
        [\<lparr>change_context = Some (lit ''fn''), old_lines = [lit ''o'', []], new_lines = [lit ''n''],
          is_end_of_file = True\<rparr>]],
      patch = print_patch
     [AddFile (lit ''a'') (lit ''x'' @ [nl, nl]), DeleteFile (lit ''b''),
      UpdateFile (lit ''c'') (Some (lit ''d''))
        [\<lparr>change_context = Some (lit ''fn''), old_lines = [lit ''o'', []], new_lines = [lit ''n''],
          is_end_of_file = True\<rparr>]]\<rparr>"
  by (rule parse_patch_roundtrip)
    (simp add: wf_path_def wf_line_def wf_chunk_def is_whitespace_def)

text \<open>C38. The parser slices in range and makes progress: accepted boundaries leave at least two
  lines, and a parsed hunk or chunk consumes at least one of the remaining lines and no more than
  there are, so no slice panics and both loops end.\<close>

theorem parser_progress_in_range:
  "(check_patch_boundaries_strict ls = Ok () \<longrightarrow> 2 \<le> length ls)
   \<and> (check_patch_boundaries_lenient ls e = Ok ls' \<longrightarrow> 2 \<le> length ls')
   \<and> (ls \<noteq> [] \<and> parse_one_hunk ls n = Ok (h, k) \<longrightarrow> 1 \<le> k \<and> k \<le> length ls)
   \<and> (parse_update_file_chunk ls n a = Ok (c, j) \<longrightarrow> 1 \<le> j \<and> j \<le> length ls)"
  by (auto dest: strict_boundaries_length lenient_boundaries_length parse_one_hunk_consumes
      parse_update_file_chunk_consumes)

theorem parser_progress_in_range_witness:
  "parse_one_hunk [lit ''*** Delete File: b'', lit ''*** Delete File: c''] 2 = Ok (DeleteFile (lit ''b''), 1)
   \<and> (1 :: nat) \<le> length [lit ''*** Delete File: b'', lit ''*** Delete File: c'']"
proof -
  have p: "parse_one_hunk [lit ''*** Delete File: b'', lit ''*** Delete File: c''] 2 =
      Ok (DeleteFile (lit ''b''), 1)"
    by (simp add: parse_one_hunk_def marker_defs trim_def trim_start_def trim_end_def is_whitespace_def)
  then show ?thesis
    using parser_progress_in_range [of "[lit ''*** Delete File: b'', lit ''*** Delete File: c'']"
        undefined "[]" 2 "DeleteFile (lit ''b'')" 1 True undefined 0] by blast
qed

end
