(* ===== verification/Patch_Apply.thy ===== *)
theory Patch_Apply
  imports Patch_Parser "HOL-Library.Multiset"
begin

text \<open>
  Applying update chunks to a file's text (\<open>codex/apply_patch/seek_sequence.rs\<close>, \<open>apply.rs\<close>): the
  fuzzy line matcher with its four passes, the computation of replacements, their application from
  the last to the first, and the whole of \<open>derive_new_contents\<close>.
\<close>

section \<open>The matcher\<close>

definition normalise_char :: "rchar \<Rightarrow> rchar" where
  "normalise_char c =
     (if c \<in> {0x2010, 0x2011, 0x2012, 0x2013, 0x2014, 0x2015, 0x2212} then 45
      else if c \<in> {0x2018, 0x2019, 0x201A, 0x201B} then 39
      else if c \<in> {0x201C, 0x201D, 0x201E, 0x201F} then 34
      else if c \<in> {0x00A0, 0x2002, 0x2003, 0x2004, 0x2005, 0x2006, 0x2007, 0x2008, 0x2009, 0x200A,
                   0x202F, 0x205F, 0x3000} then 32
      else c)"

definition normalise :: "rstr \<Rightarrow> rstr" where
  "normalise s = map normalise_char (trim s)"

text \<open>The inner loop of a pass: \<open>lines[i + p_idx]\<close> against \<open>pattern[p_idx]\<close> under a view of both.\<close>

fun match_at :: "(rstr \<Rightarrow> rstr) \<Rightarrow> rstr list \<Rightarrow> rstr list \<Rightarrow> bool" where
  "match_at f ls [] = True"
| "match_at f [] (p # ps) = False"
| "match_at f (l # ls) (p # ps) = (if f l \<noteq> f p then False else match_at f ls ps)"

text \<open>One pass: \<open>for i in search_start..=lines.len() - pattern.len()\<close>.\<close>

fun seek_pass :: "(rstr \<Rightarrow> rstr) \<Rightarrow> rstr list \<Rightarrow> rstr list \<Rightarrow> nat list \<Rightarrow> nat option" where
  "seek_pass f ls pat [] = None"
| "seek_pass f ls pat (i # is) = (if match_at f (drop i ls) pat then Some i else seek_pass f ls pat is)"

definition seek_range :: "rstr list \<Rightarrow> rstr list \<Rightarrow> nat \<Rightarrow> bool \<Rightarrow> nat list" where
  "seek_range ls pat start eof =
     (let search_start = (if eof \<and> length pat \<le> length ls then length ls - length pat else start)
      in [search_start..<Suc (length ls - length pat)])"

definition seek_sequence :: "rstr list \<Rightarrow> rstr list \<Rightarrow> nat \<Rightarrow> bool \<Rightarrow> nat option" where
  "seek_sequence ls pat start eof =
     (if pat = [] then Some start
      else if length ls < length pat then None
      else let range = seek_range ls pat start eof in
        case seek_pass id ls pat range of
          Some i \<Rightarrow> Some i
        | None \<Rightarrow> (case seek_pass trim_end ls pat range of
            Some i \<Rightarrow> Some i
          | None \<Rightarrow> (case seek_pass trim ls pat range of
              Some i \<Rightarrow> Some i
            | None \<Rightarrow> seek_pass normalise ls pat range)))"

section \<open>Replacements\<close>

datatype ApplyPatchError = Parse ParseError | ComputeReplacements rstr | Io rstr rstr "rstr option"

type_synonym replacement = "nat \<times> nat \<times> rstr list"

definition ends_empty :: "rstr list \<Rightarrow> bool" where
  "ends_empty ls \<longleftrightarrow> ls \<noteq> [] \<and> last ls = []"

definition context_error :: "rstr \<Rightarrow> rstr \<Rightarrow> ApplyPatchError" where
  "context_error ctx path =
     ComputeReplacements (lit ''Failed to find context '' @ [39] @ ctx @ [39] @ lit '' in '' @ path)"

definition expected_error :: "rstr list \<Rightarrow> rstr \<Rightarrow> ApplyPatchError" where
  "expected_error old path =
     ComputeReplacements (lit ''Failed to find expected lines in '' @ path @ lit '':'' @ [nl] @ join [nl] old)"

text \<open>The position after the chunk's context line.\<close>

definition seek_context ::
  "rstr list \<Rightarrow> rstr \<Rightarrow> UpdateFileChunk \<Rightarrow> nat \<Rightarrow> (ApplyPatchError, nat) result" where
  "seek_context original path chunk line_index =
     (case change_context chunk of
        None \<Rightarrow> Ok line_index
      | Some ctx_line \<Rightarrow>
          (case seek_sequence original [ctx_line] line_index False of
             Some idx \<Rightarrow> Ok (idx + 1)
           | None \<Rightarrow> Err (context_error ctx_line path)))"

text \<open>The match of the chunk's old lines, retried without a trailing empty line: the position, the
  pattern and the new lines used.\<close>

definition seek_chunk ::
  "rstr list \<Rightarrow> UpdateFileChunk \<Rightarrow> nat \<Rightarrow> nat option \<times> rstr list \<times> rstr list" where
  "seek_chunk original chunk line_index =
     (let pattern = old_lines chunk;
          found = seek_sequence original pattern line_index (is_end_of_file chunk);
          new_slice = new_lines chunk
      in if found = None \<and> ends_empty pattern
         then (let pattern' = butlast pattern;
                   new_slice' = (if ends_empty new_slice then butlast new_slice else new_slice)
               in (seek_sequence original pattern' line_index (is_end_of_file chunk), pattern', new_slice'))
         else (found, pattern, new_slice))"

fun replacements_loop ::
  "rstr list \<Rightarrow> rstr \<Rightarrow> UpdateFileChunk list \<Rightarrow> nat \<Rightarrow> replacement list
     \<Rightarrow> (ApplyPatchError, replacement list) result" where
  "replacements_loop original path [] line_index reps = Ok reps"
| "replacements_loop original path (chunk # chunks) line_index reps =
     (case seek_context original path chunk line_index of
        Err e \<Rightarrow> Err e
      | Ok line_index \<Rightarrow>
          if old_lines chunk = []
          then (let insertion_idx =
                      (if ends_empty original then length original - 1 else length original)
                in replacements_loop original path chunks line_index
                     (reps @ [(insertion_idx, 0, new_lines chunk)]))
          else (case seek_chunk original chunk line_index of
                  (Some start_idx, pattern, new_slice) \<Rightarrow>
                    replacements_loop original path chunks (start_idx + length pattern)
                      (reps @ [(start_idx, length pattern, new_slice)])
                | (None, _, _) \<Rightarrow> Err (expected_error (old_lines chunk) path)))"

text \<open>\<open>sort_by\<close> is a stable sort, as is \<open>sort_key\<close>.\<close>

definition compute_replacements ::
  "rstr list \<Rightarrow> rstr \<Rightarrow> UpdateFileChunk list \<Rightarrow> (ApplyPatchError, replacement list) result" where
  "compute_replacements original path chunks =
     (case replacements_loop original path chunks 0 [] of
        Err e \<Rightarrow> Err e
      | Ok reps \<Rightarrow> Ok (sort_key fst reps))"

text \<open>\<open>Vec::remove\<close> under its guard, and \<open>Vec::insert\<close>, which panics (\<open>None\<close>) past the end.\<close>

definition remove_at :: "nat \<Rightarrow> 'a list \<Rightarrow> 'a list" where
  "remove_at i xs = (if i < length xs then take i xs @ drop (Suc i) xs else xs)"

definition insert_at :: "nat \<Rightarrow> 'a \<Rightarrow> 'a list \<Rightarrow> 'a list option" where
  "insert_at i x xs = (if i \<le> length xs then Some (take i xs @ x # drop i xs) else None)"

fun insert_loop :: "nat \<Rightarrow> rstr list \<Rightarrow> rstr list \<Rightarrow> rstr list option" where
  "insert_loop i [] ls = Some ls"
| "insert_loop i (x # xs) ls =
     (case insert_at i x ls of None \<Rightarrow> None | Some ls' \<Rightarrow> insert_loop (Suc i) xs ls')"

fun apply_loop :: "replacement list \<Rightarrow> rstr list \<Rightarrow> rstr list option" where
  "apply_loop [] ls = Some ls"
| "apply_loop ((start_idx, old_len, new_segment) # reps) ls =
     (case insert_loop start_idx new_segment ((remove_at start_idx ^^ old_len) ls) of
        None \<Rightarrow> None
      | Some ls' \<Rightarrow> apply_loop reps ls')"

definition apply_replacements :: "rstr list \<Rightarrow> replacement list \<Rightarrow> rstr list option" where
  "apply_replacements ls reps = apply_loop (rev reps) ls"

definition original_lines :: "rstr \<Rightarrow> rstr list" where
  "original_lines s = (let ls = split_on nl s in if ends_empty ls then butlast ls else ls)"

text \<open>\<open>None\<close> is a panic.\<close>

definition derive_new_contents ::
  "rstr \<Rightarrow> rstr \<Rightarrow> UpdateFileChunk list \<Rightarrow> (ApplyPatchError, rstr) result option" where
  "derive_new_contents original_content path chunks =
     (case compute_replacements (original_lines original_content) path chunks of
        Err e \<Rightarrow> Some (Err e)
      | Ok reps \<Rightarrow>
          map_option (\<lambda>new. Ok (join [nl] (if ends_empty new then new else new @ [[]])))
            (apply_replacements (original_lines original_content) reps))"

section \<open>What the matcher finds\<close>

lemma match_at_iff:
  "match_at f ls pat \<longleftrightarrow> length pat \<le> length ls \<and> map f (take (length pat) ls) = map f pat"
  by (induction f ls pat rule: match_at.induct) auto

text \<open>Each view forgets more than the one before it.\<close>

lemma trim_end_keep: "\<not> is_whitespace c \<Longrightarrow> trim_end (a @ c # b) = a @ c # trim_end b"
  by (simp add: trim_end_def dropWhile_append3)

lemma trim_start_keep:
  "\<forall>x \<in> set a. is_whitespace x \<Longrightarrow> \<not> is_whitespace c \<Longrightarrow> trim_start (a @ c # b) = c # b"
  by (simp add: trim_start_def dropWhile_append2)

lemma trim_commute: "trim_end (trim_start s) = trim_start (trim_end s)"
proof (cases "\<exists>c \<in> set s. \<not> is_whitespace c")
  case True
  then obtain a c b where s: "s = a @ c # b" "\<forall>x \<in> set a. is_whitespace x" "\<not> is_whitespace c"
    using split_list_first_prop [of s "\<lambda>c. \<not> is_whitespace c"] by blast
  show ?thesis
    unfolding s(1) trim_end_keep [OF s(3)] trim_start_keep [OF s(2,3)]
    using trim_end_keep [OF s(3), of "[]" b] by simp
next
  case False
  then have n: "dropWhile is_whitespace s = []" "dropWhile is_whitespace (rev s) = []"
    by (auto simp: dropWhile_eq_Nil_conv)
  show ?thesis unfolding trim_end_def trim_start_def by (simp only: n rev.simps dropWhile.simps)
qed

lemma view_weaker: "trim_end a = trim_end b \<Longrightarrow> trim a = trim b"
  by (simp add: trim_def trim_commute)

lemma match_at_weaken:
  assumes "match_at f ls pat" "\<And>a b. f a = f b \<Longrightarrow> g a = g b"
  shows "match_at g ls pat"
proof -
  let ?xs = "take (length pat) ls"
  from assms(1) have l: "length pat \<le> length ls" and eq: "map f ?xs = map f pat"
    by (simp_all add: match_at_iff)
  have fi: "f (?xs ! i) = f (pat ! i)" if "i < length pat" for i
    using arg_cong [OF eq, of "\<lambda>zs. zs ! i"] that l by simp
  have "g (?xs ! i) = g (pat ! i)" if "i < length pat" for i
    by (rule assms(2)) (rule fi [OF that])
  then have "map g ?xs = map g pat" using l by (intro nth_equalityI) simp_all
  with l show ?thesis by (simp add: match_at_iff)
qed

lemma match_at_chain:
  "match_at id ls pat \<Longrightarrow> match_at trim_end ls pat"
  "match_at trim_end ls pat \<Longrightarrow> match_at trim ls pat"
  "match_at trim ls pat \<Longrightarrow> match_at normalise ls pat"
proof -
  show "match_at id ls pat \<Longrightarrow> match_at trim_end ls pat" by (erule match_at_weaken) simp
  show "match_at trim_end ls pat \<Longrightarrow> match_at trim ls pat"
    by (erule match_at_weaken) (rule view_weaker)
  show "match_at trim ls pat \<Longrightarrow> match_at normalise ls pat"
    by (erule match_at_weaken) (simp add: normalise_def)
qed

lemma seek_pass_eq_find: "seek_pass f ls pat is = List.find (\<lambda>i. match_at f (drop i ls) pat) is"
  by (induction "is") simp_all

lemma seek_pass_None: "seek_pass f ls pat is = None \<longleftrightarrow> (\<forall>i \<in> set is. \<not> match_at f (drop i ls) pat)"
  by (auto simp: seek_pass_eq_find find_None_iff)

lemma seek_pass_Some:
  "seek_pass f ls pat [a..<b] = Some i \<longleftrightarrow>
     a \<le> i \<and> i < b \<and> match_at f (drop i ls) pat \<and> (\<forall>j. a \<le> j \<and> j < i \<longrightarrow> \<not> match_at f (drop j ls) pat)"
proof -
  have "seek_pass f ls pat [a..<b] = Some i \<longleftrightarrow>
      (\<exists>k < length [a..<b]. match_at f (drop ([a..<b] ! k) ls) pat \<and> i = [a..<b] ! k
        \<and> (\<forall>j < k. \<not> match_at f (drop ([a..<b] ! j) ls) pat))"
    by (simp only: seek_pass_eq_find find_Some_iff)
  also have "\<dots> \<longleftrightarrow> a \<le> i \<and> i < b \<and> match_at f (drop i ls) pat
      \<and> (\<forall>j. a \<le> j \<and> j < i \<longrightarrow> \<not> match_at f (drop j ls) pat)"
  proof
    assume "\<exists>k < length [a..<b]. match_at f (drop ([a..<b] ! k) ls) pat \<and> i = [a..<b] ! k
        \<and> (\<forall>j < k. \<not> match_at f (drop ([a..<b] ! j) ls) pat)"
    then obtain k where k: "k < b - a" "match_at f (drop (a + k) ls) pat" "i = a + k"
      "\<forall>j < k. \<not> match_at f (drop (a + j) ls) pat" by auto
    have "\<not> match_at f (drop j ls) pat" if "a \<le> j" "j < i" for j
      using k(3,4) that by (metis le_Suc_ex nat_add_left_cancel_less)
    with k show "a \<le> i \<and> i < b \<and> match_at f (drop i ls) pat
      \<and> (\<forall>j. a \<le> j \<and> j < i \<longrightarrow> \<not> match_at f (drop j ls) pat)" by auto
  next
    assume "a \<le> i \<and> i < b \<and> match_at f (drop i ls) pat
      \<and> (\<forall>j. a \<le> j \<and> j < i \<longrightarrow> \<not> match_at f (drop j ls) pat)"
    then show "\<exists>k < length [a..<b]. match_at f (drop ([a..<b] ! k) ls) pat \<and> i = [a..<b] ! k
        \<and> (\<forall>j < k. \<not> match_at f (drop ([a..<b] ! j) ls) pat)"
      by (intro exI [of _ "i - a"]) auto
  qed
  finally show ?thesis .
qed

text \<open>The views in the order of the passes, and the positions a view accepts.\<close>

definition views :: "(rstr \<Rightarrow> rstr) list" where
  "views = [id, trim_end, trim, normalise]"

definition search_from :: "rstr list \<Rightarrow> rstr list \<Rightarrow> nat \<Rightarrow> bool \<Rightarrow> nat" where
  "search_from ls pat start eof = (if eof then length ls - length pat else start)"

definition accepts :: "(rstr \<Rightarrow> rstr) \<Rightarrow> rstr list \<Rightarrow> rstr list \<Rightarrow> nat \<Rightarrow> nat \<Rightarrow> bool" where
  "accepts f ls pat from_idx i \<longleftrightarrow>
     from_idx \<le> i \<and> i + length pat \<le> length ls \<and> map f (take (length pat) (drop i ls)) = map f pat"

lemma pass_position:
  assumes "length pat \<le> length ls"
  shows "seek_pass f ls pat (seek_range ls pat start eof) = Some i \<longleftrightarrow>
      accepts f ls pat (search_from ls pat start eof) i
      \<and> (\<forall>j < i. \<not> accepts f ls pat (search_from ls pat start eof) j)"
    "seek_pass f ls pat (seek_range ls pat start eof) = None \<longleftrightarrow>
      (\<forall>j. \<not> accepts f ls pat (search_from ls pat start eof) j)"
proof -
  have r: "seek_range ls pat start eof = [search_from ls pat start eof..<Suc (length ls - length pat)]"
    using assms by (simp add: seek_range_def search_from_def)
  have m: "match_at f (drop j ls) pat \<and> j < Suc (length ls - length pat) \<longleftrightarrow>
      j + length pat \<le> length ls \<and> map f (take (length pat) (drop j ls)) = map f pat" for j
    using assms by (auto simp: match_at_iff)
  show "seek_pass f ls pat (seek_range ls pat start eof) = Some i \<longleftrightarrow>
      accepts f ls pat (search_from ls pat start eof) i
      \<and> (\<forall>j < i. \<not> accepts f ls pat (search_from ls pat start eof) j)"
    unfolding r seek_pass_Some accepts_def using m by (meson less_trans)
  show "seek_pass f ls pat (seek_range ls pat start eof) = None \<longleftrightarrow>
      (\<forall>j. \<not> accepts f ls pat (search_from ls pat start eof) j)"
    unfolding r seek_pass_None accepts_def set_upt Ball_def atLeastLessThan_iff using m by blast
qed

lemma accepts_chain:
  "accepts id ls pat s i \<Longrightarrow> accepts normalise ls pat s i"
  "accepts trim_end ls pat s i \<Longrightarrow> accepts normalise ls pat s i"
  "accepts trim ls pat s i \<Longrightarrow> accepts normalise ls pat s i"
proof -
  have m: "accepts f ls pat s i \<longleftrightarrow> s \<le> i \<and> i + length pat \<le> length ls \<and> match_at f (drop i ls) pat" for f
    by (auto simp: accepts_def match_at_iff)
  show "accepts id ls pat s i \<Longrightarrow> accepts normalise ls pat s i"
    "accepts trim_end ls pat s i \<Longrightarrow> accepts normalise ls pat s i"
    "accepts trim ls pat s i \<Longrightarrow> accepts normalise ls pat s i"
    unfolding m by (blast intro: match_at_chain)+
qed

lemma accepts_length: "accepts f ls pat s i \<Longrightarrow> length pat \<le> length ls"
  by (simp add: accepts_def)

lemma seek_sequence_passes:
  assumes "pat \<noteq> []" "length pat \<le> length ls" "r = seek_range ls pat start eof"
  shows "seek_sequence ls pat start eof = None \<longleftrightarrow>
      seek_pass id ls pat r = None \<and> seek_pass trim_end ls pat r = None \<and> seek_pass trim ls pat r = None
      \<and> seek_pass normalise ls pat r = None"
    "seek_sequence ls pat start eof = Some i \<longleftrightarrow>
      (case seek_pass id ls pat r of Some j \<Rightarrow> j = i | None \<Rightarrow>
        (case seek_pass trim_end ls pat r of Some j \<Rightarrow> j = i | None \<Rightarrow>
          (case seek_pass trim ls pat r of Some j \<Rightarrow> j = i | None \<Rightarrow> seek_pass normalise ls pat r = Some i)))"
  using assms by (auto simp: seek_sequence_def Let_def split: option.splits)

lemma seek_sequence_None:
  assumes "pat \<noteq> []"
  shows "seek_sequence ls pat start eof = None \<longleftrightarrow>
    (\<forall>i. \<not> accepts normalise ls pat (search_from ls pat start eof) i)"
proof (cases "length pat \<le> length ls")
  case True
  show ?thesis
    unfolding seek_sequence_passes(1) [OF assms True refl] pass_position(2) [OF True]
    using accepts_chain by blast
next
  case False
  then show ?thesis using assms accepts_length by (auto simp: seek_sequence_def)
qed

lemma seek_sequence_Some:
  assumes "pat \<noteq> []" "seek_sequence ls pat start eof = Some i"
  shows "\<exists>k < length views. accepts (views ! k) ls pat (search_from ls pat start eof) i
    \<and> (\<forall>j < i. \<not> accepts (views ! k) ls pat (search_from ls pat start eof) j)
    \<and> (\<forall>k' < k. \<forall>j. \<not> accepts (views ! k') ls pat (search_from ls pat start eof) j)"
proof -
  have len: "length pat \<le> length ls"
    using assms by (auto simp: seek_sequence_def split: if_splits)
  note P = pass_position [OF len, of _ start eof]
  let ?pass = "\<lambda>f. seek_pass f ls pat (seek_range ls pat start eof)"
  from assms(2) have c: "case ?pass id of Some j \<Rightarrow> j = i | None \<Rightarrow>
      (case ?pass trim_end of Some j \<Rightarrow> j = i | None \<Rightarrow>
        (case ?pass trim of Some j \<Rightarrow> j = i | None \<Rightarrow> ?pass normalise = Some i))"
    unfolding seek_sequence_passes(2) [OF assms(1) len refl] .
  have v: "length views = 4" by (simp add: views_def)
  have "\<exists>k < 4. ?pass (views ! k) = Some i \<and> (\<forall>k' < k. ?pass (views ! k') = None)"
  proof (cases "?pass id")
    case (Some j)
    with c show ?thesis by (intro exI [of _ 0]) (simp add: views_def)
  next
    case n1: None
    show ?thesis
    proof (cases "?pass trim_end")
      case (Some j)
      with c n1 show ?thesis by (intro exI [of _ 1]) (simp add: views_def)
    next
      case n2: None
      show ?thesis
      proof (cases "?pass trim")
        case (Some j)
        with c n1 n2 show ?thesis
          by (intro exI [of _ 2]) (auto simp: views_def numeral_2_eq_2 less_Suc_eq)
      next
        case n3: None
        with c n1 n2 show ?thesis
          by (intro exI [of _ 3])
            (auto simp: views_def numeral_3_eq_3 less_Suc_eq)
      qed
    qed
  qed
  then show ?thesis unfolding P v by (simp only: conj_assoc)
qed

lemma seek_sequence_bounds:
  assumes "seek_sequence ls pat start eof = Some i" "start \<le> length ls"
  shows "i + length pat \<le> length ls" "\<not> eof \<or> pat = [] \<Longrightarrow> start \<le> i"
proof -
  have "i + length pat \<le> length ls \<and> (\<not> eof \<longrightarrow> start \<le> i)" if "pat \<noteq> []"
    using seek_sequence_Some [OF that assms(1)] by (auto simp: accepts_def search_from_def)
  moreover have "i = start" if "pat = []" using assms(1) that by (simp add: seek_sequence_def)
  ultimately show "i + length pat \<le> length ls" "\<not> eof \<or> pat = [] \<Longrightarrow> start \<le> i"
    using assms(2) by (cases "pat = []"; auto)+
qed

section \<open>Applying replacements\<close>

lemma remove_at_pow: "(remove_at i ^^ n) ls = take i ls @ drop (i + n) ls"
proof (induction n arbitrary: ls)
  case (Suc n)
  have "(remove_at i ^^ Suc n) ls = (remove_at i ^^ n) (remove_at i ls)"
    by (simp add: funpow_swap1)
  also have "\<dots> = take i (remove_at i ls) @ drop (i + n) (remove_at i ls)" by (rule Suc.IH)
  also have "\<dots> = take i ls @ drop (i + Suc n) ls" by (auto simp: remove_at_def add.commute)
  finally show ?case .
qed simp

lemma insert_loop_Some: "i \<le> length ls \<Longrightarrow> insert_loop i xs ls = Some (take i ls @ xs @ drop i ls)"
proof (induction xs arbitrary: i ls)
  case (Cons x xs)
  then show ?case using Cons.IH [of "Suc i" "take i ls @ x # drop i ls"] by (simp add: insert_at_def)
qed simp

lemma apply_loop_append:
  "apply_loop (xs @ ys) ls = (case apply_loop xs ls of None \<Rightarrow> None | Some ls' \<Rightarrow> apply_loop ys ls')"
  by (induction xs ls rule: apply_loop.induct) (auto split: option.splits)

lemma apply_loop_one:
  "s \<le> length ls \<Longrightarrow> apply_loop [(s, n, new)] ls = Some (take s ls @ new @ drop (s + n) ls)"
  by (simp add: remove_at_pow insert_loop_Some)

text \<open>Applied from the highest start down, no insertion is ever past the end.\<close>

lemma apply_loop_no_panic:
  "sorted_wrt (\<lambda>a b. fst b \<le> fst a) reps \<Longrightarrow> (reps \<noteq> [] \<longrightarrow> fst (hd reps) \<le> length ls) \<Longrightarrow>
   apply_loop reps ls \<noteq> None"
proof (induction reps arbitrary: ls)
  case (Cons r reps)
  obtain s n new where r: "r = (s, n, new)" by (cases r)
  from Cons.prems(2) have s: "s \<le> length ls" by (simp add: r)
  have "fst (hd reps) \<le> length (take s ls @ new @ drop (s + n) ls)" if "reps \<noteq> []"
    using Cons.prems(1) that s by (cases reps) (auto simp: r)
  with Cons.prems(1) have "apply_loop reps (take s ls @ new @ drop (s + n) ls) \<noteq> None"
    by (intro Cons.IH) auto
  with s show ?case by (simp add: r remove_at_pow insert_loop_Some)
qed simp

text \<open>Replacements in file order that do not overlap, and what they make of a file: the kept
  segments with the new segments between them.\<close>

fun in_order :: "nat \<Rightarrow> replacement list \<Rightarrow> nat \<Rightarrow> bool" where
  "in_order k [] len \<longleftrightarrow> k \<le> len"
| "in_order k ((s, n, new) # reps) len \<longleftrightarrow> k \<le> s \<and> in_order (s + n) reps len"

fun spliced :: "nat \<Rightarrow> rstr list \<Rightarrow> replacement list \<Rightarrow> rstr list" where
  "spliced k ls [] = drop k ls"
| "spliced k ls ((s, n, new) # reps) = take (s - k) (drop k ls) @ new @ spliced (s + n) ls reps"

lemma in_order_le: "in_order k reps len \<Longrightarrow> k \<le> len"
  by (induction k reps len rule: in_order.induct) auto

lemma apply_in_order:
  "in_order k reps (length ls) \<Longrightarrow> apply_loop (rev reps) ls = Some (take k ls @ spliced k ls reps)"
proof (induction reps arbitrary: k)
  case (Cons r reps)
  obtain s n new where r: "r = (s, n, new)" by (cases r)
  with Cons.prems have io: "k \<le> s" "in_order (s + n) reps (length ls)" by simp_all
  have le: "s + n \<le> length ls" using in_order_le [OF io(2)] .
  have "apply_loop (rev (r # reps)) ls =
      apply_loop [(s, n, new)] (take (s + n) ls @ spliced (s + n) ls reps)"
    by (simp add: r apply_loop_append Cons.IH [OF io(2)] del: apply_loop.simps)
  also have "\<dots> = Some (take s ls @ new @ spliced (s + n) ls reps)"
    using le by (subst apply_loop_one) simp_all
  also have "take s ls = take k ls @ take (s - k) (drop k ls)"
    using io(1) by (metis le_add_diff_inverse take_add)
  finally show ?case by (simp add: r)
qed simp

lemma in_order_sorted: "in_order k reps len \<Longrightarrow> sorted (map fst reps) \<and> (\<forall>r \<in> set reps. k \<le> fst r)"
  by (induction k reps len rule: in_order.induct) force+

section \<open>Computing replacements\<close>

lemma seek_context_bounds:
  assumes "seek_context orig path c li = Ok li'" "li \<le> length orig"
  shows "li \<le> li'" "li' \<le> length orig"
  using assms seek_sequence_bounds [of orig "[the (change_context c)]" li False]
  by (auto simp: seek_context_def split: option.splits)

lemma seek_chunk_bounds:
  assumes "seek_chunk orig c li = (Some i, pat, new)" "li \<le> length orig"
  shows "i + length pat \<le> length orig" "\<not> is_end_of_file c \<Longrightarrow> li \<le> i"
  using assms seek_sequence_bounds [of orig _ li "is_end_of_file c" i]
  by (auto simp: seek_chunk_def Let_def split: if_splits)

lemma replacements_loop_bounds:
  "replacements_loop orig path chunks li reps = Ok reps' \<Longrightarrow> li \<le> length orig \<Longrightarrow>
   \<forall>(s, n, _) \<in> set reps. s + n \<le> length orig \<Longrightarrow> \<forall>(s, n, _) \<in> set reps'. s + n \<le> length orig"
proof (induction chunks arbitrary: li reps)
  case (Cons c chunks)
  obtain li' where c: "seek_context orig path c li = Ok li'"
    using Cons.prems(1) by (auto split: sum.splits)
  note li = seek_context_bounds [OF c Cons.prems(2)]
  show ?case
  proof (cases "old_lines c = []")
    case True
    let ?r = "(if ends_empty orig then length orig - 1 else length orig, 0, new_lines c)"
    have l: "replacements_loop orig path chunks li' (reps @ [?r]) = Ok reps'"
      using Cons.prems(1) c True by (simp add: Let_def)
    show ?thesis by (rule Cons.IH [OF l li(2)]) (use Cons.prems(3) in auto)
  next
    case False
    then obtain i pat new where sc: "seek_chunk orig c li' = (Some i, pat, new)"
      using Cons.prems(1) c by (auto split: prod.splits option.splits)
    note b = seek_chunk_bounds [OF sc li(2)]
    have l: "replacements_loop orig path chunks (i + length pat) (reps @ [(i, length pat, new)]) = Ok reps'"
      using Cons.prems(1) c False sc by simp
    show ?thesis by (rule Cons.IH [OF l b(1)]) (use Cons.prems(3) b(1) in auto)
  qed
qed auto

text \<open>A replacement realises a chunk: it covers lines that match the chunk's old lines under the
  loosest view and puts the chunk's new lines there, both possibly without a trailing empty line.\<close>

definition realises :: "rstr list \<Rightarrow> UpdateFileChunk \<Rightarrow> replacement \<Rightarrow> bool" where
  "realises orig c r \<longleftrightarrow>
     (case r of (s, n, new) \<Rightarrow>
        s + n \<le> length orig
        \<and> map normalise (take n (drop s orig)) = map normalise (take n (old_lines c))
        \<and> (n = length (old_lines c) \<and> new = new_lines c
           \<or> ends_empty (old_lines c) \<and> n = length (old_lines c) - 1
             \<and> new = (if ends_empty (new_lines c) then butlast (new_lines c) else new_lines c)))"

lemma accepts_views: "k < length views \<Longrightarrow> accepts (views ! k) ls pat s i \<Longrightarrow> accepts normalise ls pat s i"
  using accepts_chain by (auto simp: views_def less_Suc_eq numeral_eq_Suc)

lemma seek_sequence_normalise:
  assumes "seek_sequence ls pat start eof = Some i"
  shows "map normalise (take (length pat) (drop i ls)) = map normalise pat"
proof (cases "pat = []")
  case False
  from seek_sequence_Some [OF this assms] accepts_views show ?thesis
    unfolding accepts_def by blast
qed simp

lemma seek_chunk_realises:
  assumes "seek_chunk orig c li = (Some i, pat, new)" "li \<le> length orig"
  shows "realises orig c (i, length pat, new)"
proof -
  note b = seek_chunk_bounds(1) [OF assms]
  let ?retry = "seek_sequence orig (old_lines c) li (is_end_of_file c) = None \<and> ends_empty (old_lines c)"
  show ?thesis
  proof (cases ?retry)
    case False
    then have p: "pat = old_lines c" "new = new_lines c"
      and s: "seek_sequence orig pat li (is_end_of_file c) = Some i"
      using assms(1) unfolding seek_chunk_def Let_def if_not_P [OF False] by auto
    have "take (length pat) (old_lines c) = pat" by (simp add: p)
    with seek_sequence_normalise [OF s] b p show ?thesis by (simp add: realises_def)
  next
    case True
    then have p: "pat = butlast (old_lines c)"
      "new = (if ends_empty (new_lines c) then butlast (new_lines c) else new_lines c)"
      and s: "seek_sequence orig pat li (is_end_of_file c) = Some i"
      using assms(1) unfolding seek_chunk_def Let_def if_P [OF True] by blast+
    have t: "take (length pat) (old_lines c) = pat" by (simp add: p(1) butlast_conv_take)
    have l: "length pat = length (old_lines c) - 1" by (simp add: p(1))
    show ?thesis unfolding realises_def split t
      using seek_sequence_normalise [OF s] b True p(2) l by blast
  qed
qed

text \<open>Chunks with old lines and without the end-of-file mark are found in file order.\<close>

lemma replacements_loop_plain:
  assumes "\<forall>c \<in> set chunks. old_lines c \<noteq> [] \<and> \<not> is_end_of_file c" "li \<le> length orig"
    "replacements_loop orig path chunks li reps = Ok reps'"
  shows "\<exists>new. reps' = reps @ new \<and> in_order li new (length orig) \<and> list_all2 (realises orig) chunks new"
  using assms
proof (induction chunks arbitrary: li reps)
  case (Cons c chunks)
  obtain li' where c: "seek_context orig path c li = Ok li'"
    using Cons.prems(3) by (auto split: sum.splits)
  note li = seek_context_bounds [OF c Cons.prems(2)]
  have old: "old_lines c \<noteq> []" "\<not> is_end_of_file c" using Cons.prems(1) by auto
  then obtain i pat new where sc: "seek_chunk orig c li' = (Some i, pat, new)"
    using Cons.prems(3) c by (auto split: prod.splits option.splits)
  note b = seek_chunk_bounds [OF sc li(2)]
  have l: "replacements_loop orig path chunks (i + length pat) (reps @ [(i, length pat, new)]) = Ok reps'"
    using Cons.prems(3) c old(1) sc by simp
  obtain rest where "reps' = (reps @ [(i, length pat, new)]) @ rest"
    "in_order (i + length pat) rest (length orig)" "list_all2 (realises orig) chunks rest"
    using Cons.IH [OF _ b(1) l] Cons.prems(1) by auto
  with b(2) [OF old(2)] li(1) seek_chunk_realises [OF sc li(2)] show ?case
    by (intro exI [of _ "(i, length pat, new) # rest"]) auto
qed auto

lemma compute_replacements_plain:
  assumes "\<forall>c \<in> set chunks. old_lines c \<noteq> [] \<and> \<not> is_end_of_file c"
    "compute_replacements orig path chunks = Ok reps"
  shows "in_order 0 reps (length orig)" "list_all2 (realises orig) chunks reps"
proof -
  from assms(2) obtain raw where r: "replacements_loop orig path chunks 0 [] = Ok raw"
    "reps = sort_key fst raw"
    by (auto simp: compute_replacements_def split: sum.splits)
  from replacements_loop_plain [OF assms(1) _ r(1)] have
    "in_order 0 raw (length orig)" "list_all2 (realises orig) chunks raw" by simp_all
  moreover from in_order_sorted [OF this(1)] have "sort_key fst raw = raw"
    by (simp add: sort_key_id_if_sorted)
  ultimately show "in_order 0 reps (length orig)" "list_all2 (realises orig) chunks reps"
    by (simp_all add: r(2))
qed

lemma compute_replacements_no_panic:
  assumes "compute_replacements orig path chunks = Ok reps"
  shows "apply_replacements orig reps \<noteq> None"
proof -
  from assms obtain raw where r: "replacements_loop orig path chunks 0 [] = Ok raw"
    "reps = sort_key fst raw"
    by (auto simp: compute_replacements_def split: sum.splits)
  have b: "\<forall>(s, n, _) \<in> set reps. s + n \<le> length orig"
    using replacements_loop_bounds [OF r(1)] by (simp add: r(2))
  have "sorted (map fst reps)" by (simp add: r(2))
  then have "sorted_wrt (\<lambda>a b. fst b \<le> fst a) (rev reps)"
    by (simp add: sorted_wrt_rev sorted_map)
  moreover have "rev reps \<noteq> [] \<longrightarrow> fst (hd (rev reps)) \<le> length orig"
    using b by (cases reps rule: rev_cases) auto
  ultimately show ?thesis unfolding apply_replacements_def by (rule apply_loop_no_panic)
qed

lemmas derive_eval = derive_new_contents_def compute_replacements_def seek_context_def seek_chunk_def
  seek_sequence_def seek_range_def original_lines_def ends_empty_def apply_replacements_def
  remove_at_def insert_at_def Let_def numeral_eq_Suc upt_rec

lemma replace_line_example:
  "derive_new_contents (lit ''a'' @ [nl] @ lit ''b'' @ [nl]) (lit ''f'')
     [\<lparr>change_context = None, old_lines = [lit ''b''], new_lines = [lit ''c'', lit ''d''], is_end_of_file = False\<rparr>]
   = Some (Ok (lit ''a'' @ [nl] @ lit ''c'' @ [nl] @ lit ''d'' @ [nl]))"
  by (simp add: derive_eval)

lemma derive_total: "derive_new_contents original_content path chunks \<noteq> None"
proof (cases "compute_replacements (original_lines original_content) path chunks")
  case (Inr reps)
  from compute_replacements_no_panic [OF this] Inr show ?thesis
    by (auto simp: derive_new_contents_def)
qed (simp add: derive_new_contents_def)

section \<open>Properties\<close>

text \<open>Applying update chunks never panics: whatever the file and the chunks, out of order,
  overlapping or marked end-of-file, every insertion is in range and the function returns new
  contents or an error.\<close>

theorem derive_new_contents_never_panics:
  "derive_new_contents original_content path chunks \<noteq> None"
  by (rule derive_total)

text \<open>C7. For chunks that carry old lines and no end-of-file mark, success means: there is one
  replacement per chunk, in file order and without overlap, each covering lines that match the
  chunk's old lines up to surrounding whitespace and typographic punctuation and carrying its new
  lines, and the new contents are the kept segments of the file with the new lines between them,
  ended by a newline.\<close>

theorem derive_new_contents_splices:
  assumes "\<forall>c \<in> set chunks. old_lines c \<noteq> [] \<and> \<not> is_end_of_file c"
    "derive_new_contents original_content path chunks = Some (Ok out)"
  shows "\<exists>reps. in_order 0 reps (length (original_lines original_content))
    \<and> list_all2 (realises (original_lines original_content)) chunks reps
    \<and> out = join [nl] (let new = spliced 0 (original_lines original_content) reps
                       in if ends_empty new then new else new @ [[]])"
proof -
  from assms(2) obtain reps where r: "compute_replacements (original_lines original_content) path chunks = Ok reps"
    by (auto simp: derive_new_contents_def split: sum.splits)
  note p = compute_replacements_plain [OF assms(1) r]
  have "apply_replacements (original_lines original_content) reps =
      Some (spliced 0 (original_lines original_content) reps)"
    using apply_in_order [OF p(1)] by (simp add: apply_replacements_def)
  with assms(2) p r show ?thesis by (auto simp: derive_new_contents_def Let_def)
qed

theorem derive_new_contents_splices_witness:
  "\<exists>reps. in_order 0 reps (length (original_lines (lit ''a'' @ [nl] @ lit ''b'' @ [nl])))
    \<and> list_all2 (realises (original_lines (lit ''a'' @ [nl] @ lit ''b'' @ [nl])))
        [\<lparr>change_context = None, old_lines = [lit ''b''], new_lines = [lit ''c'', lit ''d''], is_end_of_file = False\<rparr>] reps
    \<and> lit ''a'' @ [nl] @ lit ''c'' @ [nl] @ lit ''d'' @ [nl] =
      join [nl] (let new = spliced 0 (original_lines (lit ''a'' @ [nl] @ lit ''b'' @ [nl])) reps
                 in if ends_empty new then new else new @ [[]])"
  by (rule derive_new_contents_splices [OF _ replace_line_example]) simp

text \<open>The matcher on a non-empty pattern: a result is the first position from the search start
  accepted by the strictest of the four views that accepts any position, and there is no result
  exactly when the loosest view accepts none. With \<open>eof\<close> the search start is the last position
  where the pattern fits, and \<open>start\<close> is not used.\<close>

theorem seek_sequence_correct:
  assumes "pat \<noteq> []"
  shows "(case seek_sequence ls pat start eof of
      None \<Rightarrow> \<forall>i. \<not> accepts normalise ls pat (search_from ls pat start eof) i
    | Some i \<Rightarrow> \<exists>k < length views. accepts (views ! k) ls pat (search_from ls pat start eof) i
        \<and> (\<forall>j < i. \<not> accepts (views ! k) ls pat (search_from ls pat start eof) j)
        \<and> (\<forall>k' < k. \<forall>j. \<not> accepts (views ! k') ls pat (search_from ls pat start eof) j))"
  using seek_sequence_None [OF assms] seek_sequence_Some [OF assms] by (simp split: option.splits)

theorem seek_sequence_correct_witness:
  "\<forall>i. \<not> accepts normalise [lit ''a'', lit ''b''] [lit ''c''] 0 i"
proof -
  have "seek_sequence [lit ''a'', lit ''b''] [lit ''c''] 0 False = None"
    by (simp add: seek_sequence_def seek_range_def normalise_def normalise_char_def trim_def
        trim_start_def trim_end_def is_whitespace_def Let_def upt_rec)
  then show ?thesis
    using seek_sequence_correct [of "[lit ''c'']" "[lit ''a'', lit ''b'']" 0 False]
    by (simp add: search_from_def)
qed

text \<open>A pure addition is lost when another chunk covers the file's final empty line: on a file of
  a line and an empty line, replacing both and then adding a line reports success without the
  added line. Additions are placed before the final empty line, inside the range the other
  replacement removes.\<close>

theorem pure_addition_lost:
  "derive_new_contents (lit ''a'' @ [nl, nl]) (lit ''f'')
     [\<lparr>change_context = None, old_lines = [lit ''a'', []], new_lines = [lit ''b'', []], is_end_of_file = False\<rparr>,
      \<lparr>change_context = None, old_lines = [], new_lines = [lit ''x''], is_end_of_file = False\<rparr>]
   = Some (Ok (lit ''b'' @ [nl, nl]))"
  by (simp add: derive_eval)

end
