(* ===== verification/Patch_Tool.thy ===== *)
theory Patch_Tool
  imports Patch_Apply
begin

text \<open>
  The \<open>apply_patch\<close> tool (\<open>codex/apply_patch/tool.rs\<close>): parse, compute every change in memory, write
  the changes, report. The file system is an interface (\<open>AsyncFileSystem\<close>) with laws; the local
  one (\<open>computer/local/file_system.rs\<close>) over the standard library's files interprets it. A file is
  named by its path string; two strings never name one file.
\<close>

section \<open>File systems\<close>

record 'f FileSystem =
  fs_read :: "rstr \<Rightarrow> 'f \<Rightarrow> (rstr, rstr) result"
  fs_write :: "rstr \<Rightarrow> rstr \<Rightarrow> 'f \<Rightarrow> (rstr, unit) result \<times> 'f"
  fs_delete :: "rstr \<Rightarrow> 'f \<Rightarrow> (rstr, unit) result \<times> 'f"
  fs_mkdirs :: "rstr \<Rightarrow> 'f \<Rightarrow> (rstr, unit) result \<times> 'f"

section \<open>Paths, changes and reports\<close>

text \<open>\<open>Path::join\<close>: an absolute path replaces the base.\<close>

definition path_join :: "rstr \<Rightarrow> rstr \<Rightarrow> rstr" where
  "path_join cwd p =
     (if starts_with (lit ''/'') p \<or> cwd = [] then p
      else if ends_with (lit ''/'') cwd then cwd @ p
      else cwd @ lit ''/'' @ p)"

datatype FileChange =
    Add rstr rstr
  | Delete rstr rstr
  | Update rstr rstr rstr
  | Move rstr rstr rstr rstr

record FileWritten =
  tool_call_id :: rstr
  absolute_path :: rstr
  content :: rstr
  previous_content :: "rstr option"
  is_new_file :: bool

record ApplyPatchFileResult =
  res_path :: rstr
  action :: rstr
  old_text :: "rstr option"
  new_text :: rstr
  move_to :: "rstr option"

datatype ApplyPatchOutput =
    Success "ApplyPatchFileResult list" rstr
  | ParseErrorOutput rstr
  | ApplicationError rstr
  | EmptyPatch rstr

section \<open>Computing the changes\<close>

definition read_file_as_string :: "'f FileSystem \<Rightarrow> 'f \<Rightarrow> rstr \<Rightarrow> (rstr, rstr) result" where
  "read_file_as_string F f path = fs_read F path f"

definition apply_error_text :: "ApplyPatchError \<Rightarrow> rstr" where
  "apply_error_text e =
     (case e of
        ComputeReplacements msg \<Rightarrow> msg
      | Parse (InvalidPatchError m) \<Rightarrow> lit ''invalid patch: '' @ m
      | Parse (InvalidHunkError m n) \<Rightarrow> lit ''invalid hunk at line '' @ show_nat n @ lit '', '' @ m
      | Io context m _ \<Rightarrow> context @ lit '': '' @ m)"

text \<open>One hunk; the outer option is a panic of \<open>derive_new_contents\<close>.\<close>

fun compute_change ::
  "rstr \<Rightarrow> 'f FileSystem \<Rightarrow> 'f \<Rightarrow> Hunk \<Rightarrow> (rstr, FileChange) result option" where
  "compute_change cwd F f (AddFile path contents) = Some (Ok (Add (path_join cwd path) contents))"
| "compute_change cwd F f (DeleteFile path) =
     (let resolved = path_join cwd path in
      case read_file_as_string F f resolved of
        Err e \<Rightarrow> Some (Err (lit ''Failed to read file: '' @ resolved @ lit '', '' @ e))
      | Ok original_content \<Rightarrow> Some (Ok (Delete resolved original_content)))"
| "compute_change cwd F f (UpdateFile path move_path chunks) =
     (let resolved = path_join cwd path in
      case read_file_as_string F f resolved of
        Err e \<Rightarrow> Some (Err (lit ''Failed to read file to update: '' @ resolved @ lit '', '' @ e))
      | Ok original_content \<Rightarrow>
          (case derive_new_contents original_content resolved chunks of
             None \<Rightarrow> None
           | Some (Err e) \<Rightarrow> Some (Err (apply_error_text e))
           | Some (Ok new_content) \<Rightarrow>
               (case move_path of
                  Some dest \<Rightarrow> Some (Ok (Move resolved (path_join cwd dest) original_content new_content))
                | None \<Rightarrow> Some (Ok (Update resolved original_content new_content)))))"

fun compute_all_changes ::
  "rstr \<Rightarrow> 'f FileSystem \<Rightarrow> 'f \<Rightarrow> Hunk list \<Rightarrow> (rstr, FileChange list) result option" where
  "compute_all_changes cwd F f [] = Some (Ok [])"
| "compute_all_changes cwd F f (h # hs) =
     (case compute_change cwd F f h of
        None \<Rightarrow> None
      | Some (Err e) \<Rightarrow> Some (Err e)
      | Some (Ok c) \<Rightarrow>
          (case compute_all_changes cwd F f hs of
             None \<Rightarrow> None
           | Some (Err e) \<Rightarrow> Some (Err e)
           | Some (Ok cs) \<Rightarrow> Some (Ok (c # cs))))"

section \<open>Writing the changes\<close>

record 'f ToolRun =
  tr_fs :: 'f
  tr_notes :: "FileWritten list"
  tr_results :: "ApplyPatchFileResult list"

definition ensure_parent_dirs :: "'f FileSystem \<Rightarrow> rstr \<Rightarrow> 'f \<Rightarrow> (rstr, unit) result \<times> 'f" where
  "ensure_parent_dirs F path f = fs_mkdirs F path f"

text \<open>File-system calls in sequence, the first error ending them (the \<open>?\<close> operator).\<close>

fun fs_seq :: "('f \<Rightarrow> (rstr, unit) result \<times> 'f) list \<Rightarrow> 'f \<Rightarrow> (rstr, unit) result \<times> 'f" where
  "fs_seq [] f = (Ok (), f)"
| "fs_seq (op # ops) f = (case op f of (Err e, f') \<Rightarrow> (Err e, f') | (Ok _, f') \<Rightarrow> fs_seq ops f')"

fun change_calls :: "'f FileSystem \<Rightarrow> FileChange \<Rightarrow> ('f \<Rightarrow> (rstr, unit) result \<times> 'f) list" where
  "change_calls F (Add path c) = [ensure_parent_dirs F path, fs_write F path c]"
| "change_calls F (Delete path orig) = [fs_delete F path]"
| "change_calls F (Update path orig new) = [fs_write F path new]"
| "change_calls F (Move src dest orig new) =
     [ensure_parent_dirs F dest, fs_write F dest new, fs_delete F src]"

fun change_notes :: "rstr \<Rightarrow> FileChange \<Rightarrow> FileWritten list" where
  "change_notes tc (Add path c) =
     [\<lparr>tool_call_id = tc, absolute_path = path, content = c, previous_content = None, is_new_file = True\<rparr>]"
| "change_notes tc (Delete path orig) =
     [\<lparr>tool_call_id = tc, absolute_path = path, content = [], previous_content = Some orig,
       is_new_file = False\<rparr>]"
| "change_notes tc (Update path orig new) =
     [\<lparr>tool_call_id = tc, absolute_path = path, content = new, previous_content = Some orig,
       is_new_file = False\<rparr>]"
| "change_notes tc (Move src dest orig new) =
     [\<lparr>tool_call_id = tc, absolute_path = dest, content = new, previous_content = None,
       is_new_file = True\<rparr>,
      \<lparr>tool_call_id = tc, absolute_path = src, content = [], previous_content = Some orig,
       is_new_file = False\<rparr>]"

fun change_result :: "FileChange \<Rightarrow> ApplyPatchFileResult" where
  "change_result (Add path c) =
     \<lparr>res_path = path, action = lit ''added'', old_text = None, new_text = c, move_to = None\<rparr>"
| "change_result (Delete path orig) =
     \<lparr>res_path = path, action = lit ''deleted'', old_text = Some orig, new_text = [], move_to = None\<rparr>"
| "change_result (Update path orig new) =
     \<lparr>res_path = path, action = lit ''modified'', old_text = Some orig, new_text = new, move_to = None\<rparr>"
| "change_result (Move src dest orig new) =
     \<lparr>res_path = src, action = lit ''moved'', old_text = Some orig, new_text = new, move_to = Some dest\<rparr>"

fun apply_changes ::
  "'f FileSystem \<Rightarrow> rstr \<Rightarrow> FileChange list \<Rightarrow> 'f ToolRun \<Rightarrow> (rstr, unit) result \<times> 'f ToolRun" where
  "apply_changes F tc [] r = (Ok (), r)"
| "apply_changes F tc (c # cs) r =
     (case fs_seq (change_calls F c) (tr_fs r) of
        (Err e, f') \<Rightarrow> (Err e, r\<lparr>tr_fs := f'\<rparr>)
      | (Ok _, f') \<Rightarrow>
          apply_changes F tc cs
            \<lparr>tr_fs = f', tr_notes = tr_notes r @ change_notes tc c,
             tr_results = tr_results r @ [change_result c]\<rparr>)"

definition build_summary :: "ApplyPatchFileResult list \<Rightarrow> rstr" where
  "build_summary results =
     lit ''Success. Updated the following files:'' @ [nl]
     @ concat (map (\<lambda>r. (if action r = lit ''added'' then lit ''A''
                         else if action r = lit ''deleted'' then lit ''D'' else lit ''M'')
                        @ lit '' '' @ res_path r @ [nl]) results)"

section \<open>The tool\<close>

definition parse_error_text :: "ParseError \<Rightarrow> rstr" where
  "parse_error_text e =
     (case e of
        InvalidPatchError m \<Rightarrow> lit ''Invalid patch: '' @ m
      | InvalidHunkError message line_number \<Rightarrow>
          lit ''Invalid patch hunk on line '' @ show_nat line_number @ lit '': '' @ message)"

text \<open>The result, and the file system and notifications after the call; the outer option is a panic.\<close>

definition run_tool ::
  "'f FileSystem \<Rightarrow> rstr \<Rightarrow> rstr \<Rightarrow> rstr \<Rightarrow> 'f
     \<Rightarrow> ((rstr, ApplyPatchOutput) result \<times> 'f \<times> FileWritten list) option" where
  "run_tool F cwd tc patch_text f =
     (case parse_patch patch_text of
        Err e \<Rightarrow> Some (Ok (ParseErrorOutput (parse_error_text e)), f, [])
      | Ok parsed \<Rightarrow>
          if hunks parsed = [] then Some (Ok (EmptyPatch (lit ''No files were modified.'')), f, [])
          else (case compute_all_changes cwd F f (hunks parsed) of
                  None \<Rightarrow> None
                | Some (Err msg) \<Rightarrow> Some (Ok (ApplicationError msg), f, [])
                | Some (Ok changes) \<Rightarrow>
                    (case apply_changes F tc changes \<lparr>tr_fs = f, tr_notes = [], tr_results = []\<rparr> of
                       (Err e, r) \<Rightarrow> Some (Err e, tr_fs r, tr_notes r)
                     | (Ok _, r) \<Rightarrow>
                         Some (Ok (Success (tr_results r) (build_summary (tr_results r))),
                               tr_fs r, tr_notes r))))"

section \<open>The local file system\<close>

text \<open>Regular files by path, the paths the operating system refuses to change, and its error texts.\<close>

record LocalFs =
  lf_files :: "rstr \<rightharpoonup> rstr"
  lf_denied :: "rstr \<Rightarrow> bool"
  lf_error :: "rstr \<Rightarrow> rstr"

definition local_read :: "rstr \<Rightarrow> LocalFs \<Rightarrow> (rstr, rstr) result" where
  "local_read path f =
     (case lf_files f path of Some data \<Rightarrow> Ok data | None \<Rightarrow> Err (lf_error f path))"

definition local_mkdirs :: "rstr \<Rightarrow> LocalFs \<Rightarrow> (rstr, unit) result \<times> LocalFs" where
  "local_mkdirs path f = (if lf_denied f path then (Err (lf_error f path), f) else (Ok (), f))"

definition local_write :: "rstr \<Rightarrow> rstr \<Rightarrow> LocalFs \<Rightarrow> (rstr, unit) result \<times> LocalFs" where
  "local_write path data f =
     (case local_mkdirs path f of
        (Err e, f') \<Rightarrow> (Err e, f')
      | (Ok _, f') \<Rightarrow> (Ok (), f'\<lparr>lf_files := (lf_files f')(path \<mapsto> data)\<rparr>))"

definition local_delete :: "rstr \<Rightarrow> LocalFs \<Rightarrow> (rstr, unit) result \<times> LocalFs" where
  "local_delete path f =
     (if lf_denied f path \<or> lf_files f path = None then (Err (lf_error f path), f)
      else (Ok (), f\<lparr>lf_files := (lf_files f)(path := None)\<rparr>))"

definition local_fs :: "LocalFs FileSystem" where
  "local_fs = \<lparr>fs_read = local_read, fs_write = local_write, fs_delete = local_delete,
               fs_mkdirs = local_mkdirs\<rparr>"

section \<open>The interface\<close>

text \<open>What a change does to the files a reader sees.\<close>

fun change_view :: "FileChange \<Rightarrow> (rstr \<rightharpoonup> rstr) \<Rightarrow> (rstr \<rightharpoonup> rstr)" where
  "change_view (Add p c) v = v(p \<mapsto> c)"
| "change_view (Delete p orig) v = v(p := None)"
| "change_view (Update p orig new) v = v(p \<mapsto> new)"
| "change_view (Move src dest orig new) v = (v(dest \<mapsto> new))(src := None)"

section \<open>A reference: hunks one after the other\<close>

text \<open>Each hunk reads the files the hunks before it have left.\<close>

fun seq_hunk :: "rstr \<Rightarrow> Hunk \<Rightarrow> (rstr \<rightharpoonup> rstr) \<Rightarrow> (rstr \<rightharpoonup> rstr) option" where
  "seq_hunk cwd (AddFile path contents) v = Some (v(path_join cwd path \<mapsto> contents))"
| "seq_hunk cwd (DeleteFile path) v =
     (case v (path_join cwd path) of None \<Rightarrow> None | Some _ \<Rightarrow> Some (v(path_join cwd path := None)))"
| "seq_hunk cwd (UpdateFile path move_path chunks) v =
     (case v (path_join cwd path) of
        None \<Rightarrow> None
      | Some orig \<Rightarrow>
          (case derive_new_contents orig (path_join cwd path) chunks of
             Some (Ok new) \<Rightarrow>
               (case move_path of
                  None \<Rightarrow> Some (v(path_join cwd path \<mapsto> new))
                | Some dest \<Rightarrow> Some ((v(path_join cwd dest \<mapsto> new))(path_join cwd path := None)))
           | _ \<Rightarrow> None))"

fun seq_hunks :: "rstr \<Rightarrow> Hunk list \<Rightarrow> (rstr \<rightharpoonup> rstr) \<Rightarrow> (rstr \<rightharpoonup> rstr) option" where
  "seq_hunks cwd [] v = Some v"
| "seq_hunks cwd (h # hs) v =
     (case seq_hunk cwd h v of None \<Rightarrow> None | Some v' \<Rightarrow> seq_hunks cwd hs v')"

fun touched :: "rstr \<Rightarrow> Hunk \<Rightarrow> rstr list" where
  "touched cwd (AddFile path contents) = [path_join cwd path]"
| "touched cwd (DeleteFile path) = [path_join cwd path]"
| "touched cwd (UpdateFile path move_path chunks) =
     path_join cwd path # (case move_path of None \<Rightarrow> [] | Some dest \<Rightarrow> [path_join cwd dest])"

locale file_system =
  fixes F :: "'f FileSystem" and view :: "'f \<Rightarrow> (rstr \<rightharpoonup> rstr)"
  assumes read_ok: "fs_read F p f = Ok c \<Longrightarrow> view f p = Some c"
    and write_ok: "fs_write F p c f = (Ok (), f') \<Longrightarrow> view f' = (view f)(p \<mapsto> c)"
    and delete_ok: "fs_delete F p f = (Ok (), f') \<Longrightarrow> view f' = (view f)(p := None)"
    and mkdirs_view: "fs_mkdirs F p f = (res, f') \<Longrightarrow> view f' = view f"
begin

lemma fs_seq_view:
  assumes "fs_seq (change_calls F c) f = (Ok (), f')"
  shows "view f' = change_view c (view f)"
  using assms
  by (cases c) (auto simp: ensure_parent_dirs_def split: prod.splits sum.splits
      dest!: write_ok delete_ok mkdirs_view)

lemma apply_changes_view:
  "apply_changes F tc cs r = (Ok (), r') \<Longrightarrow> view (tr_fs r') = fold change_view cs (view (tr_fs r))"
proof (induction cs arbitrary: r)
  case (Cons c cs)
  obtain f1 where f1: "fs_seq (change_calls F c) (tr_fs r) = (Ok (), f1)"
    using Cons.prems by (auto split: prod.splits sum.splits)
  from Cons.prems f1 have "view (tr_fs r') = fold change_view cs (view f1)"
    using Cons.IH by fastforce
  with fs_seq_view [OF f1] show ?case by simp
qed simp

lemma compute_change_seq:
  assumes "compute_change cwd F f h = Some (Ok c)" "\<forall>p \<in> set (touched cwd h). v p = view f p"
  shows "seq_hunk cwd h v = Some (change_view c v)"
  using assms
  by (cases h) (auto simp: read_file_as_string_def Let_def dest!: read_ok
      split: sum.splits option.splits)

lemma change_view_frame:
  assumes "compute_change cwd F f h = Some (Ok c)" "p \<notin> set (touched cwd h)"
  shows "change_view c v p = v p"
  using assms by (cases h) (auto simp: Let_def split: sum.splits option.splits)

lemma compute_all_seq:
  "compute_all_changes cwd F f hs = Some (Ok cs) \<Longrightarrow> distinct (concat (map (touched cwd) hs)) \<Longrightarrow>
   \<forall>p \<in> set (concat (map (touched cwd) hs)). v p = view f p \<Longrightarrow>
   seq_hunks cwd hs v = Some (fold change_view cs v)"
proof (induction hs arbitrary: cs v)
  case (Cons h hs)
  obtain c cs' where c: "compute_change cwd F f h = Some (Ok c)"
    "compute_all_changes cwd F f hs = Some (Ok cs')" "cs = c # cs'"
    using Cons.prems(1) by (auto split: option.splits sum.splits)
  have "\<forall>p \<in> set (concat (map (touched cwd) hs)). change_view c v p = view f p"
    using Cons.prems(2,3) change_view_frame [OF c(1)] by fastforce
  with Cons.IH [OF c(2)] Cons.prems(2) have
    "seq_hunks cwd hs (change_view c v) = Some (fold change_view cs' (change_view c v))" by simp
  moreover have "seq_hunk cwd h v = Some (change_view c v)"
    using compute_change_seq [OF c(1)] Cons.prems(3) by simp
  ultimately show ?case by (simp add: c(3))
qed simp

lemma run_tool_success:
  assumes "run_tool F cwd tc text f = Some (Ok (Success res summary), f', notes)"
    and "parse_patch text = Ok parsed" and "distinct (concat (map (touched cwd) (hunks parsed)))"
  shows "seq_hunks cwd (hunks parsed) (view f) = Some (view f')"
proof -
  obtain changes r where c: "compute_all_changes cwd F f (hunks parsed) = Some (Ok changes)"
    "apply_changes F tc changes \<lparr>tr_fs = f, tr_notes = [], tr_results = []\<rparr> = (Ok (), r)" "f' = tr_fs r"
    using assms(1,2) by (auto simp: run_tool_def split: if_splits option.splits sum.splits prod.splits)
  show ?thesis using compute_all_seq [OF c(1) assms(3)] apply_changes_view [OF c(2)] c(3) by simp
qed

end

interpretation lfs: file_system local_fs lf_files
  by unfold_locales
    (auto simp: local_fs_def local_read_def local_write_def local_delete_def local_mkdirs_def
      split: option.splits if_splits)

section \<open>The tool never panics\<close>

lemma compute_change_total: "compute_change cwd F f h \<noteq> None"
proof (cases h)
  case (UpdateFile path mp chunks)
  have "\<exists>y. derive_new_contents c (path_join cwd path) chunks = Some y" for c
    using derive_total by blast
  then show ?thesis
    unfolding UpdateFile compute_change.simps Let_def
    by (auto split: sum.split option.split) (metis option.distinct(1))
qed (auto simp: Let_def split: sum.splits)

lemma compute_all_changes_total: "compute_all_changes cwd F f hs \<noteq> None"
proof (induction hs)
  case (Cons h hs)
  with compute_change_total [of cwd F f h] show ?case by (auto split: option.splits sum.splits)
qed simp

section \<open>Properties\<close>

text \<open>C37. The tool never panics, and it writes nothing unless the whole patch parses and every hunk can
  be applied: a parse error, an empty patch or an application error leaves the file system as it
  was and sends no notification.\<close>

theorem run_tool_all_or_nothing:
  "case run_tool F cwd tc text f of
     None \<Rightarrow> False
   | Some (res, f', notes) \<Rightarrow>
       (case res of
          Err _ \<Rightarrow> True
        | Ok out \<Rightarrow> (case out of Success _ _ \<Rightarrow> True | _ \<Rightarrow> f' = f \<and> notes = []))"
proof (cases "parse_patch text")
  case (Inr parsed)
  show ?thesis
  proof (cases "compute_all_changes cwd F f (hunks parsed)")
    case None
    then show ?thesis by (simp add: compute_all_changes_total)
  next
    case (Some r)
    then show ?thesis
      by (cases r) (auto simp: run_tool_def Inr split: prod.splits sum.splits)
  qed
qed (simp add: run_tool_def)


definition demo_fs :: "LocalFs" where
  "demo_fs = \<lparr>lf_files = [lit ''/f'' \<mapsto> lit ''a'' @ [nl] @ lit ''c'' @ [nl]],
              lf_denied = (\<lambda>_. False), lf_error = (\<lambda>p. p)\<rparr>"

definition edit_chunk :: "string \<Rightarrow> string \<Rightarrow> UpdateFileChunk" where
  "edit_chunk old new =
     \<lparr>change_context = None, old_lines = [lit old], new_lines = [lit new], is_end_of_file = False\<rparr>"

lemmas tool_eval = run_tool_def parse_print_patch wf_path_def wf_line_def wf_chunk_def is_whitespace_def
  edit_chunk_def demo_fs_def path_join_def read_file_as_string_def local_fs_def local_read_def
  local_write_def local_delete_def local_mkdirs_def ensure_parent_dirs_def


text \<open>A patch with two update sections for one file keeps only the last: both are computed from
  the original text and the second write replaces the first, and the run reports success.\<close>

theorem second_update_overwrites_first:
  "case run_tool local_fs (lit ''/'') []
      (print_patch [UpdateFile (lit ''f'') None [edit_chunk ''a'' ''b''],
                    UpdateFile (lit ''f'') None [edit_chunk ''c'' ''d'']]) demo_fs of
     Some (Ok (Success _ _), f', _) \<Rightarrow> lf_files f' (lit ''/f'') = Some (lit ''a'' @ [nl] @ lit ''d'' @ [nl])
   | _ \<Rightarrow> False"
proof -
  let ?hs = "[UpdateFile (lit ''f'') None [edit_chunk ''a'' ''b''],
              UpdateFile (lit ''f'') None [edit_chunk ''c'' ''d'']]"
  have p: "parse_patch (print_patch ?hs) = Ok \<lparr>hunks = ?hs, patch = print_patch ?hs\<rparr>"
    by (rule parse_print_patch) (simp add: tool_eval)
  have d1: "derive_new_contents [97, 10, 99, 10] [47, 102] [edit_chunk ''a'' ''b''] =
      Some (Ok [98, 10, 99, 10])"
    and d2: "derive_new_contents [97, 10, 99, 10] [47, 102] [edit_chunk ''c'' ''d''] =
      Some (Ok [97, 10, 100, 10])"
    by (simp_all add: edit_chunk_def derive_eval)
  show ?thesis unfolding run_tool_def p
    by (simp add: d1 d2 demo_fs_def path_join_def ends_with_def read_file_as_string_def local_fs_def
        local_read_def local_write_def local_mkdirs_def Let_def)
qed

text \<open>An update that moves a file to its own path deletes it: the tool writes the destination and
  then deletes the source, and reports success.\<close>

theorem move_onto_itself_deletes:
  "case run_tool local_fs (lit ''/'') []
      (print_patch [UpdateFile (lit ''f'') (Some (lit ''f'')) [edit_chunk ''a'' ''b'']]) demo_fs of
     Some (Ok (Success _ _), f', _) \<Rightarrow> lf_files f' (lit ''/f'') = None
   | _ \<Rightarrow> False"
proof -
  let ?hs = "[UpdateFile (lit ''f'') (Some (lit ''f'')) [edit_chunk ''a'' ''b'']]"
  have p: "parse_patch (print_patch ?hs) = Ok \<lparr>hunks = ?hs, patch = print_patch ?hs\<rparr>"
    by (rule parse_print_patch) (simp add: tool_eval)
  have d: "derive_new_contents [97, 10, 99, 10] [47, 102] [edit_chunk ''a'' ''b''] =
      Some (Ok [98, 10, 99, 10])"
    by (simp add: edit_chunk_def derive_eval)
  show ?thesis unfolding run_tool_def p
    by (simp add: d demo_fs_def path_join_def ends_with_def read_file_as_string_def local_fs_def
        local_read_def local_write_def local_delete_def local_mkdirs_def ensure_parent_dirs_def Let_def)
qed

end
