(* ===== verification/Conversation.thy ===== *)
theory Conversation
  imports Prelude
begin

text \<open>
  Conversation items (\<open>xai-grok-sampling-types/src/conversation.rs\<close>): the item types, their
  constructors and text, image stripping, rewind truncation, working-directory rewriting, and the
  two repairs of tool-call histories, with the loops written as the source has them (by index,
  recorded splices, in-place removal) and proved equal to structural definitions.

  The wrapped Responses-API structs carry the fields the code reads.
\<close>

section \<open>Items\<close>

datatype ContentPart = Text rstr | Image rstr

datatype SyntheticReason =
    CompactionMeta | SystemReminder | ProjectInstructions | AutoContinue | AutoRecovery | Interjection
  | TaskCompleted | SubagentCompleted | NotificationDrain | GoalSummary | GoalClassifierNudge
  | SchedulerFired | UnknownReason

fun starts_prompt_turn :: "SyntheticReason \<Rightarrow> bool" where
  "starts_prompt_turn TaskCompleted = True"
| "starts_prompt_turn SubagentCompleted = True"
| "starts_prompt_turn NotificationDrain = True"
| "starts_prompt_turn GoalClassifierNudge = True"
| "starts_prompt_turn SchedulerFired = True"
| "starts_prompt_turn _ = False"

datatype PriorTurnInterrupt = MidTurnAbort | PermissionRejected | PermissionCancelled | UnknownInterrupt

record UserItem =
  u_content :: "ContentPart list"
  synthetic_reason :: "SyntheticReason option"
  prior_turn_interrupt :: "PriorTurnInterrupt option"
  prompt_index :: "nat option"

record ToolCall =
  tc_id :: rstr
  tc_name :: rstr
  tc_arguments :: rstr

datatype ReasoningEffort =
    EffortNone | EffortMinimal | EffortLow | EffortMedium | EffortHigh | EffortXhigh

record AssistantItem =
  a_content :: rstr
  tool_calls :: "ToolCall list"
  model_id :: "rstr option"
  model_fingerprint :: "rstr option"
  reasoning_effort :: "ReasoningEffort option"

record ToolResultItem =
  tr_call_id :: rstr
  tr_content :: rstr
  tr_images :: "ContentPart list"

datatype WebSearchAction = Search rstr | OpenPage "rstr option" | Find rstr rstr | FindInPage rstr rstr

datatype BackendToolKind =
    WebSearch rstr WebSearchAction
  | XSearch rstr rstr rstr
  | CodeInterpreter rstr "rstr option"

record ReasoningItem =
  r_id :: rstr
  r_summary :: "rstr list"
  r_content :: "rstr list option"
  r_encrypted :: "rstr option"

datatype ConversationItem =
    System rstr
  | User UserItem
  | Assistant AssistantItem
  | ToolResult ToolResultItem
  | BackendToolCall BackendToolKind
  | Reasoning ReasoningItem

datatype Role = RoleSystem | RoleUser | RoleAssistant | RoleTool

section \<open>Constructors\<close>

definition user_item :: "ContentPart list \<Rightarrow> SyntheticReason option \<Rightarrow> UserItem" where
  "user_item parts reason = \<lparr>u_content = parts, synthetic_reason = reason,
     prior_turn_interrupt = None, prompt_index = None\<rparr>"

definition user :: "rstr \<Rightarrow> ConversationItem" where
  "user s = User (user_item [Text s] None)"

definition user_with_parts :: "ContentPart list \<Rightarrow> ConversationItem" where
  "user_with_parts parts = User (user_item parts None)"

definition user_meta :: "rstr \<Rightarrow> ConversationItem" where
  "user_meta s = User (user_item [Text s] (Some CompactionMeta))"

definition system_reminder :: "rstr \<Rightarrow> ConversationItem" where
  "system_reminder s = User (user_item [Text s] (Some SystemReminder))"

definition project_instructions :: "rstr \<Rightarrow> ConversationItem" where
  "project_instructions s = User (user_item [Text s] (Some ProjectInstructions))"

definition auto_continue :: "rstr \<Rightarrow> ConversationItem" where
  "auto_continue s = User (user_item [Text s] (Some AutoContinue))"

definition interjection :: "rstr \<Rightarrow> ConversationItem" where
  "interjection s = User (user_item [Text s] (Some Interjection))"

definition auto_recovery :: "rstr \<Rightarrow> ConversationItem" where
  "auto_recovery s = User (user_item [Text s] (Some AutoRecovery))"

definition task_completed :: "rstr \<Rightarrow> ConversationItem" where
  "task_completed s = User (user_item [Text s] (Some TaskCompleted))"

definition subagent_completed :: "rstr \<Rightarrow> ConversationItem" where
  "subagent_completed s = User (user_item [Text s] (Some SubagentCompleted))"

definition notification_drain :: "rstr \<Rightarrow> ConversationItem" where
  "notification_drain s = User (user_item [Text s] (Some NotificationDrain))"

definition goal_summary :: "rstr \<Rightarrow> ConversationItem" where
  "goal_summary s = User (user_item [Text s] (Some GoalSummary))"

definition goal_classifier_nudge :: "rstr \<Rightarrow> ConversationItem" where
  "goal_classifier_nudge s = User (user_item [Text s] (Some GoalClassifierNudge))"

definition scheduler_fired :: "rstr \<Rightarrow> ConversationItem" where
  "scheduler_fired s = User (user_item [Text s] (Some SchedulerFired))"

definition assistant :: "rstr \<Rightarrow> ConversationItem" where
  "assistant s = Assistant \<lparr>a_content = s, tool_calls = [], model_id = None,
     model_fingerprint = None, reasoning_effort = None\<rparr>"

definition assistant_with_model :: "rstr \<Rightarrow> rstr \<Rightarrow> ConversationItem" where
  "assistant_with_model s mid = Assistant \<lparr>a_content = s, tool_calls = [], model_id = Some mid,
     model_fingerprint = None, reasoning_effort = None\<rparr>"

definition assistant_tool_calls :: "ToolCall list \<Rightarrow> ConversationItem" where
  "assistant_tool_calls tcs = Assistant \<lparr>a_content = [], tool_calls = tcs, model_id = None,
     model_fingerprint = None, reasoning_effort = None\<rparr>"

definition tool_result :: "rstr \<Rightarrow> rstr \<Rightarrow> ConversationItem" where
  "tool_result call_id s = ToolResult \<lparr>tr_call_id = call_id, tr_content = s, tr_images = []\<rparr>"

definition tool_result_with_images :: "rstr \<Rightarrow> rstr \<Rightarrow> ContentPart list \<Rightarrow> ConversationItem" where
  "tool_result_with_images call_id s imgs =
     ToolResult \<lparr>tr_call_id = call_id, tr_content = s, tr_images = imgs\<rparr>"

fun role :: "ConversationItem \<Rightarrow> Role" where
  "role (System _) = RoleSystem"
| "role (User _) = RoleUser"
| "role (Assistant _) = RoleAssistant"
| "role (ToolResult _) = RoleTool"
| "role (BackendToolCall _) = RoleAssistant"
| "role (Reasoning _) = RoleAssistant"

fun add_image :: "rstr \<Rightarrow> ConversationItem \<Rightarrow> ConversationItem" where
  "add_image url (User u) = User (u\<lparr>u_content := u_content u @ [Image url]\<rparr>)"
| "add_image url item = item"

section \<open>Text\<close>

text \<open>\<open>&s[..n]\<close> at a byte offset: a panic (\<open>None\<close>) inside a character or past the end.\<close>

fun byte_prefix :: "nat \<Rightarrow> rstr \<Rightarrow> rstr option" where
  "byte_prefix n [] = (if n = 0 then Some [] else None)"
| "byte_prefix n (c # cs) =
     (if n = 0 then Some []
      else if n < utf8_len c then None
      else map_option ((#) c) (byte_prefix (n - utf8_len c) cs))"

definition code_preview :: "rstr option \<Rightarrow> rstr option" where
  "code_preview code =
     (case code of
        None \<Rightarrow> Some []
      | Some c \<Rightarrow> if 100 < len_bytes c then map_option (\<lambda>p. p @ lit ''...'') (byte_prefix 100 c) else Some c)"

fun action_desc :: "WebSearchAction \<Rightarrow> rstr" where
  "action_desc (Search q) = lit ''search: '' @ q"
| "action_desc (OpenPage url) = lit ''open: '' @ (case url of Some u \<Rightarrow> u | None \<Rightarrow> lit ''?'')"
| "action_desc (Find pat url) = lit ''find '' @ [34] @ pat @ [34] @ lit '' in '' @ url"
| "action_desc (FindInPage pat url) = lit ''find '' @ [34] @ pat @ [34] @ lit '' in '' @ url"

fun text_summary :: "BackendToolKind \<Rightarrow> rstr option" where
  "text_summary (WebSearch _ act) = Some (lit ''[backend web_search] '' @ action_desc act)"
| "text_summary (XSearch _ name inp) =
     Some (lit ''[backend x_search] '' @ name @ lit ''('' @ inp @ lit '')'')"
| "text_summary (CodeInterpreter _ code) =
     map_option (\<lambda>p. lit ''[backend code_interpreter] '' @ p) (code_preview code)"

definition reasoning_item_text :: "ReasoningItem \<Rightarrow> rstr" where
  "reasoning_item_text r =
     join [nl] (r_summary r @ (case r_content r of Some cs \<Rightarrow> cs | None \<Rightarrow> []))"

fun part_text :: "ContentPart \<Rightarrow> rstr option" where
  "part_text (Text t) = Some t"
| "part_text (Image _) = None"

fun text_content :: "ConversationItem \<Rightarrow> rstr option" where
  "text_content (System s) = Some s"
| "text_content (User u) = Some (join [nl] (List.map_filter part_text (u_content u)))"
| "text_content (Assistant a) = Some (a_content a)"
| "text_content (ToolResult t) = Some (tr_content t)"
| "text_content (BackendToolCall b) = text_summary b"
| "text_content (Reasoning r) = Some (reasoning_item_text r)"

section \<open>Images\<close>

definition image_removed :: rstr where
  "image_removed = lit ''[image removed '' @ [8212] @ lit '' conversation too large]''"

fun strip_part :: "ContentPart \<Rightarrow> ContentPart \<times> nat" where
  "strip_part (Image _) = (Text image_removed, 1)"
| "strip_part (Text t) = (Text t, 0)"

fun strip_item :: "ConversationItem \<Rightarrow> ConversationItem \<times> nat" where
  "strip_item (User u) =
     (let ps = map strip_part (u_content u)
      in (User (u\<lparr>u_content := map fst ps\<rparr>), sum_list (map snd ps)))"
| "strip_item (ToolResult t) = (ToolResult (t\<lparr>tr_images := []\<rparr>), length (tr_images t))"
| "strip_item item = (item, 0)"

definition request_strip_images :: "ConversationItem list \<Rightarrow> ConversationItem list \<times> nat" where
  "request_strip_images items =
     (let rs = map strip_item items in (map fst rs, sum_list (map snd rs)))"

section \<open>Rewind truncation\<close>

text \<open>The four loops carry the index of the item at the head of the remaining list.\<close>

fun truncate_markers_only :: "nat \<Rightarrow> nat \<Rightarrow> ConversationItem list \<Rightarrow> nat" where
  "truncate_markers_only target i [] = i"
| "truncate_markers_only target i (item # rest) =
     (case item of
        User u \<Rightarrow>
          (case prompt_index u of
             Some idx \<Rightarrow> if target \<le> idx then i else truncate_markers_only target (i + 1) rest
           | None \<Rightarrow> truncate_markers_only target (i + 1) rest)
      | _ \<Rightarrow> truncate_markers_only target (i + 1) rest)"

text \<open>The effective index of an unmarked user item, and whether the preamble has been seen after it.\<close>

definition unmarked_index :: "UserItem \<Rightarrow> bool \<Rightarrow> nat \<Rightarrow> nat option \<times> bool" where
  "unmarked_index u seen_preamble next_unmarked =
     (case synthetic_reason u of
        None \<Rightarrow> if \<not> seen_preamble then (None, True) else (Some next_unmarked, seen_preamble)
      | Some reason \<Rightarrow>
          if starts_prompt_turn reason then (Some next_unmarked, seen_preamble)
          else (None, seen_preamble))"

fun truncate_legacy :: "nat \<Rightarrow> nat \<Rightarrow> bool \<Rightarrow> nat \<Rightarrow> ConversationItem list \<Rightarrow> nat" where
  "truncate_legacy target i seen next_unmarked [] = i"
| "truncate_legacy target i seen next_unmarked (item # rest) =
     (case item of
        User u \<Rightarrow>
          (case unmarked_index u seen next_unmarked of
             (Some idx, seen') \<Rightarrow>
               if target \<le> idx then i else truncate_legacy target (i + 1) seen' (idx + 1) rest
           | (None, seen') \<Rightarrow> truncate_legacy target (i + 1) seen' next_unmarked rest)
      | _ \<Rightarrow> truncate_legacy target (i + 1) seen next_unmarked rest)"

fun count_legacy_turns :: "nat \<Rightarrow> bool \<Rightarrow> ConversationItem list \<Rightarrow> nat" where
  "count_legacy_turns turns seen [] = turns"
| "count_legacy_turns turns seen (item # rest) =
     (case item of
        User u \<Rightarrow>
          if prompt_index u \<noteq> None then turns
          else (case synthetic_reason u of
                  None \<Rightarrow> if \<not> seen then count_legacy_turns turns True rest
                          else count_legacy_turns (turns + 1) seen rest
                | Some reason \<Rightarrow>
                    if starts_prompt_turn reason then count_legacy_turns (turns + 1) seen rest
                    else count_legacy_turns turns seen rest)
      | _ \<Rightarrow> count_legacy_turns turns seen rest)"

fun truncate_progressive ::
  "nat \<Rightarrow> nat \<Rightarrow> bool \<Rightarrow> bool \<Rightarrow> nat \<Rightarrow> ConversationItem list \<Rightarrow> nat" where
  "truncate_progressive target i seen seen_marker next_unmarked [] = i"
| "truncate_progressive target i seen seen_marker next_unmarked (item # rest) =
     (case item of
        User u \<Rightarrow>
          (case prompt_index u of
             Some idx \<Rightarrow>
               if target \<le> idx then i
               else truncate_progressive target (i + 1) seen True next_unmarked rest
           | None \<Rightarrow>
               if seen_marker
               then truncate_progressive target (i + 1) seen seen_marker next_unmarked rest
               else (case unmarked_index u seen next_unmarked of
                       (Some idx, seen') \<Rightarrow>
                         if target \<le> idx then i
                         else truncate_progressive target (i + 1) seen' seen_marker (idx + 1) rest
                     | (None, seen') \<Rightarrow>
                         truncate_progressive target (i + 1) seen' seen_marker next_unmarked rest))
      | _ \<Rightarrow> truncate_progressive target (i + 1) seen seen_marker next_unmarked rest)"

fun first_marker :: "ConversationItem list \<Rightarrow> nat option" where
  "first_marker [] = None"
| "first_marker (User u # rest) = (case prompt_index u of Some i \<Rightarrow> Some i | None \<Rightarrow> first_marker rest)"
| "first_marker (_ # rest) = first_marker rest"

definition conversation_truncate_for_prompt :: "ConversationItem list \<Rightarrow> nat \<Rightarrow> nat" where
  "conversation_truncate_for_prompt conv target =
     (case first_marker conv of
        None \<Rightarrow> truncate_legacy target 0 False 0 conv
      | Some first_marker_idx \<Rightarrow>
          if count_legacy_turns 0 False conv \<noteq> first_marker_idx
          then truncate_markers_only target 0 conv
          else truncate_progressive target 0 False False 0 conv)"

section \<open>Working-directory rewriting\<close>

definition rewrite :: "rstr \<Rightarrow> rstr \<Rightarrow> rstr \<Rightarrow> rstr" where
  "rewrite src dst s = (if contains_sub src s then replace_sub src dst s else s)"

fun rewrite_part :: "rstr \<Rightarrow> rstr \<Rightarrow> ContentPart \<Rightarrow> ContentPart" where
  "rewrite_part src dst (Text t) = Text (rewrite src dst t)"
| "rewrite_part src dst (Image u) = Image u"

fun transform_item :: "rstr \<Rightarrow> rstr \<Rightarrow> ConversationItem \<Rightarrow> ConversationItem" where
  "transform_item src dst (System s) = System (rewrite src dst s)"
| "transform_item src dst (User u) = User (u\<lparr>u_content := map (rewrite_part src dst) (u_content u)\<rparr>)"
| "transform_item src dst (Assistant a) =
     Assistant (a\<lparr>a_content := rewrite src dst (a_content a),
                  tool_calls := map (\<lambda>tc. tc\<lparr>tc_arguments := rewrite src dst (tc_arguments tc)\<rparr>)
                                  (tool_calls a)\<rparr>)"
| "transform_item src dst (ToolResult t) = ToolResult (t\<lparr>tr_content := rewrite src dst (tr_content t)\<rparr>)"
| "transform_item src dst (BackendToolCall b) = BackendToolCall b"
| "transform_item src dst (Reasoning r) =
     Reasoning (r\<lparr>r_summary := map (rewrite src dst) (r_summary r),
                  r_content := map_option (map (rewrite src dst)) (r_content r)\<rparr>)"

definition transform_conversation_cwd ::
  "rstr \<Rightarrow> rstr \<Rightarrow> ConversationItem list \<Rightarrow> ConversationItem list" where
  "transform_conversation_cwd src dst items = map (transform_item src dst) items"

section \<open>Repair of unanswered tool calls\<close>

datatype DanglingToolCallReason = UserCancelled | HarnessHalted rstr

fun synthetic_dangling_result_text :: "rstr \<Rightarrow> DanglingToolCallReason \<Rightarrow> rstr" where
  "synthetic_dangling_result_text name UserCancelled =
     lit ''Tool execution was cancelled by the user (tool `'' @ name @ lit ''` was not executed).''"
| "synthetic_dangling_result_text name (HarnessHalted cls) =
     lit ''Tool execution was halted by the harness ('' @ cls @ lit ''); the tool `'' @ name
     @ lit ''` was not executed.''"

fun is_tool_result :: "ConversationItem \<Rightarrow> bool" where
  "is_tool_result (ToolResult _) = True"
| "is_tool_result _ = False"

fun result_id :: "ConversationItem \<Rightarrow> rstr" where
  "result_id (ToolResult t) = tr_call_id t"
| "result_id _ = []"

fun calls_of :: "ConversationItem \<Rightarrow> ToolCall list" where
  "calls_of (Assistant a) = tool_calls a"
| "calls_of _ = []"

text \<open>The inner \<open>while\<close> loop: the end of the run of tool results from \<open>j\<close> and the ids in it.\<close>

function answered_loop :: "ConversationItem list \<Rightarrow> nat \<Rightarrow> rstr set \<Rightarrow> nat \<times> rstr set" where
  "answered_loop conv j answered =
     (if j < length conv \<and> is_tool_result (conv ! j)
      then answered_loop conv (j + 1) (insert (result_id (conv ! j)) answered)
      else (j, answered))"
  by auto

termination
  by (relation "measure (\<lambda>(conv, j, _). length conv - j)") auto

declare answered_loop.simps [simp del]

lemma answered_loop_ge: "answered_loop conv j ids = (k, ids') \<Longrightarrow> j \<le> k"
proof (induction conv j ids rule: answered_loop.induct)
  case (1 conv j ids)
  have "answered_loop conv j ids =
      (if j < length conv \<and> is_tool_result (conv ! j)
       then answered_loop conv (j + 1) (insert (result_id (conv ! j)) ids) else (j, ids))"
    by (rule answered_loop.simps)
  with 1 show ?case by (auto split: if_splits)
qed

definition synthetic_results ::
  "DanglingToolCallReason \<Rightarrow> ToolCall list \<Rightarrow> rstr set \<Rightarrow> ConversationItem list" where
  "synthetic_results reason calls answered =
     map (\<lambda>tc. tool_result (tc_id tc) (synthetic_dangling_result_text (tc_name tc) reason))
       (filter (\<lambda>tc. tc_id tc \<notin> answered) calls)"

text \<open>Phase 1, the forward scan; it records positions and synthetic items.\<close>

function repair_scan ::
  "DanglingToolCallReason \<Rightarrow> ConversationItem list \<Rightarrow> nat \<Rightarrow> (nat \<times> ConversationItem list) list" where
  "repair_scan reason conv i =
     (if length conv \<le> i then []
      else if calls_of (conv ! i) = [] then repair_scan reason conv (i + 1)
      else (case answered_loop conv (i + 1) {} of
              (j, answered) \<Rightarrow>
                (let syn = synthetic_results reason (calls_of (conv ! i)) answered
                 in (if syn \<noteq> [] then [(j, syn)] else []) @ repair_scan reason conv j)))"
  by auto

termination
  by (relation "measure (\<lambda>(_, conv, i). length conv - i)") (auto dest!: answered_loop_ge [OF sym])

declare repair_scan.simps [simp del]

text \<open>Phase 2: \<open>Vec::splice(p..p, items)\<close> in reverse order.\<close>

definition splice_at :: "nat \<Rightarrow> 'a list \<Rightarrow> 'a list \<Rightarrow> 'a list" where
  "splice_at p items xs = take p xs @ items @ drop p xs"

definition repair_dangling_tool_calls ::
  "DanglingToolCallReason \<Rightarrow> ConversationItem list \<Rightarrow> ConversationItem list \<times> nat" where
  "repair_dangling_tool_calls reason conv =
     (let repairs = repair_scan reason conv 0
      in (fold (\<lambda>(p, items) c. splice_at p items c) (rev repairs) conv,
          sum_list (map (length \<circ> snd) repairs)))"

function has_dangling_loop :: "ConversationItem list \<Rightarrow> nat \<Rightarrow> bool" where
  "has_dangling_loop conv i =
     (if length conv \<le> i then False
      else if calls_of (conv ! i) = [] then has_dangling_loop conv (i + 1)
      else (case answered_loop conv (i + 1) {} of
              (j, answered) \<Rightarrow>
                if \<exists>tc \<in> set (calls_of (conv ! i)). tc_id tc \<notin> answered then True
                else has_dangling_loop conv j))"
  by auto

termination
  by (relation "measure (\<lambda>(conv, i). length conv - i)") (auto dest!: answered_loop_ge [OF sym])

declare has_dangling_loop.simps [simp del]

definition has_dangling_tool_calls :: "ConversationItem list \<Rightarrow> bool" where
  "has_dangling_tool_calls conv = has_dangling_loop conv 0"

section \<open>Removal of duplicate tool results\<close>

function run_end :: "ConversationItem list \<Rightarrow> nat \<Rightarrow> nat" where
  "run_end conv j = (if j < length conv \<and> is_tool_result (conv ! j) then run_end conv (j + 1) else j)"
  by auto

termination
  by (relation "measure (\<lambda>(conv, j). length conv - j)") auto

declare run_end.simps [simp del]

text \<open>The \<open>for\<close> loop over the run: \<open>seen.insert(id, idx)\<close> returns the previous index.\<close>

fun seen_loop :: "(nat \<times> ConversationItem) list \<Rightarrow> (rstr \<rightharpoonup> nat) \<Rightarrow> nat list \<Rightarrow> nat list" where
  "seen_loop [] seen to_remove = to_remove"
| "seen_loop ((idx, item) # rest) seen to_remove =
     (let seen' = seen(result_id item \<mapsto> idx)
      in case seen (result_id item) of
           Some prev \<Rightarrow> seen_loop rest seen' (to_remove @ [prev])
         | None \<Rightarrow> seen_loop rest seen' to_remove)"

definition vec_remove :: "nat \<Rightarrow> 'a list \<Rightarrow> 'a list" where
  "vec_remove i xs = take i xs @ drop (Suc i) xs"

definition duplicates_in :: "ConversationItem list \<Rightarrow> nat \<Rightarrow> nat \<Rightarrow> nat list" where
  "duplicates_in conv start fin =
     rev (sort (seen_loop (drop start (take fin (enumerate 0 conv))) Map.empty []))"

text \<open>The main loop; fuel bounds its iterations, \<open>None\<close> is fuel exhausted.\<close>

fun dedup_loop :: "nat \<Rightarrow> ConversationItem list \<Rightarrow> nat \<Rightarrow> nat \<Rightarrow> (ConversationItem list \<times> nat) option" where
  "dedup_loop 0 conv i removed = None"
| "dedup_loop (Suc fuel) conv i removed =
     (if length conv \<le> i then Some (conv, removed)
      else if calls_of (conv ! i) = [] then dedup_loop fuel conv (i + 1) removed
      else (let start = i + 1;
                fin = run_end conv start;
                dups = (if start < fin then duplicates_in conv start fin else [])
            in if dups \<noteq> []
               then dedup_loop fuel (fold vec_remove dups conv) i (removed + length dups)
               else dedup_loop fuel conv fin removed))"

definition dedup_duplicate_tool_results :: "ConversationItem list \<Rightarrow> ConversationItem list \<times> nat" where
  "dedup_duplicate_tool_results conv =
     (case dedup_loop (2 * length conv + 2) conv 0 0 of Some r \<Rightarrow> r | None \<Rightarrow> (conv, 0))"

section \<open>When the text of an item panics\<close>

lemma utf8_len_pos: "0 < utf8_len c"
  by (simp add: utf8_len_def)

lemma byte_prefix_None: "byte_prefix n s = None \<longleftrightarrow> (\<nexists>k. len_bytes (take k s) = n)"
proof (induction n s rule: byte_prefix.induct)
  case (1 n)
  then show ?case by (auto simp: len_bytes_def)
next
  case (2 n c cs)
  have take: "(\<exists>k. len_bytes (take k (c # cs)) = n) \<longleftrightarrow> n = 0 \<or> (\<exists>k. utf8_len c + len_bytes (take k cs) = n)"
  proof
    assume "\<exists>k. len_bytes (take k (c # cs)) = n"
    then obtain k where "len_bytes (take k (c # cs)) = n" ..
    then show "n = 0 \<or> (\<exists>k. utf8_len c + len_bytes (take k cs) = n)"
      by (cases k) (auto simp: len_bytes_def)
  next
    assume "n = 0 \<or> (\<exists>k. utf8_len c + len_bytes (take k cs) = n)"
    then show "\<exists>k. len_bytes (take k (c # cs)) = n"
    proof
      assume "n = 0"
      then show ?thesis by (intro exI [of _ 0]) (simp add: len_bytes_def)
    next
      assume "\<exists>k. utf8_len c + len_bytes (take k cs) = n"
      then obtain k where "utf8_len c + len_bytes (take k cs) = n" ..
      then show ?thesis by (intro exI [of _ "Suc k"]) (simp add: len_bytes_def)
    qed
  qed
  show ?case
  proof (cases "n = 0 \<or> n < utf8_len c")
    case True
    then show ?thesis unfolding take by auto
  next
    case False
    then have "byte_prefix (n - utf8_len c) cs = None \<longleftrightarrow> (\<nexists>k. len_bytes (take k cs) = n - utf8_len c)"
      using 2 by blast
    moreover have "utf8_len c + m = n \<longleftrightarrow> m = n - utf8_len c" for m using False by auto
    ultimately show ?thesis unfolding take using False by auto
  qed
qed

text \<open>The text of a conversation item is defined except in one case, where the code panics: a
  backend code-interpreter call whose code is longer than 100 bytes and has a multi-byte character
  across byte 100, because the preview slices the string at that byte.\<close>

theorem text_content_panics_iff:
  "text_content item = None \<longleftrightarrow>
     (\<exists>i c. item = BackendToolCall (CodeInterpreter i (Some c)) \<and> 100 < len_bytes c
        \<and> (\<nexists>k. len_bytes (take k c) = 100))"
proof (cases item)
  case (BackendToolCall b)
  show ?thesis
  proof (cases b)
    case (CodeInterpreter i code)
    then show ?thesis
      by (cases code) (auto simp: BackendToolCall code_preview_def byte_prefix_None)
  qed (simp_all add: BackendToolCall)
qed simp_all

end
