(* ===== verification/Repair.thy ===== *)
theory Repair
  imports Conversation
begin

text \<open>
  What the two conversation repairs do: the index-based loops of \<open>repair_dangling_tool_calls\<close>,
  \<open>has_dangling_tool_calls\<close> and \<open>dedup_duplicate_tool_results\<close> equal structural definitions, from
  which their contracts follow.
\<close>

section \<open>Runs of tool results\<close>

abbreviation run_of :: "ConversationItem list \<Rightarrow> ConversationItem list" where
  "run_of xs \<equiv> takeWhile is_tool_result xs"

abbreviation after_run :: "ConversationItem list \<Rightarrow> ConversationItem list" where
  "after_run xs \<equiv> dropWhile is_tool_result xs"

definition ids :: "ConversationItem list \<Rightarrow> rstr set" where
  "ids xs = result_id ` set xs"

lemma ids_simps [simp]:
  "ids [] = {}" "ids (x # xs) = insert (result_id x) (ids xs)" "ids (xs @ ys) = ids xs \<union> ids ys"
  by (auto simp: ids_def)

lemma tool_result_is [simp]:
  "is_tool_result (tool_result i t)" "result_id (tool_result i t) = i" "calls_of (tool_result i t) = []"
  by (simp_all add: tool_result_def)

lemma tool_result_no_calls: "is_tool_result x \<Longrightarrow> calls_of x = []"
  by (cases x) auto

lemma answered_loop_eq:
  "answered_loop conv j answered =
     (j + length (run_of (drop j conv)), answered \<union> ids (run_of (drop j conv)))"
proof (induction conv j answered rule: answered_loop.induct)
  case (1 conv j answered)
  show ?case
  proof (cases "j < length conv \<and> is_tool_result (conv ! j)")
    case True
    then have d: "drop j conv = conv ! j # drop (j + 1) conv" by (simp add: Cons_nth_drop_Suc)
    show ?thesis
      by (subst answered_loop.simps) (use 1 True in \<open>simp add: d\<close>)
  next
    case False
    then have "run_of (drop j conv) = []"
      by (cases "j < length conv") (auto simp: Cons_nth_drop_Suc [symmetric])
    with False show ?thesis by (subst answered_loop.simps) auto
  qed
qed

lemma run_end_eq: "run_end conv j = j + length (run_of (drop j conv))"
proof (induction conv j rule: run_end.induct)
  case (1 conv j)
  show ?case
  proof (cases "j < length conv \<and> is_tool_result (conv ! j)")
    case True
    then have d: "drop j conv = conv ! j # drop (j + 1) conv" by (simp add: Cons_nth_drop_Suc)
    show ?thesis by (subst run_end.simps) (use 1 True in \<open>simp add: d\<close>)
  next
    case False
    then have "run_of (drop j conv) = []"
      by (cases "j < length conv") (auto simp: Cons_nth_drop_Suc [symmetric])
    with False show ?thesis by (subst run_end.simps) auto
  qed
qed

lemma drop_run: "drop (length (run_of xs)) xs = after_run xs"
  by (metis append_eq_conv_conj takeWhile_dropWhile_id)

lemma hd_after_run: "after_run xs = y # ys \<Longrightarrow> \<not> is_tool_result y"
  by (rule dropWhile_hd_not)

section \<open>Unanswered calls\<close>

text \<open>Structural versions: insert after each run what its assistant lacks; every call answered.\<close>

function fix_dangling :: "DanglingToolCallReason \<Rightarrow> ConversationItem list \<Rightarrow> ConversationItem list" where
  "fix_dangling reason [] = []"
| "fix_dangling reason (x # xs) =
     (if calls_of x = [] then x # fix_dangling reason xs
      else x # run_of xs @ synthetic_results reason (calls_of x) (ids (run_of xs))
           @ fix_dangling reason (after_run xs))"
  by pat_completeness auto

termination
  by (relation "measure (length \<circ> snd)") (auto simp: le_imp_less_Suc length_dropWhile_le)

fun all_answered :: "ConversationItem list \<Rightarrow> bool" where
  "all_answered [] = True"
| "all_answered (x # xs) \<longleftrightarrow> (\<forall>tc \<in> set (calls_of x). tc_id tc \<in> ids (run_of xs)) \<and> all_answered xs"

lemma all_answered_append_results:
  "\<forall>x \<in> set rs. is_tool_result x \<Longrightarrow> all_answered (rs @ xs) = all_answered xs"
  by (induction rs) (auto simp: tool_result_no_calls)

lemma all_answered_after_run: "all_answered xs = all_answered (after_run xs)"
  using all_answered_append_results [of "run_of xs" "after_run xs"] by (metis set_takeWhileD takeWhile_dropWhile_id)

lemma synthetic_are_results: "x \<in> set (synthetic_results reason calls a) \<Longrightarrow> is_tool_result x"
  by (auto simp: synthetic_results_def)

lemma synthetic_ids: "ids (synthetic_results reason calls a) = {tc_id tc | tc. tc \<in> set calls \<and> tc_id tc \<notin> a}"
  by (auto simp: synthetic_results_def ids_def image_image)

lemma synthetic_Nil: "synthetic_results reason calls a = [] \<longleftrightarrow> (\<forall>tc \<in> set calls. tc_id tc \<in> a)"
  by (auto simp: synthetic_results_def filter_empty_conv)

lemma fix_dangling_hd: "xs = y # ys \<Longrightarrow> \<exists>zs. fix_dangling reason xs = y # zs"
  by auto

lemma run_of_fix_after: "run_of (fix_dangling reason (after_run xs)) = []"
proof (cases "after_run xs")
  case Nil
  show ?thesis unfolding Nil by simp
next
  case (Cons y ys)
  from fix_dangling_hd [OF this] obtain zs where "fix_dangling reason (after_run xs) = y # zs" by blast
  with hd_after_run [OF Cons] show ?thesis by simp
qed

lemma fix_dangling_answered: "all_answered (fix_dangling reason xs)"
proof (induction reason xs rule: fix_dangling.induct)
  case (2 reason x xs)
  show ?case
  proof (cases "calls_of x = []")
    case True
    with 2 show ?thesis by simp
  next
    case False
    let ?syn = "synthetic_results reason (calls_of x) (ids (run_of xs))"
    let ?rest = "fix_dangling reason (after_run xs)"
    have rs: "\<forall>y \<in> set (run_of xs @ ?syn). is_tool_result y"
      by (auto dest: set_takeWhileD synthetic_are_results)
    then have run: "run_of ((run_of xs @ ?syn) @ ?rest) = run_of xs @ ?syn"
      by (subst takeWhile_append2) (auto simp: run_of_fix_after)
    have "\<forall>tc \<in> set (calls_of x). tc_id tc \<in> ids (run_of xs @ ?syn)"
      by (auto simp: synthetic_ids)
    moreover have "all_answered ((run_of xs @ ?syn) @ ?rest)"
      using 2(2) [OF False] by (simp only: all_answered_append_results [OF rs])
    ultimately show ?thesis using False run by simp
  qed
qed simp

lemma fix_dangling_id: "all_answered xs \<Longrightarrow> fix_dangling reason xs = xs"
proof (induction reason xs rule: fix_dangling.induct)
  case (2 reason x xs)
  show ?case
  proof (cases "calls_of x = []")
    case False
    have "all_answered (after_run xs)" using "2.prems" all_answered_after_run [of xs] by simp
    moreover have "synthetic_results reason (calls_of x) (ids (run_of xs)) = []"
      using "2.prems" by (simp add: synthetic_Nil)
    ultimately show ?thesis using 2(2) [OF False] False by simp
  qed (use 2 in simp)
qed simp

lemma fix_dangling_subseq: "subseq xs (fix_dangling reason xs)"
proof (induction reason xs rule: fix_dangling.induct)
  case (2 reason x xs)
  show ?case
  proof (cases "calls_of x = []")
    case False
    have "subseq (run_of xs @ after_run xs)
        (run_of xs @ (synthetic_results reason (calls_of x) (ids (run_of xs)) @ fix_dangling reason (after_run xs)))"
      using 2(2) [OF False] by (intro list_emb_append_mono) (auto intro: list_emb_append2)
    with False show ?thesis by simp
  qed (use 2 in simp)
qed simp

lemma fix_dangling_others:
  "filter (\<lambda>x. \<not> is_tool_result x) (fix_dangling reason xs) = filter (\<lambda>x. \<not> is_tool_result x) xs"
proof (induction reason xs rule: fix_dangling.induct)
  case (2 reason x xs)
  have n: "filter (\<lambda>x. \<not> is_tool_result x) (synthetic_results reason cs a) = []" for cs a
    by (auto simp: filter_empty_conv dest: synthetic_are_results)
  have r: "filter (\<lambda>x. \<not> is_tool_result x) (run_of xs) = []"
    by (auto simp: filter_empty_conv dest: set_takeWhileD)
  have "filter (\<lambda>x. \<not> is_tool_result x) xs = filter (\<lambda>x. \<not> is_tool_result x) (after_run xs)"
    using filter_append [of "\<lambda>x. \<not> is_tool_result x" "run_of xs" "after_run xs"] r by simp
  with 2 n r show ?case by (cases "calls_of x = []") simp_all
qed simp

text \<open>The recorded splices, applied from the last to the first, give the structural repair.\<close>

lemma take_run:
  "i < length conv \<Longrightarrow>
     take (i + 1 + length (run_of (drop (i + 1) conv))) conv
     = take i conv @ conv ! i # run_of (drop (i + 1) conv)"
  by (metis Suc_eq_plus1 append.assoc append_Cons append_Nil take_Suc_conv_app_nth take_add
      takeWhile_eq_take)

lemma repair_scan_step:
  assumes "i < length conv" "calls_of (conv ! i) \<noteq> []"
    "j = i + 1 + length (run_of (drop (i + 1) conv))"
    "syn = synthetic_results reason (calls_of (conv ! i)) (ids (run_of (drop (i + 1) conv)))"
  shows "repair_scan reason conv i = (if syn \<noteq> [] then [(j, syn)] else []) @ repair_scan reason conv j"
  using assms by (subst repair_scan.simps) (simp add: answered_loop_eq Let_def)

abbreviation apply_splices ::
  "(nat \<times> ConversationItem list) list \<Rightarrow> ConversationItem list \<Rightarrow> ConversationItem list" where
  "apply_splices repairs conv \<equiv> fold (\<lambda>(p, items) c. splice_at p items c) (rev repairs) conv"

lemma repair_scan_fix:
  "i \<le> length conv \<Longrightarrow>
     apply_splices (repair_scan reason conv i) conv = take i conv @ fix_dangling reason (drop i conv)
     \<and> length conv + sum_list (map (length \<circ> snd) (repair_scan reason conv i))
       = i + length (fix_dangling reason (drop i conv))"
proof (induction reason conv i rule: repair_scan.induct)
  case (1 reason conv i)
  show ?case
  proof (cases "i < length conv")
    case False
    with "1.prems" show ?thesis by (subst (1 2) repair_scan.simps) simp
  next
    case True
    then have d: "drop i conv = conv ! i # drop (i + 1) conv" by (simp add: Cons_nth_drop_Suc)
    show ?thesis
    proof (cases "calls_of (conv ! i) = []")
      case c: True
      have "repair_scan reason conv i = repair_scan reason conv (i + 1)"
        using True c by (subst repair_scan.simps) simp
      with "1.IH"(1) True c d show ?thesis by (simp add: take_Suc_conv_app_nth)
    next
      case c: False
      let ?run = "run_of (drop (i + 1) conv)"
      define j where "j = i + 1 + length ?run"
      define syn where "syn = synthetic_results reason (calls_of (conv ! i)) (ids ?run)"
      note step = repair_scan_step [OF True c j_def syn_def]
      have jl: "j \<le> length conv"
        using length_takeWhile_le [of is_tool_result "drop (i + 1) conv"] True by (simp add: j_def)
      have dj: "drop j conv = after_run (drop (i + 1) conv)"
        using drop_run [of "drop (i + 1) conv"] by (simp add: j_def add.commute)
      have IH: "apply_splices (repair_scan reason conv j) conv = take j conv @ fix_dangling reason (drop j conv)"
        "length conv + sum_list (map (length \<circ> snd) (repair_scan reason conv j))
          = j + length (fix_dangling reason (drop j conv))"
        using "1.IH"(2) [of j "ids ?run" syn] True c jl
        by (auto simp: answered_loop_eq j_def syn_def comp_def)
      have tj: "take j conv = take i conv @ conv ! i # ?run" unfolding j_def using take_run [OF True] .
      have f: "fix_dangling reason (drop i conv) = conv ! i # ?run @ syn @ fix_dangling reason (drop j conv)"
        using c by (simp add: d dj syn_def)
      show ?thesis
        using IH tj jl unfolding step f by (auto simp: splice_at_def j_def min_absorb2 comp_def)
    qed
  qed
qed

lemma repair_eq:
  "fst (repair_dangling_tool_calls reason conv) = fix_dangling reason conv"
  "snd (repair_dangling_tool_calls reason conv) = length (fix_dangling reason conv) - length conv"
  using repair_scan_fix [of 0 conv reason] 
  by (simp_all add: repair_dangling_tool_calls_def Let_def) linarith

lemma has_dangling_loop_eq:
  "i \<le> length conv \<Longrightarrow> has_dangling_loop conv i \<longleftrightarrow> \<not> all_answered (drop i conv)"
proof (induction conv i rule: has_dangling_loop.induct)
  case (1 conv i)
  show ?case
  proof (cases "i < length conv")
    case False
    with "1.prems" show ?thesis by (subst has_dangling_loop.simps) simp
  next
    case True
    then have d: "drop i conv = conv ! i # drop (i + 1) conv" by (simp add: Cons_nth_drop_Suc)
    let ?run = "run_of (drop (i + 1) conv)"
    define j where "j = i + 1 + length ?run"
    have jl: "j \<le> length conv"
      using length_takeWhile_le [of is_tool_result "drop (i + 1) conv"] True by (simp add: j_def)
    have dj: "drop j conv = after_run (drop (i + 1) conv)"
      using drop_run [of "drop (i + 1) conv"] by (simp add: j_def add.commute)
    have al: "answered_loop conv (i + 1) {} = (j, ids ?run)" by (simp add: answered_loop_eq j_def)
    show ?thesis
    proof (cases "calls_of (conv ! i) = []")
      case c: True
      have "has_dangling_loop conv i = has_dangling_loop conv (i + 1)"
        using True c by (subst has_dangling_loop.simps) simp
      with "1.IH"(1) True c d show ?thesis by simp
    next
      case c: False
      have e: "has_dangling_loop conv i \<longleftrightarrow>
          (\<exists>tc \<in> set (calls_of (conv ! i)). tc_id tc \<notin> ids ?run) \<or> has_dangling_loop conv j"
        using True c by (subst has_dangling_loop.simps) (simp add: al [simplified])
      show ?thesis
      proof (cases "\<exists>tc \<in> set (calls_of (conv ! i)). tc_id tc \<notin> ids ?run")
        case t: True
        with e d show ?thesis by auto
      next
        case f: False
        have "has_dangling_loop conv j \<longleftrightarrow> \<not> all_answered (drop j conv)"
          using "1.IH"(2) [of j "ids ?run"] True c f jl al by simp
        with e f d dj all_answered_after_run [of "drop (i + 1) conv"] show ?thesis by auto
      qed
    qed
  qed
qed

lemma has_dangling_eq: "has_dangling_tool_calls conv \<longleftrightarrow> \<not> all_answered conv"
  using has_dangling_loop_eq [of 0 conv] by (simp add: has_dangling_tool_calls_def)

lemma fix_dangling_grows: "length (fix_dangling reason xs) = length xs \<longleftrightarrow> all_answered xs"
  using fix_dangling_id [of xs reason] fix_dangling_answered [of reason xs]
    subseq_same_length [OF fix_dangling_subseq [of xs reason]] by metis

section \<open>Duplicate results\<close>

text \<open>The structural version: of results with one id, the last of the run stays.\<close>

fun keep_last :: "ConversationItem list \<Rightarrow> ConversationItem list" where
  "keep_last [] = []"
| "keep_last (x # xs) = (if result_id x \<in> ids xs then keep_last xs else x # keep_last xs)"

function dedup_results :: "ConversationItem list \<Rightarrow> ConversationItem list" where
  "dedup_results [] = []"
| "dedup_results (x # xs) =
     (if calls_of x = [] then x # dedup_results xs
      else x # keep_last (run_of xs) @ dedup_results (after_run xs))"
  by pat_completeness auto

termination
  by (relation "measure length") (auto simp: le_imp_less_Suc length_dropWhile_le)

lemma keep_last_ids [simp]: "ids (keep_last xs) = ids xs"
  by (induction xs) auto

lemma keep_last_idem: "keep_last (keep_last xs) = keep_last xs"
  by (induction xs) auto

lemma keep_last_distinct: "distinct (map result_id (keep_last xs))"
proof (induction xs)
  case (Cons x xs)
  have "result_id x \<notin> result_id ` set (keep_last xs) \<longleftrightarrow> result_id x \<notin> ids xs"
    using keep_last_ids [of xs] by (simp add: ids_def)
  with Cons show ?case by simp
qed simp

lemma keep_last_id: "distinct (map result_id xs) \<Longrightarrow> keep_last xs = xs"
  by (induction xs) (auto simp: ids_def)

lemma keep_last_subseq: "subseq (keep_last xs) xs"
  by (induction xs) auto

lemma keep_last_set: "x \<in> set (keep_last xs) \<Longrightarrow> x \<in> set xs"
  using subseq_order.order_refl keep_last_subseq by (metis notin_set_nthsI subseq_conv_nths)

text \<open>Positions that have a later result with the same id.\<close>

definition shadowed :: "ConversationItem list \<Rightarrow> nat set" where
  "shadowed xs = {a. a < length xs \<and> (\<exists>b < length xs. a < b \<and> result_id (xs ! b) = result_id (xs ! a))}"

lemma shadowed_Cons:
  "shadowed (x # xs) = (if result_id x \<in> ids xs then {0} else {}) \<union> Suc ` shadowed xs"
proof -
  have "0 \<in> shadowed (x # xs) \<longleftrightarrow> result_id x \<in> ids xs"
  proof
    assume "0 \<in> shadowed (x # xs)"
    then obtain b where "b < Suc (length xs)" "0 < b" "result_id ((x # xs) ! b) = result_id x"
      by (auto simp: shadowed_def)
    then show "result_id x \<in> ids xs" by (cases b) (simp_all add: ids_def, metis image_eqI nth_mem)
  next
    assume "result_id x \<in> ids xs"
    then obtain k where "k < length xs" "result_id (xs ! k) = result_id x"
      by (auto simp: ids_def in_set_conv_nth)
    then show "0 \<in> shadowed (x # xs)" by (auto simp: shadowed_def intro!: exI [of _ "Suc k"])
  qed
  moreover have "Suc a \<in> shadowed (x # xs) \<longleftrightarrow> a \<in> shadowed xs" for a
  proof
    assume "Suc a \<in> shadowed (x # xs)"
    then obtain b where b: "a < length xs" "b < Suc (length xs)" "Suc a < b"
      "result_id ((x # xs) ! b) = result_id (xs ! a)" by (auto simp: shadowed_def)
    then obtain b' where "b = Suc b'" by (cases b) auto
    with b show "a \<in> shadowed xs" by (auto simp: shadowed_def)
  next
    assume "a \<in> shadowed xs"
    then obtain b where "a < length xs" "b < length xs" "a < b" "result_id (xs ! b) = result_id (xs ! a)"
      by (auto simp: shadowed_def)
    then show "Suc a \<in> shadowed (x # xs)" by (auto simp: shadowed_def intro!: exI [of _ "Suc b"])
  qed
  ultimately show ?thesis
    by (auto simp: image_iff) (metis not0_implies_Suc)+
qed

lemma keep_last_nths: "keep_last xs = nths xs (- shadowed xs)"
proof (induction xs)
  case (Cons x xs)
  have "{j. Suc j \<in> - shadowed (x # xs)} = - shadowed xs"
    by (auto simp: shadowed_Cons)
  with Cons show ?case by (auto simp: nths_Cons shadowed_Cons)
qed simp

text \<open>What the \<open>seen\<close> loop marks: earlier positions whose id comes again.\<close>

lemma seen_loop_set:
  "set (seen_loop (enumerate k xs) seen acc) =
     set acc \<union> {p. \<exists>i \<in> ids xs. seen i = Some p} \<union> (+) k ` shadowed xs"
proof (induction xs arbitrary: k seen acc)
  case Nil
  then show ?case by (simp add: shadowed_def)
next
  case (Cons x xs)
  let ?seen = "seen(result_id x \<mapsto> k)"
  let ?acc = "case seen (result_id x) of Some p \<Rightarrow> acc @ [p] | None \<Rightarrow> acc"
  have step: "seen_loop (enumerate k (x # xs)) seen acc = seen_loop (enumerate (Suc k) xs) ?seen ?acc"
    by (simp add: Let_def split: option.splits)
  have m: "{p. \<exists>i \<in> ids xs. ?seen i = Some p} =
      {p. \<exists>i \<in> ids xs. i \<noteq> result_id x \<and> seen i = Some p} \<union> (if result_id x \<in> ids xs then {k} else {})"
    by (auto split: if_splits) metis
  have sh: "(+) k ` shadowed (x # xs) =
      (if result_id x \<in> ids xs then {k} else {}) \<union> (+) (Suc k) ` shadowed xs"
    by (auto simp: shadowed_Cons image_iff)
  show ?case unfolding step Cons.IH m sh
    by (auto split: option.splits) (metis option.distinct(1) option.inject)+
qed

lemma seen_loop_distinct:
  "distinct acc \<Longrightarrow> inj_on seen (dom seen) \<Longrightarrow> set acc \<inter> ran seen = {} \<Longrightarrow>
   \<forall>p \<in> set acc \<union> ran seen. p < k \<Longrightarrow> distinct (seen_loop (enumerate k xs) seen acc)"
proof (induction xs arbitrary: k seen acc)
  case (Cons x xs)
  let ?seen = "seen(result_id x \<mapsto> k)"
  let ?acc = "case seen (result_id x) of Some p \<Rightarrow> acc @ [p] | None \<Rightarrow> acc"
  have step: "seen_loop (enumerate k (x # xs)) seen acc = seen_loop (enumerate (Suc k) xs) ?seen ?acc"
    by (simp add: Let_def split: option.splits)
  have nk: "seen i \<noteq> Some k" for i using Cons.prems(4) by (auto simp: ran_def)
  have inj: "seen i = Some p \<Longrightarrow> seen i' = Some p \<Longrightarrow> i = i'" for i i' p
    using Cons.prems(2) by (metis domI inj_onD)
  show ?case unfolding step
  proof (rule Cons.IH)
    have acc: "p \<in> set ?acc \<Longrightarrow> p \<in> set acc \<or> seen (result_id x) = Some p" for p
      by (auto split: option.splits)
    have rn: "p \<in> ran ?seen \<Longrightarrow> p = k \<or> (\<exists>i. i \<noteq> result_id x \<and> seen i = Some p)" for p
      by (auto simp: ran_def split: if_splits)
    have r: "seen i = Some p \<Longrightarrow> p \<in> ran seen" for i p by (auto simp: ran_def)
    show "distinct ?acc" using Cons.prems(1,3) r by (auto split: option.splits)
    show "inj_on ?seen (dom ?seen)"
      by (rule inj_onI) (use nk inj in \<open>auto split: if_splits\<close>)
    show "set ?acc \<inter> ran ?seen = {}"
    proof (rule ccontr)
      assume "set ?acc \<inter> ran ?seen \<noteq> {}"
      then obtain p where p: "p \<in> set ?acc" "p \<in> ran ?seen" by blast
      have "p < k" using acc [OF p(1)] Cons.prems(4) r by blast
      with rn [OF p(2)] obtain i where i: "i \<noteq> result_id x" "seen i = Some p" by blast
      from acc [OF p(1)] show False
        using i inj [OF i(2)] Cons.prems(3) r [OF i(2)] by blast
    qed
    show "\<forall>p \<in> set ?acc \<union> ran ?seen. p < Suc k"
      using acc rn Cons.prems(4) r less_SucI by blast
  qed
qed simp

text \<open>Removing positions from the highest down leaves the others.\<close>

lemma vec_remove_descending:
  "sorted_wrt (>) is \<Longrightarrow> \<forall>i \<in> set is. i < length xs \<Longrightarrow> fold vec_remove is xs = nths xs (- set is)"
proof (induction "is" arbitrary: xs)
  case (Cons m ms)
  let ?ys = "take m xs @ drop (Suc m) xs"
  have m: "m < length xs" and ms: "\<forall>i \<in> set ms. i < m" using Cons.prems by auto
  have "fold vec_remove ms ?ys = nths ?ys (- set ms)"
    using Cons.prems ms m by (intro Cons.IH) (auto intro: less_le_trans)
  also have "\<dots> = nths (take m xs) (- set ms) @ drop (Suc m) xs"
    using ms m by (auto simp: nths_append intro!: nths_all)
  also have "\<dots> = nths (take m xs @ xs ! m # drop (Suc m) xs) (- set (m # ms))"
  proof -
    have "nths (take m xs) (- set ms) = nths (take m xs) (- set (m # ms))"
      unfolding nths_def by (intro arg_cong [where f = "map fst"] filter_cong) (auto simp: set_zip)
    moreover have "nths (xs ! m # drop (Suc m) xs) {j. j + length (take m xs) \<in> - set (m # ms)} = drop (Suc m) xs"
      using ms m by (auto simp: nths_Cons intro!: nths_all)
    ultimately show ?thesis by (simp add: nths_append)
  qed
  also have "take m xs @ xs ! m # drop (Suc m) xs = xs" using m by (rule id_take_nth_drop [symmetric])
  finally show ?case by (simp add: vec_remove_def)
qed (simp add: nths_all)

text \<open>One pass over a run: its duplicates, and what removing them leaves.\<close>

lemma drop_enumerate: "drop n (enumerate k xs) = enumerate (k + n) (drop n xs)"
proof (induction xs arbitrary: n k)
  case (Cons x xs)
  then show ?case by (cases n) simp_all
qed simp

lemma take_enumerate: "take n (enumerate k xs) = enumerate k (take n xs)"
proof (induction xs arbitrary: n k)
  case (Cons x xs)
  then show ?case by (cases n) simp_all
qed simp

lemma enumerate_run:
  assumes "start \<le> length conv" "fin = start + length run" "run = run_of (drop start conv)"
  shows "drop start (take fin (enumerate 0 conv)) = enumerate start run"
proof -
  have "take (length run) (drop start conv) = run" unfolding assms(3) by (metis takeWhile_eq_take)
  then show ?thesis
    by (simp add: assms(2) drop_take drop_enumerate take_enumerate)
qed

lemma duplicates_spec:
  assumes "start \<le> length conv" "run = run_of (drop start conv)" "fin = start + length run"
  shows "set (duplicates_in conv start fin) = (+) start ` shadowed run"
    "sorted_wrt (>) (duplicates_in conv start fin)"
    "distinct (duplicates_in conv start fin)"
proof -
  note e = enumerate_run [OF assms(1,3,2)]
  show "set (duplicates_in conv start fin) = (+) start ` shadowed run"
    unfolding duplicates_in_def e by (simp add: seen_loop_set)
  have d: "distinct (seen_loop (enumerate start run) Map.empty [])"
    by (rule seen_loop_distinct) simp_all
  then show "distinct (duplicates_in conv start fin)" unfolding duplicates_in_def e by simp
  from d have "sorted_wrt (<) (sort (seen_loop (enumerate start run) Map.empty []))"
    by (simp add: strict_sorted_iff)
  then show "sorted_wrt (>) (duplicates_in conv start fin)"
    unfolding duplicates_in_def e sorted_wrt_rev by simp
qed

lemma remove_duplicates:
  assumes "start \<le> length conv" "run = run_of (drop start conv)" "fin = start + length run"
  shows "fold vec_remove (duplicates_in conv start fin) conv =
      take start conv @ keep_last run @ after_run (drop start conv)"
    "length (duplicates_in conv start fin) = length run - length (keep_last run)"
    "duplicates_in conv start fin = [] \<longleftrightarrow> keep_last run = run"
proof -
  note spec = duplicates_spec [OF assms]
  have c: "conv = take start conv @ run @ after_run (drop start conv)"
    unfolding assms(2) by simp
  have lt: "\<forall>i \<in> set (duplicates_in conv start fin). i < length conv"
  proof
    fix i assume "i \<in> set (duplicates_in conv start fin)"
    then obtain a where "i = start + a" "a < length run" by (auto simp: spec(1) shadowed_def)
    then show "i < length conv"
      using length_takeWhile_le [of is_tool_result "drop start conv"] assms(1,2) by simp
  qed
  have "fold vec_remove (duplicates_in conv start fin) conv = nths conv (- ((+) start ` shadowed run))"
    using vec_remove_descending [OF spec(2) lt] by (simp only: spec(1))
  also have "\<dots> = nths (take start conv @ run @ after_run (drop start conv)) (- ((+) start ` shadowed run))"
    by (rule arg_cong [OF c])
  also have "\<dots> = take start conv @ nths run (- shadowed run) @ after_run (drop start conv)"
  proof -
    have 1: "nths (take start conv) (- ((+) start ` shadowed run)) = take start conv"
      by (rule nths_all) auto
    have 2: "{j. j + length (take start conv) \<in> - ((+) start ` shadowed run)} = - shadowed run"
      using assms(1) by (auto simp: image_iff add.commute)
    have 3: "nths (after_run (drop start conv)) {j. j + length run \<in> - shadowed run} =
        after_run (drop start conv)"
      by (rule nths_all) (auto simp: shadowed_def)
    show ?thesis unfolding nths_append 1 2 3 ..
  qed
  finally show f: "fold vec_remove (duplicates_in conv start fin) conv =
      take start conv @ keep_last run @ after_run (drop start conv)"
    by (simp add: keep_last_nths)
  have "length (duplicates_in conv start fin) = card (shadowed run)"
    using distinct_card [OF spec(3)] spec(1) by (simp add: card_image)
  moreover have "length (keep_last run) = length run - card (shadowed run)"
  proof -
    have "{i. i < length run \<and> i \<in> - shadowed run} = {..<length run} - shadowed run" by auto
    moreover have "shadowed run \<subseteq> {..<length run}" by (auto simp: shadowed_def)
    ultimately show ?thesis
      by (simp add: keep_last_nths length_nths card_Diff_subset finite_subset)
  qed
  moreover have "card (shadowed run) \<le> length run"
    using card_mono [of "{..<length run}" "shadowed run"] by (auto simp: shadowed_def)
  ultimately show l: "length (duplicates_in conv start fin) = length run - length (keep_last run)"
    by simp
  show "duplicates_in conv start fin = [] \<longleftrightarrow> keep_last run = run"
  proof
    assume "duplicates_in conv start fin = []"
    with l have "length (keep_last run) = length run"
      using list_emb_length [OF keep_last_subseq [of run]] by simp
    then show "keep_last run = run" by (rule subseq_same_length [OF keep_last_subseq])
  next
    assume "keep_last run = run"
    with l show "duplicates_in conv start fin = []" by simp
  qed
qed

text \<open>The whole loop, with enough fuel.\<close>

lemma run_of_not: "(\<And>y zs. ys = y # zs \<Longrightarrow> \<not> is_tool_result y) \<Longrightarrow> run_of ys = [] \<and> after_run ys = ys"
  by (cases ys) auto

lemma run_of_after_run: "run_of (after_run xs) = []" "after_run (after_run xs) = after_run xs"
  using run_of_not [of "after_run xs"] hd_after_run [of xs] by blast+

lemma run_of_keep_last: "run_of (keep_last (run_of xs) @ after_run xs) = keep_last (run_of xs)"
proof -
  have "\<forall>x \<in> set (keep_last (run_of xs)). is_tool_result x"
    using keep_last_set set_takeWhileD by metis
  then show ?thesis by (subst takeWhile_append2) (auto simp: run_of_after_run)
qed

lemma after_run_keep_last: "after_run (keep_last (run_of xs) @ after_run xs) = after_run xs"
proof -
  have "\<forall>x \<in> set (keep_last (run_of xs)). is_tool_result x"
    using keep_last_set set_takeWhileD by metis
  then show ?thesis by (subst dropWhile_append2) (auto simp: run_of_after_run)
qed

lemma keep_last_length: "length (keep_last xs) \<le> length xs"
  by (rule list_emb_length [OF keep_last_subseq])

lemma dedup_results_length: "length (dedup_results xs) \<le> length xs"
proof (induction xs rule: dedup_results.induct)
  case (2 x xs)
  have "length (run_of xs) + length (after_run xs) = length xs"
    by (metis length_append takeWhile_dropWhile_id)
  with 2 keep_last_length [of "run_of xs"] show ?case by (cases "calls_of x = []") auto
qed simp

lemma dedup_loop_eq:
  "2 * (length conv - i) < fuel \<Longrightarrow> i \<le> length conv \<Longrightarrow>
   dedup_loop fuel conv i removed =
     Some (take i conv @ dedup_results (drop i conv),
           removed + (length (drop i conv) - length (dedup_results (drop i conv))))"
proof (induction fuel conv i removed rule: dedup_loop.induct)
  case (2 fuel conv i removed)
  show ?case
  proof (cases "i < length conv")
    case False
    with "2.prems" show ?thesis by simp
  next
    case True
    then have d: "drop i conv = conv ! i # drop (i + 1) conv" by (simp add: Cons_nth_drop_Suc)
    show ?thesis
    proof (cases "calls_of (conv ! i) = []")
      case c: True
      have "dedup_loop fuel conv (i + 1) removed =
          Some (take (i + 1) conv @ dedup_results (drop (i + 1) conv),
                removed + (length (drop (i + 1) conv) - length (dedup_results (drop (i + 1) conv))))"
        using True c "2.prems" by (intro "2.IH"(1)) auto
      with True c d dedup_results_length [of "drop (i + 1) conv"] show ?thesis
        by (simp add: take_Suc_conv_app_nth)
    next
      case c: False
      let ?xs = "drop (i + 1) conv"
      let ?run = "run_of ?xs"
      let ?fin = "i + 1 + length ?run"
      let ?dups = "if i + 1 < ?fin then duplicates_in conv (i + 1) ?fin else []"
      have st: "i + 1 \<le> length conv" using True by simp
      note rd = remove_duplicates [OF st refl refl]
      have dn: "?dups = [] \<longleftrightarrow> keep_last ?run = ?run" using rd(3) by auto
      have step: "dedup_loop (Suc fuel) conv i removed =
          (if ?dups \<noteq> [] then dedup_loop fuel (fold vec_remove ?dups conv) i (removed + length ?dups)
           else dedup_loop fuel conv ?fin removed)"
        using True c by (simp add: run_end_eq Let_def)
      have dd: "dedup_results (drop i conv) = conv ! i # keep_last ?run @ dedup_results (after_run ?xs)"
        using c by (simp add: d)
      have ta: "take (i + 1) conv = take i conv @ [conv ! i]" using True by (simp add: take_Suc_conv_app_nth)
      have len: "length conv = i + 1 + length ?run + length (after_run ?xs)"
      proof -
        have "length ?run + length (after_run ?xs) = length ?xs"
          by (metis length_append takeWhile_dropWhile_id)
        with True show ?thesis by simp
      qed
      show ?thesis
      proof (cases "?dups = []")
        case e: True
        have k: "keep_last ?run = ?run" using e dn by blast
        have df: "drop ?fin conv = after_run ?xs"
          using drop_run [of ?xs] by (simp add: add.commute)
        have tf: "take ?fin conv = take i conv @ conv ! i # ?run" by (rule take_run [OF True])
        have e': "\<not> ?dups \<noteq> []" using e by blast
        have IH: "dedup_loop fuel conv ?fin removed =
            Some (take ?fin conv @ dedup_results (drop ?fin conv),
                  removed + (length (drop ?fin conv) - length (dedup_results (drop ?fin conv))))"
        proof (rule "2.IH"(3) [unfolded run_end_eq, OF _ c refl refl refl e'])
          show "\<not> length conv \<le> i" using True by simp
          show "2 * (length conv - ?fin) < fuel" "?fin \<le> length conv"
            using "2.prems"(1) len True by linarith+
        qed
        have r1: "take ?fin conv @ dedup_results (drop ?fin conv) = take i conv @ dedup_results (drop i conv)"
          unfolding df tf dd k by simp
        have r2: "length (drop ?fin conv) - length (dedup_results (drop ?fin conv)) =
            length (drop i conv) - length (dedup_results (drop i conv))"
          unfolding df dd k length_drop list.size(4) length_append using len by linarith
        show ?thesis unfolding step if_not_P [OF e'] IH r1 r2 ..
      next
        case ne: False
        then have du: "?dups = duplicates_in conv (i + 1) ?fin" by auto
        let ?conv = "fold vec_remove ?dups conv"
        have cv: "?conv = take i conv @ conv ! i # keep_last ?run @ after_run ?xs"
          unfolding du rd(1) ta by simp
        have ld: "length ?dups = length ?run - length (keep_last ?run)" unfolding du by (rule rd(2))
        have lt: "length (keep_last ?run) < length ?run" using ne ld by (cases ?dups) auto
        have nth: "?conv ! i = conv ! i" "drop i ?conv = conv ! i # keep_last ?run @ after_run ?xs"
          "take i ?conv = take i conv" "length ?conv = i + 1 + length (keep_last ?run) + length (after_run ?xs)"
          unfolding cv using True by (simp_all add: nth_append)
        have dd': "dedup_results (drop i ?conv) = dedup_results (drop i conv)"
          unfolding nth(2) dd using c
          by (simp add: run_of_keep_last after_run_keep_last keep_last_idem)
        have IH: "dedup_loop fuel ?conv i (removed + length ?dups) =
            Some (take i ?conv @ dedup_results (drop i ?conv),
                  removed + length ?dups + (length (drop i ?conv) - length (dedup_results (drop i ?conv))))"
        proof (rule "2.IH"(2) [unfolded run_end_eq, OF _ c refl refl refl ne])
          show "\<not> length conv \<le> i" using True by simp
          show "2 * (length ?conv - i) < fuel" "i \<le> length ?conv"
            using "2.prems"(1) len lt nth(4) True by linarith+
        qed
        have "length (dedup_results (drop i conv)) \<le> length (drop i ?conv)"
          using dedup_results_length [of "drop i ?conv"] unfolding dd' .
        then have r: "length ?dups + (length (drop i ?conv) - length (dedup_results (drop i conv))) =
            length (drop i conv) - length (dedup_results (drop i conv))"
          unfolding length_drop nth(4) ld using lt len by linarith
        have r': "removed + length ?dups + (length (drop i ?conv) - length (dedup_results (drop i conv))) =
            removed + (length (drop i conv) - length (dedup_results (drop i conv)))"
          using r by linarith
        show ?thesis unfolding step if_P [OF ne] IH dd' nth(3) r' ..
      qed
    qed
  qed
qed simp

lemma dedup_eq:
  "fst (dedup_duplicate_tool_results conv) = dedup_results conv"
  "snd (dedup_duplicate_tool_results conv) = length conv - length (dedup_results conv)"
  using dedup_loop_eq [of conv 0 "2 * length conv + 2" 0]
  by (simp_all add: dedup_duplicate_tool_results_def)

text \<open>No run holds two results for one call.\<close>

fun single_results :: "ConversationItem list \<Rightarrow> bool" where
  "single_results [] = True"
| "single_results (x # xs) \<longleftrightarrow>
     (calls_of x \<noteq> [] \<longrightarrow> distinct (map result_id (run_of xs))) \<and> single_results xs"

lemma single_results_append:
  "\<forall>x \<in> set rs. is_tool_result x \<Longrightarrow> single_results (rs @ xs) = single_results xs"
  by (induction rs) (auto simp: tool_result_no_calls)

lemma single_results_after_run: "single_results xs = single_results (after_run xs)"
  using single_results_append [of "run_of xs" "after_run xs"]
  by (metis set_takeWhileD takeWhile_dropWhile_id)

lemma run_of_dedup_after: "run_of (dedup_results (after_run xs)) = []"
proof (cases "after_run xs")
  case Nil
  show ?thesis unfolding Nil by simp
next
  case (Cons y ys)
  from hd_after_run [OF this] show ?thesis unfolding Cons by simp
qed

lemma dedup_results_single: "single_results (dedup_results xs)"
proof (induction xs rule: dedup_results.induct)
  case (2 x xs)
  show ?case
  proof (cases "calls_of x = []")
    case True
    with 2 show ?thesis by simp
  next
    case False
    have rs: "\<forall>y \<in> set (keep_last (run_of xs)). is_tool_result y"
      using keep_last_set set_takeWhileD by metis
    have run: "run_of (keep_last (run_of xs) @ dedup_results (after_run xs)) = keep_last (run_of xs)"
      using rs by (subst takeWhile_append2) (auto simp: run_of_dedup_after)
    show ?thesis
      using 2(2) [OF False] False by (simp add: run keep_last_distinct single_results_append [OF rs])
  qed
qed simp

lemma dedup_results_id: "single_results xs \<Longrightarrow> dedup_results xs = xs"
proof (induction xs rule: dedup_results.induct)
  case (2 x xs)
  show ?case
  proof (cases "calls_of x = []")
    case False
    have "single_results (after_run xs)" using "2.prems" single_results_after_run [of xs] by simp
    with 2(2) [OF False] False "2.prems" show ?thesis by (simp add: keep_last_id)
  qed (use 2 in simp)
qed simp

lemma dedup_results_subseq: "subseq (dedup_results xs) xs"
proof (induction xs rule: dedup_results.induct)
  case (2 x xs)
  show ?case
  proof (cases "calls_of x = []")
    case False
    have "subseq (keep_last (run_of xs) @ dedup_results (after_run xs)) (run_of xs @ after_run xs)"
      using 2(2) [OF False] by (intro list_emb_append_mono keep_last_subseq)
    with False show ?thesis by simp
  qed (use 2 in simp)
qed simp

text \<open>Removing duplicates keeps every call answered, and the ids of every run.\<close>

lemma dedup_keeps_answered: "all_answered (dedup_results xs) \<longleftrightarrow> all_answered xs"
proof (induction xs rule: dedup_results.induct)
  case (2 x xs)
  show ?case
  proof (cases "calls_of x = []")
    case True
    with 2 show ?thesis by simp
  next
    case False
    have rs: "\<forall>y \<in> set (keep_last (run_of xs)). is_tool_result y"
      using keep_last_set set_takeWhileD by metis
    have run: "run_of (keep_last (run_of xs) @ dedup_results (after_run xs)) = keep_last (run_of xs)"
      using rs by (subst takeWhile_append2) (auto simp: run_of_dedup_after)
    show ?thesis
      using 2(2) [OF False] False all_answered_after_run [of xs]
      by (simp add: run all_answered_append_results [OF rs])
  qed
qed simp

end
