(* ===== verification/Rewind.thy ===== *)
theory Rewind
  imports Conversation
begin

text \<open>
  Where a rewind cuts (\<open>conversation_truncate_for_prompt\<close> in \<open>conversation.rs\<close>): the three scanning
  loops against one reference, the first item whose turn number reaches the target.
\<close>

section \<open>Turn numbers\<close>

text \<open>The turn number each item starts, in the three modes: the stored marker only; counted for a
  conversation without markers; counted up to the first marker and stored from there on.\<close>

fun marker :: "ConversationItem \<Rightarrow> nat option" where
  "marker (User u) = prompt_index u"
| "marker _ = None"

fun counted_turns :: "bool \<Rightarrow> nat \<Rightarrow> ConversationItem list \<Rightarrow> nat option list" where
  "counted_turns seen n [] = []"
| "counted_turns seen n (User u # xs) =
     (case unmarked_index u seen n of
        (Some idx, seen') \<Rightarrow> Some idx # counted_turns seen' (idx + 1) xs
      | (None, seen') \<Rightarrow> None # counted_turns seen' n xs)"
| "counted_turns seen n (x # xs) = None # counted_turns seen n xs"

text \<open>The leading part without markers.\<close>

abbreviation unmarked_part :: "ConversationItem list \<Rightarrow> ConversationItem list" where
  "unmarked_part conv \<equiv> takeWhile (\<lambda>x. marker x = None) conv"

abbreviation marked_part :: "ConversationItem list \<Rightarrow> ConversationItem list" where
  "marked_part conv \<equiv> dropWhile (\<lambda>x. marker x = None) conv"

definition turn_numbers :: "ConversationItem list \<Rightarrow> nat option list" where
  "turn_numbers conv =
     (if first_marker conv \<noteq> None
         \<and> first_marker conv \<noteq> Some (length (filter (\<lambda>t. t \<noteq> None) (counted_turns False 0 (unmarked_part conv))))
      then map marker conv
      else counted_turns False 0 (unmarked_part conv) @ map marker (marked_part conv))"

definition first_reaching :: "nat \<Rightarrow> nat option list \<Rightarrow> nat" where
  "first_reaching target ts = length (takeWhile (\<lambda>t. case t of Some i \<Rightarrow> i < target | None \<Rightarrow> True) ts)"

lemma first_reaching_simps [simp]:
  "first_reaching target [] = 0"
  "first_reaching target (None # ts) = Suc (first_reaching target ts)"
  "first_reaching target (Some i # ts) = (if target \<le> i then 0 else Suc (first_reaching target ts))"
  by (auto simp: first_reaching_def)

lemma markers_only_eq: "truncate_markers_only target i conv = i + first_reaching target (map marker conv)"
proof (induction conv arbitrary: i)
  case (Cons x xs)
  then show ?case by (cases x) (auto split: option.splits)
qed simp

lemma legacy_eq:
  "truncate_legacy target i seen n conv = i + first_reaching target (counted_turns seen n conv)"
proof (induction conv arbitrary: i seen n)
  case (Cons x xs)
  then show ?case by (cases x) (auto split: option.splits prod.splits)
qed simp

lemma counted_turns_length: "length (counted_turns seen n conv) = length conv"
  by (induction seen n conv rule: counted_turns.induct) (auto split: option.splits prod.splits)

lemma first_marker_None: "first_marker conv = None \<Longrightarrow> unmarked_part conv = conv \<and> marked_part conv = []"
  by (induction conv rule: first_marker.induct) (auto split: option.splits)

lemma count_legacy_eq:
  "count_legacy_turns t seen conv =
     t + length (filter (\<lambda>t. t \<noteq> None) (counted_turns seen n (unmarked_part conv)))"
proof (induction conv arbitrary: t seen n)
  case (Cons x xs)
  show ?case
  proof (cases x)
    case (User u)
    then show ?thesis
      using Cons.IH [of t seen n] Cons.IH [of t True n] Cons.IH [of "t + 1" seen "n + 1"]
      by (auto simp: unmarked_index_def split: option.splits)
  qed (use Cons.IH in auto)
qed simp

text \<open>After the first marker only markers count.\<close>

lemma progressive_marked:
  "truncate_progressive target i seen True n conv = i + first_reaching target (map marker conv)"
proof (induction conv arbitrary: i)
  case (Cons x xs)
  then show ?case by (cases x) (auto split: option.splits)
qed simp

lemma progressive_eq:
  "truncate_progressive target i seen False n conv =
     i + first_reaching target (counted_turns seen n (unmarked_part conv) @ map marker (marked_part conv))"
proof (induction conv arbitrary: i seen n)
  case (Cons x xs)
  show ?case
  proof (cases x)
    case (User u)
    then show ?thesis
      using Cons.IH by (auto simp: progressive_marked split: option.splits prod.splits)
  qed (use Cons.IH in auto)
qed simp

lemma truncate_eq: "conversation_truncate_for_prompt conv target = first_reaching target (turn_numbers conv)"
proof (cases "first_marker conv")
  case None
  then have "turn_numbers conv = counted_turns False 0 conv"
    using first_marker_None [OF None] by (simp add: turn_numbers_def del: takeWhile_eq_all_conv dropWhile_eq_Nil_conv)
  with None show ?thesis by (simp add: conversation_truncate_for_prompt_def legacy_eq)
next
  case (Some m)
  let ?n = "length (filter (\<lambda>t. t \<noteq> None) (counted_turns False 0 (unmarked_part conv)))"
  have n: "count_legacy_turns 0 False conv = ?n" using count_legacy_eq [of 0 False conv 0] by simp
  show ?thesis
    unfolding conversation_truncate_for_prompt_def turn_numbers_def Some option.case n
    by (cases "?n = m") (simp_all only: markers_only_eq progressive_eq refl simp_thms if_True if_False
        option.inject option.distinct not_False_eq_True add_0_left, simp_all)
qed

lemma turn_numbers_length: "length (turn_numbers conv) = length conv"
proof -
  have "length (unmarked_part conv) + length (marked_part conv) = length conv"
    by (metis length_append takeWhile_dropWhile_id)
  then show ?thesis by (simp add: turn_numbers_def counted_turns_length)
qed

lemma first_reaching_le: "first_reaching target ts \<le> length ts"
  by (simp add: first_reaching_def length_takeWhile_le)

lemma first_reaching_mono: "first_reaching target ts \<le> first_reaching (target + d) ts"
proof (induction ts)
  case (Cons t ts)
  then show ?case by (cases t) auto
qed simp

lemma counted_turn_is_user:
  "k < length conv \<Longrightarrow> counted_turns seen n conv ! k = Some i \<Longrightarrow> \<exists>u. conv ! k = User u"
proof (induction seen n conv arbitrary: k rule: counted_turns.induct)
  case (2 seen n u xs)
  then show ?case by (cases k) (auto split: option.splits prod.splits)
qed (auto simp: nth_Cons split: nat.splits)

lemma marker_is_user: "marker x = Some i \<Longrightarrow> \<exists>u. x = User u"
  by (cases x) auto

lemma turn_is_user:
  assumes "k < length conv" "turn_numbers conv ! k = Some i"
  shows "\<exists>u. conv ! k = User u"
proof -
  define a where "a = unmarked_part conv"
  define b where "b = marked_part conv"
  have ab: "conv = a @ b" by (simp add: a_def b_def)
  from assms(2) consider "(counted_turns False 0 a @ map marker b) ! k = Some i" | "map marker conv ! k = Some i"
    unfolding turn_numbers_def a_def b_def by (auto split: if_splits)
  then show ?thesis
  proof cases
    case 1
    show ?thesis
    proof (cases "k < length a")
      case True
      then have "\<exists>u. a ! k = User u"
        using 1 counted_turn_is_user by (simp add: nth_append counted_turns_length)
      with True show ?thesis by (simp add: ab nth_append)
    next
      case False
      then have "k - length a < length b" using assms(1) by (simp add: ab)
      then have "\<exists>u. b ! (k - length a) = User u"
        using 1 False marker_is_user by (simp add: nth_append counted_turns_length)
      with False show ?thesis by (simp add: ab nth_append)
    qed
  qed (use assms(1) marker_is_user in simp)
qed

lemma first_reaching_at:
  "first_reaching target ts < length ts \<Longrightarrow> \<exists>i. ts ! first_reaching target ts = Some i \<and> target \<le> i"
proof (induction ts)
  case (Cons t ts)
  then show ?case by (cases t) auto
qed simp

text \<open>C30. A rewind cuts where it should: whichever of the three modes applies, the cut is the first
  item whose turn number reaches the target. It is a position of the conversation or its end, the
  item cut at is a user item that starts such a turn, no kept item starts a turn with the target's
  number or a later one, and rewinding to a later prompt never keeps less.\<close>

theorem rewind_cuts_at_turn:
  "conversation_truncate_for_prompt conv target \<le> length conv
   \<and> (conversation_truncate_for_prompt conv target = length conv
      \<or> (\<exists>u i. conv ! conversation_truncate_for_prompt conv target = User u
            \<and> turn_numbers conv ! conversation_truncate_for_prompt conv target = Some i \<and> target \<le> i))
   \<and> list_all (\<lambda>t. case t of Some i \<Rightarrow> i < target | None \<Rightarrow> True)
        (take (conversation_truncate_for_prompt conv target) (turn_numbers conv))
   \<and> conversation_truncate_for_prompt conv target \<le> conversation_truncate_for_prompt conv (target + d)"
proof -
  let ?ts = "turn_numbers conv"
  have le: "first_reaching target ?ts \<le> length conv"
    using first_reaching_le [of target ?ts] by (simp add: turn_numbers_length)
  have "first_reaching target ?ts = length conv \<or>
      (\<exists>u i. conv ! first_reaching target ?ts = User u
        \<and> ?ts ! first_reaching target ?ts = Some i \<and> target \<le> i)"
    using le first_reaching_at [of target ?ts] turn_is_user [of "first_reaching target ?ts" conv]
    by (metis le_neq_implies_less turn_numbers_length)
  moreover have "list_all (\<lambda>t. case t of Some i \<Rightarrow> i < target | None \<Rightarrow> True)
      (take (first_reaching target ?ts) ?ts)"
    unfolding first_reaching_def list_all_iff takeWhile_eq_take [symmetric] using set_takeWhileD by metis
  ultimately show ?thesis unfolding truncate_eq using le first_reaching_mono by blast
qed

end
