(* ===== verification/Compaction_Utils.thy ===== *)
theory Compaction_Utils
  imports Repair F64
begin

text \<open>
  Pure helpers of compaction (\<open>xai-chat-state/src/compaction_utils.rs\<close>, the token estimates of
  \<open>actor/state.rs\<close> and \<open>xai-token-estimation\<close>): preparation of a conversation for the summarizer,
  fitting it to a token budget, extraction of user queries, cleaning of the model's summary,
  assembly, validation and repair of the compacted history.
\<close>

section \<open>Token estimates\<close>

definition BYTES_PER_TOKEN :: nat where "BYTES_PER_TOKEN = 4"
definition IMAGE_TOKEN_ESTIMATE :: nat where "IMAGE_TOKEN_ESTIMATE = 765"

definition estimate_tokens :: "rstr \<Rightarrow> nat" where
  "estimate_tokens s = len_bytes s div BYTES_PER_TOKEN"

definition estimate_image_tokens :: "nat \<Rightarrow> nat" where
  "estimate_image_tokens count = sat_mul64 count IMAGE_TOKEN_ESTIMATE"

definition estimate_chars :: "nat \<Rightarrow> nat" where
  "estimate_chars tokens = sat_mul64 tokens BYTES_PER_TOKEN"

definition usage_percentage :: "nat \<Rightarrow> nat \<Rightarrow> rat" where
  "usage_percentage used tot =
     (if tot = 0 then 0 else min (f64_mul (f64_div (f64_of_nat used) (f64_of_nat tot)) 100) 100)"

definition usage_percentage_u8 :: "nat \<Rightarrow> nat \<Rightarrow> nat" where
  "usage_percentage_u8 used tot = min 255 (nat \<lfloor>f64_round_int (usage_percentage used tot)\<rfloor>)"

definition usage_percentage_truncated_u8 :: "nat \<Rightarrow> nat \<Rightarrow> nat" where
  "usage_percentage_truncated_u8 used tot =
     (if tot = 0 then 0 else min (sat_mul64 used 100 div tot) 100)"

definition free_tokens :: "nat \<Rightarrow> nat \<Rightarrow> nat" where
  "free_tokens tot used = tot - used"

definition exceeds_threshold :: "nat \<Rightarrow> nat \<Rightarrow> nat \<Rightarrow> bool" where
  "exceeds_threshold used context_window threshold_percent \<longleftrightarrow>
     context_window \<noteq> 0 \<and> sat_mul64 context_window threshold_percent \<le> sat_mul64 used 100"

definition exceeds_threshold_with_headroom :: "nat \<Rightarrow> nat \<Rightarrow> nat \<Rightarrow> nat \<Rightarrow> bool" where
  "exceeds_threshold_with_headroom used context_window threshold_percent headroom \<longleftrightarrow>
     context_window \<noteq> 0
     \<and> sat_mul64 context_window threshold_percent - sat_mul64 headroom 100 \<le> sat_mul64 used 100"

definition estimate_system_message_tokens :: "ConversationItem \<Rightarrow> nat" where
  "estimate_system_message_tokens item = (case item of System s \<Rightarrow> estimate_tokens s | _ \<Rightarrow> 0)"

text \<open>The text of a backend call; where the source panics it is taken as empty.\<close>

definition backend_text :: "BackendToolKind \<Rightarrow> rstr" where
  "backend_text b = (case text_summary b of Some t \<Rightarrow> t | None \<Rightarrow> [])"

definition item_text :: "ConversationItem \<Rightarrow> rstr" where
  "item_text item = (case text_content item of Some t \<Rightarrow> t | None \<Rightarrow> [])"

fun part_bytes :: "ContentPart \<Rightarrow> nat" where
  "part_bytes (Text t) = len_bytes t"
| "part_bytes (Image _) = 0"

fun is_image :: "ContentPart \<Rightarrow> bool" where
  "is_image (Image _) = True"
| "is_image (Text _) = False"

fun estimate_item_tokens :: "ConversationItem \<Rightarrow> nat" where
  "estimate_item_tokens (System s) = estimate_tokens s"
| "estimate_item_tokens (User u) =
     sum_list (map part_bytes (u_content u)) div BYTES_PER_TOKEN
     + estimate_image_tokens (length (filter is_image (u_content u)))"
| "estimate_item_tokens (Assistant a) =
     (len_bytes (a_content a) + sum_list (map (len_bytes \<circ> tc_arguments) (tool_calls a))) div BYTES_PER_TOKEN"
| "estimate_item_tokens (ToolResult t) = estimate_tokens (tr_content t)"
| "estimate_item_tokens (BackendToolCall b) = estimate_tokens (backend_text b)"
| "estimate_item_tokens (Reasoning r) =
     (len_bytes (reasoning_item_text r) + (case r_encrypted r of Some e \<Rightarrow> len_bytes e | None \<Rightarrow> 0))
       div BYTES_PER_TOKEN"

definition estimate_conversation_tokens :: "ConversationItem list \<Rightarrow> nat" where
  "estimate_conversation_tokens items = sum_list (map estimate_item_tokens items)"

fun is_system :: "ConversationItem \<Rightarrow> bool" where
  "is_system (System _) = True"
| "is_system _ = False"

definition estimate_messages_tokens :: "ConversationItem list \<Rightarrow> nat" where
  "estimate_messages_tokens items = sum_list (map estimate_item_tokens (filter (\<lambda>i. \<not> is_system i) items))"

definition count_item_tokens :: "ConversationItem \<Rightarrow> nat" where
  "count_item_tokens item = (let n = estimate_item_tokens item in if n \<le> u32_max then n else u32_max)"

section \<open>Preparation for the summarizer\<close>

definition called_tools :: "ToolCall list \<Rightarrow> rstr" where
  "called_tools tcs = [nl] @ lit ''[Called tools: '' @ join (lit '', '') (map tc_name tcs) @ lit '']''"

fun strip_tool_item :: "ConversationItem \<Rightarrow> ConversationItem option" where
  "strip_tool_item (ToolResult _) = None"
| "strip_tool_item (Assistant a) =
     (if tool_calls a \<noteq> []
      then Some (Assistant (a\<lparr>a_content := (if a_content a = [] then called_tools (tool_calls a)
                                            else a_content a @ called_tools (tool_calls a)),
                              tool_calls := []\<rparr>))
      else Some (Assistant a))"
| "strip_tool_item item = Some item"

definition strip_tool_messages :: "ConversationItem list \<Rightarrow> ConversationItem list" where
  "strip_tool_messages conv = List.map_filter strip_tool_item conv"

fun is_reasoning :: "ConversationItem \<Rightarrow> bool" where
  "is_reasoning (Reasoning _) = True"
| "is_reasoning _ = False"

definition strip_reasoning_blocks :: "ConversationItem list \<Rightarrow> ConversationItem list" where
  "strip_reasoning_blocks conv = filter (\<lambda>i. \<not> is_reasoning i) conv"

fun image_placeholder :: "ContentPart \<Rightarrow> ContentPart" where
  "image_placeholder (Image _) = Text (lit ''[image]'')"
| "image_placeholder (Text t) = Text t"

fun strip_images_item :: "ConversationItem \<Rightarrow> ConversationItem" where
  "strip_images_item (User u) = User (u\<lparr>u_content := map image_placeholder (u_content u)\<rparr>)"
| "strip_images_item item = item"

definition strip_images :: "ConversationItem list \<Rightarrow> ConversationItem list" where
  "strip_images conv = map strip_images_item conv"

definition prepare_conversation_for_summarization :: "ConversationItem list \<Rightarrow> ConversationItem list" where
  "prepare_conversation_for_summarization conv =
     strip_images (strip_reasoning_blocks (strip_tool_messages conv))"

definition prepare_conversation_for_segment :: "ConversationItem list \<Rightarrow> ConversationItem list" where
  "prepare_conversation_for_segment conv = strip_images (strip_reasoning_blocks conv)"

text \<open>\<open>while matches!(conversation.last(), ...) { pop }\<close> on the reversed list.\<close>

definition truncate_trailing_incomplete_tool_call :: "ConversationItem list \<Rightarrow> ConversationItem list" where
  "truncate_trailing_incomplete_tool_call conv = rev (dropWhile (\<lambda>i. calls_of i \<noteq> []) (rev conv))"

definition prepare_conversation_for_verbatim_summarization ::
  "bool \<Rightarrow> ConversationItem list \<Rightarrow> ConversationItem list" where
  "prepare_conversation_for_verbatim_summarization strip_reasoning conv =
     truncate_trailing_incomplete_tool_call (if strip_reasoning then strip_reasoning_blocks conv else conv)"

section \<open>Fitting to a token budget\<close>

text \<open>Walk \<open>end\<close> back to a character boundary: the longest prefix of at most \<open>n\<close> bytes.\<close>

fun floor_prefix :: "nat \<Rightarrow> rstr \<Rightarrow> rstr" where
  "floor_prefix n [] = []"
| "floor_prefix n (c # cs) = (if utf8_len c \<le> n then c # floor_prefix (n - utf8_len c) cs else [])"

definition MARKER_RESERVE :: nat where "MARKER_RESERVE = 64"

definition truncate_text_to_bytes :: "rstr \<Rightarrow> nat \<Rightarrow> rstr option" where
  "truncate_text_to_bytes s max_bytes =
     (if len_bytes s \<le> max_bytes then None
      else let kept = floor_prefix (min (max_bytes - MARKER_RESERVE) (len_bytes s)) s;
               dropped = len_bytes s - len_bytes kept
           in Some (kept @ [nl] @ lit ''[... truncated '' @ show_nat dropped
                    @ lit '' bytes to fit the compaction window ...]''))"

definition truncated_or :: "rstr \<Rightarrow> nat \<Rightarrow> rstr" where
  "truncated_or s max_bytes = (case truncate_text_to_bytes s max_bytes of Some t \<Rightarrow> t | None \<Rightarrow> s)"

fun truncate_part :: "nat \<Rightarrow> ContentPart \<Rightarrow> ContentPart" where
  "truncate_part n (Text t) = Text (truncated_or t n)"
| "truncate_part n (Image u) = Image u"

definition truncate_item_to_tokens :: "nat \<Rightarrow> ConversationItem \<Rightarrow> ConversationItem" where
  "truncate_item_to_tokens max_tokens item =
     (let max_bytes = sat_mul64 max_tokens 4 in
      case item of
        ToolResult t \<Rightarrow> ToolResult (t\<lparr>tr_content := truncated_or (tr_content t) max_bytes\<rparr>)
      | Assistant a \<Rightarrow> Assistant (a\<lparr>a_content := truncated_or (a_content a) max_bytes\<rparr>)
      | User u \<Rightarrow> User (u\<lparr>u_content := map (truncate_part max_bytes) (u_content u)\<rparr>)
      | other \<Rightarrow> other)"

definition recover_truncated_tail_unit :: "ConversationItem list \<Rightarrow> nat \<Rightarrow> ConversationItem list" where
  "recover_truncated_tail_unit body budget =
     (let results = rev (takeWhile is_tool_result (rev body));
          rest = rev (dropWhile is_tool_result (rev body))
      in if results = []
         then (if rest = [] then [] else [truncate_item_to_tokens budget (last rest)])
         else (let owner = (if rest \<noteq> [] \<and> calls_of (last rest) \<noteq> [] then Some (last rest) else None);
                   owner_cost = (case owner of Some o' \<Rightarrow> estimate_item_tokens o' | None \<Rightarrow> 0);
                   result_budget = budget - owner_cost;
                   per = max (result_budget div length results) 1
               in (case owner of Some o' \<Rightarrow> [o'] | None \<Rightarrow> [])
                  @ map (truncate_item_to_tokens per) results))"

text \<open>The \<open>for i in (0..body.len()).rev()\<close> loop on the reversed body: the start index it leaves.\<close>

fun fit_loop :: "ConversationItem list \<Rightarrow> nat \<Rightarrow> nat \<Rightarrow> nat" where
  "fit_loop [] remaining start = start"
| "fit_loop (item # rest) remaining start =
     (let cost = estimate_item_tokens item
      in if remaining < cost then start else fit_loop rest (remaining - cost) (start - 1))"

function skip_results :: "ConversationItem list \<Rightarrow> nat \<Rightarrow> nat" where
  "skip_results body start =
     (if start < length body \<and> is_tool_result (body ! start) then skip_results body (start + 1) else start)"
  by auto

termination
  by (relation "measure (\<lambda>(body, start). length body - start)") auto

declare skip_results.simps [simp del]

definition fit_conversation_to_budget :: "ConversationItem list \<Rightarrow> nat \<Rightarrow> ConversationItem list" where
  "fit_conversation_to_budget conv max_tokens =
     (if sum_list (map estimate_item_tokens conv) \<le> max_tokens then conv
      else let (head, body) = (case conv of
                                 item # rest \<Rightarrow> if is_system item then ([item], rest) else ([], conv)
                               | [] \<Rightarrow> ([], []));
               budget = max_tokens - sum_list (map estimate_item_tokens head);
               start = skip_results body (fit_loop (rev body) budget (length body))
           in if start < length body then head @ drop start body
              else head @ recover_truncated_tail_unit body budget)"

section \<open>What fitting keeps\<close>

abbreviation cost :: "ConversationItem list \<Rightarrow> nat" where
  "cost items \<equiv> sum_list (map estimate_item_tokens items)"

lemma cost_drop_mono: "i \<le> j \<Longrightarrow> cost (drop j xs) \<le> cost (drop i xs)"
proof -
  assume "i \<le> j"
  then have "drop i xs = take (j - i) (drop i xs) @ drop j xs"
    by (metis append_take_drop_id drop_drop le_add_diff_inverse2)
  then have "cost (drop i xs) = cost (take (j - i) (drop i xs)) + cost (drop j xs)"
    by (metis map_append sum_list_append)
  then show ?thesis by simp
qed

lemma fit_loop_spec:
  "s = fit_loop (rev body) remaining (length body) \<Longrightarrow>
     s \<le> length body \<and> cost (drop s body) \<le> remaining \<and> (0 < s \<longrightarrow> remaining < cost (drop (s - 1) body))"
proof (induction body arbitrary: remaining s rule: rev_induct)
  case (snoc x xs)
  show ?case
  proof (cases "remaining < estimate_item_tokens x")
    case True
    with snoc.prems show ?thesis by simp
  next
    case False
    with snoc.prems have s: "s = fit_loop (rev xs) (remaining - estimate_item_tokens x) (length xs)"
      by simp
    from snoc.IH [OF this] False show ?thesis by (auto simp: less_diff_conv)
  qed
qed simp

lemma skip_results_spec:
  "start \<le> length body \<Longrightarrow>
     start \<le> skip_results body start \<and> skip_results body start \<le> length body
     \<and> (skip_results body start < length body \<longrightarrow> \<not> is_tool_result (body ! skip_results body start))
     \<and> (\<forall>i. start \<le> i \<and> i < skip_results body start \<longrightarrow> is_tool_result (body ! i))"
proof (induction body start rule: skip_results.induct)
  case (1 body start)
  have e: "skip_results body start =
      (if start < length body \<and> is_tool_result (body ! start) then skip_results body (start + 1) else start)"
    by (rule skip_results.simps)
  show ?case
  proof (cases "start < length body \<and> is_tool_result (body ! start)")
    case True
    with 1 e have h: "start + 1 \<le> skip_results body start" "skip_results body start \<le> length body"
      "skip_results body start < length body \<longrightarrow> \<not> is_tool_result (body ! skip_results body start)"
      "\<forall>i. start + 1 \<le> i \<and> i < skip_results body start \<longrightarrow> is_tool_result (body ! i)" by auto
    have "is_tool_result (body ! i)" if "start \<le> i" "i < skip_results body start" for i
      using that True h(4) by (cases "i = start") auto
    with h show ?thesis by auto
  qed (use 1 e in auto)
qed

text \<open>The kept suffix starts at the first item that is not a tool result and from which on the
  conversation fits.\<close>

lemma fit_start:
  assumes "k < length body" "\<not> is_tool_result (body ! k)" "cost (drop k body) \<le> budget"
    "\<forall>j < k. is_tool_result (body ! j) \<or> budget < cost (drop j body)"
  shows "skip_results body (fit_loop (rev body) budget (length body)) = k"
proof -
  define s where "s = fit_loop (rev body) budget (length body)"
  note f = fit_loop_spec [OF s_def]
  have sk: "s \<le> k"
  proof (rule ccontr)
    assume "\<not> s \<le> k"
    then have "budget < cost (drop (s - 1) body)" "k \<le> s - 1" using f by auto
    with cost_drop_mono [OF this(2), of body] assms(3) show False by simp
  qed
  note sr = skip_results_spec [of s body]
  have "skip_results body s \<le> k" using sr sk f assms(1,2) by (meson le_less_linear)
  moreover have "\<not> skip_results body s < k"
  proof
    assume lt: "skip_results body s < k"
    then have "\<not> is_tool_result (body ! skip_results body s)" using sr f assms(1) by auto
    with assms(4) lt have "budget < cost (drop (skip_results body s) body)" by blast
    moreover have "cost (drop (skip_results body s) body) \<le> cost (drop s body)"
      using sr f by (intro cost_drop_mono) auto
    ultimately show False using f by simp
  qed
  ultimately show ?thesis by (simp add: s_def)
qed

lemma fit_keeps_suffix:
  assumes "max_tokens < cost (head @ body)"
    "head = [] \<and> (body \<noteq> [] \<longrightarrow> \<not> is_system (hd body)) \<or> (\<exists>s. head = [System s])"
    "k < length body" "\<not> is_tool_result (body ! k)" "cost (drop k body) \<le> max_tokens - cost head"
    "\<forall>j < k. is_tool_result (body ! j) \<or> max_tokens - cost head < cost (drop j body)"
  shows "fit_conversation_to_budget (head @ body) max_tokens = head @ drop k body"
proof -
  have hb: "(case head @ body of item # rest \<Rightarrow> if is_system item then ([item], rest) else ([], head @ body)
             | [] \<Rightarrow> ([], [])) = (head, body)"
    using assms(2,3) by (cases body) auto
  show ?thesis
    unfolding fit_conversation_to_budget_def hb
    using assms(1,3) fit_start [OF assms(3-6)] by (simp add: Let_def not_le)
qed

end
