(* ===== verification/Summary_Text.thy ===== *)
theory Summary_Text
  imports Compaction_Utils
begin

text \<open>
  Text processing around a compaction summary (\<open>compaction_utils.rs\<close>): stripping of runtime tags from
  user messages, extraction of the real user query, cleaning of the summary the model wrote, and
  the proof that a cleaned summary carries no live control token.
\<close>

section \<open>User queries\<close>

definition SYSTEM_TAGS :: "rstr list" where
  "SYSTEM_TAGS = map lit [''user_info'', ''project_layout'', ''git_status'', ''fork-context'',
     ''system-reminder'', ''agent-memory'', ''system_reminder'', ''background_context'',
     ''command-name'', ''command-message'', ''command-args'']"

definition open_tag :: "rstr \<Rightarrow> rstr" where "open_tag t = lit ''<'' @ t @ lit ''>''"
definition close_tag :: "rstr \<Rightarrow> rstr" where "close_tag t = lit ''</'' @ t @ lit ''>''"

lemma find_sub_bound: "find_sub p s = Some i \<Longrightarrow> i + length p \<le> length s"
  by (drule find_sub_Some) (metis append_take_drop_id length_append length_take min.absorb2 le_add1 add.assoc)

text \<open>One tag's \<open>while let\<close> loop. An iteration removes at least the opening tag.\<close>

function strip_tag_loop :: "rstr \<Rightarrow> rstr \<Rightarrow> rstr" where
  "strip_tag_loop tag result =
     (case find_sub (open_tag tag) result of
        None \<Rightarrow> result
      | Some start \<Rightarrow>
          (case find_sub (close_tag tag) (drop start result) of
             None \<Rightarrow> result
           | Some rel_end \<Rightarrow>
               strip_tag_loop tag
                 (take start result @ drop (start + rel_end + length (close_tag tag)) result)))"
  by auto

termination
proof (relation "measure (length \<circ> snd)")
  fix tag result start rel_end
  assume "find_sub (open_tag tag) result = Some start"
    "find_sub (close_tag tag) (drop start result) = Some rel_end"
  then have "start + length (open_tag tag) \<le> length result"
    "rel_end + length (close_tag tag) \<le> length result - start"
    by (auto dest: find_sub_bound)
  moreover have "0 < length (close_tag tag)" by (simp add: close_tag_def)
  moreover have "length (take start result @ drop (start + rel_end + length (close_tag tag)) result) \<le>
      start + (length result - (start + rel_end + length (close_tag tag)))" by simp
  ultimately have "length (take start result @ drop (start + rel_end + length (close_tag tag)) result)
      < length result" by linarith
  then show "((tag, take start result @ drop (start + rel_end + length (close_tag tag)) result),
      (tag, result)) \<in> measure (length \<circ> snd)"
    by simp
qed simp

declare strip_tag_loop.simps [simp del]

definition strip_system_tags :: "rstr \<Rightarrow> rstr" where
  "strip_system_tags text = trim (fold strip_tag_loop SYSTEM_TAGS text)"

definition extract_user_query :: "rstr \<Rightarrow> rstr" where
  "extract_user_query text =
     (let o_tag = lit ''<user_query>''; c_tag = lit ''</user_query>'' in
      case find_sub o_tag text of
        Some start \<Rightarrow>
          (let rest = drop (start + length o_tag) text in
           case find_sub c_tag rest of
             Some fin \<Rightarrow> strip_system_tags (trim (take fin rest))
           | None \<Rightarrow> strip_system_tags text)
      | None \<Rightarrow> strip_system_tags text)"

fun is_user :: "ConversationItem \<Rightarrow> bool" where
  "is_user (User _) = True"
| "is_user _ = False"

definition extract_last_user_query :: "ConversationItem list \<Rightarrow> rstr option" where
  "extract_last_user_query conv =
     (case List.find is_user (rev conv) of
        Some item \<Rightarrow> (let q = extract_user_query (item_text item) in if q \<noteq> [] then Some q else None)
      | None \<Rightarrow> None)"

definition AUTO_CONTINUE_PROMPT :: rstr where
  "AUTO_CONTINUE_PROMPT =
     lit ''Continue the conversation from where it left off without asking the user any further questions. ''
     @ lit ''Resume directly - do not acknowledge the summary, do not recap what was happening, do not preface with ''
     @ [34] @ lit ''I'' @ [39] @ lit ''ll continue'' @ [34] @ lit '' or similar.'' @ [nl]
     @ lit ''Pick up the last task as if the break never happened.''"

definition is_synthetic_extracted_query :: "rstr \<Rightarrow> bool" where
  "is_synthetic_extracted_query text \<longleftrightarrow>
     text = [] \<or> text = lit ''__auto_continue__'' \<or> text = AUTO_CONTINUE_PROMPT"

definition is_real_user_turn :: "ConversationItem \<Rightarrow> bool" where
  "is_real_user_turn item =
     (case item of
        User u \<Rightarrow>
          if synthetic_reason u \<noteq> None then False
          else if \<exists>p \<in> set (u_content u). is_image p then True
          else \<not> is_synthetic_extracted_query (extract_user_query (item_text item))
      | _ \<Rightarrow> False)"

definition extract_real_user_queries :: "ConversationItem list \<Rightarrow> rstr list" where
  "extract_real_user_queries conv =
     map (\<lambda>i. extract_user_query (item_text i)) (filter is_real_user_turn conv)"

definition extract_last_real_user_query :: "ConversationItem list \<Rightarrow> rstr option" where
  "extract_last_real_user_query conv =
     map_option (\<lambda>i. extract_user_query (item_text i)) (List.find is_real_user_turn (rev conv))"

fun recent_item :: "ConversationItem \<Rightarrow> ConversationItem option" where
  "recent_item (Assistant a) = Some (Assistant a)"
| "recent_item (ToolResult t) =
     Some (ToolResult \<lparr>tr_call_id = tr_call_id t, tr_content = lit ''Tool call omitted...'', tr_images = []\<rparr>)"
| "recent_item _ = None"

definition extract_messages_since_last_user :: "ConversationItem list \<Rightarrow> ConversationItem list" where
  "extract_messages_since_last_user conv =
     rev (List.map_filter recent_item (takeWhile (\<lambda>i. \<not> is_user i) (rev conv)))"

text \<open>\<open>rposition\<close>: the last index that satisfies the predicate.\<close>

fun rposition :: "('a \<Rightarrow> bool) \<Rightarrow> 'a list \<Rightarrow> nat option" where
  "rposition P [] = None"
| "rposition P (x # xs) =
     (case rposition P xs of Some i \<Rightarrow> Some (Suc i) | None \<Rightarrow> if P x then Some 0 else None)"

definition extract_messages_since_last_real_user :: "ConversationItem list \<Rightarrow> ConversationItem list" where
  "extract_messages_since_last_real_user conv =
     (let start = (case rposition is_real_user_turn conv of Some idx \<Rightarrow> idx + 1 | None \<Rightarrow> 0)
      in List.map_filter recent_item (drop start conv))"

section \<open>Cleaning the summary\<close>

definition zwsp :: rchar where "zwsp = 0x200b"

definition neutralize_compaction_control_tokens :: "rstr \<Rightarrow> rstr" where
  "neutralize_compaction_control_tokens text =
     (let defuse = (\<lambda>body. replace_sub (60 # lit body) (60 # zwsp # lit body))
      in defuse ''summary_request>'' (defuse ''/summary_request>''
           (defuse ''analysis>'' (defuse ''/analysis>''
             (defuse ''summary>'' (defuse ''/summary>'' text))))))"

definition strip_leading_scratchpad :: "rstr \<Rightarrow> rstr" where
  "strip_leading_scratchpad inner =
     (let s = trim inner;
          lead = dropWhile (\<lambda>c. c \<in> {35, 42, 45, 62, 32, 9}) s;
          digit = (lead \<noteq> [] \<and> 48 \<le> hd lead \<and> hd lead \<le> 57);
          s1 = (if \<not> digit
                then (case rfind_sub (lit ''</analysis>'') s of
                        Some pos \<Rightarrow> trim_start (drop (pos + length (lit ''</analysis>'')) s)
                      | None \<Rightarrow> s)
                else s)
      in case strip_prefix (lit ''<summary>'') s1 of Some rest \<Rightarrow> trim_start rest | None \<Rightarrow> s1)"

definition is_leading_analysis :: "rstr \<Rightarrow> nat \<Rightarrow> bool" where
  "is_leading_analysis result start =
     (case find_sub (lit ''<summary>'') result of
        Some sp \<Rightarrow> start < sp
          \<or> trim (drop (sp + length (lit ''<summary>'')) (take start result)) = []
      | None \<Rightarrow> trim (take start result) = [])"

function analysis_loop :: "rstr \<Rightarrow> rstr" where
  "analysis_loop result =
     (case find_sub (lit ''<analysis>'') result of
        None \<Rightarrow> result
      | Some start \<Rightarrow>
          if \<not> is_leading_analysis result start then result
          else (case find_sub (lit ''</analysis>'') (drop start result) of
                  Some rel \<Rightarrow>
                    analysis_loop (take start result @ drop (start + rel + length (lit ''</analysis>'')) result)
                | None \<Rightarrow>
                    (case find_sub (lit ''<summary>'') (drop start result) of
                       Some rel \<Rightarrow> take start result @ drop (start + rel) result
                     | None \<Rightarrow> take start result)))"
  by auto

termination
proof (relation "measure length")
  fix result start rel
  assume "find_sub (lit ''<analysis>'') result = Some start"
    "find_sub (lit ''</analysis>'') (drop start result) = Some rel"
  then have "start + length (lit ''<analysis>'') \<le> length result"
    "rel + length (lit ''</analysis>'') \<le> length (drop start result)"
    by (auto dest: find_sub_bound)
  then show "(take start result @ drop (start + rel + length (lit ''</analysis>'')) result, result)
      \<in> measure length" by simp
qed simp

declare analysis_loop.simps [simp del]

definition unwrap_summary :: "rstr \<Rightarrow> rstr" where
  "unwrap_summary result =
     (let o_tag = lit ''<summary>''; c_tag = lit ''</summary>'' in
      case (find_sub o_tag result, rfind_sub c_tag result) of
        (Some start, Some fin) \<Rightarrow>
          if start < fin
          then take start result @ lit ''Summary:'' @ [nl]
               @ strip_leading_scratchpad (trim (drop (start + length o_tag) (take fin result)))
               @ drop (fin + length c_tag) result
          else result
      | _ \<Rightarrow> result)"

text \<open>Collapsing blank lines: every replacement removes one character, so the loop ends.\<close>

lemma replace_newlines_length:
  "length (replace_go k [nl, nl, nl] [nl, nl] s) + count_go k [nl, nl, nl] s \<le> length (drop k s)"
proof (induction k "[nl, nl, nl] :: rstr" s rule: count_go.induct)
  case (3 c cs)
  show ?case
  proof (cases "starts_with [nl, nl, nl] (c # cs)")
    case True
    then have "2 \<le> length cs" by (cases cs; cases "tl cs") auto
    with 3(1) [OF True] True show ?thesis by (simp del: starts_with_Cons_Cons)
  qed (use 3 in auto)
qed auto

lemma count_go_contains: "count_go 0 (p # ps) s = 0 \<Longrightarrow> \<not> contains_sub (p # ps) s"
proof (induction s)
  case (Cons c cs)
  then show ?case by (auto simp: contains_sub_def split: if_splits)
qed (simp add: contains_sub_def)

function collapse_newlines :: "rstr \<Rightarrow> rstr" where
  "collapse_newlines result =
     (if contains_sub [nl, nl, nl] result then collapse_newlines (replace_sub [nl, nl, nl] [nl, nl] result)
      else result)"
  by auto

termination
proof (relation "measure length")
  fix result :: rstr
  assume "contains_sub [nl, nl, nl] result"
  then have "0 < count_go 0 [nl, nl, nl] result" using count_go_contains by (metis gr0I)
  with replace_newlines_length [of 0 result]
  show "(replace_sub [nl, nl, nl] [nl, nl] result, result) \<in> measure length"
    by (simp add: replace_sub_def)
qed simp

declare collapse_newlines.simps [simp del]

definition format_compact_summary :: "rstr \<Rightarrow> rstr" where
  "format_compact_summary summary =
     trim (collapse_newlines (neutralize_compaction_control_tokens (unwrap_summary (analysis_loop summary))))"

definition format_compact_summary_content :: "rstr \<Rightarrow> rstr" where
  "format_compact_summary_content raw_summary =
     lit ''This session is being continued from a previous conversation that ran out of context. ''
     @ lit ''The summary below covers the earlier portion of the conversation.'' @ [nl, nl]
     @ format_compact_summary raw_summary"

definition MIN_SUMMARY_SEED_CHARS :: nat where "MIN_SUMMARY_SEED_CHARS = 500"

definition is_degenerate_summary :: "rstr \<Rightarrow> bool" where
  "is_degenerate_summary raw_summary \<longleftrightarrow>
     length (format_compact_summary raw_summary) < MIN_SUMMARY_SEED_CHARS"

definition MAX_CAPTURED_SUMMARY_CHARS :: nat where "MAX_CAPTURED_SUMMARY_CHARS = 8192"

definition bound_captured_output :: "rstr \<Rightarrow> nat \<Rightarrow> rstr" where
  "bound_captured_output s max_chars =
     (let tot = length s in
      if tot \<le> max_chars then s
      else let head_n = max_chars div 2;
               tail_n = max_chars - head_n;
               elided = tot - head_n - tail_n
           in take head_n s @ [nl, nl, 0x2026] @ lit ''['' @ show_nat elided @ lit '' chars elided]''
              @ [0x2026, nl, nl] @ drop (tot - tail_n) s)"

definition wrap_user_query :: "rstr \<Rightarrow> rstr" where
  "wrap_user_query text = lit ''<user_query>'' @ [nl] @ text @ [nl] @ lit ''</user_query>''"

section \<open>No live control token survives\<close>

text \<open>A defused token is \<open><\<close> followed by a body without \<open><\<close> and
  without the zero-width space that the replacement inserts.\<close>

definition plain_body :: "rstr \<Rightarrow> bool" where
  "plain_body b \<longleftrightarrow> b \<noteq> [] \<and> 60 \<notin> set b \<and> zwsp \<notin> set b"

lemma starts_with_defused_tail:
  "60 \<notin> set q \<Longrightarrow> starts_with q (replace_go 0 (60 # b) (60 # zwsp # b) s) \<Longrightarrow> starts_with q s"
proof (induction s arbitrary: q)
  case (Cons c cs)
  show ?case
  proof (cases q)
    case (Cons d ds)
    with Cons.prems show ?thesis
      using Cons.IH [of ds] by (cases "starts_with (60 # b) (c # cs)") auto
  qed simp
qed simp

lemma starts_with_defused:
  assumes "plain_body q" "starts_with (60 # q) (replace_go 0 (60 # b) (60 # zwsp # b) s)"
  shows "starts_with (60 # q) s" "\<not> starts_with (60 # b) s"
proof -
  obtain d ds where q: "q = d # ds" using assms(1) by (cases q) (auto simp: plain_body_def)
  have d: "d \<noteq> zwsp" "60 \<notin> set q" using assms(1) by (auto simp: plain_body_def q)
  obtain c cs where s: "s = c # cs" using assms(2) by (cases s) auto
  show n: "\<not> starts_with (60 # b) s" using assms(2) d(1) by (auto simp: s q)
  with assms(2) have "c = 60" "starts_with q (replace_go 0 (60 # b) (60 # zwsp # b) cs)"
    by (auto simp: s split: if_splits)
  with starts_with_defused_tail [OF d(2)] show "starts_with (60 # q) s" by (simp add: s)
qed

lemma contains_Cons: "contains_sub (p # ps) (c # cs) \<longleftrightarrow> starts_with (p # ps) (c # cs) \<or> contains_sub (p # ps) cs"
  by (auto simp: contains_sub_def)

lemma contains_skip: "60 \<notin> set r \<Longrightarrow> contains_sub (60 # q) (r @ s) \<longleftrightarrow> contains_sub (60 # q) s"
  by (induction r) (auto simp: contains_Cons)

text \<open>Defusing one token creates no occurrence of any, and leaves none of its own.\<close>

lemma contains_defused:
  assumes "plain_body q" "plain_body b"
  shows "contains_sub (60 # q) (replace_go k (60 # b) (60 # zwsp # b) s) \<Longrightarrow>
    \<exists>t. suffix t s \<and> starts_with (60 # q) t \<and> \<not> starts_with (60 # b) t"
proof (induction k "60 # b" "60 # zwsp # b" s rule: replace_go.induct)
  case (1 k)
  then show ?case by (simp add: contains_sub_def)
next
  case (2 k c cs)
  then show ?case by (auto intro: suffix_ConsI)
next
  case (3 c cs)
  show ?case
  proof (cases "starts_with (60 # b) (c # cs)")
    case True
    obtain d ds where q: "q = d # ds" "d \<noteq> zwsp" using assms(1) by (cases q) (auto simp: plain_body_def)
    have z: "60 \<notin> set (zwsp # b)" using assms(2) by (auto simp: plain_body_def zwsp_def)
    have "contains_sub (60 # q) (60 # (zwsp # b) @ replace_go (length (60 # b) - 1) (60 # b) (60 # zwsp # b) cs)"
      using 3(3) True by simp
    then have "contains_sub (60 # q) (replace_go (length (60 # b) - 1) (60 # b) (60 # zwsp # b) cs)"
      using contains_skip [OF z] q by (auto simp: contains_Cons)
    from 3(1) [OF True this] show ?thesis by (auto intro: suffix_ConsI)
  next
    case False
    have out: "replace_go 0 (60 # b) (60 # zwsp # b) (c # cs) = c # replace_go 0 (60 # b) (60 # zwsp # b) cs"
      by (simp only: replace_go.simps if_not_P [OF False])
    from 3(3) consider "starts_with (60 # q) (replace_go 0 (60 # b) (60 # zwsp # b) (c # cs))"
      | "contains_sub (60 # q) (replace_go 0 (60 # b) (60 # zwsp # b) cs)"
      unfolding out contains_Cons by blast
    then show ?thesis
    proof cases
      case 1
      from starts_with_defused [OF assms(1) 1] show ?thesis by blast
    next
      case 2
      from 3(2) [OF False 2] show ?thesis by (auto intro: suffix_ConsI)
    qed
  qed
qed

lemma contains_suffix: "suffix t s \<Longrightarrow> starts_with p t \<Longrightarrow> contains_sub p s"
  by (auto simp: contains_sub_sublist starts_with_prefix suffix_def prefix_def)

lemma defuse_removes: "plain_body b \<Longrightarrow> \<not> contains_sub (60 # b) (replace_sub (60 # b) (60 # zwsp # b) s)"
  using contains_defused [of b b 0 s] by (auto simp: replace_sub_def)

lemma defuse_keeps:
  "plain_body q \<Longrightarrow> plain_body b \<Longrightarrow> \<not> contains_sub (60 # q) s \<Longrightarrow>
   \<not> contains_sub (60 # q) (replace_sub (60 # b) (60 # zwsp # b) s)"
  using contains_defused [of q b 0 s] contains_suffix by (auto simp: replace_sub_def)

definition control_bodies :: "rstr list" where
  "control_bodies = map lit [''/summary>'', ''summary>'', ''/analysis>'', ''analysis>'',
     ''/summary_request>'', ''summary_request>'']"

lemma control_plain: "b \<in> set control_bodies \<Longrightarrow> plain_body b"
  by (auto simp: control_bodies_def plain_body_def zwsp_def)

lemma neutralized:
  assumes "b \<in> set control_bodies"
  shows "\<not> contains_sub (60 # b) (neutralize_compaction_control_tokens text)"
proof -
  have p: "plain_body (lit ''/summary>'')" "plain_body (lit ''summary>'')" "plain_body (lit ''/analysis>'')"
    "plain_body (lit ''analysis>'')" "plain_body (lit ''/summary_request>'')"
    "plain_body (lit ''summary_request>'')"
    by (simp_all add: plain_body_def zwsp_def)
  note keep = defuse_keeps [OF _ p(1)] defuse_keeps [OF _ p(2)] defuse_keeps [OF _ p(3)]
    defuse_keeps [OF _ p(4)] defuse_keeps [OF _ p(5)] defuse_keeps [OF _ p(6)]
  note b = control_plain [OF assms]
  from assms consider "b = lit ''/summary>''" | "b = lit ''summary>''" | "b = lit ''/analysis>''"
    | "b = lit ''analysis>''" | "b = lit ''/summary_request>''" | "b = lit ''summary_request>''"
    unfolding control_bodies_def list.map list.set by blast
  then show ?thesis
    unfolding neutralize_compaction_control_tokens_def Let_def
    by cases (hypsubst, intro keep p defuse_removes)+
qed

text \<open>Collapsing blank lines and trimming create no token either: tokens hold no line feed.\<close>

lemma starts_with_collapsed:
  "nl \<notin> set q \<Longrightarrow> starts_with q (replace_go 0 [nl, nl, nl] [nl, nl] s) \<Longrightarrow> starts_with q s"
proof (induction s arbitrary: q)
  case (Cons c cs)
  show ?case
  proof (cases q)
    case (Cons d ds)
    with Cons.prems show ?thesis
      using Cons.IH [of ds] by (cases "starts_with [nl, nl, nl] (c # cs)") auto
  qed simp
qed simp

lemma contains_collapsed:
  assumes "nl \<notin> set (d # q)"
  shows "contains_sub (d # q) (replace_go k [nl, nl, nl] [nl, nl] s) \<Longrightarrow> contains_sub (d # q) s"
proof (induction k "[nl, nl, nl] :: rstr" "[nl, nl] :: rstr" s rule: replace_go.induct)
  case (3 c cs)
  show ?case
  proof (cases "starts_with [nl, nl, nl] (c # cs)")
    case True
    then have "contains_sub (d # q) (replace_go (length [nl, nl, nl] - 1) [nl, nl, nl] [nl, nl] cs)"
      using 3(3) assms by (auto simp: contains_Cons numeral_2_eq_2)
    from 3(1) [OF True this] show ?thesis by (simp only: contains_Cons) simp
  next
    case False
    have out: "replace_go 0 [nl, nl, nl] [nl, nl] (c # cs) = c # replace_go 0 [nl, nl, nl] [nl, nl] cs"
      by (simp only: replace_go.simps if_not_P [OF False])
    from 3(3) consider "starts_with (d # q) (replace_go 0 [nl, nl, nl] [nl, nl] (c # cs))"
      | "contains_sub (d # q) (replace_go 0 [nl, nl, nl] [nl, nl] cs)"
      unfolding out contains_Cons by blast
    then show ?thesis
      using 3(2) [OF False] starts_with_collapsed [OF assms, of "c # cs"] contains_Cons by blast
  qed
qed (auto simp: contains_Cons)

lemma contains_collapse_newlines:
  "nl \<notin> set (d # q) \<Longrightarrow> contains_sub (d # q) (collapse_newlines s) \<Longrightarrow> contains_sub (d # q) s"
proof (induction s rule: collapse_newlines.induct)
  case (1 s)
  show ?case
  proof (cases "contains_sub [nl, nl, nl] s")
    case True
    then have "contains_sub (d # q) (collapse_newlines (replace_sub [nl, nl, nl] [nl, nl] s))"
      using 1(3) collapse_newlines.simps [of s] by simp
    from 1(1) [OF True 1(2) this] show ?thesis
      using contains_collapsed [OF 1(2), of 0 s] by (simp add: replace_sub_def)
  qed (use 1(3) collapse_newlines.simps [of s] in simp)
qed

lemma collapse_newlines_done: "\<not> contains_sub [nl, nl, nl] (collapse_newlines s)"
proof (induction s rule: collapse_newlines.induct)
  case (1 s)
  then show ?case by (subst collapse_newlines.simps) simp
qed

lemma trim_end_prefix: "prefix (trim_end s) s"
  using suffix_dropWhile [of is_whitespace "rev s"] by (simp add: trim_end_def suffix_to_prefix)

lemma trim_sublist: "sublist (trim s) s"
proof -
  have "suffix (trim_start s) s" by (simp add: trim_start_def suffix_dropWhile)
  with trim_end_prefix [of "trim_start s"] show ?thesis
    unfolding trim_def by (meson prefix_imp_sublist sublist_order.order_trans suffix_imp_sublist)
qed

lemma contains_trim: "contains_sub p (trim s) \<Longrightarrow> contains_sub p s"
  unfolding contains_sub_sublist using trim_sublist sublist_order.order_trans by blast

lemma trim_end_idem: "trim_end (trim_end s) = trim_end s"
  by (simp add: trim_end_def)

lemma trim_start_trim: "trim_start (trim s) = trim s"
proof (cases "trim s")
  case (Cons c cs)
  obtain r where "trim_start s = c # cs @ r"
    using trim_end_prefix [of "trim_start s"] Cons by (auto simp: trim_def prefix_def)
  then have "\<not> is_whitespace c"
    unfolding trim_start_def by (metis dropWhile_eq_Cons_conv)
  then show ?thesis by (simp add: Cons trim_start_def)
qed (simp add: trim_start_def)

lemma trim_trim: "trim (trim s) = trim s"
  unfolding trim_def [of "trim s"] trim_start_trim by (simp add: trim_def trim_end_idem)

lemma control_no_newline: "b \<in> set control_bodies \<Longrightarrow> nl \<notin> set (60 # b)"
  by (auto simp: control_bodies_def)

text \<open>The summary that seeds a compacted conversation is inert: whatever the model wrote, the
  text that \<open>format_compact_summary\<close> returns contains none of the six control tokens (the opening
  and closing \<open>summary_request\<close>, \<open>analysis\<close> and \<open>summary\<close> tags), no run of three line feeds, and no
  white space at either end. The tag-removal and newline loops behind it terminate on every input.\<close>

theorem formatted_summary_is_inert:
  "list_all (\<lambda>b. \<not> contains_sub (60 # b) (format_compact_summary raw)) control_bodies
   \<and> \<not> contains_sub [nl, nl, nl] (format_compact_summary raw)
   \<and> trim (format_compact_summary raw) = format_compact_summary raw"
proof (unfold list_all_iff, intro conjI ballI)
  fix b assume b: "b \<in> set control_bodies"
  show "\<not> contains_sub (60 # b) (format_compact_summary raw)"
    unfolding format_compact_summary_def
    using contains_collapse_newlines [OF control_no_newline [OF b]] neutralized [OF b] contains_trim
    by blast
next
  show "\<not> contains_sub [nl, nl, nl] (format_compact_summary raw)"
    unfolding format_compact_summary_def using contains_trim collapse_newlines_done by blast
qed (simp add: format_compact_summary_def trim_trim)

section \<open>Stripping runtime tags\<close>

lemma strip_tag_loop_done:
  "find_sub (open_tag tag) (strip_tag_loop tag s) = None
   \<or> (\<exists>start. find_sub (open_tag tag) (strip_tag_loop tag s) = Some start
        \<and> find_sub (close_tag tag) (drop start (strip_tag_loop tag s)) = None)"
proof (induction tag s rule: strip_tag_loop.induct)
  case (1 tag s)
  then show ?case
    by (subst (1 2 3) strip_tag_loop.simps) (auto split: option.splits)
qed

text \<open>Stripping the runtime tags from a message leaves a complete block behind when the removal of a
  later tag assembles it, although the documentation says that every occurrence of every tag is
  removed: the tags are processed in a fixed order, each once. The text
  \<open><user_<git_status></git_status>info>x</user_info>\<close> keeps its \<open>user_info\<close> block.\<close>

theorem strip_system_tags_leaves_block:
  "strip_system_tags (lit ''<user_<git_status></git_status>info>x</user_info>'')
     = lit ''<user_info>x</user_info>''"
  by code_simp

end
