(* ===== verification/History.thy ===== *)
theory History
  imports Summary_Text
begin

text \<open>
  Assembly, validation and repair of a compacted history (\<open>compaction_utils.rs\<close>): the state context
  captured at compaction time, \<open>build_compacted_history\<close>, the two left-to-right scans
  \<open>validate_compacted_history\<close> and \<open>sanitize_compacted_history\<close>, and the three-pass
  \<open>repair_history\<close>, with the pairing invariant that providers require of a request.
\<close>

section \<open>State context and assembly\<close>

record RunningSubagentSummary =
  subagent_id :: rstr
  subagent_type :: rstr
  rs_description :: rstr
  elapsed_ms :: nat

record BackgroundTaskSummary =
  task_id :: rstr
  command :: rstr
  bt_status :: rstr
  tool_name :: "rstr option"

record CompactionServerSummary =
  server_name :: rstr
  tool_count :: nat
  server_description :: "rstr option"

datatype TodoSummaryStatus = Pending | InProgress | Completed | Cancelled

fun is_actionable :: "TodoSummaryStatus \<Rightarrow> bool" where
  "is_actionable Pending = True"
| "is_actionable InProgress = True"
| "is_actionable _ = False"

fun todo_tag :: "TodoSummaryStatus \<Rightarrow> rstr" where
  "todo_tag Pending = lit ''[pending]''"
| "todo_tag InProgress = lit ''[in_progress]''"
| "todo_tag Completed = lit ''[completed]''"
| "todo_tag Cancelled = lit ''[cancelled]''"

record TodoSummary =
  todo_id :: rstr
  todo_content :: rstr
  todo_status :: TodoSummaryStatus

record CompactionStateContext =
  recent_messages :: "ConversationItem list"
  last_user_query :: "rstr option"
  agent_edited_paths :: "rstr list"
  running_tasks :: "BackgroundTaskSummary list"
  running_subagents :: "RunningSubagentSummary list"
  connected_mcp_servers :: "CompactionServerSummary list"
  todos :: "TodoSummary list"

text \<open>The edited paths are a \<open>BTreeSet\<close>, given by its ascending listing.\<close>

record CompactionInputs =
  in_running_tasks :: "BackgroundTaskSummary list"
  in_running_subagents :: "RunningSubagentSummary list"
  in_agent_edited_paths :: "rstr list"
  in_connected_mcp_servers :: "CompactionServerSummary list"
  in_todos :: "TodoSummary list"

definition state_context_build :: "ConversationItem list \<Rightarrow> CompactionInputs \<Rightarrow> CompactionStateContext" where
  "state_context_build conv inputs =
     \<lparr>recent_messages = extract_messages_since_last_real_user conv,
      last_user_query = extract_last_real_user_query conv,
      agent_edited_paths = in_agent_edited_paths inputs,
      running_tasks = in_running_tasks inputs,
      running_subagents = in_running_subagents inputs,
      connected_mcp_servers = in_connected_mcp_servers inputs,
      todos = in_todos inputs\<rparr>"

definition for_compaction :: "CompactionStateContext \<Rightarrow> CompactionStateContext" where
  "for_compaction ctx = ctx\<lparr>recent_messages := []\<rparr>"

record CompactedHistoryInput =
  system_message :: ConversationItem
  user_message_prefix :: rstr
  agents_md_reminder :: "rstr option"
  state_context :: CompactionStateContext
  compaction_summary :: rstr
  ch_system_reminder :: "rstr option"
  summary_before_recent :: bool
  transcript_hint :: "rstr option"
  summary_count :: nat

definition summary_before_recent_carrier :: "CompactedHistoryInput \<Rightarrow> rstr option" where
  "summary_before_recent_carrier inp = None"

fun opt_list :: "'a option \<Rightarrow> 'a list" where
  "opt_list None = []"
| "opt_list (Some x) = [x]"

definition build_compacted_history :: "CompactedHistoryInput \<Rightarrow> ConversationItem list" where
  "build_compacted_history inp =
     (let carrier = summary_before_recent_carrier inp;
          summary_first = (carrier \<noteq> None);
          summary_item = (case map_option user_meta carrier of
              Some item \<Rightarrow> item
            | None \<Rightarrow> user_meta (format_compact_summary_content (compaction_summary inp)
                       @ (case transcript_hint inp of Some hint \<Rightarrow> hint | None \<Rightarrow> [])));
          recent = recent_messages (state_context inp)
      in [system_message inp, user_meta (user_message_prefix inp)]
         @ opt_list (map_option project_instructions (agents_md_reminder inp))
         @ opt_list (map_option (user \<circ> wrap_user_query) (last_user_query (state_context inp)))
         @ (if summary_first then summary_item # recent else recent @ [summary_item])
         @ opt_list (map_option system_reminder (ch_system_reminder inp)))"

section \<open>Validation and sanitizing\<close>

definition call_ids :: "ConversationItem \<Rightarrow> rstr set" where
  "call_ids item = tc_id ` set (calls_of item)"

fun validate_loop :: "ConversationItem list \<Rightarrow> rstr set \<Rightarrow> rstr list \<Rightarrow> rstr list" where
  "validate_loop [] seen_ids invalid_ids = invalid_ids"
| "validate_loop (item # rest) seen_ids invalid_ids =
     (case item of
        Assistant a \<Rightarrow> validate_loop rest (seen_ids \<union> tc_id ` set (tool_calls a)) invalid_ids
      | ToolResult tr \<Rightarrow>
          if tr_call_id tr \<notin> seen_ids then validate_loop rest seen_ids (invalid_ids @ [tr_call_id tr])
          else validate_loop rest seen_ids invalid_ids
      | _ \<Rightarrow> validate_loop rest seen_ids invalid_ids)"

definition validate_compacted_history :: "ConversationItem list \<Rightarrow> rstr list" where
  "validate_compacted_history items = validate_loop items {} []"

fun sanitize_loop :: "ConversationItem list \<Rightarrow> rstr set \<Rightarrow> ConversationItem list \<times> rstr list" where
  "sanitize_loop [] seen_ids = ([], [])"
| "sanitize_loop (item # rest) seen_ids =
     (case item of
        Assistant a \<Rightarrow>
          (case sanitize_loop rest (seen_ids \<union> tc_id ` set (tool_calls a)) of
             (items, stripped) \<Rightarrow> (item # items, stripped))
      | ToolResult tr \<Rightarrow>
          (case sanitize_loop rest seen_ids of
             (items, stripped) \<Rightarrow>
               if tr_call_id tr \<in> seen_ids then (item # items, stripped)
               else (items, tr_call_id tr # stripped))
      | _ \<Rightarrow> (case sanitize_loop rest seen_ids of (items, stripped) \<Rightarrow> (item # items, stripped)))"

definition sanitize_compacted_history :: "ConversationItem list \<Rightarrow> ConversationItem list \<times> rstr list" where
  "sanitize_compacted_history items = sanitize_loop items {}"

section \<open>Repair of a history\<close>

fun strip_displaced_loop :: "ConversationItem list \<Rightarrow> rstr set \<Rightarrow> ConversationItem list \<times> rstr list" where
  "strip_displaced_loop [] run_ids = ([], [])"
| "strip_displaced_loop (item # rest) run_ids =
     (case item of
        Assistant a \<Rightarrow>
          (case strip_displaced_loop rest (tc_id ` set (tool_calls a)) of
             (items, stripped) \<Rightarrow> (item # items, stripped))
      | ToolResult tr \<Rightarrow>
          (case strip_displaced_loop rest run_ids of
             (items, stripped) \<Rightarrow>
               if tr_call_id tr \<in> run_ids then (item # items, stripped)
               else (items, tr_call_id tr # stripped))
      | _ \<Rightarrow> (case strip_displaced_loop rest {} of (items, stripped) \<Rightarrow> (item # items, stripped)))"

definition strip_displaced_tool_results :: "ConversationItem list \<Rightarrow> ConversationItem list \<times> rstr list" where
  "strip_displaced_tool_results items = strip_displaced_loop items {}"

record HistoryRepairReport =
  duplicates_removed :: nat
  stripped_tool_result_ids :: "rstr list"
  synthetic_results_inserted :: nat

definition changed :: "HistoryRepairReport \<Rightarrow> bool" where
  "changed r \<longleftrightarrow> 0 < duplicates_removed r \<or> stripped_tool_result_ids r \<noteq> []
     \<or> 0 < synthetic_results_inserted r"

definition repair_history :: "ConversationItem list \<Rightarrow> ConversationItem list \<times> HistoryRepairReport" where
  "repair_history items =
     (case dedup_duplicate_tool_results items of (items1, removed) \<Rightarrow>
      case strip_displaced_tool_results items1 of (items2, stripped) \<Rightarrow>
      case repair_dangling_tool_calls (HarnessHalted (lit ''history_repair'')) items2 of (items3, inserted) \<Rightarrow>
        (items3, \<lparr>duplicates_removed = removed, stripped_tool_result_ids = stripped,
                  synthetic_results_inserted = inserted\<rparr>))"

section \<open>The pairing invariant\<close>

text \<open>Every tool result lies in the run right after an assistant item that declares its id;
  \<open>R\<close> is what the items before declare.\<close>

fun paired :: "rstr set \<Rightarrow> ConversationItem list \<Rightarrow> bool" where
  "paired R [] = True"
| "paired R (Assistant a # xs) = paired (call_ids (Assistant a)) xs"
| "paired R (ToolResult t # xs) \<longleftrightarrow> tr_call_id t \<in> R \<and> paired R xs"
| "paired R (_ # xs) = paired {} xs"

abbreviation strip_displaced :: "rstr set \<Rightarrow> ConversationItem list \<Rightarrow> ConversationItem list" where
  "strip_displaced R xs \<equiv> fst (strip_displaced_loop xs R)"

abbreviation others :: "ConversationItem list \<Rightarrow> ConversationItem list" where
  "others \<equiv> filter (\<lambda>x. \<not> is_tool_result x)"

lemma call_ids_Assistant [simp]: "call_ids (Assistant a) = tc_id ` set (tool_calls a)"
  by (simp add: call_ids_def)

lemma paired_Cons:
  "\<not> is_tool_result x \<Longrightarrow> paired R (x # xs) = paired (call_ids x) xs"
  by (cases x) (auto simp: call_ids_def)

lemma paired_results:
  "\<forall>r \<in> set rs. is_tool_result r \<Longrightarrow> paired R (rs @ xs) \<longleftrightarrow> ids rs \<subseteq> R \<and> paired R xs"
proof (induction rs)
  case (Cons r rs)
  then show ?case by (cases r) auto
qed simp

lemma calls_not_result: "calls_of x \<noteq> [] \<Longrightarrow> \<not> is_tool_result x"
  by (cases x) auto

lemma strip_displaced_Cons:
  "\<not> is_tool_result x \<Longrightarrow> strip_displaced R (x # xs) = x # strip_displaced (call_ids x) xs"
  by (cases x) (auto simp: call_ids_def split: prod.splits)

lemma strip_displaced_results:
  "\<forall>r \<in> set rs. is_tool_result r \<Longrightarrow>
     strip_displaced R (rs @ xs) = filter (\<lambda>r. result_id r \<in> R) rs @ strip_displaced R xs"
proof (induction rs)
  case (Cons r rs)
  then show ?case by (cases r) (auto split: prod.splits)
qed simp

lemma strip_displaced_paired: "paired R (strip_displaced R xs)"
proof (induction xs R rule: strip_displaced_loop.induct)
  case (2 item rest R)
  then show ?case by (cases item) (auto split: prod.splits)
qed simp

lemma strip_displaced_nothing: "snd (strip_displaced_loop xs R) = [] \<longleftrightarrow> paired R xs"
proof (induction xs R rule: strip_displaced_loop.induct)
  case (2 item rest R)
  then show ?case by (cases item) (auto split: prod.splits)
qed simp

lemma strip_displaced_id: "paired R xs \<Longrightarrow> strip_displaced R xs = xs"
proof (induction xs R rule: strip_displaced_loop.induct)
  case (2 item rest R)
  then show ?case by (cases item) (auto split: prod.splits)
qed simp

lemma strip_displaced_others: "others (strip_displaced R xs) = others xs"
proof (induction xs R rule: strip_displaced_loop.induct)
  case (2 item rest R)
  then show ?case by (cases item) (auto split: prod.splits)
qed simp

lemma strip_displaced_subseq: "subseq (strip_displaced R xs) xs"
proof (induction xs R rule: strip_displaced_loop.induct)
  case (2 item rest R)
  then show ?case by (cases item) (auto split: prod.splits)
qed simp

lemma run_results: "\<forall>r \<in> set (run_of xs). is_tool_result r"
  using set_takeWhileD by metis

lemma paired_after_run: "paired R xs \<Longrightarrow> ids (run_of xs) \<subseteq> R \<and> paired R (after_run xs)"
  using paired_results [of "run_of xs" R "after_run xs", OF run_results] by simp

lemma fix_dangling_paired: "paired R xs \<Longrightarrow> paired R (fix_dangling reason xs)"
proof (induction reason xs arbitrary: R rule: fix_dangling.induct)
  case (2 reason x xs)
  show ?case
  proof (cases "calls_of x = []")
    case True
    with 2 show ?thesis by (cases x) auto
  next
    case False
    have x: "\<not> is_tool_result x" by (rule calls_not_result [OF False])
    let ?syn = "synthetic_results reason (calls_of x) (ids (run_of xs))"
    have h: "ids (run_of xs) \<subseteq> call_ids x" "paired (call_ids x) (after_run xs)"
      using paired_after_run "2.prems" paired_Cons [OF x] by blast+
    have "paired (call_ids x) (fix_dangling reason (after_run xs))"
      by (rule 2(2) [OF False h(2)])
    moreover have "ids ?syn \<subseteq> call_ids x" by (auto simp: synthetic_ids call_ids_def)
    ultimately show ?thesis
      using False h(1) paired_results [OF run_results [of xs]]
        paired_results [of ?syn "call_ids x"] synthetic_are_results
      by (auto simp: paired_Cons [OF x])
  qed
qed simp

lemma keep_last_others:
  "others (keep_last (run_of xs)) = []"
  using keep_last_set run_results by (metis filter_False)

lemma dedup_results_others: "others (dedup_results xs) = others xs"
proof (induction xs rule: dedup_results.induct)
  case (2 x xs)
  have "others xs = others (run_of xs) @ others (after_run xs)"
    by (metis filter_append takeWhile_dropWhile_id)
  moreover have "others (run_of xs) = []" using run_results by (metis filter_False)
  ultimately show ?case using 2 by (auto simp: keep_last_others)
qed simp

lemma dedup_results_shrinks: "length (dedup_results xs) = length xs \<longleftrightarrow> single_results xs"
  using dedup_results_id [of xs] dedup_results_single [of xs]
    subseq_same_length [OF dedup_results_subseq [of xs]] by metis

lemma run_of_strip: "run_of (strip_displaced R xs) = filter (\<lambda>r. result_id r \<in> R) (run_of xs)"
proof -
  have "strip_displaced R xs = filter (\<lambda>r. result_id r \<in> R) (run_of xs) @ strip_displaced R (after_run xs)"
    using strip_displaced_results [of "run_of xs" "after_run xs" R, OF run_results] by simp
  moreover have "run_of (strip_displaced R (after_run xs)) = []"
  proof (cases "after_run xs")
    case Nil
    show ?thesis unfolding Nil by simp
  next
    case (Cons y ys)
    show ?thesis
      unfolding Cons strip_displaced_Cons [OF hd_after_run [OF Cons]] using hd_after_run [OF Cons] by simp
  qed
  moreover have "\<forall>r \<in> set (filter (\<lambda>r. result_id r \<in> R) (run_of xs)). is_tool_result r"
    using run_results by auto
  ultimately show ?thesis by (metis (no_types, lifting) append.right_neutral takeWhile_append2)
qed

lemma strip_displaced_single: "single_results xs \<Longrightarrow> single_results (strip_displaced R xs)"
proof (induction xs arbitrary: R)
  case (Cons x xs)
  show ?case
  proof (cases "is_tool_result x")
    case True
    with Cons.prems Cons.IH [of R] show ?thesis by (cases x) (auto simp: split_beta)
  next
    case False
    from Cons have "calls_of x \<noteq> [] \<longrightarrow> distinct (map result_id (run_of xs))"
      "single_results (strip_displaced (call_ids x) xs)" by simp_all
    then show ?thesis
      unfolding strip_displaced_Cons [OF False]
      by (simp add: run_of_strip distinct_map_filter)
  qed
qed simp

text \<open>With distinct call ids in each assistant item the synthetic results are distinct too.\<close>

definition distinct_calls :: "ConversationItem list \<Rightarrow> bool" where
  "distinct_calls xs \<longleftrightarrow> list_all (\<lambda>x. distinct (map tc_id (calls_of x))) xs"

lemma distinct_calls_others: "distinct_calls xs \<longleftrightarrow> distinct_calls (others xs)"
  by (auto simp: distinct_calls_def list_all_iff tool_result_no_calls)

lemma synthetic_distinct:
  "distinct (map tc_id calls) \<Longrightarrow> distinct (map result_id (synthetic_results reason calls a))"
  by (simp add: synthetic_results_def comp_def distinct_map_filter)

lemma fix_dangling_single:
  "distinct_calls xs \<Longrightarrow> single_results xs \<Longrightarrow> single_results (fix_dangling reason xs)"
proof (induction reason xs rule: fix_dangling.induct)
  case (2 reason x xs)
  show ?case
  proof (cases "calls_of x = []")
    case False
    let ?syn = "synthetic_results reason (calls_of x) (ids (run_of xs))"
    have d: "distinct_calls (after_run xs)"
      using "2.prems"(1) set_dropWhileD by (fastforce simp: distinct_calls_def list_all_iff)
    have s: "single_results (after_run xs)" using "2.prems"(2) single_results_after_run [of xs] by simp
    have rs: "\<forall>r \<in> set (run_of xs @ ?syn). is_tool_result r" using run_results synthetic_are_results by auto
    have "run_of ((run_of xs @ ?syn) @ fix_dangling reason (after_run xs)) = run_of xs @ ?syn"
      using rs by (subst takeWhile_append2) (auto simp: run_of_fix_after)
    moreover have "distinct (map result_id (run_of xs @ ?syn))"
    proof -
      have "ids (run_of xs) \<inter> ids ?syn = {}" by (auto simp: synthetic_ids)
      then have "set (map result_id (run_of xs)) \<inter> set (map result_id ?syn) = {}" by (simp add: ids_def)
      with "2.prems" False synthetic_distinct [of "calls_of x"] show ?thesis
        by (simp add: distinct_calls_def)
    qed
    ultimately show ?thesis
      using False 2(2) [OF False d s] single_results_append [OF rs] by simp
  qed (use 2 in \<open>auto simp: distinct_calls_def\<close>)
qed simp

lemma repair_history_eq:
  "repair_history items =
     (let items2 = strip_displaced_tool_results (dedup_results items);
          r = repair_dangling_tool_calls (HarnessHalted (lit ''history_repair'')) (fst items2)
      in (fst r, \<lparr>duplicates_removed = length items - length (dedup_results items),
                  stripped_tool_result_ids = snd items2, synthetic_results_inserted = snd r\<rparr>))"
  using dedup_eq [of items] by (simp add: repair_history_def Let_def split_beta)

lemma repair_history_items:
  "fst (repair_history items) =
     fix_dangling (HarnessHalted (lit ''history_repair'')) (strip_displaced {} (dedup_results items))"
  by (simp add: repair_history_eq Let_def strip_displaced_tool_results_def repair_eq)

lemma repair_history_changed:
  "changed (snd (repair_history items)) \<longleftrightarrow>
     \<not> (single_results items \<and> paired {} items \<and> all_answered items)"
proof (cases "single_results items \<and> paired {} items")
  case True
  then have "fst (strip_displaced_tool_results (dedup_results items)) = items"
    "snd (strip_displaced_tool_results (dedup_results items)) = []"
    by (simp_all add: dedup_results_id strip_displaced_tool_results_def strip_displaced_id strip_displaced_nothing)
  moreover have "length items < length (fix_dangling reason items) \<longleftrightarrow> \<not> all_answered items" for reason
    using fix_dangling_grows [of reason items] list_emb_length [OF fix_dangling_subseq [of items reason]]
    by linarith
  ultimately show ?thesis
    using True by (simp add: changed_def repair_history_eq Let_def repair_eq dedup_results_id)
next
  case False
  have "length (dedup_results items) < length items"  if "\<not> single_results items"
    using that dedup_results_shrinks [of items] dedup_results_length [of items] by linarith
  moreover have "snd (strip_displaced_tool_results (dedup_results items)) \<noteq> []" if "single_results items"
    using that False by (simp add: dedup_results_id strip_displaced_tool_results_def strip_displaced_nothing)
  ultimately show ?thesis using False by (auto simp: changed_def repair_history_eq Let_def)
qed

section \<open>Contracts\<close>

text \<open>Backfilling unanswered tool calls does exactly what it promises: afterwards every call of
  every assistant item has a result in the run that follows it (and \<open>has_dangling_tool_calls\<close>, which
  decides this, says no), the original items are all kept in order and only tool results are added,
  the count returned is the number added, it is zero precisely when nothing dangled, and a second
  repair changes nothing, whatever its reason.\<close>

theorem repair_dangling_contract:
  "all_answered (fst (repair_dangling_tool_calls reason conv))
   \<and> \<not> has_dangling_tool_calls (fst (repair_dangling_tool_calls reason conv))
   \<and> subseq conv (fst (repair_dangling_tool_calls reason conv))
   \<and> others (fst (repair_dangling_tool_calls reason conv)) = others conv
   \<and> length (fst (repair_dangling_tool_calls reason conv))
       = length conv + snd (repair_dangling_tool_calls reason conv)
   \<and> (snd (repair_dangling_tool_calls reason conv) = 0 \<longleftrightarrow> \<not> has_dangling_tool_calls conv)
   \<and> repair_dangling_tool_calls reason' (fst (repair_dangling_tool_calls reason conv))
       = (fst (repair_dangling_tool_calls reason conv), 0)"
proof -
  have "length conv \<le> length (fix_dangling reason conv)"
    by (rule list_emb_length [OF fix_dangling_subseq])
  then have len: "length (fix_dangling reason conv) - length conv = 0 \<longleftrightarrow> all_answered conv"
    using fix_dangling_grows [of reason conv] by linarith
  have "repair_dangling_tool_calls reason' (fix_dangling reason conv) = (fix_dangling reason conv, 0)"
    using repair_eq [of reason' "fix_dangling reason conv"]
      fix_dangling_id [OF fix_dangling_answered [of reason conv], of reason']
    by (simp add: prod_eq_iff)
  with len show ?thesis
    using \<open>length conv \<le> length (fix_dangling reason conv)\<close>
    by (simp add: repair_eq has_dangling_eq fix_dangling_answered fix_dangling_subseq fix_dangling_others)
qed

text \<open>Removing duplicate tool results is the reference operation that keeps, in the run after each
  assistant item with calls, the last result of every id: the in-place loop with its recorded
  indices, descending removals and re-examined runs ends on every conversation and equals it. No
  run has two results with one id afterwards, everything else stays in order, the count returned is
  the number removed, whether a call is answered does not change, and a second pass removes nothing.\<close>

theorem dedup_contract:
  "fst (dedup_duplicate_tool_results conv) = dedup_results conv
   \<and> single_results (fst (dedup_duplicate_tool_results conv))
   \<and> subseq (fst (dedup_duplicate_tool_results conv)) conv
   \<and> others (fst (dedup_duplicate_tool_results conv)) = others conv
   \<and> length (fst (dedup_duplicate_tool_results conv)) + snd (dedup_duplicate_tool_results conv) = length conv
   \<and> (has_dangling_tool_calls (fst (dedup_duplicate_tool_results conv)) \<longleftrightarrow> has_dangling_tool_calls conv)
   \<and> dedup_duplicate_tool_results (fst (dedup_duplicate_tool_results conv))
       = (fst (dedup_duplicate_tool_results conv), 0)"
proof -
  have "dedup_duplicate_tool_results (dedup_results conv) = (dedup_results conv, 0)"
    using dedup_eq [of "dedup_results conv"] dedup_results_id [OF dedup_results_single [of conv]]
    by (simp add: prod_eq_iff)
  then show ?thesis
    by (simp add: dedup_eq has_dangling_eq dedup_results_single dedup_results_subseq dedup_results_others
        dedup_keeps_answered dedup_results_length)
qed

lemma validate_loop_acc: "validate_loop xs seen acc = acc @ validate_loop xs seen []"
proof (induction xs arbitrary: seen acc)
  case (Cons x xs)
  show ?case
  proof (cases x)
    case (ToolResult t)
    then show ?thesis
      using Cons.IH [of seen "acc @ [tr_call_id t]"] Cons.IH [of seen "[tr_call_id t]"] Cons.IH [of seen acc]
      by simp
  qed (simp_all add: Cons.IH [of _ acc])
qed simp

lemma sanitize_validate:
  "validate_loop (fst (sanitize_loop xs seen)) seen [] = []
   \<and> snd (sanitize_loop xs seen) = validate_loop xs seen []
   \<and> others (fst (sanitize_loop xs seen)) = others xs
   \<and> subseq (fst (sanitize_loop xs seen)) xs"
proof (induction xs seen rule: sanitize_loop.induct)
  case (2 x xs seen)
  show ?case
  proof (cases x)
    case (ToolResult t)
    with 2 show ?thesis by (auto simp: split_beta validate_loop_acc [of _ _ "[_]"])
  qed (use 2 in \<open>simp_all add: split_beta\<close>)
qed simp

lemma validate_sanitize_id: "validate_loop xs seen [] = [] \<Longrightarrow> sanitize_loop xs seen = (xs, [])"
proof (induction xs seen rule: sanitize_loop.induct)
  case (2 x xs seen)
  then show ?case
    by (cases x) (auto simp: validate_loop_acc [of _ _ "[_]"] split: if_splits)
qed simp

text \<open>Sanitizing a compacted history establishes the provider invariant it is checked against:
  \<open>validate_compacted_history\<close> finds nothing in the result, the ids reported as stripped are exactly
  the violations that validation finds in the input, in order, only tool results are removed, the
  rest stays in order, and a second pass strips nothing.\<close>

theorem sanitize_contract:
  "validate_compacted_history (fst (sanitize_compacted_history items)) = []
   \<and> snd (sanitize_compacted_history items) = validate_compacted_history items
   \<and> others (fst (sanitize_compacted_history items)) = others items
   \<and> subseq (fst (sanitize_compacted_history items)) items
   \<and> sanitize_compacted_history (fst (sanitize_compacted_history items))
       = (fst (sanitize_compacted_history items), [])"
  unfolding sanitize_compacted_history_def validate_compacted_history_def
  using sanitize_validate [of items "{}"] validate_sanitize_id [of "fst (sanitize_loop items {})" "{}"]
  by blast

text \<open>C12. The three-pass repair of a history establishes what providers require: in the result every
  tool result lies in the run right after the assistant item that declares its id, and every call is
  answered in that run. Items other than tool results are untouched, the report says "changed"
  exactly when the input was not already well formed (duplicates in a run, displaced or orphaned
  results, unanswered calls), and an unchanged report means an unchanged conversation.\<close>

theorem repair_history_contract:
  "paired {} (fst (repair_history items))
   \<and> \<not> has_dangling_tool_calls (fst (repair_history items))
   \<and> others (fst (repair_history items)) = others items
   \<and> (changed (snd (repair_history items)) \<longleftrightarrow>
        \<not> (single_results items \<and> paired {} items \<and> \<not> has_dangling_tool_calls items))
   \<and> (fst (repair_history items) = items \<or> changed (snd (repair_history items)))"
proof -
  have "fst (repair_history items) = items \<or> changed (snd (repair_history items))"
    by (auto simp: repair_history_changed repair_history_items dedup_results_id strip_displaced_id fix_dangling_id)
  then show ?thesis
    by (simp add: repair_history_items has_dangling_eq repair_history_changed fix_dangling_paired
        strip_displaced_paired fix_dangling_answered fix_dangling_others strip_displaced_others
        dedup_results_others)
qed

lemma repair_history_single: "distinct_calls items \<Longrightarrow> single_results (fst (repair_history items))"
  unfolding repair_history_items
  using distinct_calls_others [of items]
    distinct_calls_others [of "strip_displaced {} (dedup_results items)"]
  by (intro fix_dangling_single strip_displaced_single dedup_results_single)
    (simp add: strip_displaced_others dedup_results_others)

text \<open>Repairing a history twice is repairing it once, provided no assistant item declares two
  calls with the same id: the second repair reports no change and leaves the conversation alone.\<close>

theorem repair_history_idempotent:
  assumes "distinct_calls items"
  shows "fst (repair_history (fst (repair_history items))) = fst (repair_history items)
    \<and> \<not> changed (snd (repair_history (fst (repair_history items))))"
proof -
  let ?r = "fst (repair_history items)"
  have "single_results ?r" "paired {} ?r" "all_answered ?r"
    using repair_history_single [OF assms]
    by (simp_all add: repair_history_items fix_dangling_paired strip_displaced_paired fix_dangling_answered)
  then show ?thesis
    using repair_history_changed [of ?r] repair_history_items [of ?r]
    by (simp add: dedup_results_id strip_displaced_id fix_dangling_id)
qed

definition sample_call :: "rstr \<Rightarrow> ToolCall" where
  "sample_call i = \<lparr>tc_id = i, tc_name = lit ''read'', tc_arguments = []\<rparr>"

theorem repair_history_idempotent_witness:
  "fst (repair_history (fst (repair_history
     [user (lit ''hi''), tool_result [9] [], assistant_tool_calls [sample_call [1], sample_call [2]],
      tool_result [2] [5], tool_result [2] [6]])))
   = fst (repair_history
     [user (lit ''hi''), tool_result [9] [], assistant_tool_calls [sample_call [1], sample_call [2]],
      tool_result [2] [5], tool_result [2] [6]])"
  using repair_history_idempotent [of "[user (lit ''hi''), tool_result [9] [],
      assistant_tool_calls [sample_call [1], sample_call [2]], tool_result [2] [5], tool_result [2] [6]]"]
  by (simp add: distinct_calls_def user_def tool_result_def assistant_tool_calls_def sample_call_def)

text \<open>Without that proviso the repair is not idempotent, although its documentation says so: an
  assistant item that declares one id twice gets a synthetic result for each of the two calls, and
  the next repair removes one of them as a duplicate and reports a change.\<close>

theorem repair_history_not_idempotent:
  "changed (snd (repair_history (fst (repair_history
     [assistant_tool_calls [sample_call [1], sample_call [1]]]))))
   \<and> length (fst (repair_history [assistant_tool_calls [sample_call [1], sample_call [1]]])) = 3
   \<and> length (fst (repair_history (fst (repair_history
       [assistant_tool_calls [sample_call [1], sample_call [1]]])))) = 2"
  by (simp add: repair_history_changed repair_history_items assistant_tool_calls_def sample_call_def
      synthetic_results_def tool_result_def split_beta)

section \<open>Compaction keeps a history well formed\<close>

lemma paired_mono: "paired R xs \<Longrightarrow> R \<subseteq> R' \<Longrightarrow> paired R' xs"
  by (induction R xs arbitrary: R' rule: paired.induct) auto

lemma paired_append: "paired R xs \<Longrightarrow> paired {} ys \<Longrightarrow> paired R (xs @ ys)"
  by (induction R xs rule: paired.induct) (auto intro: paired_mono)

lemma paired_after_user: "paired R (xs @ User u # ys) \<Longrightarrow> paired {} ys"
  by (induction R xs rule: paired.induct) auto

lemma run_append: "ids (run_of xs) \<subseteq> ids (run_of (xs @ ys))"
  by (induction xs) auto

lemma all_answered_append: "all_answered xs \<Longrightarrow> all_answered ys \<Longrightarrow> all_answered (xs @ ys)"
proof (induction xs)
  case (Cons x xs)
  then show ?case using run_append [of xs ys] by auto
qed simp

lemma all_answered_suffix: "all_answered (xs @ ys) \<Longrightarrow> all_answered ys"
  by (induction xs) auto

lemma map_filter_Cons:
  "List.map_filter f (x # xs) = (case f x of Some y \<Rightarrow> y # List.map_filter f xs | None \<Rightarrow> List.map_filter f xs)"
  by (simp add: map_filter_simps)

lemma recent_paired:
  "paired R xs \<Longrightarrow> R \<subseteq> R' \<Longrightarrow> paired R' (List.map_filter recent_item xs)"
  by (induction R xs arbitrary: R' rule: paired.induct) (auto simp: map_filter_Cons map_filter_simps)

lemma recent_run: "ids (run_of xs) \<subseteq> ids (run_of (List.map_filter recent_item xs))"
proof (induction xs)
  case (Cons x xs)
  then show ?case by (cases x) (auto simp: map_filter_Cons)
qed simp

lemma recent_answered: "all_answered xs \<Longrightarrow> all_answered (List.map_filter recent_item xs)"
proof (induction xs)
  case (Cons x xs)
  then show ?case using recent_run [of xs] by (cases x) (auto simp: map_filter_Cons)
qed (simp add: map_filter_simps)

lemma rposition_Some: "rposition P xs = Some i \<Longrightarrow> i < length xs \<and> P (xs ! i)"
  by (induction xs arbitrary: i) (auto split: option.splits if_splits)

lemma real_user_turn_is_user: "is_real_user_turn x \<Longrightarrow> \<exists>u. x = User u"
  by (cases x) (auto simp: is_real_user_turn_def)

lemma recent_messages_well_formed:
  assumes "paired {} conv" "all_answered conv"
  shows "paired {} (extract_messages_since_last_real_user conv)"
    "all_answered (extract_messages_since_last_real_user conv)"
proof -
  have "paired {} (drop start conv) \<and> all_answered (drop start conv)"
    if "start = (case rposition is_real_user_turn conv of Some idx \<Rightarrow> idx + 1 | None \<Rightarrow> 0)" for start
  proof (cases "rposition is_real_user_turn conv")
    case (Some idx)
    then obtain u where u: "idx < length conv" "conv ! idx = User u"
      using rposition_Some real_user_turn_is_user by blast
    then have "conv = take idx conv @ User u # drop start conv"
      using that Some id_take_nth_drop [of idx conv] by simp
    with assms show ?thesis
      by (metis all_answered_suffix all_answered.simps(2) paired_after_user)
  qed (use that assms in simp)
  then show "paired {} (extract_messages_since_last_real_user conv)"
    "all_answered (extract_messages_since_last_real_user conv)"
    by (simp_all add: extract_messages_since_last_real_user_def Let_def recent_paired [of "{}"] recent_answered)
qed

lemma paired_validates: "paired R xs \<Longrightarrow> R \<subseteq> seen \<Longrightarrow> validate_loop xs seen [] = []"
proof (induction R xs arbitrary: seen rule: paired.induct)
  case (3 R t xs)
  then show ?case by auto
qed auto

lemmas user_items = user_def user_meta_def project_instructions_def system_reminder_def

text \<open>C27. Compaction keeps a history well formed: from a conversation in which results are paired
  with their calls and every call is answered, the state context taken at the last real user turn
  and the history assembled around the summary again pair every tool result with the assistant item
  right before its run and leave no call unanswered, so validation finds nothing, whether or not
  project instructions, a last query or a reminder are present.\<close>

theorem compacted_history_well_formed:
  assumes "paired {} conv" "\<not> has_dangling_tool_calls conv" "is_system (system_message inp)"
    "state_context inp = state_context_build conv inputs"
  shows "paired {} (build_compacted_history inp)
    \<and> \<not> has_dangling_tool_calls (build_compacted_history inp)
    \<and> validate_compacted_history (build_compacted_history inp) = []"
proof -
  define recent where "recent = extract_messages_since_last_real_user conv"
  define pre where "pre = [system_message inp, user_meta (user_message_prefix inp)]
      @ opt_list (map_option project_instructions (agents_md_reminder inp))
      @ opt_list (map_option (user \<circ> wrap_user_query) (last_user_query (state_context inp)))"
  obtain summary where b: "build_compacted_history inp = pre @ recent @ [user_meta summary]
      @ opt_list (map_option system_reminder (ch_system_reminder inp))"
    using that by (simp add: build_compacted_history_def Let_def summary_before_recent_carrier_def pre_def
        recent_def assms(4) state_context_build_def)
  obtain s where s: "system_message inp = System s" using assms(3) by (cases "system_message inp") auto
  have r: "paired {} recent" "all_answered recent"
    using recent_messages_well_formed assms(1,2) by (simp_all add: recent_def has_dangling_eq)
  have p: "paired {} pre" "all_answered pre"
    by (cases "agents_md_reminder inp"; cases "last_user_query (state_context inp)";
        simp add: pre_def s user_items)+
  have e: "paired {} ([user_meta summary] @ opt_list (map_option system_reminder (ch_system_reminder inp)))"
    "all_answered ([user_meta summary] @ opt_list (map_option system_reminder (ch_system_reminder inp)))"
    by (cases "ch_system_reminder inp"; simp add: user_items)+
  have w: "paired {} (build_compacted_history inp)" "all_answered (build_compacted_history inp)"
    unfolding b by (intro paired_append all_answered_append p r e)+
  then show ?thesis
    using paired_validates [OF w(1), of "{}"]
    by (simp add: has_dangling_eq validate_compacted_history_def)
qed

definition sample_conv :: "ConversationItem list" where
  "sample_conv = [user (lit ''fix''), assistant_tool_calls [sample_call [1]], tool_result [1] [5]]"

definition sample_inputs :: CompactionInputs where
  "sample_inputs = \<lparr>in_running_tasks = [], in_running_subagents = [], in_agent_edited_paths = [],
     in_connected_mcp_servers = [], in_todos = []\<rparr>"

definition sample_input :: CompactedHistoryInput where
  "sample_input = \<lparr>system_message = System [], user_message_prefix = [], agents_md_reminder = None,
     state_context = state_context_build sample_conv sample_inputs, compaction_summary = [],
     ch_system_reminder = None, summary_before_recent = False, transcript_hint = None, summary_count = 1\<rparr>"

theorem compacted_history_well_formed_witness:
  "validate_compacted_history (build_compacted_history sample_input) = []"
proof -
  have "paired {} sample_conv" "\<not> has_dangling_tool_calls sample_conv"
    by (simp_all add: sample_conv_def user_def user_item_def assistant_tool_calls_def tool_result_def
        sample_call_def has_dangling_eq)
  then show ?thesis
    using compacted_history_well_formed [of sample_conv sample_input sample_inputs]
    by (simp add: sample_input_def)
qed

end
