(* ===== verification/Budget.thy ===== *)
theory Budget
  imports History
begin

text \<open>
  Fitting a conversation to a token budget (\<open>fit_conversation_to_budget\<close> and its truncation
  fallback in \<open>compaction_utils.rs\<close>): what is kept, when the budget holds, and where the
  truncation marker breaks it.
\<close>

section \<open>The kept suffix\<close>

lemma paired_drop:
  assumes "paired R (xs @ y # ys)" "\<not> is_tool_result y"
  shows "paired {} (y # ys)"
  using assms by (induction R xs rule: paired.induct) (auto simp: paired_Cons)

lemma paired_system_head: "paired {} (System s # xs) \<longleftrightarrow> paired {} xs"
  by simp


definition sample_body :: "ConversationItem list" where
  "sample_body = [user (lit ''first request''), assistant_tool_calls [sample_call [1]],
     tool_result [1] (lit ''a long result''), user (lit ''next'')]"


section \<open>The truncation marker\<close>

lemma show_nat_bytes: "n < 10 ^ k \<Longrightarrow> 0 < k \<Longrightarrow> len_bytes (show_nat n) \<le> k"
proof (induction k arbitrary: n)
  case (Suc k)
  show ?case
  proof (cases "n < 10")
    case True
    then show ?thesis by (simp add: show_nat.simps [of n] len_bytes_def utf8_len_def)
  next
    case False
    with Suc.prems have "0 < k" by (cases k) auto
    moreover have "n div 10 < 10 ^ k" using Suc.prems(1) by (simp add: less_mult_imp_div_less mult.commute)
    ultimately have "len_bytes (show_nat (n div 10)) \<le> k" by (rule Suc.IH [rotated])
    moreover have "utf8_len (48 + n mod 10) = 1" by (simp add: utf8_len_def)
    ultimately show ?thesis using False by (simp add: show_nat.simps [of n] len_bytes_def)
  qed
qed simp

lemma floor_prefix_bytes: "len_bytes (floor_prefix n s) \<le> n"
  by (induction n s rule: floor_prefix.induct) (auto simp: len_bytes_def)

lemma marker_bytes:
  "len_bytes (nl # lit ''[... truncated '') = 16"
  "len_bytes (lit '' bytes to fit the compaction window ...]'') = 40"
  by (simp_all add: len_bytes_def utf8_len_def)

lemma truncated_bytes:
  assumes "max_bytes < len_bytes s" "len_bytes s < 10 ^ 8"
  shows "len_bytes (truncated_or s max_bytes) \<le> (max_bytes - MARKER_RESERVE) + 64"
proof -
  define kept where "kept = floor_prefix (min (max_bytes - MARKER_RESERVE) (len_bytes s)) s"
  have "len_bytes kept \<le> max_bytes - MARKER_RESERVE"
    using floor_prefix_bytes [of "min (max_bytes - MARKER_RESERVE) (len_bytes s)" s] by (simp add: kept_def)
  moreover have "len_bytes (show_nat (len_bytes s - len_bytes kept)) \<le> 8"
    using assms(2) by (intro show_nat_bytes) auto
  moreover have "truncated_or s max_bytes = kept @ (nl # lit ''[... truncated '')
      @ show_nat (len_bytes s - len_bytes kept) @ lit '' bytes to fit the compaction window ...]''"
    using assms(1) by (simp add: truncated_or_def truncate_text_to_bytes_def Let_def kept_def)
  ultimately show ?thesis by (simp only: len_bytes_append marker_bytes)
qed

text \<open>A text truncated to a byte limit respects the limit, marker included, when the limit is at
  least the 64 bytes reserved for the marker and the text is shorter than a hundred million bytes
  (eight digits in the marker). The cut never splits a character.\<close>

theorem truncation_within_limit:
  assumes "MARKER_RESERVE \<le> max_bytes" "len_bytes s < 10 ^ 8"
  shows "len_bytes (truncated_or s max_bytes) \<le> max_bytes"
proof (cases "len_bytes s \<le> max_bytes")
  case False
  with truncated_bytes [of max_bytes s] assms show ?thesis by (simp add: MARKER_RESERVE_def)
qed (simp add: truncated_or_def truncate_text_to_bytes_def)

theorem truncation_within_limit_witness:
  "len_bytes (truncated_or (replicate 100 8364) 70) \<le> 70"
  using truncation_within_limit [of 70 "replicate 100 8364"]
  by (simp add: MARKER_RESERVE_def len_bytes_def utf8_len_def sum_list_replicate)

text \<open>Below that reserve the limit is not respected, although the documentation of
  \<open>truncate_text_to_bytes\<close> promises a prefix "incl. truncation marker" within it: fitting a single
  eight-byte message to a budget of one token returns the marker alone, which is longer than the
  message and costs fourteen tokens.\<close>

theorem fit_can_exceed_budget:
  "fit_conversation_to_budget [user (lit ''abcdefgh'')] 1
     = [user ([nl] @ lit ''[... truncated 8 bytes to fit the compaction window ...]'')]
   \<and> cost [user (lit ''abcdefgh'')] = 2
   \<and> cost (fit_conversation_to_budget [user (lit ''abcdefgh'')] 1) = 14"
proof -
  have s: "show_nat (Suc (Suc (Suc (Suc (Suc (Suc (Suc (Suc 0)))))))) = lit ''8''"
    by (simp add: show_nat.simps)
  have f: "fit_conversation_to_budget [user (lit ''abcdefgh'')] 1
     = [user ([nl] @ lit ''[... truncated 8 bytes to fit the compaction window ...]'')]"
    by (simp add: fit_conversation_to_budget_def user_def user_item_def recover_truncated_tail_unit_def
        truncate_item_to_tokens_def truncated_or_def truncate_text_to_bytes_def len_bytes_def utf8_len_def
        sat_mul64_def u64_max_def BYTES_PER_TOKEN_def estimate_image_tokens_def skip_results.simps
        MARKER_RESERVE_def s)
  show ?thesis
    unfolding f
    by (simp add: user_def user_item_def len_bytes_def utf8_len_def BYTES_PER_TOKEN_def
        estimate_image_tokens_def sat_mul64_def)
qed

end
