(* ===== verification/Usage.thy ===== *)
theory Usage
  imports Prelude
begin

text \<open>
  Billing ledgers (\<open>xai-chat-state/src/usage.rs\<close>): totals with saturating counters, the totals per
  model (an \<open>IndexMap\<close>, an association list in insertion order), and the proof that the ledger's
  totals are the clipped sums of its models' totals.
\<close>

section \<open>Totals\<close>

record TokenUsage =
  prompt_tokens :: nat
  completion_tokens :: nat
  tu_total_tokens :: nat
  tu_reasoning_tokens :: nat
  cached_prompt_tokens :: nat

record UsageTotals =
  input_tokens :: nat
  output_tokens :: nat
  cached_read_tokens :: nat
  reasoning_tokens :: nat
  model_calls :: nat
  api_duration_ms :: nat
  cost_usd_ticks :: "int option"
  cost_missing_calls :: nat

definition totals_default :: UsageTotals where
  "totals_default = \<lparr>input_tokens = 0, output_tokens = 0, cached_read_tokens = 0, reasoning_tokens = 0,
     model_calls = 0, api_duration_ms = 0, cost_usd_ticks = None, cost_missing_calls = 0\<rparr>"

definition i64_min :: int where "i64_min = - (2 ^ 63)"
definition i64_max :: int where "i64_max = 2 ^ 63 - 1"

definition sat_add_i64 :: "int \<Rightarrow> int \<Rightarrow> int" where
  "sat_add_i64 a b = max i64_min (min i64_max (a + b))"

definition reported_cost_ticks :: "int option \<Rightarrow> int option" where
  "reported_cost_ticks raw = (case raw of Some t \<Rightarrow> if 0 < t then Some t else None | None \<Rightarrow> None)"

definition from_call :: "TokenUsage \<Rightarrow> nat option \<Rightarrow> int option \<Rightarrow> UsageTotals" where
  "from_call usage duration cost =
     (let c = reported_cost_ticks cost
      in \<lparr>input_tokens = prompt_tokens usage, output_tokens = completion_tokens usage,
          cached_read_tokens = cached_prompt_tokens usage, reasoning_tokens = tu_reasoning_tokens usage,
          model_calls = 1, api_duration_ms = (case duration of Some d \<Rightarrow> d | None \<Rightarrow> 0),
          cost_usd_ticks = c, cost_missing_calls = (if c = None then 1 else 0)\<rparr>)"

definition usage_total_tokens :: "UsageTotals \<Rightarrow> nat" where
  "usage_total_tokens t = sat_add64 (input_tokens t) (output_tokens t)"

definition cost_is_partial :: "UsageTotals \<Rightarrow> bool" where
  "cost_is_partial t \<longleftrightarrow> cost_usd_ticks t \<noteq> None \<and> 0 < cost_missing_calls t"

definition merge_cost_ticks :: "int option \<Rightarrow> int option \<Rightarrow> int option" where
  "merge_cost_ticks a b =
     (if a = None \<and> b = None then None
      else Some (sat_add_i64 (case a of Some x \<Rightarrow> x | None \<Rightarrow> 0) (case b of Some x \<Rightarrow> x | None \<Rightarrow> 0)))"

definition fold_totals :: "UsageTotals \<Rightarrow> UsageTotals \<Rightarrow> UsageTotals" where
  "fold_totals other self =
     \<lparr>input_tokens = sat_add64 (input_tokens self) (input_tokens other),
      output_tokens = sat_add64 (output_tokens self) (output_tokens other),
      cached_read_tokens = sat_add64 (cached_read_tokens self) (cached_read_tokens other),
      reasoning_tokens = sat_add64 (reasoning_tokens self) (reasoning_tokens other),
      model_calls = sat_add64 (model_calls self) (model_calls other),
      api_duration_ms = sat_add64 (api_duration_ms self) (api_duration_ms other),
      cost_usd_ticks = merge_cost_ticks (cost_usd_ticks self) (cost_usd_ticks other),
      cost_missing_calls = sat_add64 (cost_missing_calls self) (cost_missing_calls other)\<rparr>"

section \<open>The ledger\<close>

record UsageLedger =
  totals :: UsageTotals
  by_model :: "(rstr \<times> UsageTotals) list"
  main_loop_model_calls :: nat
  incomplete :: bool

definition ledger_default :: UsageLedger where
  "ledger_default = \<lparr>totals = totals_default, by_model = [], main_loop_model_calls = 0, incomplete = False\<rparr>"

text \<open>\<open>entry(key).or_default()\<close> followed by an update of the entry.\<close>

fun entry_update :: "rstr \<Rightarrow> (UsageTotals \<Rightarrow> UsageTotals) \<Rightarrow> (rstr \<times> UsageTotals) list
    \<Rightarrow> (rstr \<times> UsageTotals) list" where
  "entry_update k f [] = [(k, f totals_default)]"
| "entry_update k f ((k', v) # rest) =
     (if k' = k then (k', f v) # rest else (k', v) # entry_update k f rest)"

definition fold_entry :: "rstr \<Rightarrow> UsageTotals \<Rightarrow> UsageLedger \<Rightarrow> UsageLedger" where
  "fold_entry m t l = l\<lparr>totals := fold_totals t (totals l), by_model := entry_update m (fold_totals t) (by_model l)\<rparr>"

definition record_main_loop_call ::
  "rstr \<Rightarrow> TokenUsage \<Rightarrow> nat option \<Rightarrow> int option \<Rightarrow> UsageLedger \<Rightarrow> UsageLedger" where
  "record_main_loop_call m usage duration cost l =
     fold_entry m (from_call usage duration cost)
       (l\<lparr>main_loop_model_calls := sat_add64 (main_loop_model_calls l) 1\<rparr>)"

definition record_subagent :: "(rstr \<times> UsageTotals) list \<Rightarrow> bool \<Rightarrow> UsageLedger \<Rightarrow> UsageLedger" where
  "record_subagent entries inc l =
     (let l1 = fold (\<lambda>(m, t). fold_entry m t) entries l
      in if inc then l1\<lparr>incomplete := True\<rparr> else l1)"

definition mark_incomplete :: "UsageLedger \<Rightarrow> UsageLedger" where
  "mark_incomplete l = l\<lparr>incomplete := True\<rparr>"

section \<open>The totals are the sums over the models\<close>

definition counters :: "(UsageTotals \<Rightarrow> nat) list" where
  "counters = [input_tokens, output_tokens, cached_read_tokens, reasoning_tokens, model_calls,
     api_duration_ms, cost_missing_calls]"

lemma counter_rules:
  assumes "f \<in> set counters"
  shows "f (fold_totals t s) = sat_add64 (f s) (f t)" "f totals_default = 0"
  using assms by (auto simp: counters_def fold_totals_def totals_default_def)

abbreviation model_sum :: "(UsageTotals \<Rightarrow> nat) \<Rightarrow> (rstr \<times> UsageTotals) list \<Rightarrow> nat" where
  "model_sum f es \<equiv> sum_list (map (f \<circ> snd) es)"

lemma clipped_entry:
  assumes "f \<in> set counters"
  shows "min u64_max (model_sum f (entry_update m (fold_totals t) es)) = min u64_max (model_sum f es + f t)"
proof (induction es)
  case Nil
  then show ?case by (simp add: counter_rules [OF assms] sat_add64_def)
next
  case (Cons e es)
  obtain k v where e: "e = (k, v)" by (cases e)
  show ?case
  proof (cases "k = m")
    case True
    then show ?thesis by (auto simp: e counter_rules [OF assms] sat_add64_def min_def)
  next
    case False
    then have "model_sum f (entry_update m (fold_totals t) (e # es))
        = f v + model_sum f (entry_update m (fold_totals t) es)" by (simp add: e)
    with Cons.IH False show ?thesis by (auto simp: e min_def split: if_splits)
  qed
qed

definition ledger_ok :: "UsageLedger \<Rightarrow> bool" where
  "ledger_ok l \<longleftrightarrow> list_all (\<lambda>f. f (totals l) = min u64_max (model_sum f (by_model l))) counters
     \<and> (cost_usd_ticks (totals l) = None \<longleftrightarrow> list_all (\<lambda>e. cost_usd_ticks (snd e) = None) (by_model l))
     \<and> distinct (map fst (by_model l))"

lemma entry_update_keys:
  "set (map fst (entry_update k f es)) = insert k (set (map fst es))"
  "distinct (map fst es) \<Longrightarrow> distinct (map fst (entry_update k f es))"
proof (induction es)
  case (Cons e es)
  { case 1 show ?case using Cons.IH(1) by (cases e) auto
  next
    case 2
    obtain k' v where e: "e = (k', v)" by (cases e)
    have "k' \<notin> set (map fst es)" using 2 by (simp add: e)
    then show ?case using 2 Cons.IH by (auto simp: e) }
qed simp_all

lemma merge_None: "merge_cost_ticks a b = None \<longleftrightarrow> a = None \<and> b = None"
  by (simp add: merge_cost_ticks_def)

lemma entry_cost:
  "list_all (\<lambda>e. cost_usd_ticks (snd e) = None) (entry_update m (fold_totals t) es)
   \<longleftrightarrow> list_all (\<lambda>e. cost_usd_ticks (snd e) = None) es \<and> cost_usd_ticks t = None"
proof (induction es)
  case (Cons e es)
  then show ?case by (cases e) (auto simp: fold_totals_def merge_None)
qed (simp add: fold_totals_def merge_None totals_default_def)

lemma fold_entry_ok: "ledger_ok l \<Longrightarrow> ledger_ok (fold_entry m t l)"
proof -
  assume ok: "ledger_ok l"
  have "f (fold_totals t (totals l)) = min u64_max (model_sum f (entry_update m (fold_totals t) (by_model l)))"
    if f: "f \<in> set counters" for f
  proof -
    have "f (totals l) = min u64_max (model_sum f (by_model l))"
      using ok f by (auto simp: ledger_ok_def list_all_iff)
    then show ?thesis
      unfolding clipped_entry [OF f] counter_rules(1) [OF f] by (auto simp: sat_add64_def min_def)
  qed
  moreover have "cost_usd_ticks (fold_totals t (totals l)) = None \<longleftrightarrow>
      list_all (\<lambda>e. cost_usd_ticks (snd e) = None) (entry_update m (fold_totals t) (by_model l))"
    using ok unfolding entry_cost by (auto simp: ledger_ok_def fold_totals_def merge_None)
  ultimately show ?thesis
    using ok entry_update_keys(2) by (auto simp: ledger_ok_def fold_entry_def list_all_iff)
qed

lemma ledger_ok_other [simp]:
  "ledger_ok (l\<lparr>main_loop_model_calls := n\<rparr>) = ledger_ok l" "ledger_ok (l\<lparr>incomplete := b\<rparr>) = ledger_ok l"
  by (simp_all add: ledger_ok_def)

lemma ledger_default_ok: "ledger_ok ledger_default"
  by (simp add: ledger_ok_def ledger_default_def counters_def totals_default_def)

lemma record_main_ok: "ledger_ok l \<Longrightarrow> ledger_ok (record_main_loop_call m u d c l)"
  by (simp add: record_main_loop_call_def fold_entry_ok)

lemma record_subagent_ok: "ledger_ok l \<Longrightarrow> ledger_ok (record_subagent es inc l)"
proof -
  have "ledger_ok l \<Longrightarrow> ledger_ok (fold (\<lambda>(m, t). fold_entry m t) es l)"
    by (induction es arbitrary: l) (auto simp: fold_entry_ok)
  then show "ledger_ok l \<Longrightarrow> ledger_ok (record_subagent es inc l)"
    by (simp add: record_subagent_def Let_def)
qed

end
