(* ===== verification/Request.thy ===== *)
theory Request
  imports History
begin

text \<open>
  The working copy of a request (\<open>xai-chat-state/src/actor/request_builder.rs\<close>): pruning of old tool
  results, eviction of old images to a byte budget, and injection of the memory reminder, with the
  facts that none of them disturbs the pairing of calls and results.

  The sizes that \<open>serde_json\<close> computes are arguments of the model (\<open>JsonSize\<close>).
\<close>

section \<open>Pruning\<close>

record PruningConfig =
  pruning_enabled :: bool
  keep_last_n_turns :: nat
  soft_trim_threshold :: nat
  soft_trim_head :: nat
  soft_trim_tail :: nat
  hard_clear_age_turns :: nat

definition pruning_default :: PruningConfig where
  "pruning_default = \<lparr>pruning_enabled = True, keep_last_n_turns = 3, soft_trim_threshold = 4000,
     soft_trim_head = 1500, soft_trim_tail = 1500, hard_clear_age_turns = 10\<rparr>"

definition HARD_CLEAR_PLACEHOLDER :: rstr where
  "HARD_CLEAR_PLACEHOLDER = lit ''[Tool result omitted '' @ [8212] @ lit '' too old]''"

definition SOFT_TRIM_SEPARATOR :: rstr where
  "SOFT_TRIM_SEPARATOR = [nl, nl] @ lit ''['' @ [8230] @ lit ''trimmed'' @ [8230] @ lit '']'' @ [nl, nl]"

definition should_prune :: "nat \<Rightarrow> nat \<Rightarrow> bool" where
  "should_prune total_tok context_win \<longleftrightarrow> context_win div 2 < total_tok"

definition safe_char_slice :: "rstr \<Rightarrow> nat \<Rightarrow> nat \<Rightarrow> rstr" where
  "safe_char_slice s start count = take count (drop start s)"

definition safe_char_slice_tail :: "rstr \<Rightarrow> nat \<Rightarrow> rstr" where
  "safe_char_slice_tail s count = (let tot = length s in if tot \<le> count then s else drop (tot - count) s)"

text \<open>One tool result of a given turn age.\<close>

definition prune_result :: "PruningConfig \<Rightarrow> nat \<Rightarrow> ToolResultItem \<Rightarrow> ToolResultItem" where
  "prune_result cfg age t =
     (if age < keep_last_n_turns cfg then t
      else if hard_clear_age_turns cfg \<le> age
      then (if tr_content t \<noteq> HARD_CLEAR_PLACEHOLDER then t\<lparr>tr_content := HARD_CLEAR_PLACEHOLDER\<rparr> else t)
      else if soft_trim_threshold cfg < length (tr_content t)
      then t\<lparr>tr_content := safe_char_slice (tr_content t) 0 (soft_trim_head cfg) @ SOFT_TRIM_SEPARATOR
                            @ safe_char_slice_tail (tr_content t) (soft_trim_tail cfg)\<rparr>
      else t)"

text \<open>The backward loop, on the reversed conversation.\<close>

fun prune_loop :: "PruningConfig \<Rightarrow> nat \<Rightarrow> bool \<Rightarrow> ConversationItem list \<Rightarrow> ConversationItem list" where
  "prune_loop cfg turn_from_end seen_first_user [] = []"
| "prune_loop cfg turn_from_end seen_first_user (item # rest) =
     (case item of
        User u \<Rightarrow> item # prune_loop cfg (if seen_first_user then turn_from_end + 1 else turn_from_end) True rest
      | ToolResult t \<Rightarrow>
          ToolResult (prune_result cfg turn_from_end t) # prune_loop cfg turn_from_end seen_first_user rest
      | _ \<Rightarrow> item # prune_loop cfg turn_from_end seen_first_user rest)"

definition prune_conversation :: "PruningConfig \<Rightarrow> ConversationItem list \<Rightarrow> ConversationItem list" where
  "prune_conversation cfg conv =
     (if \<not> pruning_enabled cfg then conv else rev (prune_loop cfg 0 False (rev conv)))"

section \<open>Images\<close>

record JsonSize =
  items_json :: "ConversationItem list \<Rightarrow> nat"
  part_json :: "ContentPart \<Rightarrow> nat"

definition IMAGE_COMPACT_PLACEHOLDER :: rstr where
  "IMAGE_COMPACT_PLACEHOLDER =
     lit ''[An earlier image was removed to keep the request within its size limit and is no longer visible. ''
     @ lit ''Do not describe or reason about its contents from memory; ask the user to re-share it if you need to see it again.]''"

definition MAX_REQUEST_BYTES :: nat where "MAX_REQUEST_BYTES = 50 * 1024 * 1024"
definition IMAGE_COMPACT_TRIGGER_BYTES :: nat where
  "IMAGE_COMPACT_TRIGGER_BYTES = MAX_REQUEST_BYTES - 3 * 1024 * 1024"
definition IMAGE_COMPACT_RECLAIM_TARGET_BYTES :: nat where
  "IMAGE_COMPACT_RECLAIM_TARGET_BYTES = MAX_REQUEST_BYTES div 2"
definition IMAGE_PART_FRAME_BYTES :: nat where "IMAGE_PART_FRAME_BYTES = 25"

definition image_part_bytes :: "rstr \<Rightarrow> nat" where
  "image_part_bytes url = IMAGE_PART_FRAME_BYTES + len_bytes url"

fun user_parts :: "ConversationItem \<Rightarrow> ContentPart list" where
  "user_parts (User u) = u_content u"
| "user_parts _ = []"

definition inline_image_count :: "ConversationItem list \<Rightarrow> nat" where
  "inline_image_count conv = length (filter is_image (concat (map user_parts conv)))"

fun blank_part :: "ContentPart \<Rightarrow> ContentPart" where
  "blank_part (Image url) = Image []"
| "blank_part (Text t) = Text t"

fun url_bytes :: "ContentPart \<Rightarrow> nat" where
  "url_bytes (Image url) = len_bytes url"
| "url_bytes (Text t) = 0"

fun blank_item :: "ConversationItem \<Rightarrow> ConversationItem" where
  "blank_item (User u) = User (u\<lparr>u_content := map blank_part (u_content u)\<rparr>)"
| "blank_item item = item"

definition conversation_body_bytes :: "JsonSize \<Rightarrow> ConversationItem list \<Rightarrow> nat" where
  "conversation_body_bytes J conv =
     items_json J (map blank_item conv) + sum_list (map url_bytes (concat (map user_parts conv)))"

text \<open>The images with their item and part index and size, oldest first.\<close>

definition images_of :: "ConversationItem list \<Rightarrow> (nat \<times> nat \<times> nat) list" where
  "images_of conv =
     concat (map (\<lambda>(i, item).
       List.map_filter (\<lambda>(j, p). case p of Image url \<Rightarrow> Some (i, j, image_part_bytes url) | Text _ \<Rightarrow> None)
         (enumerate 0 (user_parts item))) (enumerate 0 conv))"

text \<open>\<open>user.content.get_mut(j)\<close> on the item at \<open>i\<close>.\<close>

fun set_part :: "nat \<Rightarrow> ContentPart \<Rightarrow> ConversationItem \<Rightarrow> ConversationItem" where
  "set_part j p (User u) = User (u\<lparr>u_content := (u_content u)[j := p]\<rparr>)"
| "set_part j p item = item"

fun evict_images :: "nat \<Rightarrow> nat \<Rightarrow> (nat \<times> nat \<times> nat) list \<Rightarrow> ConversationItem list \<Rightarrow> nat \<Rightarrow> nat
    \<Rightarrow> ConversationItem list \<times> nat \<times> nat" where
  "evict_images target placeholder_bytes [] conv running evicted = (conv, evicted, running)"
| "evict_images target placeholder_bytes ((i, j, image_bytes) # images) conv running evicted =
     (if running \<le> target then (conv, evicted, running)
      else if i < length conv \<and> j < length (user_parts (conv ! i))
      then evict_images target placeholder_bytes images
             (conv[i := set_part j (Text IMAGE_COMPACT_PLACEHOLDER) (conv ! i)])
             (running - (image_bytes - placeholder_bytes)) (evicted + 1)
      else evict_images target placeholder_bytes images conv running evicted)"

definition compact_images_to_byte_budget ::
  "JsonSize \<Rightarrow> ConversationItem list \<Rightarrow> nat \<Rightarrow> nat \<Rightarrow> ConversationItem list \<times> nat \<times> nat" where
  "compact_images_to_byte_budget J conv current_bytes target_bytes =
     (if current_bytes \<le> target_bytes then (conv, 0, current_bytes)
      else evict_images target_bytes (part_json J (Text IMAGE_COMPACT_PLACEHOLDER)) (images_of conv) conv
             current_bytes 0)"

section \<open>Memory reminder\<close>

definition MEMORY_CONTEXT_OPEN_TAG :: rstr where "MEMORY_CONTEXT_OPEN_TAG = lit ''<memory-context>''"

definition trim_end_chars :: "rchar set \<Rightarrow> rstr \<Rightarrow> rstr" where
  "trim_end_chars C s = rev (dropWhile (\<lambda>c. c \<in> C) (rev s))"

definition upsert_memory_reminder_text :: "rstr \<Rightarrow> rstr \<Rightarrow> rstr \<times> bool" where
  "upsert_memory_reminder_text system_prompt reminder =
     (let updated =
        (case find_sub MEMORY_CONTEXT_OPEN_TAG system_prompt of
           Some idx \<Rightarrow>
             (let pre = trim_end_chars {nl} (trim_end_chars {nl} (take idx system_prompt))
              in if pre = [] then reminder else pre @ [nl, nl] @ reminder)
         | None \<Rightarrow>
             if trim_end system_prompt = reminder then system_prompt
             else if system_prompt = [] then reminder
             else trim_end_chars {nl} system_prompt @ [nl, nl] @ reminder)
      in (updated, system_prompt \<noteq> updated))"

definition inject_memory_reminder :: "ConversationItem list \<Rightarrow> rstr \<Rightarrow> ConversationItem list \<times> bool" where
  "inject_memory_reminder items reminder0 =
     (let reminder = trim reminder0
      in if reminder = [] then (items, False)
         else case items of
           System s # rest \<Rightarrow>
             (case upsert_memory_reminder_text s reminder of (s', was_changed) \<Rightarrow> (System s' # rest, was_changed))
         | _ \<Rightarrow> (System reminder # items, True))"

section \<open>Pairing is kept\<close>

text \<open>What pairing depends on.\<close>

definition skeleton :: "ConversationItem \<Rightarrow> bool \<times> rstr \<times> ToolCall list" where
  "skeleton x = (is_tool_result x, result_id x, calls_of x)"

lemma skeleton_run:
  "map skeleton xs = map skeleton ys \<Longrightarrow> ids (run_of xs) = ids (run_of ys)"
proof (induction xs arbitrary: ys)
  case (Cons x xs)
  then obtain y ys' where y: "ys = y # ys'" "skeleton x = skeleton y" "map skeleton xs = map skeleton ys'"
    by (cases ys) auto
  have "is_tool_result x = is_tool_result y" "result_id x = result_id y"
    using y(2) by (simp_all add: skeleton_def)
  with Cons.IH [OF y(3)] show ?case by (simp add: y(1))
qed simp

lemma skeleton_answered: "map skeleton xs = map skeleton ys \<Longrightarrow> all_answered xs = all_answered ys"
proof (induction xs arbitrary: ys)
  case (Cons x xs)
  then obtain y ys' where y: "ys = y # ys'" "skeleton x = skeleton y" "map skeleton xs = map skeleton ys'"
    by (cases ys) auto
  have "calls_of x = calls_of y" using y(2) by (simp add: skeleton_def)
  with Cons.IH [OF y(3)] skeleton_run [OF y(3)] show ?case by (simp add: y(1))
qed simp

lemma prune_result_id [simp]: "tr_call_id (prune_result cfg age t) = tr_call_id t"
  by (simp add: prune_result_def)

lemma prune_loop_skeleton: "map skeleton (prune_loop cfg n s xs) = map skeleton xs"
proof (induction xs arbitrary: n s)
  case (Cons x xs)
  then show ?case by (cases x) (auto simp: skeleton_def)
qed simp

lemma prune_skeleton: "map skeleton (prune_conversation cfg conv) = map skeleton conv"
  by (simp add: prune_conversation_def rev_map [symmetric] prune_loop_skeleton)

lemma set_part_skeleton [simp]: "skeleton (set_part j p item) = skeleton item"
  by (cases item) (auto simp: skeleton_def)

lemma evict_skeleton: "map skeleton (fst (evict_images target pb images conv r e)) = map skeleton conv"
proof (induction images arbitrary: conv r e)
  case (Cons a images)
  obtain i j b where a: "a = (i, j, b)" by (cases a)
  have "map skeleton (conv[i := set_part j p (conv ! i)]) = map skeleton conv" for p
    by (cases "i < length conv") (simp_all add: map_update list_update_same_conv list_update_beyond)
  with Cons show ?case by (simp add: a)
qed simp

lemma compact_images_skeleton:
  "map skeleton (fst (compact_images_to_byte_budget J conv c t)) = map skeleton conv"
  by (simp add: compact_images_to_byte_budget_def evict_skeleton)

lemma inject_answered: "all_answered (fst (inject_memory_reminder items r)) = all_answered items"
proof (cases items)
  case (Cons x xs)
  then show ?thesis by (cases x) (auto simp: inject_memory_reminder_def Let_def split_beta)
qed (simp add: inject_memory_reminder_def Let_def)

end
