(* ===== verification/Chat_State.thy ===== *)
theory Chat_State
  imports Usage Request Rewind
begin

text \<open>
  The chat-state actor (\<open>xai-chat-state/src/actor\<close>): its state, every mutation and query handler, the
  commands, and the dispatcher \<open>handle_command\<close>, which the actor's loop runs on one command after the
  other.

  The persistence trait and the event channel are logs of the calls made on them. Logging and the
  opaque trace context of a request are left out. Token counts are unbounded here; in the source
  they are \<open>u64\<close> sums of in-memory byte counts.
\<close>

section \<open>Types\<close>

datatype ApiBackend = ChatCompletions | Responses | Messages

record SamplingConfig =
  base_url :: rstr
  sc_model :: rstr
  max_completion_tokens :: "nat option"
  temperature :: "rat option"
  top_p :: "rat option"
  api_backend :: ApiBackend
  extra_headers :: "(rstr \<times> rstr) list"
  context_window :: nat
  sc_reasoning_effort :: "ReasoningEffort option"
  stream_tool_calls :: "bool option"

datatype AuthType = SessionToken | ApiKey

record Credentials =
  api_key :: "rstr option"
  auth_type :: AuthType
  alpha_test_key :: "rstr option"
  client_version :: "rstr option"

definition credentials_default :: Credentials where
  "credentials_default = \<lparr>api_key = None, auth_type = SessionToken, alpha_test_key = None, client_version = None\<rparr>"

record ChatStateSnapshot =
  sn_conversation :: "ConversationItem list"
  sn_sampling_config :: SamplingConfig
  sn_prompt_index :: nat
  sn_total_tokens :: nat
  sn_estimate_at_last_response :: nat
  sn_agent_edited_paths :: "rstr set"
  sn_prompt_texts :: "rstr list"
  sn_stream_start_ms :: "int option"
  sn_turn_start_ms :: "int option"
  sn_last_compaction_prompt_index :: "nat option"
  sn_credentials :: Credentials

record NotificationMeta =
  nm_stream_start_ms :: "int option"
  nm_turn_start_ms :: "int option"

record TurnCapture =
  messages :: "ConversationItem list"
  tc_compaction_occurred :: bool

record ConversationCounts =
  count_total :: nat
  count_user :: nat
  count_assistant :: nat
  count_tool_result :: nat

record AutoCompactTrigger =
  trigger_tokens :: nat
  trigger_window :: nat
  utilization_percent :: nat

record ModelMetadata =
  resolved_model_id :: "rstr option"
  md_model_fingerprint :: "rstr option"

record ToolSpec =
  spec_name :: rstr
  spec_description :: "rstr option"
  spec_parameters :: rstr

record ConversationRequest =
  rq_items :: "ConversationItem list"
  rq_tools :: "ToolSpec list"
  rq_model :: "rstr option"
  rq_temperature :: "rat option"
  rq_max_output_tokens :: "nat option"
  rq_top_p :: "rat option"
  x_grok_conv_id :: "rstr option"
  x_grok_req_id :: "rstr option"
  rq_reasoning_effort :: "ReasoningEffort option"

datatype ChatStateEvent =
    PromptIndexChanged nat
  | TokensUpdated nat
  | ConversationReset nat
  | ImageBudget nat nat nat nat bool nat nat

datatype PersistenceRecord = Message ConversationItem | ReplaceHistory "ConversationItem list" | FlushRecord

record TurnCaptureState =
  turn_start_offset :: nat
  pre_replacement_messages :: "ConversationItem list"
  compaction_occurred :: bool

record ChatState =
  conversation :: "ConversationItem list"
  sampling_config :: SamplingConfig
  cs_prompt_index :: nat
  prompt_texts :: "rstr list"
  total_tokens :: nat
  stream_start_ms :: "int option"
  turn_start_ms :: "int option"
  cs_agent_edited_paths :: "rstr set"
  last_compaction_prompt_index :: "nat option"
  credentials :: Credentials
  estimated_tokens_since_model :: nat
  estimate_at_last_response :: nat
  last_turn_usage :: "TokenUsage option"
  prompt_usage :: "UsageLedger option"
  session_usage :: UsageLedger
  turn_capture :: "TurnCaptureState option"
  harness_trace_buffer :: "ConversationItem list"
  harness_trace_turns :: "ConversationItem list list"

record ChatStateActor = ChatState +
  pruning_config :: PruningConfig
  persistence :: "PersistenceRecord list"
  events :: "ChatStateEvent list"

section \<open>Construction\<close>

definition chat_state_new :: "ConversationItem list \<Rightarrow> SamplingConfig \<Rightarrow> ChatState" where
  "chat_state_new conv0 cfg =
     (let conv1 = fst (dedup_duplicate_tool_results conv0);
          conv = fst (repair_dangling_tool_calls UserCancelled conv1);
          initial_tokens = estimate_conversation_tokens conv
      in \<lparr>conversation = conv, sampling_config = cfg, cs_prompt_index = 0, prompt_texts = [],
          total_tokens = initial_tokens, stream_start_ms = None, turn_start_ms = None,
          cs_agent_edited_paths = {}, last_compaction_prompt_index = None,
          credentials = credentials_default, estimated_tokens_since_model = 0,
          estimate_at_last_response = initial_tokens, last_turn_usage = None, prompt_usage = None,
          session_usage = ledger_default, turn_capture = None, harness_trace_buffer = [],
          harness_trace_turns = []\<rparr>)"

definition spawn_with_pruning ::
  "ConversationItem list \<Rightarrow> SamplingConfig \<Rightarrow> PruningConfig \<Rightarrow> ChatStateActor" where
  "spawn_with_pruning conv cfg pruning =
     ChatState.extend (chat_state_new conv cfg)
       (ChatStateActor.fields pruning [] [])"

section \<open>Turn capture\<close>

definition turn_tail :: "ConversationItem list \<Rightarrow> nat \<Rightarrow> ConversationItem list" where
  "turn_tail conv offset = (if offset \<le> length conv then drop offset conv else [])"

definition snapshot_turn_slice :: "ChatStateActor \<Rightarrow> ChatStateActor" where
  "snapshot_turn_slice s =
     (case turn_capture s of
        None \<Rightarrow> s
      | Some cap \<Rightarrow> s\<lparr>turn_capture := Some (cap\<lparr>pre_replacement_messages :=
            pre_replacement_messages cap @ turn_tail (conversation s) (turn_start_offset cap)\<rparr>)\<rparr>)"

definition rebase_turn_capture_offset :: "ChatStateActor \<Rightarrow> ChatStateActor" where
  "rebase_turn_capture_offset s =
     (case turn_capture s of
        None \<Rightarrow> s
      | Some cap \<Rightarrow> s\<lparr>turn_capture := Some (cap\<lparr>turn_start_offset := length (conversation s)\<rparr>)\<rparr>)"

section \<open>Persistence and events\<close>

definition persist_message :: "ConversationItem \<Rightarrow> ChatStateActor \<Rightarrow> ChatStateActor" where
  "persist_message item s = s\<lparr>persistence := persistence s @ [Message item]\<rparr>"

definition replace_history :: "ConversationItem list \<Rightarrow> ChatStateActor \<Rightarrow> ChatStateActor" where
  "replace_history items s = s\<lparr>persistence := persistence s @ [ReplaceHistory items]\<rparr>"

definition send_event :: "ChatStateEvent \<Rightarrow> ChatStateActor \<Rightarrow> ChatStateActor" where
  "send_event e s = s\<lparr>events := events s @ [e]\<rparr>"

section \<open>Mutations\<close>

definition ensure_conversation_integrity_with_reason ::
  "DanglingToolCallReason \<Rightarrow> ChatStateActor \<Rightarrow> ChatStateActor" where
  "ensure_conversation_integrity_with_reason reason s0 =
     (let s = snapshot_turn_slice s0;
          (conv1, deduped) = dedup_duplicate_tool_results (conversation s);
          (conv2, repaired) = repair_dangling_tool_calls reason conv1;
          s1 = s\<lparr>conversation := conv2\<rparr>;
          s2 = (if 0 < repaired \<or> 0 < deduped then replace_history conv2 s1 else s1)
      in rebase_turn_capture_offset s2)"

definition ensure_conversation_integrity :: "ChatStateActor \<Rightarrow> ChatStateActor" where
  "ensure_conversation_integrity s = ensure_conversation_integrity_with_reason UserCancelled s"

definition repair_dangling_after_harness_halt :: "rstr \<Rightarrow> ChatStateActor \<Rightarrow> ChatStateActor" where
  "repair_dangling_after_harness_halt cls s =
     ensure_conversation_integrity_with_reason (HarnessHalted cls) s"

definition reseeded_tokens :: "bool \<Rightarrow> nat \<Rightarrow> nat \<Rightarrow> nat \<Rightarrow> nat" where
  "reseeded_tokens is_compaction pre_total at_last base_estimate =
     (let est = (if is_compaction \<and> 0 < pre_total \<and> 0 < at_last
                 then f64_as_u64 (f64_round_int (f64_mul (f64_of_nat base_estimate)
                        (f64_div (f64_of_nat pre_total) (f64_of_nat at_last))))
                 else base_estimate)
      in if is_compaction \<and> 0 < pre_total then min est pre_total else est)"

definition replace_conversation :: "ConversationItem list \<Rightarrow> bool \<Rightarrow> ChatStateActor \<Rightarrow> ChatStateActor" where
  "replace_conversation items is_compaction s0 =
     (let s = snapshot_turn_slice s0;
          s1 = (if is_compaction
                then s\<lparr>turn_capture := map_option (compaction_occurred_update (\<lambda>_. True)) (turn_capture s)\<rparr>
                else s);
          pre_replace_total = total_tokens s1;
          s2 = replace_history items s1;
          est = reseeded_tokens is_compaction pre_replace_total (estimate_at_last_response s2)
                  (estimate_conversation_tokens items);
          s3 = s2\<lparr>conversation := items, estimated_tokens_since_model := 0, total_tokens := est,
                   estimate_at_last_response := estimate_conversation_tokens items\<rparr>;
          s4 = rebase_turn_capture_offset s3
      in send_event (TokensUpdated est) (send_event (ConversationReset (length (conversation s4))) s4))"

text \<open>The conversation is taken out of the state before \<open>replace_conversation\<close> runs.\<close>

definition actor_repair_history :: "bool \<Rightarrow> ChatStateActor \<Rightarrow> HistoryRepairReport \<times> ChatStateActor" where
  "actor_repair_history dry_run s =
     (if dry_run then (snd (repair_history (conversation s)), s)
      else let items = conversation s;
               s1 = s\<lparr>conversation := []\<rparr>;
               (items', report) = repair_history items
           in if changed report then (report, replace_conversation items' False s1)
              else (report, s1\<lparr>conversation := items'\<rparr>))"

fun is_assistant :: "ConversationItem \<Rightarrow> bool" where
  "is_assistant (Assistant _) = True"
| "is_assistant _ = False"

definition push_message :: "ConversationItem \<Rightarrow> ChatStateActor \<Rightarrow> ChatStateActor" where
  "push_message item s =
     (let s1 = (if \<not> is_assistant item
                then s\<lparr>estimated_tokens_since_model := estimated_tokens_since_model s + estimate_item_tokens item\<rparr>
                else s);
          s2 = persist_message item s1
      in s2\<lparr>conversation := conversation s2 @ [item]\<rparr>)"

text \<open>The backward scan of \<open>prune_retained_conversation\<close> on the reversed conversation, with the number
  of results it clears.\<close>

fun retained_loop :: "nat \<Rightarrow> nat \<Rightarrow> bool \<Rightarrow> ConversationItem list \<Rightarrow> ConversationItem list \<times> nat" where
  "retained_loop threshold turn_from_end seen [] = ([], 0)"
| "retained_loop threshold turn_from_end seen (item # rest) =
     (case item of
        User u \<Rightarrow>
          (case retained_loop threshold (if seen then turn_from_end + 1 else turn_from_end) True rest of
             (items, n) \<Rightarrow> (item # items, n))
      | ToolResult t \<Rightarrow>
          (case retained_loop threshold turn_from_end seen rest of
             (items, n) \<Rightarrow>
               if turn_from_end < threshold then (item # items, n)
               else if tr_content t \<noteq> HARD_CLEAR_PLACEHOLDER
               then (ToolResult (t\<lparr>tr_content := HARD_CLEAR_PLACEHOLDER\<rparr>) # items, n + 1)
               else (item # items, n))
      | _ \<Rightarrow> (case retained_loop threshold turn_from_end seen rest of (items, n) \<Rightarrow> (item # items, n)))"

definition prune_retained_conversation :: "ChatStateActor \<Rightarrow> nat \<times> ChatStateActor" where
  "prune_retained_conversation s =
     (if \<not> pruning_enabled (pruning_config s) then (0, s)
      else if cs_prompt_index s < hard_clear_age_turns (pruning_config s) then (0, s)
      else let total_user_items = length (filter is_user (conversation s));
               synthetic_count = total_user_items - cs_prompt_index s;
               threshold = sat_add64 (hard_clear_age_turns (pruning_config s)) synthetic_count;
               (items, cleared) = retained_loop threshold 0 False (rev (conversation s));
               s1 = s\<lparr>conversation := rev items\<rparr>
           in (cleared, if 0 < cleared then replace_history (conversation s1) s1 else s1))"

definition push_user_message_with_repair_reason ::
  "ConversationItem \<Rightarrow> DanglingToolCallReason \<Rightarrow> ChatStateActor \<Rightarrow> ChatStateActor" where
  "push_user_message_with_repair_reason item reason s =
     (let s1 = ensure_conversation_integrity_with_reason reason s;
          s2 = s1\<lparr>estimated_tokens_since_model := estimated_tokens_since_model s1 + estimate_item_tokens item\<rparr>;
          s3 = persist_message item s2;
          s4 = s3\<lparr>conversation := conversation s3 @ [item]\<rparr>
      in snd (prune_retained_conversation s4))"

definition push_user_message :: "ConversationItem \<Rightarrow> ChatStateActor \<Rightarrow> ChatStateActor" where
  "push_user_message item s = push_user_message_with_repair_reason item UserCancelled s"

definition record_token_usage :: "nat \<Rightarrow> ChatStateActor \<Rightarrow> ChatStateActor" where
  "record_token_usage n s =
     send_event (TokensUpdated n)
       (s\<lparr>estimated_tokens_since_model := 0,
          estimate_at_last_response := estimate_conversation_tokens (conversation s), total_tokens := n\<rparr>)"

definition record_last_turn_usage :: "TokenUsage \<Rightarrow> ChatStateActor \<Rightarrow> ChatStateActor" where
  "record_last_turn_usage usage s = s\<lparr>last_turn_usage := Some usage\<rparr>"

definition prompt_ledger :: "ChatStateActor \<Rightarrow> UsageLedger" where
  "prompt_ledger s = (case prompt_usage s of Some l \<Rightarrow> l | None \<Rightarrow> ledger_default)"

definition record_model_call_usage ::
  "rstr option \<Rightarrow> TokenUsage \<Rightarrow> nat option \<Rightarrow> int option \<Rightarrow> ChatStateActor \<Rightarrow> ChatStateActor" where
  "record_model_call_usage mid usage duration cost_ticks s =
     (let model_key = (case mid of Some i \<Rightarrow> if i \<noteq> [] then i else sc_model (sampling_config s)
                                 | None \<Rightarrow> sc_model (sampling_config s))
      in s\<lparr>prompt_usage := Some (record_main_loop_call model_key usage duration cost_ticks (prompt_ledger s)),
           session_usage := record_main_loop_call model_key usage duration cost_ticks (session_usage s)\<rparr>)"

definition record_subagent_usage ::
  "(rstr \<times> UsageTotals) list \<Rightarrow> bool \<Rightarrow> bool \<Rightarrow> ChatStateActor \<Rightarrow> ChatStateActor" where
  "record_subagent_usage entries attribute_to_prompt inc s =
     (if entries = [] \<and> \<not> inc then s
      else let s1 = (if attribute_to_prompt
                     then s\<lparr>prompt_usage := Some (record_subagent entries inc (prompt_ledger s))\<rparr> else s)
           in s1\<lparr>session_usage := record_subagent entries inc (session_usage s1)\<rparr>)"

definition mark_usage_incomplete :: "bool \<Rightarrow> bool \<Rightarrow> ChatStateActor \<Rightarrow> ChatStateActor" where
  "mark_usage_incomplete prompt session s =
     (let s1 = (if prompt then s\<lparr>prompt_usage := Some (mark_incomplete (prompt_ledger s))\<rparr> else s)
      in if session then s1\<lparr>session_usage := mark_incomplete (session_usage s1)\<rparr> else s1)"

definition increment_prompt_index :: "ChatStateActor \<Rightarrow> ChatStateActor" where
  "increment_prompt_index s =
     (let s1 = s\<lparr>prompt_usage := None, cs_prompt_index := cs_prompt_index s + 1\<rparr>
      in send_event (PromptIndexChanged (cs_prompt_index s1)) s1)"

text \<open>\<open>conversation_util.rs\<close>\<close>

definition canonical_system_prompt_eq :: "rstr \<Rightarrow> rstr \<Rightarrow> bool" where
  "canonical_system_prompt_eq a b \<longleftrightarrow> trim_end_chars {10, 13} a = trim_end_chars {10, 13} b"

definition replace_or_insert_system_head :: "ConversationItem list \<Rightarrow> rstr \<Rightarrow> ConversationItem list \<times> bool" where
  "replace_or_insert_system_head conv prompt =
     (case conv of
        System s # rest \<Rightarrow>
          if canonical_system_prompt_eq s prompt then (conv, False) else (System prompt # rest, True)
      | _ \<Rightarrow> (System prompt # conv, True))"

definition replace_system_head :: "rstr \<Rightarrow> ChatStateActor \<Rightarrow> bool \<times> ChatStateActor" where
  "replace_system_head prompt s =
     (if (case conversation s of System t # _ \<Rightarrow> canonical_system_prompt_eq t prompt | _ \<Rightarrow> False) then (False, s)
      else let (conv, chg) = replace_or_insert_system_head (conversation s) prompt
           in (chg, replace_conversation conv False s))"

definition restore_snapshot :: "ChatStateSnapshot \<Rightarrow> ChatStateActor \<Rightarrow> ChatStateActor" where
  "restore_snapshot snap s0 =
     (let s = snapshot_turn_slice s0;
          s1 = rebase_turn_capture_offset (s\<lparr>conversation := sn_conversation snap\<rparr>)
      in s1\<lparr>sampling_config := sn_sampling_config snap,
            cs_prompt_index := sn_prompt_index snap,
            total_tokens := sn_total_tokens snap,
            estimated_tokens_since_model := 0,
            estimate_at_last_response :=
              (if 0 < sn_estimate_at_last_response snap then sn_estimate_at_last_response snap
               else estimate_conversation_tokens (conversation s1)),
            cs_agent_edited_paths := sn_agent_edited_paths snap,
            prompt_texts := sn_prompt_texts snap,
            stream_start_ms := sn_stream_start_ms snap,
            turn_start_ms := sn_turn_start_ms snap,
            last_compaction_prompt_index := sn_last_compaction_prompt_index snap,
            credentials := sn_credentials snap,
            prompt_usage := None\<rparr>)"

definition seal_harness_trace_turn :: "ChatStateActor \<Rightarrow> ChatStateActor" where
  "seal_harness_trace_turn s =
     (if harness_trace_buffer s \<noteq> []
      then s\<lparr>harness_trace_turns := harness_trace_turns s @ [harness_trace_buffer s], harness_trace_buffer := []\<rparr>
      else s)"

section \<open>Request building\<close>

text \<open>\<open>build_conversation_request\<close>; \<open>J\<close> gives the sizes of the JSON encodings. First the reminder that is
  persisted into the state: what is left of it for the request, and the state after.\<close>

definition persist_memory_reminder :: "rstr option \<Rightarrow> bool \<Rightarrow> ChatStateActor \<Rightarrow> rstr option \<times> ChatStateActor" where
  "persist_memory_reminder memory_reminder persist s =
     (case memory_reminder of
        Some reminder \<Rightarrow>
          if persist
          then (let s1 = snapshot_turn_slice s;
                    (conv, injected) = inject_memory_reminder (conversation s1) reminder;
                    s2 = s1\<lparr>conversation := conv\<rparr>;
                    s3 = (if injected then replace_history conv s2 else s2)
                in (if injected then None else Some reminder, rebase_turn_capture_offset s3))
          else (Some reminder, s)
      | None \<Rightarrow> (None, s))"

text \<open>The working copy: images evicted, old results pruned, the reminder injected. The second component
  is the outcome of the eviction.\<close>

definition request_items ::
  "JsonSize \<Rightarrow> bool \<Rightarrow> rstr option \<Rightarrow> nat \<Rightarrow> ChatStateActor \<Rightarrow> ConversationItem list \<times> (nat \<times> nat) option" where
  "request_items J needs_prune memory_reminder body_bytes s =
     (let needs_image_compaction = (IMAGE_COMPACT_TRIGGER_BYTES \<le> body_bytes);
          (items1, eviction) =
            (if needs_image_compaction
             then (case compact_images_to_byte_budget J (conversation s) body_bytes
                          IMAGE_COMPACT_RECLAIM_TARGET_BYTES of
                     (items, outcome) \<Rightarrow> (items, Some outcome))
             else (conversation s, None));
          items2 = (if needs_prune then prune_conversation (pruning_config s) items1 else items1);
          items3 = (case memory_reminder of
                      Some reminder \<Rightarrow> fst (inject_memory_reminder items2 reminder)
                    | None \<Rightarrow> items2)
      in if needs_prune \<or> memory_reminder \<noteq> None \<or> needs_image_compaction then (items3, eviction)
         else (conversation s, None))"

definition build_conversation_request ::
  "JsonSize \<Rightarrow> ToolSpec list \<Rightarrow> rstr option \<Rightarrow> bool \<Rightarrow> rstr \<Rightarrow> rstr \<Rightarrow> ChatStateActor
    \<Rightarrow> ConversationRequest \<times> ChatStateActor" where
  "build_conversation_request J tools memory_reminder0 persist_reminder conv_id req_id s0 =
     (let needs_prune = should_prune (total_tokens s0) (context_window (sampling_config s0));
          (memory_reminder, s) = persist_memory_reminder memory_reminder0 persist_reminder s0;
          body_bytes = conversation_body_bytes J (conversation s);
          inline_images = inline_image_count (conversation s);
          (items, eviction) = request_items J needs_prune memory_reminder body_bytes s;
          s' = (if 0 < inline_images
                then send_event (ImageBudget body_bytes IMAGE_COMPACT_TRIGGER_BYTES
                       IMAGE_COMPACT_RECLAIM_TARGET_BYTES inline_images
                       (IMAGE_COMPACT_TRIGGER_BYTES \<le> body_bytes)
                       (case eviction of Some (evicted, _) \<Rightarrow> evicted | None \<Rightarrow> 0)
                       (case eviction of Some (_, after) \<Rightarrow> after | None \<Rightarrow> body_bytes)) s
                else s)
      in (\<lparr>rq_items = items, rq_tools = tools, rq_model = Some (sc_model (sampling_config s')),
           rq_temperature = temperature (sampling_config s'),
           rq_max_output_tokens = max_completion_tokens (sampling_config s'),
           rq_top_p = top_p (sampling_config s'), x_grok_conv_id = Some conv_id, x_grok_req_id = Some req_id,
           rq_reasoning_effort = sc_reasoning_effort (sampling_config s')\<rparr>, s'))"

section \<open>Queries\<close>

definition get_notification_meta :: "ChatStateActor \<Rightarrow> NotificationMeta" where
  "get_notification_meta s = \<lparr>nm_stream_start_ms = stream_start_ms s, nm_turn_start_ms = turn_start_ms s\<rparr>"

definition snapshot :: "ChatStateActor \<Rightarrow> ChatStateSnapshot" where
  "snapshot s =
     \<lparr>sn_conversation = conversation s, sn_sampling_config = sampling_config s,
      sn_prompt_index = cs_prompt_index s, sn_total_tokens = total_tokens s,
      sn_estimate_at_last_response = estimate_at_last_response s,
      sn_agent_edited_paths = cs_agent_edited_paths s, sn_prompt_texts = prompt_texts s,
      sn_stream_start_ms = stream_start_ms s, sn_turn_start_ms = turn_start_ms s,
      sn_last_compaction_prompt_index = last_compaction_prompt_index s, sn_credentials = credentials s\<rparr>"

text \<open>The position of the \<open>n\<close>-th (from 0) user item, or the end.\<close>

fun nth_user_loop :: "nat \<Rightarrow> nat \<Rightarrow> nat \<Rightarrow> ConversationItem list \<Rightarrow> nat option" where
  "nth_user_loop target user_count i [] = None"
| "nth_user_loop target user_count i (item # rest) =
     (if is_user item
      then (if user_count = target then Some i else nth_user_loop target (user_count + 1) (i + 1) rest)
      else nth_user_loop target user_count (i + 1) rest)"

definition truncate_to_prompt_index :: "nat \<Rightarrow> ChatStateActor \<Rightarrow> ChatStateActor" where
  "truncate_to_prompt_index target s =
     (if cs_prompt_index s \<le> target then s
      else let truncate_at = (case nth_user_loop target 0 0 (conversation s) of
                                Some i \<Rightarrow> i | None \<Rightarrow> length (conversation s));
               conv = take truncate_at (conversation s);
               tokens = estimate_conversation_tokens conv;
               s1 = s\<lparr>conversation := conv, prompt_texts := take target (prompt_texts s),
                      cs_prompt_index := target, total_tokens := tokens,
                      estimated_tokens_since_model := 0, estimate_at_last_response := tokens\<rparr>
           in send_event (ConversationReset (length conv)) (replace_history conv s1))"

definition check_auto_compact_needed :: "nat \<Rightarrow> ChatStateActor \<Rightarrow> AutoCompactTrigger option" where
  "check_auto_compact_needed threshold_percent s =
     (let cw = context_window (sampling_config s)
      in if exceeds_threshold (total_tokens s) cw threshold_percent
         then Some \<lparr>trigger_tokens = total_tokens s, trigger_window = cw,
                    utilization_percent = usage_percentage_truncated_u8 (total_tokens s) cw\<rparr>
         else None)"

fun find_map :: "('a \<Rightarrow> 'b option) \<Rightarrow> 'a list \<Rightarrow> 'b option" where
  "find_map f [] = None"
| "find_map f (x # xs) = (case f x of Some y \<Rightarrow> Some y | None \<Rightarrow> find_map f xs)"

definition get_last_model_metadata :: "ChatStateActor \<Rightarrow> ModelMetadata" where
  "get_last_model_metadata s =
     (case find_map (\<lambda>item. case item of
                        Assistant a \<Rightarrow> Some \<lparr>resolved_model_id = model_id a, md_model_fingerprint = model_fingerprint a\<rparr>
                      | _ \<Rightarrow> None) (rev (conversation s)) of
        Some md \<Rightarrow> md
      | None \<Rightarrow> \<lparr>resolved_model_id = None, md_model_fingerprint = None\<rparr>)"

definition get_last_assistant_text :: "ChatStateActor \<Rightarrow> rstr option" where
  "get_last_assistant_text s =
     find_map (\<lambda>item. case item of
                 Assistant a \<Rightarrow> if trim (a_content a) \<noteq> [] then Some (a_content a) else None
               | _ \<Rightarrow> None) (rev (conversation s))"

definition get_first_user_text :: "ChatStateActor \<Rightarrow> rstr option" where
  "get_first_user_text s =
     find_map (\<lambda>item. case item of
                 User u \<Rightarrow> (case u_content u of Text t # _ \<Rightarrow> Some t | _ \<Rightarrow> None)
               | _ \<Rightarrow> None) (conversation s)"

definition get_conversation_item_at :: "nat \<Rightarrow> ChatStateActor \<Rightarrow> ConversationItem option" where
  "get_conversation_item_at i s = (if i < length (conversation s) then Some (conversation s ! i) else None)"

definition get_last_user_query_text :: "ChatStateActor \<Rightarrow> rstr option" where
  "get_last_user_query_text s = extract_last_user_query (conversation s)"

definition get_conversation_counts :: "ChatStateActor \<Rightarrow> ConversationCounts" where
  "get_conversation_counts s =
     \<lparr>count_total = length (conversation s), count_user = length (filter is_user (conversation s)),
      count_assistant = length (filter is_assistant (conversation s)),
      count_tool_result = length (filter is_tool_result (conversation s))\<rparr>"

definition get_system_message :: "ChatStateActor \<Rightarrow> ConversationItem option" where
  "get_system_message s = List.find is_system (conversation s)"

definition take_turn_messages :: "ChatStateActor \<Rightarrow> TurnCapture option \<times> ChatStateActor" where
  "take_turn_messages s =
     (map_option (\<lambda>cap. \<lparr>messages = pre_replacement_messages cap
                                   @ turn_tail (conversation s) (turn_start_offset cap),
                        tc_compaction_occurred = compaction_occurred cap\<rparr>) (turn_capture s),
      s\<lparr>turn_capture := None\<rparr>)"

section \<open>Commands\<close>

datatype ChatStateCommand =
    PushUserMessage ConversationItem
  | PushUserMessageAndAck ConversationItem
  | PushUserMessageWithRepairReason ConversationItem DanglingToolCallReason
  | PushAssistantResponse ConversationItem
  | PushToolResult ConversationItem
  | RecordTokenUsage nat
  | RecordLastTurnUsage TokenUsage
  | RecordModelCallUsage "rstr option" TokenUsage "nat option" "int option"
  | RecordSubagentUsage "(rstr \<times> UsageTotals) list" bool bool
  | MarkUsageIncomplete bool bool
  | IncrementPromptIndex
  | UpdateSamplingConfig SamplingConfig
  | RecordAgentEditedPath rstr
  | RecordStreamStart int
  | RecordTurnStart int
  | ReplaceConversation "ConversationItem list" bool
  | RepairHistory bool "bool option"
  | ReplaceSystemHead rstr
  | CachePromptText rstr
  | RecordCompactionAt nat
  | Flush
  | UpdateCredentials Credentials
  | RestoreSnapshot ChatStateSnapshot
  | BeginTurnCapture
  | AppendHarnessTraceItems "ConversationItem list"
  | FlushHarnessTraceTurn
  | RepairDanglingAfterHarnessHalt rstr
  | BuildConversationRequest "ToolSpec list" "rstr option" bool rstr rstr
  | GetConversation
  | GetPromptIndex
  | GetLastCompactionPromptIndex
  | GetTotalTokens
  | GetLastTurnUsage
  | GetPromptUsage
  | GetSessionUsage
  | GetEstimatedTotalTokens
  | GetEstimatedMessagesTokens
  | GetSamplingConfig
  | GetAgentEditedPaths
  | GetNotificationMeta
  | Snapshot
  | TruncateToPromptIndex nat
  | CheckAutoCompactNeeded nat
  | GetCredentials
  | GetLastModelMetadata
  | TakeTurnMessages
  | TakeHarnessTraceTurns
  | GetConversationLen
  | HasDanglingToolCalls
  | GetLastAssistantText
  | GetFirstUserText
  | GetConversationItemAt nat
  | GetLastUserQueryText
  | GetConversationCounts
  | GetSystemMessage

text \<open>What a command sends on its reply channel; \<open>NoReply\<close> for fire-and-forget commands.\<close>

datatype Reply =
    NoReply
  | Ack
  | RepairReply "HistoryRepairReport option"
  | BoolReply bool
  | NatReply nat
  | OptNatReply "nat option"
  | TextReply "rstr option"
  | ItemReply "ConversationItem option"
  | ItemsReply "ConversationItem list"
  | TurnsReply "ConversationItem list list"
  | RequestReply ConversationRequest
  | UsageReply "TokenUsage option"
  | PromptLedgerReply "UsageLedger option"
  | LedgerReply UsageLedger
  | ConfigReply SamplingConfig
  | PathsReply "rstr set"
  | MetaReply NotificationMeta
  | SnapshotReply ChatStateSnapshot
  | TriggerReply "AutoCompactTrigger option"
  | CredentialsReply Credentials
  | ModelReply ModelMetadata
  | CaptureReply "TurnCapture option"
  | CountsReply ConversationCounts

fun handle_command :: "JsonSize \<Rightarrow> ChatStateCommand \<Rightarrow> ChatStateActor \<Rightarrow> Reply \<times> ChatStateActor" where
  "handle_command J (PushUserMessage item) s = (NoReply, push_user_message item s)"
| "handle_command J (PushUserMessageAndAck item) s = (Ack, push_user_message item s)"
| "handle_command J (PushUserMessageWithRepairReason item reason) s =
     (NoReply, push_user_message_with_repair_reason item reason s)"
| "handle_command J (PushAssistantResponse item) s = (NoReply, push_message item s)"
| "handle_command J (PushToolResult item) s = (NoReply, push_message item s)"
| "handle_command J (RecordTokenUsage n) s = (NoReply, record_token_usage n s)"
| "handle_command J (RecordLastTurnUsage u) s = (NoReply, record_last_turn_usage u s)"
| "handle_command J (RecordModelCallUsage m u d c) s = (NoReply, record_model_call_usage m u d c s)"
| "handle_command J (RecordSubagentUsage es attr inc) s = (Ack, record_subagent_usage es attr inc s)"
| "handle_command J (MarkUsageIncomplete p q) s = (Ack, mark_usage_incomplete p q s)"
| "handle_command J IncrementPromptIndex s = (NoReply, increment_prompt_index s)"
| "handle_command J (UpdateSamplingConfig c) s = (NoReply, s\<lparr>sampling_config := c\<rparr>)"
| "handle_command J (RecordAgentEditedPath p) s =
     (NoReply, s\<lparr>cs_agent_edited_paths := insert p (cs_agent_edited_paths s)\<rparr>)"
| "handle_command J (RecordStreamStart t) s = (NoReply, s\<lparr>stream_start_ms := Some t\<rparr>)"
| "handle_command J (RecordTurnStart t) s = (NoReply, s\<lparr>turn_start_ms := Some t\<rparr>)"
| "handle_command J (ReplaceConversation items is_comp) s = (NoReply, replace_conversation items is_comp s)"
| "handle_command J (RepairHistory dry_run turn_active) s =
     (let blocked = (case turn_active of Some b \<Rightarrow> b | None \<Rightarrow> False)
      in if blocked then (RepairReply None, s)
         else case actor_repair_history dry_run s of (report, s') \<Rightarrow> (RepairReply (Some report), s'))"
| "handle_command J (ReplaceSystemHead prompt) s =
     (case replace_system_head prompt s of (chg, s') \<Rightarrow> (BoolReply chg, s'))"
| "handle_command J (CachePromptText t) s = (NoReply, s\<lparr>prompt_texts := prompt_texts s @ [t]\<rparr>)"
| "handle_command J (RecordCompactionAt i) s = (NoReply, s\<lparr>last_compaction_prompt_index := Some i\<rparr>)"
| "handle_command J Flush s = (NoReply, s\<lparr>persistence := persistence s @ [FlushRecord]\<rparr>)"
| "handle_command J (UpdateCredentials c) s = (NoReply, s\<lparr>credentials := c\<rparr>)"
| "handle_command J (RestoreSnapshot snap) s = (NoReply, restore_snapshot snap s)"
| "handle_command J BeginTurnCapture s =
     (NoReply, s\<lparr>turn_capture := Some \<lparr>turn_start_offset = length (conversation s),
                   pre_replacement_messages = [], compaction_occurred = False\<rparr>\<rparr>)"
| "handle_command J (AppendHarnessTraceItems items) s =
     (NoReply, s\<lparr>harness_trace_buffer := harness_trace_buffer s @ items\<rparr>)"
| "handle_command J FlushHarnessTraceTurn s = (NoReply, seal_harness_trace_turn s)"
| "handle_command J (RepairDanglingAfterHarnessHalt cls) s = (NoReply, repair_dangling_after_harness_halt cls s)"
| "handle_command J (BuildConversationRequest tools reminder persist conv_id req_id) s =
     (case build_conversation_request J tools reminder persist conv_id req_id (ensure_conversation_integrity s) of
        (request, s') \<Rightarrow> (RequestReply request, s'))"
| "handle_command J GetConversation s = (ItemsReply (conversation s), s)"
| "handle_command J GetPromptIndex s = (NatReply (cs_prompt_index s), s)"
| "handle_command J GetLastCompactionPromptIndex s = (OptNatReply (last_compaction_prompt_index s), s)"
| "handle_command J GetTotalTokens s = (NatReply (total_tokens s), s)"
| "handle_command J GetLastTurnUsage s = (UsageReply (last_turn_usage s), s)"
| "handle_command J GetPromptUsage s = (PromptLedgerReply (prompt_usage s), s)"
| "handle_command J GetSessionUsage s = (LedgerReply (session_usage s), s)"
| "handle_command J GetEstimatedTotalTokens s = (NatReply (total_tokens s + estimated_tokens_since_model s), s)"
| "handle_command J GetEstimatedMessagesTokens s = (NatReply (estimate_messages_tokens (conversation s)), s)"
| "handle_command J GetSamplingConfig s = (ConfigReply (sampling_config s), s)"
| "handle_command J GetAgentEditedPaths s = (PathsReply (cs_agent_edited_paths s), s)"
| "handle_command J GetNotificationMeta s = (MetaReply (get_notification_meta s), s)"
| "handle_command J Snapshot s = (SnapshotReply (snapshot s), s)"
| "handle_command J (TruncateToPromptIndex target) s =
     (Ack, (truncate_to_prompt_index target s)\<lparr>turn_capture := None, prompt_usage := None\<rparr>)"
| "handle_command J (CheckAutoCompactNeeded p) s = (TriggerReply (check_auto_compact_needed p s), s)"
| "handle_command J GetCredentials s = (CredentialsReply (credentials s), s)"
| "handle_command J GetLastModelMetadata s = (ModelReply (get_last_model_metadata s), s)"
| "handle_command J TakeTurnMessages s =
     (case take_turn_messages s of (result, s') \<Rightarrow> (CaptureReply result, s'))"
| "handle_command J TakeHarnessTraceTurns s =
     (let s1 = seal_harness_trace_turn s in (TurnsReply (harness_trace_turns s1), s1\<lparr>harness_trace_turns := []\<rparr>))"
| "handle_command J GetConversationLen s = (NatReply (length (conversation s)), s)"
| "handle_command J HasDanglingToolCalls s = (BoolReply (has_dangling_tool_calls (conversation s)), s)"
| "handle_command J GetLastAssistantText s = (TextReply (get_last_assistant_text s), s)"
| "handle_command J GetFirstUserText s = (TextReply (get_first_user_text s), s)"
| "handle_command J (GetConversationItemAt i) s = (ItemReply (get_conversation_item_at i s), s)"
| "handle_command J GetLastUserQueryText s = (TextReply (get_last_user_query_text s), s)"
| "handle_command J GetConversationCounts s = (CountsReply (get_conversation_counts s), s)"
| "handle_command J GetSystemMessage s = (ItemReply (get_system_message s), s)"

text \<open>The actor's loop over the commands it receives.\<close>

definition run_commands :: "JsonSize \<Rightarrow> ChatStateCommand list \<Rightarrow> ChatStateActor \<Rightarrow> ChatStateActor" where
  "run_commands J cmds s = fold (\<lambda>cmd s. snd (handle_command J cmd s)) cmds s"

end
