(* ===== verification/Chat_Capture.thy ===== *)
theory Chat_Capture
  imports Chat_State
begin

text \<open>
  Turn capture in the chat-state actor: what \<open>TakeTurnMessages\<close> returns after any commands inside a
  turn, although repairs, compactions and restores move the conversation under the captured offset.
\<close>

section \<open>What a turn has captured\<close>

definition captured :: "ChatStateActor \<Rightarrow> (ConversationItem list \<times> bool) option" where
  "captured s = map_option (\<lambda>cap. (pre_replacement_messages cap
     @ turn_tail (conversation s) (turn_start_offset cap), compaction_occurred cap)) (turn_capture s)"

definition capture_ok :: "ChatStateActor \<Rightarrow> bool" where
  "capture_ok s \<longleftrightarrow> (case turn_capture s of
     Some cap \<Rightarrow> turn_start_offset cap \<le> length (conversation s) | None \<Rightarrow> True)"

lemma turn_tail_all [simp]: "turn_tail conv (length conv) = []"
  by (simp add: turn_tail_def)

lemma captured_cong:
  "conversation t = conversation s \<Longrightarrow> turn_capture t = turn_capture s \<Longrightarrow> captured t = captured s"
  "conversation t = conversation s \<Longrightarrow> turn_capture t = turn_capture s \<Longrightarrow> capture_ok t = capture_ok s"
  by (auto simp: captured_def capture_ok_def split: option.splits)

lemma log_fields [simp]:
  "conversation (replace_history items s) = conversation s" "turn_capture (replace_history items s) = turn_capture s"
  "conversation (persist_message item s) = conversation s" "turn_capture (persist_message item s) = turn_capture s"
  "conversation (send_event e s) = conversation s" "turn_capture (send_event e s) = turn_capture s"
  by (simp_all add: replace_history_def persist_message_def send_event_def)

lemma snapshot_fields [simp]: "conversation (snapshot_turn_slice s) = conversation s"
  by (simp add: snapshot_turn_slice_def split: option.split)

lemma rebase_fields [simp]: "conversation (rebase_turn_capture_offset s) = conversation s"
  by (simp add: rebase_turn_capture_offset_def split: option.split)

text \<open>Saving the tail, changing the conversation and re-basing the offset captures nothing and loses
  nothing.\<close>

lemma captured_swap:
  assumes "turn_capture t = turn_capture (snapshot_turn_slice s)"
  shows "captured (rebase_turn_capture_offset t) = captured s" "capture_ok (rebase_turn_capture_offset t)"
  using assms
  by (auto simp: captured_def capture_ok_def rebase_turn_capture_offset_def snapshot_turn_slice_def
      split: option.splits)

lemma captured_push:
  assumes "capture_ok s" "conversation t = conversation s @ [item]" "turn_capture t = turn_capture s"
  shows "captured t = map_option (\<lambda>(ms, c). (ms @ [item], c)) (captured s)" "capture_ok t"
  using assms by (auto simp: captured_def capture_ok_def turn_tail_def split: option.splits)

lemma integrity_captured:
  "captured (ensure_conversation_integrity_with_reason reason s) = captured s"
  "capture_ok (ensure_conversation_integrity_with_reason reason s)"
  unfolding ensure_conversation_integrity_with_reason_def Let_def split_beta
  by (rule captured_swap [of _ s]; simp)+

lemma integrity_tail:
  "turn_capture (ensure_conversation_integrity_with_reason reason s) = Some cap \<Longrightarrow>
   turn_start_offset cap = length (conversation (ensure_conversation_integrity_with_reason reason s))"
  by (auto simp: ensure_conversation_integrity_with_reason_def Let_def split_beta rebase_turn_capture_offset_def
      split: option.splits)

lemma replace_captured:
  "captured (replace_conversation items is_comp s) = map_option (\<lambda>(ms, c). (ms, c \<or> is_comp)) (captured s)"
  "capture_ok (replace_conversation items is_comp s)"
  unfolding replace_conversation_def Let_def
  by (auto simp: captured_def capture_ok_def rebase_turn_capture_offset_def snapshot_turn_slice_def
      split: option.splits)

section \<open>Pruning touches old tool results only\<close>

lemma retained_loop_skeleton: "map skeleton (fst (retained_loop th n seen xs)) = map skeleton xs"
proof (induction xs arbitrary: n seen)
  case (Cons x xs)
  then show ?case by (cases x) (auto simp: skeleton_def split_beta)
qed simp

lemma retained_loop_length [simp]: "length (fst (retained_loop th n seen xs)) = length xs"
  using retained_loop_skeleton by (metis length_map)

lemma retained_loop_others: "others (fst (retained_loop th n seen xs)) = others xs"
proof (induction xs arbitrary: n seen)
  case (Cons x xs)
  then show ?case by (cases x) (auto simp: split_beta)
qed simp

lemma retained_loop_none: "snd (retained_loop th n seen xs) = 0 \<Longrightarrow> fst (retained_loop th n seen xs) = xs"
proof (induction xs arbitrary: n seen)
  case (Cons x xs)
  then show ?case by (cases x) (auto simp: split_beta split: if_splits)
qed simp

lemma retained_loop_hd:
  "\<not> is_tool_result x \<Longrightarrow> \<exists>ys. fst (retained_loop th n seen (x # xs)) = x # ys"
  by (cases x) (auto simp: split_beta)

lemma prune_retained_cases:
  obtains "snd (prune_retained_conversation s) = s"
  | th where "conversation (snd (prune_retained_conversation s)) =
        rev (fst (retained_loop th 0 False (rev (conversation s))))"
      "turn_capture (snd (prune_retained_conversation s)) = turn_capture s"
proof (cases "\<not> pruning_enabled (pruning_config s) \<or> cs_prompt_index s < hard_clear_age_turns (pruning_config s)")
  case True
  then show ?thesis using that(1) by (auto simp: prune_retained_conversation_def)
next
  case False
  then show ?thesis
    using that(2) [of "sat_add64 (hard_clear_age_turns (pruning_config s))
        (length (filter is_user (conversation s)) - cs_prompt_index s)"]
    by (simp add: prune_retained_conversation_def Let_def split_beta)
qed

lemma prune_retained_captured:
  assumes "conversation s = conv @ [item]" "\<not> is_tool_result item"
    "\<And>cap. turn_capture s = Some cap \<Longrightarrow> turn_start_offset cap = length conv"
  shows "captured (snd (prune_retained_conversation s)) = captured s"
    "capture_ok (snd (prune_retained_conversation s))"
proof -
  have "captured (snd (prune_retained_conversation s)) = captured s \<and> capture_ok (snd (prune_retained_conversation s))"
  proof (cases rule: prune_retained_cases [of s])
    case 1
    with assms show ?thesis by (auto simp: capture_ok_def split: option.splits)
  next
    case (2 th)
    obtain ys where ys: "fst (retained_loop th 0 False (rev (conversation s))) = item # ys"
      using retained_loop_hd [OF assms(2)] assms(1) by fastforce
    have "length (item # ys) = Suc (length conv)"
      unfolding ys [symmetric] retained_loop_length by (simp add: assms(1))
    then have "length ys = length conv" by simp
    with 2 ys assms(1,3) show ?thesis
      by (auto simp: captured_def capture_ok_def turn_tail_def split: option.splits)
  qed
  then show "captured (snd (prune_retained_conversation s)) = captured s"
    "capture_ok (snd (prune_retained_conversation s))" by simp_all
qed

section \<open>The dispatcher\<close>

text \<open>The items a command pushes, the commands that compact, and those that belong inside a turn: all
  but the ones that begin, take or abandon a capture, a user push of a bare tool result, and an
  unblocked history repair.\<close>

fun pushed :: "ChatStateCommand \<Rightarrow> ConversationItem list" where
  "pushed (PushUserMessage item) = [item]"
| "pushed (PushUserMessageAndAck item) = [item]"
| "pushed (PushUserMessageWithRepairReason item _) = [item]"
| "pushed (PushAssistantResponse item) = [item]"
| "pushed (PushToolResult item) = [item]"
| "pushed _ = []"

fun compacts :: "ChatStateCommand \<Rightarrow> bool" where
  "compacts (ReplaceConversation _ is_comp) = is_comp"
| "compacts _ = False"

fun within_turn :: "ChatStateCommand \<Rightarrow> bool" where
  "within_turn (PushUserMessage item) = (\<not> is_tool_result item)"
| "within_turn (PushUserMessageAndAck item) = (\<not> is_tool_result item)"
| "within_turn (PushUserMessageWithRepairReason item _) = (\<not> is_tool_result item)"
| "within_turn (RepairHistory dry_run turn_active) = (dry_run \<or> turn_active = Some True)"
| "within_turn BeginTurnCapture = False"
| "within_turn TakeTurnMessages = False"
| "within_turn (TruncateToPromptIndex _) = False"
| "within_turn _ = True"

lemma push_user_captured:
  assumes "\<not> is_tool_result item"
  shows "captured (push_user_message_with_repair_reason item reason s) =
      map_option (\<lambda>(ms, c). (ms @ [item], c)) (captured s)"
    "capture_ok (push_user_message_with_repair_reason item reason s)"
proof -
  let ?s1 = "ensure_conversation_integrity_with_reason reason s"
  define s4 where "s4 = (let s2 = ?s1\<lparr>estimated_tokens_since_model := estimated_tokens_since_model ?s1
      + estimate_item_tokens item\<rparr>; s3 = persist_message item s2 in s3\<lparr>conversation := conversation s3 @ [item]\<rparr>)"
  have s4: "conversation s4 = conversation ?s1 @ [item]" "turn_capture s4 = turn_capture ?s1"
    by (simp_all add: s4_def Let_def)
  have "captured s4 = map_option (\<lambda>(ms, c). (ms @ [item], c)) (captured s)"
    using captured_push(1) [OF integrity_captured(2) s4] by (simp add: integrity_captured(1))
  moreover have "push_user_message_with_repair_reason item reason s = snd (prune_retained_conversation s4)"
    by (simp add: push_user_message_with_repair_reason_def s4_def Let_def)
  moreover note prune_retained_captured [OF s4(1) assms] integrity_tail s4(2)
  ultimately show "captured (push_user_message_with_repair_reason item reason s) =
      map_option (\<lambda>(ms, c). (ms @ [item], c)) (captured s)"
    "capture_ok (push_user_message_with_repair_reason item reason s)" by simp_all
qed

lemma push_message_captured:
  assumes "capture_ok s"
  shows "captured (push_message item s) = map_option (\<lambda>(ms, c). (ms @ [item], c)) (captured s)"
    "capture_ok (push_message item s)"
proof -
  have "conversation (push_message item s) = conversation s @ [item]"
    "turn_capture (push_message item s) = turn_capture s"
    by (cases "is_assistant item"; simp add: push_message_def Let_def)+
  from captured_push [OF assms this]
  show "captured (push_message item s) = map_option (\<lambda>(ms, c). (ms @ [item], c)) (captured s)"
    "capture_ok (push_message item s)" .
qed

lemma persist_reminder_captured:
  assumes "capture_ok s"
  shows "captured (snd (persist_memory_reminder rem p s)) = captured s"
    "capture_ok (snd (persist_memory_reminder rem p s))"
proof -
  have "captured (snd (persist_memory_reminder rem p s)) = captured s \<and>
      capture_ok (snd (persist_memory_reminder rem p s))"
  proof (cases "\<exists>r. rem = Some r \<and> p")
    case True
    then obtain r where r: "rem = Some r" p by blast
    obtain conv inj where ci: "inject_memory_reminder (conversation s) r = (conv, inj)" by fastforce
    have "snd (persist_memory_reminder rem p s) = rebase_turn_capture_offset
        (if inj then replace_history conv ((snapshot_turn_slice s)\<lparr>conversation := conv\<rparr>)
         else (snapshot_turn_slice s)\<lparr>conversation := conv\<rparr>)"
      by (simp add: persist_memory_reminder_def r ci)
    then show ?thesis
      using captured_swap [of "if inj then replace_history conv ((snapshot_turn_slice s)\<lparr>conversation := conv\<rparr>)
         else (snapshot_turn_slice s)\<lparr>conversation := conv\<rparr>" s] by simp
  next
    case False
    then show ?thesis using assms by (cases rem) (auto simp: persist_memory_reminder_def)
  qed
  then show "captured (snd (persist_memory_reminder rem p s)) = captured s"
    "capture_ok (snd (persist_memory_reminder rem p s))" by simp_all
qed

lemma build_request_state:
  "\<exists>es. snd (build_conversation_request J tools rem p c r s) =
     events_update (\<lambda>e. e @ es) (snd (persist_memory_reminder rem p s))"
proof -
  have "\<exists>es. (if b then send_event e t else t) = events_update (\<lambda>x. x @ es) t" for b e and t :: ChatStateActor
    by (cases b) (auto simp: send_event_def intro: exI [of _ "[e]"] exI [of _ "[]"])
  then show ?thesis by (simp add: build_conversation_request_def Let_def split_beta)
qed

lemma build_request_captured:
  assumes "capture_ok s"
  shows "captured (snd (build_conversation_request J tools rem p c r s)) = captured s"
    "capture_ok (snd (build_conversation_request J tools rem p c r s))"
proof -
  obtain es where "snd (build_conversation_request J tools rem p c r s) =
      events_update (\<lambda>e. e @ es) (snd (persist_memory_reminder rem p s))" using build_request_state by blast
  then show "captured (snd (build_conversation_request J tools rem p c r s)) = captured s"
    "capture_ok (snd (build_conversation_request J tools rem p c r s))"
    using persist_reminder_captured [OF assms]
      captured_cong [of "events_update (\<lambda>e. e @ es) (snd (persist_memory_reminder rem p s))"] by simp_all
qed

lemma restore_captured:
  "captured (restore_snapshot snap s) = captured s" "capture_ok (restore_snapshot snap s)"
proof -
  let ?s1 = "rebase_turn_capture_offset ((snapshot_turn_slice s)\<lparr>conversation := sn_conversation snap\<rparr>)"
  have "conversation (restore_snapshot snap s) = conversation ?s1"
    "turn_capture (restore_snapshot snap s) = turn_capture ?s1"
    by (simp_all add: restore_snapshot_def Let_def)
  from captured_cong [OF this]
  show "captured (restore_snapshot snap s) = captured s" "capture_ok (restore_snapshot snap s)"
    using captured_swap [of "(snapshot_turn_slice s)\<lparr>conversation := sn_conversation snap\<rparr>" s] by simp_all
qed

lemma map_option_nothing [simp]: "map_option (\<lambda>(ms, c). (ms, c)) x = x" "map_option id x = x"
  by (cases x; auto)+

lemma system_head_captured:
  assumes "capture_ok s"
  shows "captured (snd (replace_system_head prompt s)) = captured s"
    "capture_ok (snd (replace_system_head prompt s))"
  using assms replace_captured [of _ False s]
  by (auto simp: replace_system_head_def split_beta Let_def)

text \<open>The commands that touch the conversation or the capture; the others change neither, nor what is
  on disk.\<close>

fun loud :: "ChatStateCommand \<Rightarrow> bool" where
  "loud (PushUserMessage _) = True"
| "loud (PushUserMessageAndAck _) = True"
| "loud (PushUserMessageWithRepairReason _ _) = True"
| "loud (PushAssistantResponse _) = True"
| "loud (PushToolResult _) = True"
| "loud (ReplaceConversation _ _) = True"
| "loud (RepairHistory _ _) = True"
| "loud (ReplaceSystemHead _) = True"
| "loud (RestoreSnapshot _) = True"
| "loud BeginTurnCapture = True"
| "loud (RepairDanglingAfterHarnessHalt _) = True"
| "loud (BuildConversationRequest _ _ _ _ _) = True"
| "loud (TruncateToPromptIndex _) = True"
| "loud TakeTurnMessages = True"
| "loud _ = False"

fun disk_step :: "PersistenceRecord \<Rightarrow> ConversationItem list \<Rightarrow> ConversationItem list" where
  "disk_step (Message item) d = d @ [item]"
| "disk_step (ReplaceHistory items) d = items"
| "disk_step FlushRecord d = d"

definition on_disk :: "ConversationItem list \<Rightarrow> ChatStateActor \<Rightarrow> ConversationItem list" where
  "on_disk d s = fold disk_step (persistence s) d"

lemma quiet_fields:
  assumes "\<not> loud cmd"
  shows "conversation (snd (handle_command J cmd s)) = conversation s"
    "turn_capture (snd (handle_command J cmd s)) = turn_capture s"
    "on_disk d (snd (handle_command J cmd s)) = on_disk d s"
    "pushed cmd = []" "\<not> compacts cmd"
  using assms
  by (cases cmd; simp add: record_token_usage_def record_last_turn_usage_def record_model_call_usage_def
      record_subagent_usage_def mark_usage_incomplete_def increment_prompt_index_def
      seal_harness_trace_turn_def send_event_def on_disk_def Let_def)+

lemma handle_captured:
  assumes "capture_ok s" "within_turn cmd"
  shows "captured (snd (handle_command J cmd s)) =
      map_option (\<lambda>(ms, c). (ms @ pushed cmd, c \<or> compacts cmd)) (captured s)
    \<and> capture_ok (snd (handle_command J cmd s))"
proof (cases "loud cmd")
  case False
  with captured_cong [OF quiet_fields(1,2) [OF False, of J s]] quiet_fields(4,5) [OF False] assms(1)
  show ?thesis by simp
next
  case True
  have ok: "capture_ok (ensure_conversation_integrity s)" "captured (ensure_conversation_integrity s) = captured s"
    by (simp_all add: ensure_conversation_integrity_def integrity_captured)
  note request = build_request_captured [OF ok(1)] ok(2)
  show ?thesis
  proof (cases cmd)
    case (RepairHistory dry_run turn_active)
    with assms(2) have "snd (handle_command J cmd s) = s"
      by (auto simp: actor_repair_history_def split: option.splits)
    with assms(1) RepairHistory show ?thesis by simp
  qed (use True assms request in \<open>simp_all add: push_user_message_def push_user_captured push_message_captured
      replace_captured restore_captured system_head_captured repair_dangling_after_harness_halt_def
      integrity_captured split_beta\<close>)
qed

lemma run_commands_simps [simp]:
  "run_commands J [] s = s"
  "run_commands J (cmd # cmds) s = run_commands J cmds (snd (handle_command J cmd s))"
  by (simp_all add: run_commands_def)

lemma run_captured:
  "capture_ok s \<Longrightarrow> list_all within_turn cmds \<Longrightarrow>
   captured (run_commands J cmds s) =
     map_option (\<lambda>(ms, c). (ms @ concat (map pushed cmds), c \<or> list_ex compacts cmds)) (captured s)"
proof (induction cmds arbitrary: s)
  case (Cons cmd cmds)
  then have h: "captured (snd (handle_command J cmd s)) =
      map_option (\<lambda>(ms, c). (ms @ pushed cmd, c \<or> compacts cmd)) (captured s)"
    "capture_ok (snd (handle_command J cmd s))" using handle_captured by simp_all
  from Cons.IH [OF h(2)] Cons.prems(2) show ?case
    by (simp add: h(1) option.map_comp comp_def split_beta)
qed simp

lemma take_turn_messages_captured:
  "fst (take_turn_messages s) = map_option (\<lambda>(ms, c). \<lparr>messages = ms, tc_compaction_occurred = c\<rparr>) (captured s)"
  by (simp add: take_turn_messages_def captured_def option.map_comp comp_def)

text \<open>C4. A turn capture is exact: after \<open>BeginTurnCapture\<close>, whatever commands the actor processes inside
  the turn (user pushes with their repairs and pruning, assistant and tool-result pushes, compactions
  and other replacements of the conversation, snapshot restores, system-prompt swaps, request building
  with a persisted memory reminder, dry-run or refused history repairs, and every query),
  \<open>TakeTurnMessages\<close> returns exactly the items pushed, in order, and says whether one of the
  replacements was a compaction.\<close>

theorem turn_capture_exact:
  assumes "list_all within_turn cmds"
  shows "fst (handle_command J TakeTurnMessages
      (run_commands J cmds (snd (handle_command J BeginTurnCapture s)))) =
    CaptureReply (Some \<lparr>messages = concat (map pushed cmds), tc_compaction_occurred = list_ex compacts cmds\<rparr>)"
proof -
  let ?b = "snd (handle_command J BeginTurnCapture s)"
  have b: "capture_ok ?b" "captured ?b = Some ([], False)"
    by (simp_all add: capture_ok_def captured_def)
  show ?thesis
    using run_captured [OF b(1) assms] take_turn_messages_captured
    by (simp add: b(2) split_beta del: handle_command.simps(24))
qed

definition no_sizes :: JsonSize where
  "no_sizes = \<lparr>items_json = (\<lambda>_. 0), part_json = (\<lambda>_. 0)\<rparr>"

definition sample_config :: SamplingConfig where
  "sample_config = \<lparr>base_url = [], sc_model = lit ''grok'', max_completion_tokens = None, temperature = None,
     top_p = None, api_backend = Responses, extra_headers = [], context_window = 128000,
     sc_reasoning_effort = None, stream_tool_calls = None\<rparr>"

definition sample_actor :: ChatStateActor where
  "sample_actor = spawn_with_pruning [] sample_config pruning_default"

theorem turn_capture_exact_witness:
  "fst (handle_command no_sizes TakeTurnMessages
     (run_commands no_sizes [PushUserMessage (user (lit ''hi'')), ReplaceConversation [System []] True,
        PushAssistantResponse (assistant (lit ''ok''))]
      (snd (handle_command no_sizes BeginTurnCapture sample_actor)))) =
   CaptureReply (Some \<lparr>messages = [user (lit ''hi''), assistant (lit ''ok'')], tc_compaction_occurred = True\<rparr>)"
  using turn_capture_exact [of "[PushUserMessage (user (lit ''hi'')), ReplaceConversation [System []] True,
      PushAssistantResponse (assistant (lit ''ok''))]" no_sizes sample_actor]
  by (simp add: user_def)

text \<open>A history repair that is not a dry run and is not refused drops what the turn has captured since
  its last replacement: the handler takes the conversation out of the state before the replacement
  saves the captured tail, so the tail it saves is empty. (A sibling handler clones the conversation
  for exactly this reason.)\<close>

theorem history_repair_drops_turn_tail:
  assumes "changed (snd (repair_history (conversation s)))" "turn_capture s = Some cap"
  shows "captured (snd (handle_command J (RepairHistory False None) s))
    = Some (pre_replacement_messages cap, compaction_occurred cap)"
proof -
  have "turn_tail [] n = []" for n by (simp add: turn_tail_def)
  then have "captured (s\<lparr>conversation := []\<rparr>) = Some (pre_replacement_messages cap, compaction_occurred cap)"
    using assms(2) by (simp add: captured_def)
  then show ?thesis
    using assms(1) replace_captured(1) [of _ False "s\<lparr>conversation := []\<rparr>"]
    by (simp add: actor_repair_history_def Let_def split_beta)
qed

theorem history_repair_drops_turn_tail_witness:
  "captured (snd (handle_command no_sizes (RepairHistory False None)
     (sample_actor\<lparr>conversation := [user [1], assistant_tool_calls [sample_call [1]]],
        turn_capture := Some \<lparr>turn_start_offset = 0, pre_replacement_messages = [], compaction_occurred = False\<rparr>\<rparr>)))
   = Some ([], False)"
  using history_repair_drops_turn_tail [of "sample_actor\<lparr>conversation := [user [1], assistant_tool_calls [sample_call [1]]],
        turn_capture := Some \<lparr>turn_start_offset = 0, pre_replacement_messages = [], compaction_occurred = False\<rparr>\<rparr>"
      "\<lparr>turn_start_offset = 0, pre_replacement_messages = [], compaction_occurred = False\<rparr>" no_sizes]
  by (simp add: repair_history_changed user_def assistant_tool_calls_def sample_call_def del: handle_command.simps)

end
