(* ===== verification/Chat_Disk.thy ===== *)
theory Chat_Disk
  imports Chat_Capture
begin

text \<open>
  Persistence of the chat-state actor: replaying the calls made on the persistence layer gives the
  conversation in memory.
\<close>

section \<open>What is on disk\<close>

lemma on_disk_log [simp]:
  "on_disk d (replace_history items s) = items"
  "on_disk d (persist_message item s) = on_disk d s @ [item]"
  "on_disk d (send_event e s) = on_disk d s"
  "on_disk d (snapshot_turn_slice s) = on_disk d s"
  "on_disk d (rebase_turn_capture_offset s) = on_disk d s"
  "on_disk d (s\<lparr>conversation := c\<rparr>) = on_disk d s"
  "on_disk d (s\<lparr>turn_capture := tc\<rparr>) = on_disk d s"
  "on_disk d (s\<lparr>prompt_usage := pu\<rparr>) = on_disk d s"
  "on_disk d (s\<lparr>estimated_tokens_since_model := n\<rparr>) = on_disk d s"
  by (simp_all add: on_disk_def replace_history_def persist_message_def send_event_def
      snapshot_turn_slice_def rebase_turn_capture_offset_def split: option.split)

text \<open>A repair that reports nothing has changed nothing.\<close>

lemma no_repair: "snd (repair_dangling_tool_calls reason conv) = 0 \<Longrightarrow> fst (repair_dangling_tool_calls reason conv) = conv"
proof -
  assume "snd (repair_dangling_tool_calls reason conv) = 0"
  then have "length (fix_dangling reason conv) = length conv"
    using list_emb_length [OF fix_dangling_subseq [of conv reason]] by (simp add: repair_eq)
  then show ?thesis by (simp add: repair_eq fix_dangling_grows fix_dangling_id)
qed

lemma no_dedup: "snd (dedup_duplicate_tool_results conv) = 0 \<Longrightarrow> fst (dedup_duplicate_tool_results conv) = conv"
proof -
  assume "snd (dedup_duplicate_tool_results conv) = 0"
  then have "length (dedup_results conv) = length conv"
    using dedup_results_length [of conv] by (simp add: dedup_eq)
  then show ?thesis by (simp add: dedup_eq dedup_results_shrinks dedup_results_id)
qed

lemma no_history_repair: "\<not> changed (snd (repair_history items)) \<Longrightarrow> fst (repair_history items) = items"
  by (simp add: repair_history_changed repair_history_items dedup_results_id strip_displaced_id fix_dangling_id)

lemma no_injection: "\<not> snd (inject_memory_reminder items r) \<Longrightarrow> fst (inject_memory_reminder items r) = items"
proof (cases items)
  case (Cons x xs)
  then show "\<not> snd (inject_memory_reminder items r) \<Longrightarrow> fst (inject_memory_reminder items r) = items"
    by (cases x) (auto simp: inject_memory_reminder_def Let_def split_beta upsert_memory_reminder_text_def
        split: if_splits)
qed (auto simp: inject_memory_reminder_def Let_def split: if_splits)

definition mirrored :: "ConversationItem list \<Rightarrow> ChatStateActor \<Rightarrow> bool" where
  "mirrored d s \<longleftrightarrow> on_disk d s = conversation s"

lemma integrity_mirrored: "mirrored d s \<Longrightarrow> mirrored d (ensure_conversation_integrity_with_reason reason s)"
  using no_repair [of reason "fst (dedup_duplicate_tool_results (conversation s))"] no_dedup [of "conversation s"]
  by (auto simp: mirrored_def ensure_conversation_integrity_with_reason_def Let_def split_beta)

lemma replace_mirrored: "mirrored d (replace_conversation items is_comp s)"
  by (simp add: mirrored_def replace_conversation_def Let_def on_disk_def replace_history_def send_event_def
      rebase_turn_capture_offset_def snapshot_turn_slice_def split: option.split)

lemma prune_retained_mirrored: "mirrored d s \<Longrightarrow> mirrored d (snd (prune_retained_conversation s))"
  using retained_loop_none [of _ 0 False "rev (conversation s)"]
  by (auto simp: mirrored_def prune_retained_conversation_def Let_def split_beta)

lemma push_user_mirrored: "mirrored d s \<Longrightarrow> mirrored d (push_user_message_with_repair_reason item reason s)"
  unfolding push_user_message_with_repair_reason_def Let_def
  by (rule prune_retained_mirrored) (use integrity_mirrored [of d s reason] in \<open>simp add: mirrored_def\<close>)

lemma push_mirrored: "mirrored d s \<Longrightarrow> mirrored d (push_message item s)"
  by (simp add: mirrored_def push_message_def Let_def)

lemma repair_history_mirrored: "mirrored d s \<Longrightarrow> mirrored d (snd (actor_repair_history dry_run s))"
  using no_history_repair [of "conversation s"] replace_mirrored
  by (auto simp: actor_repair_history_def Let_def split_beta mirrored_def)

lemma system_head_mirrored: "mirrored d s \<Longrightarrow> mirrored d (snd (replace_system_head prompt s))"
  using replace_mirrored by (auto simp: replace_system_head_def Let_def split_beta)

lemma build_request_mirrored:
  "mirrored d s \<Longrightarrow> mirrored d (snd (build_conversation_request J tools rem p c r s))"
proof -
  assume m: "mirrored d s"
  have "mirrored d (snd (persist_memory_reminder rem p s))"
    using m no_injection [of "conversation s"]
    by (auto simp: mirrored_def persist_memory_reminder_def Let_def split_beta split: option.split)
  moreover obtain es where "snd (build_conversation_request J tools rem p c r s) =
      events_update (\<lambda>e. e @ es) (snd (persist_memory_reminder rem p s))" using build_request_state by blast
  ultimately show ?thesis by (simp add: mirrored_def on_disk_def)
qed

lemma truncate_mirrored: "mirrored d s \<Longrightarrow> mirrored d (truncate_to_prompt_index target s)"
  by (auto simp: mirrored_def truncate_to_prompt_index_def Let_def)

fun restores :: "ChatStateCommand \<Rightarrow> bool" where
  "restores (RestoreSnapshot _) = True"
| "restores _ = False"

lemma handle_mirrored:
  assumes "mirrored d s" "\<not> restores cmd"
  shows "mirrored d (snd (handle_command J cmd s))"
proof (cases "loud cmd")
  case False
  with quiet_fields(1,3) [OF False] assms(1) show ?thesis by (simp add: mirrored_def)
next
  case True
  have i: "mirrored d (ensure_conversation_integrity s)"
    using integrity_mirrored [OF assms(1)] by (simp add: ensure_conversation_integrity_def)
  have q: "mirrored d (s\<lparr>turn_capture := c\<rparr>) = mirrored d s" "mirrored d (s\<lparr>prompt_usage := u\<rparr>) = mirrored d s"
    for s c u by (simp_all add: mirrored_def)
  show ?thesis
  proof (cases cmd)
    case (RepairHistory dry_run turn_active)
    with repair_history_mirrored [OF assms(1)] assms(1) show ?thesis by (simp add: Let_def split_beta)
  qed (use True assms i in \<open>simp_all add: push_user_message_def push_user_mirrored push_mirrored replace_mirrored
      system_head_mirrored repair_dangling_after_harness_halt_def integrity_mirrored build_request_mirrored
      truncate_mirrored take_turn_messages_def q split_beta\<close>)
qed

text \<open>C14. The history on disk mirrors the conversation in memory: if replaying the persistence calls made
  so far gives the conversation, it still does after any further commands, whatever repairs, prunings,
  replacements, rewinds and reminder injections they cause. Only a snapshot restore is excepted, which
  writes nothing.\<close>

theorem disk_mirrors_memory:
  assumes "on_disk d s = conversation s" "list_all (\<lambda>cmd. \<not> restores cmd) cmds"
  shows "on_disk d (run_commands J cmds s) = conversation (run_commands J cmds s)"
proof -
  have "mirrored d s \<Longrightarrow> mirrored d (run_commands J cmds s)"
    using assms(2) handle_mirrored by (induction cmds arbitrary: s) auto
  with assms(1) show ?thesis by (simp add: mirrored_def)
qed

theorem disk_mirrors_memory_witness:
  "on_disk [] (run_commands no_sizes [PushUserMessage (user (lit ''hi'')),
      PushAssistantResponse (assistant_tool_calls [sample_call [1]]), PushUserMessage (user (lit ''stop''))] sample_actor)
   = conversation (run_commands no_sizes [PushUserMessage (user (lit ''hi'')),
      PushAssistantResponse (assistant_tool_calls [sample_call [1]]), PushUserMessage (user (lit ''stop''))] sample_actor)"
proof (rule disk_mirrors_memory)
  show "on_disk [] sample_actor = conversation sample_actor"
    by (simp add: sample_actor_def spawn_with_pruning_def chat_state_new_def on_disk_def ChatState.defs
        ChatStateActor.defs Let_def dedup_eq repair_eq)
qed simp

end
