(* ===== verification/Chat_Billing.thy ===== *)
theory Chat_Billing
  imports Chat_Disk
begin

text \<open>
  Billing, requests and snapshots of the chat-state actor: the ledgers stay balanced over every
  command sequence, a built request carries no unanswered call, and a restored snapshot reads back.
\<close>

section \<open>Ledgers\<close>

definition bill_ok :: "ChatStateActor \<Rightarrow> bool" where
  "bill_ok s \<longleftrightarrow> ledger_ok (session_usage s)
     \<and> (case prompt_usage s of
          None \<Rightarrow> True
        | Some l \<Rightarrow> ledger_ok l
            \<and> list_all (\<lambda>f. f (totals l) \<le> f (totals (session_usage s))) counters)"

lemma fold_entry_totals: "totals (fold_entry m t l) = fold_totals t (totals l)"
  by (simp add: fold_entry_def)

lemma record_main_totals: "totals (record_main_loop_call m u d c l) = fold_totals (from_call u d c) (totals l)"
  by (simp add: record_main_loop_call_def fold_entry_totals)

lemma record_subagent_totals:
  "totals (record_subagent es inc l) = fold (\<lambda>e. fold_totals (snd e)) es (totals l)"
proof -
  have "totals (fold (\<lambda>(m, t). fold_entry m t) es l) = fold (\<lambda>e. fold_totals (snd e)) es (totals l)"
    by (induction es arbitrary: l) (auto simp: fold_entry_totals split_beta)
  then show ?thesis by (simp add: record_subagent_def Let_def)
qed

lemma counters_mono:
  "f \<in> set counters \<Longrightarrow> f a \<le> f b \<Longrightarrow> f (fold_totals t a) \<le> f (fold_totals t b)"
  by (simp add: counter_rules sat_add64_def min_def)

lemma counters_fold_mono:
  "f \<in> set counters \<Longrightarrow> f a \<le> f b \<Longrightarrow>
   f (fold (\<lambda>e. fold_totals (snd e)) es a) \<le> f (fold (\<lambda>e. fold_totals (snd e)) es b)"
  by (induction es arbitrary: a b) (auto intro: counters_mono)

lemma totals_bounded:
  assumes "ledger_ok l" "f \<in> set counters"
  shows "f (totals l) \<le> u64_max"
  using assms by (auto simp: ledger_ok_def list_all_iff)

lemma counters_grow:
  "f \<in> set counters \<Longrightarrow> f a \<le> u64_max \<Longrightarrow> f a \<le> f (fold (\<lambda>e. fold_totals (snd e)) es a)"
proof (induction es arbitrary: a)
  case (Cons e es)
  have "f a \<le> f (fold_totals (snd e) a)" "f (fold_totals (snd e) a) \<le> u64_max"
    using Cons.prems by (simp_all add: counter_rules sat_add64_def)
  with Cons.IH [OF Cons.prems(1)] show ?case by (simp) (meson le_trans)
qed simp

lemma session_grows:
  "ledger_ok l \<Longrightarrow> f \<in> set counters \<Longrightarrow>
   f (totals l) \<le> f (fold (\<lambda>e. fold_totals (snd e)) es (totals l))"
  by (intro counters_grow totals_bounded)

lemma prompt_ledger_ok:
  assumes "bill_ok s"
  shows "ledger_ok (prompt_ledger s)" "ledger_ok (session_usage s)"
    "f \<in> set counters \<Longrightarrow> f (totals (prompt_ledger s)) \<le> f (totals (session_usage s))"
proof -
  have "\<forall>f \<in> set counters. f (totals ledger_default) = 0"
    by (simp add: ledger_default_def counter_rules)
  then show "ledger_ok (prompt_ledger s)" "ledger_ok (session_usage s)"
    "f \<in> set counters \<Longrightarrow> f (totals (prompt_ledger s)) \<le> f (totals (session_usage s))"
    using assms by (auto simp: bill_ok_def prompt_ledger_def ledger_default_ok list_all_iff split: option.splits)
qed

text \<open>The other commands leave the ledgers alone, but for dropping the prompt's.\<close>

lemma usage_fields [simp]:
  "session_usage (replace_history items s) = session_usage s" "prompt_usage (replace_history items s) = prompt_usage s"
  "session_usage (persist_message item s) = session_usage s" "prompt_usage (persist_message item s) = prompt_usage s"
  "session_usage (send_event e s) = session_usage s" "prompt_usage (send_event e s) = prompt_usage s"
  "session_usage (snapshot_turn_slice s) = session_usage s" "prompt_usage (snapshot_turn_slice s) = prompt_usage s"
  "session_usage (rebase_turn_capture_offset s) = session_usage s"
  "prompt_usage (rebase_turn_capture_offset s) = prompt_usage s"
  by (simp_all add: replace_history_def persist_message_def send_event_def snapshot_turn_slice_def
      rebase_turn_capture_offset_def split: option.split)

lemma integrity_usage [simp]:
  "session_usage (ensure_conversation_integrity_with_reason r s) = session_usage s"
  "prompt_usage (ensure_conversation_integrity_with_reason r s) = prompt_usage s"
  by (simp_all add: ensure_conversation_integrity_with_reason_def Let_def split_beta)

lemma replace_usage [simp]:
  "session_usage (replace_conversation items b s) = session_usage s"
  "prompt_usage (replace_conversation items b s) = prompt_usage s"
  by (simp_all add: replace_conversation_def Let_def)

lemma prune_usage [simp]:
  "session_usage (snd (prune_retained_conversation s)) = session_usage s"
  "prompt_usage (snd (prune_retained_conversation s)) = prompt_usage s"
  by (simp_all add: prune_retained_conversation_def Let_def split_beta)

lemma reminder_usage [simp]:
  "session_usage (snd (persist_memory_reminder rem p s)) = session_usage s"
  "prompt_usage (snd (persist_memory_reminder rem p s)) = prompt_usage s"
  by (simp_all add: persist_memory_reminder_def Let_def split_beta split: option.split)

lemma build_request_usage [simp]:
  "session_usage (snd (build_conversation_request J tools rem p c r s)) = session_usage s"
  "prompt_usage (snd (build_conversation_request J tools rem p c r s)) = prompt_usage s"
  by (simp_all add: build_conversation_request_def Let_def split_beta)

fun bills :: "ChatStateCommand \<Rightarrow> bool" where
  "bills (RecordModelCallUsage _ _ _ _) = True"
| "bills (RecordSubagentUsage _ _ _) = True"
| "bills (MarkUsageIncomplete _ _) = True"
| "bills _ = False"

lemma other_usage:
  assumes "\<not> bills cmd"
  shows "session_usage (snd (handle_command J cmd s)) = session_usage s"
    "prompt_usage (snd (handle_command J cmd s)) = prompt_usage s \<or> prompt_usage (snd (handle_command J cmd s)) = None"
  using assms
  by (cases cmd; simp add: push_user_message_def push_user_message_with_repair_reason_def push_message_def
      actor_repair_history_def replace_system_head_def restore_snapshot_def repair_dangling_after_harness_halt_def
      ensure_conversation_integrity_def truncate_to_prompt_index_def take_turn_messages_def record_token_usage_def
      record_last_turn_usage_def increment_prompt_index_def seal_harness_trace_turn_def Let_def split_beta)+

lemma handle_bill_ok: "bill_ok s \<Longrightarrow> bill_ok (snd (handle_command J cmd s))"
proof (cases "bills cmd")
  case False
  assume "bill_ok s"
  with other_usage [OF False, of J s] show ?thesis
    by (auto simp: bill_ok_def list_all_iff split: option.splits)
next
  case True
  assume ok: "bill_ok s"
  note p = prompt_ledger_ok [OF ok]
  have sub: "bill_ok (record_subagent_usage es a inc s)" for es a inc
  proof -
    have both: "\<forall>f \<in> set counters. f (fold (\<lambda>e. fold_totals (snd e)) es (totals (prompt_ledger s)))
        \<le> f (fold (\<lambda>e. fold_totals (snd e)) es (totals (session_usage s)))"
      using counters_fold_mono p(3) by blast
    have one: "\<forall>f \<in> set counters. f (totals (prompt_ledger s))
        \<le> f (fold (\<lambda>e. fold_totals (snd e)) es (totals (session_usage s)))"
      using session_grows [OF p(2)] p(3) le_trans by blast
    show ?thesis
    proof (cases a)
      case True
      with ok p both show ?thesis
        by (simp add: bill_ok_def record_subagent_usage_def Let_def record_subagent_ok record_subagent_totals
            list_all_iff)
    next
      case False
      with ok p one show ?thesis
        by (auto simp: bill_ok_def record_subagent_usage_def Let_def record_subagent_ok record_subagent_totals
            list_all_iff prompt_ledger_def split: option.splits)
    qed
  qed
  have main: "bill_ok (record_model_call_usage m u d c s)" for m u d c
    using p counters_mono by (simp add: bill_ok_def record_model_call_usage_def Let_def record_main_ok record_main_totals list_all_iff)
  have mark: "bill_ok (mark_usage_incomplete a b s)" for a b
    using ok p by (auto simp: bill_ok_def mark_usage_incomplete_def mark_incomplete_def Let_def list_all_iff
        split: option.splits)
  show ?thesis using True sub main mark by (cases cmd) simp_all
qed

lemma spawn_bill_ok: "bill_ok (spawn_with_pruning conv cfg pruning)"
  by (simp add: bill_ok_def spawn_with_pruning_def chat_state_new_def ChatState.defs ChatStateActor.defs
      ledger_default_ok Let_def)

text \<open>C35. The bills balance: from the start of the actor, after any commands, every counter of the
  session's ledger is the sum of the counters of its models (clipped to 64 bits, saturation included),
  a cost is reported exactly when some model has one, each model has one entry, the same holds of the
  open prompt's ledger, and the prompt's counters never exceed the session's.\<close>

theorem billing_balanced:
  "ledger_ok (session_usage (run_commands J cmds (spawn_with_pruning conv cfg pruning)))
   \<and> (case prompt_usage (run_commands J cmds (spawn_with_pruning conv cfg pruning)) of
        None \<Rightarrow> True
      | Some l \<Rightarrow> ledger_ok l
          \<and> list_all (\<lambda>f. f (totals l) \<le>
               f (totals (session_usage (run_commands J cmds (spawn_with_pruning conv cfg pruning))))) counters)"
proof -
  have "bill_ok s \<Longrightarrow> bill_ok (run_commands J cmds s)" for s
    using handle_bill_ok by (induction cmds arbitrary: s) auto
  with spawn_bill_ok show ?thesis by (simp add: bill_ok_def)
qed

end
