(* ===== verification/Chat_Requests.thy ===== *)
theory Chat_Requests
  imports Chat_Billing
begin

text \<open>
  Requests, snapshots, rewinds and queries of the chat-state actor.
\<close>

section \<open>Requests\<close>

lemma integrity_answered: "all_answered (conversation (ensure_conversation_integrity s))"
  by (simp add: ensure_conversation_integrity_def ensure_conversation_integrity_with_reason_def Let_def
      split_beta repair_eq fix_dangling_answered)

lemma reminder_answered:
  "all_answered (conversation s) \<Longrightarrow> all_answered (conversation (snd (persist_memory_reminder rem p s)))"
  by (simp add: persist_memory_reminder_def Let_def split_beta inject_answered split: option.split)

lemma request_items_answered:
  "all_answered (conversation s) \<Longrightarrow> all_answered (fst (request_items J np rem bytes s))"
proof -
  assume a: "all_answered (conversation s)"
  have "all_answered (fst (compact_images_to_byte_budget J (conversation s) b t))" for b t
    using a skeleton_answered [OF compact_images_skeleton] by blast
  moreover have "all_answered (prune_conversation cfg xs) = all_answered xs" for cfg xs
    by (rule skeleton_answered [OF prune_skeleton])
  ultimately show ?thesis
    using a by (auto simp: request_items_def Let_def split_beta inject_answered split: option.split)
qed

text \<open>C29. Every request the actor builds is well formed for the provider: whatever the state, the reply to
  \<open>BuildConversationRequest\<close> is a request with the given tools and ids in which every tool call has a
  result in the run after it, through image eviction, pruning and reminder injection, and the actor's
  own conversation is repaired as well.\<close>

theorem built_request_answered:
  "\<exists>rq s'. handle_command J (BuildConversationRequest tools rem persist conv_id req_id) s = (RequestReply rq, s')
     \<and> \<not> has_dangling_tool_calls (rq_items rq) \<and> \<not> has_dangling_tool_calls (conversation s')
     \<and> rq_tools rq = tools \<and> x_grok_conv_id rq = Some conv_id \<and> x_grok_req_id rq = Some req_id"
proof -
  let ?t = "ensure_conversation_integrity s"
  let ?r = "build_conversation_request J tools rem persist conv_id req_id ?t"
  let ?u = "snd (persist_memory_reminder rem persist ?t)"
  have u: "all_answered (conversation ?u)" by (rule reminder_answered [OF integrity_answered])
  have "all_answered (rq_items (fst ?r))"
    using request_items_answered [OF u] by (simp add: build_conversation_request_def Let_def split_beta)
  moreover obtain es where "snd ?r = events_update (\<lambda>e. e @ es) ?u" using build_request_state by blast
  then have "conversation (snd ?r) = conversation ?u" by simp
  moreover have "rq_tools (fst ?r) = tools" "x_grok_conv_id (fst ?r) = Some conv_id" "x_grok_req_id (fst ?r) = Some req_id"
    by (simp_all add: build_conversation_request_def Let_def split_beta)
  ultimately show ?thesis using u by (simp add: has_dangling_eq split_beta)
qed

section \<open>Snapshots\<close>

text \<open>A snapshot restored into any actor reads back as the same snapshot, as long as it carries a
  token estimate (zero means unknown and is estimated anew).\<close>

theorem snapshot_roundtrip:
  assumes "0 < estimate_at_last_response s"
  shows "fst (handle_command J Snapshot (snd (handle_command J (RestoreSnapshot (snapshot s)) t)))
    = SnapshotReply (snapshot s)"
  using assms by (simp add: snapshot_def restore_snapshot_def Let_def)

theorem snapshot_roundtrip_witness:
  "fst (handle_command no_sizes Snapshot (snd (handle_command no_sizes
     (RestoreSnapshot (snapshot (sample_actor\<lparr>estimate_at_last_response := 7\<rparr>))) sample_actor)))
   = SnapshotReply (snapshot (sample_actor\<lparr>estimate_at_last_response := 7\<rparr>))"
  by (rule snapshot_roundtrip) simp

section \<open>Rewinds\<close>

lemma nth_user_spec:
  "nth_user_loop target c i xs = Some k \<Longrightarrow> c \<le> target \<Longrightarrow>
     i \<le> k \<and> k < i + length xs \<and> is_user (xs ! (k - i)) \<and> c + length (filter is_user (take (k - i) xs)) = target"
proof (induction xs arbitrary: c i)
  case (Cons x xs)
  show ?case
  proof (cases "is_user x \<and> c = target")
    case True
    with Cons.prems show ?thesis by simp
  next
    case False
    then have "nth_user_loop target (if is_user x then c + 1 else c) (i + 1) xs = Some k"
      using Cons.prems(1) by (auto split: if_splits)
    from Cons.IH [OF this] False Cons.prems(2)
    have h: "Suc i \<le> k" "k < Suc i + length xs" "is_user (xs ! (k - Suc i))"
      "(if is_user x then c + 1 else c) + length (filter is_user (take (k - Suc i) xs)) = target"
      by (auto split: if_splits)
    then have "k - i = Suc (k - Suc i)" by linarith
    with h show ?thesis by (auto split: if_splits)
  qed
qed simp

lemma nth_user_none:
  "nth_user_loop target c i xs = None \<Longrightarrow> c \<le> target \<Longrightarrow> c + length (filter is_user xs) \<le> target"
proof (induction xs arbitrary: c i)
  case (Cons x xs)
  show ?case
  proof (cases "is_user x")
    case True
    with Cons.prems have "c \<noteq> target" "nth_user_loop target (c + 1) (i + 1) xs = None" by (auto split: if_splits)
    with Cons.IH [of "c + 1" "i + 1"] Cons.prems(2) True show ?thesis by simp
  next
    case False
    with Cons.IH [of c "i + 1"] Cons.prems show ?thesis by simp
  qed
qed simp

text \<open>A rewind of the actor to an earlier prompt keeps a prefix of the conversation with at most that
  many user items, cut at a user item or at the end, drops the later prompt texts, re-estimates the
  tokens of what is kept, abandons the open capture and prompt bill, and puts the kept prefix on disk.\<close>

theorem actor_rewind:
  assumes "target < cs_prompt_index s" "s' = snd (handle_command J (TruncateToPromptIndex target) s)"
  shows "(\<exists>k \<le> length (conversation s). conversation s' = take k (conversation s)
        \<and> (k = length (conversation s) \<or> is_user (conversation s ! k)))
    \<and> length (filter is_user (conversation s')) = min target (length (filter is_user (conversation s)))
    \<and> cs_prompt_index s' = target \<and> prompt_texts s' = take target (prompt_texts s)
    \<and> total_tokens s' = estimate_conversation_tokens (conversation s') \<and> turn_capture s' = None
    \<and> prompt_usage s' = None \<and> on_disk d s' = conversation s'"
proof -
  let ?conv = "conversation s"
  define k where "k = (case nth_user_loop target 0 0 ?conv of Some i \<Rightarrow> i | None \<Rightarrow> length ?conv)"
  have c: "conversation s' = take k ?conv"
    using assms by (simp add: truncate_to_prompt_index_def Let_def k_def)
  have "k \<le> length ?conv \<and> length (filter is_user (take k ?conv)) = min target (length (filter is_user ?conv))
      \<and> (k = length ?conv \<or> is_user (?conv ! k))"
  proof (cases "nth_user_loop target 0 0 ?conv")
    case None
    with nth_user_none [OF None] show ?thesis by (simp add: k_def)
  next
    case (Some i)
    then have i: "i < length ?conv" "is_user (?conv ! i)" "length (filter is_user (take i ?conv)) = target"
      using nth_user_spec [OF Some] by auto
    have "length (filter is_user ?conv) = length (filter is_user (take i ?conv)) + length (filter is_user (drop i ?conv))"
      by (metis append_take_drop_id filter_append length_append)
    with i Some show ?thesis by (simp add: k_def)
  qed
  moreover have "cs_prompt_index s' = target \<and> prompt_texts s' = take target (prompt_texts s)
      \<and> total_tokens s' = estimate_conversation_tokens (conversation s') \<and> turn_capture s' = None
      \<and> prompt_usage s' = None \<and> on_disk d s' = conversation s'"
    using assms by (simp add: truncate_to_prompt_index_def Let_def send_event_def replace_history_def on_disk_def)
  ultimately show ?thesis using c by auto
qed

theorem actor_rewind_witness:
  "length (filter is_user (conversation (snd (handle_command no_sizes (TruncateToPromptIndex 1)
     (sample_actor\<lparr>conversation := [user [1], assistant [2], user [3]], cs_prompt_index := 2\<rparr>))))) = 1"
  using actor_rewind [OF _ refl, of 1 "sample_actor\<lparr>conversation := [user [1], assistant [2], user [3]],
      cs_prompt_index := 2\<rparr>" no_sizes]
  by (simp add: user_def assistant_def del: handle_command.simps)

text \<open>The actor's rewind counts every user item; \<open>conversation_truncate_for_prompt\<close> skips the preamble and
  the synthetic items. On a conversation with a preamble they cut at different places.\<close>

theorem rewind_paths_disagree:
  "conversation (snd (handle_command no_sizes (TruncateToPromptIndex 1)
     (sample_actor\<lparr>conversation := [user [1], user [2], assistant [3], user [4]], cs_prompt_index := 2\<rparr>)))
     = [user [1]]
   \<and> conversation_truncate_for_prompt [user [1], user [2], assistant [3], user [4]] 1 = 3"
  by (simp add: truncate_to_prompt_index_def conversation_truncate_for_prompt_def unmarked_index_def user_def
      user_item_def assistant_def send_event_def replace_history_def numeral_3_eq_3 Let_def)

section \<open>Queries\<close>

text \<open>The first user text is taken from a later user message when the first one leads with an image.\<close>

theorem first_user_text_skips_image_message:
  "fst (handle_command no_sizes GetFirstUserText
     (sample_actor\<lparr>conversation := [user_with_parts [Image [1], Text [2]], user [3]]\<rparr>)) = TextReply (Some [3])"
  by (simp add: get_first_user_text_def user_with_parts_def user_def user_item_def)

text \<open>The upsert of the memory reminder drops whatever follows the old reminder in the system prompt.\<close>

theorem reminder_upsert_drops_suffix:
  "upsert_memory_reminder_text (lit ''rules<memory-context>old</memory-context>more rules'') (lit ''<memory-context>new'')
     = (lit ''rules'' @ [nl, nl] @ lit ''<memory-context>new'', True)"
  by code_simp

end
