(* ===== verification/Perm_Rules.thy ===== *)
theory Perm_Rules
  imports Prelude
begin

text \<open>
  The permission vocabulary and the rule language: \<open>permission/types.rs\<close> and
  \<open>permission/rules.rs\<close> of the workspace crate. A rule string such as \<open>Bash(git push)\<close> is parsed
  into an action, a tool filter, an optional pattern and the way the pattern is matched.

  The first section is the model, the second shows that the chained \<open>replace\<close> calls of
  \<open>unescape_rule_content\<close> are one left-to-right pass, and the third that every rule of the language
  is read back from its printed form.
\<close>

section \<open>Types\<close>

datatype AccessKind =
    Read "rstr option"
  | Grep "rstr option" "rstr option"
  | Edit rstr
  | Bash rstr
  | MCPTool rstr rstr
  | WebFetch rstr
  | WebSearch rstr

text \<open>The second argument of \<open>MCPTool\<close> is the JSON text of the tool input, which only the
  classifier looks at.\<close>

datatype Decision =
    Allow
  | Ask
  | FollowupMessage rstr
  | Reject rstr
  | PolicyDeny rstr
  | Cancelled

datatype EditPolicy = EditAsk | EditAllow | EditReject

datatype PromptPolicy = PromptAsk | PromptDeny | PromptAuto

datatype PatternMode = Glob | Domain

datatype RuleAction = RuleAllow | RuleDeny | RuleAsk

datatype ToolFilter = FAny | FBash | FEdit | FRead | FGrep | FMcp | FWebFetch | FWebSearch

record PermissionRule =
  action :: RuleAction
  tool :: ToolFilter
  pattern :: "rstr option"
  pattern_mode :: PatternMode

record PermissionConfig =
  rules :: "PermissionRule list"
  prompt_policy :: PromptPolicy

definition config_new :: "PermissionRule list \<Rightarrow> PermissionConfig" where
  "config_new rs = \<lparr>rules = rs, prompt_policy = PromptAsk\<rparr>"

section \<open>Permission modes\<close>

datatype DefaultPermissionMode =
    DefaultMode | AcceptEdits | Plan | AutoMode | DontAsk | BypassPermissions

record DefaultModeEffects =
  mode_prompt_policy :: PromptPolicy
  accept_edits :: bool
  bypass_permissions :: bool

definition mode_from_str :: "rstr \<Rightarrow> (rstr, DefaultPermissionMode) result" where
  "mode_from_str s =
     (if s = lit ''default'' then Ok DefaultMode
      else if s = lit ''acceptEdits'' then Ok AcceptEdits
      else if s = lit ''plan'' then Ok Plan
      else if s = lit ''auto'' then Ok AutoMode
      else if s = lit ''dontAsk'' then Ok DontAsk
      else if s = lit ''bypassPermissions'' then Ok BypassPermissions
      else Err s)"

definition default_effects :: DefaultModeEffects where
  "default_effects = \<lparr>mode_prompt_policy = PromptAsk, accept_edits = False, bypass_permissions = False\<rparr>"

fun effects :: "DefaultPermissionMode \<Rightarrow> DefaultModeEffects" where
  "effects AcceptEdits = default_effects\<lparr>accept_edits := True\<rparr>"
| "effects BypassPermissions = default_effects\<lparr>bypass_permissions := True\<rparr>"
| "effects DefaultMode = default_effects"
| "effects Plan = default_effects"
| "effects DontAsk = default_effects\<lparr>mode_prompt_policy := PromptDeny\<rparr>"
| "effects AutoMode = default_effects\<lparr>mode_prompt_policy := PromptAuto\<rparr>"

section \<open>The rule parser\<close>

datatype RuleParseError =
    UnsupportedToolPrefix rstr
  | UnknownToolPrefix rstr
  | MalformedRule rstr

definition tool_name_to_filter :: "rstr \<Rightarrow> ToolFilter option" where
  "tool_name_to_filter name =
     (if name = lit ''Bash'' then Some FBash
      else if name = lit ''Read'' \<or> name = lit ''NotebookRead'' then Some FRead
      else if name = lit ''Edit'' \<or> name = lit ''Write'' \<or> name = lit ''NotebookEdit'' then Some FEdit
      else if name = lit ''MCPTool'' then Some FMcp
      else if name = lit ''Grep'' \<or> name = lit ''Glob'' then Some FGrep
      else if name = lit ''WebFetch'' then Some FWebFetch
      else if name = lit ''WebSearch'' then Some FWebSearch
      else None)"

text \<open>The characters the parser treats specially: backslash and the two parentheses.\<close>

abbreviation bs :: rchar where "bs \<equiv> 92"
abbreviation lpar :: rchar where "lpar \<equiv> 40"
abbreviation rpar :: rchar where "rpar \<equiv> 41"

definition is_unescaped :: "rstr \<Rightarrow> nat \<Rightarrow> bool" where
  "is_unescaped s pos \<longleftrightarrow> even (length (takeWhile (\<lambda>c. c = bs) (rev (take pos s))))"

definition find_first_unescaped :: "rstr \<Rightarrow> rchar \<Rightarrow> nat option" where
  "find_first_unescaped s target =
     List.find (\<lambda>i. s ! i = target \<and> is_unescaped s i) [0..<length s]"

definition find_last_unescaped :: "rstr \<Rightarrow> rchar \<Rightarrow> nat option" where
  "find_last_unescaped s target =
     List.find (\<lambda>i. s ! i = target \<and> is_unescaped s i) (rev [0..<length s])"

definition unescape_rule_content :: "rstr \<Rightarrow> rstr" where
  "unescape_rule_content s =
     (if bs \<notin> set s then s
      else replace_sub [bs, bs] [bs] (replace_sub [bs, rpar] [rpar] (replace_sub [bs, lpar] [lpar] s)))"

definition strip_domain_prefix :: "rstr \<Rightarrow> rstr \<times> PatternMode" where
  "strip_domain_prefix p =
     (case strip_prefix (lit ''domain:'') p of
        Some d \<Rightarrow> (d, Domain)
      | None \<Rightarrow> (p, Glob))"

definition strip_bash_colon_wildcard :: "rstr \<Rightarrow> rstr" where
  "strip_bash_colon_wildcard p =
     (case strip_prefix (rev (lit '':*'')) (rev p) of
        Some r \<Rightarrow> rev r
      | None \<Rightarrow> p)"

definition opt_pattern :: "rstr \<Rightarrow> rstr option" where
  "opt_pattern p = (if p = [] then None else Some p)"

definition parse_permission_rule :: "rstr \<Rightarrow> RuleAction \<Rightarrow> (RuleParseError, PermissionRule) result" where
  "parse_permission_rule rule0 act =
     (let rule = trim rule0
      in case find_first_unescaped rule lpar of
           Some open_paren \<Rightarrow>
             (let name = trim (take open_paren rule);
                  content_and_close = drop (open_paren + 1) rule
              in case find_last_unescaped content_and_close rpar of
                   None \<Rightarrow> Err (MalformedRule (lit ''missing closing parenthesis''))
                 | Some close_paren \<Rightarrow>
                     (let raw_content = trim (take close_paren content_and_close);
                          p = (if raw_content = [] \<or> raw_content = lit ''*'' then []
                               else unescape_rule_content raw_content)
                      in case tool_name_to_filter name of
                           None \<Rightarrow> (if name = lit ''EnterWorktree'' then Err (UnsupportedToolPrefix name)
                                    else Err (UnknownToolPrefix name))
                         | Some f \<Rightarrow>
                             (let p1 = (if f = FBash then strip_bash_colon_wildcard p else p);
                                  (p2, mode) = strip_domain_prefix p1
                              in Ok \<lparr>action = act, tool = f, pattern = opt_pattern p2, pattern_mode = mode\<rparr>)))
         | None \<Rightarrow>
             (case tool_name_to_filter rule of
                Some f \<Rightarrow> Ok \<lparr>action = act, tool = f, pattern = None, pattern_mode = Glob\<rparr>
              | None \<Rightarrow> Ok \<lparr>action = act, tool = FAny, pattern = opt_pattern rule, pattern_mode = Glob\<rparr>))"

section \<open>Unescaping is one left-to-right pass\<close>

text \<open>The reference reading of the escapes: a backslash followed by a backslash or a parenthesis
  stands for that character, every other character for itself.\<close>

fun unescape_pass :: "rstr \<Rightarrow> rstr" where
  "unescape_pass [] = []"
| "unescape_pass [c] = [c]"
| "unescape_pass (c # d # s) =
     (if c = bs \<and> d \<in> {bs, lpar, rpar} then d # unescape_pass s else c # unescape_pass (d # s))"

text \<open>Every string is a run of backslashes, followed by nothing or by another character.\<close>

lemma run_cases:
  obtains n where "s = replicate n bs"
  | n c t where "s = replicate n bs @ c # t" "c \<noteq> bs"
proof (cases "dropWhile (\<lambda>c. c = bs) s")
  case Nil
  then have "s = replicate (length s) bs" by (auto simp: dropWhile_eq_Nil_conv intro: replicate_eqI)
  then show ?thesis by (rule that(1))
next
  case (Cons c t)
  have run: "takeWhile (\<lambda>c. c = bs) s = replicate (length (takeWhile (\<lambda>c. c = bs) s)) bs"
    by (rule replicate_eqI) (auto dest: set_takeWhileD)
  have "s = takeWhile (\<lambda>c. c = bs) s @ dropWhile (\<lambda>c. c = bs) s" by simp
  then have "s = replicate (length (takeWhile (\<lambda>c. c = bs) s)) bs @ c # t" by (simp only: Cons run [symmetric])
  moreover have "c \<noteq> bs" using dropWhile_hd_not [OF Cons] .
  ultimately show ?thesis by (rule that(2))
qed

lemma replace_pair:
  "replace_sub [bs, x] [x] (c # s) =
     (if c = bs \<and> s \<noteq> [] \<and> hd s = x then x # replace_sub [bs, x] [x] (tl s)
      else c # replace_sub [bs, x] [x] s)"
  by (cases s) (auto simp: replace_sub_def numeral_2_eq_2)

lemma replace_pair_Nil: "replace_sub [bs, x] [x] [] = []"
  by (simp add: replace_sub_def)

lemma paren_run:
  assumes "x \<noteq> bs" "c \<noteq> bs"
  shows "replace_sub [bs, x] [x] (replicate n bs @ c # t)
     = replicate (if c = x then n - 1 else n) bs @ c # replace_sub [bs, x] [x] t"
proof (induction n)
  case 0
  with assms show ?case by (auto simp: replace_pair)
next
  case (Suc n)
  with assms show ?case by (cases n) (auto simp: replace_pair)
qed

lemma paren_run_end: "x \<noteq> bs \<Longrightarrow> replace_sub [bs, x] [x] (replicate n bs) = replicate n bs"
proof (induction n)
  case (Suc n)
  then show ?case by (cases n) (auto simp: replace_pair replace_pair_Nil)
qed (simp add: replace_pair_Nil)

lemma backslash_run:
  "c \<noteq> bs \<Longrightarrow> replace_sub [bs, bs] [bs] (replicate n bs @ c # t)
     = replicate ((n + 1) div 2) bs @ c # replace_sub [bs, bs] [bs] t"
proof (induction n rule: nat_induct2)
  case (step n)
  then show ?case by (simp add: replace_pair)
qed (auto simp: replace_pair)

lemma backslash_run_end: "replace_sub [bs, bs] [bs] (replicate n bs) = replicate ((n + 1) div 2) bs"
  by (induction n rule: nat_induct2) (simp_all add: replace_pair replace_pair_Nil)

lemma pass_run:
  "c \<noteq> bs \<Longrightarrow> unescape_pass (replicate n bs @ c # t)
     = replicate (if c \<in> {lpar, rpar} then n div 2 else (n + 1) div 2) bs @ c # unescape_pass t"
proof (induction n rule: nat_induct2)
  case (step n)
  then show ?case by simp
qed (cases t; simp)+

lemma half_pred: "Suc (n - Suc 0) div 2 = n div 2"
  by (cases n) auto

lemma pass_run_end: "unescape_pass (replicate n bs) = replicate ((n + 1) div 2) bs"
  by (induction n rule: nat_induct2) simp_all

lemma three_replacements_pass:
  "replace_sub [bs, bs] [bs] (replace_sub [bs, rpar] [rpar] (replace_sub [bs, lpar] [lpar] s))
     = unescape_pass s"
proof (induction s rule: length_induct)
  case (1 s)
  show ?case
  proof (cases s rule: run_cases)
    case (1 n)
    then show ?thesis by (simp add: paren_run_end backslash_run_end pass_run_end)
  next
    case (2 n c t)
    then have "length t < length s" by simp
    with "1" have "replace_sub [bs, bs] [bs] (replace_sub [bs, rpar] [rpar] (replace_sub [bs, lpar] [lpar] t))
        = unescape_pass t" by blast
    with 2 show ?thesis by (simp add: paren_run backslash_run pass_run half_pred)
  qed
qed

lemma pass_no_backslash: "bs \<notin> set s \<Longrightarrow> unescape_pass s = s"
  by (induction s rule: unescape_pass.induct) auto

lemma unescape_rule_content_pass: "unescape_rule_content s = unescape_pass s"
  by (simp add: unescape_rule_content_def three_replacements_pass pass_no_backslash)

section \<open>Rules are read back from their printed form\<close>

definition escape_rule_content :: "rstr \<Rightarrow> rstr" where
  "escape_rule_content s = concat (map (\<lambda>c. if c \<in> {bs, lpar, rpar} then [bs, c] else [c]) s)"

fun filter_name :: "ToolFilter \<Rightarrow> rstr" where
  "filter_name FAny = []"
| "filter_name FBash = lit ''Bash''"
| "filter_name FEdit = lit ''Edit''"
| "filter_name FRead = lit ''Read''"
| "filter_name FGrep = lit ''Grep''"
| "filter_name FMcp = lit ''MCPTool''"
| "filter_name FWebFetch = lit ''WebFetch''"
| "filter_name FWebSearch = lit ''WebSearch''"

fun mode_prefix :: "PatternMode \<Rightarrow> rstr" where
  "mode_prefix Glob = []"
| "mode_prefix Domain = lit ''domain:''"

definition print_rule :: "PermissionRule \<Rightarrow> rstr" where
  "print_rule r =
     (case pattern r of
        None \<Rightarrow> filter_name (tool r)
      | Some p \<Rightarrow>
          if tool r = FAny then p
          else filter_name (tool r) @ lpar # escape_rule_content (mode_prefix (pattern_mode r) @ p) @ [rpar])"

text \<open>The rules the language can express: patterns without surrounding blanks that are not
  themselves one of the abbreviations.\<close>

definition wf_rule :: "PermissionRule \<Rightarrow> bool" where
  "wf_rule r =
     (case pattern r of
        None \<Rightarrow> pattern_mode r = Glob
      | Some p \<Rightarrow>
          p \<noteq> [] \<and> trim p = p \<and>
          (if tool r = FAny
           then pattern_mode r = Glob \<and> find_first_unescaped p lpar = None \<and> tool_name_to_filter p = None
           else (pattern_mode r = Glob \<longrightarrow> p \<noteq> lit ''*'' \<and> \<not> starts_with (lit ''domain:'') p) \<and>
                (tool r = FBash \<longrightarrow> \<not> ends_with (lit '':*'') (mode_prefix (pattern_mode r) @ p))))"

lemma escape_append [simp]:
  "escape_rule_content (s @ t) = escape_rule_content s @ escape_rule_content t"
  by (simp add: escape_rule_content_def)

lemma escape_Nil [simp]: "escape_rule_content [] = []"
  by (simp add: escape_rule_content_def)

lemma escape_Cons:
  "escape_rule_content (c # s) = (if c \<in> {bs, lpar, rpar} then [bs, c] else [c]) @ escape_rule_content s"
  by (simp add: escape_rule_content_def)

lemma escape_eq_Nil [simp]: "escape_rule_content s = [] \<longleftrightarrow> s = []"
  by (cases s) (auto simp: escape_Cons)

lemma pass_Cons_plain: "c \<noteq> bs \<Longrightarrow> unescape_pass (c # s) = c # unescape_pass s"
  by (cases s) auto

lemma unescape_escape: "unescape_rule_content (escape_rule_content s) = s"
  unfolding unescape_rule_content_pass
  by (induction s) (auto simp: escape_Cons pass_Cons_plain)

text \<open>The escaped content ends in an even number of backslashes, so the parenthesis that follows
  it closes the rule.\<close>

lemma escape_even_backslashes:
  "even (length (takeWhile (\<lambda>c. c = bs) (rev (escape_rule_content s))))"
  by (induction s rule: rev_induct) (auto simp: escape_Cons)

lemma escape_last: "s \<noteq> [] \<Longrightarrow> last (escape_rule_content s) = last s"
  by (induction s rule: rev_induct) (auto simp: escape_Cons)

lemma escape_star: "escape_rule_content s = lit ''*'' \<longleftrightarrow> s = lit ''*''"
  by (cases s) (auto simp: escape_Cons split: if_splits)

lemma find_last_closing:
  "find_last_unescaped (escape_rule_content s @ [rpar]) rpar = Some (length (escape_rule_content s))"
  using escape_even_backslashes [of s]
  by (simp add: find_last_unescaped_def is_unescaped_def nth_append)

lemma takeWhile_none: "x \<notin> set xs \<Longrightarrow> takeWhile (\<lambda>c. c = x) xs = []"
  by (cases xs) auto

lemma find_first_opening:
  assumes "bs \<notin> set name" "lpar \<notin> set name"
  shows "find_first_unescaped (name @ lpar # s) lpar = Some (length name)"
proof -
  have run: "takeWhile (\<lambda>c. c = bs) (rev name) = []"
    using assms(1) by (intro takeWhile_none) simp
  show ?thesis
    unfolding find_first_unescaped_def find_Some_iff
  proof (intro exI conjI)
    show "length name < length [0..<length (name @ lpar # s)]" by simp
    show "\<forall>j<length name. \<not> ((name @ lpar # s) ! ([0..<length (name @ lpar # s)] ! j) = lpar \<and>
             is_unescaped (name @ lpar # s) ([0..<length (name @ lpar # s)] ! j))"
      using assms(2) by (auto simp: nth_append simp del: upt_Suc) (metis nth_mem)
  qed (simp_all add: is_unescaped_def run del: upt_Suc)
qed

lemma dropWhile_fixed_iff: "dropWhile P s = s \<longleftrightarrow> s = [] \<or> \<not> P (hd s)"
proof (cases s)
  case (Cons c t)
  then show ?thesis using length_dropWhile_le [of P t] by (auto dest: arg_cong [where f = length])
qed simp

lemma trim_fixed:
  assumes "trim s = s" "s \<noteq> []"
  shows "\<not> is_whitespace (hd s)" "\<not> is_whitespace (last s)"
proof -
  have "length s \<le> length (trim_start s)"
    using assms(1) length_dropWhile_le [of is_whitespace "rev (trim_start s)"]
    by (metis length_rev trim_def trim_end_def)
  then have "takeWhile is_whitespace s = []"
    using length_append [of "takeWhile is_whitespace s" "dropWhile is_whitespace s"]
    by (simp add: trim_start_def)
  then have start: "trim_start s = s"
    unfolding trim_start_def by (metis append_Nil takeWhile_dropWhile_id)
  then show "\<not> is_whitespace (hd s)"
    using assms(2) dropWhile_fixed_iff [of is_whitespace s] by (simp add: trim_start_def)
  have "rev (dropWhile is_whitespace (rev s)) = s" using assms(1) start by (simp add: trim_def trim_end_def)
  then have "dropWhile is_whitespace (rev s) = rev s" by (metis rev_rev_ident)
  then show "\<not> is_whitespace (last s)"
    using assms(2) dropWhile_fixed_iff [of is_whitespace "rev s"] by (simp add: hd_rev)
qed

lemma filter_name_ok:
  assumes "f \<noteq> FAny"
  shows "bs \<notin> set (filter_name f)" "lpar \<notin> set (filter_name f)" "filter_name f \<noteq> []"
    "trim (filter_name f) = filter_name f" "tool_name_to_filter (filter_name f) = Some f"
    "\<not> is_whitespace (hd (filter_name f))"
  using assms
  by (cases f; simp add: trim_def trim_start_def trim_end_def is_whitespace_def tool_name_to_filter_def)+

lemma parse_with_content:
  assumes f: "f \<noteq> FAny" and X: "X \<noteq> []" "\<not> is_whitespace (hd X)" "\<not> is_whitespace (last X)"
  shows "parse_permission_rule (filter_name f @ lpar # escape_rule_content X @ [rpar]) act =
     (let p = (if X = lit ''*'' then [] else X);
          (p2, mode) = strip_domain_prefix (if f = FBash then strip_bash_colon_wildcard p else p)
      in Ok \<lparr>action = act, tool = f, pattern = opt_pattern p2, pattern_mode = mode\<rparr>)"
proof -
  note n = filter_name_ok [OF f]
  have whole: "trim (filter_name f @ lpar # escape_rule_content X @ [rpar])
      = filter_name f @ lpar # escape_rule_content X @ [rpar]"
    using n by (intro trim_id) (simp_all add: hd_append is_whitespace_def)
  have hd: "\<not> is_whitespace (hd (escape_rule_content X))"
    using X by (cases X) (auto simp: escape_Cons is_whitespace_def)
  have content: "trim (escape_rule_content X) = escape_rule_content X"
    using X hd by (intro trim_id) (simp_all add: escape_last)
  show ?thesis
    using X(1) n
    by (simp add: parse_permission_rule_def whole find_first_opening find_last_closing content escape_star
        unescape_escape Let_def del: lit_simps)
qed

text \<open>C25. Reading a printed rule gives the rule back, for every tool, pattern mode and pattern
  (parentheses and backslashes included) that the rule language can express.\<close>

theorem parse_print_rule:
  assumes "wf_rule r"
  shows "parse_permission_rule (print_rule r) (action r) = Ok r"
proof (cases "pattern r")
  case None
  show ?thesis
  proof (cases "tool r = FAny")
    case True
    with None assms show ?thesis
      by (simp add: print_rule_def wf_rule_def parse_permission_rule_def trim_def trim_start_def trim_end_def
          find_first_unescaped_def tool_name_to_filter_def opt_pattern_def)
  next
    case False
    note n = filter_name_ok [OF this]
    have "find_first_unescaped (filter_name (tool r)) lpar = None"
      using n(2) by (auto simp: find_first_unescaped_def find_None_iff) (metis nth_mem)
    with None assms n show ?thesis by (simp add: print_rule_def wf_rule_def parse_permission_rule_def)
  qed
next
  case (Some p)
  with assms have p: "p \<noteq> []" "trim p = p" by (simp_all add: wf_rule_def)
  note ws = trim_fixed [OF p(2,1)]
  show ?thesis
  proof (cases "tool r = FAny")
    case True
    with Some assms p show ?thesis
      by (simp add: print_rule_def wf_rule_def parse_permission_rule_def opt_pattern_def)
  next
    case False
    define X where "X = mode_prefix (pattern_mode r) @ p"
    have X: "X \<noteq> []" "\<not> is_whitespace (hd X)" "\<not> is_whitespace (last X)"
      using p ws by (cases "pattern_mode r"; simp add: X_def is_whitespace_def)+
    have star: "X \<noteq> lit ''*''"
      using Some assms False by (cases "pattern_mode r") (auto simp: X_def wf_rule_def)
    have colon: "(if tool r = FBash then strip_bash_colon_wildcard X else X) = X"
      using Some assms False
      by (auto simp: X_def wf_rule_def strip_bash_colon_wildcard_def ends_with_def starts_with_def)
    have dom: "strip_domain_prefix X = (p, pattern_mode r)"
      using Some assms False
      by (cases "pattern_mode r") (auto simp: X_def wf_rule_def strip_domain_prefix_def starts_with_def
          simp del: lit_simps)
    have printed: "print_rule r = filter_name (tool r) @ lpar # escape_rule_content X @ [rpar]"
      using Some False by (simp add: print_rule_def X_def)
    have "parse_permission_rule (print_rule r) (action r)
        = Ok \<lparr>action = action r, tool = tool r, pattern = opt_pattern p, pattern_mode = pattern_mode r\<rparr>"
      unfolding printed parse_with_content [OF False X] by (simp only: Let_def star colon dom if_False prod.case)
    with Some p show ?thesis by (simp add: opt_pattern_def)
  qed
qed

definition sample_rule :: PermissionRule where
  "sample_rule = \<lparr>action = RuleDeny, tool = FBash, pattern = Some (lit ''echo (x)''), pattern_mode = Glob\<rparr>"

theorem parse_print_rule_witness:
  "wf_rule sample_rule \<and> parse_permission_rule (print_rule sample_rule) RuleDeny = Ok sample_rule"
proof -
  have "wf_rule sample_rule" by code_simp
  with parse_print_rule [of sample_rule] show ?thesis by (simp add: sample_rule_def)
qed

text \<open>The \<open>domain:\<close> prefix is taken off the pattern of every tool, so a \<open>Bash\<close> rule written with it
  matches the commands that start with what follows.\<close>

theorem domain_prefix_on_bash:
  "parse_permission_rule (lit ''Bash(domain:rm)'') RuleDeny
     = Ok \<lparr>action = RuleDeny, tool = FBash, pattern = Some (lit ''rm''), pattern_mode = Domain\<rparr>"
  using parse_with_content [of FBash "lit ''domain:rm''" RuleDeny]
  by (simp add: escape_Cons is_whitespace_def strip_bash_colon_wildcard_def strip_domain_prefix_def
      opt_pattern_def)

end
