(* ===== verification/Shell_Tree.thy ===== *)
theory Shell_Tree
  imports Prelude
begin

text \<open>
  Decomposing shell scripts: \<open>permission/bash_command_splitting.rs\<close>. The tree-sitter parser is not
  part of the repository; it is a parameter \<open>ShellParser\<close> of the definitions that call it, and a
  node carries what the sources read of it: its kind, whether it is named, the field it fills in
  its parent, its byte range, the text of that range (\<open>None\<close> where \<open>utf8_text\<close> fails) and its
  children.

  The lemmas show that peeling wrapper commands always leaves a non-empty tail of the words, that
  the display splitter never cuts a character and loses no text, and that quoted words are split
  back into themselves.
\<close>

section \<open>Syntax trees\<close>

datatype Node =
  Node (kind: rstr) (is_named: bool) (field_name: "rstr option") (start_byte: nat) (end_byte: nat)
       (utf8_text: "rstr option") (children: "Node list")

record Tree =
  root_node :: Node
  has_error :: bool

type_synonym ShellParser = "rstr \<Rightarrow> Tree option"

definition named_children :: "Node \<Rightarrow> Node list" where
  "named_children n = filter is_named (children n)"

definition child_by_field_name :: "rstr \<Rightarrow> Node \<Rightarrow> Node option" where
  "child_by_field_name f n = List.find (\<lambda>c. field_name c = Some f) (children n)"

text \<open>The explicit stack the walks use, its top first: a popped node is visited and its children
  are pushed, so the last child is on top. \<open>dfs_outside\<close> pushes the children in reverse order and
  does not enter the nodes that satisfy the predicate.\<close>

function dfs :: "Node list \<Rightarrow> Node list" where
  "dfs [] = []"
| "dfs (n # stack) = n # dfs (rev (children n) @ stack)"
  by pat_completeness auto

function dfs_outside :: "(Node \<Rightarrow> bool) \<Rightarrow> Node list \<Rightarrow> Node list" where
  "dfs_outside skip [] = []"
| "dfs_outside skip (n # stack) = n # dfs_outside skip (if skip n then stack else children n @ stack)"
  by pat_completeness auto

lemma size_children: "sum_list (map size (children n)) < size n"
  by (cases n) (simp add: size_list_conv_sum_list)

lemma sum_list_map_rev: "sum_list (map f (rev xs)) = sum_list (map (f :: 'a \<Rightarrow> nat) xs)"
  by (simp add: rev_map [symmetric])

termination dfs
  using size_children
  by (relation "measure (\<lambda>st. sum_list (map size st))") (auto simp: sum_list_map_rev)

termination dfs_outside
  using size_children
  by (relation "measure (\<lambda>(skip, st). sum_list (map size st))") (auto intro: le_less_trans trans_le_add2)

section \<open>Plain commands\<close>

record PlainCommand =
  words :: "rstr list"
  span_start :: nat
  span_end :: nat

record BashCommandHighlights =
  hl_prefix :: "rstr list"
  highlighted_words :: "rstr list"
  hl_suffix :: "rstr list"

definition ALLOWED_KINDS :: "rstr list" where
  "ALLOWED_KINDS = map lit [''program'', ''list'', ''pipeline'', ''command'', ''command_name'', ''word'',
     ''string'', ''string_content'', ''raw_string'', ''number'', ''concatenation'',
     ''variable_assignment'', ''variable_name'', ''redirected_statement'', ''file_redirect'',
     ''file_descriptor'', ''comment'', ''heredoc_redirect'', ''heredoc_start'', ''heredoc_body'',
     ''heredoc_content'', ''heredoc_end'']"

definition ALLOWED_PUNCT_TOKENS :: "rstr list" where
  "ALLOWED_PUNCT_TOKENS = map lit [''&&'', ''||'', '';'', ''|'', [CHR 34], [CHR 39], ''='', ''>'', ''>>'',
     ''<'', ''<<'', ''>&'', ''&>'', ''&>>'']"

definition node_rejected :: "Node \<Rightarrow> bool" where
  "node_rejected n =
     (if is_named n then kind n \<notin> set ALLOWED_KINDS
      else ((\<exists>c \<in> set (kind n). c \<in> set (lit ''&;|'')) \<and> kind n \<notin> set ALLOWED_PUNCT_TOKENS) \<or>
           \<not> (kind n \<in> set ALLOWED_PUNCT_TOKENS \<or> trim (kind n) = []))"

text \<open>A raw string without its single quotes, as \<open>strip_prefix\<close> followed by \<open>strip_suffix\<close>.\<close>

definition strip_quotes :: "rchar \<Rightarrow> rstr \<Rightarrow> rstr option" where
  "strip_quotes q s =
     (case strip_prefix [q] s of
        None \<Rightarrow> None
      | Some r \<Rightarrow> map_option rev (strip_prefix [q] (rev r)))"

text \<open>The word a named child of a command contributes, with the node that spans it; \<open>None\<close> rejects
  the command and \<open>Some None\<close> skips the child.\<close>

definition plain_word :: "Node \<Rightarrow> (rstr \<times> Node) option option" where
  "plain_word child =
     (let k = kind child; as_text = (\<lambda>n. map_option (\<lambda>t. Some (t, n)) (utf8_text n))
      in if k = lit ''variable_assignment'' then Some None
         else if k = lit ''command_name''
         then (case named_children child of
                 [] \<Rightarrow> None
               | w # _ \<Rightarrow> if kind w \<noteq> lit ''word'' then None else as_text w)
         else if k = lit ''word'' \<or> k = lit ''number'' then as_text child
         else if k = lit ''string''
         then (case children child of
                 [a, b, c] \<Rightarrow>
                   if kind a = [34] \<and> kind b = lit ''string_content'' \<and> kind c = [34]
                   then map_option (\<lambda>t. Some (t, child)) (utf8_text b) else None
               | _ \<Rightarrow> None)
         else if k = lit ''raw_string''
         then (case utf8_text child of
                 None \<Rightarrow> None
               | Some t \<Rightarrow> map_option (\<lambda>r. Some (r, child)) (strip_quotes 39 t))
         else if k = lit ''concatenation'' then as_text child
         else None)"

fun plain_loop :: "Node list \<Rightarrow> rstr list \<Rightarrow> nat option \<Rightarrow> nat option
    \<Rightarrow> (rstr list \<times> nat option \<times> nat option) option" where
  "plain_loop [] ws s e = Some (ws, s, e)"
| "plain_loop (child # rest) ws s e =
     (case plain_word child of
        None \<Rightarrow> None
      | Some None \<Rightarrow> plain_loop rest ws s e
      | Some (Some (w, n)) \<Rightarrow>
          plain_loop rest (ws @ [w]) (case s of None \<Rightarrow> Some (start_byte n) | Some x \<Rightarrow> Some x)
            (Some (end_byte n)))"

definition parse_plain_command_from_node :: "Node \<Rightarrow> PlainCommand option" where
  "parse_plain_command_from_node cmd =
     (if kind cmd \<noteq> lit ''command'' then None
      else case plain_loop (named_children cmd) [] None None of
             None \<Rightarrow> None
           | Some (ws, s, e) \<Rightarrow>
               Some \<lparr>words = ws,
                     span_start = (case s of Some x \<Rightarrow> x | None \<Rightarrow> start_byte cmd),
                     span_end = (case e of Some x \<Rightarrow> x | None \<Rightarrow> end_byte cmd)\<rparr>)"

fun collect_opt :: "'a option list \<Rightarrow> 'a list option" where
  "collect_opt [] = Some []"
| "collect_opt (None # xs) = None"
| "collect_opt (Some x # xs) = map_option ((#) x) (collect_opt xs)"

definition try_parse_word_only_commands_sequence :: "Tree \<Rightarrow> PlainCommand list option" where
  "try_parse_word_only_commands_sequence tree =
     (if has_error tree then None
      else let nodes = dfs [root_node tree]
           in if \<exists>n \<in> set nodes. node_rejected n then None
              else let command_nodes =
                         sort_key start_byte (filter (\<lambda>n. is_named n \<and> kind n = lit ''command'') nodes)
                   in collect_opt (map parse_plain_command_from_node command_nodes))"

definition all_commands_from_script :: "ShellParser \<Rightarrow> rstr \<Rightarrow> PlainCommand list option" where
  "all_commands_from_script parse script =
     (case parse script of
        None \<Rightarrow> None
      | Some tree \<Rightarrow> try_parse_word_only_commands_sequence tree)"

section \<open>Setup commands and wrappers\<close>

definition is_setup_command :: "rstr list \<Rightarrow> bool" where
  "is_setup_command cmd =
     (case cmd of
        [] \<Rightarrow> True
      | w # _ \<Rightarrow> w \<in> set (map lit [''cd'', ''pushd'', ''popd'', ''export'', ''unset'', ''set'', ''source'',
                                     ''.'', ''sleep'', ''timeout'']))"

definition ascii_alpha :: "rchar \<Rightarrow> bool" where
  "ascii_alpha c \<longleftrightarrow> (65 \<le> c \<and> c \<le> 90) \<or> (97 \<le> c \<and> c \<le> 122)"

definition ascii_digit :: "rchar \<Rightarrow> bool" where
  "ascii_digit c \<longleftrightarrow> 48 \<le> c \<and> c \<le> 57"

definition is_env_assignment :: "rstr \<Rightarrow> bool" where
  "is_env_assignment tok =
     (61 \<in> set tok \<and>
      (let name = takeWhile (\<lambda>c. c \<noteq> 61) tok
       in name \<noteq> [] \<and> (ascii_alpha (hd name) \<or> hd name = 95) \<and>
          (\<forall>c \<in> set name. ascii_alpha c \<or> ascii_digit c \<or> c = 95)))"

abbreviation dash :: "rstr \<Rightarrow> bool" where "dash w \<equiv> starts_with [45] w"

function env_scan_loop :: "rstr list \<Rightarrow> rstr option \<Rightarrow> nat \<Rightarrow> rstr option \<times> nat" where
  "env_scan_loop cmd chdir i =
     (if length cmd \<le> i then (chdir, i)
      else let tok = cmd ! i
           in if tok = lit ''--'' then (chdir, i + 1)
              else if tok \<noteq> lit ''-'' \<and> dash tok
              then (if tok = lit ''-C'' \<or> tok = lit ''--chdir''
                    then env_scan_loop cmd (if i + 1 < length cmd then Some (cmd ! (i + 1)) else None) (i + 2)
                    else if starts_with (lit ''--chdir='') tok
                    then env_scan_loop cmd (strip_prefix (lit ''--chdir='') tok) (i + 1)
                    else if starts_with (lit ''-C'') tok
                    then env_scan_loop cmd (strip_prefix (lit ''-C'') tok) (i + 1)
                    else if tok \<in> set (map lit [''-u'', ''--unset'', ''-S'', ''--split-string''])
                    then env_scan_loop cmd chdir (i + 2)
                    else env_scan_loop cmd chdir (i + 1))
              else if is_env_assignment tok then env_scan_loop cmd chdir (i + 1)
              else (chdir, i))"
  by auto

termination
  by (relation "measure (\<lambda>(cmd, chdir, i). length cmd - i)") auto

declare env_scan_loop.simps [simp del]

definition env_scan :: "rstr list \<Rightarrow> rstr option \<times> nat" where
  "env_scan cmd = env_scan_loop cmd None 1"

text \<open>The last piece of a path, \<open>rsplit(['/', '\\']).next()\<close>.\<close>

definition shell_program_name :: "rstr \<Rightarrow> rstr" where
  "shell_program_name w = rev (takeWhile (\<lambda>c. c \<noteq> 47 \<and> c \<noteq> 92) (rev w))"

text \<open>The option loop the wrappers share: an option listed in \<open>with_value\<close> also takes the next
  word.\<close>

function skip_options :: "rstr list \<Rightarrow> rstr list \<Rightarrow> nat \<Rightarrow> nat" where
  "skip_options with_value cmd i =
     (if i < length cmd \<and> dash (cmd ! i)
      then skip_options with_value cmd (if cmd ! i \<in> set with_value then i + 2 else i + 1)
      else i)"
  by auto

termination
  by (relation "measure (\<lambda>(wv, cmd, i). length cmd - i)") auto

declare skip_options.simps [simp del]

definition IONICE_VALUE_FLAGS :: "rstr list" where
  "IONICE_VALUE_FLAGS = map lit [''-c'', ''-n'', ''-p'', ''-P'', ''-u'', ''--class'', ''--classdata'',
     ''--pid'', ''--pgid'', ''--uid'']"

definition operand_then :: "rstr list \<Rightarrow> nat \<Rightarrow> nat option" where
  "operand_then cmd i = (if length cmd \<le> i then None else Some (i + 1))"

definition wrapper_inner_index :: "rstr \<Rightarrow> rstr list \<Rightarrow> nat option" where
  "wrapper_inner_index hd_name cmd =
     (if hd_name = lit ''timeout''
      then operand_then cmd (skip_options (map lit [''-k'', ''-s'', ''--kill-after'', ''--signal'']) cmd 1)
      else if hd_name = lit ''nice''
      then Some (skip_options (map lit [''-n'', ''--adjustment'']) cmd 1)
      else if hd_name = lit ''ionice'' then Some (skip_options IONICE_VALUE_FLAGS cmd 1)
      else if hd_name = lit ''chrt'' then operand_then cmd (skip_options [] cmd 1)
      else if hd_name = lit ''stdbuf''
      then Some (skip_options (map lit [''-i'', ''-o'', ''-e'']) cmd 1)
      else if hd_name = lit ''env'' then Some (snd (env_scan cmd))
      else None)"

definition strip_wrapper_command :: "rstr list \<Rightarrow> rstr list option" where
  "strip_wrapper_command cmd =
     (case cmd of
        [] \<Rightarrow> None
      | w # _ \<Rightarrow>
          (case wrapper_inner_index (shell_program_name w) cmd of
             None \<Rightarrow> None
           | Some i \<Rightarrow> if i < length cmd then Some (drop i cmd) else None))"

definition WRAPPERS :: "rstr list" where
  "WRAPPERS = map lit [''timeout'', ''nice'', ''ionice'', ''chrt'', ''stdbuf'', ''env'']"

definition is_wrapper_command :: "rstr list \<Rightarrow> bool" where
  "is_wrapper_command ws = (case ws of [] \<Rightarrow> False | w # _ \<Rightarrow> shell_program_name w \<in> set WRAPPERS)"

fun unwrap_loop :: "nat \<Rightarrow> rstr list \<Rightarrow> rstr list" where
  "unwrap_loop 0 ws = ws"
| "unwrap_loop (Suc n) ws =
     (case strip_wrapper_command ws of Some inner \<Rightarrow> unwrap_loop n inner | None \<Rightarrow> ws)"

definition unwrap_wrappers :: "rstr list \<Rightarrow> rstr list" where
  "unwrap_wrappers ws = unwrap_loop 8 ws"

fun chdir_loop :: "nat \<Rightarrow> rstr list \<Rightarrow> bool" where
  "chdir_loop 0 ws = False"
| "chdir_loop (Suc n) ws =
     (if ws \<noteq> [] \<and> shell_program_name (hd ws) = lit ''env'' \<and> fst (env_scan ws) \<noteq> None then True
      else case strip_wrapper_command ws of Some inner \<Rightarrow> chdir_loop n inner | None \<Rightarrow> False)"

definition wrapper_has_chdir :: "rstr list \<Rightarrow> bool" where
  "wrapper_has_chdir ws = chdir_loop 8 ws"

section \<open>Splitting text\<close>

fun sh_split_loop :: "rstr \<Rightarrow> rstr \<Rightarrow> bool \<Rightarrow> bool \<Rightarrow> rstr list" where
  "sh_split_loop [] current in_single in_double = (if current = [] then [] else [current])"
| "sh_split_loop (c # cs) current in_single in_double =
     (if c = 39 \<and> \<not> in_double then sh_split_loop cs current (\<not> in_single) in_double
      else if c = 34 \<and> \<not> in_single then sh_split_loop cs current in_single (\<not> in_double)
      else if c = 92
      then (case cs of
              [] \<Rightarrow> sh_split_loop [] current in_single in_double
            | next # rest \<Rightarrow> sh_split_loop rest (current @ [next]) in_single in_double)
      else if is_whitespace c \<and> \<not> in_single \<and> \<not> in_double
      then (if current = [] then sh_split_loop cs [] in_single in_double
            else current # sh_split_loop cs [] in_single in_double)
      else sh_split_loop cs (current @ [c]) in_single in_double)"

definition sh_split_simple :: "rstr \<Rightarrow> rstr list" where
  "sh_split_simple s = sh_split_loop s [] False False"

text \<open>Slicing at a byte position: \<open>None\<close> is the panic of a position past the end or inside a
  character.\<close>

fun split_at_byte :: "rstr \<Rightarrow> nat \<Rightarrow> (rstr \<times> rstr) option" where
  "split_at_byte s 0 = Some ([], s)"
| "split_at_byte [] (Suc b) = None"
| "split_at_byte (c # s) (Suc b) =
     (if Suc b < utf8_len c then None
      else map_option (\<lambda>(x, y). (c # x, y)) (split_at_byte s (Suc b - utf8_len c)))"

definition is_char_boundary :: "rstr \<Rightarrow> nat \<Rightarrow> bool" where
  "is_char_boundary s b \<longleftrightarrow> split_at_byte s b \<noteq> None"

text \<open>The outer option is the panic of slicing the script, the inner one the result.\<close>

definition primary_command_from_script :: "ShellParser \<Rightarrow> rstr \<Rightarrow> BashCommandHighlights option option" where
  "primary_command_from_script parse script =
     (case all_commands_from_script parse script of
        None \<Rightarrow> Some None
      | Some commands \<Rightarrow>
          (case List.find (\<lambda>c. \<not> is_setup_command (words c)) commands of
             None \<Rightarrow> Some None
           | Some primary \<Rightarrow>
               (case (split_at_byte script (span_start primary), split_at_byte script (span_end primary)) of
                  (Some (before, _), Some (_, after)) \<Rightarrow>
                    Some (Some \<lparr>hl_prefix = sh_split_simple before, highlighted_words = words primary,
                                hl_suffix = sh_split_simple after\<rparr>)
                | _ \<Rightarrow> None)))"

section \<open>Display soft breaks\<close>

definition PAYLOAD_NODE_KINDS :: "rstr list" where
  "PAYLOAD_NODE_KINDS = map lit [''heredoc_body'', ''simple_heredoc_body'', ''heredoc_content'',
     ''heredoc_end'', ''string'', ''raw_string'', ''string_content'', ''ansi_c_string'',
     ''translated_string'', ''comment'']"

definition is_soft_break_operator_kind :: "rstr \<Rightarrow> bool" where
  "is_soft_break_operator_kind k \<longleftrightarrow> k \<in> set (map lit [''&&'', ''||'', ''|'', '';''])"

definition is_payload_node_kind :: "rstr \<Rightarrow> bool" where
  "is_payload_node_kind k \<longleftrightarrow> k \<in> set PAYLOAD_NODE_KINDS"

definition soft_break_offsets_after_operators :: "ShellParser \<Rightarrow> rstr \<Rightarrow> nat list" where
  "soft_break_offsets_after_operators parse script =
     (case parse script of
        None \<Rightarrow> []
      | Some tree \<Rightarrow>
          if has_error tree then []
          else remdups_adj (sort
                 (filter (\<lambda>e. 0 < e \<and> e \<le> len_bytes script \<and> is_char_boundary script e)
                   (map end_byte (filter (\<lambda>n. \<not> is_payload_node_kind (kind n) \<and> is_soft_break_operator_kind (kind n))
                     (dfs_outside (\<lambda>n. is_payload_node_kind (kind n)) [root_node tree]))))))"

definition HEREDOC_PAYLOAD :: "rstr list" where
  "HEREDOC_PAYLOAD = map lit [''heredoc_body'', ''simple_heredoc_body'', ''heredoc_content'']"

text \<open>Tuples are sorted lexicographically: by the start, and by the end among equal starts.\<close>

definition sort_ranges :: "(nat \<times> nat) list \<Rightarrow> (nat \<times> nat) list" where
  "sort_ranges rs = sort_key fst (sort_key snd rs)"

definition heredoc_payload_byte_ranges :: "ShellParser \<Rightarrow> rstr \<Rightarrow> (nat \<times> nat) list" where
  "heredoc_payload_byte_ranges parse script =
     (case parse script of
        None \<Rightarrow> []
      | Some tree \<Rightarrow>
          if has_error tree then []
          else remdups_adj (sort_ranges
                 (filter (\<lambda>(s, e). s < e \<and> e \<le> len_bytes script)
                   (map (\<lambda>n. (start_byte n, end_byte n)) (filter (\<lambda>n. kind n \<in> set HEREDOC_PAYLOAD)
                     (dfs_outside (\<lambda>n. kind n \<in> set HEREDOC_PAYLOAD) [root_node tree]))))))"

definition range_fully_inside :: "nat \<Rightarrow> nat \<Rightarrow> (nat \<times> nat) list \<Rightarrow> bool" where
  "range_fully_inside s e ranges \<longleftrightarrow> \<not> e < s \<and> (\<exists>(rs, re) \<in> set ranges. rs \<le> s \<and> e \<le> re)"

text \<open>Cutting at positions counted from the beginning of the text; \<open>rest\<close> is what is left from
  \<open>start\<close> on.\<close>

fun cut_loop :: "rstr \<Rightarrow> nat \<Rightarrow> nat list \<Rightarrow> rstr list option" where
  "cut_loop rest start [] = Some (if rest = [] then [] else [rest])"
| "cut_loop rest start (b # bs) =
     (if start < b
      then (case split_at_byte rest (b - start) of
              None \<Rightarrow> None
            | Some (x, y) \<Rightarrow> map_option ((#) x) (cut_loop y b bs))
      else cut_loop rest start bs)"

definition split_physical_line_at_soft_breaks :: "rstr \<Rightarrow> nat \<Rightarrow> nat list \<Rightarrow> rstr list option" where
  "split_physical_line_at_soft_breaks line line_start breaks =
     (let rel = remdups_adj (filter (is_char_boundary line)
                  (map (\<lambda>b. b - line_start)
                    (filter (\<lambda>b. line_start < b \<and> b < line_start + len_bytes line) breaks)))
      in if rel = [] then Some [line]
         else map_option (\<lambda>chunks. if chunks = [] then [line] else chunks) (cut_loop line 0 rel))"

definition soft_break_chunks :: "ShellParser \<Rightarrow> rstr \<Rightarrow> rstr list option" where
  "soft_break_chunks parse script =
     (let breaks = soft_break_offsets_after_operators parse script
      in if breaks = [] then Some [script]
         else cut_loop script 0 (filter (\<lambda>b. b \<le> len_bytes script) breaks))"

section \<open>Lemmas on wrappers\<close>

lemma skip_options_ge: "i \<le> skip_options wv cmd i"
proof (induction wv cmd i rule: skip_options.induct)
  case (1 wv cmd i)
  then show ?case by (auto simp: skip_options.simps [of wv cmd i] split: if_splits)
qed

text \<open>One step of the scan stops at this word or the next, or goes on one or two words later.\<close>

lemma env_scan_step:
  "env_scan_loop cmd chdir i \<in> {(chdir, i), (chdir, i + 1)}
   \<or> (i < length cmd \<and> (\<exists>c' j. j \<in> {i + 1, i + 2} \<and> env_scan_loop cmd chdir i = env_scan_loop cmd c' j))"
proof (cases "i < length cmd")
  case True
  define ok where "ok v \<longleftrightarrow> v \<in> {(chdir, i), (chdir, i + 1)}
      \<or> (\<exists>c' j. j \<in> {i + 1, i + 2} \<and> v = env_scan_loop cmd c' j)" for v
  have stop: "ok (chdir, i)" "ok (chdir, i + 1)" by (simp_all add: ok_def)
  have on: "ok (env_scan_loop cmd c' (i + 1))" "ok (env_scan_loop cmd c' (i + 2))" for c'
    unfolding ok_def by blast+
  have branch: "ok v \<Longrightarrow> ok w \<Longrightarrow> ok (if b then v else w)" for b v w by simp
  have "ok (env_scan_loop cmd chdir i)"
    unfolding env_scan_loop.simps [of cmd chdir i] Let_def by (intro branch stop on)
  with True show ?thesis unfolding ok_def by blast
next
  case False
  then show ?thesis by (simp add: env_scan_loop.simps [of cmd chdir i])
qed

lemma env_scan_loop_ge: "i \<le> snd (env_scan_loop cmd chdir i)"
proof (induction "length cmd - i" arbitrary: chdir i rule: less_induct)
  case less
  from env_scan_step [of cmd chdir i] show ?case
  proof (elim disjE conjE exE)
    fix c' j assume j: "i < length cmd" "j \<in> {i + 1, i + 2}" "env_scan_loop cmd chdir i = env_scan_loop cmd c' j"
    then have "j \<le> snd (env_scan_loop cmd c' j)" by (intro less) auto
    with j show ?thesis by auto
  qed auto
qed

lemma wrapper_index_pos: "wrapper_inner_index h cmd = Some i \<Longrightarrow> 0 < i"
  using skip_options_ge [of 1 _ cmd] env_scan_loop_ge [of 1 cmd None]
  by (auto simp: wrapper_inner_index_def operand_then_def env_scan_def Suc_le_eq simp del: lit_simps split: if_splits)

text \<open>A wrapper that is peeled leaves a non-empty proper tail of the words.\<close>

lemma strip_wrapper_tail:
  assumes "strip_wrapper_command cmd = Some inner"
  shows "strict_suffix inner cmd" "inner \<noteq> []"
proof -
  from assms obtain w ws i where cmd: "cmd = w # ws" and i: "wrapper_inner_index (shell_program_name w) cmd = Some i"
    "i < length cmd" "inner = drop i cmd"
    by (auto simp: strip_wrapper_command_def split: list.splits option.splits if_splits)
  from i(2,3) show "inner \<noteq> []" by simp
  have "0 < i" using i(1) by (rule wrapper_index_pos)
  with i show "strict_suffix inner cmd"
    by (auto simp: strict_suffix_def suffix_drop dest: arg_cong [where f = length])
qed

lemma unwrap_loop_suffix: "suffix (unwrap_loop n ws) ws"
proof (induction n arbitrary: ws)
  case (Suc n)
  then show ?case
    by (auto split: option.splits dest!: strip_wrapper_tail(1))
       (meson strict_suffix_def suffix_order.trans)
qed simp

lemma unwrap_wrappers_none: "strip_wrapper_command ws = None \<Longrightarrow> unwrap_wrappers ws = ws"
  using unwrap_loop.simps(2) [of 7 ws] by (simp add: unwrap_wrappers_def)

lemma unwrap_wrappers_suffix: "suffix (unwrap_wrappers ws) ws"
  unfolding unwrap_wrappers_def by (rule unwrap_loop_suffix)

lemma unwrap_loop_empty: "unwrap_loop n ws = [] \<longleftrightarrow> ws = []"
proof (induction n arbitrary: ws)
  case (Suc n)
  then show ?case by (auto simp: strip_wrapper_command_def split: option.splits list.splits)
qed simp

lemma unwrap_wrappers_empty [simp]: "unwrap_wrappers ws = [] \<longleftrightarrow> ws = []"
  unfolding unwrap_wrappers_def by (rule unwrap_loop_empty)

section \<open>Cutting text loses nothing\<close>

lemma split_at_byte_Some: "split_at_byte s b = Some (x, y) \<Longrightarrow> s = x @ y \<and> len_bytes x = b"
  by (induction s b arbitrary: x y rule: split_at_byte.induct) (fastforce split: if_splits)+

lemma split_at_byte_append: "split_at_byte (x @ y) (len_bytes x) = Some (x, y)"
proof (induction x)
  case (Cons c x)
  have "utf8_len c \<noteq> 0" using utf8_len_bounds(1) [of c] by simp
  then obtain k where "len_bytes (c # x) = Suc k" by (cases "len_bytes (c # x)") auto
  moreover have "Suc k - utf8_len c = len_bytes x" using calculation by simp
  ultimately show ?case using Cons.IH by auto
qed simp

lemma boundary_iff: "is_char_boundary s b \<longleftrightarrow> (\<exists>x y. s = x @ y \<and> len_bytes x = b)"
  unfolding is_char_boundary_def
  using split_at_byte_Some [of s b] split_at_byte_append by (metis not_None_eq surj_pair)

lemma len_bytes_eq_0 [simp]: "len_bytes s = 0 \<longleftrightarrow> s = []"
  using length_le_len_bytes [of s] by (cases s) auto

lemma boundary_rest:
  assumes "s = x @ rest" "is_char_boundary s b" "len_bytes x < b"
  obtains y z where "rest = y @ z" "y \<noteq> []" "len_bytes x + len_bytes y = b" "split_at_byte rest (b - len_bytes x) = Some (y, z)"
proof -
  from assms(2) obtain u z where u: "s = u @ z" "len_bytes u = b" by (auto simp: boundary_iff)
  from assms(1) u(1) have "x @ rest = u @ z" by simp
  then consider y where "u = x @ y" "rest = y @ z" | y where "x = u @ y" "y @ rest = z"
    by (auto simp: append_eq_append_conv2)
  then show thesis
  proof cases
    case 1
    with u(2) assms(3) have "y \<noteq> []" "b - len_bytes x = len_bytes y" by auto
    with 1 u(2) show thesis using split_at_byte_append [of y z] by (intro that [of y z]) auto
  qed (use u(2) assms(3) in auto)
qed

text \<open>The pieces are not empty, together they are the text, and each inner cut is at one of the
  positions.\<close>

lemma cut_loop_correct:
  assumes "\<forall>b \<in> set bs. is_char_boundary (x @ rest) b"
  shows "\<exists>cs. cut_loop rest (len_bytes x) bs = Some cs \<and> concat cs = rest \<and> [] \<notin> set cs
      \<and> (\<forall>k. 0 < k \<longrightarrow> k < length cs \<longrightarrow> len_bytes x + len_bytes (concat (take k cs)) \<in> set bs)"
  using assms
proof (induction bs arbitrary: x rest)
  case Nil
  then show ?case by auto
next
  case (Cons b bs)
  show ?case
  proof (cases "len_bytes x < b")
    case True
    from Cons.prems have "is_char_boundary (x @ rest) b" by simp
    then obtain y z where yz: "rest = y @ z" "y \<noteq> []" "len_bytes x + len_bytes y = b"
      "split_at_byte rest (b - len_bytes x) = Some (y, z)"
      using boundary_rest [OF refl _ True] by metis
    have "\<forall>b \<in> set bs. is_char_boundary ((x @ y) @ z) b" using Cons.prems yz(1) by simp
    from Cons.IH [OF this] obtain cs where cs: "cut_loop z b bs = Some cs" "concat cs = z" "[] \<notin> set cs"
      "\<And>k. 0 < k \<Longrightarrow> k < length cs \<Longrightarrow> b + len_bytes (concat (take k cs)) \<in> set bs"
      using yz(3) by auto
    have "len_bytes x + len_bytes (concat (take k (y # cs))) \<in> set (b # bs)"
      if "0 < k" "k < length (y # cs)" for k
      using that cs(4) [of "k - 1"] yz(3) by (cases k; cases "k - 1") (auto simp: add.assoc [symmetric])
    with True yz cs show ?thesis by (intro exI [of _ "y # cs"]) auto
  next
    case False
    with Cons show ?thesis by fastforce
  qed
qed

lemma soft_break_offsets_boundary:
  "b \<in> set (soft_break_offsets_after_operators parse script) \<Longrightarrow> is_char_boundary script b"
  by (auto simp: soft_break_offsets_after_operators_def split: option.splits if_splits)

text \<open>Laying a script out for display never panics and never loses text: whatever the parser
  returned, the pieces of the script, and the pieces of one of its lines for any list of break
  positions, put together are the script or the line, no piece of a non-empty text is empty, and
  every inner cut is at one of the breaks.\<close>

theorem soft_breaks_lossless:
  "(\<exists>chunks. soft_break_chunks parse script = Some chunks \<and> concat chunks = script
      \<and> (script \<noteq> [] \<longrightarrow> [] \<notin> set chunks)
      \<and> (\<forall>k. 0 < k \<longrightarrow> k < length chunks
           \<longrightarrow> len_bytes (concat (take k chunks)) \<in> set (soft_break_offsets_after_operators parse script)))
   \<and> (\<exists>chunks. split_physical_line_at_soft_breaks line line_start breaks = Some chunks \<and> concat chunks = line
      \<and> (line \<noteq> [] \<longrightarrow> [] \<notin> set chunks)
      \<and> (\<forall>k. 0 < k \<longrightarrow> k < length chunks \<longrightarrow> line_start + len_bytes (concat (take k chunks)) \<in> set breaks))"
proof (intro conjI)
  define bs where "bs = filter (\<lambda>b. b \<le> len_bytes script) (soft_break_offsets_after_operators parse script)"
  have "\<forall>b \<in> set bs. is_char_boundary ([] @ script) b"
    using soft_break_offsets_boundary by (auto simp: bs_def)
  from cut_loop_correct [OF this] obtain cs where cs: "cut_loop script 0 bs = Some cs" "concat cs = script" "[] \<notin> set cs"
    "\<forall>k. 0 < k \<longrightarrow> k < length cs \<longrightarrow> len_bytes (concat (take k cs)) \<in> set bs" by auto
  show "\<exists>chunks. soft_break_chunks parse script = Some chunks \<and> concat chunks = script
      \<and> (script \<noteq> [] \<longrightarrow> [] \<notin> set chunks)
      \<and> (\<forall>k. 0 < k \<longrightarrow> k < length chunks
           \<longrightarrow> len_bytes (concat (take k chunks)) \<in> set (soft_break_offsets_after_operators parse script))"
    using cs by (auto simp: soft_break_chunks_def Let_def bs_def)
next
  define rel where "rel = remdups_adj (filter (is_char_boundary line)
      (map (\<lambda>b. b - line_start) (filter (\<lambda>b. line_start < b \<and> b < line_start + len_bytes line) breaks)))"
  have "\<forall>b \<in> set rel. is_char_boundary ([] @ line) b" by (auto simp: rel_def)
  from cut_loop_correct [OF this] obtain cs where cs: "cut_loop line 0 rel = Some cs" "concat cs = line" "[] \<notin> set cs"
    "\<forall>k. 0 < k \<longrightarrow> k < length cs \<longrightarrow> len_bytes (concat (take k cs)) \<in> set rel" by auto
  have inb: "line_start + p \<in> set breaks" if "p \<in> set rel" for p using that by (auto simp: rel_def)
  have eq: "split_physical_line_at_soft_breaks line line_start breaks
      = (if rel = [] then Some [line] else Some (if cs = [] then [line] else cs))"
    using cs(1) by (simp add: split_physical_line_at_soft_breaks_def Let_def rel_def [symmetric])
  show "\<exists>chunks. split_physical_line_at_soft_breaks line line_start breaks = Some chunks \<and> concat chunks = line
      \<and> (line \<noteq> [] \<longrightarrow> [] \<notin> set chunks)
      \<and> (\<forall>k. 0 < k \<longrightarrow> k < length chunks \<longrightarrow> line_start + len_bytes (concat (take k chunks)) \<in> set breaks)"
    unfolding eq using cs inb by (cases "rel = []"; cases "cs = []") auto
qed

theorem soft_breaks_lossless_witness:
  "\<exists>chunks. split_physical_line_at_soft_breaks (lit ''a && b'') 0 [4] = Some chunks
     \<and> concat chunks = lit ''a && b'' \<and> [] \<notin> set chunks
     \<and> (\<forall>k. 0 < k \<longrightarrow> k < length chunks \<longrightarrow> len_bytes (concat (take k chunks)) \<in> {4})"
  using soft_breaks_lossless [of "\<lambda>s. None" "[]" "lit ''a && b''" 0 "[4]"] by auto

section \<open>Quoted words are split back\<close>

definition backslash_quote :: "rstr \<Rightarrow> rstr" where
  "backslash_quote w = concat (map (\<lambda>c. [92, c]) w)"

lemma sh_split_quoted:
  "sh_split_loop (backslash_quote w @ s) cur False False = sh_split_loop s (cur @ w) False False"
  by (induction w arbitrary: cur) (simp_all add: backslash_quote_def)

lemma sh_split_space:
  "sh_split_loop (32 # s) cur False False = (if cur = [] then [] else [cur]) @ sh_split_loop s [] False False"
  by (simp add: is_whitespace_def)

text \<open>Words quoted character by character and joined by blanks are the words the splitter returns.\<close>

lemma sh_split_join: "[] \<notin> set ws \<Longrightarrow> sh_split_simple (join [32] (map backslash_quote ws)) = ws"
proof (induction ws)
  case (Cons w ws)
  show ?case
  proof (cases ws)
    case Nil
    with Cons.prems show ?thesis using sh_split_quoted [of w "[]" "[]"] by (simp add: sh_split_simple_def)
  next
    case (Cons v vs)
    then have "join [32] (map backslash_quote (w # ws))
        = backslash_quote w @ 32 # join [32] (map backslash_quote ws)"
      by (simp add: join_Cons)
    with Cons.IH Cons.prems show ?thesis
      by (auto simp: sh_split_simple_def sh_split_quoted is_whitespace_def)
  qed
qed (simp add: sh_split_simple_def)

end
