(* ===== verification/Shell_Access.thy ===== *)
theory Shell_Access
  imports Perm_Policy
begin

text \<open>
  File access inside shell commands: \<open>permission/shell_access.rs\<close>. The gate collects the files a
  script reads and writes (redirections, operands of known readers and writers, operands named by
  flags), judges each as a read or an edit of that path, as written, made absolute and with symbolic
  links followed, and asks when an operand cannot be pinned down.

  Paths follow \<open>std::path\<close> on Unix; resolving a path walks lists of components. The file system is
  the one of \<open>Externals\<close>.
\<close>

section \<open>Paths\<close>

abbreviation slash :: rchar where "slash \<equiv> 47"

text \<open>A drive prefix: the second byte is a colon, so the first character is one byte long.\<close>

definition drive_prefix :: "rstr \<Rightarrow> bool" where
  "drive_prefix p \<longleftrightarrow> 1 < length p \<and> p ! 1 = 58 \<and> p ! 0 < 128"

definition is_absolute_shell_path :: "rstr \<Rightarrow> bool" where
  "is_absolute_shell_path p \<longleftrightarrow> starts_with [slash] p \<or> starts_with (lit ''~/'') p \<or> drive_prefix p"

definition trim_matches :: "rchar set \<Rightarrow> rstr \<Rightarrow> rstr" where
  "trim_matches cs s = rev (dropWhile (\<lambda>c. c \<in> cs) (rev (dropWhile (\<lambda>c. c \<in> cs) s)))"

definition normalize_shell_path_raw :: "rstr \<Rightarrow> rstr" where
  "normalize_shell_path_raw path =
     (let p = map (\<lambda>c. if c = 92 then slash else c) (trim_matches {34, 39} path)
      in case strip_prefix (lit ''/c/'') p of Some rest \<Rightarrow> lit ''C:/'' @ rest | None \<Rightarrow> p)"

text \<open>\<open>out\<close> is the stack of kept segments, its top first.\<close>

fun normalize_segments :: "bool \<Rightarrow> rstr list \<Rightarrow> rstr list \<Rightarrow> rstr list" where
  "normalize_segments absolute [] out = out"
| "normalize_segments absolute (seg # rest) out =
     (if seg = [] \<or> seg = lit ''.'' then normalize_segments absolute rest out
      else if seg = lit ''..''
      then (if out \<noteq> [] \<and> hd out \<noteq> lit ''..'' then normalize_segments absolute rest (tl out)
            else if \<not> absolute then normalize_segments absolute rest (lit ''..'' # out)
            else normalize_segments absolute rest out)
      else normalize_segments absolute rest (seg # out))"

definition lexical_normalize :: "rstr \<Rightarrow> rstr" where
  "lexical_normalize path =
     (let n = (if drive_prefix path then 2 else 0);
          pre = take n path; rest = drop n path;
          absolute = starts_with [slash] rest;
          body = join [slash] (rev (normalize_segments absolute (split_on slash rest) []))
      in if pre \<noteq> [] then (if absolute then pre @ slash # body else pre @ body)
         else if absolute then slash # body else body)"

definition normalize_shell_path :: "rstr \<Rightarrow> rstr" where
  "normalize_shell_path path = lexical_normalize (normalize_shell_path_raw path)"

text \<open>\<open>Path::join\<close>, the components of an absolute path and its text.\<close>

definition path_join :: "rstr \<Rightarrow> rstr \<Rightarrow> rstr" where
  "path_join a b = (if starts_with [slash] b then b else if a = [] \<or> last a = slash then a @ b else a @ slash # b)"

definition components :: "rstr \<Rightarrow> rstr list" where
  "components p = filter (\<lambda>s. s \<noteq> [] \<and> s \<noteq> lit ''.'') (split_on slash p)"

definition path_text :: "rstr list \<Rightarrow> rstr" where
  "path_text cs = slash # join [slash] cs"

definition path_has_symlink :: "Externals \<Rightarrow> rstr \<Rightarrow> bool" where
  "path_has_symlink E absolute =
     (starts_with [slash] absolute \<and>
      (\<exists>k \<in> set [0..<Suc (length (components absolute))]. is_symlink E (path_text (take k (components absolute)))))"

text \<open>The first argument is the number of steps left: \<open>depth\<close> of the source counts up from 0 and a
  depth above 40 gives up.\<close>

primrec resolve_following_symlinks :: "nat \<Rightarrow> Externals \<Rightarrow> rstr list \<Rightarrow> rstr list option" where
  "resolve_following_symlinks 0 E path = None"
| "resolve_following_symlinks (Suc n) E path =
     (case canonicalize E (path_text path) of
        Some c \<Rightarrow> Some (components c)
      | None \<Rightarrow>
          if path = [] \<or> last path = lit ''..'' then None
          else case resolve_following_symlinks n E (butlast path) of
                 None \<Rightarrow> None
               | Some resolved_parent \<Rightarrow>
                   (let candidate = resolved_parent @ [last path]
                    in if is_symlink E (path_text candidate)
                       then (case read_link E (path_text candidate) of
                               None \<Rightarrow> None
                             | Some target \<Rightarrow>
                                 resolve_following_symlinks n E
                                   (if starts_with [slash] target then components target
                                    else resolved_parent @ components target))
                       else Some candidate))"

definition MAX_SYMLINK_DEPTH :: nat where "MAX_SYMLINK_DEPTH = 40"

definition resolve_symlink_target :: "Externals \<Rightarrow> rstr \<Rightarrow> rstr option" where
  "resolve_symlink_target E absolute =
     (if \<not> starts_with [slash] absolute then None
      else map_option (\<lambda>cs. normalize_shell_path (path_text cs))
             (resolve_following_symlinks (MAX_SYMLINK_DEPTH + 1) E (components absolute)))"

section \<open>Programs and their operands\<close>

datatype ShellFileMode = FileRead | FileWrite

definition READERS :: "rstr list" where
  "READERS = map lit [''cat'', ''tac'', ''nl'', ''head'', ''tail'', ''grep'', ''egrep'', ''fgrep'', ''rg'', ''sed'',
     ''awk'', ''less'', ''more'', ''bat'', ''strings'', ''xxd'', ''od'', ''hexdump'', ''base64'', ''base32'', ''cut'',
     ''sort'', ''uniq'', ''wc'', ''type'', ''get-content'', ''gc'', ''diff'', ''comm'', ''rev'', ''jq'', ''yq'',
     ''select-string'', ''sls'', ''ag'', ''ack'', ''zcat'', ''zless'', ''zmore'', ''zgrep'', ''zegrep'', ''zfgrep'',
     ''bzcat'', ''bzgrep'', ''xzcat'', ''xzgrep'', ''zstdcat'', ''lz4cat'']"

definition WRITERS :: "rstr list" where
  "WRITERS = map lit [''tee'', ''set-content'', ''out-file'', ''add-content'', ''tee-object'', ''truncate'']"

definition shell_file_mode :: "rstr \<Rightarrow> ShellFileMode option" where
  "shell_file_mode program =
     (if program \<in> set READERS then Some FileRead
      else if program \<in> set WRITERS then Some FileWrite else None)"

definition short_flag_with :: "rchar \<Rightarrow> rstr \<Rightarrow> bool" where
  "short_flag_with c w \<longleftrightarrow> dash w \<and> \<not> starts_with (lit ''--'') w \<and> c \<in> set w"

definition shell_sed_in_place :: "rstr list \<Rightarrow> bool" where
  "shell_sed_in_place ws =
     (\<exists>w \<in> set (drop 1 ws). w = lit ''--in-place'' \<or> starts_with (lit ''--in-place='') w \<or> short_flag_with 105 w)"

text \<open>\<open>followed ws\<close> pairs every word with the one after it.\<close>

fun followed :: "rstr list \<Rightarrow> (rstr \<times> rstr option) list" where
  "followed [] = []"
| "followed [w] = [(w, None)]"
| "followed (w # v # ws) = (w, Some v) # followed (v # ws)"

definition non_empty :: "rstr option \<Rightarrow> rstr option" where
  "non_empty v = (case v of Some [] \<Rightarrow> None | _ \<Rightarrow> v)"

definition output_flag_value :: "rstr \<times> rstr option \<Rightarrow> rstr option" where
  "output_flag_value p =
     (case p of
        (token, next) \<Rightarrow>
          (case strip_prefix (lit ''--output='') token of
             Some v \<Rightarrow> Some v
           | None \<Rightarrow>
               (case non_empty (strip_prefix (lit ''-o'') token) of
                  Some v \<Rightarrow> Some v
                | None \<Rightarrow> if token = lit ''--output'' \<or> token = lit ''-o'' then next else None)))"

definition shell_output_flag_values :: "rstr list \<Rightarrow> rstr list" where
  "shell_output_flag_values ws = List.map_filter output_flag_value (followed ws)"

definition flag_value :: "rstr \<Rightarrow> rstr \<times> rstr option \<Rightarrow> rstr option" where
  "flag_value flag p =
     (case p of
        (token, next) \<Rightarrow>
          (case strip_prefix (flag @ lit ''='') token of
             Some v \<Rightarrow> Some v
           | None \<Rightarrow>
               if token = flag then next
               else if \<not> starts_with (lit ''--'') flag then non_empty (strip_prefix flag token)
               else None))"

definition value_flag_values :: "rstr list \<Rightarrow> rstr \<Rightarrow> rstr list" where
  "value_flag_values ws flag = List.map_filter (flag_value flag) (followed ws)"

fun candidates_loop :: "bool \<Rightarrow> rstr list \<Rightarrow> rstr list" where
  "candidates_loop end_of_options [] = []"
| "candidates_loop end_of_options (token # rest) =
     (if \<not> end_of_options \<and> token = lit ''--'' then candidates_loop True rest
      else if end_of_options \<or> (token \<noteq> lit ''-'' \<and> \<not> dash token)
      then token # candidates_loop end_of_options rest
      else candidates_loop end_of_options rest)"

definition shell_file_candidates :: "rstr list \<Rightarrow> rstr list" where
  "shell_file_candidates ws = candidates_loop False (drop 1 ws)"

definition dd_operand :: "rstr \<Rightarrow> (rstr \<times> ShellFileMode) option" where
  "dd_operand token =
     (case strip_prefix (lit ''if='') token of
        Some p \<Rightarrow> Some (p, FileRead)
      | None \<Rightarrow> map_option (\<lambda>p. (p, FileWrite)) (strip_prefix (lit ''of='') token))"

definition special_file_operands :: "rstr \<Rightarrow> rstr list \<Rightarrow> (rstr \<times> ShellFileMode) list" where
  "special_file_operands program ws =
     (if program = lit ''dd'' then List.map_filter dd_operand (drop 1 ws)
      else if program \<in> set (map lit [''sort'', ''go'', ''git''])
      then map (\<lambda>p. (p, FileWrite)) (shell_output_flag_values ws)
      else if program = lit ''rustc''
      then map (\<lambda>p. (p, FileWrite)) (shell_output_flag_values ws @ value_flag_values ws (lit ''--out-dir''))
      else if program = lit ''rustfmt'' then map (\<lambda>p. (p, FileWrite)) (shell_file_candidates ws)
      else [])"

definition shell_path_command_operands :: "rstr \<Rightarrow> rstr list \<Rightarrow> (rstr \<times> ShellFileMode) list option" where
  "shell_path_command_operands program ws =
     (let operands = shell_file_candidates ws
      in if program \<in> set (map lit [''cp'', ''mv'', ''ln'', ''install''])
         then (if operands = [] then None
               else Some (map (\<lambda>s. (s, FileRead)) (butlast operands) @ [(last operands, FileWrite)]))
         else if program \<in> set (map lit [''rm'', ''rmdir'', ''mkdir'', ''touch''])
         then Some (map (\<lambda>c. (c, FileWrite)) operands)
         else if program = lit ''uniq''
         then (case operands of
                 input # output # _ \<Rightarrow> Some [(input, FileRead), (output, FileWrite)]
               | _ \<Rightarrow> None)
         else None)"

definition shell_arg_is_ambiguous :: "rstr \<Rightarrow> bool" where
  "shell_arg_is_ambiguous token \<longleftrightarrow> 42 \<in> set token \<or> 63 \<in> set token \<or> 91 \<in> set token"

definition is_directory_operand :: "rstr \<Rightarrow> bool" where
  "is_directory_operand token \<longleftrightarrow> token = lit ''.'' \<or> token = lit ''..'' \<or> ends_with [slash] token"

definition shell_reader_can_recurse :: "rstr \<Rightarrow> rstr list \<Rightarrow> rstr list \<Rightarrow> bool" where
  "shell_reader_can_recurse program ws candidates \<longleftrightarrow>
     (program \<in> set (map lit [''grep'', ''egrep'', ''fgrep'']) \<and>
      (\<exists>w \<in> set ws. w = lit ''--recursive'' \<or> w = lit ''--dereference-recursive'' \<or> short_flag_with 114 w
         \<or> short_flag_with 82 w)) \<or>
     (program \<in> set (map lit [''rg'', ''ag'', ''ack'']) \<and>
      (length candidates \<le> 1 \<or> (\<exists>c \<in> set (drop 1 candidates). is_directory_operand c)))"

section \<open>Reading the syntax tree\<close>

type_synonym Located = "Node \<times> Node option \<times> (Node \<times> Node option) list"

text \<open>A node with its next sibling and, innermost first, its ancestors with theirs.\<close>

fun with_next :: "Node list \<Rightarrow> (Node \<times> Node option) list" where
  "with_next [] = []"
| "with_next [n] = [(n, None)]"
| "with_next (n # m # ns) = (n, Some m) # with_next (m # ns)"

lemma map_fst_with_next [simp]: "map fst (with_next ns) = ns"
  by (induction ns rule: with_next.induct) auto

function dfs_located :: "Located list \<Rightarrow> Located list" where
  "dfs_located [] = []"
| "dfs_located ((n, sib, ups) # stack) =
     (n, sib, ups) #
     dfs_located (rev (map (\<lambda>(c, s). (c, s, (n, sib) # ups)) (with_next (children n))) @ stack)"
  by pat_completeness auto

termination
proof (relation "measure (\<lambda>st. sum_list (map (\<lambda>(n, sib, ups). size n) st))", goal_cases)
  case (2 n sib ups stack)
  have "map (\<lambda>(n, sib, ups). size n) (map (\<lambda>(c, s). (c, s, (n, sib) # ups)) (with_next (children n)))
      = map size (map fst (with_next (children n)))"
    unfolding map_map by (rule map_cong) auto
  then show ?case using size_children [of n] by (simp add: sum_list_map_rev del: map_map)
qed simp

fun runs_in_current_shell :: "Node option \<Rightarrow> (Node \<times> Node option) list \<Rightarrow> bool" where
  "runs_in_current_shell sib ups =
     (if (case sib of Some s \<Rightarrow> kind s = lit ''&'' | None \<Rightarrow> False) then False
      else case ups of
             [] \<Rightarrow> True
           | (parent, psib) # rest \<Rightarrow>
               if kind parent \<in> set (map lit [''subshell'', ''pipeline'', ''command_substitution'', ''process_substitution''])
               then False
               else runs_in_current_shell psib rest)"

definition changes_cwd :: "Located \<Rightarrow> bool" where
  "changes_cwd l =
     (case l of
        (n, sib, ups) \<Rightarrow>
          kind n = lit ''command'' \<and>
          (case child_by_field_name (lit ''name'') n of
             None \<Rightarrow> False
           | Some c \<Rightarrow>
               (case utf8_text c of
                  None \<Rightarrow> False
                | Some p \<Rightarrow> shell_program_name p \<in> set (map lit [''cd'', ''pushd'', ''popd'']))) \<and>
          runs_in_current_shell sib ups)"

definition cwd_poison_positions :: "Node \<Rightarrow> nat list" where
  "cwd_poison_positions root =
     map (\<lambda>(n, sib, ups). start_byte n) (filter changes_cwd (dfs_located [(root, None, [])]))"

definition cwd_unpinned_before :: "nat list \<Rightarrow> nat \<Rightarrow> bool" where
  "cwd_unpinned_before positions pos \<longleftrightarrow> (\<exists>p \<in> set positions. p < pos)"

datatype ArgText = Literal rstr | Ambiguous

definition EXPANSIONS :: "rstr list" where
  "EXPANSIONS = map lit [''expansion'', ''simple_expansion'', ''command_substitution'', ''arithmetic_expansion'',
     ''process_substitution'']"

definition node_has_expansion :: "Node \<Rightarrow> bool" where
  "node_has_expansion n \<longleftrightarrow> (\<exists>m \<in> set (dfs [n]). \<exists>c \<in> set (children m). kind c \<in> set EXPANSIONS)"

definition unquoted :: "rchar \<Rightarrow> rstr \<Rightarrow> rstr" where
  "unquoted q raw = (case strip_quotes q raw of Some s \<Rightarrow> s | None \<Rightarrow> raw)"

definition shell_node_arg :: "Node \<Rightarrow> ArgText option" where
  "shell_node_arg n =
     (let k = kind n
      in if k = lit ''variable_assignment'' then None
         else if k = lit ''word'' \<or> k = lit ''number'' then map_option Literal (utf8_text n)
         else if k = lit ''raw_string'' then map_option (\<lambda>raw. Literal (unquoted 39 raw)) (utf8_text n)
         else if k = lit ''string''
         then (if node_has_expansion n then Some Ambiguous
               else map_option (\<lambda>raw. Literal (unquoted 34 raw)) (utf8_text n))
         else if k = lit ''concatenation''
         then (if node_has_expansion n then Some Ambiguous else map_option Literal (utf8_text n))
         else Some Ambiguous)"

definition operand_of :: "Node \<Rightarrow> ArgText option" where
  "operand_of child =
     (if kind child = lit ''command_name''
      then (case named_children child of [] \<Rightarrow> None | inner # _ \<Rightarrow> shell_node_arg inner)
      else shell_node_arg child)"

fun literal_of :: "ArgText option \<Rightarrow> rstr option" where
  "literal_of (Some (Literal w)) = Some w"
| "literal_of _ = None"

definition invocation_of :: "Node \<Rightarrow> nat \<times> rstr list \<times> bool" where
  "invocation_of n =
     (let operands = map operand_of (named_children n)
      in (start_byte n, List.map_filter literal_of operands, Some Ambiguous \<in> set operands))"

definition shell_command_invocations :: "Node \<Rightarrow> (nat \<times> rstr list \<times> bool) list" where
  "shell_command_invocations root =
     sort_key fst (map invocation_of (filter (\<lambda>n. kind n = lit ''command'') (dfs [root])))"

text \<open>The first child that carries a redirection operator; \<open>None\<close> leaves the function.\<close>

fun redirect_mode :: "Node list \<Rightarrow> ShellFileMode option" where
  "redirect_mode [] = None"
| "redirect_mode (c # cs) =
     (if contains_sub (lit ''<<'') (kind c) then None
      else if 62 \<in> set (kind c) then Some FileWrite
      else if 60 \<in> set (kind c) then Some FileRead
      else redirect_mode cs)"

definition shell_redirect_one :: "Node \<Rightarrow> (rstr option \<times> ShellFileMode \<times> bool) option" where
  "shell_redirect_one n =
     (case redirect_mode (children n) of
        None \<Rightarrow> None
      | Some mode \<Rightarrow>
          (case child_by_field_name (lit ''destination'') n of
             None \<Rightarrow> None
           | Some dest \<Rightarrow>
               (case shell_node_arg dest of
                  None \<Rightarrow> None
                | Some (Literal s) \<Rightarrow>
                    if s = [] \<or> starts_with [38] s \<or> (\<forall>b \<in> set s. ascii_digit b) then None
                    else Some (Some s, mode, shell_arg_is_ambiguous s)
                | Some Ambiguous \<Rightarrow> Some (None, mode, True))))"

definition shell_redirect_targets :: "Node \<Rightarrow> (nat \<times> rstr option \<times> ShellFileMode \<times> bool) list" where
  "shell_redirect_targets root =
     List.map_filter (\<lambda>n. map_option (Pair (start_byte n)) (shell_redirect_one n))
       (filter (\<lambda>n. kind n = lit ''file_redirect'') (dfs [root]))"

section \<open>The file gate\<close>

fun shell_access :: "ShellFileMode \<Rightarrow> rstr \<Rightarrow> AccessKind" where
  "shell_access FileRead path = Read (Some path)"
| "shell_access FileWrite path = Edit path"

definition absolute_form :: "rstr \<Rightarrow> rstr \<Rightarrow> rstr" where
  "absolute_form cwd token =
     (let path = normalize_shell_path token
      in if is_absolute_shell_path path then path else normalize_shell_path (path_join cwd path))"

definition raw_absolute :: "rstr \<Rightarrow> rstr \<Rightarrow> rstr" where
  "raw_absolute cwd token =
     (let raw = normalize_shell_path_raw token
      in if is_absolute_shell_path raw then raw else normalize_shell_path_raw (path_join cwd raw))"

definition evaluate_shell_path ::
  "Externals \<Rightarrow> CompiledPolicy \<Rightarrow> rstr \<Rightarrow> rstr \<Rightarrow> ShellFileMode \<Rightarrow> Decision option" where
  "evaluate_shell_path E P token cwd mode =
     (let path = normalize_shell_path token;
          absolute = absolute_form cwd token;
          judge = (\<lambda>p. escalate (evaluate E P (shell_access mode p)));
          resolved_decision =
            (case resolve_symlink_target E (raw_absolute cwd token) of
               Some resolved \<Rightarrow> if resolved \<noteq> absolute then judge resolved else None
             | None \<Rightarrow> if path_has_symlink E (raw_absolute cwd token) then Some Ask else None)
      in combine_decisions (combine_decisions (judge path) (judge absolute)) resolved_decision)"

text \<open>What one redirection or command contributes: whether it forces a prompt, and the files it
  touches in the order they are judged.\<close>

definition redirect_effect ::
  "nat list \<Rightarrow> nat \<times> rstr option \<times> ShellFileMode \<times> bool \<Rightarrow> bool \<times> (rstr \<times> ShellFileMode) list" where
  "redirect_effect cwd_changes r =
     (case r of
        (start, None, mode, ambiguous) \<Rightarrow> (ambiguous, [])
      | (start, Some path, mode, ambiguous) \<Rightarrow>
          (ambiguous \<or>
           (cwd_unpinned_before cwd_changes start \<and> \<not> is_absolute_shell_path (normalize_shell_path path)),
           [(path, mode)]))"

definition operand_modes :: "rstr \<Rightarrow> rstr list \<Rightarrow> ShellFileMode list option" where
  "operand_modes program ws =
     (case shell_file_mode program of
        None \<Rightarrow> None
      | Some m \<Rightarrow> if program = lit ''sed'' \<and> shell_sed_in_place ws then Some [FileRead, FileWrite] else Some [m])"

definition any_ambiguous :: "(rstr \<times> ShellFileMode) list \<Rightarrow> bool" where
  "any_ambiguous ops \<longleftrightarrow> (\<exists>(p, m) \<in> set ops. shell_arg_is_ambiguous p)"

definition program_lower :: "rstr list \<Rightarrow> rstr" where
  "program_lower ws = ascii_lower (shell_program_name (hd ws))"

definition invocation_effect ::
  "nat list \<Rightarrow> bool \<Rightarrow> nat \<times> rstr list \<times> bool \<Rightarrow> bool \<times> (rstr \<times> ShellFileMode) list" where
  "invocation_effect cwd_changes parse_failed i =
     (case i of
        (start, raw_words, arg_ambiguous) \<Rightarrow>
          (let ws = unwrap_wrappers raw_words; program = program_lower ws
           in if ws = [] \<or> program = lit ''cd'' then (False, [])
              else let cwd_unpinned = cwd_unpinned_before cwd_changes start \<or> wrapper_has_chdir raw_words;
                       candidates = shell_file_candidates ws;
                       path_operands = shell_path_command_operands program ws;
                       is_known = (program = lit ''dd'' \<or> shell_file_mode program \<noteq> None \<or> path_operands \<noteq> None);
                       special = special_file_operands program ws;
                       ask = ((is_known \<and> (cwd_unpinned \<or> arg_ambiguous \<or> parse_failed)) \<or> any_ambiguous special)
                   in if program = lit ''dd'' then (ask, special)
                      else case path_operands of
                             Some operands \<Rightarrow> (ask \<or> any_ambiguous operands, special @ operands)
                           | None \<Rightarrow>
                               (case operand_modes program ws of
                                  None \<Rightarrow> (ask, special)
                                | Some modes \<Rightarrow>
                                    (let operands = concat (map (\<lambda>t. map (Pair t) modes) candidates)
                                     in (ask \<or> any_ambiguous operands
                                           \<or> shell_reader_can_recurse program ws candidates,
                                         special @ operands)))))"

definition script_effects :: "Tree \<Rightarrow> (bool \<times> (rstr \<times> ShellFileMode) list) list" where
  "script_effects tree =
     (let root = root_node tree; cwd_changes = cwd_poison_positions root
      in map (redirect_effect cwd_changes) (shell_redirect_targets root) @
         map (invocation_effect cwd_changes (has_error tree)) (shell_command_invocations root))"

definition evaluate_shell_file_access :: "Externals \<Rightarrow> CompiledPolicy \<Rightarrow> rstr \<Rightarrow> rstr \<Rightarrow> Decision option" where
  "evaluate_shell_file_access E P cmd cwd =
     (if \<not> has_file_restrictions P then None
      else case try_parse_shell E cmd of
             None \<Rightarrow> None
           | Some tree \<Rightarrow>
               (let effects = script_effects tree;
                    decision = fold (\<lambda>(p, m) d. combine_decisions d (evaluate_shell_path E P p cwd m))
                                 (concat (map snd effects)) None
                in combine_decisions decision (if \<exists>e \<in> set effects. fst e then Some Ask else None)))"

text \<open>The write paths other parts of the program ask for.\<close>

definition command_words_write_paths :: "rstr list \<Rightarrow> rstr list" where
  "command_words_write_paths ws0 =
     (let ws = unwrap_wrappers ws0; program = program_lower ws;
          written = (\<lambda>ops. map fst (filter (\<lambda>(p, m). m = FileWrite) ops))
      in if ws = [] then []
         else written (special_file_operands program ws) @
              (case shell_path_command_operands program ws of
                 Some operands \<Rightarrow> written operands
               | None \<Rightarrow>
                   if shell_file_mode program = Some FileWrite \<or> (program = lit ''sed'' \<and> shell_sed_in_place ws)
                   then shell_file_candidates ws else []))"

definition command_write_paths_in_tree :: "Node \<Rightarrow> rstr list" where
  "command_write_paths_in_tree root =
     List.map_filter (\<lambda>(start, path, mode, ambiguous). if mode = FileWrite then path else None)
       (shell_redirect_targets root) @
     concat (map (\<lambda>(start, ws, ambiguous). command_words_write_paths ws) (shell_command_invocations root))"

section \<open>The gate judges every file the script touches\<close>

definition touched_files :: "Tree \<Rightarrow> (rstr \<times> ShellFileMode) list" where
  "touched_files tree = concat (map snd (script_effects tree))"

definition unpinned :: "Tree \<Rightarrow> bool" where
  "unpinned tree \<longleftrightarrow> (\<exists>e \<in> set (script_effects tree). fst e)"

text \<open>The forms under which a path is judged: as written, absolute, and with links followed.\<close>

definition path_forms :: "Externals \<Rightarrow> rstr \<Rightarrow> rstr \<Rightarrow> rstr set" where
  "path_forms E cwd token =
     {normalize_shell_path token, absolute_form cwd token} \<union>
     set_option (resolve_symlink_target E (raw_absolute cwd token))"

definition unresolved_link :: "Externals \<Rightarrow> rstr \<Rightarrow> rstr \<Rightarrow> bool" where
  "unresolved_link E cwd token \<longleftrightarrow>
     resolve_symlink_target E (raw_absolute cwd token) = None \<and> path_has_symlink E (raw_absolute cwd token)"

lemma shell_path_rank:
  assumes "2 \<le> k"
  shows "k \<le> rank_opt (evaluate_shell_path E P token cwd mode) \<longleftrightarrow>
     (\<exists>f \<in> path_forms E cwd token. k \<le> rank_opt (evaluate E P (shell_access mode f)))
     \<or> (k = 2 \<and> unresolved_link E cwd token)"
  using assms
  by (auto simp: evaluate_shell_path_def Let_def path_forms_def unresolved_link_def rank_escalate
      le_max_iff_disj split: option.splits)

lemma file_fold_rank:
  "0 < k \<Longrightarrow> k \<le> rank_opt (fold (\<lambda>(p, m) d. combine_decisions d (f p m)) xs d)
     \<longleftrightarrow> k \<le> rank_opt d \<or> (\<exists>(p, m) \<in> set xs. k \<le> rank_opt (f p m))"
  by (induction xs arbitrary: d) (auto simp: le_max_iff_disj)

lemma file_gate_rank:
  assumes k: "2 \<le> k" and "has_file_restrictions P" "try_parse_shell E cmd = Some tree"
  shows "k \<le> rank_opt (evaluate_shell_file_access E P cmd cwd) \<longleftrightarrow>
     (\<exists>(p, m) \<in> set (touched_files tree). \<exists>f \<in> path_forms E cwd p. k \<le> rank_opt (evaluate E P (shell_access m f)))
     \<or> (k = 2 \<and> (unpinned tree \<or> (\<exists>(p, m) \<in> set (touched_files tree). unresolved_link E cwd p)))"
proof -
  have "k \<le> rank_opt (evaluate_shell_file_access E P cmd cwd) \<longleftrightarrow>
      (\<exists>(p, m) \<in> set (touched_files tree). k \<le> rank_opt (evaluate_shell_path E P p cwd m)) \<or> (k = 2 \<and> unpinned tree)"
    using assms file_fold_rank [of k "\<lambda>p m. evaluate_shell_path E P p cwd m" "touched_files tree" None]
    by (auto simp: evaluate_shell_file_access_def Let_def le_max_iff_disj unpinned_def touched_files_def
        simp del: set_concat)
  then show ?thesis unfolding shell_path_rank [OF k] by blast
qed

lemma shell_path_escalation: "escalation (evaluate_shell_path E (compiled_new E c) token cwd mode)"
  unfolding evaluate_shell_path_def Let_def by (auto intro!: escalation_combine split: option.splits)

interpretation file_gate: escalation_gate "\<lambda>cmd. evaluate_shell_file_access E (compiled_new E c) cmd cwd" for E c cwd
proof
  fix cmd d assume "evaluate_shell_file_access E (compiled_new E c) cmd cwd = Some d"
  moreover have "escalation (evaluate_shell_file_access E (compiled_new E c) cmd cwd)"
    by (auto simp: evaluate_shell_file_access_def Let_def shell_path_escalation
        intro!: escalation_combine escalation_fold split: option.splits)
  ultimately show "d = Ask \<or> (\<exists>m. d = Reject m)" by (auto simp: escalation_def)
qed

text \<open>C19. The file gate of a policy with file restrictions: it rejects a script exactly when one of the
  files the script touches, as written, made absolute or with its links followed, is denied for
  reading or editing; it lets the script through exactly when no such form must be asked for or is
  denied, every operand can be pinned down and no link is left unresolved; it never allows.\<close>

theorem file_gate_judges_every_file:
  assumes "has_file_restrictions (compiled_new E c)" "try_parse_shell E cmd = Some tree"
  shows "((\<exists>m. evaluate_shell_file_access E (compiled_new E c) cmd cwd = Some (Reject m)) \<longleftrightarrow>
      (\<exists>(p, md) \<in> set (touched_files tree). \<exists>f \<in> path_forms E cwd p. \<exists>m.
         evaluate E (compiled_new E c) (shell_access md f) = Some (Reject m)))
    \<and> (evaluate_shell_file_access E (compiled_new E c) cmd cwd = None \<longleftrightarrow>
      \<not> unpinned tree \<and> (\<forall>(p, md) \<in> set (touched_files tree). \<not> unresolved_link E cwd p \<and>
        (\<forall>f \<in> path_forms E cwd p. evaluate E (compiled_new E c) (shell_access md f) \<in> {None, Some Allow})))
    \<and> evaluate_shell_file_access E (compiled_new E c) cmd cwd \<noteq> Some Allow"
proof -
  let ?g = "evaluate_shell_file_access E (compiled_new E c) cmd cwd"
  let ?ev = "\<lambda>md f. evaluate E (compiled_new E c) (shell_access md f)"
  have ev: "3 \<le> rank_opt (?ev md f) \<longleftrightarrow> (\<exists>m. ?ev md f = Some (Reject m))"
    "2 \<le> rank_opt (?ev md f) \<longleftrightarrow> ?ev md f \<notin> {None, Some Allow}" for md f
    using evaluate_outcome [of E c "shell_access md f"] by (auto simp: policy_outcome_def)
  have g: "3 \<le> rank_opt ?g \<longleftrightarrow> (\<exists>m. ?g = Some (Reject m))" "2 \<le> rank_opt ?g \<longleftrightarrow> ?g \<noteq> None"
    "?g \<noteq> Some Allow"
    using file_gate.gate_policy_outcome [of E c cmd cwd] file_gate.gate_never_allows [of E c cmd cwd]
    by (auto simp: policy_outcome_def)
  have rej: "(\<exists>m. ?g = Some (Reject m)) \<longleftrightarrow>
      (\<exists>(p, md) \<in> set (touched_files tree). \<exists>f \<in> path_forms E cwd p. \<exists>m. ?ev md f = Some (Reject m))"
    using file_gate_rank [of 3, OF _ assms, of cwd] unfolding g(1) ev(1) by simp
  have through: "?g \<noteq> None \<longleftrightarrow>
      (\<exists>(p, md) \<in> set (touched_files tree). \<exists>f \<in> path_forms E cwd p. ?ev md f \<notin> {None, Some Allow})
      \<or> unpinned tree \<or> (\<exists>(p, md) \<in> set (touched_files tree). unresolved_link E cwd p)"
    using file_gate_rank [of 2, OF _ assms, of cwd] unfolding g(2) ev(2) by simp
  show ?thesis
    using rej through g(3) by blast
qed

definition deny_reads :: PermissionConfig where
  "deny_reads = config_new [\<lparr>action = RuleDeny, tool = FRead, pattern = None, pattern_mode = Glob\<rparr>]"

definition cat_tree :: Tree where
  "cat_tree = the (one_command_parser (lit ''cat x''))"

lemma cat_touches: "(lit ''x'', FileRead) \<in> set (touched_files cat_tree)"
proof -
  have root: "root_node cat_tree = Node (lit ''program'') True None 0 0 (Some (lit ''cat x''))
      [command_node [lit ''cat'', lit ''x'']]" "\<not> has_error cat_tree"
    by (simp_all add: cat_tree_def one_command_parser_def)
  have inv: "shell_command_invocations (root_node cat_tree) = [(0, [lit ''cat'', lit ''x''], False)]"
    unfolding root
    by (simp add: shell_command_invocations_def command_node_def invocation_of_def named_children_def operand_of_def
        shell_node_arg_def word_node_def List.map_filter_def)
  have "unwrap_wrappers [lit ''cat'', lit ''x''] = [lit ''cat'', lit ''x'']"
    by (intro unwrap_wrappers_none)
       (simp add: strip_wrapper_command_def wrapper_inner_index_def shell_program_name_def)
  then have "snd (invocation_effect cs False (0, [lit ''cat'', lit ''x''], False)) = [(lit ''x'', FileRead)]" for cs
    by (simp add: invocation_effect_def program_lower_def shell_program_name_def ascii_lower_def
        shell_path_command_operands_def special_file_operands_def shell_file_candidates_def operand_modes_def
        shell_file_mode_def READERS_def Let_def)
  then show ?thesis using root(2) by (simp add: touched_files_def script_effects_def inv Let_def)
qed

theorem file_gate_judges_every_file_witness:
  "\<exists>m. evaluate_shell_file_access plain_surroundings (compiled_new plain_surroundings deny_reads)
      (lit ''cat x'') (lit ''/w'') = Some (Reject m)"
proof -
  have restr: "has_file_restrictions (compiled_new plain_surroundings deny_reads)"
    by (simp add: compiled_new_def deny_reads_def config_new_def)
  have tree: "try_parse_shell plain_surroundings (lit ''cat x'') = Some cat_tree"
    by (simp add: plain_surroundings_def cat_tree_def one_command_parser_def)
  have "\<exists>m. evaluate plain_surroundings (compiled_new plain_surroundings deny_reads) (shell_access FileRead p)
      = Some (Reject m)" for p
    by (simp add: evaluate_compiled deny_reads_def config_new_def pattern_matches_def)
  with cat_touches have "\<exists>(p, md) \<in> set (touched_files cat_tree).
      \<exists>f \<in> path_forms plain_surroundings (lit ''/w'') p. \<exists>m.
        evaluate plain_surroundings (compiled_new plain_surroundings deny_reads) (shell_access md f) = Some (Reject m)"
    by (intro bexI [of _ "(lit ''x'', FileRead)"]) (auto simp: path_forms_def)
  with file_gate_judges_every_file [OF restr tree, of "lit ''/w''"] show ?thesis by blast
qed

section \<open>Normalised paths\<close>

text \<open>The segments kept for an absolute path are names: no empty, \<open>.\<close> or \<open>..\<close> segment is left.\<close>

lemma normalize_segments_clean:
  assumes "\<forall>s \<in> set out. s \<noteq> [] \<and> s \<noteq> lit ''.'' \<and> s \<noteq> lit ''..''"
  shows "\<forall>s \<in> set (normalize_segments True segs out). s \<noteq> [] \<and> s \<noteq> lit ''.'' \<and> s \<noteq> lit ''..''"
  using assms
proof (induction segs arbitrary: out)
  case (Cons seg segs)
  have tl: "\<forall>s \<in> set (tl out). s \<noteq> [] \<and> s \<noteq> lit ''.'' \<and> s \<noteq> lit ''..''"
    using Cons.prems by (auto dest: in_set_tl)
  consider "seg = [] \<or> seg = lit ''.''" | "seg = lit ''..''" | "seg \<noteq> [] \<and> seg \<noteq> lit ''.'' \<and> seg \<noteq> lit ''..''"
    by blast
  then show ?case
  proof cases
    case 1
    with Cons.IH [OF Cons.prems] show ?thesis by (simp del: lit_simps)
  next
    case 2
    with Cons.IH [OF Cons.prems] Cons.IH [OF tl] show ?thesis by simp
  next
    case 3
    with Cons.IH [of "seg # out"] Cons.prems show ?thesis by (simp del: lit_simps)
  qed
qed simp

lemma normalize_segments_fixed:
  assumes "\<forall>s \<in> set segs. s \<noteq> [] \<and> s \<noteq> lit ''.'' \<and> s \<noteq> lit ''..''"
  shows "normalize_segments absolute segs out = rev segs @ out"
  using assms by (induction segs arbitrary: out) (auto simp del: lit_simps)

lemma normalize_segments_set: "set (normalize_segments absolute segs out) \<subseteq> set segs \<union> set out \<union> {lit ''..''}"
proof (induction segs arbitrary: out)
  case (Cons seg segs)
  have "set (tl out) \<subseteq> set out" by (auto dest: in_set_tl)
  with Cons.IH [of out] Cons.IH [of "tl out"] Cons.IH [of "seg # out"] Cons.IH [of "lit ''..'' # out"]
  show ?case by (auto simp del: lit_simps)
qed auto

text \<open>An absolute Unix path is normalised to a path of plain names (no empty, \<open>.\<close> or \<open>..\<close> segment),
  and normalising the result again changes nothing.\<close>

theorem lexical_normalize_absolute:
  assumes "starts_with [slash] path" "\<not> drive_prefix path"
  shows "\<exists>names. lexical_normalize path = slash # join [slash] names
      \<and> (\<forall>s \<in> set names. s \<noteq> [] \<and> s \<noteq> lit ''.'' \<and> s \<noteq> lit ''..'' \<and> slash \<notin> set s)
      \<and> (\<not> drive_prefix (lexical_normalize path) \<longrightarrow>
           lexical_normalize (lexical_normalize path) = lexical_normalize path)"
proof -
  define names where "names = rev (normalize_segments True (split_on slash path) [])"
  have eq: "lexical_normalize path = slash # join [slash] names"
    using assms by (simp add: lexical_normalize_def names_def Let_def)
  have clean: "\<forall>s \<in> set names. s \<noteq> [] \<and> s \<noteq> lit ''.'' \<and> s \<noteq> lit ''..''"
    using normalize_segments_clean [of "[]" "split_on slash path"] by (simp add: names_def del: lit_simps)
  have sep: "slash \<notin> set s" if "s \<in> set names" for s
    using that normalize_segments_set [of True "split_on slash path" "[]"] clean split_on_no_sep [of s slash path]
    by (auto simp: names_def simp del: lit_simps)
  have again: "normalize_segments True (split_on slash (join [slash] names)) [] = rev names"
  proof (cases "names = []")
    case True
    then show ?thesis by simp
  next
    case False
    then have "split_on slash (join [slash] names) = names" using sep by (intro split_on_join) auto
    then show ?thesis using normalize_segments_fixed [OF clean, of True "[]"] by simp
  qed
  have "lexical_normalize (slash # join [slash] names) = slash # join [slash] names"
    if "\<not> drive_prefix (slash # join [slash] names)"
    using that again by (simp add: lexical_normalize_def Let_def)
  with eq clean sep show ?thesis by (intro exI [of _ names]) auto
qed

theorem lexical_normalize_absolute_witness:
  "starts_with [slash] (lit ''/a/../b'') \<and> \<not> drive_prefix (lit ''/a/../b'') \<and>
   (\<exists>names. lexical_normalize (lit ''/a/../b'') = slash # join [slash] names)"
proof -
  have "starts_with [slash] (lit ''/a/../b'')" "\<not> drive_prefix (lit ''/a/../b'')" by (simp_all add: drive_prefix_def)
  with lexical_normalize_absolute [of "lit ''/a/../b''"] show ?thesis by blast
qed

end
