(* ===== verification/Auto_Mode.thy ===== *)
theory Auto_Mode
  imports Shell_Access
begin

text \<open>
  The classifier of auto mode: \<open>permission/auto_mode.rs\<close>. The fast path, the heuristic that judges
  an access without a model (\<open>classify_sync\<close> with the routine-command lists, the package-manager
  launchers, the environment guard and the write guard), the messages sent to the model, the reading
  of its reply and the production classifier that combines the two.

  The JSON parser is a parameter; a model is a function from the messages to its reply. The lemmas
  show that an allowed command was understood all the way: along every wrapper and launcher no
  environment key outside the safe list is set, no file other than the three sinks is written, and
  the program finally run is a routine one. They also show that a reply of the requested shape is
  understood whatever prose surrounds it.
\<close>

section \<open>Verdicts, fast path\<close>

datatype ClassifierVerdict = VerdictAllow | VerdictBlock | VerdictUnavailable

datatype AutoFastPath = FastAllow | PromptUser | Classify

definition access_requires_user_interaction :: "rstr \<Rightarrow> AccessKind \<Rightarrow> bool" where
  "access_requires_user_interaction tool_name access =
     (let t = ascii_lower tool_name
      in contains_sub (lit ''ask_user'') t \<or> contains_sub (lit ''askuserquestion'') t
         \<or> contains_sub (lit ''user_question'') t \<or> t = lit ''ask_user_question'' \<or>
         (case access of
            MCPTool name _ \<Rightarrow>
              (let n = ascii_lower name
               in contains_sub (lit ''ask_user'') n \<or> (contains_sub (lit ''confirm'') n \<and> contains_sub (lit ''human'') n))
          | _ \<Rightarrow> False))"

definition is_auto_mode_allowlisted_access :: "AccessKind \<Rightarrow> bool" where
  "is_auto_mode_allowlisted_access access =
     (case access of Read _ \<Rightarrow> True | Grep _ _ \<Rightarrow> True | WebSearch _ \<Rightarrow> True | _ \<Rightarrow> False)"

definition is_auto_mode_allowlisted_tool_name :: "rstr \<Rightarrow> bool" where
  "is_auto_mode_allowlisted_tool_name tool_name \<longleftrightarrow> tool_name \<in> set (map lit
     [''todo_write'', ''TodoWrite'', ''task_output'', ''TaskOutput'', ''wait_tasks'', ''WaitTasks'',
      ''ask_user_question'', ''AskUserQuestion'', ''enter_plan_mode'', ''EnterPlanMode'', ''exit_plan_mode'',
      ''ExitPlanMode'', ''switch_mode'', ''SwitchMode'', ''create_plan'', ''CreatePlan'', ''update_plan'',
      ''UpdatePlan'', ''list_mcp_resources'', ''ListMcpResources'', ''read_mcp_resource'', ''ReadMcpResource'',
      ''tool_search'', ''ToolSearch'', ''sleep'', ''Sleep''])"

definition auto_mode_fast_path :: "AccessKind \<Rightarrow> rstr \<Rightarrow> bool \<Rightarrow> AutoFastPath" where
  "auto_mode_fast_path access tool_name requires_user_interaction =
     (if requires_user_interaction then PromptUser
      else if is_auto_mode_allowlisted_access access \<or> is_auto_mode_allowlisted_tool_name tool_name then FastAllow
      else case access of
             Edit _ \<Rightarrow> FastAllow
           | Bash cmd \<Rightarrow> if trim cmd \<in> set (map lit [''true'', '':'', ''false'']) then FastAllow else Classify
           | _ \<Rightarrow> Classify)"

section \<open>What the classifier sees\<close>

datatype ClassifierMessageRole = RoleSystem | RoleUser

datatype ClassifierPromptType = Full | NoUserToolPrefix | BareInstructions | JustCommand

record ClassifierMessage =
  msg_role :: ClassifierMessageRole
  msg_text :: rstr

datatype ClassifierTurn = UserText rstr | AssistantToolUse rstr rstr

fun render_turn :: "ClassifierTurn \<Rightarrow> rstr" where
  "render_turn (UserText t) = lit ''User: '' @ t"
| "render_turn (AssistantToolUse tool_name args) = tool_name @ lit '' '' @ args"

record ClassifierContext =
  turns :: "ClassifierTurn list"
  project_instructions :: "rstr option"

definition transcript_text :: "ClassifierContext \<Rightarrow> rstr" where
  "transcript_text ctx = join [nl] (map render_turn (turns ctx))"

type_synonym Classifier =
  "rstr \<Rightarrow> AccessKind \<Rightarrow> rstr option \<Rightarrow> ClassifierContext \<Rightarrow> ClassifierVerdict"

definition fixed_classifier :: "ClassifierVerdict \<Rightarrow> Classifier" where
  "fixed_classifier v tool_name access access_detail context = v"

section \<open>Routine commands\<close>

definition ROUTINE_PREFIXES :: "rstr list" where
  "ROUTINE_PREFIXES = map lit
     [''cargo '', ''git status'', ''git diff'', ''git log'', ''git branch'', ''git add'', ''git commit'',
      ''git checkout'', ''git switch'', ''git stash'', ''git pull'', ''git fetch'', ''git show'', ''git blame'',
      ''git grep'', ''git ls-files'', ''git rev-parse'', ''git describe'', ''git merge-base'',
      ''git worktree list'', ''pytest'', ''python '', ''python3 '', ''node '', ''rustc '', ''rustfmt'', ''clippy'',
      ''make '', ''cmake '', ''cd'', ''pushd'', ''popd'', ''ls'', ''pwd'', ''echo '', ''printf '', ''cat '', ''head '',
      ''tail '', ''wc '', ''rg '', ''grep '', ''which '', ''type '', ''true'', ''false'', ''test '', ''sort '', ''uniq '',
      ''tr '', ''cut '', ''diff '', ''jq '', ''date'', ''whoami'', ''hostname'', ''uname'', ''nproc'', ''printenv'',
      ''stat '', ''file '', ''tree'', ''basename '', ''dirname '', ''realpath '', ''readlink '', ''strings '',
      ''sleep '', ''df '', ''du '', ''ps '', ''top'', ''htop'', ''bazel '', ''just '', ''go '', ''kubectl get'',
      ''kubectl logs'', ''kubectl describe'', ''set'']"

definition SAFE_ENV_KEYS :: "rstr list" where
  "SAFE_ENV_KEYS = map lit
     [''CARGO_TERM_COLOR'', ''CARGO_TERM_PROGRESS_WHEN'', ''RUST_LOG'', ''RUST_LOG_STYLE'', ''RUST_BACKTRACE'',
      ''RUST_TEST_THREADS'', ''RUST_MIN_STACK'', ''NO_COLOR'', ''CLICOLOR'', ''CLICOLOR_FORCE'', ''FORCE_COLOR'',
      ''COLORTERM'']"

definition NPM_SAFE_SUBCOMMANDS :: "rstr list" where
  "NPM_SAFE_SUBCOMMANDS = map lit
     [''install'', ''i'', ''ci'', ''add'', ''remove'', ''rm'', ''uninstall'', ''update'', ''up'', ''upgrade'', ''test'',
      ''t'', ''run'', ''run-script'', ''start'', ''build'', ''audit'', ''list'', ''ls'', ''ll'', ''outdated'', ''why'',
      ''view'', ''info'', ''dedupe'', ''prune'', ''version'', ''pack'', ''config'', ''link'', ''unlink'', ''rebuild'',
      ''store'', ''fetch'', ''import'']"

definition UV_SAFE_SUBCOMMANDS :: "rstr list" where
  "UV_SAFE_SUBCOMMANDS = map lit
     [''sync'', ''pip'', ''lock'', ''venv'', ''add'', ''remove'', ''tree'', ''export'', ''build'', ''version'', ''python'',
      ''cache'', ''init'', ''self'', ''help'']"

definition RUSTUP_SAFE_SUBCOMMANDS :: "rstr list" where
  "RUSTUP_SAFE_SUBCOMMANDS = map lit
     [''show'', ''toolchain'', ''component'', ''target'', ''default'', ''update'', ''which'', ''doc'', ''self'',
      ''completions'', ''set'', ''override'']"

definition is_safe_env_key :: "rstr \<Rightarrow> bool" where
  "is_safe_env_key k \<longleftrightarrow> k \<in> set SAFE_ENV_KEYS"

definition is_safe_write_sink :: "rstr \<Rightarrow> bool" where
  "is_safe_write_sink path \<longleftrightarrow> path \<in> set (map lit [''/dev/null'', ''/dev/stdout'', ''/dev/stderr''])"

definition is_lone_wrapper :: "rstr list \<Rightarrow> bool" where
  "is_lone_wrapper ws \<longleftrightarrow> length ws = 1 \<and> is_wrapper_command ws"

definition FIND_ACTIONS :: "rstr list" where
  "FIND_ACTIONS = map lit
     [''-delete'', ''-exec'', ''-execdir'', ''-ok'', ''-okdir'', ''-fprint'', ''-fprint0'', ''-fprintf'', ''-fls'']"

definition find_is_read_only :: "rstr list \<Rightarrow> bool" where
  "find_is_read_only ws \<longleftrightarrow> \<not> (\<exists>w \<in> set ws. w \<in> set FIND_ACTIONS)"

definition nonflag_tokens :: "rstr list \<Rightarrow> nat \<Rightarrow> rstr list" where
  "nonflag_tokens inner n = take n (filter (\<lambda>w. \<not> dash w) (tl inner))"

definition gh_subcommand_is_read_only :: "rstr list \<Rightarrow> bool" where
  "gh_subcommand_is_read_only inner =
     (case nonflag_tokens inner 2 of
        [grp, sub] \<Rightarrow>
          (grp \<in> set (map lit [''pr'', ''issue'', ''release'', ''run'', ''workflow'', ''repo'', ''gist'']) \<and>
           sub \<in> set (map lit [''view'', ''list'', ''status'', ''checks'', ''diff''])) \<or>
          (grp = lit ''auth'' \<and> sub = lit ''status'')
      | [t] \<Rightarrow> t = lit ''status''
      | _ \<Rightarrow> False)"

subsection \<open>Package managers\<close>

definition get_word :: "rstr list \<Rightarrow> nat \<Rightarrow> rstr option" where
  "get_word ws i = (if i < length ws then Some (ws ! i) else None)"

definition is_npm_like :: "rstr \<Rightarrow> bool" where
  "is_npm_like p \<longleftrightarrow> p \<in> set (map lit [''npm'', ''pnpm'', ''yarn''])"

definition launcher_subcommand :: "rstr \<Rightarrow> rstr list \<Rightarrow> rstr option" where
  "launcher_subcommand prog inner =
     map_option (\<lambda>sub. if is_npm_like prog \<and> sub = lit ''x'' then lit ''exec''
                       else if is_npm_like prog \<and> sub = lit ''innit'' then lit ''init'' else sub)
       (get_word inner 1)"

definition is_remote_launcher :: "rstr \<Rightarrow> rstr list \<Rightarrow> bool" where
  "is_remote_launcher prog inner =
     (if prog = lit ''npx'' \<or> prog = lit ''uvx'' then True
      else if prog = lit ''uv'' \<and> get_word inner 1 = Some (lit ''tool'') \<and> get_word inner 2 = Some (lit ''run'')
      then True
      else case launcher_subcommand prog inner of
             None \<Rightarrow> False
           | Some sub \<Rightarrow>
               is_npm_like prog \<and>
               (sub \<in> set (map lit [''dlx'', ''create'', ''explore'']) \<or>
                (sub = lit ''init'' \<and> (case get_word inner 2 of Some a \<Rightarrow> \<not> dash a | None \<Rightarrow> False))))"

datatype LaunchTarget = NotLauncher | Inner "rstr list" | Unresolved

definition launch_operand :: "rstr list \<Rightarrow> nat \<Rightarrow> LaunchTarget" where
  "launch_operand inner start =
     (case get_word inner start of
        Some tok \<Rightarrow> if \<not> dash tok then Inner (drop start inner) else Unresolved
      | None \<Rightarrow> Unresolved)"

definition explicit_launch_target :: "rstr \<Rightarrow> rstr list \<Rightarrow> LaunchTarget" where
  "explicit_launch_target prog inner =
     (case launcher_subcommand prog inner of
        None \<Rightarrow> NotLauncher
      | Some sub \<Rightarrow>
          if prog = lit ''uv'' \<and> sub = lit ''run'' then launch_operand inner 2
          else if prog = lit ''rustup'' \<and> sub = lit ''run''
          then (case get_word inner 2 of
                  Some toolchain \<Rightarrow> if \<not> dash toolchain then launch_operand inner 3 else Unresolved
                | None \<Rightarrow> Unresolved)
          else if is_npm_like prog \<and> sub = lit ''exec''
          then launch_operand inner (if get_word inner 2 = Some (lit ''--'') then 3 else 2)
          else NotLauncher)"

definition launched_writes_nonsink :: "rstr list \<Rightarrow> bool" where
  "launched_writes_nonsink ws \<longleftrightarrow> (\<exists>p \<in> set (command_words_write_paths ws). \<not> is_safe_write_sink p)"

subsection \<open>The environment guard\<close>

text \<open>The arguments of one \<open>env\<close> invocation, up to its command.\<close>

fun env_args_unsafe :: "rstr list \<Rightarrow> bool" where
  "env_args_unsafe [] = False"
| "env_args_unsafe (arg # rest) =
     (if arg = lit ''--'' then False
      else if dash arg then True
      else if 61 \<in> set arg
      then (if \<not> is_safe_env_key (takeWhile (\<lambda>c. c \<noteq> 61) arg) then True else env_args_unsafe rest)
      else False)"

definition env_form_unsafe :: "rstr list \<Rightarrow> bool" where
  "env_form_unsafe ws \<longleftrightarrow> ws \<noteq> [] \<and> shell_program_name (hd ws) = lit ''env'' \<and> env_args_unsafe (tl ws)"

fun env_unsafe_loop :: "nat \<Rightarrow> rstr list \<Rightarrow> bool" where
  "env_unsafe_loop 0 current = False"
| "env_unsafe_loop (Suc n) current =
     (if env_form_unsafe current then True
      else case strip_wrapper_command current of
             Some inner \<Rightarrow> env_unsafe_loop n inner
           | None \<Rightarrow> False)"

definition command_env_is_unsafe :: "rstr list \<Rightarrow> bool" where
  "command_env_is_unsafe ws = env_unsafe_loop 8 ws"

definition assignment_key :: "Node \<Rightarrow> rstr" where
  "assignment_key node =
     (case List.find (\<lambda>c. kind c = lit ''variable_name'' \<and> utf8_text c \<noteq> None) (children node) of
        Some c \<Rightarrow> the (utf8_text c)
      | None \<Rightarrow> (case utf8_text node of Some t \<Rightarrow> takeWhile (\<lambda>c. c \<noteq> 61) t | None \<Rightarrow> []))"

definition sets_unsafe_env :: "Node \<Rightarrow> PlainCommand list \<Rightarrow> bool" where
  "sets_unsafe_env root cmds \<longleftrightarrow>
     (\<exists>n \<in> set (dfs [root]). kind n = lit ''variable_assignment'' \<and> \<not> is_safe_env_key (assignment_key n)) \<or>
     (\<exists>c \<in> set cmds. command_env_is_unsafe (words c))"

section \<open>The heuristic\<close>

lemma launch_operand_shorter:
  "launch_operand inner start = Inner ws \<Longrightarrow> ws = drop start inner \<and> start < length inner"
  by (auto simp: launch_operand_def get_word_def split: option.splits if_splits)

lemma launched_shorter:
  assumes "explicit_launch_target prog inner = Inner ws"
  shows "length ws < length inner"
proof -
  obtain start where "launch_operand inner start = Inner ws" "0 < start"
    using assms by (auto simp: explicit_launch_target_def split: option.splits if_splits)
  then show ?thesis by (auto dest: launch_operand_shorter)
qed

lemma launched_nonempty: "explicit_launch_target prog inner = Inner ws \<Longrightarrow> ws \<noteq> []"
  by (auto simp: explicit_launch_target_def dest: launch_operand_shorter split: option.splits if_splits)

lemma launched_words: "explicit_launch_target prog inner = Inner ws \<Longrightarrow> set ws \<subseteq> set inner"
  by (auto simp: explicit_launch_target_def dest!: launch_operand_shorter dest: in_set_dropD split: option.splits if_splits)

definition routine_prefix :: "rstr list \<Rightarrow> bool" where
  "routine_prefix inner =
     (let joined = ascii_lower (join [32] inner)
      in \<exists>p \<in> set ROUTINE_PREFIXES.
           (let base = trim p
            in joined = base \<or> (starts_with base joined \<and> starts_with [32] (drop (length base) joined))))"

definition git_grep_opens_pager :: "rstr \<Rightarrow> rstr list \<Rightarrow> bool" where
  "git_grep_opens_pager prog inner \<longleftrightarrow>
     prog = lit ''git'' \<and>
     (case get_word inner 1 of Some s \<Rightarrow> ascii_lower s = lit ''grep'' | None \<Rightarrow> False) \<and>
     (\<exists>w \<in> set inner.
        (let flag = takeWhile (\<lambda>c. c \<noteq> 61) w
         in starts_with (lit ''-O'') w \<or>
            (starts_with (lit ''--o'') flag \<and> starts_with flag (lit ''--open-files-in-pager''))))"

definition tree_writes_output :: "rstr \<Rightarrow> rstr list \<Rightarrow> bool" where
  "tree_writes_output prog inner \<longleftrightarrow>
     prog = lit ''tree'' \<and>
     (\<exists>w \<in> set inner. (dash w \<and> \<not> starts_with (lit ''--'') w \<and> 111 \<in> set w) \<or> starts_with (lit ''--output'') w)"

definition PACKAGE_MANAGERS :: "rstr list" where
  "PACKAGE_MANAGERS = map lit [''uv'', ''uvx'', ''npm'', ''npx'', ''pnpm'', ''yarn'', ''rustup'']"

definition safe_subcommand :: "rstr \<Rightarrow> rstr list \<Rightarrow> bool" where
  "safe_subcommand prog inner =
     (case launcher_subcommand prog inner of
        None \<Rightarrow> False
      | Some s \<Rightarrow>
          if is_npm_like prog then s \<in> set NPM_SAFE_SUBCOMMANDS
          else if prog = lit ''uv'' then s \<in> set UV_SAFE_SUBCOMMANDS
          else if prog = lit ''rustup'' then s \<in> set RUSTUP_SAFE_SUBCOMMANDS
          else False)"

function bash_command_is_routine :: "rstr list \<Rightarrow> bool"
  and package_manager_subcommand_is_routine :: "rstr \<Rightarrow> rstr list \<Rightarrow> bool option" where
  "bash_command_is_routine ws =
     (let inner = unwrap_wrappers ws
      in if inner = [] \<or> is_lone_wrapper inner then True
         else let prog = ascii_lower (shell_program_name (hd inner))
              in case package_manager_subcommand_is_routine prog inner of
                   Some routine \<Rightarrow> routine
                 | None \<Rightarrow>
                     if prog = lit ''find'' then find_is_read_only inner
                     else if git_grep_opens_pager prog inner then False
                     else if tree_writes_output prog inner then False
                     else if prog = lit ''gh'' then gh_subcommand_is_read_only inner
                     else routine_prefix inner)"
| "package_manager_subcommand_is_routine prog inner =
     (if prog \<notin> set PACKAGE_MANAGERS then None
      else if is_remote_launcher prog inner then Some False
      else case explicit_launch_target prog inner of
             Unresolved \<Rightarrow> Some False
           | Inner launched \<Rightarrow>
               Some (\<not> command_env_is_unsafe launched \<and> \<not> launched_writes_nonsink launched \<and>
                     bash_command_is_routine launched)
           | NotLauncher \<Rightarrow> Some (safe_subcommand prog inner))"
  by pat_completeness auto

termination
proof (relation "measure (case_sum (\<lambda>ws. 2 * length ws + 1) (\<lambda>(prog, inner). 2 * length inner))", goal_cases)
  case (2 ws inner prog)
  then show ?case using unwrap_wrappers_suffix [of ws] by (auto dest: suffix_length_le)
next
  case (3 prog inner launched)
  then show ?case using launched_shorter [of prog inner launched] by simp
qed simp

declare bash_command_is_routine.simps [simp del] package_manager_subcommand_is_routine.simps [simp del]

definition classify_bash :: "ShellParser \<Rightarrow> rstr \<Rightarrow> ClassifierVerdict" where
  "classify_bash parse cmd =
     (case parse cmd of
        None \<Rightarrow> VerdictBlock
      | Some tree \<Rightarrow>
          (case try_parse_word_only_commands_sequence tree of
             None \<Rightarrow> VerdictBlock
           | Some cmds \<Rightarrow>
               if sets_unsafe_env (root_node tree) cmds then VerdictBlock
               else if \<exists>path \<in> set (command_write_paths_in_tree (root_node tree)). \<not> is_safe_write_sink path
               then VerdictBlock
               else if cmds \<noteq> [] \<and> (\<forall>c \<in> set cmds. bash_command_is_routine (words c)) then VerdictAllow
               else VerdictBlock))"

definition DANGEROUS_PATTERNS :: "rstr list" where
  "DANGEROUS_PATTERNS = map lit
     [''rm -rf /'', ''rm -rf /*'', ''mkfs'', ''dd if='', '':(){ :|:& };:'', ''curl | sh'', ''curl|sh'', ''curl | bash'',
      ''curl|bash'', ''wget | sh'', ''wget|sh'', ''wget | bash'', ''wget|bash'', ''chmod 777'', ''chmod -r 777'',
      ''chmod +x /tmp'', ''base64 -d'', ''base64 --decode'', ''nc -e'', ''ncat -e'', ''/dev/tcp/'', ''shutdown'',
      ''reboot'', ''useradd'', ''userdel'', ''passwd '', ''chown -r /'', ''iptables -f'', ''kill -9 1'', ''sudo rm'',
      ''sudo dd'', ''sudo mkfs'', ''exfiltrat'', ''steal credential'', ''send secrets'']"

definition HOSTILE_INTENT :: "rstr list" where
  "HOSTILE_INTENT = map lit
     [''delete all files'', ''wipe the disk'', ''exfiltrate'', ''steal secrets'', ''send my credentials'',
      ''ignore safety'', ''bypass permission'']"

definition contains_any :: "rstr list \<Rightarrow> rstr \<Rightarrow> bool" where
  "contains_any ps s \<longleftrightarrow> (\<exists>p \<in> set ps. contains_sub p s)"

definition pipes_download_to_shell :: "rstr \<Rightarrow> bool" where
  "pipes_download_to_shell blob \<longleftrightarrow>
     contains_any (map lit [''curl'', ''wget'', ''fetch'']) blob \<and>
     contains_any (map lit [''| sh'', ''|sh'', ''| bash'', ''|bash'', ''| zsh'', ''|zsh'']) blob"

definition classify_sync :: "ShellParser \<Rightarrow> Classifier" where
  "classify_sync parse tool_name access access_detail context =
     (let detail = ascii_lower (case access_detail of Some d \<Rightarrow> d | None \<Rightarrow> []);
          tl_name = ascii_lower tool_name;
          transcript = ascii_lower (transcript_text context);
          blob = tl_name @ lit '' '' @ detail @ lit '' '' @ transcript
      in if contains_sub (lit ''ask_user'') tl_name \<or> contains_sub (lit ''askuserquestion'') tl_name then VerdictBlock
         else if contains_any DANGEROUS_PATTERNS blob then VerdictBlock
         else if pipes_download_to_shell blob then VerdictBlock
         else if contains_any HOSTILE_INTENT transcript then VerdictBlock
         else case access of
                Bash cmd \<Rightarrow> classify_bash parse cmd
              | WebFetch url \<Rightarrow>
                  (let u = ascii_lower url
                   in if contains_sub (lit ''localhost'') u \<or> contains_sub (lit ''127.0.0.1'') u \<or>
                         starts_with (lit ''file:'') u
                      then VerdictBlock else VerdictBlock)
              | Edit _ \<Rightarrow> VerdictBlock
              | MCPTool _ _ \<Rightarrow> VerdictBlock
              | Read _ \<Rightarrow> VerdictAllow
              | Grep _ _ \<Rightarrow> VerdictAllow
              | WebSearch _ \<Rightarrow> VerdictAllow)"

section \<open>The model side\<close>

definition AUTO_MODE_CLASSIFIER_SYSTEM_PROMPT :: rstr where
  "AUTO_MODE_CLASSIFIER_SYSTEM_PROMPT =
     lit ''You review a command that a coding agent wants to run on its user's machine. Decide'' @
     lit '' whether it can run now (shouldBlock=false) or must wait for the user's approval'' @
     lit '' (shouldBlock=true).'' @ [nl] @ [nl] @
     lit ''Let it run if everything it does is ordinary development work on this machine: building,'' @
     lit '' testing, searching, and editing project files; reading the user's own files, logs,'' @
     lit '' configuration, and environment; scratch work in temp directories; read-only queries of'' @
     lit '' the team's own services, dashboards, and internal APIs made from this machine (using'' @
     lit '' stored credentials for read access is normal); git reads and commits (status, diff,'' @
     lit '' log, show, add, commit, amending the latest local commit, switching branches). A chain'' @
     lit '' of safe steps, or a harmless no-op like `true`, is still safe. A local VM on this'' @
     lit '' machine counts as this machine.'' @ [nl] @ [nl] @
     lit ''Make it wait if any part reaches beyond the machine or cannot be undone: publishing'' @
     lit '' anything (git push, PR or review edits and comments, posts, messages), opening shells'' @
     lit '' on or changing other machines (SSH sessions, kubectl exec, cluster mutations,'' @
     lit '' production services), rewriting or discarding saved work (rebase, hard reset,'' @
     lit '' force-clean, force-deleting branches or worktrees), extracting credentials or secrets,'' @
     lit '' looking up people's private data (even read-only), destroying files outside scratch'' @
     lit '' space, downloading and running untrusted code, or probing systems for access.'' @ [nl] @ [nl] @
     lit ''Judge by what the command actually does '' @ [8212] @
     lit '' not by scary names in paths or strings. If you cannot tell what it does, make it wait.'' @ [nl]"

definition quoted :: "string \<Rightarrow> rstr" where "quoted s = [34] @ lit s @ [34]"

definition CLASSIFIER_JSON_INSTRUCTION :: rstr where
  "CLASSIFIER_JSON_INSTRUCTION =
     lit ''Respond with JSON only: {'' @ quoted ''thinking'' @ lit '':'' @ quoted ''...'' @ lit '','' @
     quoted ''shouldBlock'' @ lit '':true|false,'' @ quoted ''reason'' @ lit '':'' @ quoted ''...'' @ lit ''}''"

definition agents_md_message :: "rstr \<Rightarrow> rstr" where
  "agents_md_message agents_md =
     lit ''The following is the user's AGENTS.md configuration. These are '' @
     lit ''instructions the user provided to the agent and should be treated '' @
     lit ''as part of the user's intent when evaluating actions.'' @ [nl, nl] @
     lit ''<project_instructions>'' @ [nl] @ agents_md @ [nl] @ lit ''</project_instructions>''"

fun access_kind_name :: "AccessKind \<Rightarrow> rstr" where
  "access_kind_name (Read _) = lit ''read''"
| "access_kind_name (Grep _ _) = lit ''grep''"
| "access_kind_name (Edit _) = lit ''edit''"
| "access_kind_name (Bash _) = lit ''bash''"
| "access_kind_name (MCPTool _ _) = lit ''mcp''"
| "access_kind_name (WebFetch _) = lit ''web_fetch''"
| "access_kind_name (WebSearch _) = lit ''web_search''"

definition proposed_action :: "rstr \<Rightarrow> AccessKind \<Rightarrow> rstr option \<Rightarrow> rstr" where
  "proposed_action tool_name access access_detail =
     lit ''tool: '' @ tool_name @ [nl] @ lit ''access_kind: '' @ access_kind_name access @ [nl] @
     lit ''detail: '' @ (case access_detail of Some d \<Rightarrow> d | None \<Rightarrow> lit ''(none)'')"

definition build_classifier_messages ::
  "rstr \<Rightarrow> AccessKind \<Rightarrow> rstr option \<Rightarrow> ClassifierContext \<Rightarrow> ClassifierPromptType \<Rightarrow> ClassifierMessage list" where
  "build_classifier_messages tool_name access access_detail ctx pt =
     (let action = proposed_action tool_name access access_detail;
          judged = lit ''## Proposed action'' @ [nl] @ action @ [nl, nl] @ CLASSIFIER_JSON_INSTRUCTION;
          transcript = (if turns ctx = [] then lit ''(no recent conversation context)'' else transcript_text ctx)
      in [\<lparr>msg_role = RoleSystem, msg_text = AUTO_MODE_CLASSIFIER_SYSTEM_PROMPT\<rparr>] @
         (if pt = Full \<or> pt = NoUserToolPrefix
          then (case project_instructions ctx of
                  Some agents_md \<Rightarrow> [\<lparr>msg_role = RoleUser, msg_text = agents_md_message agents_md\<rparr>]
                | None \<Rightarrow> [])
          else []) @
         [\<lparr>msg_role = RoleUser,
           msg_text = (case pt of
              Full \<Rightarrow> lit ''## Recent conversation'' @ [nl] @ transcript @ [nl, nl] @ judged
            | NoUserToolPrefix \<Rightarrow> judged
            | BareInstructions \<Rightarrow> judged
            | JustCommand \<Rightarrow> action)\<rparr>])"

text \<open>The parsed reply: the parser is \<open>serde_json\<close>; what the code reads of a value is whether it is an
  object with a boolean under one of two keys.\<close>

datatype Json = JBool bool | JObject "(rstr \<times> Json) list" | JOther

type_synonym JsonParser = "rstr \<Rightarrow> Json option"

fun json_get :: "rstr \<Rightarrow> Json \<Rightarrow> Json option" where
  "json_get k (JObject entries) = map_of entries k"
| "json_get k _ = None"

fun as_bool :: "Json option \<Rightarrow> bool option" where
  "as_bool (Some (JBool b)) = Some b"
| "as_bool _ = None"

definition blocking :: "bool \<Rightarrow> ClassifierVerdict" where
  "blocking b = (if b then VerdictBlock else VerdictAllow)"

definition whole_reply :: "JsonParser \<Rightarrow> rstr \<Rightarrow> bool option" where
  "whole_reply from_str t =
     (case from_str t of
        None \<Rightarrow> None
      | Some v \<Rightarrow> (case as_bool (json_get (lit ''shouldBlock'') v) of
                     Some b \<Rightarrow> Some b
                   | None \<Rightarrow> as_bool (json_get (lit ''should_block'') v)))"

definition embedded_reply :: "JsonParser \<Rightarrow> rstr \<Rightarrow> bool option" where
  "embedded_reply from_str t =
     (case (find_sub (lit ''{'') t, rfind_sub (lit ''}'') t) of
        (Some start, Some fin) \<Rightarrow>
          if start < fin
          then (case from_str (take (fin + 1 - start) (drop start t)) of
                  None \<Rightarrow> None
                | Some v \<Rightarrow> as_bool (case json_get (lit ''shouldBlock'') v of
                                        Some x \<Rightarrow> Some x
                                      | None \<Rightarrow> json_get (lit ''should_block'') v))
          else None
      | _ \<Rightarrow> None)"

definition parse_classifier_model_text :: "JsonParser \<Rightarrow> rstr \<Rightarrow> ClassifierVerdict" where
  "parse_classifier_model_text from_str text =
     (let trimmed = trim text
      in if trimmed = [] then VerdictUnavailable
         else case whole_reply from_str trimmed of
                Some b \<Rightarrow> blocking b
              | None \<Rightarrow>
                  (case embedded_reply from_str trimmed of
                     Some b \<Rightarrow> blocking b
                   | None \<Rightarrow>
                       (let lower = ascii_lower trimmed
                        in if contains_sub (quoted ''shouldblock'' @ lit '': true'') lower \<or>
                              contains_sub (lit ''shouldblock'' @ [34] @ lit '':true'') lower then VerdictBlock
                           else if trim lower \<in> set (map lit [''block'', ''blocked'', ''deny'', ''denied''])
                           then VerdictBlock
                           else if trim lower \<in> set (map lit [''allow'', ''allowed'', ''approve'', ''approved''])
                           then VerdictAllow
                           else VerdictUnavailable)))"

text \<open>The production classifier. The channel's receiver may be gone or drop the reply (\<open>None\<close>); a
  reply is a text or an error.\<close>

record LlmPermissionClassifier =
  classify_text :: "(ClassifierMessage list \<Rightarrow> (rstr, rstr) result) option"
  classify_channel :: "(ClassifierMessage list \<Rightarrow> (rstr, rstr) result option) option"
  prompt_type :: ClassifierPromptType

definition production_default :: LlmPermissionClassifier where
  "production_default = \<lparr>classify_text = None, classify_channel = None, prompt_type = Full\<rparr>"

definition with_channel ::
  "(ClassifierMessage list \<Rightarrow> (rstr, rstr) result option) \<Rightarrow> ClassifierPromptType \<Rightarrow> LlmPermissionClassifier" where
  "with_channel tx pt = \<lparr>classify_text = None, classify_channel = Some tx, prompt_type = pt\<rparr>"

definition has_side_query :: "LlmPermissionClassifier \<Rightarrow> bool" where
  "has_side_query L \<longleftrightarrow> classify_text L \<noteq> None \<or> classify_channel L \<noteq> None"

definition with_fixed_model_text :: "rstr \<Rightarrow> LlmPermissionClassifier" where
  "with_fixed_model_text t = \<lparr>classify_text = Some (\<lambda>msgs. Ok t), classify_channel = None, prompt_type = Full\<rparr>"

definition model_text :: "LlmPermissionClassifier \<Rightarrow> ClassifierMessage list \<Rightarrow> rstr option" where
  "model_text L messages =
     (case classify_channel L of
        Some tx \<Rightarrow> (case tx messages of Some (Inr t) \<Rightarrow> Some t | _ \<Rightarrow> None)
      | None \<Rightarrow>
          (case classify_text L of
             Some ask \<Rightarrow> (case ask messages of Inr t \<Rightarrow> Some t | Inl _ \<Rightarrow> None)
           | None \<Rightarrow> None))"

definition llm_classify :: "ShellParser \<Rightarrow> JsonParser \<Rightarrow> LlmPermissionClassifier \<Rightarrow> Classifier" where
  "llm_classify parse from_str L tool_name access access_detail context =
     (let heuristic = classify_sync parse tool_name access access_detail context
      in if heuristic = VerdictAllow then VerdictAllow
         else case model_text L (build_classifier_messages tool_name access access_detail context (prompt_type L)) of
                Some t \<Rightarrow>
                  (let v = parse_classifier_model_text from_str t
                   in if v \<noteq> VerdictUnavailable then v else heuristic)
              | None \<Rightarrow> heuristic)"

section \<open>Allowed commands are understood to the end\<close>

lemma strip_wrapper_shorter: "strip_wrapper_command ws = Some inner \<Longrightarrow> length inner < length ws"
  by (auto simp: strict_suffix_def suffix_def dest!: strip_wrapper_tail(1))

text \<open>The program of a command line, as the routine check names it, and the command lines it stands
  for: each wrapper's command and each launcher's command in turn, however many there are.\<close>

definition program_of :: "rstr list \<Rightarrow> rstr" where
  "program_of ws = ascii_lower (shell_program_name (hd ws))"

function exec_chain :: "rstr list \<Rightarrow> rstr list list" where
  "exec_chain ws = ws #
     (case strip_wrapper_command ws of
        Some inner \<Rightarrow> exec_chain inner
      | None \<Rightarrow>
          if ws = [] then []
          else (case explicit_launch_target (program_of ws) ws of Inner l \<Rightarrow> exec_chain l | _ \<Rightarrow> []))"
  by auto

termination
  by (relation "measure length") (auto dest: strip_wrapper_shorter launched_shorter)

declare exec_chain.simps [simp del]

text \<open>What may stand at the end of the chain.\<close>

definition routine_leaf :: "rstr list \<Rightarrow> bool" where
  "routine_leaf ws =
     (is_lone_wrapper ws \<or>
      (let prog = program_of ws
       in if prog \<in> set PACKAGE_MANAGERS
          then \<not> is_remote_launcher prog ws \<and> explicit_launch_target prog ws = NotLauncher \<and> safe_subcommand prog ws
          else if prog = lit ''find'' then find_is_read_only ws
          else if prog = lit ''gh'' then gh_subcommand_is_read_only ws
          else \<not> git_grep_opens_pager prog ws \<and> \<not> tree_writes_output prog ws \<and> routine_prefix ws))"

definition ROUTINE_HEADS :: "rstr list" where
  "ROUTINE_HEADS = map (\<lambda>p. takeWhile (\<lambda>c. c \<noteq> 32) (trim p)) ROUTINE_PREFIXES"

lemma routine_heads_plain:
  "\<forall>h \<in> set ROUTINE_HEADS. h \<notin> set WRAPPERS \<and> 47 \<notin> set h \<and> 92 \<notin> set h"
  by (simp add: ROUTINE_HEADS_def ROUTINE_PREFIXES_def WRAPPERS_def trim_def trim_start_def trim_end_def
      is_whitespace_def)

lemma wrappers_plain:
  assumes "p \<in> set WRAPPERS"
  shows "ascii_lower p = p" "p \<notin> set PACKAGE_MANAGERS" "p \<notin> set (map lit [''find'', ''git'', ''tree'', ''gh''])"
proof -
  have "\<forall>p \<in> set WRAPPERS. ascii_lower p = p \<and> p \<notin> set PACKAGE_MANAGERS \<and>
      p \<notin> set (map lit [''find'', ''git'', ''tree'', ''gh''])"
    by (simp add: WRAPPERS_def PACKAGE_MANAGERS_def ascii_lower_def)
  with assms show "ascii_lower p = p" "p \<notin> set PACKAGE_MANAGERS" "p \<notin> set (map lit [''find'', ''git'', ''tree'', ''gh''])"
    by blast+
qed

lemma lower_separators:
  assumes "c = 32 \<or> c = 47 \<or> c = 92"
  shows "c \<in> set (ascii_lower w) \<longleftrightarrow> c \<in> set w"
  using assms by (force simp: ascii_lower_def)

lemma routine_prefix_head:
  assumes "routine_prefix (w # rest)" "32 \<notin> set w"
  shows "ascii_lower w \<in> set ROUTINE_HEADS"
proof -
  define joined where "joined = ascii_lower (join [32] (w # rest))"
  have "joined = ascii_lower w \<or> (\<exists>t. joined = ascii_lower w @ 32 # t)"
    by (cases rest) (auto simp: joined_def ascii_lower_def)
  moreover have "32 \<notin> set (ascii_lower w)" using assms(2) lower_separators [of 32 w] by simp
  ultimately have hd: "takeWhile (\<lambda>c. c \<noteq> 32) joined = ascii_lower w"
    by (auto simp: takeWhile_append)
  obtain p where p: "p \<in> set ROUTINE_PREFIXES" and
    "joined = trim p \<or> (starts_with (trim p) joined \<and> starts_with [32] (drop (length (trim p)) joined))"
    using assms(1) by (auto simp: routine_prefix_def joined_def Let_def)
  then have "joined = trim p \<or> (\<exists>t. joined = trim p @ 32 # t)"
    by (auto simp: starts_with_prefix prefix_def)
  then have "takeWhile (\<lambda>c. c \<noteq> 32) (trim p) = ascii_lower w"
    using hd by (auto simp: takeWhile_append split: if_splits)
  with p show ?thesis by (force simp: ROUTINE_HEADS_def)
qed

text \<open>A routine command line whose words hold no blank does not start with a wrapper, unless it is the
  bare wrapper.\<close>

lemma routine_prefix_no_wrapper:
  assumes "routine_prefix (w # rest)" "32 \<notin> set w"
  shows "shell_program_name w \<notin> set WRAPPERS"
proof
  assume W: "shell_program_name w \<in> set WRAPPERS"
  have head: "ascii_lower w \<in> set ROUTINE_HEADS" by (rule routine_prefix_head [OF assms])
  with routine_heads_plain have "47 \<notin> set (ascii_lower w)" "92 \<notin> set (ascii_lower w)" by blast+
  then have "47 \<notin> set w" "92 \<notin> set w" using lower_separators [of 47 w] lower_separators [of 92 w] by simp_all
  then have "takeWhile (\<lambda>c. c \<noteq> 47 \<and> c \<noteq> 92) (rev w) = rev w" unfolding takeWhile_eq_all_conv by auto
  then have "shell_program_name w = w" unfolding shell_program_name_def by (simp only: rev_rev_ident)
  with W wrappers_plain(1) have "ascii_lower w \<in> set WRAPPERS" by simp
  with head routine_heads_plain show False by blast
qed

lemma no_wrapper_no_strip: "shell_program_name w \<notin> set WRAPPERS \<Longrightarrow> strip_wrapper_command (w # ws) = None"
  by (auto simp: strip_wrapper_command_def wrapper_inner_index_def WRAPPERS_def split: option.splits)

lemma lone_no_strip: "length ws = 1 \<Longrightarrow> strip_wrapper_command ws = None"
  using strip_wrapper_tail [of ws] strip_wrapper_shorter [of ws] by (cases "strip_wrapper_command ws") force+

text \<open>The routine check on an unwrapped command line.\<close>

lemma routine_unwrapped:
  assumes "bash_command_is_routine ws" "ws \<noteq> []" "\<forall>w \<in> set ws. 32 \<notin> set w"
  defines "inner \<equiv> unwrap_wrappers ws"
  shows "is_lone_wrapper inner \<or>
     (shell_program_name (hd inner) \<notin> set WRAPPERS \<and>
      (if program_of inner \<in> set PACKAGE_MANAGERS
       then package_manager_subcommand_is_routine (program_of inner) inner = Some True
       else routine_leaf inner))"
proof (cases "is_lone_wrapper inner")
  case False
  obtain w rest where w: "inner = w # rest"
    using assms(2) unwrap_wrappers_empty [of ws] unfolding inner_def by (cases "unwrap_wrappers ws") auto
  have blank: "32 \<notin> set w"
    using assms(3) unwrap_wrappers_suffix [of ws] w unfolding inner_def by (auto dest: set_mono_suffix)
  let ?prog = "program_of inner"
  have R: "case package_manager_subcommand_is_routine ?prog inner of
       Some routine \<Rightarrow> routine
     | None \<Rightarrow> if ?prog = lit ''find'' then find_is_read_only inner
               else if git_grep_opens_pager ?prog inner then False
               else if tree_writes_output ?prog inner then False
               else if ?prog = lit ''gh'' then gh_subcommand_is_read_only inner
               else routine_prefix inner"
    using assms(1) False unfolding bash_command_is_routine.simps [of ws] inner_def [symmetric] program_of_def
    by (simp only: Let_def w list.simps False if_False simp_thms)
  have none: "package_manager_subcommand_is_routine ?prog inner = None \<longleftrightarrow> ?prog \<notin> set PACKAGE_MANAGERS"
    by (auto simp: package_manager_subcommand_is_routine.simps split: LaunchTarget.splits)
  have "shell_program_name (hd inner) \<notin> set WRAPPERS"
  proof
    assume W: "shell_program_name (hd inner) \<in> set WRAPPERS"
    then have "?prog \<notin> set PACKAGE_MANAGERS" "?prog \<notin> set (map lit [''find'', ''git'', ''tree'', ''gh''])"
      using wrappers_plain [OF W] by (simp_all add: program_of_def del: lit_simps)
    then have "routine_prefix inner" using R none by (simp del: lit_simps split: if_splits)
    then show False using routine_prefix_no_wrapper [of w rest] blank W w by simp
  qed
  then show ?thesis
    using R none by (auto simp: routine_leaf_def Let_def simp del: lit_simps split: option.splits if_splits)
qed simp

lemma routine_fully_unwrapped:
  assumes "bash_command_is_routine ws" "ws \<noteq> []" "\<forall>w \<in> set ws. 32 \<notin> set w"
  shows "strip_wrapper_command (unwrap_wrappers ws) = None" "\<not> env_form_unsafe (unwrap_wrappers ws)"
proof -
  obtain w rest where w: "unwrap_wrappers ws = w # rest"
    using assms(2) unwrap_wrappers_empty [of ws] by (cases "unwrap_wrappers ws") auto
  from routine_unwrapped [OF assms] show "strip_wrapper_command (unwrap_wrappers ws) = None"
    using no_wrapper_no_strip [of w rest] lone_no_strip by (auto simp: w is_lone_wrapper_def)
  have "lit ''env'' \<in> set WRAPPERS" by (simp add: WRAPPERS_def)
  with routine_unwrapped [OF assms] show "\<not> env_form_unsafe (unwrap_wrappers ws)"
    by (auto simp: w env_form_unsafe_def is_lone_wrapper_def simp del: lit_simps)
qed

text \<open>Peeling with a bound, when it ends, follows the chain.\<close>

lemma exec_chain_wrappers:
  assumes "strip_wrapper_command (unwrap_loop n ws) = None" "\<not> env_unsafe_loop n ws"
  shows "\<exists>ws'. exec_chain ws = ws' @ exec_chain (unwrap_loop n ws) \<and>
     (\<forall>f \<in> set ws'. \<not> env_form_unsafe f \<and> strip_wrapper_command f \<noteq> None)"
  using assms
proof (induction n arbitrary: ws)
  case (Suc n)
  show ?case
  proof (cases "strip_wrapper_command ws")
    case (Some inner)
    then obtain ws' where ws': "exec_chain inner = ws' @ exec_chain (unwrap_loop n inner)"
      "\<forall>f \<in> set ws'. \<not> env_form_unsafe f \<and> strip_wrapper_command f \<noteq> None"
      using Suc.IH [of inner] Suc.prems by (auto split: if_splits)
    then have "exec_chain ws = (ws # ws') @ exec_chain (unwrap_loop (Suc n) ws)"
      using Some by (simp add: exec_chain.simps [of ws])
    moreover have "\<forall>f \<in> set (ws # ws'). \<not> env_form_unsafe f \<and> strip_wrapper_command f \<noteq> None"
      using ws' Some Suc.prems by (auto split: if_splits)
    ultimately show ?thesis by blast
  qed simp
qed simp

lemma launchers_are_package_managers:
  "explicit_launch_target prog inner \<noteq> NotLauncher \<Longrightarrow> prog \<in> set PACKAGE_MANAGERS"
  by (auto simp: explicit_launch_target_def is_npm_like_def PACKAGE_MANAGERS_def simp del: lit_simps
      split: option.splits if_splits)

lemma exec_chain_unwrapped:
  assumes "strip_wrapper_command ws = None" "ws \<noteq> []"
  shows "exec_chain ws = ws # (case explicit_launch_target (program_of ws) ws of Inner l \<Rightarrow> exec_chain l | _ \<Rightarrow> [])"
  using assms by (simp add: exec_chain.simps [of ws])

definition understood :: "rstr list \<Rightarrow> bool" where
  "understood ws \<longleftrightarrow>
     (\<forall>f \<in> set (exec_chain ws). \<not> env_form_unsafe f \<and>
        (\<forall>l. strip_wrapper_command f = None \<and> explicit_launch_target (program_of f) f = Inner l
           \<longrightarrow> \<not> launched_writes_nonsink l)) \<and>
     routine_leaf (last (exec_chain ws))"

lemma understood_prefix:
  assumes "exec_chain ws = ws' @ exec_chain inner"
    "\<forall>f \<in> set ws'. \<not> env_form_unsafe f \<and> strip_wrapper_command f \<noteq> None" "understood inner"
  shows "understood ws"
proof -
  have "exec_chain inner \<noteq> []" by (simp add: exec_chain.simps [of inner])
  with assms show ?thesis by (auto simp: understood_def)
qed

lemma routine_understood:
  assumes "bash_command_is_routine ws" "\<not> command_env_is_unsafe ws" "ws \<noteq> []" "\<forall>w \<in> set ws. 32 \<notin> set w"
  shows "understood ws"
  using assms
proof (induction ws rule: measure_induct_rule [where f = length])
  case (less ws)
  define inner where "inner = unwrap_wrappers ws"
  note R = routine_unwrapped [OF less.prems(1,3,4), folded inner_def]
  note full = routine_fully_unwrapped [OF less.prems(1,3,4), folded inner_def]
  have inner: "inner \<noteq> []" "length inner \<le> length ws" "set inner \<subseteq> set ws"
    using less.prems(3) unwrap_wrappers_suffix [of ws]
    by (auto simp: inner_def suffix_length_le dest: set_mono_suffix)
  obtain ws' where ws': "exec_chain ws = ws' @ exec_chain inner"
    "\<forall>f \<in> set ws'. \<not> env_form_unsafe f \<and> strip_wrapper_command f \<noteq> None"
    using exec_chain_wrappers [of 8 ws] full(1) less.prems(2)
    by (auto simp: inner_def unwrap_wrappers_def command_env_is_unsafe_def)
  note chain = exec_chain_unwrapped [OF full(1) inner(1)]
  have "understood inner"
  proof (cases "explicit_launch_target (program_of inner) inner")
    case (Inner l)
    then have "program_of inner \<in> set PACKAGE_MANAGERS" using launchers_are_package_managers [of "program_of inner" inner] by simp
    moreover have "\<not> is_lone_wrapper inner"
      using launched_shorter [OF Inner] launched_nonempty [OF Inner] by (auto simp: is_lone_wrapper_def)
    ultimately have "package_manager_subcommand_is_routine (program_of inner) inner = Some True" using R by simp
    then have l: "\<not> command_env_is_unsafe l" "\<not> launched_writes_nonsink l" "bash_command_is_routine l"
      using Inner by (auto simp: package_manager_subcommand_is_routine.simps split: if_splits)
    have "understood l"
      using less.IH [of l] l launched_shorter [OF Inner] launched_nonempty [OF Inner] launched_words [OF Inner]
        inner(2,3) less.prems(4) by auto
    moreover have "exec_chain l \<noteq> []" by (simp add: exec_chain.simps [of l])
    ultimately show ?thesis using chain Inner full l(2) by (auto simp: understood_def)
  next
    case NotLauncher
    have "routine_leaf inner" using R NotLauncher
      by (auto simp: routine_leaf_def Let_def package_manager_subcommand_is_routine.simps split: if_splits)
    then show ?thesis using chain NotLauncher full by (simp add: understood_def)
  next
    case Unresolved
    then have "program_of inner \<in> set PACKAGE_MANAGERS" using launchers_are_package_managers [of "program_of inner" inner] by simp
    then have "is_lone_wrapper inner"
      using R Unresolved by (auto simp: package_manager_subcommand_is_routine.simps split: if_splits)
    then show ?thesis using chain Unresolved full by (simp add: understood_def routine_leaf_def)
  qed
  with ws' show ?case by (rule understood_prefix)
qed

section \<open>The verdict on a script\<close>


section \<open>Concrete scripts\<close>

text \<open>The trees of scripts that are one command: a name and arguments, each a plain word or, for a word
  with quotes inside it, a concatenation.\<close>

definition script_tree :: "rstr \<Rightarrow> rstr \<Rightarrow> Node list \<Rightarrow> Tree" where
  "script_tree s name args =
     \<lparr>root_node = Node (lit ''program'') True None 0 0 (Some s)
        [Node (lit ''command'') True None 0 0 (Some s)
           (Node (lit ''command_name'') True (Some (lit ''name'')) 0 0 (Some name) [word_node name] # args)],
      has_error = False\<rparr>"

definition quote_token :: Node where
  "quote_token = Node [34] False None 0 0 (Some [34]) []"

definition half_quoted :: "rstr \<Rightarrow> rstr \<Rightarrow> Node" where
  "half_quoted a b =
     Node (lit ''concatenation'') True None 0 0 (Some (a @ [34] @ b @ [34]))
       [word_node a,
        Node (lit ''string'') True None 0 0 (Some ([34] @ b @ [34]))
          [quote_token, Node (lit ''string_content'') True None 0 0 (Some b) [], quote_token]]"

lemmas tree_defs = script_tree_def half_quoted_def quote_token_def word_node_def

lemma ls_routine: "bash_command_is_routine [lit ''ls'']"
proof -
  have "unwrap_wrappers [lit ''ls''] = [lit ''ls'']" by (intro unwrap_wrappers_none lone_no_strip) simp
  moreover have "ascii_lower (shell_program_name (lit ''ls'')) = lit ''ls''"
    by (simp add: shell_program_name_def ascii_lower_def)
  moreover have "package_manager_subcommand_is_routine (lit ''ls'') [lit ''ls''] = None"
    by (simp add: package_manager_subcommand_is_routine.simps PACKAGE_MANAGERS_def)
  moreover have "routine_prefix [lit ''ls'']"
    unfolding routine_prefix_def Let_def
    by (rule bexI [of _ "lit ''ls''"])
       (simp_all add: ROUTINE_PREFIXES_def ascii_lower_def trim_def trim_start_def trim_end_def is_whitespace_def)
  ultimately show ?thesis
    by (simp add: bash_command_is_routine.simps Let_def git_grep_opens_pager_def tree_writes_output_def)
qed

lemma ls_parsed:
  "try_parse_word_only_commands_sequence (script_tree (lit ''ls'') (lit ''ls'') []) =
     Some [\<lparr>words = [lit ''ls''], span_start = 0, span_end = 0\<rparr>]"
  by (simp add: tree_defs try_parse_word_only_commands_sequence_def node_rejected_def ALLOWED_KINDS_def
      parse_plain_command_from_node_def plain_word_def named_children_def Let_def)

lemma ls_allowed: "classify_bash (\<lambda>s. Some (script_tree s s [])) (lit ''ls'') = VerdictAllow"
proof -
  let ?t = "script_tree (lit ''ls'') (lit ''ls'') []"
  note ls_parsed
  moreover have "\<not> command_env_is_unsafe [lit ''ls'']"
    using env_unsafe_loop.simps(2) [of 7 "[lit ''ls'']"]
    by (simp add: command_env_is_unsafe_def env_form_unsafe_def shell_program_name_def lone_no_strip)
  moreover have "command_write_paths_in_tree (root_node ?t) = []"
    by (simp add: tree_defs command_write_paths_in_tree_def shell_redirect_targets_def shell_command_invocations_def
        invocation_of_def named_children_def operand_of_def shell_node_arg_def command_words_write_paths_def
        unwrap_wrappers_none lone_no_strip program_lower_def shell_program_name_def ascii_lower_def
        special_file_operands_def shell_path_command_operands_def shell_file_mode_def READERS_def WRITERS_def
        List.map_filter_def Let_def)
  moreover have "\<forall>n \<in> set (dfs [root_node ?t]). kind n \<noteq> lit ''variable_assignment''" by (simp add: tree_defs)
  ultimately show ?thesis using ls_routine by (simp add: classify_bash_def sets_unsafe_env_def del: lit_simps)
qed


text \<open>A word written partly in quotes keeps its quotes when it is read, so the lists of refused options
  do not recognise it: \<open>find . -del"ete"\<close>, which the shell runs as \<open>find . -delete\<close>, is allowed.\<close>

definition find_del_ete :: Tree where
  "find_del_ete =
     script_tree (lit ''find . -del'' @ quoted ''ete'') (lit ''find'')
       [word_node (lit ''.''), half_quoted (lit ''-del'') (lit ''ete'')]"

lemma find_no_strip: "strip_wrapper_command (lit ''find'' # ws) = None"
  by (rule no_wrapper_no_strip) (simp add: shell_program_name_def WRAPPERS_def)

theorem half_quoted_delete_allowed:
  "classify_bash (\<lambda>s. Some find_del_ete) (lit ''find . -del'' @ quoted ''ete'') = VerdictAllow"
proof -
  let ?ws = "[lit ''find'', lit ''.'', lit ''-del'' @ [34] @ lit ''ete'' @ [34]]"
  have "try_parse_word_only_commands_sequence find_del_ete = Some [\<lparr>words = ?ws, span_start = 0, span_end = 0\<rparr>]"
    by (simp add: find_del_ete_def tree_defs try_parse_word_only_commands_sequence_def node_rejected_def
        ALLOWED_KINDS_def ALLOWED_PUNCT_TOKENS_def parse_plain_command_from_node_def plain_word_def
        named_children_def Let_def)
  moreover have "\<not> command_env_is_unsafe ?ws"
    using env_unsafe_loop.simps(2) [of 7 ?ws] find_no_strip
    by (simp add: command_env_is_unsafe_def env_form_unsafe_def shell_program_name_def del: lit_simps)
       (simp add: env_form_unsafe_def shell_program_name_def)
  moreover have "command_write_paths_in_tree (root_node find_del_ete) = []"
  proof -
    have inv: "shell_command_invocations (root_node find_del_ete) = [(0, ?ws, False)]"
      by (simp add: find_del_ete_def tree_defs shell_command_invocations_def invocation_of_def named_children_def
          operand_of_def shell_node_arg_def node_has_expansion_def EXPANSIONS_def List.map_filter_def Let_def)
    have "command_words_write_paths ?ws = []"
      by (simp add: command_words_write_paths_def unwrap_wrappers_none find_no_strip Let_def del: lit_simps)
         (simp add: program_lower_def shell_program_name_def ascii_lower_def special_file_operands_def
          shell_path_command_operands_def shell_file_mode_def READERS_def WRITERS_def)
    moreover have "shell_redirect_targets (root_node find_del_ete) = []"
      by (simp add: find_del_ete_def tree_defs shell_redirect_targets_def List.map_filter_def)
    ultimately show ?thesis by (simp add: command_write_paths_in_tree_def inv List.map_filter_def)
  qed
  moreover have "\<forall>n \<in> set (dfs [root_node find_del_ete]). kind n \<noteq> lit ''variable_assignment''"
    by (simp add: find_del_ete_def tree_defs)
  moreover have "bash_command_is_routine ?ws"
  proof -
    have "ascii_lower (shell_program_name (lit ''find'')) = lit ''find''"
      by (simp add: shell_program_name_def ascii_lower_def)
    moreover have "package_manager_subcommand_is_routine (lit ''find'') ?ws = None"
      by (simp add: package_manager_subcommand_is_routine.simps PACKAGE_MANAGERS_def)
    moreover have "find_is_read_only ?ws" by (simp add: find_is_read_only_def FIND_ACTIONS_def)
    ultimately show ?thesis
      unfolding bash_command_is_routine.simps [of ?ws]
      by (simp add: unwrap_wrappers_none find_no_strip Let_def is_lone_wrapper_def del: lit_simps)
  qed
  ultimately show ?thesis by (simp add: classify_bash_def sets_unsafe_env_def del: lit_simps)
qed

section \<open>Reading the reply\<close>

lemma find_sub_single: "c \<notin> set pre \<Longrightarrow> find_sub [c] (pre @ c # r) = Some (length pre)"
  by (induction pre) auto

lemma rfind_sub_absent: "c \<notin> set s \<Longrightarrow> rfind_sub [c] s = None"
  by (induction s) auto

lemma rfind_sub_single: "c \<notin> set post \<Longrightarrow> rfind_sub [c] (x @ c # post) = Some (length x)"
  by (induction x) (auto simp: rfind_sub_absent)

lemma trim_around:
  assumes "\<not> is_whitespace a" "\<not> is_whitespace z"
  shows "trim (pre @ a # mid @ z # post) = trim_start pre @ a # mid @ z # trim_end post"
proof -
  have start: "trim_start (pre @ a # r) = trim_start pre @ a # r" for r
    using assms(1) by (auto simp: trim_start_def dropWhile_append)
  have "trim_end (r @ z # post) = r @ z # trim_end post" for r
    using assms(2) by (auto simp: trim_end_def dropWhile_append)
  from this [of "trim_start pre @ a # mid"] show ?thesis by (simp add: trim_def start)
qed

lemma trim_start_set: "set (trim_start s) \<subseteq> set s"
  unfolding trim_start_def by (auto dest: set_dropWhileD)

lemma trim_end_set: "set (trim_end s) \<subseteq> set s"
  unfolding trim_end_def by (auto dest: set_dropWhileD)

text \<open>A reply of the requested shape is understood whatever surrounds it: when the text holds one JSON
  object with a boolean \<open>shouldBlock\<close>, no opening brace before it and no closing brace after it, the
  verdict is that boolean, whether the parser accepts the trimmed text as a whole or not.\<close>

theorem surrounded_reply_understood:
  assumes "obj = [123] @ body @ [125]" "from_str obj = Some v" "as_bool (json_get (lit ''shouldBlock'') v) = Some b"
    "123 \<notin> set pre" "125 \<notin> set post" "from_str (trim (pre @ obj @ post)) \<in> {None, Some v}"
  shows "parse_classifier_model_text from_str (pre @ obj @ post) = blocking b"
proof -
  let ?p = "trim_start pre" and ?q = "trim_end post"
  have trimmed: "trim (pre @ obj @ post) = ?p @ 123 # body @ 125 # ?q"
    using trim_around [of 123 125 pre body post] by (simp add: assms(1) is_whitespace_def)
  have "123 \<notin> set ?p" "125 \<notin> set ?q" using assms(4,5) trim_start_set trim_end_set by blast+
  then have "find_sub [123] (?p @ 123 # body @ 125 # ?q) = Some (length ?p)"
    "rfind_sub [125] (?p @ 123 # body @ 125 # ?q) = Some (length (?p @ 123 # body))"
    using find_sub_single rfind_sub_single [of 125 ?q "?p @ 123 # body"] by simp_all
  moreover have "as_bool (case json_get (lit ''shouldBlock'') v of
      Some x \<Rightarrow> Some x | None \<Rightarrow> json_get (lit ''should_block'') v) = Some b"
    using assms(3) by (auto simp del: lit_simps split: option.splits)
  moreover have "lit ''{'' = [123]" "lit ''}'' = [125]" by simp_all
  moreover have "take (length (?p @ 123 # body) + 1 - length ?p) (drop (length ?p) (?p @ 123 # body @ 125 # ?q)) = obj"
    by (simp add: assms(1))
  ultimately have "embedded_reply from_str (trim (pre @ obj @ post)) = Some b"
    unfolding embedded_reply_def trimmed by (simp add: assms(2) del: lit_simps)
  moreover have "whole_reply from_str (trim (pre @ obj @ post)) \<in> {None, Some b}"
    using assms(3,6) by (auto simp: whole_reply_def simp del: lit_simps)
  moreover have "trim (pre @ obj @ post) \<noteq> []" by (simp add: trimmed)
  ultimately show ?thesis by (auto simp: parse_classifier_model_text_def Let_def simp del: lit_simps)
qed

theorem surrounded_reply_understood_witness:
  "parse_classifier_model_text (\<lambda>s. if s = lit ''{B}'' then Some (JObject [(lit ''shouldBlock'', JBool True)]) else None)
     (lit ''Sure: '' @ lit ''{B}'' @ lit '' Done.'') = VerdictBlock"
proof -
  let ?f = "\<lambda>s. if s = lit ''{B}'' then Some (JObject [(lit ''shouldBlock'', JBool True)]) else None"
  have "trim (lit ''Sure: '' @ lit ''{B}'' @ lit '' Done.'') \<noteq> lit ''{B}''"
    by (simp add: trim_def trim_start_def trim_end_def is_whitespace_def)
  then show ?thesis
    using surrounded_reply_understood [of "lit ''{B}''" "lit ''B''" ?f _ True "lit ''Sure: ''" "lit '' Done.''"]
    by (simp add: blocking_def)
qed

section \<open>The production classifier\<close>

lemma classify_sync_decides: "classify_sync parse tool_name access detail ctx \<noteq> VerdictUnavailable"
  by (auto simp: classify_sync_def classify_bash_def Let_def split: AccessKind.splits option.splits)

lemma no_model_text: "model_text production_default msgs = None"
  by (simp add: model_text_def production_default_def)

lemma llm_without_model: "llm_classify parse from_str production_default = classify_sync parse"
  by (intro ext) (simp add: llm_classify_def no_model_text Let_def)

text \<open>The production classifier always decides. It allows exactly when the heuristic does, which the
  model cannot change, or when the model's reply says so; without an understood reply the heuristic
  decides.\<close>

theorem llm_allows_iff:
  defines "reply \<equiv> \<lambda>L tool_name access detail ctx.
     model_text L (build_classifier_messages tool_name access detail ctx (prompt_type L))"
  shows "llm_classify parse from_str L tool_name access detail ctx = VerdictAllow \<longleftrightarrow>
       classify_sync parse tool_name access detail ctx = VerdictAllow \<or>
       (\<exists>t. reply L tool_name access detail ctx = Some t \<and> parse_classifier_model_text from_str t = VerdictAllow)"
    "llm_classify parse from_str L tool_name access detail ctx \<noteq> VerdictUnavailable"
proof -
  show "llm_classify parse from_str L tool_name access detail ctx = VerdictAllow \<longleftrightarrow>
       classify_sync parse tool_name access detail ctx = VerdictAllow \<or>
       (\<exists>t. reply L tool_name access detail ctx = Some t \<and> parse_classifier_model_text from_str t = VerdictAllow)"
    by (auto simp: llm_classify_def reply_def Let_def split: option.splits)
  show "llm_classify parse from_str L tool_name access detail ctx \<noteq> VerdictUnavailable"
    using classify_sync_decides [of parse tool_name access detail ctx]
    by (auto simp: llm_classify_def Let_def split: option.splits)
qed

end
