(* ===== verification/Perm_Grants.thy ===== *)
theory Perm_Grants
  imports Shell_Access
begin

text \<open>
  Remembered approvals: \<open>permission/state.rs\<close> and the decision functions of \<open>permission/manager.rs\<close>
  that consult them. A script is allowed without a prompt when each of its commands, without
  wrappers, is a setup command, is on a built-in safe list, or starts with a prefix the user has
  approved.

  The hash sets of the state are lists without repetition. Their order only selects which of several
  matching prefixes the text of a rejection names.
\<close>

section \<open>The persisted state\<close>

record PermissionState =
  edit_policy :: EditPolicy
  allow_bash_execute :: bool
  allowed_bash_commands :: "rstr list"
  disallowed_bash_commands :: "rstr list"
  allowed_web_fetch_domains :: "rstr list"
  allowed_mcp_tools :: "rstr list"
  allowed_mcp_servers :: "rstr list"

definition state_default :: PermissionState where
  "state_default =
     \<lparr>edit_policy = EditAsk, allow_bash_execute = False, allowed_bash_commands = [],
      disallowed_bash_commands = [], allowed_web_fetch_domains = [], allowed_mcp_tools = [],
      allowed_mcp_servers = []\<rparr>"

definition hs_insert :: "rstr \<Rightarrow> rstr list \<Rightarrow> rstr list" where
  "hs_insert x xs = (if x \<in> set xs then xs else xs @ [x])"

lemma set_hs_insert [simp]: "set (hs_insert x xs) = insert x (set xs)"
  by (auto simp: hs_insert_def)

definition sanitize_client_id :: "rstr \<Rightarrow> rstr" where
  "sanitize_client_id client =
     map (\<lambda>c. if ascii_alpha c \<or> ascii_digit c \<or> c = 45 \<or> c = 95 then c else 95) client"

definition state_file_name :: "rstr option \<Rightarrow> rstr" where
  "state_file_name client =
     (case client of
        Some c \<Rightarrow> lit ''permission_'' @ sanitize_client_id c @ lit ''.toml''
      | None \<Rightarrow> lit ''permission.toml'')"

text \<open>Loading prefers the file of the client and falls back to the shared one; \<open>files\<close> gives the state
  a readable file holds (a file that does not parse holds the default state).\<close>

definition load_state_from_dir :: "(rstr \<Rightarrow> PermissionState option) \<Rightarrow> rstr option \<Rightarrow> PermissionState" where
  "load_state_from_dir files client =
     (let shared = (case files (state_file_name None) of Some s \<Rightarrow> s | None \<Rightarrow> state_default)
      in case client of
           None \<Rightarrow> shared
         | Some c \<Rightarrow> (case files (state_file_name (Some c)) of Some s \<Rightarrow> s | None \<Rightarrow> shared))"

section \<open>MCP grants\<close>

definition split_once :: "rstr \<Rightarrow> rstr \<Rightarrow> (rstr \<times> rstr) option" where
  "split_once sep s = map_option (\<lambda>i. (take i s, drop (i + length sep) s)) (find_sub sep s)"

definition mcp_server_prefix_allowed :: "rstr \<Rightarrow> rstr list \<Rightarrow> bool" where
  "mcp_server_prefix_allowed name servers =
     (servers \<noteq> [] \<and>
      (case split_once (lit ''__'') name of
         None \<Rightarrow> False
       | Some (server, _) \<Rightarrow> server \<noteq> [] \<and> server \<in> set servers))"

definition mcp_pre_decision :: "rstr \<Rightarrow> PermissionState \<Rightarrow> bool \<Rightarrow> bool \<Rightarrow> Decision option" where
  "mcp_pre_decision name state policy_forced_prompt remember =
     (if policy_forced_prompt \<and> \<not> remember then None
      else if name \<in> set (allowed_mcp_tools state) then Some Allow
      else if mcp_server_prefix_allowed name (allowed_mcp_servers state) then Some Allow
      else None)"

section \<open>Safe and dangerous commands\<close>

definition rg_has_pre_flag :: "rstr list \<Rightarrow> bool" where
  "rg_has_pre_flag ws \<longleftrightarrow>
     ws \<noteq> [] \<and> hd ws = lit ''rg'' \<and> (\<exists>w \<in> set ws. w = lit ''--pre'' \<or> starts_with (lit ''--pre='') w)"

definition matches_command_prefix :: "rstr \<Rightarrow> rstr \<Rightarrow> bool" where
  "matches_command_prefix cmd pat \<longleftrightarrow> cmd = pat \<or> starts_with (pat @ [32]) cmd"

definition SAFE_COMMANDS :: "rstr list" where
  "SAFE_COMMANDS = map lit [''ls'', ''cat'', ''pwd'', ''date'', ''git status'', ''git branch'', ''git log'',
     ''git diff'', ''git ls-files'', ''git show'', ''git rev-parse'', ''cargo check'', ''whoami'', ''hostname'',
     ''uptime'', ''grep'', ''rg'', ''kubectl get'', ''kubectl logs'', ''kubectl describe'', ''ps'',
     ''bin/explorer ls'', ''head'', ''tail'', ''wc'', ''sort'', ''uniq'', ''tr'', ''cut'']"

definition is_safe_command_words_str :: "rstr \<Rightarrow> bool" where
  "is_safe_command_words_str cmd \<longleftrightarrow> (\<exists>p \<in> set SAFE_COMMANDS. matches_command_prefix cmd p)"

definition is_safe_command_words :: "rstr list \<Rightarrow> bool" where
  "is_safe_command_words ws \<longleftrightarrow>
     ws \<noteq> [] \<and> \<not> rg_has_pre_flag ws \<and> is_safe_command_words_str (join [32] ws)"

definition ALWAYS_SAFE_COMMANDS :: "rstr list" where
  "ALWAYS_SAFE_COMMANDS = map lit [''ls'', ''cat'', ''pwd'', ''date'', ''whoami'', ''hostname'', ''uptime'', ''ps'',
     ''git status'', ''git branch'', ''git log'', ''git diff'', ''git ls-files'', ''git show'', ''git rev-parse'',
     ''grep'', ''rg'', ''cargo check'', ''kubectl get'', ''kubectl logs'', ''kubectl describe'', ''bin/explorer ls'']"

definition is_always_safe_command_words :: "rstr list \<Rightarrow> bool" where
  "is_always_safe_command_words ws \<longleftrightarrow>
     ws \<noteq> [] \<and> \<not> rg_has_pre_flag ws \<and>
     (\<exists>p \<in> set ALWAYS_SAFE_COMMANDS. matches_command_prefix (join [32] ws) p)"

function scope_loop :: "rstr list \<Rightarrow> nat \<Rightarrow> nat" where
  "scope_loop ws n = (if n < length ws \<and> dash (ws ! n) then scope_loop ws (n + 1) else n)"
  by auto

termination
  by (relation "measure (\<lambda>(ws, n). length ws - n)") auto

declare scope_loop.simps [simp del]

definition default_always_allow_scope :: "rstr list \<Rightarrow> nat" where
  "default_always_allow_scope ws =
     (if ws = [] then 0
      else if is_safe_command_words ws \<and> is_safe_command_words_str (hd ws) then 1
      else if is_safe_command_words ws \<and> 2 \<le> length ws \<and> is_safe_command_words_str (join [32] (take 2 ws)) then 2
      else scope_loop ws (min (length ws) 2))"

definition DANGEROUS_COMMANDS :: "rstr list" where
  "DANGEROUS_COMMANDS = map lit [''rm'', ''chmod'', ''chown'', ''chgrp'', ''chattr'', ''pkill'', ''kill'',
     ''killall'', ''git push'']"

definition is_dangerous_command_words :: "rstr list \<Rightarrow> bool" where
  "is_dangerous_command_words ws \<longleftrightarrow>
     ws \<noteq> [] \<and> (\<exists>p \<in> set DANGEROUS_COMMANDS. matches_command_prefix (join [32] ws) p)"

definition matches_whitelist_prefix :: "rstr \<Rightarrow> rstr \<Rightarrow> bool" where
  "matches_whitelist_prefix segment allowed_prefix = matches_command_prefix segment allowed_prefix"

section \<open>Evaluating the segments of a script\<close>

datatype SegmentEvaluation =
    AutoAllow bool
  | SegReject rstr
  | NeedsPrompts "rstr list" bool
  | Unparseable

definition rejected_before :: "rstr \<Rightarrow> rstr" where
  "rejected_before d = lit ''User previously rejected `'' @ d @ lit ''` for this session''"

fun segments_loop ::
  "PermissionState \<Rightarrow> bool \<Rightarrow> rstr list list \<Rightarrow> rstr list \<Rightarrow> bool \<Rightarrow> bool \<Rightarrow> SegmentEvaluation" where
  "segments_loop state honor [] needs_prompt any_dangerous via_grant =
     (if needs_prompt = [] then AutoAllow via_grant else NeedsPrompts needs_prompt any_dangerous)"
| "segments_loop state honor (raw_words # rest) needs_prompt any_dangerous via_grant =
     (let ws = unwrap_wrappers raw_words; s = join [32] ws
      in if is_setup_command ws then segments_loop state honor rest needs_prompt any_dangerous via_grant
         else case List.find (matches_whitelist_prefix s) (disallowed_bash_commands state) of
                Some d \<Rightarrow> SegReject (rejected_before d)
              | None \<Rightarrow>
                  if is_dangerous_command_words ws
                  then segments_loop state honor rest (needs_prompt @ [s]) True via_grant
                  else let matched_grant = (\<exists>a \<in> set (allowed_bash_commands state). matches_whitelist_prefix s a);
                           matched_safe = (honor \<and> (is_safe_command_words ws \<or> is_always_safe_command_words ws))
                       in if matched_grant \<or> matched_safe
                          then segments_loop state honor rest needs_prompt any_dangerous (via_grant \<or> matched_grant)
                          else segments_loop state honor rest (needs_prompt @ [s]) any_dangerous via_grant)"

definition evaluate_bash_segments_inner ::
  "Externals \<Rightarrow> rstr \<Rightarrow> PermissionState \<Rightarrow> bool \<Rightarrow> SegmentEvaluation" where
  "evaluate_bash_segments_inner E cmd state honor_safe_lists =
     (case all_commands_from_script (try_parse_shell E) cmd of
        None \<Rightarrow> Unparseable
      | Some segments \<Rightarrow> segments_loop state honor_safe_lists (map words segments) [] False False)"

definition evaluate_bash_segments :: "Externals \<Rightarrow> rstr \<Rightarrow> PermissionState \<Rightarrow> SegmentEvaluation" where
  "evaluate_bash_segments E cmd state = evaluate_bash_segments_inner E cmd state True"

section \<open>Grants\<close>

datatype Reason = YOLO | POLICY_ALLOW | POLICY_DENY | POLICY_ASK | AUTO_FAST_PATH | AUTO_CLASSIFIER_ALLOW
  | AUTO_CLASSIFIER_BLOCK | SANDBOX_AUTO | PERSISTED_GRANT | SESSION_GRANT | STATIC_ALLOWLIST | SAFE_COMMAND
  | SESSION_DENY | PROMPT_DENY | NEEDS_USER

definition clamp_yolo :: "bool \<Rightarrow> rstr option \<Rightarrow> bool" where
  "clamp_yolo requested yolo_pin = (requested \<and> yolo_pin = None)"

definition auto_prompt_blocks_allow :: "AccessKind \<Rightarrow> bool" where
  "auto_prompt_blocks_allow access = (case access of Bash _ \<Rightarrow> False | _ \<Rightarrow> True)"

definition persisted_bash_auto_allows :: "PermissionState \<Rightarrow> rstr \<Rightarrow> rstr option \<Rightarrow> bool" where
  "persisted_bash_auto_allows state cmd yolo_pin =
     ((allow_bash_execute state \<and> yolo_pin = None) \<or> cmd \<in> set (allowed_bash_commands state))"

record BashGrantOpts =
  honor_safe_lists :: bool
  allow_blanket :: bool
  conservative_blanket :: bool

definition PRE_CLASSIFIER :: BashGrantOpts where
  "PRE_CLASSIFIER = \<lparr>honor_safe_lists = True, allow_blanket = True, conservative_blanket = True\<rparr>"

definition ASK_FLOOR_REMEMBER :: BashGrantOpts where
  "ASK_FLOOR_REMEMBER = \<lparr>honor_safe_lists = False, allow_blanket = False, conservative_blanket = False\<rparr>"

definition post_classify :: "bool \<Rightarrow> BashGrantOpts" where
  "post_classify auto_forced_prompt =
     \<lparr>honor_safe_lists = True, allow_blanket = \<not> auto_forced_prompt, conservative_blanket = False\<rparr>"

definition bash_grant_pre_decision ::
  "Externals \<Rightarrow> rstr \<Rightarrow> PermissionState \<Rightarrow> rstr option \<Rightarrow> BashGrantOpts \<Rightarrow> (Decision \<times> Reason) option" where
  "bash_grant_pre_decision E cmd state yolo_pin opts =
     (case (if honor_safe_lists opts then evaluate_bash_segments E cmd state
            else evaluate_bash_segments_inner E cmd state False) of
        SegReject reason \<Rightarrow> Some (Reject reason, SESSION_DENY)
      | AutoAllow via_grant \<Rightarrow> Some (Allow, if via_grant then SESSION_GRANT else SAFE_COMMAND)
      | NeedsPrompts segments any_dangerous \<Rightarrow>
          if \<not> allow_blanket opts then None
          else if any_dangerous \<and> conservative_blanket opts then None
          else if persisted_bash_auto_allows state cmd yolo_pin then Some (Allow, SESSION_GRANT)
          else None
      | Unparseable \<Rightarrow>
          if \<not> allow_blanket opts then None
          else if (if conservative_blanket opts then cmd \<in> set (allowed_bash_commands state)
                   else persisted_bash_auto_allows state cmd yolo_pin)
          then Some (Allow, SESSION_GRANT)
          else None)"

definition session_grant_pre_decision ::
  "Externals \<Rightarrow> AccessKind \<Rightarrow> PermissionState \<Rightarrow> bool \<Rightarrow> DomainMatcher \<Rightarrow> rstr option \<Rightarrow> (Decision \<times> Reason) option" where
  "session_grant_pre_decision E access state allow_edits_for_session static_domain_matcher yolo_pin =
     (case access of
        MCPTool name _ \<Rightarrow> map_option (\<lambda>d. (d, SESSION_GRANT)) (mcp_pre_decision name state False False)
      | WebFetch url \<Rightarrow>
          (case url_parse E url of
             None \<Rightarrow> None
           | Some parsed_url \<Rightarrow>
               if matcher_check E static_domain_matcher parsed_url = None then Some (Allow, STATIC_ALLOWLIST)
               else case host_str parsed_url of
                      None \<Rightarrow> None
                    | Some h \<Rightarrow>
                        if normalize_domain E h \<in> set (allowed_web_fetch_domains state)
                        then Some (Allow, SESSION_GRANT) else None)
      | Edit _ \<Rightarrow> if allow_edits_for_session then Some (Allow, SESSION_GRANT) else None
      | Bash cmd \<Rightarrow> bash_grant_pre_decision E cmd state yolo_pin PRE_CLASSIFIER
      | _ \<Rightarrow> None)"

section \<open>When a script is allowed without a prompt\<close>

text \<open>One command, without its wrappers, as the loop treats it.\<close>

definition segment_rejected :: "PermissionState \<Rightarrow> rstr list \<Rightarrow> bool" where
  "segment_rejected state ws \<longleftrightarrow>
     \<not> is_setup_command ws \<and> (\<exists>d \<in> set (disallowed_bash_commands state). matches_whitelist_prefix (join [32] ws) d)"

definition segment_granted :: "PermissionState \<Rightarrow> rstr list \<Rightarrow> bool" where
  "segment_granted state ws \<longleftrightarrow> (\<exists>a \<in> set (allowed_bash_commands state). matches_whitelist_prefix (join [32] ws) a)"

definition segment_passes :: "PermissionState \<Rightarrow> bool \<Rightarrow> rstr list \<Rightarrow> bool" where
  "segment_passes state honor ws \<longleftrightarrow>
     is_setup_command ws \<or>
     (\<not> is_dangerous_command_words ws \<and>
      (segment_granted state ws \<or> (honor \<and> (is_safe_command_words ws \<or> is_always_safe_command_words ws))))"

lemma find_disallowed:
  "List.find (matches_whitelist_prefix s) ds = None \<longleftrightarrow> \<not> (\<exists>d \<in> set ds. matches_whitelist_prefix s d)"
  by (auto simp: find_None_iff)

declare segments_loop.simps(2) [simp del]

text \<open>The three ways one command moves the loop.\<close>

lemma segments_step:
  fixes state honor r rest np dang via
  defines "ws \<equiv> unwrap_wrappers r"
  obtains (rejected) m where "segment_rejected state ws"
      "segments_loop state honor (r # rest) np dang via = SegReject m"
  | (passes) via' where "\<not> segment_rejected state ws" "segment_passes state honor ws"
      "segments_loop state honor (r # rest) np dang via = segments_loop state honor rest np dang via'"
  | (prompts) dang' where "\<not> segment_rejected state ws" "\<not> segment_passes state honor ws"
      "segments_loop state honor (r # rest) np dang via
         = segments_loop state honor rest (np @ [join [32] ws]) dang' via"
proof (cases "segment_rejected state ws")
  case True
  then obtain d where "List.find (matches_whitelist_prefix (join [32] ws)) (disallowed_bash_commands state) = Some d"
    "\<not> is_setup_command ws"
    using find_disallowed [of "join [32] ws" "disallowed_bash_commands state"]
    by (auto simp: segment_rejected_def)
  with True show thesis by (intro rejected) (simp_all add: ws_def [symmetric] Let_def segments_loop.simps(2))
next
  case False
  then have none: "is_setup_command ws \<or>
      List.find (matches_whitelist_prefix (join [32] ws)) (disallowed_bash_commands state) = None"
    using find_disallowed [of "join [32] ws" "disallowed_bash_commands state"]
    by (auto simp: segment_rejected_def)
  note loop = segments_loop.simps(2) [of state honor r rest np dang via, unfolded Let_def, folded ws_def]
  consider "is_setup_command ws" | "\<not> is_setup_command ws" "is_dangerous_command_words ws"
    | "\<not> is_setup_command ws" "\<not> is_dangerous_command_words ws" by blast
  then show thesis
  proof cases
    case 1
    then show ?thesis using False by (intro passes) (simp_all add: segment_passes_def loop)
  next
    case 2
    then show ?thesis using False none by (intro prompts) (simp_all add: segment_passes_def loop)
  next
    case 3
    show ?thesis
    proof (cases "segment_passes state honor ws")
      case True
      with 3 none False show ?thesis
        by (intro passes) (auto simp: segment_passes_def segment_granted_def loop)
    next
      case notp: False
      with 3 none False show ?thesis
        by (intro prompts) (auto simp: segment_passes_def segment_granted_def loop)
    qed
  qed
qed

lemma segments_loop_rejects:
  "(\<exists>m. segments_loop state honor segs np dang via = SegReject m)
     \<longleftrightarrow> (\<exists>r \<in> set segs. segment_rejected state (unwrap_wrappers r))"
proof (induction segs arbitrary: np dang via)
  case (Cons r segs)
  show ?case
    by (rule segments_step [where state = state and honor = honor and r = r and rest = segs and np = np
          and dang = dang and via = via]) (use Cons in auto)
qed simp

lemma segments_loop_allows:
  "(\<exists>g. segments_loop state honor segs np dang via = AutoAllow g)
     \<longleftrightarrow> np = [] \<and> (\<forall>r \<in> set segs. \<not> segment_rejected state (unwrap_wrappers r)
                                   \<and> segment_passes state honor (unwrap_wrappers r))"
proof (induction segs arbitrary: np dang via)
  case (Cons r segs)
  show ?case
    by (rule segments_step [where state = state and honor = honor and r = r and rest = segs and np = np
          and dang = dang and via = via]) (use Cons in auto)
qed simp

lemma segments_loop_parsed: "segments_loop state honor segs np dang via \<noteq> Unparseable"
proof (induction segs arbitrary: np dang via)
  case (Cons r segs)
  show ?case
    by (rule segments_step [where state = state and honor = honor and r = r and rest = segs and np = np
          and dang = dang and via = via]) (use Cons in auto)
qed simp

lemma segment_evaluation_cases:
  "(\<exists>p d. e = NeedsPrompts p d) \<longleftrightarrow>
     \<not> (\<exists>m. e = SegReject m) \<and> \<not> (\<exists>g. e = AutoAllow g) \<and> e \<noteq> Unparseable"
  by (cases e) auto

text \<open>C22. The verdict on a script that was decomposed into commands, each without its wrappers: it is
  rejected exactly when a command other than a setup command starts with a disallowed prefix, whatever
  stands before or after it; otherwise it is allowed without a prompt exactly when every command is a
  setup command, or is not dangerous and starts with an approved prefix or (where the built-in lists
  count) a safe one; otherwise the user is asked. A script that was not decomposed is reported as
  such.\<close>

theorem segments_verdict:
  "(\<forall>segs. all_commands_from_script (try_parse_shell E) cmd = Some segs \<longrightarrow>
      ((\<exists>m. evaluate_bash_segments_inner E cmd state honor = SegReject m) \<longleftrightarrow>
         (\<exists>c \<in> set segs. segment_rejected state (unwrap_wrappers (words c))))
    \<and> ((\<exists>g. evaluate_bash_segments_inner E cmd state honor = AutoAllow g) \<longleftrightarrow>
         (\<forall>c \<in> set segs. \<not> segment_rejected state (unwrap_wrappers (words c))
            \<and> segment_passes state honor (unwrap_wrappers (words c))))
    \<and> ((\<exists>p d. evaluate_bash_segments_inner E cmd state honor = NeedsPrompts p d) \<longleftrightarrow>
         (\<forall>c \<in> set segs. \<not> segment_rejected state (unwrap_wrappers (words c)))
       \<and> (\<exists>c \<in> set segs. \<not> segment_passes state honor (unwrap_wrappers (words c)))))
   \<and> (all_commands_from_script (try_parse_shell E) cmd = None
      \<longrightarrow> evaluate_bash_segments_inner E cmd state honor = Unparseable)"
proof (intro conjI allI impI)
  fix segs assume segs: "all_commands_from_script (try_parse_shell E) cmd = Some segs"
  have e: "evaluate_bash_segments_inner E cmd state honor = segments_loop state honor (map words segs) [] False False"
    by (simp add: evaluate_bash_segments_inner_def segs)
  show rej: "(\<exists>m. evaluate_bash_segments_inner E cmd state honor = SegReject m) \<longleftrightarrow>
      (\<exists>c \<in> set segs. segment_rejected state (unwrap_wrappers (words c)))"
    unfolding e segments_loop_rejects by simp
  show alw: "(\<exists>g. evaluate_bash_segments_inner E cmd state honor = AutoAllow g) \<longleftrightarrow>
      (\<forall>c \<in> set segs. \<not> segment_rejected state (unwrap_wrappers (words c))
         \<and> segment_passes state honor (unwrap_wrappers (words c)))"
    unfolding e segments_loop_allows by simp
  have "evaluate_bash_segments_inner E cmd state honor \<noteq> Unparseable" unfolding e by (rule segments_loop_parsed)
  then show "(\<exists>p d. evaluate_bash_segments_inner E cmd state honor = NeedsPrompts p d) \<longleftrightarrow>
      (\<forall>c \<in> set segs. \<not> segment_rejected state (unwrap_wrappers (words c)))
      \<and> (\<exists>c \<in> set segs. \<not> segment_passes state honor (unwrap_wrappers (words c)))"
    unfolding segment_evaluation_cases rej alw by blast
qed (simp add: evaluate_bash_segments_inner_def)

theorem segments_verdict_witness:
  "\<exists>g. evaluate_bash_segments_inner plain_surroundings (lit ''ls'') state_default True = AutoAllow g"
proof -
  have segs: "all_commands_from_script (try_parse_shell plain_surroundings) (lit ''ls'')
      = Some [\<lparr>words = [lit ''ls''], span_start = 0, span_end = 0\<rparr>]"
    by (simp add: plain_surroundings_def all_commands_one)
  have "unwrap_wrappers [lit ''ls''] = [lit ''ls'']"
    by (intro unwrap_wrappers_none) (simp add: strip_wrapper_command_def wrapper_inner_index_def shell_program_name_def)
  moreover have "segment_passes state_default True [lit ''ls'']"
    by (simp add: segment_passes_def is_dangerous_command_words_def DANGEROUS_COMMANDS_def is_safe_command_words_def
        is_safe_command_words_str_def SAFE_COMMANDS_def matches_command_prefix_def rg_has_pre_flag_def)
  ultimately show ?thesis
    using segments_verdict [of plain_surroundings "lit ''ls''" state_default True] segs
    by (auto simp: segment_rejected_def state_default_def)
qed

section \<open>Wrappers nested too deep\<close>

definition timeouts :: "nat \<Rightarrow> rstr list" where
  "timeouts n = concat (replicate n [lit ''timeout'', lit ''1''])"

lemma timeouts_simps [simp]: "timeouts 0 = []" "timeouts (Suc n) = lit ''timeout'' # lit ''1'' # timeouts n"
  by (simp_all add: timeouts_def)

lemma strip_timeout: "rest \<noteq> [] \<Longrightarrow> strip_wrapper_command (lit ''timeout'' # lit ''1'' # rest) = Some rest"
  by (simp add: strip_wrapper_command_def wrapper_inner_index_def shell_program_name_def operand_then_def
      skip_options.simps [of _ _ "Suc 0"])

lemma unwrap_timeouts: "rest \<noteq> [] \<Longrightarrow> unwrap_loop n (timeouts (n + k) @ rest) = timeouts k @ rest"
proof (induction n)
  case (Suc n)
  then show ?case using strip_timeout [of "timeouts (n + k) @ rest"] by (simp del: lit_simps)
qed simp

lemma unwrap_nine_timeouts:
  "rest \<noteq> [] \<Longrightarrow> unwrap_wrappers (timeouts 9 @ rest) = lit ''timeout'' # lit ''1'' # rest"
  using unwrap_timeouts [of rest 8 1] timeouts_simps(2) [of 0] by (simp add: unwrap_wrappers_def)

text \<open>Only eight wrappers are peeled, and what is left after that still counts as a setup command
  when it begins with \<open>timeout\<close>. A script whose only command is any command behind nine \<open>timeout\<close>s is
  therefore allowed without a prompt in every state, even when the user has disallowed that command
  and even when the built-in safe lists do not count.\<close>

theorem nine_timeouts_auto_allowed:
  assumes "all_commands_from_script (try_parse_shell E) cmd = Some [c]" "words c = timeouts 9 @ hidden"
    "hidden \<noteq> []"
  shows "evaluate_bash_segments_inner E cmd state honor = AutoAllow False"
proof -
  have "is_setup_command (unwrap_wrappers (words c))"
    using assms(2,3) by (simp add: unwrap_nine_timeouts is_setup_command_def)
  then show ?thesis
    by (simp add: evaluate_bash_segments_inner_def assms(1) segments_loop.simps(2) Let_def)
qed

definition hidden_rm :: rstr where
  "hidden_rm = join [32] (timeouts 9 @ map lit [''rm'', ''x''])"

lemma hidden_rm_words: "all_commands_from_script one_command_parser hidden_rm
    = Some [\<lparr>words = timeouts 9 @ map lit [''rm'', ''x''], span_start = 0, span_end = 0\<rparr>]"
proof -
  have "set (timeouts n) \<subseteq> {lit ''timeout'', lit ''1''}" for n by (induction n) auto
  then have "\<forall>w \<in> set (timeouts 9 @ map lit [''rm'', ''x'']). 32 \<notin> set w" by fastforce
  then have "split_on 32 hidden_rm = timeouts 9 @ map lit [''rm'', ''x'']"
    unfolding hidden_rm_def by (intro split_on_join) auto
  then show ?thesis by (simp add: all_commands_one)
qed

theorem nine_timeouts_auto_allowed_witness:
  "evaluate_bash_segments plain_surroundings hidden_rm (state_default\<lparr>disallowed_bash_commands := [lit ''rm'']\<rparr>)
     = AutoAllow False"
  unfolding evaluate_bash_segments_def
  by (rule nine_timeouts_auto_allowed [where hidden = "map lit [''rm'', ''x'']"
        and c = "\<lparr>words = timeouts 9 @ map lit [''rm'', ''x''], span_start = 0, span_end = 0\<rparr>"])
     (simp_all add: plain_surroundings_def hidden_rm_words)

text \<open>The command gate is passed the same way: a rule that denies \<open>rm\<close> does not see it.\<close>

theorem nine_timeouts_pass_deny_rule:
  "evaluate_bash_command_policy plain_surroundings (compiled_new plain_surroundings deny_rm) hidden_rm = None"
proof -
  let ?ws = "timeouts 9 @ map lit [''rm'', ''x'']"
  have parse: "try_parse_shell plain_surroundings = one_command_parser" by (simp add: plain_surroundings_def)
  have nine: "timeouts 9 = lit ''timeout'' # lit ''1'' # timeouts 8" using timeouts_simps(2) [of 8] by simp
  have forms: "command_forms ?ws = [?ws, [lit ''timeout'', lit ''1'', lit ''rm'', lit ''x'']]"
    using unwrap_nine_timeouts [of "map lit [''rm'', ''x'']"] timeouts_simps(2) [of 7]
    by (simp add: command_forms_def nine)
  have split: "split_on 32 hidden_rm = ?ws" using hidden_rm_words by (simp add: all_commands_one)
  have dc: "\<forall>ws \<in> set (command_forms (split_on 32 hidden_rm)). shell_dash_c_script ws = None"
    unfolding split forms by (simp add: shell_dash_c_script_def shell_program_name_def nine)
  have "evaluate_bash_command_segments (Suc 7) plain_surroundings (compiled_new plain_surroundings deny_rm) hidden_rm = None"
    unfolding one_command_gate [OF dc] split forms evaluate_deny_rm
    by (simp add: nine trim_start_def is_whitespace_def escalate_def)
  then show ?thesis by (simp add: evaluate_bash_command_policy_def)
qed

section \<open>The prefix offered for approval\<close>

lemma scope_loop_bounds: "n \<le> length ws \<Longrightarrow> n \<le> scope_loop ws n \<and> scope_loop ws n \<le> length ws"
proof (induction ws n rule: scope_loop.induct)
  case (1 ws n)
  then show ?case by (subst (1 2) scope_loop.simps) auto
qed

lemma join_take_prefix:
  "0 < n \<Longrightarrow> n < length ws \<Longrightarrow> prefix (join [32] (take n ws) @ [32]) (join [32] ws)"
proof (induction ws arbitrary: n)
  case (Cons w ws)
  then obtain m where n: "n = Suc m" by (cases n) auto
  with Cons.prems have ws: "ws \<noteq> []" by auto
  show ?case
  proof (cases m)
    case 0
    with n ws show ?thesis by (simp add: join_Cons)
  next
    case (Suc k)
    with n Cons.prems have "prefix (join [32] (take m ws) @ [32]) (join [32] ws)" by (intro Cons.IH) auto
    moreover have "take m ws \<noteq> []" using Suc ws by simp
    ultimately show ?thesis using n ws by (simp add: join_Cons prefix_def)
  qed
qed simp

text \<open>Approving the prefix that the prompt offers for a command covers that command: with the
  prefix among the approved ones, the command passes without a prompt unless it is dangerous, and the
  prefix always has at least one word of the command.\<close>

theorem approved_scope_covers_command:
  assumes "ws \<noteq> []" "join [32] (take (default_always_allow_scope ws) ws) \<in> set (allowed_bash_commands state)"
    "\<not> is_dangerous_command_words ws"
  shows "segment_passes state honor ws \<and> 0 < default_always_allow_scope ws
    \<and> default_always_allow_scope ws \<le> length ws"
proof -
  let ?n = "default_always_allow_scope ws"
  have len: "0 < length ws" using assms(1) by simp
  have "0 < min (length ws) 2" using len by simp
  then have loop: "0 < scope_loop ws (min (length ws) 2)" "scope_loop ws (min (length ws) 2) \<le> length ws"
    using scope_loop_bounds [of "min (length ws) 2" ws] by (simp_all del: min_less_iff_conj)
  have n: "0 < ?n" "?n \<le> length ws"
    using loop len assms(1) by (auto simp: default_always_allow_scope_def Suc_le_eq)
  have "matches_command_prefix (join [32] ws) (join [32] (take ?n ws))"
  proof (cases "?n = length ws")
    case False
    with n join_take_prefix [of ?n ws] show ?thesis by (simp add: matches_command_prefix_def starts_with_prefix)
  qed (simp add: matches_command_prefix_def)
  with assms n show ?thesis
    by (auto simp: segment_passes_def segment_granted_def matches_whitelist_prefix_def)
qed

theorem approved_scope_covers_command_witness:
  "segment_passes (state_default\<lparr>allowed_bash_commands := [lit ''npm run'']\<rparr>) False (map lit [''npm'', ''run'', ''x''])"
proof -
  have scope: "default_always_allow_scope (map lit [''npm'', ''run'', ''x'']) = 2"
  proof -
    have "\<not> is_safe_command_words (map lit [''npm'', ''run'', ''x''])"
      by (simp add: is_safe_command_words_def is_safe_command_words_str_def SAFE_COMMANDS_def
          matches_command_prefix_def)
    moreover have "scope_loop (map lit [''npm'', ''run'', ''x'']) 2 = 2"
      by (simp add: scope_loop.simps [of _ 2])
    ultimately show ?thesis by (simp add: default_always_allow_scope_def numeral_2_eq_2)
  qed
  have safe: "\<not> is_dangerous_command_words (map lit [''npm'', ''run'', ''x''])"
    by (simp add: is_dangerous_command_words_def DANGEROUS_COMMANDS_def matches_command_prefix_def)
  show ?thesis
    using approved_scope_covers_command [OF _ _ safe, where state = "state_default\<lparr>allowed_bash_commands := [lit ''npm run'']\<rparr>"
        and honor = False] scope
    by simp
qed

end
