(* ===== verification/Perm_Manager.thy ===== *)
theory Perm_Manager
  imports Perm_Grants Auto_Mode
begin

text \<open>
  The permission manager: the actor of \<open>permission/manager.rs\<close> and the mapping of tool inputs to
  accesses in \<open>permission/types.rs\<close>.

  The handle stores its mode flags and sends a command; the actor takes the commands from a queue.
  A request is one step: the answer the user would give to a prompt, and whether the sandbox allows
  shell commands, are inputs of the step. The classifier of auto mode is a trait object and thus a
  function of the state; prompts, logging and the telemetry event fields that only carry times and
  counts are left out.
\<close>

section \<open>From tool inputs to accesses\<close>

datatype ToolInput =
    ReadFile rstr | ListDir rstr | GrepInput "rstr option" "rstr option" | TodoWrite | TaskOutput | WaitTasks
  | KillTask | Skill | WebSearchInput rstr | SearchReplace rstr | ApplyPatch rstr | HashlineEdit rstr
  | WriteInput rstr | BashInput rstr | Monitor rstr | MCPToolInput rstr rstr | UseTool rstr rstr
  | WebFetchInput rstr | Dynamic

fun access_from :: "ToolInput \<Rightarrow> AccessKind" where
  "access_from (ReadFile p) = Read (Some p)"
| "access_from (ListDir d) = Read (Some d)"
| "access_from (GrepInput p g) = Grep p g"
| "access_from (WebSearchInput q) = WebSearch q"
| "access_from (SearchReplace p) = Edit p"
| "access_from (ApplyPatch patch) = Edit (lit ''apply_patch'')"
| "access_from (HashlineEdit p) = Edit p"
| "access_from (WriteInput p) = Edit p"
| "access_from (BashInput c) = Bash c"
| "access_from (Monitor c) = Bash c"
| "access_from (MCPToolInput n i) = MCPTool n i"
| "access_from (UseTool n i) = MCPTool n i"
| "access_from (WebFetchInput u) = WebFetch u"
| "access_from _ = Read None"

fun tool_name_for_access :: "AccessKind \<Rightarrow> rstr" where
  "tool_name_for_access (Read _) = lit ''read_file''"
| "tool_name_for_access (Grep _ _) = lit ''grep''"
| "tool_name_for_access (Edit _) = lit ''search_replace''"
| "tool_name_for_access (Bash _) = lit ''run_terminal_command''"
| "tool_name_for_access (MCPTool name _) = lit ''mcp:'' @ name"
| "tool_name_for_access (WebFetch _) = lit ''web_fetch''"
| "tool_name_for_access (WebSearch _) = lit ''web_search''"

section \<open>What is shown of an access\<close>

definition MCP_ACCESS_DETAIL_MAX_LEN :: nat where "MCP_ACCESS_DETAIL_MAX_LEN = 1024"

definition truncate_line :: "rstr \<Rightarrow> nat \<Rightarrow> rstr" where
  "truncate_line line max_chars =
     (if len_bytes line \<le> max_chars then line
      else if length line \<le> max_chars then line
      else take max_chars line @ lit '' [... truncated ('' @ show_nat (length line) @ lit '' chars total)]'')"

definition mcp_access_detail :: "rstr \<Rightarrow> rstr \<Rightarrow> rstr" where
  "mcp_access_detail name json =
     (if json = lit ''null'' then name
      else truncate_line (name @ lit '' '' @ json) MCP_ACCESS_DETAIL_MAX_LEN)"

fun access_detail :: "AccessKind \<Rightarrow> rstr option" where
  "access_detail (Read _) = None"
| "access_detail (Grep path _) = path"
| "access_detail (Edit path) = Some path"
| "access_detail (Bash cmd) = Some cmd"
| "access_detail (MCPTool name input) = Some (mcp_access_detail name input)"
| "access_detail (WebFetch url) = Some url"
| "access_detail (WebSearch query) = Some query"

section \<open>The actor\<close>

datatype PromptOutcome =
    AllowOnce
  | AllowAlways
  | AllowEditsForSession
  | AllowAlwaysBashCommand rstr
  | AllowAlwaysDomain rstr
  | AllowAlwaysMcpTool rstr
  | AllowAlwaysMcpServer rstr
  | RejectOnce
  | RejectAlwaysBashCommand rstr
  | PromptCancelled
  | PromptFollowup rstr
  | PromptError rstr

record ManagerConfig =
  compiled_policy :: "CompiledPolicy option"
  prompting :: PromptPolicy
  static_domain_matcher :: DomainMatcher
  remember_tool_approvals :: bool
  yolo_pin :: "rstr option"
  cwd :: rstr
  default_classifier :: Classifier

record PermissionEvent =
  ev_tool :: rstr
  ev_decision :: Decision
  ev_auto_approved :: bool
  ev_user_prompted :: bool
  ev_reason :: Reason

record Manager =
  pstate :: PermissionState
  disk :: PermissionState
  yolo_mode :: bool
  auto_mode :: bool
  yolo_flag :: bool
  auto_flag :: bool
  side_query_wired :: bool
  auto_classifier :: "Classifier option"
  classifier_turns :: "ClassifierTurn list"
  classifier_instructions :: "rstr option"
  pin_refusal_logged :: bool
  allow_edits_for_session :: bool
  pevents :: "PermissionEvent list"

definition manager_config ::
  "Externals \<Rightarrow> PermissionConfig option \<Rightarrow> rstr list \<Rightarrow> bool \<Rightarrow> rstr option \<Rightarrow> rstr \<Rightarrow> Classifier \<Rightarrow> ManagerConfig" where
  "manager_config E config domains remember pin dir clf =
     \<lparr>compiled_policy = map_option (compiled_new E) config,
      prompting = (case config of Some c \<Rightarrow> prompt_policy c | None \<Rightarrow> PromptAsk),
      static_domain_matcher = domain_matcher_new E domains,
      remember_tool_approvals = remember, yolo_pin = pin, cwd = dir, default_classifier = clf\<rparr>"

definition persist_state :: "Manager \<Rightarrow> Manager" where
  "persist_state s = s\<lparr>disk := pstate s\<rparr>"

definition spawn_manager :: "ManagerConfig \<Rightarrow> PermissionState \<Rightarrow> bool \<Rightarrow> Manager" where
  "spawn_manager cfg loaded initial_yolo =
     (let y = clamp_yolo initial_yolo (yolo_pin cfg);
          seed_auto = (\<not> y \<and> prompting cfg = PromptAuto);
          s = \<lparr>pstate = loaded, disk = loaded, yolo_mode = y, auto_mode = seed_auto, yolo_flag = y,
               auto_flag = seed_auto, side_query_wired = False, auto_classifier = Some (default_classifier cfg),
               classifier_turns = [], classifier_instructions = None, pin_refusal_logged = False,
               allow_edits_for_session = False, pevents = []\<rparr>
      in if edit_policy loaded = EditAllow then persist_state (s\<lparr>pstate := loaded\<lparr>edit_policy := EditAsk\<rparr>\<rparr>) else s)"

section \<open>Requests\<close>

definition emit :: "AccessKind \<Rightarrow> Decision \<Rightarrow> bool \<Rightarrow> bool \<Rightarrow> Reason \<Rightarrow> Manager \<Rightarrow> Manager" where
  "emit access d auto_approved user_prompted reason s =
     s\<lparr>pevents := pevents s @ [\<lparr>ev_tool = tool_name_for_access access, ev_decision = d,
         ev_auto_approved = auto_approved, ev_user_prompted = user_prompted, ev_reason = reason\<rparr>]\<rparr>"

definition shell_command_decision :: "Externals \<Rightarrow> ManagerConfig \<Rightarrow> AccessKind \<Rightarrow> Decision option" where
  "shell_command_decision E cfg access =
     (case (compiled_policy cfg, access) of
        (Some P, Bash cmd) \<Rightarrow> evaluate_bash_command_policy E P cmd
      | _ \<Rightarrow> None)"

definition shell_file_decision :: "Externals \<Rightarrow> ManagerConfig \<Rightarrow> AccessKind \<Rightarrow> Decision option" where
  "shell_file_decision E cfg access =
     (case (compiled_policy cfg, access) of
        (Some P, Bash cmd) \<Rightarrow> evaluate_shell_file_access E P cmd (cwd cfg)
      | _ \<Rightarrow> None)"

definition direct_decision :: "Externals \<Rightarrow> ManagerConfig \<Rightarrow> AccessKind \<Rightarrow> Decision option" where
  "direct_decision E cfg access =
     (case compiled_policy cfg of Some P \<Rightarrow> evaluate E P access | None \<Rightarrow> None)"

definition policy_decision :: "Externals \<Rightarrow> ManagerConfig \<Rightarrow> AccessKind \<Rightarrow> Decision option" where
  "policy_decision E cfg access =
     combine_decisions (combine_decisions (direct_decision E cfg access) (shell_command_decision E cfg access))
       (shell_file_decision E cfg access)"

definition shell_forced_prompt :: "Externals \<Rightarrow> ManagerConfig \<Rightarrow> AccessKind \<Rightarrow> bool" where
  "shell_forced_prompt E cfg access \<longleftrightarrow>
     shell_file_decision E cfg access = Some Ask \<or> shell_command_decision E cfg access = Some Ask"

text \<open>Auto mode either allows at once (\<open>Inl\<close> with the reason) or leaves the request to the stages
  below, with the reason when it forces a prompt.\<close>

definition auto_stage :: "Externals \<Rightarrow> ManagerConfig \<Rightarrow> AccessKind \<Rightarrow> Manager \<Rightarrow> Reason + Reason option" where
  "auto_stage E cfg access s =
     (if auto_mode s \<and> policy_decision E cfg access \<noteq> Some Ask \<and> \<not> shell_forced_prompt E cfg access
      then let tool_name = tool_name_for_access access;
               needs_user = access_requires_user_interaction tool_name access
           in case auto_mode_fast_path access tool_name needs_user of
                FastAllow \<Rightarrow> Inl AUTO_FAST_PATH
              | PromptUser \<Rightarrow> Inr (Some NEEDS_USER)
              | Classify \<Rightarrow>
                  (case (case auto_classifier s of
                           Some clf \<Rightarrow> clf tool_name access (access_detail access)
                                         \<lparr>turns = classifier_turns s, project_instructions = classifier_instructions s\<rparr>
                         | None \<Rightarrow> VerdictUnavailable) of
                     VerdictAllow \<Rightarrow> Inl AUTO_CLASSIFIER_ALLOW
                   | _ \<Rightarrow> Inr (Some AUTO_CLASSIFIER_BLOCK))
      else Inr None)"

definition web_fetch_pre_decision ::
  "Externals \<Rightarrow> ManagerConfig \<Rightarrow> PermissionState \<Rightarrow> rstr \<Rightarrow> (Decision \<times> Reason) option" where
  "web_fetch_pre_decision E cfg state url =
     (case url_parse E url of
        None \<Rightarrow> None
      | Some u \<Rightarrow>
          if matcher_check E (static_domain_matcher cfg) u = None then Some (Allow, STATIC_ALLOWLIST)
          else case host_str u of
                 None \<Rightarrow> None
               | Some h \<Rightarrow>
                   if normalize_domain E h \<in> set (allowed_web_fetch_domains state)
                   then Some (Allow, PERSISTED_GRANT) else None)"

definition pre_decision ::
  "Externals \<Rightarrow> ManagerConfig \<Rightarrow> AccessKind \<Rightarrow> bool \<Rightarrow> bool \<Rightarrow> Manager \<Rightarrow> (Decision \<times> Reason) option" where
  "pre_decision E cfg access policy_forced auto_forced s =
     (let p = (case access of
                 Read _ \<Rightarrow> if policy_forced then None else Some (Allow, SAFE_COMMAND)
               | Grep _ _ \<Rightarrow> if policy_forced then None else Some (Allow, SAFE_COMMAND)
               | WebSearch _ \<Rightarrow> Some (Allow, SAFE_COMMAND)
               | MCPTool name _ \<Rightarrow>
                   map_option (\<lambda>d. (d, PERSISTED_GRANT))
                     (mcp_pre_decision name (pstate s) policy_forced (remember_tool_approvals cfg))
               | Edit _ \<Rightarrow>
                   if allow_edits_for_session s then Some (Allow, PERSISTED_GRANT)
                   else if edit_policy (pstate s) = EditReject
                   then Some (Reject (lit ''edits prohibited''), SESSION_DENY) else None
               | Bash cmd \<Rightarrow>
                   if policy_forced
                   then (if remember_tool_approvals cfg \<and> \<not> auto_forced \<and> shell_file_decision E cfg access \<noteq> Some Ask
                         then bash_grant_pre_decision E cmd (pstate s) (yolo_pin cfg) ASK_FLOOR_REMEMBER
                         else None)
                   else bash_grant_pre_decision E cmd (pstate s) (yolo_pin cfg) (post_classify auto_forced)
               | WebFetch url \<Rightarrow> web_fetch_pre_decision E cfg (pstate s) url)
      in if auto_forced \<and> auto_prompt_blocks_allow access \<and> map_option fst p = Some Allow then None else p)"

definition user_rejected :: Decision where
  "user_rejected = Reject (lit ''User rejected the execution'')"

definition request_failed :: "rstr \<Rightarrow> Decision" where
  "request_failed e = Reject (lit ''Failed to request permission from user: '' @ e)"

text \<open>What the answer to a prompt decides and which grants it leaves behind.\<close>

fun bash_outcome :: "rstr \<Rightarrow> PromptOutcome \<Rightarrow> Manager \<Rightarrow> Decision \<times> Manager" where
  "bash_outcome cmd AllowAlways s =
     (Allow, persist_state (s\<lparr>pstate := (pstate s)\<lparr>allowed_bash_commands := hs_insert cmd (allowed_bash_commands (pstate s))\<rparr>\<rparr>))"
| "bash_outcome cmd (AllowAlwaysBashCommand p) s =
     (Allow, persist_state (s\<lparr>pstate := (pstate s)\<lparr>allowed_bash_commands := hs_insert p (allowed_bash_commands (pstate s))\<rparr>\<rparr>))"
| "bash_outcome cmd (RejectAlwaysBashCommand p) s =
     (Reject (lit ''User rejected the execution and excluded '' @ p @ lit '' from this session''),
      persist_state (s\<lparr>pstate := (pstate s)\<lparr>disallowed_bash_commands := hs_insert p (disallowed_bash_commands (pstate s))\<rparr>\<rparr>))"
| "bash_outcome cmd RejectOnce s = (user_rejected, s)"
| "bash_outcome cmd PromptCancelled s = (Cancelled, s)"
| "bash_outcome cmd (PromptFollowup m) s = (FollowupMessage m, s)"
| "bash_outcome cmd (PromptError e) s = (request_failed e, s)"
| "bash_outcome cmd _ s = (Allow, s)"

definition grant_mcp_tool :: "rstr \<Rightarrow> Manager \<Rightarrow> Manager" where
  "grant_mcp_tool name s = s\<lparr>pstate := (pstate s)\<lparr>allowed_mcp_tools := hs_insert name (allowed_mcp_tools (pstate s))\<rparr>\<rparr>"

definition grant_mcp_server :: "rstr \<Rightarrow> Manager \<Rightarrow> Manager" where
  "grant_mcp_server server s =
     s\<lparr>pstate := (pstate s)\<lparr>allowed_mcp_servers := hs_insert server (allowed_mcp_servers (pstate s))\<rparr>\<rparr>"

definition canonical_server :: "rstr \<Rightarrow> rstr option" where
  "canonical_server name =
     (case split_once (lit ''__'') name of Some (server, _) \<Rightarrow> if server = [] then None else Some server | None \<Rightarrow> None)"

fun other_outcome :: "AccessKind \<Rightarrow> PromptOutcome \<Rightarrow> Manager \<Rightarrow> Decision \<times> Manager" where
  "other_outcome access AllowOnce s = (Allow, s)"
| "other_outcome access AllowEditsForSession s = (Allow, s\<lparr>allow_edits_for_session := True\<rparr>)"
| "other_outcome access AllowAlways s =
     (Allow, persist_state (case access of MCPTool name _ \<Rightarrow> grant_mcp_tool name s | _ \<Rightarrow> s))"
| "other_outcome access (AllowAlwaysBashCommand _) s = (Allow, s)"
| "other_outcome access (AllowAlwaysDomain domain) s =
     (Allow, case access of
               WebFetch _ \<Rightarrow> persist_state (s\<lparr>pstate := (pstate s)\<lparr>allowed_web_fetch_domains :=
                                hs_insert domain (allowed_web_fetch_domains (pstate s))\<rparr>\<rparr>)
             | _ \<Rightarrow> s)"
| "other_outcome access (AllowAlwaysMcpTool client_name) s =
     (Allow, case access of MCPTool name _ \<Rightarrow> persist_state (grant_mcp_tool name s) | _ \<Rightarrow> s)"
| "other_outcome access (AllowAlwaysMcpServer client_server) s =
     (Allow, case access of
               MCPTool name _ \<Rightarrow>
                 persist_state (case canonical_server name of
                                  Some canonical \<Rightarrow>
                                    if canonical = client_server then grant_mcp_server canonical s
                                    else grant_mcp_tool name s
                                | None \<Rightarrow> grant_mcp_tool name s)
             | _ \<Rightarrow> s)"
| "other_outcome access (RejectAlwaysBashCommand _) s = (user_rejected, s)"
| "other_outcome access RejectOnce s = (user_rejected, s)"
| "other_outcome access PromptCancelled s = (Cancelled, s)"
| "other_outcome access (PromptError e) s = (request_failed e, s)"
| "other_outcome access (PromptFollowup m) s = (FollowupMessage m, s)"

definition apply_outcome :: "AccessKind \<Rightarrow> PromptOutcome \<Rightarrow> Manager \<Rightarrow> Decision \<times> Manager" where
  "apply_outcome access answer s =
     (case access of Bash cmd \<Rightarrow> bash_outcome cmd answer s | _ \<Rightarrow> other_outcome access answer s)"

fun is_bash :: "AccessKind \<Rightarrow> bool" where
  "is_bash (Bash _) = True"
| "is_bash _ = False"

text \<open>A verdict of the stages before the prompt: a decision with its telemetry fields, or the trigger
  of the prompt.\<close>

datatype Verdict = Decided Decision bool Reason | MustPrompt Reason

definition request_verdict :: "Externals \<Rightarrow> ManagerConfig \<Rightarrow> bool \<Rightarrow> AccessKind \<Rightarrow> Manager \<Rightarrow> Verdict" where
  "request_verdict E cfg sandbox access s =
     (let pd = policy_decision E cfg access; sfp = shell_forced_prompt E cfg access;
          pfp = (pd = Some Ask);
          grant = (if \<not> pfp \<and> \<not> sfp
                   then session_grant_pre_decision E access (pstate s) (allow_edits_for_session s)
                          (static_domain_matcher cfg) (yolo_pin cfg)
                   else None)
      in case pd of
           Some (Reject reason) \<Rightarrow> Decided (PolicyDeny reason) False POLICY_DENY
         | _ \<Rightarrow>
           if yolo_mode s \<and> \<not> sfp then Decided Allow True YOLO
           else case grant of
             Some (d, reason) \<Rightarrow> Decided d True reason
           | None \<Rightarrow>
             (case auto_stage E cfg access s of
                Inl reason \<Rightarrow> Decided Allow True reason
              | Inr auto_reason \<Rightarrow>
                  if is_bash access \<and> sandbox \<and> \<not> pfp \<and> auto_reason = None
                  then Decided Allow True SANDBOX_AUTO
                  else if pd \<noteq> None \<and> \<not> pfp then Decided (the pd) True POLICY_ALLOW
                  else case pre_decision E cfg access pfp (auto_reason \<noteq> None) s of
                         Some (d, reason) \<Rightarrow> Decided d True reason
                       | None \<Rightarrow>
                           if prompting cfg = PromptDeny
                           then Decided (PolicyDeny (lit ''denied by prompt policy (tool not pre-approved)''))
                                  False PROMPT_DENY
                           else MustPrompt (if pfp \<or> sfp then POLICY_ASK
                                            else case auto_reason of Some r \<Rightarrow> r | None \<Rightarrow> NEEDS_USER)))"

definition handle_request ::
  "Externals \<Rightarrow> ManagerConfig \<Rightarrow> bool \<Rightarrow> PromptOutcome \<Rightarrow> AccessKind \<Rightarrow> Manager \<Rightarrow> Decision \<times> Manager" where
  "handle_request E cfg sandbox answer access s =
     (case request_verdict E cfg sandbox access s of
        Decided d auto_approved reason \<Rightarrow> (d, emit access d auto_approved False reason s)
      | MustPrompt trigger \<Rightarrow>
          (case apply_outcome access answer s of
             (d, s') \<Rightarrow> (d, emit access d False True trigger s')))"

section \<open>The handle and the command loop\<close>

datatype PermissionCommand =
    Request bool PromptOutcome AccessKind
  | SetYoloMode bool
  | SetAutoMode bool
  | SetClassifier "Classifier option"
  | SetClassifierTranscript "ClassifierTurn list"
  | SetProjectInstructions "rstr option"
  | ResetState
  | Shutdown

fun actor_command :: "Externals \<Rightarrow> ManagerConfig \<Rightarrow> PermissionCommand \<Rightarrow> Manager \<Rightarrow> Manager" where
  "actor_command E cfg (Request sandbox answer access) s = snd (handle_request E cfg sandbox answer access s)"
| "actor_command E cfg (SetYoloMode enabled) s =
     (let clamped = clamp_yolo enabled (yolo_pin cfg);
          s1 = s\<lparr>pin_refusal_logged := (pin_refusal_logged s \<or> (enabled \<and> \<not> clamped)),
                 yolo_mode := clamped, yolo_flag := clamped\<rparr>
      in if clamped then s1\<lparr>auto_mode := False, auto_flag := False\<rparr> else s1)"
| "actor_command E cfg (SetAutoMode enabled) s =
     (let s1 = s\<lparr>auto_mode := enabled, auto_flag := enabled\<rparr>
      in if enabled
         then s1\<lparr>yolo_mode := False, yolo_flag := False,
                 auto_classifier := (case auto_classifier s of None \<Rightarrow> Some (default_classifier cfg) | Some c \<Rightarrow> Some c)\<rparr>
         else s1)"
| "actor_command E cfg (SetClassifier c) s = s\<lparr>auto_classifier := c\<rparr>"
| "actor_command E cfg (SetClassifierTranscript recent) s = s\<lparr>classifier_turns := recent\<rparr>"
| "actor_command E cfg (SetProjectInstructions i) s = s\<lparr>classifier_instructions := i\<rparr>"
| "actor_command E cfg ResetState s = (persist_state (s\<lparr>pstate := state_default\<rparr>))\<lparr>allow_edits_for_session := False\<rparr>"
| "actor_command E cfg Shutdown s = s"

text \<open>The operations of the handle store the flags at once and send the command. A \<open>Shutdown\<close> ends the
  loop of the actor; what is sent after that is lost.\<close>

record PermSystem =
  mgr :: Manager
  inbox :: "PermissionCommand list"
  running :: bool

definition send_command :: "PermissionCommand \<Rightarrow> PermSystem \<Rightarrow> PermSystem" where
  "send_command c sys = (if running sys then sys\<lparr>inbox := inbox sys @ [c]\<rparr> else sys)"

definition set_yolo_mode :: "ManagerConfig \<Rightarrow> bool \<Rightarrow> PermSystem \<Rightarrow> PermSystem" where
  "set_yolo_mode cfg enabled sys =
     (let clamped = clamp_yolo enabled (yolo_pin cfg); s1 = (mgr sys)\<lparr>yolo_flag := clamped\<rparr>
      in send_command (SetYoloMode enabled) (sys\<lparr>mgr := (if clamped then s1\<lparr>auto_flag := False\<rparr> else s1)\<rparr>))"

definition set_auto_mode :: "bool \<Rightarrow> PermSystem \<Rightarrow> PermSystem" where
  "set_auto_mode enabled sys =
     (let s1 = (mgr sys)\<lparr>auto_flag := enabled\<rparr>
      in send_command (SetAutoMode enabled) (sys\<lparr>mgr := (if enabled then s1\<lparr>yolo_flag := False\<rparr> else s1)\<rparr>))"

definition set_classifier :: "Classifier option \<Rightarrow> PermSystem \<Rightarrow> PermSystem" where
  "set_classifier c sys = send_command (SetClassifier c) (sys\<lparr>mgr := (mgr sys)\<lparr>side_query_wired := False\<rparr>\<rparr>)"

definition set_classifier_with_side_query :: "Classifier \<Rightarrow> bool \<Rightarrow> PermSystem \<Rightarrow> PermSystem" where
  "set_classifier_with_side_query c wired sys =
     send_command (SetClassifier (Some c)) (sys\<lparr>mgr := (mgr sys)\<lparr>side_query_wired := wired\<rparr>\<rparr>)"

definition set_llm_side_query_wired :: "bool \<Rightarrow> PermSystem \<Rightarrow> PermSystem" where
  "set_llm_side_query_wired wired sys = sys\<lparr>mgr := (mgr sys)\<lparr>side_query_wired := wired\<rparr>\<rparr>"

text \<open>The commands the handle only forwards.\<close>

fun forwarded :: "PermissionCommand \<Rightarrow> bool" where
  "forwarded (SetYoloMode _) = False"
| "forwarded (SetAutoMode _) = False"
| "forwarded (SetClassifier _) = False"
| "forwarded _ = True"

definition actor_next :: "Externals \<Rightarrow> ManagerConfig \<Rightarrow> PermSystem \<Rightarrow> PermSystem" where
  "actor_next E cfg sys =
     (case inbox sys of
        [] \<Rightarrow> sys
      | c # queue \<Rightarrow>
          if \<not> running sys then sys
          else if c = Shutdown then sys\<lparr>inbox := [], running := False\<rparr>
          else sys\<lparr>mgr := actor_command E cfg c (mgr sys), inbox := queue\<rparr>)"

inductive perm_step :: "Externals \<Rightarrow> ManagerConfig \<Rightarrow> PermSystem \<Rightarrow> PermSystem \<Rightarrow> bool" for E cfg where
  handle_yolo: "perm_step E cfg sys (set_yolo_mode cfg enabled sys)"
| handle_auto: "perm_step E cfg sys (set_auto_mode enabled sys)"
| handle_classifier: "perm_step E cfg sys (set_classifier c sys)"
| handle_side_query: "perm_step E cfg sys (set_classifier_with_side_query clf wired sys)"
| handle_wired: "perm_step E cfg sys (set_llm_side_query_wired wired sys)"
| handle_send: "forwarded c \<Longrightarrow> perm_step E cfg sys (send_command c sys)"
| actor_takes: "perm_step E cfg sys (actor_next E cfg sys)"

inductive perm_reachable :: "Externals \<Rightarrow> ManagerConfig \<Rightarrow> PermSystem \<Rightarrow> bool" for E cfg where
  spawned: "perm_reachable E cfg \<lparr>mgr = spawn_manager cfg loaded initial_yolo, inbox = [], running = True\<rparr>"
| stepped: "perm_reachable E cfg sys \<Longrightarrow> perm_step E cfg sys sys' \<Longrightarrow> perm_reachable E cfg sys'"

section \<open>What a request leaves alone\<close>

lemma emit_simps [simp]:
  "pstate (emit a d x y r s) = pstate s" "disk (emit a d x y r s) = disk s"
  "yolo_mode (emit a d x y r s) = yolo_mode s" "auto_mode (emit a d x y r s) = auto_mode s"
  "yolo_flag (emit a d x y r s) = yolo_flag s" "auto_flag (emit a d x y r s) = auto_flag s"
  "allow_edits_for_session (emit a d x y r s) = allow_edits_for_session s"
  by (simp_all add: emit_def)

lemma persist_simps [simp]:
  "pstate (persist_state s) = pstate s" "disk (persist_state s) = pstate s"
  "yolo_mode (persist_state s) = yolo_mode s" "auto_mode (persist_state s) = auto_mode s"
  "yolo_flag (persist_state s) = yolo_flag s" "auto_flag (persist_state s) = auto_flag s"
  "allow_edits_for_session (persist_state s) = allow_edits_for_session s"
  by (simp_all add: persist_state_def)

lemma grant_simps [simp]:
  "yolo_mode (grant_mcp_tool n s) = yolo_mode s" "auto_mode (grant_mcp_tool n s) = auto_mode s"
  "yolo_flag (grant_mcp_tool n s) = yolo_flag s" "auto_flag (grant_mcp_tool n s) = auto_flag s"
  "yolo_mode (grant_mcp_server n s) = yolo_mode s" "auto_mode (grant_mcp_server n s) = auto_mode s"
  "yolo_flag (grant_mcp_server n s) = yolo_flag s" "auto_flag (grant_mcp_server n s) = auto_flag s"
  by (simp_all add: grant_mcp_tool_def grant_mcp_server_def)

text \<open>The four mode variables, and that the answer to a prompt does not touch them.\<close>

definition modes :: "Manager \<Rightarrow> bool \<times> bool \<times> bool \<times> bool" where
  "modes s = (yolo_mode s, auto_mode s, yolo_flag s, auto_flag s)"

lemma outcome_modes: "modes (snd (apply_outcome access answer s)) = modes s"
  by (cases answer; cases access) (auto simp: apply_outcome_def modes_def split: option.splits)

lemma request_modes: "modes (snd (handle_request E cfg sandbox answer access s)) = modes s"
  using outcome_modes [of access answer s]
  by (auto simp: handle_request_def modes_def split: Verdict.splits prod.splits)

section \<open>The modes\<close>

text \<open>The effect of a command on the four mode variables.\<close>

fun mode_effect :: "ManagerConfig \<Rightarrow> PermissionCommand \<Rightarrow> bool \<times> bool \<times> bool \<times> bool \<Rightarrow> bool \<times> bool \<times> bool \<times> bool" where
  "mode_effect cfg (SetYoloMode e) (y, a, yf, af) =
     (let c = clamp_yolo e (yolo_pin cfg) in (c, a \<and> \<not> c, c, af \<and> \<not> c))"
| "mode_effect cfg (SetAutoMode e) (y, a, yf, af) = (y \<and> \<not> e, e, yf \<and> \<not> e, e)"
| "mode_effect cfg _ m = m"

lemma actor_modes: "modes (actor_command E cfg c s) = mode_effect cfg c (modes s)"
  using request_modes by (cases c) (auto simp: modes_def Let_def)

definition pending :: "ManagerConfig \<Rightarrow> PermissionCommand list \<Rightarrow> bool \<times> bool \<times> bool \<times> bool \<Rightarrow> bool \<times> bool \<times> bool \<times> bool" where
  "pending cfg q m = fold (mode_effect cfg) q m"

text \<open>The yolo half of the variables evolves independently of the auto flag, and the other way
  round.\<close>

lemma pending_yolo_half:
  "pending cfg q (y, a, yf, af) = (y1, a1, yf1, af1) \<Longrightarrow> \<exists>af2. pending cfg q (y, a, yf, af') = (y1, a1, yf1, af2)"
  unfolding pending_def
proof (induction q arbitrary: y a yf af af')
  case (Cons c q)
  then show ?case by (cases c) (auto simp: Let_def)
qed simp

lemma pending_auto_half:
  "pending cfg q (y, a, yf, af) = (y1, a1, yf1, af1) \<Longrightarrow> \<exists>yf2. pending cfg q (y, a, yf', af) = (y1, a1, yf2, af1)"
  unfolding pending_def
proof (induction q arbitrary: y a yf af yf')
  case (Cons c q)
  then show ?case by (cases c) (auto simp: Let_def)
qed simp

fun agree :: "bool \<times> bool \<times> bool \<times> bool \<Rightarrow> bool" where
  "agree (y, a, yf, af) = (yf = y \<and> af = a)"

lemma pending_snoc: "pending cfg (q @ [c]) m = mode_effect cfg c (pending cfg q m)"
  by (simp add: pending_def)

lemma agree_after_yolo:
  assumes "agree (pending cfg q (y, a, yf, af))" "c = clamp_yolo e (yolo_pin cfg)"
  shows "agree (pending cfg (q @ [SetYoloMode e]) (y, a, c, af \<and> \<not> c))"
proof -
  obtain y1 a1 yf1 af1 where m: "pending cfg q (y, a, yf, af) = (y1, a1, yf1, af1)" by (metis surj_pair)
  obtain y2 a2 yf2 af2 where m2: "pending cfg q (y, a, c, af \<and> \<not> c) = (y2, a2, yf2, af2)" by (metis surj_pair)
  have "\<not> c \<Longrightarrow> a2 = a1 \<and> af2 = af1" using pending_auto_half [OF m, of c] m2 by auto
  with assms m m2 show ?thesis by (auto simp: pending_snoc Let_def)
qed

lemma agree_after_auto:
  assumes "agree (pending cfg q (y, a, yf, af))"
  shows "agree (pending cfg (q @ [SetAutoMode e]) (y, a, yf \<and> \<not> e, e))"
proof -
  obtain y1 a1 yf1 af1 where m: "pending cfg q (y, a, yf, af) = (y1, a1, yf1, af1)" by (metis surj_pair)
  obtain y2 a2 yf2 af2 where m2: "pending cfg q (y, a, yf \<and> \<not> e, e) = (y2, a2, yf2, af2)" by (metis surj_pair)
  have "\<not> e \<Longrightarrow> y2 = y1 \<and> yf2 = yf1" using pending_yolo_half [OF m, of e] m2 by auto
  with assms m m2 show ?thesis by (auto simp: pending_snoc)
qed

definition modes_ok :: "ManagerConfig \<Rightarrow> PermSystem \<Rightarrow> bool" where
  "modes_ok cfg sys \<longleftrightarrow>
     (yolo_pin cfg \<noteq> None \<longrightarrow> \<not> yolo_mode (mgr sys) \<and> \<not> yolo_flag (mgr sys)) \<and>
     \<not> (yolo_mode (mgr sys) \<and> auto_mode (mgr sys)) \<and>
     (running sys \<longrightarrow> agree (pending cfg (inbox sys) (modes (mgr sys))))"

lemma pending_other:
  "(\<And>m. mode_effect cfg c m = m) \<Longrightarrow> pending cfg (q @ [c]) m = pending cfg q m"
  by (simp add: pending_snoc)

lemma forwarded_effect: "forwarded c \<Longrightarrow> mode_effect cfg c m = m"
  by (cases c) auto

lemma modes_ok_step:
  assumes "modes_ok cfg sys" "perm_step E cfg sys sys'"
  shows "modes_ok cfg sys'"
  using assms(2)
proof cases
  case (handle_yolo e)
  then show ?thesis
    using assms(1) agree_after_yolo [OF _ refl, of cfg "inbox sys" "yolo_mode (mgr sys)" "auto_mode (mgr sys)"
        "yolo_flag (mgr sys)" "auto_flag (mgr sys)" e]
    by (auto simp: modes_ok_def set_yolo_mode_def send_command_def Let_def modes_def clamp_yolo_def)
next
  case (handle_auto e)
  then show ?thesis
    using assms(1) agree_after_auto [of cfg "inbox sys" "yolo_mode (mgr sys)" "auto_mode (mgr sys)"
        "yolo_flag (mgr sys)" "auto_flag (mgr sys)" e]
    by (auto simp: modes_ok_def set_auto_mode_def send_command_def Let_def modes_def)
next
  case (handle_send c)
  then show ?thesis
    using assms(1) pending_other [of cfg c, OF forwarded_effect]
    by (auto simp: modes_ok_def send_command_def)
next
  case actor_takes
  show ?thesis
  proof (cases "inbox sys")
    case (Cons c q)
    have "modes (actor_command E cfg c (mgr sys)) = mode_effect cfg c (modes (mgr sys))" by (rule actor_modes)
    then show ?thesis
      using assms(1) actor_takes Cons
      by (cases c) (auto simp: modes_ok_def actor_next_def pending_def modes_def Let_def clamp_yolo_def)
  qed (use assms(1) actor_takes in \<open>simp add: actor_next_def\<close>)
qed (use assms(1) in \<open>auto simp: modes_ok_def set_classifier_def set_classifier_with_side_query_def
      set_llm_side_query_wired_def send_command_def pending_snoc modes_def\<close>)

text \<open>C17. In every reachable state of the manager and its handles, for any interleaving of mode switches,
  requests and actor steps: under a managed pin always-approve is off, in the actor and in what the
  handle reports; always-approve and auto mode are never both on; and once the commands sent have been
  processed, the handle reports the modes the actor acts on.\<close>

theorem modes_invariant:
  assumes "perm_reachable E cfg sys"
  shows "(yolo_pin cfg \<noteq> None \<longrightarrow> \<not> yolo_mode (mgr sys) \<and> \<not> yolo_flag (mgr sys))
    \<and> \<not> (yolo_mode (mgr sys) \<and> auto_mode (mgr sys))
    \<and> (running sys \<longrightarrow> inbox sys = [] \<longrightarrow>
         yolo_flag (mgr sys) = yolo_mode (mgr sys) \<and> auto_flag (mgr sys) = auto_mode (mgr sys))"
proof -
  have "modes_ok cfg sys"
    using assms
  proof induction
    case (spawned loaded y)
    then show ?case
      by (auto simp: modes_ok_def spawn_manager_def pending_def modes_def clamp_yolo_def Let_def)
  qed (rule modes_ok_step)
  then show ?thesis by (auto simp: modes_ok_def pending_def modes_def)
qed

theorem modes_invariant_witness:
  "perm_reachable plain_surroundings (manager_config plain_surroundings None [] False (Some []) [] (fixed_classifier VerdictBlock))
     \<lparr>mgr = spawn_manager (manager_config plain_surroundings None [] False (Some []) [] (fixed_classifier VerdictBlock)) state_default True,
      inbox = [], running = True\<rparr>
   \<and> \<not> yolo_mode (spawn_manager (manager_config plain_surroundings None [] False (Some []) [] (fixed_classifier VerdictBlock)) state_default True)"
  using modes_invariant [OF perm_reachable.spawned [of plain_surroundings
      "manager_config plain_surroundings None [] False (Some []) [] (fixed_classifier VerdictBlock)" state_default True]]
    perm_reachable.spawned
  by (auto simp: manager_config_def)

section \<open>A deny is final\<close>

lemma policy_decision_outcome:
  assumes "compiled_policy cfg = map_option (compiled_new E) config"
  shows "policy_outcome (policy_decision E cfg access)"
proof (cases config)
  case None
  with assms show ?thesis
    by (auto simp: policy_decision_def direct_decision_def shell_command_decision_def shell_file_decision_def
        policy_outcome_def split: AccessKind.splits)
next
  case (Some c)
  have none: "policy_outcome None" by (simp add: policy_outcome_def)
  show ?thesis
    unfolding policy_decision_def
    using assms Some none
    by (intro policy_outcome_combine)
       (auto simp: direct_decision_def shell_command_decision_def shell_file_decision_def evaluate_outcome
         bash_gate.gate_policy_outcome file_gate.gate_policy_outcome split: AccessKind.splits)
qed

text \<open>C2. A deny is final. When a rule denies the access itself, or a command or a file of the script it
  runs, the request is refused without a prompt and without a change of state, in every mode
  (always-approve, auto, sandbox), with every grant and whatever the classifier or the user would
  say.\<close>

theorem policy_deny_is_final:
  assumes "compiled_policy cfg = Some (compiled_new E c)"
    and "(\<exists>m. evaluate E (compiled_new E c) access = Some (Reject m))
      \<or> (\<exists>cmd m. access = Bash cmd \<and> evaluate_bash_command_policy E (compiled_new E c) cmd = Some (Reject m))
      \<or> (\<exists>cmd m. access = Bash cmd \<and> evaluate_shell_file_access E (compiled_new E c) cmd (cwd cfg) = Some (Reject m))"
  shows "\<exists>m. handle_request E cfg sandbox answer access s
      = (PolicyDeny m, emit access (PolicyDeny m) False False POLICY_DENY s)"
proof -
  have out: "policy_outcome (policy_decision E cfg access)"
    using policy_decision_outcome [of cfg E "Some c"] assms(1) by simp
  have "3 \<le> rank_opt (policy_decision E cfg access)"
    using assms
    by (auto simp: policy_decision_def direct_decision_def shell_command_decision_def shell_file_decision_def)
  with out obtain m where "policy_decision E cfg access = Some (Reject m)" by (auto simp: policy_outcome_def)
  then show ?thesis by (simp add: handle_request_def request_verdict_def)
qed

definition yolo_manager :: "ManagerConfig \<Rightarrow> Manager" where
  "yolo_manager cfg = spawn_manager cfg state_default True"

definition sample_cfg :: ManagerConfig where
  "sample_cfg = manager_config plain_surroundings (Some deny_rm) [] False None [] (fixed_classifier VerdictAllow)"

theorem policy_deny_is_final_witness:
  "yolo_mode (yolo_manager sample_cfg) \<and>
   (\<exists>m. fst (handle_request plain_surroundings sample_cfg True AllowOnce (Bash (lit ''rm x'')) (yolo_manager sample_cfg))
      = PolicyDeny m)"
proof -
  have "evaluate plain_surroundings (compiled_new plain_surroundings deny_rm) (Bash (lit ''rm x''))
      = Some (Reject (deny_reason (hd (rules deny_rm))))"
    unfolding evaluate_deny_rm by (simp add: trim_start_def is_whitespace_def)
  then have "\<exists>m. evaluate plain_surroundings (compiled_new plain_surroundings deny_rm) (Bash (lit ''rm x'')) = Some (Reject m)"
    by blast
  then have "\<exists>m. handle_request plain_surroundings sample_cfg True AllowOnce (Bash (lit ''rm x'')) (yolo_manager sample_cfg)
      = (PolicyDeny m, emit (Bash (lit ''rm x'')) (PolicyDeny m) False False POLICY_DENY (yolo_manager sample_cfg))"
    by (intro policy_deny_is_final [of sample_cfg plain_surroundings deny_rm]) (auto simp: sample_cfg_def manager_config_def)
  moreover have "yolo_mode (yolo_manager sample_cfg)"
    by (simp add: yolo_manager_def sample_cfg_def manager_config_def spawn_manager_def clamp_yolo_def state_default_def Let_def)
  ultimately show ?thesis by auto
qed

section \<open>What passes an ask rule without a prompt\<close>

text \<open>The accesses for which a rule that says "ask" is satisfied without asking, outside always-approve
  mode.\<close>

definition remembered :: "Externals \<Rightarrow> ManagerConfig \<Rightarrow> AccessKind \<Rightarrow> Manager \<Rightarrow> bool" where
  "remembered E cfg access s =
     (case access of
        WebSearch _ \<Rightarrow> True
      | Edit _ \<Rightarrow> allow_edits_for_session s
      | MCPTool name _ \<Rightarrow>
          remember_tool_approvals cfg \<and>
          (name \<in> set (allowed_mcp_tools (pstate s)) \<or> mcp_server_prefix_allowed name (allowed_mcp_servers (pstate s)))
      | WebFetch url \<Rightarrow> web_fetch_pre_decision E cfg (pstate s) url \<noteq> None
      | Bash cmd \<Rightarrow>
          remember_tool_approvals cfg \<and> shell_file_decision E cfg access \<noteq> Some Ask \<and>
          (\<exists>g. evaluate_bash_segments_inner E cmd (pstate s) False = AutoAllow g)
      | _ \<Rightarrow> False)"

lemma ask_floor_bash:
  "(\<exists>r. bash_grant_pre_decision E cmd st pin ASK_FLOOR_REMEMBER = Some (Allow, r)) \<longleftrightarrow>
     (\<exists>g. evaluate_bash_segments_inner E cmd st False = AutoAllow g)"
  by (auto simp: bash_grant_pre_decision_def ASK_FLOOR_REMEMBER_def split: SegmentEvaluation.splits)

lemma web_fetch_allows: "web_fetch_pre_decision E cfg st url = Some (d, r) \<Longrightarrow> d = Allow"
  by (auto simp: web_fetch_pre_decision_def split: option.splits if_splits)

lemma ask_floor_pre_decision:
  "(\<exists>r. pre_decision E cfg access True False s = Some (Allow, r)) \<longleftrightarrow> remembered E cfg access s"
proof (cases access)
  case (Bash cmd)
  then show ?thesis using ask_floor_bash [of E cmd "pstate s" "yolo_pin cfg"]
    by (simp add: pre_decision_def remembered_def Let_def)
next
  case (WebFetch url)
  then show ?thesis using web_fetch_allows [of E cfg "pstate s" url]
    by (cases "web_fetch_pre_decision E cfg (pstate s) url") (auto simp: pre_decision_def remembered_def Let_def)
qed (auto simp: pre_decision_def remembered_def mcp_pre_decision_def Let_def)

lemma ask_floor_verdict:
  assumes "policy_decision E cfg access = Some Ask"
  shows "(\<exists>a r. request_verdict E cfg sandbox access s = Decided Allow a r) \<longleftrightarrow>
     (yolo_mode s \<and> \<not> shell_forced_prompt E cfg access) \<or> remembered E cfg access s"
proof -
  have stage: "auto_stage E cfg access s = Inr None" using assms by (simp add: auto_stage_def)
  have "request_verdict E cfg sandbox access s =
     (if yolo_mode s \<and> \<not> shell_forced_prompt E cfg access then Decided Allow True YOLO
      else case pre_decision E cfg access True False s of
             Some (d, r) \<Rightarrow> Decided d True r
           | None \<Rightarrow> if prompting cfg = PromptDeny
                     then Decided (PolicyDeny (lit ''denied by prompt policy (tool not pre-approved)'')) False PROMPT_DENY
                     else MustPrompt POLICY_ASK)"
    using assms stage by (simp add: request_verdict_def Let_def)
  then show ?thesis using ask_floor_pre_decision [of E cfg access s] by (auto split: option.splits if_splits)
qed

text \<open>C20. When the policy says "ask", the request is allowed without a prompt exactly when always-approve
  is on and the question does not come from one of the gates on shell scripts, or when the access is
  remembered: a web search; an edit after edits were allowed for the session; a web fetch of an
  approved or listed domain; with the setting that remembers approvals, an approved MCP tool or
  server, or a script all of whose commands pass on approved prefixes and whose files raise no
  question of their own. Auto mode and the sandbox do not count.\<close>

theorem ask_floor_exact:
  assumes "policy_decision E cfg access = Some Ask"
  shows "(\<exists>a r. request_verdict E cfg sandbox access s = Decided Allow a r) \<longleftrightarrow>
     (yolo_mode s \<and> \<not> shell_forced_prompt E cfg access) \<or> remembered E cfg access s"
  using assms by (rule ask_floor_verdict)

text \<open>An ask rule on web searches is satisfied in every state.\<close>

theorem ask_rule_on_web_search_ignored:
  assumes "policy_decision E cfg (WebSearch q) = Some Ask"
  shows "\<exists>a r. request_verdict E cfg sandbox (WebSearch q) s = Decided Allow a r"
  unfolding ask_floor_verdict [OF assms] by (simp add: remembered_def)

text \<open>An ask rule on a setup command is satisfied by the setting that remembers approvals, although
  the user has approved nothing: setup commands are skipped before the approvals are consulted.\<close>

theorem ask_rule_on_setup_command_ignored:
  assumes "policy_decision E cfg (Bash cmd) = Some Ask" "remember_tool_approvals cfg"
    "shell_file_decision E cfg (Bash cmd) \<noteq> Some Ask"
    "all_commands_from_script (try_parse_shell E) cmd = Some [c]" "is_setup_command (unwrap_wrappers (words c))"
  shows "\<exists>a r. request_verdict E cfg sandbox (Bash cmd) s = Decided Allow a r"
proof -
  have "evaluate_bash_segments_inner E cmd (pstate s) False = AutoAllow False"
    using assms(4,5) by (simp add: evaluate_bash_segments_inner_def segments_loop.simps(2) Let_def)
  then show ?thesis unfolding ask_floor_verdict [OF assms(1)] using assms(2,3) by (auto simp: remembered_def)
qed

definition ask_searches :: ManagerConfig where
  "ask_searches = manager_config plain_surroundings
     (Some (config_new [\<lparr>action = RuleAsk, tool = FWebSearch, pattern = None, pattern_mode = Glob\<rparr>])) [] False None []
     (fixed_classifier VerdictAllow)"

theorem ask_floor_exact_witness:
  "policy_decision plain_surroundings ask_searches (WebSearch (lit ''x'')) = Some Ask \<and>
   (\<exists>a r. request_verdict plain_surroundings ask_searches False (WebSearch (lit ''x''))
      (spawn_manager ask_searches state_default False) = Decided Allow a r)"
proof -
  have ask: "policy_decision plain_surroundings ask_searches (WebSearch (lit ''x'')) = Some Ask"
    by (simp add: policy_decision_def direct_decision_def shell_command_decision_def shell_file_decision_def
        ask_searches_def manager_config_def evaluate_compiled config_new_def pattern_matches_def)
  show ?thesis using ask_floor_exact [OF ask] ask by (simp add: remembered_def)
qed

section \<open>Grants\<close>

lemma outcome_grants:
  fixes access answer s
  defines "s' \<equiv> snd (apply_outcome access answer s)"
  shows "set (allowed_mcp_tools (pstate s')) \<subseteq> set (allowed_mcp_tools (pstate s)) \<union> {n. \<exists>i. access = MCPTool n i}"
    and "set (allowed_mcp_servers (pstate s')) \<subseteq>
      set (allowed_mcp_servers (pstate s)) \<union> {v. \<exists>n i. access = MCPTool n i \<and> canonical_server n = Some v}"
    and "disk s = pstate s \<Longrightarrow> disk s' = pstate s'"
    and "edit_policy (pstate s') = edit_policy (pstate s)"
    and "allow_bash_execute (pstate s') = allow_bash_execute (pstate s)"
  unfolding s'_def
  by (cases answer; cases access; auto simp: apply_outcome_def grant_mcp_tool_def grant_mcp_server_def
      split: option.splits)+

lemma request_grants:
  fixes E cfg sandbox answer access s
  defines "s' \<equiv> snd (handle_request E cfg sandbox answer access s)"
  shows "set (allowed_mcp_tools (pstate s')) \<subseteq> set (allowed_mcp_tools (pstate s)) \<union> {n. \<exists>i. access = MCPTool n i}
    \<and> set (allowed_mcp_servers (pstate s')) \<subseteq>
        set (allowed_mcp_servers (pstate s)) \<union> {v. \<exists>n i. access = MCPTool n i \<and> canonical_server n = Some v}
    \<and> edit_policy (pstate s') = edit_policy (pstate s) \<and> allow_bash_execute (pstate s') = allow_bash_execute (pstate s)
    \<and> (pstate s' \<noteq> pstate s \<longrightarrow> (\<exists>t. request_verdict E cfg sandbox access s = MustPrompt t))
    \<and> (disk s = pstate s \<longrightarrow> disk s' = pstate s')"
proof (cases "request_verdict E cfg sandbox access s")
  case (Decided d a r)
  then have "s' = emit access d a False r s" by (simp add: s'_def handle_request_def)
  then show ?thesis by simp
next
  case (MustPrompt t)
  let ?o = "apply_outcome access answer s"
  have s': "s' = emit access (fst ?o) False True t (snd ?o)"
    using MustPrompt by (simp add: s'_def handle_request_def split_beta)
  show ?thesis using outcome_grants [where access = access and answer = answer and s = s] MustPrompt
    unfolding s' by simp
qed



text \<open>In every reachable state the persisted file holds the state the actor decides with, and the
  legacy value that allows all edits never occurs: it is migrated when the actor starts and no
  command brings it back.\<close>

theorem persisted_state_invariant:
  assumes "perm_reachable E cfg sys"
  shows "disk (mgr sys) = pstate (mgr sys) \<and> edit_policy (pstate (mgr sys)) \<noteq> EditAllow"
  using assms
proof induction
  case (spawned loaded y)
  then show ?case by (auto simp: spawn_manager_def Let_def)
next
  case (stepped sys sys')
  from stepped.hyps(2) show ?case
  proof cases
    case actor_takes
    show ?thesis
    proof (cases "inbox sys")
      case (Cons c q)
      have "disk (actor_command E cfg c (mgr sys)) = pstate (actor_command E cfg c (mgr sys))
          \<and> edit_policy (pstate (actor_command E cfg c (mgr sys))) \<noteq> EditAllow"
      proof (cases c)
        case (Request sandbox answer access)
        then show ?thesis
          using stepped.IH request_grants [of E cfg sandbox answer access "mgr sys"] by simp
      qed (use stepped.IH in \<open>auto simp: Let_def state_default_def\<close>)
      with stepped.IH actor_takes Cons show ?thesis by (simp add: actor_next_def)
    qed (use stepped.IH actor_takes in \<open>simp add: actor_next_def\<close>)
  qed (use stepped.IH in \<open>auto simp: set_yolo_mode_def set_auto_mode_def set_classifier_def
        set_classifier_with_side_query_def set_llm_side_query_wired_def send_command_def Let_def\<close>)
qed

theorem persisted_state_invariant_witness:
  "edit_policy (pstate (spawn_manager sample_cfg (state_default\<lparr>edit_policy := EditAllow\<rparr>) False)) \<noteq> EditAllow"
  using persisted_state_invariant [OF perm_reachable.spawned [of plain_surroundings sample_cfg
      "state_default\<lparr>edit_policy := EditAllow\<rparr>" False]] by simp

section \<open>Patches are not judged by their paths\<close>

definition exact_globs :: Externals where
  "exact_globs = plain_surroundings\<lparr>glob_new := (\<lambda>p. True), glob_matches_with := (\<lambda>p sep t. p = t)\<rparr>"

definition deny_secret :: ManagerConfig where
  "deny_secret = manager_config exact_globs
     (Some (config_new [\<lparr>action = RuleDeny, tool = FEdit, pattern = Some (lit ''secret''), pattern_mode = Glob\<rparr>])) []
     False None [] (fixed_classifier VerdictAllow)"

text \<open>A rule that denies edits of a path stops the tools that name the path, but every patch is
  presented under the placeholder name \<open>apply_patch\<close>, whichever files it changes.\<close>

theorem apply_patch_escapes_edit_deny:
  "(\<exists>m. fst (handle_request exact_globs deny_secret False AllowOnce (access_from (WriteInput (lit ''secret'')))
       (yolo_manager deny_secret)) = PolicyDeny m)
   \<and> fst (handle_request exact_globs deny_secret False AllowOnce (access_from (ApplyPatch patch))
       (yolo_manager deny_secret)) = Allow"
proof -
  have ev: "policy_decision exact_globs deny_secret (Edit p) =
      (if p = lit ''secret'' then Some (Reject (deny_reason (hd (rules (cp_config (the (compiled_policy deny_secret)))))))
       else None)" for p
    by (auto simp: policy_decision_def direct_decision_def shell_command_decision_def shell_file_decision_def
        deny_secret_def manager_config_def evaluate_def config_new_def pattern_matches_def glob_matches_def
        compile_matcher_def exact_globs_def compiled_new_def)
  have yolo: "yolo_mode (yolo_manager deny_secret)"
    by (simp add: yolo_manager_def deny_secret_def manager_config_def spawn_manager_def clamp_yolo_def
        state_default_def Let_def)
  show ?thesis
    using yolo
    by (simp add: handle_request_def request_verdict_def ev shell_forced_prompt_def shell_command_decision_def
        shell_file_decision_def Let_def split: option.splits)
qed

section \<open>Auto mode with the production classifier\<close>

text \<open>None of the tool names the manager gives to an access needs the user or is on the name list.\<close>

lemma builtin_tools_silent:
  assumes "\<And>name input. access \<noteq> MCPTool name input"
  shows "\<not> access_requires_user_interaction (tool_name_for_access access) access"
    "\<not> is_auto_mode_allowlisted_tool_name (tool_name_for_access access)"
  using assms
  by (cases access; simp add: access_requires_user_interaction_def ascii_lower_def contains_sub_def
      is_auto_mode_allowlisted_tool_name_def Let_def)+

lemma mcp_never_listed: "\<not> is_auto_mode_allowlisted_tool_name (tool_name_for_access (MCPTool name input))"
  by (simp add: is_auto_mode_allowlisted_tool_name_def)

text \<open>Nothing in a command or in the conversation that the substring checks refuse.\<close>

definition quiet :: "rstr \<Rightarrow> ClassifierContext \<Rightarrow> bool" where
  "quiet cmd ctx =
     (let transcript = ascii_lower (transcript_text ctx);
          blob = lit ''run_terminal_command'' @ lit '' '' @ ascii_lower cmd @ lit '' '' @ transcript
      in \<not> contains_any DANGEROUS_PATTERNS blob \<and> \<not> pipes_download_to_shell blob \<and>
         \<not> contains_any HOSTILE_INTENT transcript)"

lemma classify_sync_bash:
  "classify_sync parse (lit ''run_terminal_command'') (Bash cmd) (Some cmd) ctx = VerdictAllow \<longleftrightarrow>
     quiet cmd ctx \<and> classify_bash parse cmd = VerdictAllow"
proof -
  have "ascii_lower (lit ''run_terminal_command'') = lit ''run_terminal_command''" by (simp add: ascii_lower_def)
  moreover have "\<not> contains_sub (lit ''ask_user'') (lit ''run_terminal_command'')"
    "\<not> contains_sub (lit ''askuserquestion'') (lit ''run_terminal_command'')"
    by (simp_all add: contains_sub_def)
  ultimately show ?thesis by (auto simp: classify_sync_def quiet_def Let_def simp del: lit_simps)
qed

lemma classify_sync_refuses:
  "classify_sync parse tool_name (MCPTool name input) detail ctx \<noteq> VerdictAllow"
  "classify_sync parse tool_name (WebFetch url) detail ctx \<noteq> VerdictAllow"
  by (auto simp: classify_sync_def Let_def simp del: lit_simps)

text \<open>C21. What auto mode lets through without a prompt when no model is wired, exactly: the policy must not
  ask, and the access must be a read, a search, an edit, a no-op command, or a script that the heuristic
  allows while neither the script nor the conversation matches a dangerous pattern. A web fetch or an MCP
  tool is never let through.\<close>

theorem auto_mode_without_model:
  assumes "auto_classifier s = Some (llm_classify parse from_str production_default)"
  shows "(\<exists>r. auto_stage E cfg access s = Inl r) \<longleftrightarrow>
     auto_mode s \<and> policy_decision E cfg access \<noteq> Some Ask \<and> \<not> shell_forced_prompt E cfg access \<and>
     (case access of
        Bash cmd \<Rightarrow> trim cmd \<in> set (map lit [''true'', '':'', ''false'']) \<or>
          (quiet cmd \<lparr>turns = classifier_turns s, project_instructions = classifier_instructions s\<rparr> \<and>
           classify_bash parse cmd = VerdictAllow)
      | MCPTool _ _ \<Rightarrow> False
      | WebFetch _ \<Rightarrow> False
      | _ \<Rightarrow> True)"
proof (cases "auto_mode s \<and> policy_decision E cfg access \<noteq> Some Ask \<and> \<not> shell_forced_prompt E cfg access")
  case True
  let ?ctx = "\<lparr>turns = classifier_turns s, project_instructions = classifier_instructions s\<rparr>"
  let ?tool = "tool_name_for_access access"
  have stage: "(\<exists>r. auto_stage E cfg access s = Inl r) \<longleftrightarrow>
      (case auto_mode_fast_path access ?tool (access_requires_user_interaction ?tool access) of
         FastAllow \<Rightarrow> True | PromptUser \<Rightarrow> False
       | Classify \<Rightarrow> classify_sync parse ?tool access (access_detail access) ?ctx = VerdictAllow)"
    using True assms by (auto simp: auto_stage_def llm_without_model Let_def split: AutoFastPath.splits ClassifierVerdict.splits)
  show ?thesis
  proof (cases access)
    case (MCPTool name input)
    then show ?thesis
      using stage classify_sync_refuses(1) mcp_never_listed
      by (auto simp: auto_mode_fast_path_def is_auto_mode_allowlisted_access_def simp del: lit_simps split: if_splits)
  next
    case (Bash cmd)
    then show ?thesis
      using stage True builtin_tools_silent [of access] classify_sync_bash [of parse cmd ?ctx]
      by (auto simp: auto_mode_fast_path_def is_auto_mode_allowlisted_access_def simp del: lit_simps)
  next
    case (WebFetch url)
    then show ?thesis
      using stage builtin_tools_silent [of access] classify_sync_refuses(2)
      by (auto simp: auto_mode_fast_path_def is_auto_mode_allowlisted_access_def simp del: lit_simps)
  qed (use stage True builtin_tools_silent [of access] in
        \<open>auto simp: auto_mode_fast_path_def is_auto_mode_allowlisted_access_def simp del: lit_simps\<close>)
next
  case False
  then show ?thesis by (auto simp: auto_stage_def)
qed

theorem auto_mode_without_model_witness:
  "\<exists>r. auto_stage plain_surroundings sample_cfg (Read None)
     ((spawn_manager sample_cfg state_default False)
        \<lparr>auto_mode := True, auto_classifier := Some (llm_classify (try_parse_shell plain_surroundings) (\<lambda>_. None) production_default)\<rparr>) = Inl r"
proof -
  let ?s = "(spawn_manager sample_cfg state_default False)
        \<lparr>auto_mode := True, auto_classifier := Some (llm_classify (try_parse_shell plain_surroundings) (\<lambda>_. None) production_default)\<rparr>"
  have "policy_decision plain_surroundings sample_cfg (Read None) = None"
    by (simp add: policy_decision_def direct_decision_def shell_command_decision_def shell_file_decision_def
        sample_cfg_def manager_config_def evaluate_compiled deny_rm_def config_new_def)
  moreover have "\<not> shell_forced_prompt plain_surroundings sample_cfg (Read None)"
    by (simp add: shell_forced_prompt_def shell_command_decision_def shell_file_decision_def split: option.split)
  ultimately show ?thesis
    using auto_mode_without_model [of ?s "try_parse_shell plain_surroundings" "\<lambda>_. None" plain_surroundings sample_cfg "Read None"] by simp
qed

end
