(* ===== verification/Hunk_Diff.thy ===== *)
theory Hunk_Diff
  imports Prelude
begin

text \<open>
  Hunks and line patches of the hunk tracker: \<open>xai-hunk-tracker/src/types.rs\<close> (hunks, sources, actions,
  counters) and \<open>diff.rs\<close> (building hunks from a line diff, patching lines, matching old and new hunks,
  printing). The line differ is the external crate \<open>similar\<close>: it is a parameter that returns the changes
  in order, or nothing when it runs out of its ten seconds; the theorems assume that the changes spell
  the two texts line by line. Identifiers are UUIDs, taken from a supply \<open>uuid\<close>. The time stamp and the
  selection flag of a hunk are left out.

  The lemmas show that the hunks of a diff are exactly the differing stretches, that patching any
  selection of hunks, last first, changes just those stretches, and that accepting a selection into the
  baseline and rejecting the others from the current text give the same text.
\<close>

section \<open>Hunks\<close>

type_synonym HunkId = rstr
type_synonym path = rstr

record HunkLineInfo =
  old_start :: nat
  old_count :: nat
  new_start :: nat
  new_count :: nat

datatype HunkSource = AgentEdit nat | ExternalEditOnAgentFile | External

definition is_agent_edit :: "HunkSource \<Rightarrow> bool" where
  "is_agent_edit s = (case s of AgentEdit _ \<Rightarrow> True | _ \<Rightarrow> False)"

definition is_agent_tracked :: "HunkSource \<Rightarrow> bool" where
  "is_agent_tracked s = (case s of AgentEdit _ \<Rightarrow> True | ExternalEditOnAgentFile \<Rightarrow> True | External \<Rightarrow> False)"

definition is_external :: "HunkSource \<Rightarrow> bool" where
  "is_external s = (case s of External \<Rightarrow> True | ExternalEditOnAgentFile \<Rightarrow> True | AgentEdit _ \<Rightarrow> False)"

fun source_prompt :: "HunkSource \<Rightarrow> nat option" where
  "source_prompt (AgentEdit p) = Some p"
| "source_prompt _ = None"

record Hunk =
  hunk_id :: HunkId
  hunk_path :: path
  line_info :: HunkLineInfo
  hunk_source :: HunkSource
  old_text :: "rstr option"
  new_text :: rstr
  hunk_patch :: "rstr option"

definition line_count :: "rstr \<Rightarrow> nat" where
  "line_count content = max 1 (length (str_lines content))"

definition file_created :: "HunkId \<Rightarrow> path \<Rightarrow> rstr \<Rightarrow> HunkSource \<Rightarrow> Hunk" where
  "file_created i p content src =
     \<lparr>hunk_id = i, hunk_path = p,
      line_info = \<lparr>old_start = 0, old_count = 0, new_start = 1, new_count = line_count content\<rparr>,
      hunk_source = src, old_text = None, new_text = content, hunk_patch = None\<rparr>"

definition file_deleted :: "HunkId \<Rightarrow> path \<Rightarrow> rstr \<Rightarrow> HunkSource \<Rightarrow> Hunk" where
  "file_deleted i p content src =
     \<lparr>hunk_id = i, hunk_path = p,
      line_info = \<lparr>old_start = 1, old_count = line_count content, new_start = 0, new_count = 0\<rparr>,
      hunk_source = src, old_text = Some content, new_text = [], hunk_patch = None\<rparr>"

definition text_lines :: "rstr option \<Rightarrow> rstr list" where
  "text_lines t = (case t of None \<Rightarrow> [] | Some s \<Rightarrow> str_lines s)"

definition hunk_summary :: "Hunk \<Rightarrow> rstr" where
  "hunk_summary h =
     lit ''+'' @ show_nat (length (str_lines (new_text h))) @ lit ''/-'' @ show_nat (length (text_lines (old_text h)))"

definition show_line_info :: "HunkLineInfo \<Rightarrow> rstr" where
  "show_line_info l =
     lit ''@@ -'' @ show_nat (old_start l) @ lit '','' @ show_nat (old_count l) @ lit '' +'' @
     show_nat (new_start l) @ lit '','' @ show_nat (new_count l) @ lit '' @@''"

datatype HunkAction = Accept | Reject

datatype HunkSourceFilter = FilterAgent | FilterExternal

datatype TrackingMode = AgentOnly | AllDirty

record SessionStats =
  accepted_hunks :: nat
  rejected_hunks :: nat
  accepted_lines_added :: nat
  accepted_lines_removed :: nat
  rejected_lines_added :: nat
  rejected_lines_removed :: nat

definition stats_default :: SessionStats where
  "stats_default = \<lparr>accepted_hunks = 0, rejected_hunks = 0, accepted_lines_added = 0,
     accepted_lines_removed = 0, rejected_lines_added = 0, rejected_lines_removed = 0\<rparr>"

section \<open>From a diff to hunks\<close>

datatype ChangeTag = Equal | Delete | Insert

type_synonym Change = "ChangeTag \<times> rstr"
type_synonym Differ = "rstr \<Rightarrow> rstr \<Rightarrow> Change list option"

definition MAX_DIFF_FILE_SIZE :: nat where "MAX_DIFF_FILE_SIZE = 1024 * 1024"
definition CONTEXT_LINES :: nat where "CONTEXT_LINES = 3"

record HunkBuilder =
  b_old_start :: nat
  b_new_start :: nat
  b_old_lines :: "rstr list"
  b_new_lines :: "rstr list"

definition builder_new :: "nat \<Rightarrow> nat \<Rightarrow> HunkBuilder" where
  "builder_new old new = \<lparr>b_old_start = old, b_new_start = new, b_old_lines = [], b_new_lines = []\<rparr>"

definition get_or_new :: "HunkBuilder option \<Rightarrow> nat \<Rightarrow> nat \<Rightarrow> HunkBuilder" where
  "get_or_new b old new = (case b of Some h \<Rightarrow> h | None \<Rightarrow> builder_new old new)"

definition add_old_line :: "rstr \<Rightarrow> HunkBuilder \<Rightarrow> HunkBuilder" where
  "add_old_line l b = b\<lparr>b_old_lines := b_old_lines b @ [l]\<rparr>"

definition add_new_line :: "rstr \<Rightarrow> HunkBuilder \<Rightarrow> HunkBuilder" where
  "add_new_line l b = b\<lparr>b_new_lines := b_new_lines b @ [l]\<rparr>"

definition opt_list :: "'a option \<Rightarrow> 'a list" where
  "opt_list x = (case x of Some a \<Rightarrow> [a] | None \<Rightarrow> [])"

fun hunk_loop :: "Change list \<Rightarrow> nat \<Rightarrow> nat \<Rightarrow> HunkBuilder option \<Rightarrow> HunkBuilder list" where
  "hunk_loop [] old_line new_line current = opt_list current"
| "hunk_loop ((Equal, l) # cs) old_line new_line current =
     opt_list current @ hunk_loop cs (old_line + 1) (new_line + 1) None"
| "hunk_loop ((Delete, l) # cs) old_line new_line current =
     hunk_loop cs (old_line + 1) new_line (Some (add_old_line l (get_or_new current old_line new_line)))"
| "hunk_loop ((Insert, l) # cs) old_line new_line current =
     hunk_loop cs old_line (new_line + 1) (Some (add_new_line l (get_or_new current old_line new_line)))"

definition build_hunk :: "path \<Rightarrow> HunkSource \<Rightarrow> HunkId \<Rightarrow> HunkBuilder \<Rightarrow> Hunk" where
  "build_hunk p src i b =
     \<lparr>hunk_id = i, hunk_path = p,
      line_info = \<lparr>old_start = b_old_start b, old_count = length (b_old_lines b),
                   new_start = b_new_start b, new_count = length (b_new_lines b)\<rparr>,
      hunk_source = src,
      old_text = (if b_old_lines b = [] then None else Some (concat (b_old_lines b))),
      new_text = concat (b_new_lines b), hunk_patch = None\<rparr>"

text \<open>The identifiers are taken from the supply in order, from number \<open>k\<close> on.\<close>

definition compute_hunks ::
  "Differ \<Rightarrow> (nat \<Rightarrow> HunkId) \<Rightarrow> nat \<Rightarrow> path \<Rightarrow> rstr \<Rightarrow> rstr \<Rightarrow> HunkSource \<Rightarrow> Hunk list" where
  "compute_hunks diff uuid k p baseline current src =
     (if baseline = current then []
      else if MAX_DIFF_FILE_SIZE < len_bytes baseline \<or> MAX_DIFF_FILE_SIZE < len_bytes current then []
      else case diff baseline current of
             None \<Rightarrow> []
           | Some changes \<Rightarrow>
               map (\<lambda>(j, b). build_hunk p src (uuid (k + j)) b) (enumerate 0 (hunk_loop changes 1 1 None)))"

section \<open>Patching lines\<close>

definition patch_lines :: "rstr \<Rightarrow> nat \<Rightarrow> nat \<Rightarrow> rstr \<Rightarrow> rstr" where
  "patch_lines content start_line remove_count insert_text =
     (let lines = str_lines content; start_idx = start_line - 1;
          result = take start_idx lines @ (if insert_text \<noteq> [] then str_lines insert_text else []) @
                   drop (min (start_idx + remove_count) (length lines)) lines;
          output = join [nl] result
      in if ends_with [nl] content \<and> output \<noteq> [] then output @ [nl] else output)"

section \<open>Printing\<close>

definition writeln :: "rstr \<Rightarrow> rstr" where "writeln s = s @ [nl]"

definition print_lines :: "rstr \<Rightarrow> rstr list \<Rightarrow> rstr" where
  "print_lines mark ls = concat (map (\<lambda>l. writeln (mark @ l)) ls)"

definition format_unified_diff :: "Hunk \<Rightarrow> rstr" where
  "format_unified_diff h =
     writeln (lit ''--- a/'' @ hunk_path h) @ writeln (lit ''+++ b/'' @ hunk_path h) @
     writeln (show_line_info (line_info h)) @
     print_lines (lit ''-'') (text_lines (old_text h)) @ print_lines (lit ''+'') (str_lines (new_text h))"

text \<open>A subtraction below zero stops the debug build; \<open>None\<close> stands for it.\<close>

definition checked_sub :: "nat \<Rightarrow> nat \<Rightarrow> nat option" where
  "checked_sub a b = (if b \<le> a then Some (a - b) else None)"

definition slice :: "nat \<Rightarrow> nat \<Rightarrow> 'a list \<Rightarrow> 'a list" where
  "slice i j xs = take (j - i) (drop i xs)"

definition generate_hunk_patch :: "rstr \<Rightarrow> rstr \<Rightarrow> Hunk \<Rightarrow> rstr option" where
  "generate_hunk_patch baseline current h =
     (let old_lines = str_lines baseline; new_lines = str_lines current;
          old_start_idx = old_start (line_info h) - 1; new_start_idx = new_start (line_info h) - 1;
          context_before_start = old_start_idx - CONTEXT_LINES;
          changes_end_new = new_start_idx + new_count (line_info h);
          context_after_end = min (changes_end_new + CONTEXT_LINES) (length new_lines);
          changes_end_old = old_start_idx + old_count (line_info h);
          context_after_end_old = min (changes_end_old + CONTEXT_LINES) (length old_lines)
      in case (checked_sub context_after_end_old changes_end_old, checked_sub context_after_end changes_end_new) of
           (Some after_old, Some after_new) \<Rightarrow>
             (let before = old_start_idx - context_before_start;
                  header = \<lparr>old_start = context_before_start + 1,
                            old_count = before + old_count (line_info h) + after_old,
                            new_start = context_before_start + 1,
                            new_count = before + new_count (line_info h) + after_new\<rparr>
              in Some (writeln (show_line_info header) @
                       print_lines (lit '' '') (slice context_before_start old_start_idx old_lines) @
                       print_lines (lit ''-'') (text_lines (old_text h)) @
                       print_lines (lit ''+'') (str_lines (new_text h)) @
                       print_lines (lit '' '') (slice changes_end_new context_after_end new_lines)))
         | _ \<Rightarrow> None)"

section \<open>Matching old and new hunks\<close>

definition hunks_match_content :: "Hunk \<Rightarrow> Hunk \<Rightarrow> bool" where
  "hunks_match_content a b \<longleftrightarrow> hunk_path a = hunk_path b \<and> old_text a = old_text b \<and> new_text a = new_text b"

definition hunk_moved :: "Hunk \<Rightarrow> Hunk \<Rightarrow> bool" where
  "hunk_moved old new \<longleftrightarrow> hunks_match_content old new \<and> line_info old \<noteq> line_info new"

definition hunks_overlap :: "Hunk \<Rightarrow> Hunk \<Rightarrow> bool" where
  "hunks_overlap a b =
     (let a_start = old_start (line_info a); a_end = a_start + old_count (line_info a);
          b_start = old_start (line_info b); b_end = b_start + old_count (line_info b)
      in if hunk_path a \<noteq> hunk_path b then False
         else if old_count (line_info a) = 0 \<and> old_count (line_info b) = 0 then a_start = b_start
         else if old_count (line_info a) = 0 then b_start \<le> a_start \<and> a_start \<le> b_end
         else if old_count (line_info b) = 0 then a_start \<le> b_start \<and> b_start \<le> a_end
         else \<not> (a_end < b_start \<or> b_end < a_start))"

definition calculate_overlap_size :: "HunkLineInfo \<Rightarrow> HunkLineInfo \<Rightarrow> nat" where
  "calculate_overlap_size a b =
     min (old_start a + old_count a) (old_start b + old_count b) - max (old_start a) (old_start b)"

definition abs_diff :: "nat \<Rightarrow> nat \<Rightarrow> nat" where
  "abs_diff a b = (if a < b then b - a else a - b)"

text \<open>\<open>Iterator::min_by_key\<close> returns the first minimum, \<open>max_by_key\<close> the last maximum.\<close>

fun min_by_key :: "('a \<Rightarrow> nat) \<Rightarrow> 'a list \<Rightarrow> 'a option" where
  "min_by_key f [] = None"
| "min_by_key f (x # xs) =
     (case min_by_key f xs of Some y \<Rightarrow> Some (if f x \<le> f y then x else y) | None \<Rightarrow> Some x)"

fun max_by_key :: "('a \<Rightarrow> nat) \<Rightarrow> 'a list \<Rightarrow> 'a option" where
  "max_by_key f [] = None"
| "max_by_key f (x # xs) =
     (case max_by_key f xs of Some y \<Rightarrow> Some (if f y < f x then x else y) | None \<Rightarrow> Some x)"

definition find_matching_old_hunk :: "Hunk \<Rightarrow> Hunk list \<Rightarrow> Hunk option" where
  "find_matching_old_hunk new old_hunks =
     (let content_matches = filter (\<lambda>h. hunks_match_content h new) old_hunks
      in if content_matches \<noteq> []
         then min_by_key (\<lambda>h. abs_diff (new_start (line_info h)) (new_start (line_info new))) content_matches
         else max_by_key (\<lambda>h. calculate_overlap_size (line_info h) (line_info new))
                (filter (\<lambda>h. hunks_overlap h new) old_hunks))"

definition find_overlapping_hunks :: "Hunk \<Rightarrow> Hunk list \<Rightarrow> Hunk list" where
  "find_overlapping_hunks new old_hunks = filter (\<lambda>h. hunks_overlap h new) old_hunks"

text \<open>Patching a batch of hunks of one file: the batch is sorted by descending start line (a stable
  sort), so that no patch moves the lines of a later one.\<close>

definition sort_desc :: "('a \<Rightarrow> nat) \<Rightarrow> 'a list \<Rightarrow> 'a list" where
  "sort_desc f xs = rev (sort_key f (rev xs))"

definition accept_patch :: "Hunk \<Rightarrow> rstr \<Rightarrow> rstr" where
  "accept_patch h baseline =
     patch_lines baseline (old_start (line_info h)) (old_count (line_info h)) (new_text h)"

definition reject_patch :: "Hunk \<Rightarrow> rstr \<Rightarrow> rstr" where
  "reject_patch h current =
     patch_lines current (new_start (line_info h)) (new_count (line_info h))
       (case old_text h of Some t \<Rightarrow> t | None \<Rightarrow> [])"

definition accept_patches :: "Hunk list \<Rightarrow> rstr \<Rightarrow> rstr" where
  "accept_patches hs baseline = fold accept_patch (sort_desc (\<lambda>h. old_start (line_info h)) hs) baseline"

definition reject_patches :: "Hunk list \<Rightarrow> rstr \<Rightarrow> rstr" where
  "reject_patches hs current = fold reject_patch (sort_desc (\<lambda>h. new_start (line_info h)) hs) current"

section \<open>Texts of complete lines\<close>

definition plain_lines :: "rstr list \<Rightarrow> bool" where
  "plain_lines ls \<longleftrightarrow> (\<forall>l \<in> set ls. nl \<notin> set l \<and> 13 \<notin> set l)"

definition lines_text :: "rstr list \<Rightarrow> rstr" where
  "lines_text ls = concat (map (\<lambda>l. l @ [nl]) ls)"

lemma plain_lines_simps [simp]:
  "plain_lines []" "plain_lines (l # ls) \<longleftrightarrow> nl \<notin> set l \<and> 13 \<notin> set l \<and> plain_lines ls"
  "plain_lines (ls @ ms) \<longleftrightarrow> plain_lines ls \<and> plain_lines ms"
  by (auto simp: plain_lines_def)

lemma text_simps [simp]:
  "lines_text [] = []" "lines_text (l # ls) = l @ nl # lines_text ls" "lines_text (ls @ ms) = lines_text ls @ lines_text ms"
  by (simp_all add: lines_text_def)

lemma text_empty [simp]: "lines_text ls = [] \<longleftrightarrow> ls = []"
  by (cases ls) simp_all

lemma text_join: "lines_text ls = join [nl] (ls @ [[]])"
proof (induction ls)
  case (Cons l ls)
  then show ?case by (cases ls) simp_all
qed simp

lemma join_text: "ls \<noteq> [] \<Longrightarrow> join [nl] ls @ [nl] = lines_text ls"
proof (induction ls)
  case (Cons l ls)
  then show ?case by (cases ls) simp_all
qed simp

lemma str_lines_text: "plain_lines ls \<Longrightarrow> str_lines (lines_text ls) = ls"
proof -
  assume p: "plain_lines ls"
  have "split_on nl (lines_text ls) = ls @ [[]]"
    unfolding text_join using p by (intro split_on_join) (auto simp: plain_lines_def)
  moreover have "map strip_cr ls = ls"
    using p by (intro map_idI) (auto simp: plain_lines_def strip_cr_def dest: last_in_set)
  ultimately show ?thesis by (simp add: str_lines_def)
qed

lemma ends_with_text: "ends_with [nl] (lines_text ls) \<longleftrightarrow> ls \<noteq> []"
proof (cases ls rule: rev_cases)
  case (snoc ms l)
  then show ?thesis by (simp add: ends_with_def)
qed (simp add: ends_with_def)

lemma join_empty: "join [nl] ls = [] \<longleftrightarrow> ls = [] \<or> ls = [[]]"
  by (cases ls; cases "tl ls") auto

lemma text_inject: "plain_lines ls \<Longrightarrow> plain_lines ms \<Longrightarrow> lines_text ls = lines_text ms \<longleftrightarrow> ls = ms"
  by (metis str_lines_text)

text \<open>Patching a text of complete lines replaces the lines, unless it is empty before or a single blank
  line afterwards.\<close>

lemma patch_text:
  fixes i k :: nat
  assumes "plain_lines ls" "plain_lines ms" "ls \<noteq> []"
  defines "result \<equiv> take i ls @ ms @ drop (i + k) ls"
  assumes "result \<noteq> [[]]"
  shows "patch_lines (lines_text ls) (i + 1) k (lines_text ms) = lines_text result"
proof -
  have "drop (min (i + k) (length ls)) ls = drop (i + k) ls" by (auto simp: min_def)
  then have lines: "take i ls @ (if lines_text ms \<noteq> [] then str_lines (lines_text ms) else []) @ drop (min (i + k) (length ls)) ls = result"
    using assms(2) by (simp add: result_def str_lines_text)
  have patch: "patch_lines (lines_text ls) (i + 1) k (lines_text ms) =
      (if ls \<noteq> [] \<and> join [nl] result \<noteq> [] then join [nl] result @ [nl] else join [nl] result)"
    unfolding patch_lines_def Let_def str_lines_text [OF assms(1)] add_diff_cancel_right' lines ends_with_text ..
  show ?thesis
    using patch join_text [of result] assms(3,5) by (auto simp: join_empty)
qed

section \<open>The hunks of a diff\<close>

text \<open>A segment: unchanged lines, then the lines of a hunk on the old and on the new side.\<close>

type_synonym 'a seg = "'a list \<times> 'a list \<times> 'a list"

definition seg_old :: "'a seg list \<Rightarrow> 'a list \<Rightarrow> 'a list" where
  "seg_old segs rest = concat (map (\<lambda>(e, d, i). e @ d) segs) @ rest"

definition seg_new :: "'a seg list \<Rightarrow> 'a list \<Rightarrow> 'a list" where
  "seg_new segs rest = concat (map (\<lambda>(e, d, i). e @ i) segs) @ rest"

definition unchanged :: "'a seg list \<Rightarrow> 'a list \<Rightarrow> 'a list" where
  "unchanged segs rest = concat (map fst segs) @ rest"

lemma seg_simps [simp]:
  "seg_old [] rest = rest" "seg_old ((e, d, i) # segs) rest = e @ d @ seg_old segs rest"
  "seg_new [] rest = rest" "seg_new ((e, d, i) # segs) rest = e @ i @ seg_new segs rest"
  "unchanged [] rest = rest" "unchanged ((e, d, i) # segs) rest = e @ unchanged segs rest"
  by (simp_all add: seg_old_def seg_new_def unchanged_def)

fun builders_of :: "nat \<Rightarrow> nat \<Rightarrow> rstr seg list \<Rightarrow> HunkBuilder list" where
  "builders_of a b [] = []"
| "builders_of a b ((e, d, i) # segs) =
     \<lparr>b_old_start = a + length e, b_new_start = b + length e, b_old_lines = d, b_new_lines = i\<rparr> #
     builders_of (a + length e + length d) (b + length e + length i) segs"

definition seg_ok :: "'a seg list \<Rightarrow> bool" where
  "seg_ok segs \<longleftrightarrow> (\<forall>(e, d, i) \<in> set segs. d \<noteq> [] \<or> i \<noteq> [])"

definition apart :: "'a seg list \<Rightarrow> bool" where
  "apart segs \<longleftrightarrow> (\<forall>(e, d, i) \<in> set segs. e \<noteq> [])"

definition old_side :: "Change list \<Rightarrow> rstr list" where
  "old_side cs = map snd (filter (\<lambda>c. fst c \<noteq> Insert) cs)"

definition new_side :: "Change list \<Rightarrow> rstr list" where
  "new_side cs = map snd (filter (\<lambda>c. fst c \<noteq> Delete) cs)"

definition equal_side :: "Change list \<Rightarrow> rstr list" where
  "equal_side cs = map snd (filter (\<lambda>c. fst c = Equal) cs)"

lemma side_simps [simp]:
  "old_side [] = []" "old_side ((Equal, l) # cs) = l # old_side cs" "old_side ((Delete, l) # cs) = l # old_side cs"
  "old_side ((Insert, l) # cs) = old_side cs"
  "new_side [] = []" "new_side ((Equal, l) # cs) = l # new_side cs" "new_side ((Delete, l) # cs) = new_side cs"
  "new_side ((Insert, l) # cs) = l # new_side cs"
  "equal_side [] = []" "equal_side ((Equal, l) # cs) = l # equal_side cs" "equal_side ((Delete, l) # cs) = equal_side cs"
  "equal_side ((Insert, l) # cs) = equal_side cs"
  by (simp_all add: old_side_def new_side_def equal_side_def)

text \<open>\<open>segmented\<close>: the changes are the segments and what follows them, and the loop, entered at the given
  line numbers, builds the segments' hunks.\<close>

definition segmented :: "Change list \<Rightarrow> rstr seg list \<Rightarrow> rstr list \<Rightarrow> rstr list \<Rightarrow> rstr list \<Rightarrow> bool" where
  "segmented cs segs rest d i \<longleftrightarrow>
     old_side cs = d @ seg_old segs rest \<and> new_side cs = i @ seg_new segs rest \<and>
     equal_side cs = unchanged segs rest \<and> seg_ok segs"

lemma segmented_equal:
  assumes "segmented cs segs rest [] []"
  obtains segs' rest' where "segmented ((Equal, l) # cs) segs' rest' [] []" "apart (tl segs) \<Longrightarrow> apart segs'"
    "\<And>a b. builders_of a b segs' = builders_of (a + 1) (b + 1) segs"
proof (cases segs)
  case Nil
  then show ?thesis
    using assms that [of "[]" "l # rest"] by (simp add: segmented_def seg_ok_def apart_def)
next
  case (Cons s ss)
  obtain e d i where s: "s = (e, d, i)" by (cases s)
  show ?thesis
    using assms that [of "(l # e, d, i) # ss" rest]
    by (auto simp: Cons s segmented_def seg_ok_def apart_def add_ac)
qed

lemma hunk_loop_segments:
  "(\<exists>segs rest. hunk_loop cs a b None = builders_of a b segs \<and> segmented cs segs rest [] [] \<and> apart (tl segs)) \<and>
   (\<forall>h. \<exists>segs rest d i. hunk_loop cs a b (Some h) =
        h\<lparr>b_old_lines := b_old_lines h @ d, b_new_lines := b_new_lines h @ i\<rparr> #
        builders_of (a + length d) (b + length i) segs \<and> segmented cs segs rest d i \<and> apart segs)"
proof (induction cs arbitrary: a b)
  case Nil
  have "segmented [] [] [] [] []" "apart []" by (simp_all add: segmented_def seg_ok_def apart_def)
  moreover have "\<forall>h :: HunkBuilder. h = h\<lparr>b_old_lines := b_old_lines h @ [], b_new_lines := b_new_lines h @ []\<rparr>" by simp
  ultimately show ?case
    by (metis append_Nil2 builders_of.simps(1) hunk_loop.simps(1) list.sel(2) opt_list_def option.simps(4,5))
next
  case (Cons c cs)
  obtain t l where c: "c = (t, l)" by (cases c)
  show ?case
  proof (cases t)
    case Equal
    obtain segs rest where IH: "hunk_loop cs (a + 1) (b + 1) None = builders_of (a + 1) (b + 1) segs"
      "segmented cs segs rest [] []" "apart (tl segs)"
      using Cons.IH [of "a + 1" "b + 1"] by blast
    obtain segs' rest' where S: "segmented ((Equal, l) # cs) segs' rest' [] []" "apart segs'"
      "\<And>a b. builders_of a b segs' = builders_of (a + 1) (b + 1) segs"
      using segmented_equal [OF IH(2), of l] IH(3) by metis
    have none: "hunk_loop (c # cs) a b None = builders_of a b segs'"
      using c Equal IH(1) S(3) by (simp add: opt_list_def)
    have some: "hunk_loop (c # cs) a b (Some h) =
        h\<lparr>b_old_lines := b_old_lines h @ [], b_new_lines := b_new_lines h @ []\<rparr> #
        builders_of (a + length []) (b + length []) segs'" for h
      using c Equal IH(1) S(3) by (simp add: opt_list_def)
    have "apart (tl segs')" using S(2) by (cases segs') (auto simp: apart_def)
    with none some S(1,2) c Equal show ?thesis by blast
  next
    case Delete
    have step: "\<exists>segs rest d i. hunk_loop (c # cs) a b (Some h) =
        h\<lparr>b_old_lines := b_old_lines h @ d, b_new_lines := b_new_lines h @ i\<rparr> #
        builders_of (a + length d) (b + length i) segs \<and> segmented (c # cs) segs rest d i \<and> apart segs \<and> d \<noteq> []" for h
    proof -
      obtain segs rest d i where "hunk_loop cs (a + 1) b (Some (add_old_line l h)) =
          (add_old_line l h)\<lparr>b_old_lines := b_old_lines (add_old_line l h) @ d, b_new_lines := b_new_lines (add_old_line l h) @ i\<rparr> #
          builders_of (a + 1 + length d) (b + length i) segs" "segmented cs segs rest d i" "apart segs"
        using Cons.IH [of "a + 1" b] by blast
      then show ?thesis
        by (intro exI [of _ segs] exI [of _ rest] exI [of _ "l # d"] exI [of _ i])
           (simp add: c Delete get_or_new_def add_old_line_def segmented_def)
    qed
    obtain segs rest d i where none: "hunk_loop (c # cs) a b (Some (builder_new a b)) =
        (builder_new a b)\<lparr>b_old_lines := d, b_new_lines := i\<rparr> # builders_of (a + length d) (b + length i) segs"
      "segmented (c # cs) segs rest d i" "apart segs" "d \<noteq> []"
      using step [of "builder_new a b"] by (auto simp: builder_new_def)
    have "hunk_loop (c # cs) a b None = builders_of a b (([], d, i) # segs)"
      using none(1) by (simp add: c Delete get_or_new_def builder_new_def)
    moreover have "segmented (c # cs) (([], d, i) # segs) rest [] []"
      using none(2,4) by (simp add: segmented_def seg_ok_def)
    moreover have "apart (tl (([], d, i) # segs))" using none(3) by simp
    ultimately show ?thesis using step by blast
  next
    case Insert
    have step: "\<exists>segs rest d i. hunk_loop (c # cs) a b (Some h) =
        h\<lparr>b_old_lines := b_old_lines h @ d, b_new_lines := b_new_lines h @ i\<rparr> #
        builders_of (a + length d) (b + length i) segs \<and> segmented (c # cs) segs rest d i \<and> apart segs \<and> i \<noteq> []" for h
    proof -
      obtain segs rest d i where "hunk_loop cs a (b + 1) (Some (add_new_line l h)) =
          (add_new_line l h)\<lparr>b_old_lines := b_old_lines (add_new_line l h) @ d, b_new_lines := b_new_lines (add_new_line l h) @ i\<rparr> #
          builders_of (a + length d) (b + 1 + length i) segs" "segmented cs segs rest d i" "apart segs"
        using Cons.IH [of a "b + 1"] by blast
      then show ?thesis
        by (intro exI [of _ segs] exI [of _ rest] exI [of _ d] exI [of _ "l # i"])
           (simp add: c Insert get_or_new_def add_new_line_def segmented_def)
    qed
    obtain segs rest d i where none: "hunk_loop (c # cs) a b (Some (builder_new a b)) =
        (builder_new a b)\<lparr>b_old_lines := d, b_new_lines := i\<rparr> # builders_of (a + length d) (b + length i) segs"
      "segmented (c # cs) segs rest d i" "apart segs" "i \<noteq> []"
      using step [of "builder_new a b"] by (auto simp: builder_new_def)
    have "hunk_loop (c # cs) a b None = builders_of a b (([], d, i) # segs)"
      using none(1) by (simp add: c Insert get_or_new_def builder_new_def)
    moreover have "segmented (c # cs) (([], d, i) # segs) rest [] []"
      using none(2,4) by (simp add: segmented_def seg_ok_def)
    moreover have "apart (tl (([], d, i) # segs))" using none(3) by simp
    ultimately show ?thesis using step by blast
  qed
qed

section \<open>Patching a selection of hunks\<close>

fun patch_step :: "nat \<times> nat \<times> rstr \<Rightarrow> rstr \<Rightarrow> rstr" where
  "patch_step (start, k, ins) t = patch_lines t start k ins"

text \<open>The patches of the chosen segments, from line \<open>a\<close> on, and the lines they lead to.\<close>

fun patches_of :: "nat \<Rightarrow> (rstr seg \<times> bool) list \<Rightarrow> (nat \<times> nat \<times> rstr) list" where
  "patches_of a [] = []"
| "patches_of a (((e, d, i), chosen) # sel) =
     (if chosen then [(a + length e, length d, lines_text i)] else []) @ patches_of (a + length e + length d) sel"

fun mixed :: "(rstr seg \<times> bool) list \<Rightarrow> rstr list \<Rightarrow> rstr list" where
  "mixed [] rest = rest"
| "mixed (((e, d, i), chosen) # sel) rest = e @ (if chosen then i else d) @ mixed sel rest"

lemma mixed_set:
  "set (unchanged (map fst sel) rest) \<subseteq> set (mixed sel rest)"
  "set (mixed sel rest) \<subseteq> set (seg_old (map fst sel) rest) \<union> set (seg_new (map fst sel) rest)"
  by (induction sel rest rule: mixed.induct) auto

lemma mixed_plain:
  "plain_lines (seg_old (map fst sel) rest) \<Longrightarrow> plain_lines (seg_new (map fst sel) rest) \<Longrightarrow> plain_lines (mixed sel rest)"
  using mixed_set(2) [of sel rest] unfolding plain_lines_def by blast

lemma run_patches:
  assumes "plain_lines (pre @ seg_old (map fst sel) rest)" "plain_lines (seg_new (map fst sel) rest)"
    "\<exists>l \<in> set (pre @ unchanged (map fst sel) rest). l \<noteq> []"
  shows "foldr patch_step (patches_of (length pre + 1) sel) (lines_text (pre @ seg_old (map fst sel) rest))
     = lines_text (pre @ mixed sel rest)"
  using assms
proof (induction sel arbitrary: pre)
  case (Cons x sel)
  obtain e d i chosen where x: "x = ((e, d, i), chosen)" by (metis surj_pair)
  let ?m = "mixed sel rest"
  have IH: "foldr patch_step (patches_of (length (pre @ e @ d) + 1) sel)
      (lines_text ((pre @ e @ d) @ seg_old (map fst sel) rest)) = lines_text ((pre @ e @ d) @ ?m)"
    using Cons.prems x by (intro Cons.IH) auto
  have m: "plain_lines ?m" using Cons.prems(1,2) x by (intro mixed_plain) auto
  obtain l where l: "l \<in> set (pre @ e @ ?m)" "l \<noteq> []"
    using Cons.prems(3) x mixed_set(1) [of sel rest] by auto
  then have "pre @ e @ i @ ?m \<noteq> [[]]" "pre @ e @ d @ ?m \<noteq> []" by (auto simp: append_eq_Cons_conv)
  then have "patch_lines (lines_text (pre @ e @ d @ ?m)) (length (pre @ e) + 1) (length d) (lines_text i)
      = lines_text (pre @ e @ i @ ?m)"
    using Cons.prems(1,2) x m patch_text [of "pre @ e @ d @ ?m" i "length (pre @ e)" "length d"] by simp
  then show ?case using IH x by (simp add: add_ac)
qed simp

definition swap_seg :: "'a seg \<Rightarrow> 'a seg" where
  "swap_seg s = (case s of (e, d, i) \<Rightarrow> (e, i, d))"

lemma swap_seg_simps [simp]:
  "seg_old (map swap_seg segs) rest = seg_new segs rest" "seg_new (map swap_seg segs) rest = seg_old segs rest"
  "unchanged (map swap_seg segs) rest = unchanged segs rest"
  by (induction segs) (auto simp: swap_seg_def)

lemma mixed_complement:
  assumes "length segs = length bs"
  shows "mixed (zip (map swap_seg segs) (map Not bs)) rest = mixed (zip segs bs) rest"
  using assms by (induction segs bs rule: list_induct2) (auto simp: swap_seg_def)

lemma mixed_all:
  "mixed (zip segs (replicate (length segs) True)) rest = seg_new segs rest"
  "mixed (zip segs (replicate (length segs) False)) rest = seg_old segs rest"
  by (induction segs) auto

text \<open>Lines with and without their line feed.\<close>

definition strip_seg :: "rstr seg \<Rightarrow> rstr seg" where
  "strip_seg s = (case s of (e, d, i) \<Rightarrow> (map butlast e, map butlast d, map butlast i))"

definition fed :: "rstr list \<Rightarrow> bool" where
  "fed ls \<longleftrightarrow> (\<forall>l \<in> set ls. \<exists>m. l = m @ [nl])"

lemma fed_simps [simp]:
  "fed []" "fed (l # ls) \<longleftrightarrow> (\<exists>m. l = m @ [nl]) \<and> fed ls" "fed (ls @ ms) \<longleftrightarrow> fed ls \<and> fed ms"
  "fed (map (\<lambda>l. l @ [nl]) ls)"
  by (auto simp: fed_def)

lemma fed_text: "fed ls \<Longrightarrow> concat ls = lines_text (map butlast ls)"
  by (induction ls) auto

lemma butlast_fed: "map butlast (map (\<lambda>l. l @ [nl]) ls) = ls"
  by (simp add: comp_def)

lemma strip_seg_sides [simp]:
  "seg_old (map strip_seg segs) (map butlast rest) = map butlast (seg_old segs rest)"
  "seg_new (map strip_seg segs) (map butlast rest) = map butlast (seg_new segs rest)"
  "unchanged (map strip_seg segs) (map butlast rest) = map butlast (unchanged segs rest)"
  by (induction segs) (auto simp: strip_seg_def)

definition hunks_of :: "(nat \<Rightarrow> HunkId) \<Rightarrow> path \<Rightarrow> HunkSource \<Rightarrow> nat \<Rightarrow> HunkBuilder list \<Rightarrow> Hunk list" where
  "hunks_of uuid p src j bs = map (\<lambda>(j, b). build_hunk p src (uuid j) b) (enumerate j bs)"

lemma hunks_of_simps [simp]:
  "hunks_of uuid p src j [] = []"
  "hunks_of uuid p src j (b # bs) = build_hunk p src (uuid j) b # hunks_of uuid p src (Suc j) bs"
  by (simp_all add: hunks_of_def)

lemma hunks_of_length [simp]: "length (hunks_of uuid p src j bs) = length bs"
  by (simp add: hunks_of_def)

lemma builders_of_length [simp]: "length (builders_of a b segs) = length segs"
  by (induction a b segs rule: builders_of.induct) auto

lemma accept_patches_of:
  assumes "fed (seg_old segs rest)" "fed (seg_new segs rest)"
  shows "foldr accept_patch (filter P (hunks_of uuid p src j (builders_of a b segs))) t =
     foldr patch_step (patches_of a (zip (map strip_seg segs) (map P (hunks_of uuid p src j (builders_of a b segs))))) t"
  using assms(1,2)
proof (induction a b segs arbitrary: j rule: builders_of.induct)
  case (2 a b e d i segs)
  let ?h = "build_hunk p src (uuid j) \<lparr>b_old_start = a + length e, b_new_start = b + length e, b_old_lines = d, b_new_lines = i\<rparr>"
  have "accept_patch ?h t = patch_step (a + length e, length d, lines_text (map butlast i)) t" for t
    using 2(3) by (simp add: accept_patch_def build_hunk_def fed_text)
  with 2 show ?case by (simp add: strip_seg_def)
qed simp

lemma reject_patches_of:
  assumes "fed (seg_old segs rest)" "fed (seg_new segs rest)"
  shows "foldr reject_patch (filter P (hunks_of uuid p src j (builders_of a b segs))) t =
     foldr patch_step (patches_of b (zip (map swap_seg (map strip_seg segs)) (map P (hunks_of uuid p src j (builders_of a b segs))))) t"
  using assms(1,2)
proof (induction a b segs arbitrary: j rule: builders_of.induct)
  case (2 a b e d i segs)
  let ?h = "build_hunk p src (uuid j) \<lparr>b_old_start = a + length e, b_new_start = b + length e, b_old_lines = d, b_new_lines = i\<rparr>"
  have "reject_patch ?h t = patch_step (b + length e, length i, lines_text (map butlast d)) t" for t
    using 2(2) by (auto simp: reject_patch_def build_hunk_def fed_text)
  with 2 show ?case by (simp add: strip_seg_def swap_seg_def)
qed simp

text \<open>The hunks of a diff are in strictly ascending order on both sides, so sorting them in descending
  order reverses them.\<close>

lemma insort_key_last: "\<forall>x \<in> set xs. f x < f y \<Longrightarrow> insort_key f y xs = xs @ [y]"
  by (induction xs) auto

lemma sort_desc_ascending:
  fixes f :: "'a \<Rightarrow> nat"
  assumes "sorted_wrt (\<lambda>x y. f x < f y) xs"
  shows "sort_desc f xs = rev xs"
proof -
  have "sort_key f (rev xs) = xs"
    using assms by (induction xs rule: rev_induct) (auto simp: sorted_wrt_append insort_key_last)
  then show ?thesis by (simp add: sort_desc_def)
qed

lemma hunks_bound:
  "apart segs \<Longrightarrow> \<forall>h \<in> set (hunks_of uuid p src j (builders_of a b segs)).
     a < old_start (line_info h) \<and> b < new_start (line_info h)"
proof (induction a b segs arbitrary: j rule: builders_of.induct)
  case (2 a b e d i segs)
  then have "0 < length e" "apart segs" by (auto simp: apart_def)
  with 2(1) [OF this(2), of "Suc j"] show ?case by (fastforce simp: build_hunk_def)
qed simp

lemma hunks_ascending:
  assumes "apart (tl segs)"
  shows "sorted_wrt (\<lambda>g h. old_start (line_info g) < old_start (line_info h) \<and> new_start (line_info g) < new_start (line_info h))
     (hunks_of uuid p src j (builders_of a b segs))"
  using assms
proof (induction a b segs arbitrary: j rule: builders_of.induct)
  case (2 a b e d i segs)
  have "apart (tl segs)" using 2(2) by (cases segs) (auto simp: apart_def)
  moreover have "\<forall>h \<in> set (hunks_of uuid p src (Suc j) (builders_of (a + length e + length d) (b + length e + length i) segs)).
      a + length e < old_start (line_info h) \<and> b + length e < new_start (line_info h)"
    using hunks_bound [of segs uuid p src "Suc j" "a + length e + length d" "b + length e + length i"] 2(2) by fastforce
  ultimately show ?case using 2(1) by (auto simp: build_hunk_def)
qed simp

lemma accept_patches_foldr:
  assumes "apart (tl segs)"
  shows "accept_patches (filter P (hunks_of uuid p src j (builders_of a b segs))) t =
    foldr accept_patch (filter P (hunks_of uuid p src j (builders_of a b segs))) t"
    "reject_patches (filter P (hunks_of uuid p src j (builders_of a b segs))) t =
    foldr reject_patch (filter P (hunks_of uuid p src j (builders_of a b segs))) t"
proof -
  let ?hs = "filter P (hunks_of uuid p src j (builders_of a b segs))"
  have "sorted_wrt (\<lambda>g h. old_start (line_info g) < old_start (line_info h) \<and> new_start (line_info g) < new_start (line_info h)) ?hs"
    using hunks_ascending [OF assms] by (rule sorted_wrt_filter)
  then have "sorted_wrt (\<lambda>g h. old_start (line_info g) < old_start (line_info h)) ?hs"
    "sorted_wrt (\<lambda>g h. new_start (line_info g) < new_start (line_info h)) ?hs"
    by (auto elim: sorted_wrt_mono_rel [rotated])
  then show "accept_patches ?hs t = foldr accept_patch ?hs t" "reject_patches ?hs t = foldr reject_patch ?hs t"
    by (simp_all add: accept_patches_def reject_patches_def sort_desc_ascending foldr_conv_fold)
qed

lemma hunks_gaps:
  assumes "apart (tl segs)"
  shows "sorted_wrt (\<lambda>g h. old_start (line_info g) + old_count (line_info g) < old_start (line_info h) \<and>
                       new_start (line_info g) + new_count (line_info g) < new_start (line_info h))
     (hunks_of uuid p src j (builders_of a b segs))"
  using assms
proof (induction a b segs arbitrary: j rule: builders_of.induct)
  case (2 a b e d i segs)
  have "apart (tl segs)" using 2(2) by (cases segs) (auto simp: apart_def)
  moreover have "\<forall>h \<in> set (hunks_of uuid p src (Suc j) (builders_of (a + length e + length d) (b + length e + length i) segs)).
      a + length e + length d < old_start (line_info h) \<and> b + length e + length i < new_start (line_info h)"
    using hunks_bound [of segs uuid p src "Suc j" "a + length e + length d" "b + length e + length i"] 2(2) by simp
  ultimately show ?case using 2(1) by (auto simp: build_hunk_def)
qed simp

lemma hunks_slices:
  assumes "plain_lines ls" "plain_lines ms" "map (\<lambda>l. l @ [nl]) ls = pre @ seg_old segs rest"
    "map (\<lambda>l. l @ [nl]) ms = pre' @ seg_new segs rest"
  shows "\<forall>h \<in> set (hunks_of uuid p src j (builders_of (length pre + 1) (length pre' + 1) segs)).
     text_lines (old_text h) = take (old_count (line_info h)) (drop (old_start (line_info h) - 1) ls) \<and>
     str_lines (new_text h) = take (new_count (line_info h)) (drop (new_start (line_info h) - 1) ms)"
  using assms(3,4)
proof (induction segs arbitrary: pre pre' j)
  case (Cons s segs)
  obtain e d i where s: "s = (e, d, i)" by (cases s)
  have slice: "x = map (\<lambda>l. l @ [nl]) (take (length x) (drop n ks))" "concat x = lines_text (take (length x) (drop n ks))"
    if "map (\<lambda>l. l @ [nl]) ks = y @ x @ z" "n = length y" for x y z n and ks :: "rstr list"
    using arg_cong [OF that(1), of "\<lambda>xs. take (length x) (drop n xs)"] that(2)
    by (simp_all add: drop_map take_map lines_text_def)
  have "plain_lines (take n (drop m ks))" if "plain_lines ks" for n m ks
    using that by (auto simp: plain_lines_def dest!: in_set_takeD in_set_dropD)
  then have str: "str_lines (lines_text (take n (drop m ls))) = take n (drop m ls)"
    "str_lines (lines_text (take n (drop m ms))) = take n (drop m ms)" for n m
    using assms(1,2) str_lines_text by blast+
  have "concat d = lines_text (take (length d) (drop (length pre + length e) ls))"
    "concat i = lines_text (take (length i) (drop (length pre' + length e) ms))"
    using slice(2) [of ls "pre @ e" d] slice(2) [of ms "pre' @ e" i] Cons.prems s by simp_all
  moreover have "\<forall>h \<in> set (hunks_of uuid p src (Suc j) (builders_of (length (pre @ e @ d) + 1) (length (pre' @ e @ i) + 1) segs)).
      text_lines (old_text h) = take (old_count (line_info h)) (drop (old_start (line_info h) - 1) ls) \<and>
      str_lines (new_text h) = take (new_count (line_info h)) (drop (new_start (line_info h) - 1) ms)"
    using Cons.prems s by (intro Cons.IH) auto
  ultimately show ?case by (simp add: s build_hunk_def text_lines_def str add_ac)
qed simp

section \<open>Accepting and rejecting\<close>

text \<open>The contract of the differ on texts of complete lines without carriage returns.\<close>

definition spells_lines :: "Differ \<Rightarrow> bool" where
  "spells_lines diff \<longleftrightarrow>
     (\<forall>ls ms cs. plain_lines ls \<and> plain_lines ms \<and> diff (lines_text ls) (lines_text ms) = Some cs \<longrightarrow>
        old_side cs = map (\<lambda>l. l @ [nl]) ls \<and> new_side cs = map (\<lambda>l. l @ [nl]) ms)"

lemma enumerate_shift: "map (\<lambda>(j, b). F (k + j) b) (enumerate n bs) = map (\<lambda>(j, b). F j b) (enumerate (k + n) bs)"
  by (induction bs arbitrary: n) (simp_all flip: add_Suc_right)

lemma computed_segments:
  assumes "spells_lines diff" "plain_lines ls" "plain_lines ms" "diff (lines_text ls) (lines_text ms) = Some cs" "ls \<noteq> ms"
    "len_bytes (lines_text ls) \<le> MAX_DIFF_FILE_SIZE" "len_bytes (lines_text ms) \<le> MAX_DIFF_FILE_SIZE"
  obtains segs rest where
    "compute_hunks diff uuid k p (lines_text ls) (lines_text ms) src = hunks_of uuid p src k (builders_of 1 1 segs)"
    "seg_old segs rest = map (\<lambda>l. l @ [nl]) ls" "seg_new segs rest = map (\<lambda>l. l @ [nl]) ms"
    "unchanged segs rest = equal_side cs" "apart (tl segs)" "seg_ok segs"
proof -
  obtain segs rest where S: "hunk_loop cs 1 1 None = builders_of 1 1 segs" "segmented cs segs rest [] []" "apart (tl segs)"
    using hunk_loop_segments by blast
  have "lines_text ls \<noteq> lines_text ms" using assms(2,3,5) text_inject by blast
  then have "compute_hunks diff uuid k p (lines_text ls) (lines_text ms) src = hunks_of uuid p src k (builders_of 1 1 segs)"
    using assms(4,6,7) S(1) enumerate_shift [of "\<lambda>j b. build_hunk p src (uuid j) b" k 0]
    by (simp add: compute_hunks_def hunks_of_def)
  moreover have "old_side cs = map (\<lambda>l. l @ [nl]) ls" "new_side cs = map (\<lambda>l. l @ [nl]) ms"
    using assms(1-4) by (auto simp: spells_lines_def)
  ultimately show ?thesis using that S(2,3) by (auto simp: segmented_def)
qed

lemma selection_patched:
  assumes "seg_old segs rest = map (\<lambda>l. l @ [nl]) ls" "seg_new segs rest = map (\<lambda>l. l @ [nl]) ms"
    "apart (tl segs)" "plain_lines ls" "plain_lines ms" "\<exists>l. l \<noteq> [] \<and> l @ [nl] \<in> set (unchanged segs rest)"
    and hs_def: "hs = hunks_of uuid p src k (builders_of 1 1 segs)"
  shows "accept_patches (filter P hs) (lines_text ls)
        = lines_text (mixed (zip (map strip_seg segs) (map P hs)) (map butlast rest))"
    "reject_patches (filter P hs) (lines_text ms)
        = lines_text (mixed (zip (map swap_seg (map strip_seg segs)) (map P hs)) (map butlast rest))"
proof -
  let ?segs = "map strip_seg segs" and ?rest = "map butlast rest"
  have len: "length hs = length segs" by (simp add: hs_def)
  have fed: "fed (seg_old segs rest)" "fed (seg_new segs rest)" by (simp_all add: assms(1,2))
  have sides: "seg_old ?segs ?rest = ls" "seg_new ?segs ?rest = ms"
    by (simp_all add: assms(1,2) comp_def)
  obtain l where "l \<noteq> []" "l @ [nl] \<in> set (unchanged segs rest)" using assms(6) by blast
  then have some: "\<exists>l \<in> set ([] @ unchanged ?segs ?rest). l \<noteq> []" by (force intro: rev_image_eqI)
  have zip: "map fst (zip ?segs (map P hs)) = ?segs" "map fst (zip (map swap_seg ?segs) (map P hs)) = map swap_seg ?segs"
    using len by simp_all
  show "accept_patches (filter P hs) (lines_text ls) = lines_text (mixed (zip ?segs (map P hs)) ?rest)"
    using run_patches [of "[]" "zip ?segs (map P hs)" ?rest] accept_patches_foldr(1) [OF assms(3)]
      accept_patches_of [OF fed] sides assms(4,5) some zip unfolding hs_def by simp
  show "reject_patches (filter P hs) (lines_text ms) = lines_text (mixed (zip (map swap_seg ?segs) (map P hs)) ?rest)"
    using run_patches [of "[]" "zip (map swap_seg ?segs) (map P hs)" ?rest] accept_patches_foldr(2) [OF assms(3)]
      reject_patches_of [OF fed] sides assms(4,5) some zip unfolding hs_def by (simp del: map_map)
qed

lemma patches_complement:
  assumes "spells_lines diff" "plain_lines ls" "plain_lines ms" "diff (lines_text ls) (lines_text ms) = Some cs"
    "len_bytes (lines_text ls) \<le> MAX_DIFF_FILE_SIZE" "len_bytes (lines_text ms) \<le> MAX_DIFF_FILE_SIZE"
    "\<exists>l. l \<noteq> [] \<and> (Equal, l @ [nl]) \<in> set cs"
    "hs = compute_hunks diff uuid k p (lines_text ls) (lines_text ms) src"
  shows "accept_patches (filter P hs) (lines_text ls) = reject_patches (filter (\<lambda>h. \<not> P h) hs) (lines_text ms)
     \<and> accept_patches hs (lines_text ls) = lines_text ms \<and> reject_patches hs (lines_text ms) = lines_text ls"
proof (cases "ls = ms")
  case True
  then have "hs = []" using assms(8) by (simp add: compute_hunks_def)
  with True show ?thesis by (simp add: accept_patches_def reject_patches_def sort_desc_def)
next
  case False
  obtain segs rest where S: "hs = hunks_of uuid p src k (builders_of 1 1 segs)"
    "seg_old segs rest = map (\<lambda>l. l @ [nl]) ls" "seg_new segs rest = map (\<lambda>l. l @ [nl]) ms"
    "unchanged segs rest = equal_side cs" "apart (tl segs)"
    using computed_segments [OF assms(1-4) False assms(5,6), of uuid k p src] unfolding assms(8) by blast
  have common: "\<exists>l. l \<noteq> [] \<and> l @ [nl] \<in> set (unchanged segs rest)"
  proof -
    obtain l where l: "l \<noteq> []" "(Equal, l @ [nl]) \<in> set cs" using assms(7) by blast
    then have "l @ [nl] \<in> set (equal_side cs)" by (auto simp: equal_side_def intro: rev_image_eqI)
    with l(1) S(4) show ?thesis by auto
  qed
  let ?segs = "map strip_seg segs" and ?rest = "map butlast rest"
  note sel = selection_patched [OF S(2,3,5) assms(2,3) common S(1)]
  have len: "length ?segs = length (map Q hs)" for Q :: "Hunk \<Rightarrow> bool" by (simp add: S(1))
  have "map (\<lambda>h. \<not> P h) hs = map Not (map P hs)" by simp
  then have "accept_patches (filter P hs) (lines_text ls) = reject_patches (filter (\<lambda>h. \<not> P h) hs) (lines_text ms)"
    using mixed_complement [OF len [of P], of ?rest] unfolding sel by (simp only:)
  moreover have all: "filter (\<lambda>h. True) hs = hs" "map (\<lambda>h. True) hs = replicate (length ?segs) True"
    "length (map swap_seg ?segs) = length ?segs"
    using len [of "\<lambda>h. True"] by (simp_all add: map_replicate_const)
  moreover have "accept_patches hs (lines_text ls) = lines_text (seg_new ?segs ?rest)"
    using sel(1) [of "\<lambda>h. True"] mixed_all(1) [of ?segs ?rest] all by (simp only:)
  moreover have "reject_patches hs (lines_text ms) = lines_text (seg_new (map swap_seg ?segs) ?rest)"
    using sel(2) [of "\<lambda>h. True"] mixed_all(1) [of "map swap_seg ?segs" ?rest] all by (simp only:)
  moreover have "seg_new ?segs ?rest = ms" "seg_new (map swap_seg ?segs) ?rest = ls"
    using S(2,3) by (simp_all add: butlast_fed del: map_map)
  ultimately show ?thesis by blast
qed


text \<open>A concrete differ: the common first lines are equal, the rest is deleted and inserted.\<close>

fun prefix_changes :: "rstr list \<Rightarrow> rstr list \<Rightarrow> Change list" where
  "prefix_changes (l # ls) (m # ms) =
     (if l = m then (Equal, l @ [nl]) # prefix_changes ls ms
      else map (\<lambda>l. (Delete, l @ [nl])) (l # ls) @ map (\<lambda>m. (Insert, m @ [nl])) (m # ms))"
| "prefix_changes ls ms = map (\<lambda>l. (Delete, l @ [nl])) ls @ map (\<lambda>m. (Insert, m @ [nl])) ms"

definition prefix_diff :: Differ where
  "prefix_diff a b = Some (prefix_changes (str_lines a) (str_lines b))"

lemma side_maps [simp]:
  "old_side (map (\<lambda>l. (Delete, f l)) ls) = map f ls" "new_side (map (\<lambda>l. (Delete, f l)) ls) = []"
  "old_side (map (\<lambda>m. (Insert, g m)) ms) = []" "new_side (map (\<lambda>m. (Insert, g m)) ms) = map g ms"
  by (simp_all add: old_side_def new_side_def comp_def filter_map)

lemma side_appends [simp]:
  "old_side (map (\<lambda>l. (Delete, f l)) ls @ map (\<lambda>m. (Insert, g m)) ms) = map f ls"
  "new_side (map (\<lambda>l. (Delete, f l)) ls @ map (\<lambda>m. (Insert, g m)) ms) = map g ms"
  by (simp_all add: old_side_def new_side_def comp_def filter_map)

lemma prefix_changes_sides:
  "old_side (prefix_changes ls ms) = map (\<lambda>l. l @ [nl]) ls \<and> new_side (prefix_changes ls ms) = map (\<lambda>l. l @ [nl]) ms"
proof (induction ls ms rule: prefix_changes.induct)
  case (1 l ls m ms)
  show ?case
  proof (cases "l = m")
    case True
    then show ?thesis using 1 by (simp add: old_side_def new_side_def)
  next
    case False
    then show ?thesis by (simp del: list.map append_Cons map_append)
  qed
qed simp_all

lemma prefix_diff_spells: "spells_lines prefix_diff"
  by (auto simp: spells_lines_def prefix_diff_def str_lines_text prefix_changes_sides)


lemma computed_lines:
  assumes "spells_lines diff" "plain_lines ls" "plain_lines ms"
    "hs = compute_hunks diff uuid k p (lines_text ls) (lines_text ms) src"
  shows "(\<forall>h \<in> set hs.
        text_lines (old_text h) = take (old_count (line_info h)) (drop (old_start (line_info h) - 1) ls) \<and>
        str_lines (new_text h) = take (new_count (line_info h)) (drop (new_start (line_info h) - 1) ms)) \<and>
     sorted_wrt (\<lambda>g h. old_start (line_info g) + old_count (line_info g) < old_start (line_info h) \<and>
                       new_start (line_info g) + new_count (line_info g) < new_start (line_info h)) hs"
proof (cases "hs = []")
  case False
  obtain cs where c: "diff (lines_text ls) (lines_text ms) = Some cs" "ls \<noteq> ms"
    "len_bytes (lines_text ls) \<le> MAX_DIFF_FILE_SIZE" "len_bytes (lines_text ms) \<le> MAX_DIFF_FILE_SIZE"
    using False assms(4) by (auto simp: compute_hunks_def split: if_splits option.splits)
  obtain segs rest where S: "hs = hunks_of uuid p src k (builders_of 1 1 segs)"
    "seg_old segs rest = map (\<lambda>l. l @ [nl]) ls" "seg_new segs rest = map (\<lambda>l. l @ [nl]) ms" "apart (tl segs)"
    using computed_segments [OF assms(1-3) c, of uuid k p src] unfolding assms(4) by blast
  have "\<forall>h \<in> set hs. text_lines (old_text h) = take (old_count (line_info h)) (drop (old_start (line_info h) - 1) ls) \<and>
        str_lines (new_text h) = take (new_count (line_info h)) (drop (new_start (line_info h) - 1) ms)"
    using hunks_slices [where pre = "[]" and pre' = "[]", OF assms(2,3), of segs rest uuid p src k] S(1-3) by simp
  moreover have "sorted_wrt (\<lambda>g h. old_start (line_info g) + old_count (line_info g) < old_start (line_info h) \<and>
                       new_start (line_info g) + new_count (line_info g) < new_start (line_info h)) hs"
    unfolding S(1) by (rule hunks_gaps [OF S(4)])
  ultimately show ?thesis by blast
qed simp

text \<open>The hunks of a diff are exact: each hunk's old and new text are the lines it names in the old and
  the new file, and of two hunks the earlier one ends before the later one begins, on both sides.\<close>

theorem hunks_name_their_lines:
  assumes "spells_lines diff" "plain_lines ls" "plain_lines ms"
    "hs = compute_hunks diff uuid k p (lines_text ls) (lines_text ms) src"
  shows "(\<forall>h \<in> set hs.
        text_lines (old_text h) = take (old_count (line_info h)) (drop (old_start (line_info h) - 1) ls) \<and>
        str_lines (new_text h) = take (new_count (line_info h)) (drop (new_start (line_info h) - 1) ms)) \<and>
     sorted_wrt (\<lambda>g h. old_start (line_info g) + old_count (line_info g) < old_start (line_info h) \<and>
                       new_start (line_info g) + new_count (line_info g) < new_start (line_info h)) hs"
  using computed_lines [OF assms] .

theorem hunks_name_their_lines_witness:
  "\<forall>h \<in> set (compute_hunks prefix_diff (\<lambda>n. [n]) 0 (lit ''f'') (lines_text [[97], [98]]) (lines_text [[97], [99]]) External).
     text_lines (old_text h) = take (old_count (line_info h)) (drop (old_start (line_info h) - 1) [[97], [98]])"
  using hunks_name_their_lines [OF prefix_diff_spells _ _ refl, of "[[97], [98]]" "[[97], [99]]" "\<lambda>n. [n]" 0 "lit ''f''" External]
  by (simp del: text_simps)

section \<open>Where patching falls short\<close>

text \<open>Lines are split with their carriage returns removed and joined with line feeds, so every patch of a
  file with CRLF line ends rewrites all of them, also the lines it does not touch.\<close>

definition crlf_text :: "rstr list \<Rightarrow> rstr" where
  "crlf_text ls = concat (map (\<lambda>l. l @ [13, nl]) ls)"

lemma str_lines_crlf: "plain_lines ls \<Longrightarrow> str_lines (crlf_text ls) = ls"
proof -
  assume p: "plain_lines ls"
  have "crlf_text ls = lines_text (map (\<lambda>l. l @ [13]) ls)" by (simp add: crlf_text_def lines_text_def comp_def)
  also have "\<dots> = join [nl] (map (\<lambda>l. l @ [13]) ls @ [[]])" by (rule text_join)
  finally have "split_on nl (crlf_text ls) = map (\<lambda>l. l @ [13]) ls @ [[]]"
    using p by (simp only:) (intro split_on_join; auto simp: plain_lines_def)
  moreover have "map strip_cr (map (\<lambda>l. l @ [13]) ls) = ls" by (simp add: strip_cr_def comp_def)
  ultimately show ?thesis by (simp add: str_lines_def)
qed

theorem patch_rewrites_crlf:
  assumes "plain_lines ls" "ls \<noteq> []" "ls \<noteq> [[]]"
  shows "patch_lines (crlf_text ls) 1 0 [] = lines_text ls"
proof -
  have "crlf_text ls = (crlf_text (butlast ls) @ last ls @ [13]) @ [nl]"
    using assms(2) by (cases ls rule: rev_cases) (simp_all add: crlf_text_def)
  then have "ends_with [nl] (crlf_text ls)" by (simp add: ends_with_def)
  then show ?thesis
    using assms join_text [of ls] by (simp add: patch_lines_def str_lines_crlf Let_def join_empty)
qed

text \<open>A hunk that adds the missing line feed at the end of a file has no effect when it is accepted, so it
  stays pending for ever: the patched text ends with a line feed only if the text before it did.\<close>

theorem final_newline_never_accepted:
  assumes "plain_lines (ls @ [l])" "l \<noteq> []"
  shows "patch_lines (lines_text ls @ l) (length ls + 1) 1 (l @ [nl]) = lines_text ls @ l"
proof -
  have join: "lines_text ls @ l = join [nl] (ls @ [l])"
  proof (induction ls)
    case (Cons x xs)
    then show ?case by (cases xs) simp_all
  qed simp
  have "split_on nl (lines_text ls @ l) = ls @ [l]"
    unfolding join using assms(1) by (intro split_on_join) (auto simp: plain_lines_def)
  moreover have "map strip_cr ls = ls"
    using assms(1) by (intro map_idI) (auto simp: plain_lines_def strip_cr_def dest: last_in_set)
  ultimately have "str_lines (lines_text ls @ l) = ls @ [l]" using assms(2) by (simp add: str_lines_def)
  moreover have "str_lines (l @ [nl]) = [l]" using str_lines_text [of "[l]"] assms(1) by simp
  moreover have "\<not> ends_with [nl] (lines_text ls @ l)"
    using assms by (cases l rule: rev_cases) (auto simp: ends_with_def)
  ultimately show ?thesis by (simp add: patch_lines_def Let_def join)
qed

end
