(* ===== verification/Utf8.thy ===== *)
theory Utf8
  imports Prelude
begin

text \<open>
  UTF-8 as Rust strings use it: the encoder, a decoder that refuses overlong forms and surrogates, as
  \<open>String::from_utf8\<close> does, and the character boundaries of a text. Where a source works with byte
  positions, a text is the list of its bytes: \<open>str_slice\<close>, \<open>str_insert\<close> and \<open>str_replace\<close> are the
  \<open>str\<close> index, \<open>String::insert_str\<close> and \<open>String::replace_range\<close>, and \<open>None\<close> where these panic because a
  position is not a boundary.
\<close>

section \<open>UTF-8\<close>

type_synonym bytes = "nat list"

definition encode_char :: "rchar \<Rightarrow> bytes" where
  "encode_char c =
     (if c < 128 then [c]
      else if c < 2048 then [192 + c div 64, 128 + c mod 64]
      else if c < 65536 then [224 + c div 4096, 128 + c div 64 mod 64, 128 + c mod 64]
      else [240 + c div 262144, 128 + c div 4096 mod 64, 128 + c div 64 mod 64, 128 + c mod 64])"

definition utf8 :: "rstr \<Rightarrow> bytes" where
  "utf8 s = concat (map encode_char s)"

definition valid_char :: "rchar \<Rightarrow> bool" where
  "valid_char c \<longleftrightarrow> c < 55296 \<or> (57344 \<le> c \<and> c < 1114112)"

definition cont :: "nat \<Rightarrow> bool" where
  "cont b \<longleftrightarrow> 128 \<le> b \<and> b < 192"

definition decode_char :: "bytes \<Rightarrow> (rchar \<times> bytes) option" where
  "decode_char bs =
     (case bs of
        [] \<Rightarrow> None
      | b # r \<Rightarrow>
          if b < 128 then Some (b, r)
          else if b < 192 then None
          else if b < 224 then
            (case r of
               c # r' \<Rightarrow> (let v = (b - 192) * 64 + (c - 128) in if cont c \<and> 128 \<le> v then Some (v, r') else None)
             | _ \<Rightarrow> None)
          else if b < 240 then
            (case r of
               c # d # r' \<Rightarrow>
                 (let v = (b - 224) * 4096 + (c - 128) * 64 + (d - 128)
                  in if cont c \<and> cont d \<and> 2048 \<le> v \<and> valid_char v then Some (v, r') else None)
             | _ \<Rightarrow> None)
          else if b < 248 then
            (case r of
               c # d # e # r' \<Rightarrow>
                 (let v = (b - 240) * 262144 + (c - 128) * 4096 + (d - 128) * 64 + (e - 128)
                  in if cont c \<and> cont d \<and> cont e \<and> 65536 \<le> v \<and> valid_char v then Some (v, r') else None)
             | _ \<Rightarrow> None)
          else None)"

lemma decode_char_shorter: "decode_char bs = Some (c, r) \<Longrightarrow> length r < length bs"
  by (auto simp: decode_char_def Let_def split: list.splits if_splits)

function from_utf8 :: "bytes \<Rightarrow> rstr option" where
  "from_utf8 bs =
     (if bs = [] then Some []
      else case decode_char bs of
             None \<Rightarrow> None
           | Some (c, r) \<Rightarrow> map_option (\<lambda>s. c # s) (from_utf8 r))"
  by auto
termination by (relation "measure length") (auto dest: decode_char_shorter)

declare from_utf8.simps [simp del]

lemma digit: "y < 64 \<Longrightarrow> (x * 64 + y) div 64 = (x :: nat)" "y < 64 \<Longrightarrow> (x * 64 + y) mod 64 = (y :: nat)"
  by simp_all

lemma digits_div: "(n :: nat) div 4096 = n div 64 div 64" "n div 262144 = n div 64 div 64 div 64"
  by (simp_all add: div_mult2_eq [symmetric])

lemma decode_encode: "valid_char c \<Longrightarrow> decode_char (encode_char c @ r) = Some (c, r)"
proof -
  assume v: "valid_char c"
  define x y where "x = c div 64" and "y = c mod 64"
  define x1 x2 where "x1 = x div 64" and "x2 = x mod 64"
  define x3 x4 where "x3 = x1 div 64" and "x4 = x1 mod 64"
  note defs = x_def y_def x1_def x2_def x3_def x4_def
  have parts: "c div 64 = x" "c mod 64 = y" "x div 64 = x1" "x mod 64 = x2" "x1 div 64 = x3" "x1 mod 64 = x4"
    by (simp_all add: defs)
  have less: "y < 64" "x2 < 64" "x4 < 64" by (simp_all add: defs)
  have sums: "x * 64 + y = c" "x1 * 64 + x2 = x" "x3 * 64 + x4 = x1" by (simp_all add: defs)
  have big: "c < 1114112" using v by (auto simp: valid_char_def)
  consider "c < 128" | "128 \<le> c" "c < 2048" | "2048 \<le> c" "c < 65536" | "65536 \<le> c" using big by linarith
  then show ?thesis
  proof cases
    case 2
    moreover have "x < 32" using 2 sums less by linarith
    ultimately show ?thesis using less sums by (simp add: encode_char_def decode_char_def cont_def parts)
  next
    case 3
    moreover have "x1 < 16" "x1 * 4096 + x2 * 64 + y = c" using 3 sums less by linarith+
    ultimately show ?thesis using less v by (simp add: encode_char_def decode_char_def cont_def parts digits_div)
  next
    case 4
    moreover have "x3 < 8" "x3 * 262144 + x4 * 4096 + x2 * 64 + y = c" using big sums less by linarith+
    ultimately show ?thesis using less v by (simp add: encode_char_def decode_char_def cont_def parts digits_div)
  qed (simp add: encode_char_def decode_char_def)
qed

lemma from_base: "(a :: nat) \<le> b \<Longrightarrow> b < a + n \<Longrightarrow> \<exists>x < n. b = a + x"
  by (rule exI [of _ "b - a"]) simp

lemma cont_digit: "cont b \<longleftrightarrow> (\<exists>y < 64. b = 128 + y)"
  using from_base [of 128 b 64] by (auto simp: cont_def)

lemma encode_decode: "decode_char bs = Some (c, r) \<Longrightarrow> bs = encode_char c @ r \<and> valid_char c"
proof -
  assume d: "decode_char bs = Some (c, r)"
  then obtain b rest where bs: "bs = b # rest" by (cases bs) (simp_all add: decode_char_def)
  have "b < 128 \<or> (192 \<le> b \<and> b < 192 + 32) \<or> (224 \<le> b \<and> b < 224 + 16) \<or> (240 \<le> b \<and> b < 240 + 8)"
    using d bs by (auto simp: decode_char_def split: if_splits)
  then have lead: "b < 128 \<or> (\<exists>x < 32. b = 192 + x) \<or> (\<exists>x < 16. b = 224 + x) \<or> (\<exists>x < 8. b = 240 + x)"
    using from_base by meson
  consider "b < 128" | x where "b = 192 + x" "x < 32" | x where "b = 224 + x" "x < 16" | x where "b = 240 + x" "x < 8"
    using lead by blast
  then show ?thesis
  proof cases
    case 1
    then show ?thesis using d bs by (simp add: decode_char_def encode_char_def valid_char_def)
  next
    case 2
    then obtain y where y: "rest = (128 + y) # r" "y < 64" "c = x * 64 + y" "128 \<le> c"
      using d bs by (auto simp: decode_char_def Let_def cont_digit split: list.splits if_splits)
    with 2 have "c < 2048" by linarith
    with bs y 2 show ?thesis by (simp add: encode_char_def valid_char_def digit)
  next
    case 3
    then obtain y z where y: "rest = (128 + y) # (128 + z) # r" "y < 64" "z < 64"
      "c = (x * 64 + y) * 64 + z" "2048 \<le> c" "valid_char c"
      using d bs by (auto simp: decode_char_def Let_def cont_digit algebra_simps split: list.splits if_splits)
    with 3 have "c < 65536" by (simp add: distrib_right)
    moreover have "c div 64 = x * 64 + y" "c mod 64 = z" unfolding y(4) using y(3) by (simp_all only: digit)
    ultimately show ?thesis using bs y(1,2,5,6) 3 by (simp add: encode_char_def digit digits_div)
  next
    case 4
    then obtain y z w where y: "rest = (128 + y) # (128 + z) # (128 + w) # r" "y < 64" "z < 64" "w < 64"
      "c = ((x * 64 + y) * 64 + z) * 64 + w" "65536 \<le> c" "valid_char c"
      using d bs by (auto simp: decode_char_def Let_def cont_digit algebra_simps split: list.splits if_splits)
    have "c div 64 = (x * 64 + y) * 64 + z" "c mod 64 = w" "c div 64 div 64 = x * 64 + y" "c div 64 mod 64 = z"
      unfolding y(5) using y(3,4) by (simp_all only: digit)
    then show ?thesis using bs y(1,2,6,7) 4 by (simp add: encode_char_def digit digits_div)
  qed
qed

lemma from_utf8_utf8: "\<forall>c \<in> set s. valid_char c \<Longrightarrow> from_utf8 (utf8 s) = Some s"
proof (induction s)
  case (Cons c s)
  have "encode_char c @ utf8 s \<noteq> []" by (simp add: encode_char_def)
  with Cons show ?case by (subst from_utf8.simps) (simp add: utf8_def decode_encode)
qed (simp add: utf8_def from_utf8.simps)

lemma utf8_from_utf8: "from_utf8 bs = Some s \<Longrightarrow> utf8 s = bs \<and> (\<forall>c \<in> set s. valid_char c)"
proof (induction bs arbitrary: s rule: from_utf8.induct)
  case (1 bs)
  show ?case
  proof (cases "bs = []")
    case True
    with 1(2) show ?thesis by (simp add: from_utf8.simps utf8_def)
  next
    case False
    then obtain c r t where "decode_char bs = Some (c, r)" "from_utf8 r = Some t" "s = c # t"
      using 1(2) by (subst (asm) from_utf8.simps) (auto split: option.splits)
    with 1(1) [OF False this(1) refl this(2)] show ?thesis
      using encode_decode by (fastforce simp: utf8_def)
  qed
qed

lemma length_utf8: "length (utf8 s) = len_bytes s"
  by (induction s) (auto simp: utf8_def encode_char_def utf8_len_def)

section \<open>Texts as bytes\<close>

definition valid :: "bytes \<Rightarrow> bool" where
  "valid t \<longleftrightarrow> from_utf8 t \<noteq> None"

definition str_chars :: "bytes \<Rightarrow> rstr" where
  "str_chars t = (case from_utf8 t of Some s \<Rightarrow> s | None \<Rightarrow> [])"

definition first_char :: "bytes \<Rightarrow> rchar option" where
  "first_char t = map_option fst (decode_char t)"

definition last_char :: "bytes \<Rightarrow> rchar option" where
  "last_char t = (case rev (str_chars t) of [] \<Rightarrow> None | c # _ \<Rightarrow> Some c)"

definition is_char_boundary :: "bytes \<Rightarrow> nat \<Rightarrow> bool" where
  "is_char_boundary t p \<longleftrightarrow> p = 0 \<or> p = length t \<or> (p < length t \<and> \<not> cont (t ! p))"

definition str_slice :: "nat \<Rightarrow> nat \<Rightarrow> bytes \<Rightarrow> bytes option" where
  "str_slice a b t =
     (if a \<le> b \<and> is_char_boundary t a \<and> is_char_boundary t b then Some (take (b - a) (drop a t)) else None)"

definition str_insert :: "nat \<Rightarrow> bytes \<Rightarrow> bytes \<Rightarrow> bytes option" where
  "str_insert p x t = (if is_char_boundary t p then Some (take p t @ x @ drop p t) else None)"

definition str_replace :: "nat \<Rightarrow> nat \<Rightarrow> bytes \<Rightarrow> bytes \<Rightarrow> bytes option" where
  "str_replace a b x t =
     (if a \<le> b \<and> is_char_boundary t a \<and> is_char_boundary t b then Some (take a t @ x @ drop b t) else None)"

text \<open>The reference: a position cuts a valid text when both parts are valid.\<close>

definition cut :: "bytes \<Rightarrow> nat \<Rightarrow> bool" where
  "cut t p \<longleftrightarrow> p \<le> length t \<and> valid (take p t) \<and> valid (drop p t)"

lemma utf8_simps [simp]: "utf8 [] = []" "utf8 (c # s) = encode_char c @ utf8 s" "utf8 (s @ r) = utf8 s @ utf8 r"
  by (simp_all add: utf8_def)

lemma valid_iff: "valid t \<longleftrightarrow> (\<exists>s. t = utf8 s \<and> (\<forall>c \<in> set s. valid_char c))"
  unfolding valid_def using from_utf8_utf8 utf8_from_utf8 by (metis option.distinct(1) option.exhaust)

lemma valid_utf8: "\<forall>c \<in> set s. valid_char c \<Longrightarrow> valid (utf8 s)"
  by (auto simp: valid_iff)

lemma valid_simps [simp]: "valid []"
  using valid_utf8 [of "[]"] by simp

lemma valid_append: "valid a \<Longrightarrow> valid b \<Longrightarrow> valid (a @ b)"
  unfolding valid_iff by (metis UnE set_append utf8_simps(3))

lemma encode_head: "\<exists>b r. encode_char c = b # r \<and> \<not> cont b \<and> (\<forall>x \<in> set r. cont x)" if "valid_char c"
proof -
  have small: "x mod 64 < 64" for x :: nat by simp
  have "c div 262144 < 8" using that by (auto simp: valid_char_def)
  then show ?thesis using that small by (auto simp: encode_char_def cont_def valid_char_def)
qed

lemma from_utf8_append:
  "\<forall>c \<in> set s. valid_char c \<Longrightarrow> from_utf8 (utf8 s @ t) = map_option (\<lambda>r. s @ r) (from_utf8 t)"
proof (induction s)
  case (Cons c s)
  have "encode_char c \<noteq> []" by (simp add: encode_char_def)
  moreover have "map_option (\<lambda>x. c # s @ x) (from_utf8 t) = map_option ((@) (c # s)) (from_utf8 t)"
    by (cases "from_utf8 t") simp_all
  ultimately show ?case using Cons
    by (subst from_utf8.simps) (simp add: decode_encode option.map_comp comp_def)
qed (cases "from_utf8 t"; simp)

lemma valid_cancel: "valid (a @ b) \<Longrightarrow> valid a \<Longrightarrow> valid b"
  unfolding valid_iff [of a] by (auto simp: valid_def from_utf8_append)

lemma boundary_split:
  assumes "\<forall>c \<in> set s. valid_char c" "is_char_boundary (utf8 s) p"
  shows "\<exists>a b. s = a @ b \<and> p = length (utf8 a)"
  using assms
proof (induction s arbitrary: p)
  case (Cons c s)
  obtain b r where c: "encode_char c = b # r" "\<forall>x \<in> set r. cont x"
    using encode_head [of c] Cons.prems(1) by (metis list.set_intros(1))
  show ?case
  proof (cases "p < length (encode_char c)")
    case True
    have "p = 0"
    proof (rule ccontr)
      assume "p \<noteq> 0"
      then have "\<not> cont ((encode_char c @ utf8 s) ! p)"
        using Cons.prems(2) True by (auto simp: is_char_boundary_def)
      moreover have "cont ((encode_char c @ utf8 s) ! p)"
        using \<open>p \<noteq> 0\<close> True c by (cases p) (auto simp: nth_append)
      ultimately show False by blast
    qed
    then show ?thesis by (intro exI [of _ "[]"] exI [of _ "c # s"]) simp
  next
    case False
    then obtain q where q: "p = length (encode_char c) + q" by (metis le_Suc_ex not_le)
    have "is_char_boundary (utf8 s) q"
      using Cons.prems(2) by (auto simp: is_char_boundary_def q nth_append)
    moreover have "\<forall>x \<in> set s. valid_char x" using Cons.prems(1) by simp
    ultimately obtain x y where "s = x @ y" "q = length (utf8 x)" using Cons.IH by blast
    then show ?thesis using q by (intro exI [of _ "c # x"] exI [of _ y]) simp
  qed
qed (auto simp: is_char_boundary_def)

lemma cut_split:
  assumes "\<forall>c \<in> set s. valid_char c"
  shows "cut (utf8 s) p \<longleftrightarrow> (\<exists>a b. s = a @ b \<and> p = length (utf8 a))"
proof
  assume "cut (utf8 s) p"
  then obtain a where "take p (utf8 s) = utf8 a" "\<forall>c \<in> set a. valid_char c" "p \<le> length (utf8 s)"
    by (auto simp: cut_def valid_iff)
  moreover obtain b where "drop p (utf8 s) = utf8 b" "\<forall>c \<in> set b. valid_char c"
    using \<open>cut (utf8 s) p\<close> by (auto simp: cut_def valid_iff)
  moreover have "utf8 s = utf8 (a @ b)" using append_take_drop_id [of p "utf8 s"] calculation(1,4) by simp
  moreover have "length (utf8 a) = p" using calculation(1,3) by (metis length_take min.absorb2)
  ultimately have "s = a @ b \<and> p = length (utf8 a)"
    using from_utf8_utf8 [OF assms] from_utf8_utf8 [of "a @ b"] by auto
  then show "\<exists>a b. s = a @ b \<and> p = length (utf8 a)" by blast
next
  assume "\<exists>a b. s = a @ b \<and> p = length (utf8 a)"
  then show "cut (utf8 s) p" using assms by (auto simp: cut_def valid_utf8)
qed

lemma boundary_cut: "valid t \<Longrightarrow> is_char_boundary t p \<longleftrightarrow> cut t p"
proof -
  assume "valid t"
  then obtain s where s: "t = utf8 s" "\<forall>c \<in> set s. valid_char c" by (auto simp: valid_iff)
  have "is_char_boundary (utf8 (a @ b)) (length (utf8 a))" if "\<forall>c \<in> set b. valid_char c" for a b
  proof (cases b)
    case (Cons c r)
    have "valid_char c" using that Cons by simp
    then obtain x y where "encode_char c = x # y" "\<not> cont x" using encode_head [of c] by blast
    then show ?thesis using Cons by (simp add: is_char_boundary_def nth_append)
  qed (simp add: is_char_boundary_def)
  then have "is_char_boundary t p" if "s = a @ b" "p = length (utf8 a)" for a b
    using that s by simp
  then show ?thesis using boundary_split [OF s(2)] cut_split [OF s(2)] s(1) by blast
qed

lemma cut_ends [simp]: "valid t \<Longrightarrow> cut t 0" "valid t \<Longrightarrow> cut t (length t)"
  by (simp_all add: cut_def)

lemma cut_le: "cut t p \<Longrightarrow> p \<le> length t" by (simp add: cut_def)

lemma cut_valid: "cut t p \<Longrightarrow> valid t"
  unfolding cut_def using valid_append [of "take p t" "drop p t"] by simp

lemma valid_between:
  assumes "cut t a" "cut t b" "a \<le> b"
  shows "valid (take (b - a) (drop a t))"
proof (rule valid_cancel)
  have "take a t @ take (b - a) (drop a t) = take b t"
    using assms(3) by (simp flip: take_add)
  then show "valid (take a t @ take (b - a) (drop a t))" "valid (take a t)" using assms by (simp_all add: cut_def)
qed

end
