(* ===== verification/Hunk_Content.thy ===== *)
theory Hunk_Content
  imports Hunk_Diff Utf8
begin

text \<open>
  File contents of the hunk tracker: \<open>xai-hunk-tracker/src/actor/state.rs\<close> and \<open>file_utils.rs\<close>, and the
  content views of \<open>types.rs\<close>. A file on disk is a list of bytes; the tracker keeps its text when it is
  short, valid UTF-8, not binary by git's test and not a pointer of the large file storage. A read
  returns all bytes that were asked for.

  The lemmas show that the three classifiers agree and that a text that is kept spells the bytes.
\<close>

section \<open>Content states\<close>

definition MAX_TRACKED_TEXT_BYTES :: nat where "MAX_TRACKED_TEXT_BYTES = 1024 * 1024"

datatype FileContentState =
    Missing
  | Binary "nat option"
  | TooLarge nat
  | LfsPointer nat
  | Symlink
  | Full rstr

fun as_str :: "FileContentState \<Rightarrow> rstr option" where
  "as_str (Full s) = Some s"
| "as_str _ = None"

fun is_diffable :: "FileContentState \<Rightarrow> bool" where
  "is_diffable (Full _) = True"
| "is_diffable _ = False"

fun byte_len :: "FileContentState \<Rightarrow> nat option" where
  "byte_len Missing = Some 0"
| "byte_len (Binary n) = n"
| "byte_len (TooLarge n) = Some n"
| "byte_len (LfsPointer n) = Some n"
| "byte_len Symlink = None"
| "byte_len (Full s) = Some (len_bytes s)"

definition LFS_POINTER_PREFIX :: bytes where
  "LFS_POINTER_PREFIX = lit ''version https://git-lfs.github.com/spec/v1'' @ [10]"

definition is_lfs_pointer :: "bytes \<Rightarrow> bool" where
  "is_lfs_pointer bs \<longleftrightarrow> length bs < 1024 \<and> starts_with LFS_POINTER_PREFIX bs"

definition is_binary :: "bytes \<Rightarrow> bool" where
  "is_binary bs \<longleftrightarrow> 0 \<in> set (take (min (length bs) 8000) bs)"

definition classify_bytes :: "bytes \<Rightarrow> FileContentState" where
  "classify_bytes bs =
     (if MAX_TRACKED_TEXT_BYTES < length bs then TooLarge (length bs)
      else if is_lfs_pointer bs then LfsPointer (length bs)
      else if is_binary bs then Binary (Some (length bs))
      else case from_utf8 bs of Some s \<Rightarrow> Full s | None \<Rightarrow> Binary (Some (length bs)))"

definition classify_string :: "rstr \<Rightarrow> FileContentState" where
  "classify_string s =
     (if MAX_TRACKED_TEXT_BYTES < len_bytes s then TooLarge (len_bytes s)
      else if is_lfs_pointer (utf8 s) then LfsPointer (len_bytes s)
      else if is_binary (utf8 s) then Binary (Some (len_bytes s))
      else Full s)"

text \<open>What a path names on disk: a symbolic link (whether its target exists and is a directory), a
  directory with its size, or a file that may be unreadable.\<close>

datatype Node = LinkNode bool bool | DirNode nat | FileNode bool bytes

type_synonym Disk = "path \<Rightarrow> Node option"

fun node_exists :: "Node option \<Rightarrow> bool" where
  "node_exists None = False"
| "node_exists (Some (LinkNode e d)) = e"
| "node_exists _ = True"

fun node_is_dir :: "Node option \<Rightarrow> bool" where
  "node_is_dir (Some (LinkNode e d)) = (e \<and> d)"
| "node_is_dir (Some (DirNode n)) = True"
| "node_is_dir _ = False"

definition read_file_bounded :: "Disk \<Rightarrow> path \<Rightarrow> FileContentState" where
  "read_file_bounded disk p =
     (case disk p of
        None \<Rightarrow> Missing
      | Some (LinkNode e d) \<Rightarrow> Symlink
      | Some (DirNode n) \<Rightarrow> if MAX_TRACKED_TEXT_BYTES < n then TooLarge n else Missing
      | Some (FileNode readable bs) \<Rightarrow>
          if MAX_TRACKED_TEXT_BYTES < length bs then TooLarge (length bs)
          else if \<not> readable then Missing
          else let prefix_size = min 8000 (length bs); prefix_buf = take prefix_size bs
               in if is_lfs_pointer prefix_buf then LfsPointer (length bs)
                  else if is_binary prefix_buf then Binary (Some (length bs))
                  else let full_buf = prefix_buf @ (if prefix_size < length bs then drop prefix_size bs else [])
                       in case from_utf8 full_buf of Some s \<Rightarrow> Full s | None \<Rightarrow> Binary (Some (length bs)))"

section \<open>Views\<close>

datatype FileContentStatus = StMissing | StBinary | StTooLarge | StLfsPointer | StSymlink | StFull

record FileContentView =
  status :: FileContentStatus
  view_byte_len :: "nat option"
  view_content :: "rstr option"

definition mk_view :: "FileContentStatus \<Rightarrow> nat option \<Rightarrow> rstr option \<Rightarrow> FileContentView" where
  "mk_view st n c = \<lparr>status = st, view_byte_len = n, view_content = c\<rparr>"

fun from_content_state :: "FileContentState \<Rightarrow> FileContentView" where
  "from_content_state Missing = mk_view StMissing None None"
| "from_content_state (Binary n) = mk_view StBinary n None"
| "from_content_state (TooLarge n) = mk_view StTooLarge (Some n) None"
| "from_content_state (LfsPointer n) = mk_view StLfsPointer (Some n) None"
| "from_content_state Symlink = mk_view StSymlink None None"
| "from_content_state (Full s) = mk_view StFull (Some (len_bytes s)) (Some s)"

section \<open>The classifiers agree\<close>

lemma lfs_of_prefix: "is_lfs_pointer (take (min 8000 (length bs)) bs) \<longleftrightarrow> is_lfs_pointer bs"
  by (cases "length bs < 8000") (auto simp: is_lfs_pointer_def)

lemma binary_of_prefix: "is_binary (take (min 8000 (length bs)) bs) \<longleftrightarrow> is_binary bs"
  by (simp add: is_binary_def min.commute)

lemma read_is_classify: "disk p = Some (FileNode True bs) \<Longrightarrow> read_file_bounded disk p = classify_bytes bs"
  by (simp add: read_file_bounded_def classify_bytes_def Let_def lfs_of_prefix binary_of_prefix)

text \<open>C26. Contents are classified alike however they are met: reading a file in two steps, a bounded first
  part and the rest, gives what classifying all its bytes gives, a text is classified as its bytes are,
  and a text that is kept spells exactly the bytes of the file.\<close>

theorem contents_classified:
  assumes "disk p = Some (FileNode True bs)"
  shows "read_file_bounded disk p = classify_bytes bs \<and>
    (\<forall>s. read_file_bounded disk p = Full s \<longrightarrow> bs = utf8 s \<and> len_bytes s \<le> MAX_TRACKED_TEXT_BYTES) \<and>
    (\<forall>s. bs = utf8 s \<and> (\<forall>c \<in> set s. valid_char c) \<longrightarrow> read_file_bounded disk p = classify_string s)"
proof (intro conjI allI impI)
  show r: "read_file_bounded disk p = classify_bytes bs" using assms by (rule read_is_classify)
  show "bs = utf8 s" "len_bytes s \<le> MAX_TRACKED_TEXT_BYTES" if "read_file_bounded disk p = Full s" for s
    using that utf8_from_utf8 [of bs s] length_utf8 [of s] unfolding r
    by (auto simp: classify_bytes_def split: if_splits option.splits)
  show "read_file_bounded disk p = classify_string s" if "bs = utf8 s \<and> (\<forall>c \<in> set s. valid_char c)" for s
    using that from_utf8_utf8 [of s] unfolding r by (simp add: classify_bytes_def classify_string_def length_utf8)
qed

theorem contents_classified_witness:
  "read_file_bounded ((\<lambda>_. None)([102] := Some (FileNode True (utf8 [233, 10])))) [102] = Full [233, 10]"
proof -
  let ?disk = "(\<lambda>_. None)([102] := Some (FileNode True (utf8 [233, 10])))"
  have "\<forall>c \<in> set [233, 10]. valid_char c" by (simp add: valid_char_def)
  then have "read_file_bounded ?disk [102] = classify_string [233, 10]"
    using contents_classified [of ?disk "[102]" "utf8 [233, 10]", OF fun_upd_same] by blast
  also have "\<dots> = Full [233, 10]"
    by (simp add: classify_string_def utf8_def encode_char_def utf8_len_def is_lfs_pointer_def is_binary_def
        LFS_POINTER_PREFIX_def MAX_TRACKED_TEXT_BYTES_def)
  finally show ?thesis .
qed

end
