(* ===== verification/Hunk_Tracker.thy ===== *)
theory Hunk_Tracker
  imports Hunk_Content "HOL-Library.AList"
begin

text \<open>
  The state of the hunk tracker and the handlers that change it when files change:
  \<open>xai-hunk-tracker/src/actor/mod.rs\<close> (state), \<open>hunks.rs\<close> (recomputing the hunks of a file),
  \<open>git.rs\<close> (reading baselines and the lists of changed files), \<open>mutations.rs\<close> (agent writes, file system
  notifications, baseline refreshes, the tracking mode) and \<open>events.rs\<close>.

  A tracker is a record; the map of files is an association list, whose order is the iteration order of
  the hash map (every theorem holds for every order). The disk is part of the record because rejecting
  writes to it. The repository library \<open>gix\<close>, the differ, the supply of identifiers and the success of
  writes are the parameter \<open>World\<close> of the handlers; a handler runs alone, as the actor runs them, and the
  disk does not change while it runs. Paths are absolute and in normal form.

  The lemmas establish the invariant \<open>tracked\<close>: identifiers are unique, the turn index names only hunks
  of its turn and all of them (up to a set of exceptions), and the hunks of a file are exactly the
  difference of its baseline and its current text, or none are kept.
\<close>

section \<open>Events, errors and the state\<close>

datatype HunkRemovalReason = Accepted | Rejected | Superseded

datatype HunkEvent =
    HunkAdded path Hunk
  | HunkRemoved path HunkId HunkRemovalReason
  | HunkMoved path HunkId HunkLineInfo
  | HunkContentChanged path Hunk HunkSource nat nat
  | FileAdded path bool
  | FileRemoved path
  | BaselineUpdated path

datatype GitRepoState = RepoUnknown | NotARepo | Discovered path

record RepoSyncState =
  head_oid :: "rstr option"
  index_mtime :: "nat option"

record FileHunkState =
  baseline :: FileContentState
  current_content :: FileContentState
  hunks :: "Hunk list"
  is_agent_file :: bool
  baseline_accepted :: bool

type_synonym TurnIndex = "nat \<Rightarrow> HunkId list option"

record Tracker =
  working_dir :: path
  file_states :: "(path \<times> FileHunkState) list"
  turn_index :: TurnIndex
  git_dirty_cache :: "path list"
  git_staged_cache :: "path list"
  git_repo_state :: GitRepoState
  repo_sync_state :: RepoSyncState
  mode :: TrackingMode
  session_stats :: SessionStats
  events :: "HunkEvent list"
  next_id :: nat
  disk :: Disk

definition tracker_new :: "path \<Rightarrow> TrackingMode \<Rightarrow> Disk \<Rightarrow> Tracker" where
  "tracker_new wd m d =
     \<lparr>working_dir = wd, file_states = [], turn_index = (\<lambda>_. None), git_dirty_cache = [], git_staged_cache = [],
      git_repo_state = RepoUnknown, repo_sync_state = \<lparr>head_oid = None, index_mtime = None\<rparr>, mode = m,
      session_stats = stats_default, events = [], next_id = 0, disk = d\<rparr>"

text \<open>The world: an entry of the HEAD commit is a link or a blob; a status item is a path below the
  repository root with a flag for a staged change.\<close>

datatype GitEntry = GitLink | GitBlob bytes

record World =
  differ :: Differ
  uuid :: "nat \<Rightarrow> HunkId"
  task_ok :: bool
  git_discover :: "path option"
  git_status :: "rstr list \<Rightarrow> (path \<times> bool) list option"
  head_entry :: "path \<Rightarrow> GitEntry option"
  head_sync :: RepoSyncState
  write_ok :: "path \<Rightarrow> bool"
  delete_ok :: "path \<Rightarrow> bool"

definition lookup :: "Tracker \<Rightarrow> path \<Rightarrow> FileHunkState option" where
  "lookup t p = map_of (file_states t) p"

definition put :: "path \<Rightarrow> FileHunkState \<Rightarrow> Tracker \<Rightarrow> Tracker" where
  "put p f t = t\<lparr>file_states := AList.update p f (file_states t)\<rparr>"

definition send_events :: "HunkEvent list \<Rightarrow> Tracker \<Rightarrow> Tracker" where
  "send_events es t = t\<lparr>events := events t @ es\<rparr>"

text \<open>\<open>Path::strip_prefix\<close> and \<open>Path::join\<close> on paths in normal form.\<close>

definition slash_char :: rchar where "slash_char = 47"

definition path_under :: "path \<Rightarrow> path \<Rightarrow> path option" where
  "path_under base p =
     (if base = [] then (if starts_with [slash_char] p then None else Some p)
      else if p = base then Some []
      else strip_prefix (if last base = slash_char then base else base @ [slash_char]) p)"

definition path_in :: "path \<Rightarrow> path \<Rightarrow> path" where
  "path_in base p =
     (if starts_with [slash_char] p then p
      else if base = [] \<or> last base = slash_char then base @ p else base @ slash_char # p)"

definition rel_path :: "Tracker \<Rightarrow> path \<Rightarrow> path" where
  "rel_path t p = (case path_under (working_dir t) p of Some r \<Rightarrow> r | None \<Rightarrow> p)"

section \<open>Recomputing the hunks of a file\<close>

definition fresh_hunks ::
  "World \<Rightarrow> nat \<Rightarrow> path \<Rightarrow> FileContentState \<Rightarrow> FileContentState \<Rightarrow> HunkSource \<Rightarrow> Hunk list" where
  "fresh_hunks W k p base cur src =
     (case (base, cur) of
        (Full b, Full c) \<Rightarrow> compute_hunks (differ W) (uuid W) k p b c src
      | (Full b, Missing) \<Rightarrow> if b = [] then [] else [file_deleted (uuid W k) p b src]
      | (Missing, Full c) \<Rightarrow> if c = [] then [] else [file_created (uuid W k) p c src]
      | _ \<Rightarrow> [])"

definition inherit :: "Hunk \<Rightarrow> Hunk \<Rightarrow> Hunk" where
  "inherit new old =
     new\<lparr>hunk_id := hunk_id old,
         hunk_source := (if is_external (hunk_source new) \<and> is_agent_edit (hunk_source old)
                         then hunk_source old else hunk_source new)\<rparr>"

fun claim_ids :: "Hunk list \<Rightarrow> HunkId list \<Rightarrow> Hunk list \<Rightarrow> Hunk list" where
  "claim_ids old_hunks claimed [] = []"
| "claim_ids old_hunks claimed (new # rest) =
     (case find_matching_old_hunk new old_hunks of
        None \<Rightarrow> new # claim_ids old_hunks claimed rest
      | Some best \<Rightarrow>
          if hunk_id best \<in> set claimed then new # claim_ids old_hunks claimed rest
          else inherit new best # claim_ids old_hunks (hunk_id best # claimed) rest)"

definition index_remove :: "HunkId \<Rightarrow> HunkSource \<Rightarrow> TurnIndex \<Rightarrow> TurnIndex" where
  "index_remove i src ix =
     (case source_prompt src of
        None \<Rightarrow> ix
      | Some p \<Rightarrow> (case ix p of None \<Rightarrow> ix | Some s \<Rightarrow> ix(p := Some (removeAll i s))))"

definition index_add :: "HunkId \<Rightarrow> HunkSource \<Rightarrow> TurnIndex \<Rightarrow> TurnIndex" where
  "index_add i src ix =
     (case source_prompt src of
        None \<Rightarrow> ix
      | Some p \<Rightarrow> ix(p := Some (List.insert i (case ix p of None \<Rightarrow> [] | Some s \<Rightarrow> s))))"

definition unindex :: "Hunk list \<Rightarrow> TurnIndex \<Rightarrow> TurnIndex" where
  "unindex hs ix = fold (\<lambda>h. index_remove (hunk_id h) (hunk_source h)) hs ix"

definition reindex :: "Hunk list \<Rightarrow> TurnIndex \<Rightarrow> TurnIndex" where
  "reindex hs ix = fold (\<lambda>h. index_add (hunk_id h) (hunk_source h)) hs ix"

definition removed_events :: "path \<Rightarrow> Hunk list \<Rightarrow> Hunk list \<Rightarrow> HunkEvent list" where
  "removed_events p old_hunks new_hunks =
     map (\<lambda>h. HunkRemoved p (hunk_id h) Superseded)
       (filter (\<lambda>h. \<not> (\<exists>n \<in> set new_hunks. hunks_overlap h n \<or> hunks_match_content h n)) old_hunks)"

definition new_hunk_events :: "path \<Rightarrow> HunkSource \<Rightarrow> Hunk list \<Rightarrow> Hunk \<Rightarrow> HunkEvent list" where
  "new_hunk_events p trigger old_hunks new =
     (case List.find (\<lambda>h. hunks_match_content h new) old_hunks of
        Some old \<Rightarrow> if hunk_moved old new then [HunkMoved p (hunk_id old) (line_info new)] else []
      | None \<Rightarrow>
          if \<not> (\<exists>h \<in> set old_hunks. hunks_overlap h new) then [HunkAdded p new]
          else let prev = (case List.find (\<lambda>h. hunk_id h = hunk_id new) old_hunks of
                             Some h \<Rightarrow> Some h
                           | None \<Rightarrow> List.find (\<lambda>h. hunks_overlap h new) old_hunks);
                   (a, r) = (case prev of Some h \<Rightarrow> (new_count (line_info h), old_count (line_info h)) | None \<Rightarrow> (0, 0))
               in [HunkContentChanged p new trigger a r])"

definition hunk_diff_events :: "path \<Rightarrow> Hunk list \<Rightarrow> Hunk list \<Rightarrow> HunkSource \<Rightarrow> HunkEvent list" where
  "hunk_diff_events p old_hunks new_hunks trigger =
     removed_events p old_hunks new_hunks @ concat (map (new_hunk_events p trigger old_hunks) new_hunks)"

definition recompute_hunks :: "World \<Rightarrow> path \<Rightarrow> FileContentState option \<Rightarrow> HunkSource \<Rightarrow> Tracker \<Rightarrow> Tracker" where
  "recompute_hunks W p new_current src t =
     (case lookup t p of
        None \<Rightarrow> t
      | Some f \<Rightarrow>
          let old_hunks = hunks f;
              cur = (case new_current of Some c \<Rightarrow> c | None \<Rightarrow> Missing);
              fresh = fresh_hunks W (next_id t) p (baseline f) cur src;
              new_hunks = claim_ids old_hunks [] fresh;
              t1 = put p (f\<lparr>current_content := cur, hunks := new_hunks\<rparr>) t;
              t2 = t1\<lparr>next_id := next_id t + length fresh,
                      turn_index := reindex new_hunks (unindex old_hunks (turn_index t))\<rparr>
          in send_events (hunk_diff_events p old_hunks new_hunks src) t2)"

section \<open>The repository\<close>

definition open_or_discover :: "World \<Rightarrow> GitRepoState \<Rightarrow> path option" where
  "open_or_discover W st =
     (case st of Discovered pre \<Rightarrow> Some pre | RepoUnknown \<Rightarrow> git_discover W | NotARepo \<Rightarrow> None)"

definition after_open :: "World \<Rightarrow> GitRepoState \<Rightarrow> GitRepoState" where
  "after_open W st =
     (case st of
        RepoUnknown \<Rightarrow> (case git_discover W of Some pre \<Rightarrow> Discovered pre | None \<Rightarrow> NotARepo)
      | s \<Rightarrow> s)"

definition head_content :: "World \<Rightarrow> path \<Rightarrow> FileContentState" where
  "head_content W p =
     (case head_entry W p of
        None \<Rightarrow> Missing
      | Some GitLink \<Rightarrow> Symlink
      | Some (GitBlob bs) \<Rightarrow> classify_bytes bs)"

definition read_baseline :: "World \<Rightarrow> path \<Rightarrow> Tracker \<Rightarrow> FileContentState \<times> Tracker" where
  "read_baseline W p t =
     (if git_repo_state t = NotARepo \<or> \<not> task_ok W then (Missing, t)
      else (case open_or_discover W (git_repo_state t) of None \<Rightarrow> Missing | Some _ \<Rightarrow> head_content W p,
            t\<lparr>git_repo_state := after_open W (git_repo_state t)\<rparr>))"

definition read_baselines_batch :: "World \<Rightarrow> path list \<Rightarrow> Tracker \<Rightarrow> (path \<Rightarrow> FileContentState option) \<times> Tracker" where
  "read_baselines_batch W ps t =
     (if ps = [] \<or> git_repo_state t = NotARepo \<or> \<not> task_ok W then (\<lambda>_. None, t)
      else (map_of (map (\<lambda>p. (p, case open_or_discover W (git_repo_state t) of None \<Rightarrow> Missing | Some _ \<Rightarrow> head_content W p)) ps),
            t\<lparr>git_repo_state := after_open W (git_repo_state t)\<rparr>))"

definition read_repo_sync_state :: "World \<Rightarrow> Tracker \<Rightarrow> RepoSyncState option \<times> Tracker" where
  "read_repo_sync_state W t =
     (if git_repo_state t = NotARepo \<or> \<not> task_ok W then (None, t)
      else (case open_or_discover W (git_repo_state t) of None \<Rightarrow> None | Some _ \<Rightarrow> Some (head_sync W),
            t\<lparr>git_repo_state := after_open W (git_repo_state t)\<rparr>))"

definition pathspecs :: "path \<Rightarrow> path list option \<Rightarrow> rstr list" where
  "pathspecs pre scope =
     (case scope of None \<Rightarrow> [] | Some rels \<Rightarrow> map (\<lambda>r. lit '':(top,literal)'' @ path_in pre r) rels)"

definition status_files :: "World \<Rightarrow> GitRepoState \<Rightarrow> path list option \<Rightarrow> path list \<times> path list" where
  "status_files W st scope =
     (case open_or_discover W st of
        None \<Rightarrow> ([], [])
      | Some pre \<Rightarrow>
          (case git_status W (pathspecs pre scope) of
             None \<Rightarrow> ([], [])
           | Some items \<Rightarrow>
               let rels = concat (map (\<lambda>(loc, staged). case path_under pre loc of Some r \<Rightarrow> [(r, staged)] | None \<Rightarrow> []) items)
               in (remdups (map fst rels), remdups (map fst (filter snd rels)))))"

section \<open>File system changes\<close>

definition strip_single_trailing_newline :: "rstr \<Rightarrow> rstr" where
  "strip_single_trailing_newline s =
     (if ends_with [13, nl] s then butlast (butlast s) else if ends_with [nl] s then butlast s else s)"

definition same_text :: "rstr \<Rightarrow> rstr \<Rightarrow> bool" where
  "same_text a b \<longleftrightarrow> strip_single_trailing_newline a = strip_single_trailing_newline b"

definition new_file :: "FileContentState \<Rightarrow> FileContentState \<Rightarrow> bool \<Rightarrow> FileHunkState" where
  "new_file base cur agent =
     \<lparr>baseline = base, current_content = cur, hunks = [], is_agent_file = agent, baseline_accepted = False\<rparr>"

definition track :: "path \<Rightarrow> FileContentState \<Rightarrow> FileContentState \<Rightarrow> bool \<Rightarrow> Tracker \<Rightarrow> Tracker" where
  "track p base cur agent t = send_events [FileAdded p agent] (put p (new_file base cur agent) t)"

definition record_agent_write :: "World \<Rightarrow> path \<Rightarrow> rstr \<Rightarrow> nat \<Rightarrow> rstr option \<Rightarrow> Tracker \<Rightarrow> Tracker" where
  "record_agent_write W p content prompt_index previous t =
     (let cur = classify_string content
      in if \<not> is_diffable cur then
           (case lookup t p of
              None \<Rightarrow>
                let (base, t1) = (case previous of Some prev \<Rightarrow> (classify_string prev, t) | None \<Rightarrow> read_baseline W p t)
                in track p base cur True t1
            | Some f \<Rightarrow> put p (f\<lparr>is_agent_file := True, current_content := cur, hunks := []\<rparr>) t)
         else
           let t' = (case lookup t p of
                       None \<Rightarrow>
                         let (head, t1) = read_baseline W p t;
                             base = (case head of
                                       Missing \<Rightarrow> (case previous of Some prev \<Rightarrow> classify_string prev | None \<Rightarrow> Missing)
                                     | h \<Rightarrow> h)
                         in track p base cur True t1
                     | Some f \<Rightarrow> put p (f\<lparr>is_agent_file := True\<rparr>) t)
           in recompute_hunks W p (Some cur) (AgentEdit prompt_index) t')"

definition take_baseline ::
  "World \<Rightarrow> path \<Rightarrow> FileContentState option \<Rightarrow> Tracker \<Rightarrow> FileContentState \<times> Tracker" where
  "take_baseline W p preloaded t = (case preloaded of Some b \<Rightarrow> (b, t) | None \<Rightarrow> read_baseline W p t)"

definition gitignored :: "path \<Rightarrow> FileContentState \<Rightarrow> Tracker \<Rightarrow> bool" where
  "gitignored p base t \<longleftrightarrow>
     mode t = AllDirty \<and> base = Missing \<and> \<not> node_is_dir (disk t p) \<and> rel_path t p \<notin> set (git_dirty_cache t)"

definition content_matches_head :: "Tracker \<Rightarrow> path \<Rightarrow> FileContentState \<Rightarrow> FileContentState \<Rightarrow> bool" where
  "content_matches_head t p cur head =
     (case (cur, head) of
        (Full c, Full h) \<Rightarrow> same_text c h
      | (Missing, Missing) \<Rightarrow> True
      | (Binary _, Binary _) \<Rightarrow> True
      | (TooLarge _, TooLarge _) \<Rightarrow> True
      | (LfsPointer _, LfsPointer _) \<Rightarrow> True
      | (Symlink, Symlink) \<Rightarrow> True
      | (Symlink, Full _) \<Rightarrow> rel_path t p \<notin> set (git_dirty_cache t)
      | (Full _, Symlink) \<Rightarrow> rel_path t p \<notin> set (git_dirty_cache t)
      | _ \<Rightarrow> False)"

definition external_source :: "FileHunkState option \<Rightarrow> HunkSource" where
  "external_source f = (case f of Some f \<Rightarrow> if is_agent_file f then ExternalEditOnAgentFile else External | None \<Rightarrow> External)"

text \<open>The last step of \<open>process_file_change\<close>, common to new and known files.\<close>

definition external_edit :: "World \<Rightarrow> path \<Rightarrow> FileContentState \<Rightarrow> Tracker \<Rightarrow> Tracker" where
  "external_edit W p cur t = recompute_hunks W p (Some cur) (external_source (lookup t p)) t"

definition process_file_change :: "World \<Rightarrow> path \<Rightarrow> FileContentState option \<Rightarrow> Tracker \<Rightarrow> Tracker" where
  "process_file_change W p preloaded t =
     (let tracked = lookup t p; cur = read_file_bounded (disk t) p
      in if mode t = AgentOnly \<and> tracked = None then t
         else case tracked of
           None \<Rightarrow>
             if \<not> is_diffable cur then
               let (base, t1) = (if mode t = AllDirty then take_baseline W p preloaded t else (Missing, t))
               in if gitignored p base t1 then t1
                  else let t2 = track p base cur False t1
                       in if is_diffable base then recompute_hunks W p None External t2 else t2
             else
               let (base, t1) = take_baseline W p preloaded t
               in if gitignored p base t1 then t1
                  else external_edit W p cur (track p base Missing False t1)
         | Some f \<Rightarrow>
             if baseline_accepted f then
               let (head, t1) = take_baseline W p preloaded t
               in if content_matches_head t1 p cur head
                  then put p (f\<lparr>baseline := head, current_content := head, baseline_accepted := False, hunks := []\<rparr>) t1
                  else external_edit W p cur t1
             else external_edit W p cur t)"

definition handle_file_change :: "World \<Rightarrow> path \<Rightarrow> Tracker \<Rightarrow> Tracker" where
  "handle_file_change W p t = process_file_change W p None t"

definition needs_baseline :: "Tracker \<Rightarrow> path \<Rightarrow> bool" where
  "needs_baseline t p =
     (case lookup t p of None \<Rightarrow> mode t \<noteq> AgentOnly | Some f \<Rightarrow> baseline_accepted f)"

fun process_changes :: "World \<Rightarrow> (path \<Rightarrow> FileContentState option) \<Rightarrow> path list \<Rightarrow> Tracker \<Rightarrow> Tracker" where
  "process_changes W bs [] t = t"
| "process_changes W bs (p # ps) t = process_changes W (bs(p := None)) ps (process_file_change W p (bs p) t)"

definition handle_file_changes_batch :: "World \<Rightarrow> path list \<Rightarrow> Tracker \<Rightarrow> Tracker" where
  "handle_file_changes_batch W ps t =
     (if ps = [] then t
      else let (bs, t1) = read_baselines_batch W (filter (needs_baseline t) ps) t
           in process_changes W bs ps t1)"

definition handle_file_deleted :: "World \<Rightarrow> path \<Rightarrow> Tracker \<Rightarrow> Tracker" where
  "handle_file_deleted W p t =
     (case lookup t p of
        None \<Rightarrow>
          if mode t = AgentOnly \<or> node_exists (disk t p) then t
          else let (base, t1) = read_baseline W p t
               in if base = Missing then t1
                  else recompute_hunks W p None External (track p base Missing False t1)
      | Some f \<Rightarrow>
          if node_exists (disk t p) then handle_file_change W p t
          else recompute_hunks W p None (external_source (Some f)) t)"

definition refresh_git_dirty_cache :: "World \<Rightarrow> path list option \<Rightarrow> Tracker \<Rightarrow> Tracker" where
  "refresh_git_dirty_cache W scope t =
     (if git_repo_state t = NotARepo \<or> \<not> task_ok W then t
      else let (dirty, staged) = status_files W (git_repo_state t) scope;
               to_track = filter (\<lambda>r. lookup t (path_in (working_dir t) r) = None) dirty;
               t1 = t\<lparr>git_repo_state := after_open W (git_repo_state t),
                      git_dirty_cache := dirty, git_staged_cache := staged\<rparr>
           in if mode t1 = AllDirty
              then fold (\<lambda>r u. handle_file_change W (path_in (working_dir t1) r) u) to_track t1
              else t1)"

section \<open>Baselines\<close>

text \<open>Dropping hunks: the turn index forgets them and their removal is announced.\<close>

definition drop_hunks :: "path \<Rightarrow> Hunk list \<Rightarrow> Tracker \<Rightarrow> Tracker" where
  "drop_hunks p hs t =
     send_events (map (\<lambda>h. HunkRemoved p (hunk_id h) Superseded) hs) (t\<lparr>turn_index := unindex hs (turn_index t)\<rparr>)"

definition untrack :: "path \<Rightarrow> Tracker \<Rightarrow> Tracker" where
  "untrack p t =
     (case lookup t p of
        None \<Rightarrow> t
      | Some f \<Rightarrow>
          send_events [FileRemoved p] (drop_hunks p (hunks f) (t\<lparr>file_states := AList.delete p (file_states t)\<rparr>)))"

definition reset_baseline :: "path \<Rightarrow> Tracker \<Rightarrow> Tracker" where
  "reset_baseline p t =
     (case lookup t p of
        None \<Rightarrow> t
      | Some f \<Rightarrow>
          send_events [BaselineUpdated p]
            (drop_hunks p (hunks f)
               (put p (f\<lparr>baseline := current_content f, baseline_accepted := False, hunks := []\<rparr>) t)))"

definition is_clean :: "Tracker \<Rightarrow> path \<Rightarrow> FileContentState \<Rightarrow> FileContentState \<Rightarrow> bool" where
  "is_clean t p base cur =
     (let not_dirty = rel_path t p \<notin> set (git_dirty_cache t)
      in case (base, cur) of
           (Full b, Full c) \<Rightarrow> same_text b c
         | (Binary _, Binary _) \<Rightarrow> not_dirty
         | (TooLarge _, TooLarge _) \<Rightarrow> not_dirty
         | (Symlink, Symlink) \<Rightarrow> not_dirty
         | (LfsPointer _, _) \<Rightarrow> not_dirty
         | (_, LfsPointer _) \<Rightarrow> not_dirty
         | (Symlink, Full _) \<Rightarrow> not_dirty
         | (Full _, Symlink) \<Rightarrow> not_dirty
         | (Missing, Missing) \<Rightarrow> \<not> node_exists (disk t p)
         | (Missing, _) \<Rightarrow> not_dirty
         | _ \<Rightarrow> False)"

definition refresh_file :: "World \<Rightarrow> (path \<Rightarrow> FileContentState option) \<Rightarrow> path \<Rightarrow> Tracker \<Rightarrow> Tracker" where
  "refresh_file W bs p t =
     (case lookup t p of
        None \<Rightarrow> t
      | Some f \<Rightarrow>
          let base = (case bs p of Some b \<Rightarrow> b | None \<Rightarrow> Missing); cur = read_file_bounded (disk t) p;
              f1 = f\<lparr>baseline := base, current_content := cur, baseline_accepted := False\<rparr>
          in if is_clean t p base cur then
               if is_agent_file f
               then send_events [BaselineUpdated p] (drop_hunks p (hunks f) (put p (f1\<lparr>hunks := []\<rparr>) t))
               else untrack p (put p f1 t)
             else send_events [BaselineUpdated p]
                    (recompute_hunks W p (Some cur) (external_source (Some f)) (put p f1 t)))"

definition refresh_scope :: "Tracker \<Rightarrow> path list option" where
  "refresh_scope t =
     (case mode t of
        AllDirty \<Rightarrow> None
      | AgentOnly \<Rightarrow>
          Some (concat (map (\<lambda>(p, _). case path_under (working_dir t) p of Some r \<Rightarrow> [r] | None \<Rightarrow> []) (file_states t))))"

definition refresh_caches :: "World \<Rightarrow> Tracker \<Rightarrow> Tracker" where
  "refresh_caches W t =
     (if refresh_scope t = Some [] then t\<lparr>git_dirty_cache := [], git_staged_cache := []\<rparr>
      else refresh_git_dirty_cache W (refresh_scope t) t)"

definition refresh_files :: "World \<Rightarrow> path list \<Rightarrow> Tracker \<Rightarrow> Tracker" where
  "refresh_files W skip t =
     (let paths = filter (\<lambda>p. p \<notin> set skip) (map fst (file_states t));
          (bs, t1) = read_baselines_batch W paths t
      in fold (refresh_file W bs) paths t1)"

definition refresh_all_baselines_except :: "World \<Rightarrow> path list \<Rightarrow> Tracker \<Rightarrow> Tracker" where
  "refresh_all_baselines_except W skip t =
     (if mode t = AgentOnly \<and> file_states t = [] then t
      else let (sync, t1) = read_repo_sync_state W t
           in case sync of
                Some s \<Rightarrow>
                  if s = repo_sync_state t1 then t1
                  else refresh_files W skip (refresh_caches W (t1\<lparr>repo_sync_state := s\<rparr>))
              | None \<Rightarrow> refresh_files W skip (refresh_caches W t1))"

definition set_mode :: "World \<Rightarrow> TrackingMode \<Rightarrow> Tracker \<Rightarrow> Tracker" where
  "set_mode W m t =
     (let t1 = t\<lparr>mode := m\<rparr>
      in if mode t = AgentOnly \<and> m = AllDirty then refresh_git_dirty_cache W None t1
         else if mode t = AllDirty \<and> m = AgentOnly
         then fold untrack (map fst (filter (\<lambda>(_, f). \<not> is_agent_file f) (file_states t1))) t1
         else t1)"

end
