(* ===== verification/Hunk_Invariant.thy ===== *)
theory Hunk_Invariant
  imports Hunk_Tracker
begin

text \<open>
  The invariant of the hunk tracker and its preservation by every handler of \<open>mutations.rs\<close> and
  \<open>git.rs\<close>. The invariant has two parameters for states inside a handler: the paths whose hunks are
  being recomputed and the identifiers that the turn index may miss.
\<close>

section \<open>The invariant\<close>

definition index :: "TurnIndex \<Rightarrow> nat \<Rightarrow> HunkId set" where
  "index ix q = (case ix q of None \<Rightarrow> {} | Some s \<Rightarrow> set s)"

definition prompt_of :: "Hunk \<Rightarrow> nat option" where
  "prompt_of h = source_prompt (hunk_source h)"

definition live :: "Tracker \<Rightarrow> path \<Rightarrow> Hunk \<Rightarrow> bool" where
  "live t p h \<longleftrightarrow> (\<exists>f. lookup t p = Some f \<and> h \<in> set (hunks f))"

definition used :: "World \<Rightarrow> Tracker \<Rightarrow> HunkId \<Rightarrow> bool" where
  "used W t i \<longleftrightarrow> (\<exists>k < next_id t. i = uuid W k)"

definition shape :: "Hunk \<Rightarrow> path \<times> HunkLineInfo \<times> rstr option \<times> rstr" where
  "shape h = (hunk_path h, line_info h, old_text h, new_text h)"

definition difference :: "World \<Rightarrow> path \<Rightarrow> FileContentState \<Rightarrow> FileContentState \<Rightarrow> (path \<times> HunkLineInfo \<times> rstr option \<times> rstr) list" where
  "difference W p base cur = map shape (fresh_hunks W 0 p base cur External)"

definition exact :: "World \<Rightarrow> path \<Rightarrow> FileHunkState \<Rightarrow> bool" where
  "exact W p f \<longleftrightarrow> hunks f = [] \<or> map shape (hunks f) = difference W p (baseline f) (current_content f)"

definition ids_unique :: "Tracker \<Rightarrow> bool" where
  "ids_unique t \<longleftrightarrow>
     (\<forall>p f. lookup t p = Some f \<longrightarrow> distinct (map hunk_id (hunks f))) \<and>
     (\<forall>p q h k. live t p h \<and> live t q k \<and> hunk_id h = hunk_id k \<longrightarrow> p = q)"

definition ids_used :: "World \<Rightarrow> Tracker \<Rightarrow> bool" where
  "ids_used W t \<longleftrightarrow>
     (\<forall>p h. live t p h \<longrightarrow> used W t (hunk_id h)) \<and> (\<forall>q. \<forall>i \<in> index (turn_index t) q. used W t i)"

definition index_sound :: "Tracker \<Rightarrow> bool" where
  "index_sound t \<longleftrightarrow>
     (\<forall>p h q. live t p h \<and> hunk_id h \<in> index (turn_index t) q \<longrightarrow> prompt_of h = Some q)"

definition index_complete :: "HunkId set \<Rightarrow> Tracker \<Rightarrow> bool" where
  "index_complete X t \<longleftrightarrow>
     (\<forall>p h q. live t p h \<and> prompt_of h = Some q \<and> hunk_id h \<notin> X \<longrightarrow> hunk_id h \<in> index (turn_index t) q)"

definition tracked :: "World \<Rightarrow> path set \<Rightarrow> HunkId set \<Rightarrow> Tracker \<Rightarrow> bool" where
  "tracked W E X t \<longleftrightarrow>
     distinct (map fst (file_states t)) \<and> ids_unique t \<and> ids_used W t \<and> index_sound t \<and> index_complete X t \<and>
     (\<forall>p f. lookup t p = Some f \<and> p \<notin> E \<longrightarrow> exact W p f)"

lemmas tracked_defs = tracked_def ids_unique_def ids_used_def index_sound_def index_complete_def

section \<open>Simple facts\<close>

lemma lookup_put [simp]: "lookup (put p f t) q = (if q = p then Some f else lookup t q)"
  by (simp add: lookup_def put_def update_conv)

lemma put_fields [simp]:
  "turn_index (put p f t) = turn_index t" "next_id (put p f t) = next_id t" "mode (put p f t) = mode t"
  "disk (put p f t) = disk t" "working_dir (put p f t) = working_dir t" "git_dirty_cache (put p f t) = git_dirty_cache t"
  "events (put p f t) = events t" "session_stats (put p f t) = session_stats t"
  by (simp_all add: put_def)

lemma send_fields [simp]:
  "turn_index (send_events es t) = turn_index t" "next_id (send_events es t) = next_id t"
  "file_states (send_events es t) = file_states t" "mode (send_events es t) = mode t" "disk (send_events es t) = disk t"
  "lookup (send_events es t) q = lookup t q" "session_stats (send_events es t) = session_stats t"
  by (simp_all add: send_events_def lookup_def)

lemma lookup_cong: "file_states t = file_states u \<Longrightarrow> lookup t = lookup u"
  by (simp add: lookup_def fun_eq_iff)

lemma live_cong: "file_states t = file_states u \<Longrightarrow> live t = live u"
  by (simp add: live_def lookup_def fun_eq_iff)

lemma tracked_frame:
  assumes "tracked W E X t" "file_states u = file_states t" "turn_index u = turn_index t" "next_id u = next_id t"
  shows "tracked W E X u"
  using assms(1) unfolding tracked_defs used_def assms(2-4) lookup_cong [OF assms(2)] live_cong [OF assms(2)] .

lemma tracked_frame_up:
  assumes "tracked W E X t" "file_states u = file_states t" "turn_index u = turn_index t" "next_id t \<le> next_id u"
  shows "tracked W E X u"
proof -
  have up: "used W u i" if i: "used W t i" for i
  proof -
    obtain k where "k < next_id t" "i = uuid W k" using i by (auto simp: used_def)
    then show ?thesis using assms(4) by (auto simp: used_def intro!: exI [of _ k])
  qed
  have "ids_used W u"
    using assms(1) up unfolding tracked_def ids_used_def assms(3) live_cong [OF assms(2)] by blast
  then show ?thesis
    using assms(1) unfolding tracked_def ids_unique_def index_sound_def index_complete_def assms(2,3)
      lookup_cong [OF assms(2)] live_cong [OF assms(2)] by blast
qed

lemma tracked_send [simp]: "tracked W E X (send_events es t) \<longleftrightarrow> tracked W E X t"
  using tracked_frame [of W E X t "send_events es t"] tracked_frame [of W E X "send_events es t" t] by auto

lemma tracked_mono: "tracked W E X t \<Longrightarrow> E \<subseteq> E' \<Longrightarrow> X \<subseteq> X' \<Longrightarrow> tracked W E' X' t"
  unfolding tracked_def index_complete_def by blast

lemma tracked_index: "tracked W E X t \<Longrightarrow> live t p h \<Longrightarrow> hunk_id h \<in> index (turn_index t) q \<Longrightarrow> prompt_of h = Some q"
  unfolding tracked_def index_sound_def by blast

lemma tracked_complete:
  "tracked W E X t \<Longrightarrow> live t p h \<Longrightarrow> prompt_of h = Some q \<Longrightarrow> hunk_id h \<notin> X \<Longrightarrow> hunk_id h \<in> index (turn_index t) q"
  unfolding tracked_def index_complete_def by blast

lemma tracked_used:
  "tracked W E X t \<Longrightarrow> live t p h \<Longrightarrow> used W t (hunk_id h)"
  "tracked W E X t \<Longrightarrow> i \<in> index (turn_index t) q \<Longrightarrow> used W t i"
  unfolding tracked_def ids_used_def by blast+

lemma tracked_exact: "tracked W E X t \<Longrightarrow> lookup t p = Some f \<Longrightarrow> p \<notin> E \<Longrightarrow> exact W p f"
  unfolding tracked_def by blast

lemma tracked_distinct: "tracked W E X t \<Longrightarrow> lookup t p = Some f \<Longrightarrow> distinct (map hunk_id (hunks f))"
  unfolding tracked_def ids_unique_def by blast

lemma tracked_unique: "tracked W E X t \<Longrightarrow> live t p h \<Longrightarrow> live t q k \<Longrightarrow> hunk_id h = hunk_id k \<Longrightarrow> p = q \<and> h = k"
proof -
  assume a: "tracked W E X t" "live t p h" "live t q k" "hunk_id h = hunk_id k"
  then have "p = q" unfolding tracked_def ids_unique_def by blast
  moreover obtain f where "lookup t p = Some f" "h \<in> set (hunks f)" "k \<in> set (hunks f)"
    using a(2,3) calculation by (auto simp: live_def)
  moreover have "inj_on hunk_id (set (hunks f))"
    using tracked_distinct [OF a(1) calculation(2)] by (simp add: distinct_map)
  ultimately show ?thesis using a(4) by (auto dest: inj_onD)
qed

lemma distinct_put: "distinct (map fst (file_states t)) \<Longrightarrow> distinct (map fst (file_states (put p f t)))"
  by (simp add: put_def distinct_update)

lemma live_put: "live (put p f t) q h \<longleftrightarrow> (if q = p then h \<in> set (hunks f) else live t q h)"
  by (simp add: live_def)

section \<open>Replacing the state of a file\<close>

text \<open>The general step: a file gets a new state whose hunks have identifiers of its old hunks or fresh
  ones, and the turn index changes for these identifiers only.\<close>

lemma tracked_put:
  assumes W: "inj (uuid W)" and t: "tracked W E X t"
    and old: "\<And>h. h \<in> set old \<longleftrightarrow> live t p h"
    and ids: "distinct (map hunk_id (hunks f))"
      "\<And>h. h \<in> set (hunks f) \<Longrightarrow> hunk_id h \<in> hunk_id ` set old \<or> (\<exists>k. next_id t \<le> k \<and> k < n \<and> hunk_id h = uuid W k)"
    and n: "next_id t \<le> n"
    and sound: "\<And>q i. i \<in> index ix q \<Longrightarrow>
        (i \<in> index (turn_index t) q \<and> i \<notin> hunk_id ` set (hunks f)) \<or> (\<exists>h \<in> set (hunks f). hunk_id h = i \<and> prompt_of h = Some q)"
    and keep: "\<And>q i. i \<in> index (turn_index t) q \<Longrightarrow> i \<notin> hunk_id ` set old \<Longrightarrow> i \<in> index ix q"
    and complete: "\<And>h q. h \<in> set (hunks f) \<Longrightarrow> prompt_of h = Some q \<Longrightarrow> hunk_id h \<notin> X \<Longrightarrow> hunk_id h \<in> index ix q"
    and ex: "p \<notin> E' \<Longrightarrow> exact W p f" and E: "E \<subseteq> insert p E'"
    and u: "file_states u = file_states (put p f t)" "turn_index u = ix" "next_id u = n"
  shows "tracked W E' X u"
proof -
  have look: "lookup u q = (if q = p then Some f else lookup t q)" for q
    using lookup_cong [OF u(1)] by simp
  have live: "live u q h \<longleftrightarrow> (if q = p then h \<in> set (hunks f) else live t q h)" for q h
    using live_cong [OF u(1)] by (simp add: live_put)
  have used_mono: "used W t i \<Longrightarrow> used W u i" for i using n u(3) unfolding used_def by (metis less_le_trans)
  have new_used: "used W u (hunk_id h)" if "h \<in> set (hunks f)" for h
  proof (cases "hunk_id h \<in> hunk_id ` set old")
    case True
    then obtain g where "live t p g" "hunk_id g = hunk_id h" using old by auto
    then show ?thesis using used_mono tracked_used(1) [OF t] by metis
  next
    case False
    then show ?thesis using ids(2) [OF that] u(3) by (auto simp: used_def)
  qed
  have other: "hunk_id h \<noteq> hunk_id k" if "h \<in> set (hunks f)" "live t q k" "q \<noteq> p" for h k q
  proof
    assume eq: "hunk_id h = hunk_id k"
    have "used W t (hunk_id k)" using tracked_used(1) [OF t that(2)] .
    then have "hunk_id h \<in> hunk_id ` set old"
      using ids(2) [OF that(1)] eq W by (fastforce simp: used_def dest: injD)
    then obtain g where "live t p g" "hunk_id g = hunk_id k" using old eq by auto
    then show False using tracked_unique [OF t _ that(2)] that(3) by blast
  qed
  have "index_sound u"
    unfolding index_sound_def
  proof (intro allI impI)
    fix q h r assume a: "live u q h \<and> hunk_id h \<in> index (turn_index u) r"
    show "prompt_of h = Some r"
    proof (cases "q = p")
      case True
      then have h: "h \<in> set (hunks f)" using a live by simp
      then obtain g where "g \<in> set (hunks f)" "hunk_id g = hunk_id h" "prompt_of g = Some r"
        using sound [of "hunk_id h" r] a u(2) by auto
      then show ?thesis using ids(1) h by (metis inj_onD distinct_map)
    next
      case False
      then have h: "live t q h" using a live by simp
      then have "hunk_id h \<in> index (turn_index t) r"
        using sound [of "hunk_id h" r] a u(2) other [OF _ h False] by auto
      then show ?thesis using tracked_index [OF t h] by blast
    qed
  qed
  moreover have "index_complete X u"
    unfolding index_complete_def
  proof (intro allI impI)
    fix q h r assume a: "live u q h \<and> prompt_of h = Some r \<and> hunk_id h \<notin> X"
    show "hunk_id h \<in> index (turn_index u) r"
    proof (cases "q = p")
      case True
      then show ?thesis using a live complete u(2) by simp
    next
      case False
      then have h: "live t q h" using a live by simp
      then have "hunk_id h \<in> index (turn_index t) r" using tracked_complete [OF t] a by blast
      moreover have "hunk_id h \<notin> hunk_id ` set old"
        using old False tracked_unique [OF t h] by auto
      ultimately show ?thesis using keep u(2) by simp
    qed
  qed
  moreover have "ids_unique u"
    unfolding ids_unique_def
  proof (intro conjI allI impI)
    fix q g assume "lookup u q = Some g"
    then show "distinct (map hunk_id (hunks g))"
      using ids(1) tracked_distinct [OF t] by (simp add: look split: if_splits)
  next
    fix q r h k assume a: "live u q h \<and> live u r k \<and> hunk_id h = hunk_id k"
    show "q = r"
    proof (cases "q = p \<or> r = p")
      case True
      then show ?thesis using a other [of h r k] other [of k q h] by (auto simp: live split: if_splits)
    next
      case False
      then show ?thesis using a tracked_unique [OF t, of q h r k] by (simp add: live)
    qed
  qed
  moreover have "ids_used W u"
    unfolding ids_used_def
  proof (intro conjI allI impI ballI)
    fix q h assume "live u q h"
    then show "used W u (hunk_id h)"
      using new_used used_mono tracked_used(1) [OF t] by (simp add: live split: if_splits)
  next
    fix q i assume "i \<in> index (turn_index u) q"
    then show "used W u i" using sound [of i q] new_used used_mono tracked_used(2) [OF t] u(2) by blast
  qed
  moreover have "distinct (map fst (file_states u))"
    using t distinct_put u(1) by (simp add: tracked_def)
  moreover have "exact W q g" if "lookup u q = Some g" "q \<notin> E'" for q g
    using that ex E tracked_exact [OF t, of q g] by (auto simp: look split: if_splits)
  ultimately show ?thesis by (simp add: tracked_def)
qed

text \<open>A file whose hunks are some of its old hunks.\<close>

lemma tracked_filter:
  assumes "inj (uuid W)" "tracked W E X t" "lookup t p = Some f" "hunks g = filter P (hunks f)"
    "p \<notin> E' \<Longrightarrow> exact W p g" "E \<subseteq> insert p E'"
  shows "tracked W E' X (put p g t)"
proof (rule tracked_put [OF assms(1,2), where old = "hunks f" and f = g and p = p and ix = "turn_index t" and n = "next_id t"])
  show "distinct (map hunk_id (hunks g))"
    using tracked_distinct [OF assms(2,3)] assms(4) by (simp add: distinct_map_filter)
  fix q i assume i: "i \<in> index (turn_index t) q"
  have "prompt_of h = Some q" if "h \<in> set (hunks f)" "hunk_id h = i" for h
    using that i assms(3) tracked_index [OF assms(2), of p h q] by (simp add: live_def)
  then show "(i \<in> index (turn_index t) q \<and> i \<notin> hunk_id ` set (hunks g)) \<or> (\<exists>h \<in> set (hunks g). hunk_id h = i \<and> prompt_of h = Some q)"
    using i assms(4) by auto
next
  fix h q assume "h \<in> set (hunks g)" "prompt_of h = Some q" "hunk_id h \<notin> X"
  then show "hunk_id h \<in> index (turn_index t) q"
    using assms(3,4) tracked_complete [OF assms(2), of p h q] by (simp add: live_def)
qed (use assms in \<open>auto simp: live_def\<close>)

lemma tracked_track:
  assumes "inj (uuid W)" "tracked W E X t" "lookup t p = None"
  shows "tracked W E X (track p base cur agent t)"
proof -
  have "tracked W E X (put p (new_file base cur agent) t)"
    by (rule tracked_put [OF assms(1,2), where old = "[]" and f = "new_file base cur agent" and p = p
          and ix = "turn_index t" and n = "next_id t"])
      (use assms in \<open>auto simp: live_def new_file_def exact_def\<close>)
  then show ?thesis by (simp add: track_def)
qed

section \<open>Fresh hunks and inherited identifiers\<close>

lemma compute_ids:
  "\<exists>n. map hunk_id (compute_hunks diff ids k p b c src) = map ids [k..<k + n]"
proof -
  have "map (\<lambda>(j, x). ids (k + j)) (enumerate 0 bs) = map ids [k..<k + length bs]" for bs :: "HunkBuilder list"
    by (rule nth_equalityI) (simp_all add: nth_enumerate_eq)
  moreover have "map hunk_id (map (\<lambda>(j, b). build_hunk p src (ids (k + j)) b) (enumerate 0 bs)) =
      map (\<lambda>(j, x). ids (k + j)) (enumerate 0 bs)" for bs
    by (simp add: build_hunk_def split_def)
  ultimately show ?thesis
    by (auto simp: compute_hunks_def intro: exI [of _ 0] split: option.splits)
qed

lemma fresh_ids: "map hunk_id (fresh_hunks W k p b c src) = map (uuid W) [k..<k + length (fresh_hunks W k p b c src)]"
proof -
  have "\<exists>n. map hunk_id (fresh_hunks W k p b c src) = map (uuid W) [k..<k + n]"
    using compute_ids [of "differ W" "uuid W" k p _ _ src]
    by (auto simp: fresh_hunks_def file_deleted_def file_created_def intro: exI [of _ 0] exI [of _ 1]
        split: FileContentState.splits)
  then obtain n where n: "map hunk_id (fresh_hunks W k p b c src) = map (uuid W) [k..<k + n]" ..
  then have "length (fresh_hunks W k p b c src) = n" by (metis diff_add_inverse length_map length_upt)
  with n show ?thesis by simp
qed

lemma fresh_shape: "map shape (fresh_hunks W k p b c src) = difference W p b c"
proof -
  have "map shape (compute_hunks diff ids k p x y src) = map shape (compute_hunks diff ids 0 p x y External)" for diff ids x y
    by (auto simp: compute_hunks_def build_hunk_def shape_def split: option.splits)
  then show ?thesis
    by (simp add: difference_def fresh_hunks_def shape_def file_deleted_def file_created_def split: FileContentState.splits)
qed

lemma fresh_source: "h \<in> set (fresh_hunks W k p b c src) \<Longrightarrow> hunk_source h = src"
  by (auto simp: fresh_hunks_def compute_hunks_def build_hunk_def file_deleted_def file_created_def
      split: FileContentState.splits if_splits option.splits)

lemma min_by_key_in: "min_by_key f xs = Some x \<Longrightarrow> x \<in> set xs"
  by (induction xs arbitrary: x) (auto split: option.splits if_splits)

lemma max_by_key_in: "max_by_key f xs = Some x \<Longrightarrow> x \<in> set xs"
  by (induction xs arbitrary: x) (auto split: option.splits if_splits)

lemma matching_in: "find_matching_old_hunk h old = Some m \<Longrightarrow> m \<in> set old"
  by (auto simp: find_matching_old_hunk_def Let_def dest!: min_by_key_in max_by_key_in split: if_splits)

lemma inherit_simps [simp]:
  "hunk_id (inherit n m) = hunk_id m" "shape (inherit n m) = shape n" "hunk_path (inherit n m) = hunk_path n"
  "line_info (inherit n m) = line_info n" "old_text (inherit n m) = old_text n" "new_text (inherit n m) = new_text n"
  by (simp_all add: inherit_def shape_def)

lemma claim_shape [simp]: "map shape (claim_ids old cl ns) = map shape ns"
  by (induction old cl ns rule: claim_ids.induct) (auto split: option.splits)

lemma claim_ids_from:
  "h \<in> set (claim_ids old cl ns) \<Longrightarrow>
     h \<in> set ns \<or> (\<exists>n \<in> set ns. \<exists>m \<in> set old. h = inherit n m \<and> hunk_id m \<notin> set cl)"
proof (induction old cl ns rule: claim_ids.induct)
  case (2 old cl n ns)
  then show ?case by (cases "find_matching_old_hunk n old") (auto split: if_splits dest: matching_in)
qed simp

lemma claim_distinct:
  "distinct (map hunk_id ns) \<Longrightarrow> hunk_id ` set ns \<inter> hunk_id ` set old = {} \<Longrightarrow>
     distinct (map hunk_id (claim_ids old cl ns))"
proof (induction old cl ns rule: claim_ids.induct)
  case (2 old cl n ns)
  show ?case
  proof (cases "find_matching_old_hunk n old")
    case None
    then show ?thesis using 2 by (force dest: claim_ids_from)
  next
    case (Some m)
    have m: "m \<in> set old" using Some by (rule matching_in)
    then show ?thesis
    proof (cases "hunk_id m \<in> set cl")
      case True
      then show ?thesis using 2 Some by (force dest: claim_ids_from)
    next
      case False
      have "hunk_id m \<notin> hunk_id ` set (claim_ids old (hunk_id m # cl) ns)"
        using 2(5) m by (fastforce dest: claim_ids_from)
      then show ?thesis using 2 Some False by simp
    qed
  qed
qed simp

section \<open>The turn index\<close>

lemma index_remove_iff: "i \<in> index (index_remove j src ix) q \<longleftrightarrow> i \<in> index ix q \<and> \<not> (i = j \<and> source_prompt src = Some q)"
  by (auto simp: index_def index_remove_def split: option.splits)

lemma index_add_iff: "i \<in> index (index_add j src ix) q \<longleftrightarrow> i \<in> index ix q \<or> (i = j \<and> source_prompt src = Some q)"
  by (auto simp: index_def index_add_def split: option.splits)

lemma unindex_iff:
  "i \<in> index (unindex hs ix) q \<longleftrightarrow> i \<in> index ix q \<and> \<not> (\<exists>h \<in> set hs. hunk_id h = i \<and> prompt_of h = Some q)"
  by (induction hs arbitrary: ix) (auto simp: unindex_def index_remove_iff prompt_of_def)

lemma reindex_iff:
  "i \<in> index (reindex hs ix) q \<longleftrightarrow> i \<in> index ix q \<or> (\<exists>h \<in> set hs. hunk_id h = i \<and> prompt_of h = Some q)"
  by (induction hs arbitrary: ix) (auto simp: reindex_def index_add_iff prompt_of_def)

section \<open>Recomputing keeps the invariant\<close>

lemma recompute_fields [simp]:
  "mode (recompute_hunks W p c src t) = mode t" "disk (recompute_hunks W p c src t) = disk t"
  "working_dir (recompute_hunks W p c src t) = working_dir t" "session_stats (recompute_hunks W p c src t) = session_stats t"
  "git_dirty_cache (recompute_hunks W p c src t) = git_dirty_cache t"
  by (simp_all add: recompute_hunks_def Let_def send_events_def split: option.splits)

lemma recompute_lookup_other [simp]: "q \<noteq> p \<Longrightarrow> lookup (recompute_hunks W p c src t) q = lookup t q"
  by (simp add: recompute_hunks_def Let_def send_events_def lookup_def put_def update_conv split: option.splits)

lemma recompute_lookup:
  "lookup t p = Some f \<Longrightarrow> lookup (recompute_hunks W p c src t) p =
     Some (f\<lparr>current_content := (case c of Some x \<Rightarrow> x | None \<Rightarrow> Missing),
             hunks := claim_ids (hunks f) [] (fresh_hunks W (next_id t) p (baseline f) (case c of Some x \<Rightarrow> x | None \<Rightarrow> Missing) src)\<rparr>)"
  by (simp add: recompute_hunks_def Let_def send_events_def lookup_def put_def update_conv)

lemma tracked_recompute:
  assumes "inj (uuid W)" "tracked W E X t" "E \<subseteq> insert p E'"
  shows "tracked W E' X (recompute_hunks W p c src t)"
proof (cases "lookup t p")
  case None
  then have "recompute_hunks W p c src t = t" by (simp add: recompute_hunks_def)
  moreover have "exact W q f" if "lookup t q = Some f" "q \<notin> E'" for q f
    using that None assms(3) tracked_exact [OF assms(2), of q f] by (cases "q = p") auto
  ultimately show ?thesis using assms(2) by (simp add: tracked_def)
next
  case (Some f)
  let ?cur = "case c of Some x \<Rightarrow> x | None \<Rightarrow> Missing"
  let ?fresh = "fresh_hunks W (next_id t) p (baseline f) ?cur src"
  let ?new = "claim_ids (hunks f) [] ?fresh"
  let ?f = "f\<lparr>current_content := ?cur, hunks := ?new\<rparr>"
  have old: "h \<in> set (hunks f) \<longleftrightarrow> live t p h" for h using Some by (simp add: live_def)
  have fresh: "\<exists>k. next_id t \<le> k \<and> k < next_id t + length ?fresh \<and> hunk_id h = uuid W k" if "h \<in> set ?fresh" for h
  proof -
    have "hunk_id h \<in> set (map (uuid W) [next_id t..<next_id t + length ?fresh])"
      using that unfolding fresh_ids [symmetric] by simp
    then show ?thesis by auto
  qed
  have unused: "\<not> used W t (hunk_id h)" if "h \<in> set ?fresh" for h
    using fresh [OF that] assms(1) by (auto simp: used_def inj_eq)
  have from_old: "hunk_id h \<in> hunk_id ` set (hunks f) \<or> h \<in> set ?fresh" if "h \<in> set ?new" for h
    using claim_ids_from [OF that] by auto
  have "tracked W E' X (recompute_hunks W p c src t)"
  proof (rule tracked_put [OF assms(1,2), where old = "hunks f" and f = ?f and p = p
        and ix = "reindex ?new (unindex (hunks f) (turn_index t))" and n = "next_id t + length ?fresh"])
    have "distinct (map hunk_id ?fresh)"
      unfolding fresh_ids using assms(1) by (simp add: distinct_map inj_on_def inj_def)
    moreover have "hunk_id ` set ?fresh \<inter> hunk_id ` set (hunks f) = {}"
      using unused old tracked_used(1) [OF assms(2), of p] by fastforce
    ultimately show "distinct (map hunk_id (hunks ?f))" by (simp add: claim_distinct)
  next
    fix h assume "h \<in> set (hunks ?f)"
    then show "hunk_id h \<in> hunk_id ` set (hunks f) \<or> (\<exists>k. next_id t \<le> k \<and> k < next_id t + length ?fresh \<and> hunk_id h = uuid W k)"
      using from_old [of h] fresh [of h] by auto
  next
    fix q i assume i: "i \<in> index (reindex ?new (unindex (hunks f) (turn_index t))) q"
    show "(i \<in> index (turn_index t) q \<and> i \<notin> hunk_id ` set (hunks ?f)) \<or> (\<exists>h \<in> set (hunks ?f). hunk_id h = i \<and> prompt_of h = Some q)"
    proof (cases "\<exists>h \<in> set ?new. hunk_id h = i \<and> prompt_of h = Some q")
      case False
      then have i: "i \<in> index (turn_index t) q" "\<not> (\<exists>h \<in> set (hunks f). hunk_id h = i \<and> prompt_of h = Some q)"
        using i by (auto simp: reindex_iff unindex_iff)
      moreover have "hunk_id h \<noteq> i" if new: "h \<in> set ?new" for h
      proof (cases "h \<in> set ?fresh")
        case True
        then show ?thesis using unused tracked_used(2) [OF assms(2) i(1)] by blast
      next
        case False
        then obtain g where "g \<in> set (hunks f)" "hunk_id g = hunk_id h" using from_old [OF new] by auto
        then show ?thesis using i old tracked_index [OF assms(2), of p g q] by auto
      qed
      ultimately show ?thesis by auto
    qed simp
  next
    show "file_states (recompute_hunks W p c src t) = file_states (put p ?f t)"
      "turn_index (recompute_hunks W p c src t) = reindex ?new (unindex (hunks f) (turn_index t))"
      "next_id (recompute_hunks W p c src t) = next_id t + length ?fresh"
      using Some by (simp_all add: recompute_hunks_def Let_def put_def)
    show "exact W p ?f" by (simp add: exact_def fresh_shape)
  qed (use old assms(3) in \<open>auto simp: reindex_iff unindex_iff\<close>)
  then show ?thesis .
qed

end
