(* ===== verification/Hunk_Handlers.thy ===== *)
theory Hunk_Handlers
  imports Hunk_Invariant
begin

text \<open>
  What the handlers of \<open>mutations.rs\<close> and \<open>git.rs\<close> keep. The handlers change the tracked files in six
  ways only: recomputing hunks, starting to track a file, editing a state before it is recomputed,
  clearing the hunks of a file with or without forgetting them in the turn index, and stopping to
  track a file the agent has not written. The locale \<open>handlers\<close> states these steps as its laws and
  derives that every handler keeps a predicate that the steps keep; it is interpreted with the invariant
  of the tracker, with the rule that in agent-only mode only files of the agent are tracked, and with the
  permanence of the agent's files.
\<close>

section \<open>Handlers as sequences of steps\<close>

lemma external_source_external [simp]: "is_external (external_source f)" "is_external External"
  by (simp_all add: external_source_def is_external_def split: option.split)

locale handlers =
  fixes W :: World and allowed :: "HunkSource \<Rightarrow> bool" and I :: "path set \<Rightarrow> Tracker \<Rightarrow> bool"
  assumes frame: "I E t \<Longrightarrow> file_states u = file_states t \<Longrightarrow> turn_index u = turn_index t \<Longrightarrow> next_id u = next_id t \<Longrightarrow>
      mode u = mode t \<Longrightarrow> I E u"
    and outside: "is_external src \<Longrightarrow> allowed src"
    and recompute: "I E t \<Longrightarrow> allowed src \<Longrightarrow> E \<subseteq> insert p E' \<Longrightarrow> I E' (recompute_hunks W p c src t)"
    and start: "I E t \<Longrightarrow> lookup t p = None \<Longrightarrow> agent \<or> mode t = AllDirty \<Longrightarrow> I E (track p base cur agent t)"
    and edit: "I E t \<Longrightarrow> lookup t p = Some f \<Longrightarrow> is_agent_file f \<longrightarrow> is_agent_file g \<Longrightarrow> hunks g = hunks f \<Longrightarrow>
      I (insert p E) (put p g t)"
    and clear: "I E t \<Longrightarrow> lookup t p = Some f \<Longrightarrow> is_agent_file f \<longrightarrow> is_agent_file g \<Longrightarrow> hunks g = [] \<Longrightarrow> I E (put p g t)"
    and clear_drop: "I E t \<Longrightarrow> lookup t p = Some f \<Longrightarrow> is_agent_file f \<longrightarrow> is_agent_file g \<Longrightarrow> hunks g = [] \<Longrightarrow>
      I E (drop_hunks p (hunks f) (put p g t))"
    and stop: "I E t \<Longrightarrow> lookup t p = Some f \<Longrightarrow> \<not> is_agent_file f \<Longrightarrow> E \<subseteq> insert p E' \<Longrightarrow> I E' (untrack p t)"
begin

lemma send: "I E t \<Longrightarrow> I E (send_events es t)"
  by (erule frame) simp_all

lemma read_baseline_keeps:
  "read_baseline W p t = (b, u) \<Longrightarrow> I E t \<Longrightarrow> I E u \<and> lookup u = lookup t \<and> mode u = mode t \<and> disk u = disk t"
  by (auto simp: read_baseline_def lookup_def split: if_splits intro: frame)

lemma batch_keeps:
  "read_baselines_batch W ps t = (b, u) \<Longrightarrow> I E t \<Longrightarrow> I E u"
  by (auto simp: read_baselines_batch_def split: if_splits intro: frame)

lemma sync_keeps:
  "read_repo_sync_state W t = (b, u) \<Longrightarrow> I E t \<Longrightarrow> I E u"
  by (auto simp: read_repo_sync_state_def split: if_splits intro: frame)

lemma take_baseline_keeps:
  "take_baseline W p pre t = (b, u) \<Longrightarrow> I E t \<Longrightarrow> I E u \<and> lookup u = lookup t \<and> mode u = mode t \<and> disk u = disk t"
  by (auto simp: take_baseline_def dest: read_baseline_keeps split: option.splits)

lemma edit_recompute:
  assumes "I E t" "lookup t p = Some f" "is_agent_file f \<longrightarrow> is_agent_file g" "hunks g = hunks f" "allowed src"
  shows "I E (recompute_hunks W p c src (put p g t))"
  using recompute [OF edit [OF assms(1-4)] assms(5)] by blast

lemma recompute_same: "I E t \<Longrightarrow> allowed src \<Longrightarrow> I E (recompute_hunks W p c src t)"
  by (erule recompute) blast+

lemma outside_sources [simp]: "allowed External" "allowed (external_source f)"
  by (simp_all add: outside)

lemma record_keeps:
  assumes "I E t" "allowed (AgentEdit k)"
  shows "I E (record_agent_write W p content k prev t)"
proof (cases "lookup t p")
  case None
  obtain b u where r: "read_baseline W p t = (b, u)" by fastforce
  then have u: "I E u" "lookup u p = None" using read_baseline_keeps [OF r assms(1)] None by simp_all
  show ?thesis
    using u assms None r by (auto simp: record_agent_write_def Let_def intro!: recompute_same start split: option.splits)
next
  case (Some f)
  then show ?thesis
    using clear [OF assms(1) Some] edit_recompute [OF assms(1) Some] assms(2) by (simp add: record_agent_write_def Let_def)
qed

lemma external_edit_keeps: "I E t \<Longrightarrow> I E (external_edit W p cur t)"
  by (simp add: external_edit_def recompute_same)

lemma process_keeps:
  assumes "I E t"
  shows "I E (process_file_change W p pre t)"
proof (cases "lookup t p")
  case None
  obtain b u where r: "take_baseline W p pre t = (b, u)" by fastforce
  then have u: "I E u" "lookup u p = None" "mode u = mode t" using take_baseline_keeps [OF r assms] None by simp_all
  show ?thesis
  proof (cases "mode t")
    case AllDirty
    then show ?thesis using u assms None r
      by (simp add: process_file_change_def Let_def recompute_same external_edit_keeps start)
  qed (simp add: process_file_change_def None assms)
next
  case (Some f)
  obtain b u where r: "take_baseline W p pre t = (b, u)" by fastforce
  then have u: "I E u" "lookup u p = Some f" using take_baseline_keeps [OF r assms] Some by simp_all
  then have "I E (put p (f\<lparr>baseline := b, current_content := b, baseline_accepted := False, hunks := []\<rparr>) u)"
    by (intro clear [OF u]) simp_all
  then show ?thesis using u assms Some r by (simp add: process_file_change_def Let_def external_edit_keeps)
qed

lemma change_keeps: "I E t \<Longrightarrow> I E (handle_file_change W p t)"
  by (simp add: handle_file_change_def process_keeps)

lemma changes_keeps: "I E t \<Longrightarrow> I E (handle_file_changes_batch W ps t)"
proof -
  have all: "I E u \<Longrightarrow> I E (process_changes W bs qs u)" for bs qs u
    by (induction qs arbitrary: bs u) (simp_all add: process_keeps)
  assume "I E t"
  then show ?thesis
    by (auto simp: handle_file_changes_batch_def Let_def split: prod.split intro!: all dest: batch_keeps)
qed

lemma deleted_keeps:
  assumes "I E t"
  shows "I E (handle_file_deleted W p t)"
proof (cases "lookup t p")
  case None
  obtain b u where r: "read_baseline W p t = (b, u)" by fastforce
  then have u: "I E u" "lookup u p = None" "mode u = mode t" using read_baseline_keeps [OF r assms] None by simp_all
  then show ?thesis
    using assms None r by (cases "mode t") (simp_all add: handle_file_deleted_def recompute_same start)
next
  case (Some f)
  then show ?thesis using assms by (simp add: handle_file_deleted_def change_keeps recompute_same)
qed

lemma fold_keeps: "(\<And>x u. I E u \<Longrightarrow> I E (f x u)) \<Longrightarrow> I E t \<Longrightarrow> I E (fold f xs t)"
  by (induction xs arbitrary: t) simp_all

lemma refresh_cache_keeps:
  assumes "I E t"
  shows "I E (refresh_git_dirty_cache W scope t)"
proof -
  have "I E (t\<lparr>git_repo_state := r, git_dirty_cache := d, git_staged_cache := s\<rparr>)" for r d s
    using assms by (rule frame) simp_all
  then show ?thesis
    using assms by (auto simp: refresh_git_dirty_cache_def Let_def split: prod.split intro!: fold_keeps change_keeps)
qed

lemma reset_keeps: "I E t \<Longrightarrow> I E (reset_baseline p t)"
  by (auto simp: reset_baseline_def split: option.split intro!: send clear_drop)

lemma refresh_file_keeps:
  assumes "I E t"
  shows "I E (refresh_file W bs p t)"
proof (cases "lookup t p")
  case (Some f)
  have "I E (untrack p (put p (f\<lparr>baseline := b, current_content := c, baseline_accepted := False\<rparr>) t))"
    if "\<not> is_agent_file f" for b c
  proof (rule stop)
    show "I (insert p E) (put p (f\<lparr>baseline := b, current_content := c, baseline_accepted := False\<rparr>) t)"
      using edit [OF assms Some] by simp
    show "lookup (put p (f\<lparr>baseline := b, current_content := c, baseline_accepted := False\<rparr>) t) p =
        Some (f\<lparr>baseline := b, current_content := c, baseline_accepted := False\<rparr>)" by simp
  qed (use that in auto)
  then show ?thesis
    using Some assms by (auto simp: refresh_file_def Let_def intro!: send clear_drop edit_recompute)
qed (simp add: refresh_file_def assms)

lemma refresh_all_keeps:
  assumes "I E t"
  shows "I E (refresh_all_baselines_except W skip t)"
proof -
  have files: "I E u \<Longrightarrow> I E (refresh_files W skip u)" for u
    by (auto simp: refresh_files_def Let_def split: prod.split intro!: fold_keeps refresh_file_keeps dest: batch_keeps)
  have caches: "I E u \<Longrightarrow> I E (refresh_caches W u)" for u
    by (auto simp: refresh_caches_def refresh_cache_keeps elim!: frame)
  have sync: "I E u \<Longrightarrow> I E (u\<lparr>repo_sync_state := s\<rparr>)" for u s
    by (erule frame) simp_all
  show ?thesis
    using assms by (auto simp: refresh_all_baselines_except_def split: prod.split option.split
        intro!: files caches sync dest: sync_keeps)
qed

end

section \<open>The invariant of the tracker\<close>

lemma drop_fields [simp]:
  "file_states (drop_hunks p hs t) = file_states t" "turn_index (drop_hunks p hs t) = unindex hs (turn_index t)"
  "next_id (drop_hunks p hs t) = next_id t" "mode (drop_hunks p hs t) = mode t" "lookup (drop_hunks p hs t) q = lookup t q"
  "disk (drop_hunks p hs t) = disk t"
  by (simp_all add: drop_hunks_def send_events_def lookup_def)

lemma tracked_drop:
  assumes "tracked W E X t" "\<And>h q k. h \<in> set hs \<Longrightarrow> live t q k \<Longrightarrow> hunk_id k \<noteq> hunk_id h"
  shows "tracked W E X (drop_hunks p hs t)"
proof -
  have l: "live (drop_hunks p hs t) = live t" "lookup (drop_hunks p hs t) = lookup t"
    by (rule live_cong lookup_cong, simp)+
  have "index_sound (drop_hunks p hs t)"
    using tracked_index [OF assms(1)] by (simp add: index_sound_def l unindex_iff) blast
  moreover have "index_complete X (drop_hunks p hs t)"
    unfolding index_complete_def
  proof (intro allI impI)
    fix q h r assume "live (drop_hunks p hs t) q h \<and> prompt_of h = Some r \<and> hunk_id h \<notin> X"
    then have h: "live t q h" "hunk_id h \<in> index (turn_index t) r"
      using tracked_complete [OF assms(1), of q h r] l by auto
    then show "hunk_id h \<in> index (turn_index (drop_hunks p hs t)) r" using assms(2) [OF _ h(1)] by (simp add: unindex_iff) metis
  qed
  moreover have "ids_used W (drop_hunks p hs t)"
    using tracked_used [OF assms(1)] by (simp add: ids_used_def l Ball_def unindex_iff used_def) blast
  ultimately show ?thesis using assms(1) by (simp add: tracked_def ids_unique_def l)
qed

lemma tracked_clear:
  assumes "inj (uuid W)" "tracked W E X t" "lookup t p = Some f" "hunks g = []"
  shows "tracked W E X (put p g t)" "tracked W E X (drop_hunks p (hunks f) (put p g t))"
proof -
  show c: "tracked W E X (put p g t)"
    using assms(4) by (intro tracked_filter [OF assms(1-3), where P = "\<lambda>_. False"]) (auto simp: exact_def)
  show "tracked W E X (drop_hunks p (hunks f) (put p g t))"
  proof (rule tracked_drop [OF c])
    fix h q k assume "h \<in> set (hunks f)" "live (put p g t) q k"
    then have "live t p h" "live t q k" "q \<noteq> p" using assms(3,4) by (auto simp: live_put live_def split: if_splits)
    then show "hunk_id k \<noteq> hunk_id h" using tracked_unique [OF assms(2)] by metis
  qed
qed

lemma lookup_delete: "file_states u = AList.delete p (file_states t) \<Longrightarrow> lookup u q = (if q = p then None else lookup t q)"
  by (simp add: lookup_def delete_conv)

lemma tracked_untrack:
  assumes "inj (uuid W)" "tracked W E X t" "E \<subseteq> insert p E'"
  shows "tracked W E' X (untrack p t)"
proof (cases "lookup t p")
  case None
  then show ?thesis using tracked_recompute [OF assms(1,2,3), of None External] by (simp add: untrack_def recompute_hunks_def)
next
  case (Some f)
  let ?t = "t\<lparr>file_states := AList.delete p (file_states t)\<rparr>"
  have look: "lookup ?t q = (if q = p then None else lookup t q)" for q by (rule lookup_delete) simp
  then have live: "live ?t q h \<longleftrightarrow> q \<noteq> p \<and> live t q h" for q h by (simp add: live_def)
  have "ids_unique ?t" using tracked_distinct [OF assms(2)] tracked_unique [OF assms(2)]
    unfolding ids_unique_def by (auto simp: look live split: if_splits)
  moreover have "ids_used W ?t" using tracked_used [OF assms(2)] by (auto simp: ids_used_def live used_def)
  moreover have "index_sound ?t" using tracked_index [OF assms(2)] by (auto simp: index_sound_def live)
  moreover have "index_complete X ?t" using tracked_complete [OF assms(2)] by (auto simp: index_complete_def live)
  moreover have "exact W q g" if "lookup ?t q = Some g" "q \<notin> E'" for q g
    using that assms(3) tracked_exact [OF assms(2), of q g] by (auto simp: look split: if_splits)
  moreover have "distinct (map fst (file_states ?t))" using assms(2) by (simp add: tracked_def distinct_delete)
  ultimately have "tracked W E' X ?t" by (simp add: tracked_def)
  moreover have "hunk_id k \<noteq> hunk_id h" if "h \<in> set (hunks f)" "live ?t q k" for h q k
    using that live Some tracked_unique [OF assms(2), of q k p h] by (auto simp: live_def)
  ultimately have "tracked W E' X (drop_hunks p (hunks f) ?t)" by (rule tracked_drop)
  then show ?thesis using Some by (simp add: untrack_def)
qed

interpretation inv: handlers W "\<lambda>_. True" "\<lambda>E t. inj (uuid W) \<longrightarrow> tracked W E X t" for W X
proof (unfold_locales, goal_cases frame outside recompute start edit clear clear_drop stop)
  case (frame E t u)
  then show ?case using tracked_frame by blast
next
  case (recompute E t src p E' c)
  then show ?case using tracked_recompute by blast
next
  case (start E t p agent base cur)
  then show ?case using tracked_track by blast
next
  case (edit E t p f g)
  then show ?case using tracked_filter [of W E X t p f g "\<lambda>_. True" "insert p E"] by auto
next
  case (clear E t p f g)
  then show ?case using tracked_clear(1) by blast
next
  case (clear_drop E t p f g)
  then show ?case using tracked_clear(2) by blast
next
  case (stop E t p f E')
  then show ?case using tracked_untrack by blast
qed simp

section \<open>Files of the agent\<close>

definition agents_only :: "Tracker \<Rightarrow> bool" where
  "agents_only t \<longleftrightarrow> (mode t = AgentOnly \<longrightarrow> (\<forall>p f. lookup t p = Some f \<longrightarrow> is_agent_file f))"

definition agent_files_kept :: "path set \<Rightarrow> Tracker \<Rightarrow> bool" where
  "agent_files_kept A t \<longleftrightarrow> (\<forall>p \<in> A. \<exists>f. lookup t p = Some f \<and> is_agent_file f)"

lemma recompute_agent:
  "map_option is_agent_file (lookup (recompute_hunks W p c src t) q) = map_option is_agent_file (lookup t q)"
proof (cases "q = p")
  case True
  then show ?thesis
  proof (cases "lookup t p")
    case (Some f)
    then show ?thesis using True by (simp add: recompute_lookup)
  qed (simp add: recompute_hunks_def)
qed simp

lemma track_lookup [simp]: "lookup (track p b c a t) q = (if q = p then Some (new_file b c a) else lookup t q)"
  "mode (track p b c a t) = mode t"
  by (simp_all add: track_def)

lemma untrack_lookup [simp]: "lookup (untrack p t) q = (if q = p then None else lookup t q)" "mode (untrack p t) = mode t"
  by (auto simp: untrack_def lookup_delete split: option.splits)

lemma agents_only_alt: "agents_only t \<longleftrightarrow> (mode t = AgentOnly \<longrightarrow> (\<forall>p. map_option is_agent_file (lookup t p) \<noteq> Some False))"
  by (auto simp: agents_only_def)

lemma agent_files_alt: "agent_files_kept A t \<longleftrightarrow> (\<forall>p \<in> A. map_option is_agent_file (lookup t p) = Some True)"
  by (auto simp: agent_files_kept_def)

interpretation agent: handlers W "\<lambda>_. True" "\<lambda>_. agents_only" for W
proof unfold_locales
  fix t u :: Tracker assume "agents_only t" "file_states u = file_states t" "mode u = mode t"
  then show "agents_only u" using lookup_cong [of u t] by (simp add: agents_only_def)
next
  fix t p c src assume "agents_only t"
  then show "agents_only (recompute_hunks W p c src t)" by (simp add: agents_only_alt recompute_agent)
qed (auto simp: agents_only_def new_file_def)

interpretation kept: handlers W "\<lambda>_. True" "\<lambda>_. agent_files_kept A" for W A
proof unfold_locales
  fix t u :: Tracker assume "agent_files_kept A t" "file_states u = file_states t"
  then show "agent_files_kept A u" using lookup_cong [of u t] by (simp add: agent_files_kept_def)
next
  fix t p c src assume "agent_files_kept A t"
  then show "agent_files_kept A (recompute_hunks W p c src t)" by (simp add: agent_files_alt recompute_agent)
qed (auto simp: agent_files_kept_def new_file_def)

section \<open>The tracking mode\<close>

lemma fold_untrack_lookup: "lookup (fold untrack ps t) q = (if q \<in> set ps then None else lookup t q)"
  by (induction ps arbitrary: t) simp_all

lemma fold_untrack_mode: "mode (fold untrack ps t) = mode t"
  by (induction ps arbitrary: t) simp_all

lemma tracked_set_mode:
  assumes "inj (uuid W)" "tracked W {} X t"
  shows "tracked W {} X (set_mode W m t)"
proof -
  have m: "tracked W {} X (t\<lparr>mode := m\<rparr>)" using assms(2) by (rule tracked_frame) simp_all
  moreover have "tracked W {} X (fold untrack ps u)" if "tracked W {} X u" for ps u
    using that by (induction ps arbitrary: u) (simp_all add: tracked_untrack [OF assms(1)])
  moreover have "tracked W {} X (refresh_git_dirty_cache W None u)" if "tracked W {} X u" for u
    using that assms(1) inv.refresh_cache_keeps by blast
  ultimately show ?thesis by (auto simp: set_mode_def Let_def)
qed

lemma lookup_mode [simp]: "lookup (t\<lparr>mode := m\<rparr>) p = lookup t p"
  by (simp add: lookup_def)

lemma strangers:
  assumes "distinct (map fst (file_states t))" "lookup t p = Some f"
  shows "p \<in> set (map fst (filter (\<lambda>(_, f). \<not> is_agent_file f) (file_states t))) \<longleftrightarrow> \<not> is_agent_file f"
proof -
  have "(p, g) \<in> set (file_states t) \<longleftrightarrow> g = f" for g
    using assms map_of_eq_Some_iff [of "file_states t" p g] by (auto simp: lookup_def)
  then show ?thesis by force
qed

lemma set_mode_agents: "distinct (map fst (file_states t)) \<Longrightarrow> agents_only t \<Longrightarrow> agents_only (set_mode W m t)"
proof (cases "mode t = AllDirty \<and> m = AgentOnly")
  case True
  assume d: "distinct (map fst (file_states t))"
  show ?thesis using True strangers [OF d]
    by (auto simp: set_mode_def agents_only_def fold_untrack_lookup simp del: set_map)
next
  case False
  assume a: "agents_only t"
  moreover have "agents_only (t\<lparr>mode := AllDirty\<rparr>)" by (simp add: agents_only_def)
  moreover have "m = mode t \<Longrightarrow> agents_only (t\<lparr>mode := m\<rparr>)" using a by (simp add: agents_only_def)
  ultimately show ?thesis using False agent.refresh_cache_keeps [of _ W None]
    by (cases "mode t"; cases m) (auto simp: set_mode_def Let_def)
qed

lemma set_mode_kept:
  assumes "distinct (map fst (file_states t))" "agent_files_kept A t"
  shows "agent_files_kept A (set_mode W m t)"
proof -
  have a: "agent_files_kept A (t\<lparr>mode := m\<rparr>)" using assms(2) by (simp add: agent_files_kept_def)
  have "agent_files_kept A (fold untrack (map fst (filter (\<lambda>(_, f). \<not> is_agent_file f) (file_states t))) (t\<lparr>mode := m\<rparr>))"
    using assms(2) strangers [OF assms(1)] by (fastforce simp: agent_files_kept_def fold_untrack_lookup simp del: set_map)
  then show ?thesis using a kept.refresh_cache_keeps by (auto simp: set_mode_def Let_def simp del: set_map)
qed

end
