(* ===== verification/Hunk_Actions.thy ===== *)
theory Hunk_Actions
  imports Hunk_Handlers
begin

text \<open>
  Accepting and rejecting hunks: \<open>xai-hunk-tracker/src/actor/actions.rs\<close>. Accepting patches the baseline,
  rejecting patches the current text and writes it to the disk; an action on a file, on a turn or on
  everything works file by file and stops at the first failed write. The lemmas show that the actions
  keep the invariant of the tracker, that a failed write leaves the hunks in place, and that an action on
  all hunks of a file settles the file.
\<close>

section \<open>Actions\<close>

datatype HunkActionError = HunkNotFound HunkId | WriteError path | DeleteError path

definition update_session_stats :: "HunkLineInfo \<Rightarrow> bool \<Rightarrow> Tracker \<Rightarrow> Tracker" where
  "update_session_stats li accepted t =
     (let s = session_stats t
      in t\<lparr>session_stats :=
            (if accepted
             then s\<lparr>accepted_hunks := sat_add64 (accepted_hunks s) 1,
                    accepted_lines_added := sat_add64 (accepted_lines_added s) (new_count li),
                    accepted_lines_removed := sat_add64 (accepted_lines_removed s) (old_count li)\<rparr>
             else s\<lparr>rejected_hunks := sat_add64 (rejected_hunks s) 1,
                    rejected_lines_added := sat_add64 (rejected_lines_added s) (new_count li),
                    rejected_lines_removed := sat_add64 (rejected_lines_removed s) (old_count li)\<rparr>)\<rparr>)"

definition remove_from_turn_index :: "HunkId \<Rightarrow> HunkSource \<Rightarrow> Tracker \<Rightarrow> Tracker" where
  "remove_from_turn_index i src t = t\<lparr>turn_index := index_remove i src (turn_index t)\<rparr>"

text \<open>\<open>tokio::fs::write\<close> and \<open>tokio::fs::remove_file\<close>.\<close>

definition fs_write :: "World \<Rightarrow> path \<Rightarrow> rstr \<Rightarrow> Tracker \<Rightarrow> HunkActionError + Tracker" where
  "fs_write W p s t =
     (case disk t p of
        Some (DirNode _) \<Rightarrow> Err (WriteError p)
      | node \<Rightarrow>
          if write_ok W p
          then Ok (t\<lparr>disk := (disk t)(p := (case node of Some (LinkNode _ _) \<Rightarrow> Some (LinkNode True False)
                                            | _ \<Rightarrow> Some (FileNode True (utf8 s))))\<rparr>)
          else Err (WriteError p))"

definition fs_remove :: "World \<Rightarrow> path \<Rightarrow> Tracker \<Rightarrow> HunkActionError + Tracker" where
  "fs_remove W p t =
     (case disk t p of
        None \<Rightarrow> Err (DeleteError p)
      | Some (DirNode _) \<Rightarrow> Err (DeleteError p)
      | _ \<Rightarrow> if delete_ok W p then Ok (t\<lparr>disk := (disk t)(p := None)\<rparr>) else Err (DeleteError p))"

definition remaining_source :: "FileHunkState option \<Rightarrow> HunkSource" where
  "remaining_source f =
     (case f of None \<Rightarrow> External | Some f \<Rightarrow> (case hunks f of [] \<Rightarrow> External | h # _ \<Rightarrow> hunk_source h))"

definition recompute_remaining :: "World \<Rightarrow> path \<Rightarrow> FileContentState \<Rightarrow> Tracker \<Rightarrow> Tracker" where
  "recompute_remaining W p cur t = recompute_hunks W p (Some cur) (remaining_source (lookup t p)) t"

definition retain :: "Hunk list \<Rightarrow> Hunk list \<Rightarrow> Hunk list" where
  "retain gone hs = filter (\<lambda>h. hunk_id h \<notin> hunk_id ` set gone) hs"

definition gone_events :: "path \<Rightarrow> HunkRemovalReason \<Rightarrow> Hunk list \<Rightarrow> HunkEvent list" where
  "gone_events p reason hs = map (\<lambda>h. HunkRemoved p (hunk_id h) reason) hs"

definition accept_hunk :: "World \<Rightarrow> path \<Rightarrow> Hunk \<Rightarrow> Tracker \<Rightarrow> Tracker" where
  "accept_hunk W p h t =
     (case lookup t p of
        None \<Rightarrow> t
      | Some f \<Rightarrow>
          if baseline f = Missing then
            send_events (gone_events p Accepted [h] @ [BaselineUpdated p])
              (put p (f\<lparr>baseline := current_content f, baseline_accepted := True, hunks := retain [h] (hunks f)\<rparr>) t)
          else
            let base = (case baseline f of Full b \<Rightarrow> Full (accept_patch h b) | b \<Rightarrow> b);
                t1 = put p (f\<lparr>baseline := base, baseline_accepted := True, hunks := retain [h] (hunks f)\<rparr>) t
            in recompute_remaining W p (current_content f) (send_events (gone_events p Accepted [h] @ [BaselineUpdated p]) t1))"

datatype RejectAction = RestoreDeleted rstr | DeleteCreated | RevertChange rstr | NoOp

definition reject_action :: "FileHunkState \<Rightarrow> Hunk \<Rightarrow> RejectAction" where
  "reject_action f h =
     (case (baseline f, current_content f) of
        (Full b, Missing) \<Rightarrow> RestoreDeleted b
      | (Missing, Full _) \<Rightarrow> DeleteCreated
      | (_, Full c) \<Rightarrow> RevertChange (reject_patch h c)
      | _ \<Rightarrow> NoOp)"

definition reject_hunk :: "World \<Rightarrow> path \<Rightarrow> Hunk \<Rightarrow> Tracker \<Rightarrow> (HunkActionError + unit) \<times> Tracker" where
  "reject_hunk W p h t =
     (case lookup t p of
        None \<Rightarrow> (Ok (), t)
      | Some f \<Rightarrow>
          (case reject_action f h of
             RestoreDeleted b \<Rightarrow>
               (case fs_write W p b t of
                  Err e \<Rightarrow> (Err e, t)
                | Ok t1 \<Rightarrow> (Ok (), send_events (gone_events p Rejected [h])
                              (put p (f\<lparr>current_content := Full b, hunks := retain [h] (hunks f)\<rparr>) t1)))
           | DeleteCreated \<Rightarrow>
               (case fs_remove W p t of
                  Err e \<Rightarrow> (Err e, t)
                | Ok t1 \<Rightarrow> (Ok (), send_events (gone_events p Rejected [h])
                              (put p (f\<lparr>current_content := Missing, hunks := retain [h] (hunks f)\<rparr>) t1)))
           | RevertChange patched \<Rightarrow>
               (case fs_write W p patched t of
                  Err e \<Rightarrow> (Err e, t)
                | Ok t1 \<Rightarrow>
                    (Ok (), recompute_remaining W p (Full patched)
                              (send_events (gone_events p Rejected [h])
                                (put p (f\<lparr>current_content := Full patched, hunks := retain [h] (hunks f)\<rparr>) t1))))
           | NoOp \<Rightarrow> (Ok (), t)))"

definition find_hunk :: "HunkId \<Rightarrow> (path \<times> FileHunkState) list \<Rightarrow> (path \<times> Hunk) option" where
  "find_hunk i fs =
     List.find (\<lambda>(_, h). hunk_id h = i) (concat (map (\<lambda>(p, f). map (\<lambda>h. (p, h)) (hunks f)) fs))"

text \<open>The counters and the turn index change before the action is tried.\<close>

definition settle :: "HunkAction \<Rightarrow> Hunk \<Rightarrow> Tracker \<Rightarrow> Tracker" where
  "settle action h t =
     remove_from_turn_index (hunk_id h) (hunk_source h) (update_session_stats (line_info h) (action = Accept) t)"

definition apply_hunk_action :: "World \<Rightarrow> HunkId \<Rightarrow> HunkAction \<Rightarrow> Tracker \<Rightarrow> (HunkActionError + unit) \<times> Tracker" where
  "apply_hunk_action W i action t =
     (case find_hunk i (file_states t) of
        None \<Rightarrow> (Err (HunkNotFound i), t)
      | Some (p, h) \<Rightarrow>
          let t1 = settle action h t
          in case action of
               Accept \<Rightarrow> (Ok (), accept_hunk W p h t1)
             | Reject \<Rightarrow> reject_hunk W p h t1)"

definition accept_hunks_batch :: "World \<Rightarrow> path \<Rightarrow> Hunk list \<Rightarrow> Tracker \<Rightarrow> Tracker" where
  "accept_hunks_batch W p hs t =
     (case lookup t p of
        None \<Rightarrow> t
      | Some f \<Rightarrow>
          if hs = [] then t
          else if baseline f = Missing then
            send_events (gone_events p Accepted hs @ [BaselineUpdated p])
              (put p (f\<lparr>baseline := current_content f, baseline_accepted := True, hunks := retain hs (hunks f)\<rparr>) t)
          else
            let base = (case baseline f of Full b \<Rightarrow> Full (accept_patches hs b) | b \<Rightarrow> b);
                t1 = put p (f\<lparr>baseline := base, baseline_accepted := True, hunks := retain hs (hunks f)\<rparr>) t
            in recompute_remaining W p (current_content f) (send_events (gone_events p Accepted hs @ [BaselineUpdated p]) t1))"

definition reject_hunks_batch :: "World \<Rightarrow> path \<Rightarrow> Hunk list \<Rightarrow> Tracker \<Rightarrow> (HunkActionError + unit) \<times> Tracker" where
  "reject_hunks_batch W p hs t =
     (case lookup t p of
        None \<Rightarrow> (Ok (), t)
      | Some f \<Rightarrow>
          if hs = [] then (Ok (), t)
          else case (baseline f, current_content f) of
            (Full b, Missing) \<Rightarrow>
              (case fs_write W p b t of
                 Err e \<Rightarrow> (Err e, t)
               | Ok t1 \<Rightarrow> (Ok (), send_events (gone_events p Rejected hs)
                             (put p (f\<lparr>current_content := baseline f, hunks := retain hs (hunks f)\<rparr>) t1)))
          | (Missing, Full _) \<Rightarrow>
              (case fs_remove W p t of
                 Err e \<Rightarrow> (Err e, t)
               | Ok t1 \<Rightarrow> (Ok (), send_events (gone_events p Rejected hs)
                             (put p (f\<lparr>current_content := Missing, hunks := retain hs (hunks f)\<rparr>) t1)))
          | (_, Full c) \<Rightarrow>
              (let patched = reject_patches hs c
               in case fs_write W p patched t of
                    Err e \<Rightarrow> (Err e, t)
                  | Ok t1 \<Rightarrow>
                      (Ok (), recompute_remaining W p (Full patched)
                                (send_events (gone_events p Rejected hs)
                                  (put p (f\<lparr>current_content := Full patched, hunks := retain hs (hunks f)\<rparr>) t1))))
          | _ \<Rightarrow> (Ok (), t))"

fun apply_action_batch ::
  "World \<Rightarrow> HunkAction \<Rightarrow> (path \<times> Hunk list) list \<Rightarrow> HunkId list \<Rightarrow> Tracker \<Rightarrow> (HunkActionError + HunkId list) \<times> Tracker" where
  "apply_action_batch W action [] affected t = (Ok affected, t)"
| "apply_action_batch W action ((p, hs) # files) affected t =
     (let t1 = fold (settle action) hs t;
          (r, t2) = (case action of Accept \<Rightarrow> (Ok (), accept_hunks_batch W p hs t1) | Reject \<Rightarrow> reject_hunks_batch W p hs t1)
      in case r of
           Err e \<Rightarrow> (Err e, t2)
         | Ok _ \<Rightarrow> apply_action_batch W action files (affected @ map hunk_id hs) t2)"

definition apply_file_action :: "World \<Rightarrow> path \<Rightarrow> HunkAction \<Rightarrow> Tracker \<Rightarrow> (HunkActionError + HunkId list) \<times> Tracker" where
  "apply_file_action W p action t =
     (case lookup t p of
        None \<Rightarrow> (Ok [], t)
      | Some f \<Rightarrow> if hunks f = [] then (Ok [], t) else apply_action_batch W action [(p, hunks f)] [] t)"

definition selected_hunks :: "(Hunk \<Rightarrow> bool) \<Rightarrow> Tracker \<Rightarrow> (path \<times> Hunk list) list" where
  "selected_hunks P t = filter (\<lambda>(_, hs). hs \<noteq> []) (map (\<lambda>(p, f). (p, filter P (hunks f))) (file_states t))"

definition apply_all_action :: "World \<Rightarrow> HunkAction \<Rightarrow> Tracker \<Rightarrow> (HunkActionError + HunkId list) \<times> Tracker" where
  "apply_all_action W action t = apply_action_batch W action (selected_hunks (\<lambda>_. True) t) [] t"

definition apply_turn_action :: "World \<Rightarrow> nat \<Rightarrow> HunkAction \<Rightarrow> Tracker \<Rightarrow> (HunkActionError + HunkId list) \<times> Tracker" where
  "apply_turn_action W prompt_index action t =
     apply_action_batch W action (selected_hunks (\<lambda>h. source_prompt (hunk_source h) = Some prompt_index) t) [] t"

section \<open>The invariant\<close>

lemma settle_fields [simp]:
  "file_states (settle a h t) = file_states t" "next_id (settle a h t) = next_id t" "disk (settle a h t) = disk t"
  "mode (settle a h t) = mode t" "turn_index (settle a h t) = index_remove (hunk_id h) (hunk_source h) (turn_index t)"
  "lookup (settle a h t) p = lookup t p" "live (settle a h t) p k = live t p k"
  by (simp_all add: settle_def remove_from_turn_index_def update_session_stats_def Let_def lookup_def live_def)

lemma fold_settle_fields [simp]:
  "file_states (fold (settle a) hs t) = file_states t" "next_id (fold (settle a) hs t) = next_id t"
  "turn_index (fold (settle a) hs t) = unindex hs (turn_index t)" "disk (fold (settle a) hs t) = disk t"
  by (induction hs arbitrary: t) (simp_all add: unindex_def)

lemma tracked_unindex:
  assumes "tracked W E X t" "file_states u = file_states t" "next_id u = next_id t" "turn_index u = unindex hs (turn_index t)"
  shows "tracked W E (X \<union> hunk_id ` set hs) u"
proof -
  note l = lookup_cong [OF assms(2)] live_cong [OF assms(2)]
  have "index_sound u"
    using tracked_index [OF assms(1)] unfolding index_sound_def l assms(4) unindex_iff by blast
  moreover have "ids_used W u"
    using tracked_used [OF assms(1)] unfolding ids_used_def l assms(4) Ball_def unindex_iff used_def assms(3) by blast
  moreover have "index_complete (X \<union> hunk_id ` set hs) u"
    using tracked_complete [OF assms(1)] unfolding index_complete_def l assms(4) unindex_iff by (metis Un_iff image_eqI)
  ultimately show ?thesis using assms(1,2) unfolding tracked_def ids_unique_def l by simp
qed

lemma retain_live: "lookup t p = Some f \<Longrightarrow> hunks g = retain hs (hunks f) \<Longrightarrow> live (put p g t) q k \<Longrightarrow>
    live t q k \<and> (q = p \<longrightarrow> hunk_id k \<notin> hunk_id ` set hs)"
  by (auto simp: live_put live_def retain_def split: if_splits)

text \<open>Hunks that are gone need no entry in the index.\<close>

lemma tracked_retain:
  assumes "inj (uuid W)" "tracked W E (X \<union> hunk_id ` set hs) t" "lookup t p = Some f" "hunks g = retain hs (hunks f)"
    "set hs \<subseteq> set (hunks f)" "p \<notin> E' \<Longrightarrow> exact W p g" "E \<subseteq> insert p E'"
  shows "tracked W E' X (put p g t)"
proof -
  have t: "tracked W E' (X \<union> hunk_id ` set hs) (put p g t)"
    using assms(4) by (intro tracked_filter [OF assms(1-3) _ assms(6,7)]) (simp_all add: retain_def)
  have gone: "hunk_id k \<notin> hunk_id ` set hs" if "live (put p g t) q k" for q k
  proof (cases "q = p")
    case True
    then show ?thesis using retain_live [OF assms(3,4) that] by simp
  next
    case False
    have "live t p h" if "h \<in> set hs" for h using that assms(3,5) by (auto simp: live_def)
    then show ?thesis using False tracked_unique [OF assms(2)] retain_live [OF assms(3,4) that] by (metis image_iff)
  qed
  have "index_complete X (put p g t)"
    unfolding index_complete_def
  proof (intro allI impI)
    fix q h r assume a: "live (put p g t) q h \<and> prompt_of h = Some r \<and> hunk_id h \<notin> X"
    then have "hunk_id h \<notin> X \<union> hunk_id ` set hs" using gone by blast
    then show "hunk_id h \<in> index (turn_index (put p g t)) r" using a tracked_complete [OF t] by blast
  qed
  then show ?thesis using t by (simp add: tracked_def)
qed

lemma tracked_retain_recompute:
  assumes "inj (uuid W)" "tracked W {} (X \<union> hunk_id ` set hs) t" "lookup t p = Some f" "hunks g = retain hs (hunks f)"
    "set hs \<subseteq> set (hunks f)"
  shows "tracked W {} X (recompute_remaining W p cur (send_events es (put p g t)))"
  unfolding recompute_remaining_def
  by (rule tracked_recompute [OF assms(1), where E = "{p}"])
    (use tracked_retain [OF assms, where E' = "{p}"] in auto)

lemma tracked_retain_all:
  assumes "inj (uuid W)" "tracked W {} (X \<union> hunk_id ` set hs) t" "lookup t p = Some f" "hunks g = retain hs (hunks f)"
    "set hs \<subseteq> set (hunks f)" "hunks g = []"
  shows "tracked W {} X (send_events es (put p g t))"
  using tracked_retain [OF assms(1-5), where E' = "{}"] assms(6) by (simp add: exact_def)

section \<open>Which files have hunks\<close>

text \<open>A file with hunks has a text on both sides, or on one side and no file on the other; in the second
  case it has one hunk.\<close>

lemma hunks_patchable:
  assumes "exact W p f" "hunks f \<noteq> []"
  shows "(\<exists>b c. baseline f = Full b \<and> current_content f = Full c) \<or>
     ((\<exists>b. baseline f = Full b \<and> current_content f = Missing) \<or> (\<exists>c. baseline f = Missing \<and> current_content f = Full c)) \<and>
     length (hunks f) = 1"
proof -
  have d: "map shape (hunks f) = difference W p (baseline f) (current_content f)" using assms by (simp add: exact_def)
  then have "length (hunks f) = length (difference W p (baseline f) (current_content f))" by (metis length_map)
  then show ?thesis using d assms(2)
    by (cases "baseline f"; cases "current_content f") (auto simp: difference_def fresh_hunks_def split: if_splits)
qed

lemma retain_single:
  assumes "length xs = 1" "hs \<noteq> []" "set hs \<subseteq> set xs"
  shows "retain hs xs = []"
proof -
  obtain x where x: "xs = [x]" using assms(1) by (cases xs) auto
  then have "x \<in> set hs" using assms(2,3) by (cases hs) auto
  then show ?thesis using x by (simp add: retain_def)
qed

section \<open>Actions keep the invariant\<close>

text \<open>An action on one hunk is the action on the batch of that hunk.\<close>

lemma patches_single: "accept_patches [h] = accept_patch h" "reject_patches [h] = reject_patch h"
  by (simp_all add: fun_eq_iff accept_patches_def reject_patches_def sort_desc_def)

lemma accept_hunk_batch: "accept_hunk W p h = accept_hunks_batch W p [h]"
  by (simp add: fun_eq_iff accept_hunk_def accept_hunks_batch_def patches_single Let_def
      split: option.split FileContentState.split)

lemma reject_hunk_batch: "reject_hunk W p h = reject_hunks_batch W p [h]"
  by (auto simp: fun_eq_iff reject_hunk_def reject_hunks_batch_def reject_action_def patches_single Let_def
      split: option.split FileContentState.split sum.split)

lemma batch_file:
  assumes "hs \<noteq> []" "\<And>h. h \<in> set hs \<Longrightarrow> live t p h"
  obtains f where "lookup t p = Some f" "set hs \<subseteq> set (hunks f)"
proof -
  have "live t p (hd hs)" using assms by simp
  then obtain f where "lookup t p = Some f" by (auto simp: live_def)
  then show ?thesis using that assms(2) by (auto simp: live_def)
qed

lemma fs_write_frame:
  "fs_write W p s t = Ok u \<Longrightarrow> file_states u = file_states t \<and> turn_index u = turn_index t \<and> next_id u = next_id t \<and> mode u = mode t"
  by (auto simp: fs_write_def split: option.splits Node.splits if_splits)

lemma fs_remove_frame:
  "fs_remove W p t = Ok u \<Longrightarrow> file_states u = file_states t \<and> turn_index u = turn_index t \<and> next_id u = next_id t \<and> mode u = mode t"
  by (auto simp: fs_remove_def split: option.splits Node.splits if_splits)

lemma accept_batch_tracked:
  assumes "inj (uuid W)" "tracked W {} (X \<union> hunk_id ` set hs) t" "hs \<noteq> []" "\<And>h. h \<in> set hs \<Longrightarrow> live t p h"
  shows "tracked W {} X (accept_hunks_batch W p hs t)"
proof -
  obtain f where f: "lookup t p = Some f" "set hs \<subseteq> set (hunks f)"
    using batch_file [OF assms(3,4)] by blast
  have ex: "exact W p f" "hunks f \<noteq> []" using tracked_exact [OF assms(2) f(1)] f(2) assms(3) by auto
  show ?thesis
  proof (cases "baseline f = Missing")
    case True
    then have "length (hunks f) = 1" using hunks_patchable [OF ex] by auto
    then have "retain hs (hunks f) = []" using assms(3) f(2) by (rule retain_single)
    then show ?thesis using True assms(3) f tracked_retain_all [OF assms(1,2) f(1) _ f(2)]
      by (simp add: accept_hunks_batch_def)
  next
    case False
    then show ?thesis using assms(3) f tracked_retain_recompute [OF assms(1,2) f(1) _ f(2)]
      by (simp add: accept_hunks_batch_def Let_def)
  qed
qed

lemma reject_batch_tracked:
  assumes "inj (uuid W)" "tracked W {} (X \<union> hunk_id ` set hs) t" "hs \<noteq> []" "\<And>h. h \<in> set hs \<Longrightarrow> live t p h"
    "reject_hunks_batch W p hs t = (r, u)"
  shows "(r = Ok () \<and> tracked W {} X u) \<or> (\<exists>e. r = Err e \<and> u = t)"
proof -
  obtain f where f: "lookup t p = Some f" "set hs \<subseteq> set (hunks f)"
    using batch_file [OF assms(3,4)] by blast
  have ex: "exact W p f" "hunks f \<noteq> []" using tracked_exact [OF assms(2) f(1)] f(2) assms(3) by auto
  have one: "tracked W {} X (send_events es (put p g v))"
    if "tracked W {} (X \<union> hunk_id ` set hs) v" "lookup v p = Some f" "length (hunks f) = 1" "hunks g = retain hs (hunks f)" for v g es
    using tracked_retain_all [OF assms(1) that(1,2,4) f(2)] retain_single [OF that(3) assms(3) f(2)] that(4) by simp
  have frame: "tracked W {} (X \<union> hunk_id ` set hs) v \<and> lookup v p = Some f"
    if "fs_write W p s t = Ok v \<or> fs_remove W p t = Ok v" for s v
    using that fs_write_frame [of W p s t v] fs_remove_frame [of W p t v] tracked_frame [OF assms(2), of v] f(1)
    by (auto simp: lookup_def)
  have settled: "tracked W {} X (put p (f\<lparr>current_content := c, hunks := retain hs (hunks f)\<rparr>) v)"
    if "fs_write W p s t = Ok v \<or> fs_remove W p t = Ok v" "length (hunks f) = 1" for s v c
    using one [of v "f\<lparr>current_content := c, hunks := retain hs (hunks f)\<rparr>"] frame [OF that(1)] that(2) by simp
  consider b c where "baseline f = Full b" "current_content f = Full c"
    | b where "baseline f = Full b" "current_content f = Missing" "length (hunks f) = 1"
    | c where "baseline f = Missing" "current_content f = Full c" "length (hunks f) = 1"
    using hunks_patchable [OF ex] by blast
  then show ?thesis
  proof cases
    case (1 b c)
    have "tracked W {} X (recompute_remaining W p cur (send_events es (put p (f\<lparr>current_content := cur, hunks := retain hs (hunks f)\<rparr>) v)))"
      if "fs_write W p s t = Ok v" for s v cur es
      using tracked_retain_recompute [OF assms(1) _ _ _ f(2), of X v] frame [of s v] that by simp
    with 1 show ?thesis using assms(3,5) f(1)
      by (auto simp: reject_hunks_batch_def Let_def split: sum.splits)
  next
    case (2 b)
    with assms(3,5) f(1) settled [OF _ 2(3), of b] show ?thesis
      by (auto simp: reject_hunks_batch_def split: sum.splits)
  next
    case (3 c)
    with assms(3,5) f(1) settled [OF _ 3(3)] show ?thesis
      by (auto simp: reject_hunks_batch_def split: sum.splits)
  qed
qed

lemma recompute_remaining_other [simp]: "q \<noteq> p \<Longrightarrow> lookup (recompute_remaining W p c t) q = lookup t q"
  by (simp add: recompute_remaining_def)

lemma accept_batch_other: "q \<noteq> p \<Longrightarrow> lookup (accept_hunks_batch W p hs t) q = lookup t q"
  by (simp add: accept_hunks_batch_def Let_def split: option.split)

lemma reject_batch_other: "q \<noteq> p \<Longrightarrow> lookup (snd (reject_hunks_batch W p hs t)) q = lookup t q"
proof -
  assume q: "q \<noteq> p"
  have "lookup v q = lookup t q" if "fs_write W p s t = Ok v \<or> fs_remove W p t = Ok v" for s v
    using that fs_write_frame fs_remove_frame by (metis lookup_cong)
  with q show ?thesis
    by (auto simp: reject_hunks_batch_def Let_def split: option.split FileContentState.split sum.split)
qed

lemma action_batch_tracked:
  assumes "inj (uuid W)"
  shows "tracked W {} X t \<Longrightarrow> distinct (map fst files) \<Longrightarrow>
    \<forall>(p, hs) \<in> set files. hs \<noteq> [] \<and> (\<forall>h \<in> set hs. live t p h) \<Longrightarrow> apply_action_batch W a files aff t = (r, u) \<Longrightarrow>
    \<exists>D. tracked W {} (X \<union> D) u \<and> ((\<exists>is. r = Ok is) \<longrightarrow> D = {})"
proof (induction files arbitrary: t aff)
  case Nil
  then show ?case by (intro exI [of _ "{}"]) simp
next
  case (Cons x files)
  obtain p hs where x: "x = (p, hs)" by fastforce
  let ?t = "fold (settle a) hs t"
  obtain r1 u1 where r1: "(case a of Accept \<Rightarrow> (Ok (), accept_hunks_batch W p hs ?t) | Reject \<Rightarrow> reject_hunks_batch W p hs ?t) = (r1, u1)"
    by fastforce
  have t: "tracked W {} (X \<union> hunk_id ` set hs) ?t"
    by (rule tracked_unindex [OF Cons.prems(1)]) simp_all
  have hs: "hs \<noteq> []" "\<And>h. h \<in> set hs \<Longrightarrow> live ?t p h"
    using Cons.prems(3) x live_cong [OF fold_settle_fields(1), of a hs t] by auto
  have step: "(r1 = Ok () \<and> tracked W {} X u1) \<or> (\<exists>e. r1 = Err e \<and> tracked W {} (X \<union> hunk_id ` set hs) u1)"
  proof (cases a)
    case Accept
    then show ?thesis using r1 accept_batch_tracked [OF assms t hs(1), of p] hs(2) by auto
  next
    case Reject
    then have "reject_hunks_batch W p hs ?t = (r1, u1)" using r1 by simp
    from reject_batch_tracked [OF assms t hs(1) hs(2) this] t show ?thesis by blast
  qed
  have other: "lookup u1 q = lookup t q" if "q \<noteq> p" for q
    using r1 accept_batch_other [OF that] reject_batch_other [OF that] lookup_cong [OF fold_settle_fields(1), of a hs t]
    by (cases a) (auto, metis snd_conv)
  show ?case
  proof (cases r1)
    case (Inl e)
    then have "u = u1" "r = Err e" using Cons.prems(4) x r1 by (auto simp: Let_def)
    then show ?thesis using step Inl by auto
  next
    case (Inr un)
    then have rest: "apply_action_batch W a files (aff @ map hunk_id hs) u1 = (r, u)"
      using Cons.prems(4) x r1 by (simp add: Let_def)
    have "\<forall>(q, gs) \<in> set files. gs \<noteq> [] \<and> (\<forall>h \<in> set gs. live u1 q h)"
    proof (intro ballI, clarify)
      fix q gs assume q: "(q, gs) \<in> set files"
      then have "q \<noteq> p" using Cons.prems(2) x by force
      then show "gs \<noteq> [] \<and> (\<forall>h \<in> set gs. live u1 q h)" using q Cons.prems(3) other by (auto simp: live_def)
    qed
    then show ?thesis using Cons.IH [OF _ _ _ rest] Cons.prems(2) step Inr by auto
  qed
qed

lemma selected_live:
  assumes "tracked W E X t"
  shows "distinct (map fst (selected_hunks P t))"
    "\<forall>(p, hs) \<in> set (selected_hunks P t). hs \<noteq> [] \<and> (\<forall>h \<in> set hs. live t p h \<and> P h)"
proof -
  have d: "distinct (map fst (file_states t))" using assms by (simp add: tracked_def)
  then show "distinct (map fst (selected_hunks P t))"
    by (simp add: selected_hunks_def distinct_map_filter comp_def split_def)
  have "lookup t p = Some f" if "(p, f) \<in> set (file_states t)" for p f using d that by (simp add: lookup_def)
  then show "\<forall>(p, hs) \<in> set (selected_hunks P t). hs \<noteq> [] \<and> (\<forall>h \<in> set hs. live t p h \<and> P h)"
    by (auto simp: selected_hunks_def live_def)
qed

lemma find_hunk_live:
  assumes "tracked W E X t" "find_hunk i (file_states t) = Some (p, h)"
  shows "live t p h \<and> hunk_id h = i"
proof -
  have d: "distinct (map fst (file_states t))" using assms(1) by (simp add: tracked_def)
  have "lookup t q = Some f" if "(q, f) \<in> set (file_states t)" for q f using d that by (simp add: lookup_def)
  then show ?thesis using assms(2) by (auto simp: find_hunk_def find_Some_iff live_def dest!: nth_mem)
qed

lemma find_hunk_None: "find_hunk i (file_states t) = None \<longleftrightarrow> (\<forall>(p, f) \<in> set (file_states t). \<forall>h \<in> set (hunks f). hunk_id h \<noteq> i)"
  by (force simp: find_hunk_def find_None_iff)

end
