(* ===== verification/Hunk_Actor.thy ===== *)
theory Hunk_Actor
  imports Hunk_Actions
begin

text \<open>
  The actor of the hunk tracker: its queries (\<open>xai-hunk-tracker/src/actor/queries.rs\<close>), snapshots (\<open>mod.rs\<close> and
  \<open>types.rs\<close>), the commands with their replies (\<open>commands.rs\<close>, \<open>handle_command\<close>) and the coalescing of queued
  notifications (\<open>CoalescedBatch\<close>, \<open>handle_coalesced_batch\<close>). A command that replies to a client returns the
  reply; the handle that sends commands through a channel is left out. The actor's life is the step relation
  \<open>actor\<close>: commands, batches and changes of the disk in any order, in a world that may change between steps
  except for the differ and the supply of identifiers. A snapshot that is restored was taken from the
  tracker before.
\<close>

section \<open>Queries\<close>

definition hunk_pairs :: "Tracker \<Rightarrow> (path \<times> Hunk) list" where
  "hunk_pairs t = concat (map (\<lambda>(p, f). map (\<lambda>h. (p, h)) (hunks f)) (file_states t))"

definition get_all_hunks :: "Tracker \<Rightarrow> Hunk list" where
  "get_all_hunks t = concat (map (\<lambda>(_, f). hunks f) (file_states t))"

definition get_hunks_for_path :: "Tracker \<Rightarrow> path \<Rightarrow> Hunk list" where
  "get_hunks_for_path t p = (case lookup t p of Some f \<Rightarrow> hunks f | None \<Rightarrow> [])"

record FileHunkData =
  data_hunks :: "Hunk list"
  data_baseline :: FileContentView
  data_current :: FileContentView
  data_baseline_content :: "rstr option"
  data_current_content :: "rstr option"

definition patch_of :: "FileHunkState \<Rightarrow> Hunk \<Rightarrow> rstr option" where
  "patch_of f h =
     (case (as_str (baseline f), as_str (current_content f)) of
        (Some b, Some c) \<Rightarrow> generate_hunk_patch b c h
      | (None, Some c) \<Rightarrow> generate_hunk_patch [] c h
      | (Some b, None) \<Rightarrow> generate_hunk_patch b [] h
      | (None, None) \<Rightarrow> None)"

definition get_file_hunk_data :: "Tracker \<Rightarrow> path \<Rightarrow> FileHunkData" where
  "get_file_hunk_data t p =
     (case lookup t p of
        Some f \<Rightarrow>
          (let base = from_content_state (baseline f); cur = from_content_state (current_content f)
           in \<lparr>data_hunks = map (\<lambda>h. h\<lparr>hunk_patch := patch_of f h\<rparr>) (hunks f), data_baseline = base, data_current = cur,
               data_baseline_content = view_content base, data_current_content = view_content cur\<rparr>)
      | None \<Rightarrow>
          \<lparr>data_hunks = [], data_baseline = mk_view StMissing None None, data_current = mk_view StMissing None None,
           data_baseline_content = None, data_current_content = None\<rparr>)"

definition get_all_tracked_paths :: "Tracker \<Rightarrow> path list" where
  "get_all_tracked_paths t = map fst (file_states t)"

definition get_hunks_by_source :: "Tracker \<Rightarrow> HunkSourceFilter \<Rightarrow> Hunk list" where
  "get_hunks_by_source t s =
     filter (\<lambda>h. case s of FilterAgent \<Rightarrow> is_agent_edit (hunk_source h) | FilterExternal \<Rightarrow> is_external (hunk_source h))
       (get_all_hunks t)"

definition get_hunk :: "Tracker \<Rightarrow> HunkId \<Rightarrow> Hunk option" where
  "get_hunk t i = List.find (\<lambda>h. hunk_id h = i) (get_all_hunks t)"

definition get_hunks_for_turn :: "Tracker \<Rightarrow> nat \<Rightarrow> Hunk list" where
  "get_hunks_for_turn t q =
     (case turn_index t q of None \<Rightarrow> [] | Some ids \<Rightarrow> List.map_filter (get_hunk t) ids)"

record TurnData =
  td_files :: "path list"
  td_pending :: "Hunk list"
  td_added :: nat
  td_removed :: nat

definition turn_data_empty :: TurnData where
  "turn_data_empty = \<lparr>td_files = [], td_pending = [], td_added = 0, td_removed = 0\<rparr>"

record TurnSummary =
  ts_prompt_index :: nat
  ts_files :: "path list"
  ts_pending :: "Hunk list"
  ts_added :: nat
  ts_removed :: nat

record SessionSummary =
  sum_stats :: SessionStats
  turns :: "TurnSummary list"
  files_modified :: nat
  files_with_pending :: nat
  pending_hunks :: nat
  pending_lines_added :: nat
  pending_lines_removed :: nat
  unattributed_pending :: nat

definition add_pending :: "path \<Rightarrow> Hunk \<Rightarrow> TurnData \<Rightarrow> TurnData" where
  "add_pending p h d =
     \<lparr>td_files = List.insert p (td_files d), td_pending = td_pending d @ [h],
      td_added = td_added d + new_count (line_info h), td_removed = td_removed d + old_count (line_info h)\<rparr>"

definition by_prompt_step :: "path \<times> Hunk \<Rightarrow> (nat \<times> TurnData) list \<times> nat \<Rightarrow> (nat \<times> TurnData) list \<times> nat" where
  "by_prompt_step ph acc =
     (case source_prompt (hunk_source (snd ph)) of
        Some q \<Rightarrow>
          (let d = (case map_of (fst acc) q of Some d \<Rightarrow> d | None \<Rightarrow> turn_data_empty)
           in (AList.update q (add_pending (fst ph) (snd ph) d) (fst acc), snd acc))
      | None \<Rightarrow> (fst acc, snd acc + 1))"

definition summary_of :: "nat \<times> TurnData \<Rightarrow> TurnSummary" where
  "summary_of x =
     \<lparr>ts_prompt_index = fst x, ts_files = td_files (snd x), ts_pending = td_pending (snd x),
      ts_added = td_added (snd x), ts_removed = td_removed (snd x)\<rparr>"

definition agent_paths :: "Tracker \<Rightarrow> path list" where
  "agent_paths t = map fst (filter (\<lambda>(_, f). \<exists>h \<in> set (hunks f). source_prompt (hunk_source h) \<noteq> None) (file_states t))"

definition compute_session_summary :: "Tracker \<Rightarrow> SessionSummary" where
  "compute_session_summary t =
     (let (by_prompt, unattributed) = fold by_prompt_step (hunk_pairs t) ([], 0);
          ts = sort_key ts_prompt_index (map summary_of by_prompt)
      in \<lparr>sum_stats = session_stats t, turns = ts, files_modified = length (remdups (agent_paths t)),
          files_with_pending = length (remdups (agent_paths t)),
          pending_hunks = sum_list (map (\<lambda>s. length (ts_pending s)) ts),
          pending_lines_added = sum_list (map ts_added ts), pending_lines_removed = sum_list (map ts_removed ts),
          unattributed_pending = unattributed\<rparr>)"

record FileContentEntry =
  entry_path :: path
  entry_baseline :: FileContentView
  entry_current :: FileContentView
  entry_is_agent_file :: bool
  entry_staged :: bool

definition content_entry :: "Tracker \<Rightarrow> path \<times> FileHunkState \<Rightarrow> FileContentEntry" where
  "content_entry t x =
     \<lparr>entry_path = fst x, entry_baseline = from_content_state (baseline (snd x)),
      entry_current = from_content_state (current_content (snd x)), entry_is_agent_file = is_agent_file (snd x),
      entry_staged = (rel_path t (fst x) \<in> set (git_staged_cache t))\<rparr>"

section \<open>Snapshots\<close>

record FileHunkStateSnapshot =
  snap_baseline :: FileContentState
  snap_current_content :: FileContentState
  snap_hunks :: "Hunk list"
  snap_is_agent_file :: bool
  snap_baseline_accepted :: bool

record HunkTrackerSnapshot =
  snap_file_states :: "(path \<times> FileHunkStateSnapshot) list"
  snap_turn_index :: TurnIndex
  snap_session_stats :: SessionStats

record HunkTurnDelta =
  delta_prompt_index :: nat
  delta_file_states :: "(path \<times> FileHunkStateSnapshot) list"
  delta_hunk_ids :: "HunkId list"

definition snapshot_file_state :: "FileHunkState \<Rightarrow> FileHunkStateSnapshot" where
  "snapshot_file_state f =
     \<lparr>snap_baseline = baseline f, snap_current_content = current_content f, snap_hunks = hunks f,
      snap_is_agent_file = is_agent_file f, snap_baseline_accepted = baseline_accepted f\<rparr>"

definition restore_file_state :: "FileHunkStateSnapshot \<Rightarrow> FileHunkState" where
  "restore_file_state s =
     \<lparr>baseline = snap_baseline s, current_content = snap_current_content s, hunks = snap_hunks s,
      is_agent_file = snap_is_agent_file s, baseline_accepted = snap_baseline_accepted s\<rparr>"

definition take_snapshot :: "Tracker \<Rightarrow> HunkTrackerSnapshot" where
  "take_snapshot t =
     \<lparr>snap_file_states = map (\<lambda>(p, f). (p, snapshot_file_state f)) (file_states t),
      snap_turn_index = turn_index t, snap_session_stats = session_stats t\<rparr>"

definition take_turn_delta :: "Tracker \<Rightarrow> nat \<Rightarrow> HunkTurnDelta" where
  "take_turn_delta t q =
     (let ids = (case turn_index t q of Some ids \<Rightarrow> ids | None \<Rightarrow> [])
      in \<lparr>delta_prompt_index = q,
          delta_file_states =
            map (\<lambda>(p, f). (p, snapshot_file_state f))
              (filter (\<lambda>(_, f). \<exists>h \<in> set (hunks f). hunk_id h \<in> set ids) (file_states t)),
          delta_hunk_ids = ids\<rparr>)"

definition restore_snapshot :: "HunkTrackerSnapshot \<Rightarrow> Tracker \<Rightarrow> Tracker" where
  "restore_snapshot s t =
     t\<lparr>file_states := map (\<lambda>(p, f). (p, restore_file_state f)) (snap_file_states s),
       turn_index := snap_turn_index s, session_stats := snap_session_stats s\<rparr>"

definition rewrite_single_path :: "path \<Rightarrow> path \<Rightarrow> path \<Rightarrow> path \<Rightarrow> path option" where
  "rewrite_single_path p old_cwd canonical_old new_cwd =
     map_option (path_in new_cwd)
       (case path_under canonical_old p of Some r \<Rightarrow> Some r | None \<Rightarrow> path_under old_cwd p)"

definition rewrite_entry :: "path \<Rightarrow> path \<Rightarrow> path \<Rightarrow> path \<times> FileHunkStateSnapshot \<Rightarrow> path \<times> FileHunkStateSnapshot" where
  "rewrite_entry old_cwd canonical_old new_cwd x =
     (let target = (case rewrite_single_path (fst x) old_cwd canonical_old new_cwd of Some q \<Rightarrow> q | None \<Rightarrow> fst x)
      in (target, (snd x)\<lparr>snap_hunks := map (\<lambda>h. h\<lparr>hunk_path := target\<rparr>) (snap_hunks (snd x))\<rparr>))"

definition rewrite_paths :: "path \<Rightarrow> path \<Rightarrow> path \<Rightarrow> HunkTrackerSnapshot \<Rightarrow> HunkTrackerSnapshot" where
  "rewrite_paths old_cwd canonical_old new_cwd s =
     s\<lparr>snap_file_states :=
         fold (\<lambda>(p, f) fs. AList.update p f fs) (map (rewrite_entry old_cwd canonical_old new_cwd) (snap_file_states s)) []\<rparr>"

section \<open>Commands\<close>

datatype HunkTrackerCommand =
    RecordAgentWrite path rstr nat "rstr option"
  | HandleFileChange path
  | HandleFileDeleted path
  | RefreshGitDirtyCache
  | ResetBaseline path
  | SetMode TrackingMode
  | HunkActionCmd HunkId HunkAction
  | FileActionCmd path HunkAction
  | AllActionCmd HunkAction
  | TurnActionCmd nat HunkAction
  | GetAllHunks
  | GetHunksForPath path
  | GetFileHunkData path
  | GetHunksBySource HunkSourceFilter
  | GetHunk HunkId
  | IsAgentFile path
  | GetAllTrackedPaths
  | GetStagedFiles
  | GetAllFileContents
  | GetSessionSummary
  | GetTurnHunks nat
  | ResetStats
  | RefreshAllBaselines
  | SnapshotState
  | SnapshotTurnDelta nat
  | RestoreState HunkTrackerSnapshot

datatype Reply =
    NoReply
  | ActionReply "HunkActionError + unit"
  | AffectedReply "HunkActionError + HunkId list"
  | HunksReply "Hunk list"
  | DataReply FileHunkData
  | HunkReply "Hunk option"
  | BoolReply bool
  | PathsReply "path list"
  | ContentsReply "FileContentEntry list"
  | SummaryReply SessionSummary
  | SnapshotReply HunkTrackerSnapshot
  | DeltaReply HunkTurnDelta

definition with_reply :: "('a \<Rightarrow> Reply) \<Rightarrow> 'a \<times> Tracker \<Rightarrow> Reply \<times> Tracker" where
  "with_reply f x = (f (fst x), snd x)"

fun handle_command :: "World \<Rightarrow> HunkTrackerCommand \<Rightarrow> Tracker \<Rightarrow> Reply \<times> Tracker" where
  "handle_command W (RecordAgentWrite p content q prev) t = (NoReply, record_agent_write W p content q prev t)"
| "handle_command W (HandleFileChange p) t = (NoReply, handle_file_change W p t)"
| "handle_command W (HandleFileDeleted p) t = (NoReply, handle_file_deleted W p t)"
| "handle_command W RefreshGitDirtyCache t = (NoReply, refresh_git_dirty_cache W None t)"
| "handle_command W (ResetBaseline p) t = (NoReply, reset_baseline p t)"
| "handle_command W (SetMode m) t = (NoReply, set_mode W m t)"
| "handle_command W (HunkActionCmd i action) t = with_reply ActionReply (apply_hunk_action W i action t)"
| "handle_command W (FileActionCmd p action) t = with_reply AffectedReply (apply_file_action W p action t)"
| "handle_command W (AllActionCmd action) t = with_reply AffectedReply (apply_all_action W action t)"
| "handle_command W (TurnActionCmd q action) t = with_reply AffectedReply (apply_turn_action W q action t)"
| "handle_command W GetAllHunks t = (HunksReply (get_all_hunks t), t)"
| "handle_command W (GetHunksForPath p) t = (HunksReply (get_hunks_for_path t p), t)"
| "handle_command W (GetFileHunkData p) t = (DataReply (get_file_hunk_data t p), t)"
| "handle_command W (GetHunksBySource s) t = (HunksReply (get_hunks_by_source t s), t)"
| "handle_command W (GetHunk i) t = (HunkReply (get_hunk t i), t)"
| "handle_command W (IsAgentFile p) t =
     (BoolReply (case lookup t p of Some f \<Rightarrow> is_agent_file f | None \<Rightarrow> False), t)"
| "handle_command W GetAllTrackedPaths t = (PathsReply (get_all_tracked_paths t), t)"
| "handle_command W GetStagedFiles t = (PathsReply (map (path_in (working_dir t)) (git_staged_cache t)), t)"
| "handle_command W GetAllFileContents t = (ContentsReply (map (content_entry t) (file_states t)), t)"
| "handle_command W GetSessionSummary t = (SummaryReply (compute_session_summary t), t)"
| "handle_command W (GetTurnHunks q) t = (HunksReply (get_hunks_for_turn t q), t)"
| "handle_command W ResetStats t = (NoReply, t\<lparr>session_stats := stats_default\<rparr>)"
| "handle_command W RefreshAllBaselines t = (NoReply, refresh_all_baselines_except W [] t)"
| "handle_command W SnapshotState t = (SnapshotReply (take_snapshot t), t)"
| "handle_command W (SnapshotTurnDelta q) t = (DeltaReply (take_turn_delta t q), t)"
| "handle_command W (RestoreState s) t = (NoReply, restore_snapshot s t)"

section \<open>Coalescing\<close>

datatype CoalescedPathAction = ChangedAction | DeletedAction | DeletedThenChanged

record CoalescedBatch =
  file_actions :: "(path \<times> CoalescedPathAction) list"
  refresh_all :: bool
  refresh_dirty :: bool
  other_commands :: "HunkTrackerCommand list"
  command_count :: nat

definition batch_new :: CoalescedBatch where
  "batch_new = \<lparr>file_actions = [], refresh_all = False, refresh_dirty = False, other_commands = [], command_count = 0\<rparr>"

definition changed_after :: "CoalescedPathAction option \<Rightarrow> CoalescedPathAction" where
  "changed_after a = (case a of Some DeletedAction \<Rightarrow> DeletedThenChanged | Some x \<Rightarrow> x | None \<Rightarrow> ChangedAction)"

definition batch_add :: "HunkTrackerCommand \<Rightarrow> CoalescedBatch \<Rightarrow> CoalescedBatch" where
  "batch_add cmd b0 =
     (let b = b0\<lparr>command_count := command_count b0 + 1\<rparr>
      in case cmd of
           HandleFileChange p \<Rightarrow> b\<lparr>file_actions := AList.update p (changed_after (map_of (file_actions b) p)) (file_actions b)\<rparr>
         | HandleFileDeleted p \<Rightarrow> b\<lparr>file_actions := AList.update p DeletedAction (file_actions b)\<rparr>
         | RefreshAllBaselines \<Rightarrow> b\<lparr>refresh_all := True\<rparr>
         | RefreshGitDirtyCache \<Rightarrow> b\<lparr>refresh_dirty := True\<rparr>
         | _ \<Rightarrow> b\<lparr>other_commands := other_commands b @ [cmd]\<rparr>)"

definition is_coalescable :: "HunkTrackerCommand \<Rightarrow> bool" where
  "is_coalescable cmd =
     (case cmd of HandleFileChange _ \<Rightarrow> True | HandleFileDeleted _ \<Rightarrow> True | RefreshAllBaselines \<Rightarrow> True
      | RefreshGitDirtyCache \<Rightarrow> True | _ \<Rightarrow> False)"

definition drain_and_coalesce :: "HunkTrackerCommand list \<Rightarrow> CoalescedBatch" where
  "drain_and_coalesce cmds = fold batch_add cmds batch_new"

fun refresh_actions :: "World \<Rightarrow> (path \<times> CoalescedPathAction) list \<Rightarrow> path list \<Rightarrow> Tracker \<Rightarrow> path list \<times> Tracker" where
  "refresh_actions W [] processed t = (processed, t)"
| "refresh_actions W ((p, DeletedAction) # rest) processed t =
     refresh_actions W rest processed (if lookup t p \<noteq> None then handle_file_deleted W p t else t)"
| "refresh_actions W ((p, _) # rest) processed t =
     (if lookup t p = None then refresh_actions W rest (p # processed) (handle_file_change W p t)
      else refresh_actions W rest processed t)"

fun plain_actions :: "World \<Rightarrow> (path \<times> CoalescedPathAction) list \<Rightarrow> path list \<Rightarrow> Tracker \<Rightarrow> path list \<times> Tracker" where
  "plain_actions W [] changed_paths t = (changed_paths, t)"
| "plain_actions W ((p, DeletedAction) # rest) changed_paths t =
     plain_actions W rest changed_paths (handle_file_deleted W p t)"
| "plain_actions W ((p, _) # rest) changed_paths t = plain_actions W rest (changed_paths @ [p]) t"

fun handle_commands :: "World \<Rightarrow> HunkTrackerCommand list \<Rightarrow> Tracker \<Rightarrow> Reply list \<times> Tracker" where
  "handle_commands W [] t = ([], t)"
| "handle_commands W (c # cs) t =
     (let (r, t1) = handle_command W c t; (rs, t2) = handle_commands W cs t1 in (r # rs, t2))"

definition handle_coalesced_batch :: "World \<Rightarrow> CoalescedBatch \<Rightarrow> Tracker \<Rightarrow> Reply list \<times> Tracker" where
  "handle_coalesced_batch W b t =
     (let t1 = (if refresh_dirty b \<and> \<not> refresh_all b then refresh_git_dirty_cache W None t else t);
          t2 = (if refresh_all b
                then let (processed, u) = refresh_actions W (file_actions b) [] t1
                     in refresh_all_baselines_except W processed u
                else let (paths, u) = plain_actions W (file_actions b) [] t1
                     in handle_file_changes_batch W paths u)
      in handle_commands W (other_commands b) t2)"

text \<open>One turn of the loop on the queued commands: a command that can be coalesced takes all others with
  it. At the start the tracker of all dirty files loads them.\<close>

definition run_turn :: "World \<Rightarrow> HunkTrackerCommand list \<Rightarrow> Tracker \<Rightarrow> HunkTrackerCommand list \<times> Reply list \<times> Tracker" where
  "run_turn W queue t =
     (case queue of
        [] \<Rightarrow> ([], [], t)
      | c # cs \<Rightarrow>
          if is_coalescable c then ([], handle_coalesced_batch W (drain_and_coalesce (c # cs)) t)
          else let (r, u) = handle_command W c t in (cs, [r], u))"

definition run_start :: "World \<Rightarrow> Tracker \<Rightarrow> Tracker" where
  "run_start W t = (if mode t = AllDirty then refresh_git_dirty_cache W None t else t)"

end
