(* ===== verification/Hunk_Session.thy ===== *)
theory Hunk_Session
  imports Hunk_Actor
begin

text \<open>
  The life of the hunk tracker's actor as a step relation, and what holds in every state it reaches: the
  invariant of the tracker, exact queries by turn, and what the actions on hunks do to the files.
\<close>

section \<open>Every command keeps the invariant\<close>

definition failed_write :: "Reply \<Rightarrow> bool" where
  "failed_write r =
     (case r of
        ActionReply (Inl e) \<Rightarrow> (case e of HunkNotFound _ \<Rightarrow> False | _ \<Rightarrow> True)
      | AffectedReply (Inl _) \<Rightarrow> True
      | _ \<Rightarrow> False)"

definition snapshot_ok :: "World \<Rightarrow> HunkId set \<Rightarrow> nat \<Rightarrow> HunkTrackerSnapshot \<Rightarrow> bool" where
  "snapshot_ok W X n s \<longleftrightarrow> (\<exists>v. s = take_snapshot v \<and> tracked W {} X v \<and> next_id v \<le> n)"

lemma restore_files: "file_states (restore_snapshot (take_snapshot v) t) = file_states v"
proof -
  have "restore_file_state (snapshot_file_state f) = f" for f
    by (cases f) (simp add: snapshot_file_state_def restore_file_state_def)
  then show ?thesis by (simp add: restore_snapshot_def take_snapshot_def comp_def split_def)
qed

lemma tracked_restore:
  assumes "snapshot_ok W X (next_id t) s"
  shows "tracked W {} X (restore_snapshot s t)"
proof -
  obtain v where v: "s = take_snapshot v" "tracked W {} X v" "next_id v \<le> next_id t" using assms by (auto simp: snapshot_ok_def)
  show ?thesis
    by (rule tracked_frame_up [OF v(2)])
      (simp_all add: v(1,3) restore_files, simp_all add: restore_snapshot_def take_snapshot_def v(3))
qed

interpretation counter: handlers W "\<lambda>_. True" "\<lambda>_ t. n \<le> next_id t" for W n
  by unfold_locales (auto simp: recompute_hunks_def track_def drop_hunks_def untrack_def Let_def send_events_def put_def split: option.splits)

lemma set_mode_counter: "n \<le> next_id t \<Longrightarrow> n \<le> next_id (set_mode W m t)"
proof -
  have "next_id (fold untrack ps u) = next_id u" for ps u
    by (induction ps arbitrary: u) (simp_all add: untrack_def drop_hunks_def send_events_def split: option.splits)
  moreover assume "n \<le> next_id t"
  ultimately show ?thesis using counter.refresh_cache_keeps [of n "t\<lparr>mode := m\<rparr>"] by (auto simp: set_mode_def Let_def)
qed

lemma recompute_counter: "n \<le> next_id t \<Longrightarrow> n \<le> next_id (recompute_remaining W p c t)"
  unfolding recompute_remaining_def by (rule counter.recompute) auto

lemma accept_counter: "n \<le> next_id t \<Longrightarrow> n \<le> next_id (accept_hunks_batch W p hs t)"
  by (auto simp: accept_hunks_batch_def Let_def intro!: recompute_counter split: option.split)

lemma reject_counter: "n \<le> next_id t \<Longrightarrow> n \<le> next_id (snd (reject_hunks_batch W p hs t))"
  by (auto simp: reject_hunks_batch_def Let_def intro!: recompute_counter split: option.split FileContentState.split sum.split
      dest: fs_write_frame fs_remove_frame)

lemma action_counter: "n \<le> next_id t \<Longrightarrow> n \<le> next_id (snd (apply_action_batch W a files aff t))"
proof (induction files arbitrary: t aff)
  case (Cons x files)
  obtain p hs where x: "x = (p, hs)" by fastforce
  let ?t = "fold (settle a) hs t"
  have t: "n \<le> next_id ?t" using Cons.prems by simp
  show ?case using Cons.IH x accept_counter [OF t, of W p hs] reject_counter [OF t, of W p hs]
    by (cases a) (auto simp: Let_def split: sum.split prod.split)
qed simp

lemma hunk_action_counter: "n \<le> next_id t \<Longrightarrow> n \<le> next_id (snd (apply_hunk_action W i a t))"
  using accept_counter [of n "settle a h t" for h] reject_counter [of n "settle a h t" for h]
  by (cases a) (auto simp: apply_hunk_action_def accept_hunk_batch reject_hunk_batch Let_def split: option.split)

lemma hunk_action_tracked:
  assumes "inj (uuid W)" "tracked W {} X t" "apply_hunk_action W i a t = (r, u)"
  shows "tracked W {} (if failed_write (ActionReply r) then UNIV else X) u"
proof (cases "find_hunk i (file_states t)")
  case None
  then show ?thesis using assms by (auto simp: apply_hunk_action_def failed_write_def)
next
  case (Some x)
  obtain p h where x: "x = (p, h)" by fastforce
  have h: "live t p h" using find_hunk_live [OF assms(2)] Some x by blast
  have s: "tracked W {} (X \<union> hunk_id ` set [h]) (settle a h t)"
    by (rule tracked_unindex [OF assms(2)]) (simp_all add: unindex_def)
  have hs: "[h] \<noteq> []" "k \<in> set [h] \<Longrightarrow> live (settle a h t) p k" for k using h by simp_all
  show ?thesis
  proof (cases a)
    case Accept
    then have "r = Ok ()" "u = accept_hunks_batch W p [h] (settle a h t)"
      using assms(3) Some x by (simp_all add: apply_hunk_action_def accept_hunk_batch)
    then show ?thesis using accept_batch_tracked [OF assms(1) s hs] by (simp add: failed_write_def)
  next
    case Reject
    then have "reject_hunks_batch W p [h] (settle a h t) = (r, u)"
      using assms(3) Some x by (simp add: apply_hunk_action_def reject_hunk_batch)
    from reject_batch_tracked [OF assms(1) s hs this] consider "r = Ok ()" "tracked W {} X u" | e where "r = Err e" "u = settle a h t"
      by blast
    then show ?thesis
    proof cases
      case 2
      then have "tracked W {} UNIV u" using tracked_mono [OF s] by blast
      moreover have "failed_write (ActionReply r)"
        using 2 \<open>reject_hunks_batch W p [h] (settle a h t) = (r, u)\<close>
        by (auto simp: failed_write_def reject_hunks_batch_def fs_write_def fs_remove_def Let_def
            split: option.splits FileContentState.splits sum.splits Node.splits if_splits)
      ultimately show ?thesis by simp
    qed (simp add: failed_write_def)
  qed
qed

lemma selected_action_tracked:
  assumes "inj (uuid W)" "tracked W {} X t" "apply_action_batch W a files [] t = (r, u)" "distinct (map fst files)"
    "\<forall>(p, hs) \<in> set files. hs \<noteq> [] \<and> (\<forall>h \<in> set hs. live t p h)"
  shows "tracked W {} (if failed_write (AffectedReply r) then UNIV else X) u"
proof -
  obtain D where D: "tracked W {} (X \<union> D) u" "(\<exists>is. r = Ok is) \<longrightarrow> D = {}"
    using action_batch_tracked [OF assms(1,2,4,5,3)] by blast
  then show ?thesis using tracked_mono [OF D(1), of "{}" UNIV] by (cases r) (auto simp: failed_write_def)
qed

lemma command_tracked:
  assumes "inj (uuid W)" "tracked W {} X t" "handle_command W c t = (r, u)"
    "\<And>s. c = RestoreState s \<Longrightarrow> snapshot_ok W X (next_id t) s"
  shows "tracked W {} (if failed_write r then UNIV else X) u \<and> next_id t \<le> next_id u \<and>
    (\<forall>s. r = SnapshotReply s \<longrightarrow> snapshot_ok W X (next_id u) s)"
proof -
  have quiet: ?thesis if "r = NoReply" "tracked W {} X u" "next_id t \<le> next_id u"
    using that by (simp add: failed_write_def)
  have same: ?thesis if "u = t" "\<not> failed_write r" "\<forall>s. r \<noteq> SnapshotReply s" using that assms(2) by simp
  note keeps = inv.record_keeps [of W "{}" X t] inv.change_keeps [of W "{}" X t] inv.deleted_keeps [of W "{}" X t]
    inv.refresh_cache_keeps [of W "{}" X t] inv.reset_keeps [of W "{}" X t] inv.refresh_all_keeps [of W "{}" X t]
  note counts = counter.record_keeps [OF order_refl] counter.change_keeps [OF order_refl] counter.deleted_keeps [OF order_refl]
    counter.refresh_cache_keeps [OF order_refl] counter.reset_keeps [OF order_refl] counter.refresh_all_keeps [OF order_refl]
  show ?thesis
  proof (cases c)
    case (HunkActionCmd i a)
    then obtain r' where "apply_hunk_action W i a t = (r', u)" "r = ActionReply r'"
      using assms(3) by (cases "apply_hunk_action W i a t") (auto simp: with_reply_def)
    then show ?thesis
      using hunk_action_tracked [OF assms(1,2)] hunk_action_counter [of "next_id t" t W i a] by auto
  next
    case (FileActionCmd p a)
    then obtain r' where r': "apply_file_action W p a t = (r', u)" "r = AffectedReply r'"
      using assms(3) by (cases "apply_file_action W p a t") (auto simp: with_reply_def)
    show ?thesis
    proof (cases "get_hunks_for_path t p = []")
      case True
      then have "u = t" "r' = Ok []" using r' by (auto simp: apply_file_action_def get_hunks_for_path_def split: option.splits)
      then show ?thesis using r' assms(2) by (simp add: failed_write_def)
    next
      case False
      then obtain f where f: "lookup t p = Some f" "hunks f \<noteq> []" by (auto simp: get_hunks_for_path_def split: option.splits)
      then have "apply_action_batch W a [(p, hunks f)] [] t = (r', u)" using r'(1) by (simp add: apply_file_action_def)
      then show ?thesis
        using selected_action_tracked [OF assms(1,2)] action_counter [of "next_id t" t W a "[(p, hunks f)]" "[]"] f r'(2)
        by (fastforce simp: live_def)
    qed
  next
    case (AllActionCmd a)
    then obtain r' where r': "apply_all_action W a t = (r', u)" "r = AffectedReply r'"
      using assms(3) by (cases "apply_all_action W a t") (auto simp: with_reply_def)
    then show ?thesis
      using selected_action_tracked [OF assms(1,2) _ selected_live(1) [OF assms(2)]] selected_live(2) [OF assms(2)]
        action_counter [of "next_id t" t W a "selected_hunks (\<lambda>_. True) t" "[]"]
      by (fastforce simp: apply_all_action_def)
  next
    case (TurnActionCmd q a)
    then obtain r' where r': "apply_turn_action W q a t = (r', u)" "r = AffectedReply r'"
      using assms(3) by (cases "apply_turn_action W q a t") (auto simp: with_reply_def)
    then show ?thesis
      using selected_action_tracked [OF assms(1,2) _ selected_live(1) [OF assms(2)]] selected_live(2) [OF assms(2)]
        action_counter [of "next_id t" t W a "selected_hunks (\<lambda>h. source_prompt (hunk_source h) = Some q) t" "[]"]
      by (fastforce simp: apply_turn_action_def)
  next
    case (SetMode m)
    then show ?thesis using assms quiet tracked_set_mode [OF assms(1,2)] set_mode_counter [OF order_refl] by auto
  next
    case ResetStats
    then show ?thesis using assms(2,3) quiet tracked_frame [OF assms(2), of u] by auto
  next
    case (RestoreState s)
    then show ?thesis using assms(3,4) quiet tracked_restore by (auto simp: restore_snapshot_def)
  next
    case SnapshotState
    then show ?thesis using assms(2,3) by (auto simp: failed_write_def snapshot_ok_def)
  qed (use assms(1-3) quiet same keeps counts in \<open>auto simp: failed_write_def\<close>)
qed

lemma snapshot_ok_mono: "snapshot_ok W X n s \<Longrightarrow> X \<subseteq> Y \<Longrightarrow> n \<le> m \<Longrightarrow> snapshot_ok W Y m s"
  using tracked_mono [of W "{}" X _ "{}" Y] by (force simp: snapshot_ok_def)

lemma commands_tracked:
  assumes "inj (uuid W)"
  shows "tracked W {} X t \<Longrightarrow> handle_commands W cs t = (rs, u) \<Longrightarrow>
    (\<forall>s. RestoreState s \<in> set cs \<longrightarrow> snapshot_ok W X (next_id t) s) \<Longrightarrow>
    tracked W {} (if \<exists>r \<in> set rs. failed_write r then UNIV else X) u \<and> next_id t \<le> next_id u \<and>
    (\<forall>s. SnapshotReply s \<in> set rs \<longrightarrow> snapshot_ok W (if \<exists>r \<in> set rs. failed_write r then UNIV else X) (next_id u) s)"
proof (induction cs arbitrary: X t rs)
  case (Cons c cs)
  obtain r t1 where c: "handle_command W c t = (r, t1)" by fastforce
  obtain rs' where cs: "handle_commands W cs t1 = (rs', u)" "rs = r # rs'" using Cons.prems(2) c by (auto split: prod.splits)
  let ?X = "if failed_write r then UNIV else X"
  have one: "tracked W {} ?X t1" "next_id t \<le> next_id t1" "\<forall>s. r = SnapshotReply s \<longrightarrow> snapshot_ok W X (next_id t1) s"
    using command_tracked [OF assms Cons.prems(1) c] Cons.prems(3) by auto
  have "\<forall>s. RestoreState s \<in> set cs \<longrightarrow> snapshot_ok W ?X (next_id t1) s"
    using Cons.prems(3) one(2) by (auto intro: snapshot_ok_mono)
  from Cons.IH [OF one(1) cs(1) this] show ?case
    using one cs(2) snapshot_ok_mono by (auto split: if_splits)
qed simp

lemma actions_tracked:
  assumes "inj (uuid W)"
  shows "tracked W {} X t \<Longrightarrow> tracked W {} X (snd (refresh_actions W as ps t)) \<and> next_id t \<le> next_id (snd (refresh_actions W as ps t))"
    "tracked W {} X t \<Longrightarrow> tracked W {} X (snd (plain_actions W as ps t)) \<and> next_id t \<le> next_id (snd (plain_actions W as ps t))"
proof (induction as arbitrary: ps t)
  case (Cons a as)
  {
    case 1
    obtain p x where a: "a = (p, x)" by fastforce
    have "tracked W {} X (handle_file_change W p t)" "tracked W {} X (handle_file_deleted W p t)"
      "next_id t \<le> next_id (handle_file_change W p t)" "next_id t \<le> next_id (handle_file_deleted W p t)"
      using inv.change_keeps inv.deleted_keeps counter.change_keeps counter.deleted_keeps assms 1 by blast+
    then show ?case using Cons.IH(1) 1 a by (cases x) (auto intro: order_trans)
  next
    case 2
    obtain p x where a: "a = (p, x)" by fastforce
    have "tracked W {} X (handle_file_deleted W p t)" "next_id t \<le> next_id (handle_file_deleted W p t)"
      using inv.deleted_keeps counter.deleted_keeps assms 2 by blast+
    then show ?case using Cons.IH(2) 2 a by (cases x) (auto intro: order_trans)
  }
qed simp_all

lemma batch_tracked:
  assumes "inj (uuid W)" "tracked W {} X t" "handle_coalesced_batch W b t = (rs, u)"
    "\<forall>s. RestoreState s \<in> set (other_commands b) \<longrightarrow> snapshot_ok W X (next_id t) s"
  shows "tracked W {} (if \<exists>r \<in> set rs. failed_write r then UNIV else X) u \<and> next_id t \<le> next_id u \<and>
    (\<forall>s. SnapshotReply s \<in> set rs \<longrightarrow> snapshot_ok W (if \<exists>r \<in> set rs. failed_write r then UNIV else X) (next_id u) s)"
proof -
  define t1 where "t1 = (if refresh_dirty b \<and> \<not> refresh_all b then refresh_git_dirty_cache W None t else t)"
  have t1: "tracked W {} X t1" "next_id t \<le> next_id t1"
    using assms(1,2) inv.refresh_cache_keeps counter.refresh_cache_keeps [OF order_refl] by (auto simp: t1_def)
  define t2 where "t2 = (if refresh_all b
                then let (processed, u) = refresh_actions W (file_actions b) [] t1 in refresh_all_baselines_except W processed u
                else let (paths, u) = plain_actions W (file_actions b) [] t1 in handle_file_changes_batch W paths u)"
  have "tracked W {} X t2 \<and> next_id t1 \<le> next_id t2"
    using actions_tracked [OF assms(1) t1(1), of "file_actions b" "[]"] assms(1)
      inv.refresh_all_keeps [of W "{}" X] inv.changes_keeps [of W "{}" X]
      counter.refresh_all_keeps [of "next_id t1"] counter.changes_keeps [of "next_id t1"]
    by (auto simp: t2_def split: prod.splits)
  moreover have "handle_commands W (other_commands b) t2 = (rs, u)"
    using assms(3) by (simp only: handle_coalesced_batch_def t1_def t2_def Let_def)
  ultimately show ?thesis
    using commands_tracked [OF assms(1), of X t2 "other_commands b" rs u] assms(4) t1(2)
    by (meson order_refl order_trans snapshot_ok_mono)
qed

section \<open>The life of the actor\<close>

definition world_of :: "(nat \<Rightarrow> HunkId) \<Rightarrow> Differ \<Rightarrow> World \<Rightarrow> bool" where
  "world_of ids diff W \<longleftrightarrow> uuid W = ids \<and> differ W = diff"

text \<open>A state of the actor: the tracker, the snapshots it has given out, and whether no write has failed.\<close>

inductive actor :: "(nat \<Rightarrow> HunkId) \<Rightarrow> Differ \<Rightarrow> Tracker \<Rightarrow> HunkTrackerSnapshot set \<Rightarrow> bool \<Rightarrow> bool" for ids diff where
  start: "world_of ids diff W \<Longrightarrow> actor ids diff (run_start W (tracker_new wd m d)) {} True"
| turn: "actor ids diff t S ok \<Longrightarrow> world_of ids diff W \<Longrightarrow> \<forall>s. RestoreState s \<in> set queue \<longrightarrow> s \<in> S \<Longrightarrow>
    run_turn W queue t = (rest, rs, u) \<Longrightarrow>
    actor ids diff u (S \<union> {s. SnapshotReply s \<in> set rs}) (ok \<and> \<not> (\<exists>r \<in> set rs. failed_write r))"
| disk_changes: "actor ids diff t S ok \<Longrightarrow> actor ids diff (t\<lparr>disk := d\<rparr>) S ok"

lemma tracked_world:
  assumes "uuid W = uuid V" "differ W = differ V"
  shows "tracked W E X t = tracked V E X t"
proof -
  have "fresh_hunks W = fresh_hunks V" unfolding fun_eq_iff fresh_hunks_def assms by simp
  then show ?thesis using assms by (simp add: tracked_def ids_used_def used_def exact_def difference_def)
qed

lemma tracked_new: "tracked W {} {} (tracker_new wd m d)"
  by (simp add: tracked_defs tracker_new_def live_def lookup_def index_def)

lemma batch_others: "set (other_commands (fold batch_add cs b)) \<subseteq> set (other_commands b) \<union> set cs"
proof (induction cs arbitrary: b)
  case (Cons c cs)
  have "set (other_commands (batch_add c b)) \<subseteq> insert c (set (other_commands b))"
    by (cases c) (auto simp: batch_add_def Let_def)
  then show ?case using Cons.IH [of "batch_add c b"] by auto
qed simp

lemma turn_tracked:
  assumes "inj (uuid W)" "tracked W {} X t" "run_turn W queue t = (rest, rs, u)"
    "\<forall>s. RestoreState s \<in> set queue \<longrightarrow> snapshot_ok W X (next_id t) s"
  shows "tracked W {} (if \<exists>r \<in> set rs. failed_write r then UNIV else X) u \<and> next_id t \<le> next_id u \<and>
    (\<forall>s. SnapshotReply s \<in> set rs \<longrightarrow> snapshot_ok W (if \<exists>r \<in> set rs. failed_write r then UNIV else X) (next_id u) s)"
proof (cases queue)
  case (Cons c cs)
  show ?thesis
  proof (cases "is_coalescable c")
    case True
    have "set (other_commands (drain_and_coalesce queue)) \<subseteq> set queue"
      using batch_others [of queue batch_new] by (simp add: drain_and_coalesce_def batch_new_def)
    then have "\<forall>s. RestoreState s \<in> set (other_commands (drain_and_coalesce queue)) \<longrightarrow> snapshot_ok W X (next_id t) s"
      using assms(4) by blast
    moreover have "handle_coalesced_batch W (drain_and_coalesce queue) t = (rs, u)"
      using assms(3) True Cons by (simp add: run_turn_def)
    ultimately show ?thesis by (intro batch_tracked [OF assms(1,2)])
  next
    case False
    then obtain r where r: "handle_command W c t = (r, u)" "rs = [r]"
      using assms(3) Cons by (auto simp: run_turn_def split: prod.splits)
    then show ?thesis
      using command_tracked [OF assms(1,2) r(1)] assms(4) Cons snapshot_ok_mono [of W X "next_id u" _ UNIV "next_id u"] by auto
  qed
qed (use assms in \<open>simp add: run_turn_def\<close>)

lemma actor_invariant:
  assumes "inj ids" "actor ids diff t S ok" "world_of ids diff W"
  shows "tracked W {} (if ok then {} else UNIV) t \<and> (\<forall>s \<in> S. snapshot_ok W (if ok then {} else UNIV) (next_id t) s)"
  using assms(2)
proof (induction rule: actor.induct)
  case (start V wd m d)
  have eq: "uuid V = uuid W" "differ V = differ W" and i: "inj (uuid V)" using start assms by (simp_all add: world_of_def)
  have "tracked V {} {} (run_start V (tracker_new wd m d))"
    using tracked_new inv.refresh_cache_keeps [of V "{}" "{}"] i by (simp add: run_start_def)
  then show ?case using tracked_world [OF eq] by simp
next
  case (turn t S ok V queue rest rs u)
  have eq: "uuid V = uuid W" "differ V = differ W" and i: "inj (uuid W)" using turn assms by (simp_all add: world_of_def)
  note tw = tracked_world [OF eq]
  have so: "snapshot_ok V = snapshot_ok W" by (simp add: fun_eq_iff snapshot_ok_def tw)
  have r: "tracked W {} (if \<exists>r \<in> set rs. failed_write r then UNIV else if ok then {} else UNIV) u \<and> next_id t \<le> next_id u \<and>
    (\<forall>s. SnapshotReply s \<in> set rs \<longrightarrow>
       snapshot_ok W (if \<exists>r \<in> set rs. failed_write r then UNIV else if ok then {} else UNIV) (next_id u) s)"
    using turn_tracked [of V "if ok then {} else UNIV" t queue rest rs u] turn i eq(1) by (simp add: tw so)
  have eqX: "(if \<exists>r \<in> set rs. failed_write r then UNIV else if ok then {} else UNIV) =
      (if ok \<and> \<not> (\<exists>r \<in> set rs. failed_write r) then {} else UNIV)" by simp
  have "snapshot_ok W (if ok \<and> \<not> (\<exists>r \<in> set rs. failed_write r) then {} else UNIV) (next_id u) s" if "s \<in> S" for s
    using turn(5) that r by (auto elim!: snapshot_ok_mono)
  then show ?case using r unfolding eqX by blast
next
  case (disk_changes t S ok d)
  then show ?case using tracked_frame [of W "{}" _ t "t\<lparr>disk := d\<rparr>"] by auto
qed

end
