(* ===== verification/Hunk_Facts.thy ===== *)
theory Hunk_Facts
  imports Hunk_Session
begin

text \<open>
  What the hunk tracker promises: the hunks of a file are its difference to the baseline, queries by turn
  are exact, edits are attributed to their author, actions on a file settle it, summaries and snapshots
  are faithful, and queued notifications may be merged. The last section states where the code falls
  short of these promises.
\<close>

section \<open>Hunks and turns\<close>

lemma all_hunks_live:
  assumes "distinct (map fst (file_states t))"
  shows "h \<in> set (get_all_hunks t) \<longleftrightarrow> (\<exists>p. live t p h)"
proof -
  have "(p, f) \<in> set (file_states t) \<longleftrightarrow> lookup t p = Some f" for p f
    using assms map_of_eq_Some_iff [of "file_states t" p f] by (simp add: lookup_def)
  then show ?thesis by (auto simp: get_all_hunks_def live_def split_def) force+
qed

lemma get_hunk_live:
  assumes "tracked W E X t" "live t p h"
  shows "get_hunk t (hunk_id h) = Some h"
proof -
  have d: "distinct (map fst (file_states t))" using assms(1) by (simp add: tracked_def)
  have "h \<in> set (get_all_hunks t)" using all_hunks_live [OF d] assms(2) by blast
  then obtain k where k: "get_hunk t (hunk_id h) = Some k"
    by (cases "get_hunk t (hunk_id h)") (auto simp: get_hunk_def find_None_iff)
  then have "k \<in> set (get_all_hunks t)" "hunk_id k = hunk_id h" by (auto simp: get_hunk_def find_Some_iff)
  then show ?thesis using k all_hunks_live [OF d] tracked_unique [OF assms(1)] assms(2) by metis
qed

lemma get_hunk_Some: "get_hunk t i = Some h \<Longrightarrow> h \<in> set (get_all_hunks t) \<and> hunk_id h = i"
  by (auto simp: get_hunk_def find_Some_iff)

lemma turn_hunks:
  assumes "tracked W E X t"
  shows "set (get_hunks_for_turn t q) = {h. (\<exists>p. live t p h) \<and> hunk_id h \<in> index (turn_index t) q}"
proof -
  have d: "distinct (map fst (file_states t))" using assms by (simp add: tracked_def)
  have "set (get_hunks_for_turn t q) = {h. \<exists>i \<in> index (turn_index t) q. get_hunk t i = Some h}"
    by (auto simp: get_hunks_for_turn_def index_def map_filter_def split: option.splits) force+
  moreover have "(\<exists>i \<in> index (turn_index t) q. get_hunk t i = Some h) \<longleftrightarrow> (\<exists>p. live t p h) \<and> hunk_id h \<in> index (turn_index t) q" for h
    using get_hunk_live [OF assms, of _ h] get_hunk_Some [of t _ h] all_hunks_live [OF d, of h] by metis
  ultimately show ?thesis by simp
qed


text \<open>The pending hunks of a turn, found through the index, are exactly the pending hunks that are
  attributed to that turn, as long as no write of a rejection has failed; after a failure some may be
  missing, but none of another turn is ever named.\<close>

theorem turn_query_exact:
  assumes "inj ids" "actor ids diff t S ok"
  shows "set (get_hunks_for_turn t q) \<subseteq> {h \<in> set (get_all_hunks t). hunk_source h = AgentEdit q} \<and>
    (ok \<longrightarrow> set (get_hunks_for_turn t q) = {h \<in> set (get_all_hunks t). hunk_source h = AgentEdit q})"
proof -
  obtain W :: World where W: "world_of ids diff W"
    using that [of "\<lparr>differ = diff, uuid = ids, task_ok = True, git_discover = None, git_status = (\<lambda>_. None),
      head_entry = (\<lambda>_. None), head_sync = \<lparr>head_oid = None, index_mtime = None\<rparr>, write_ok = (\<lambda>_. True), delete_ok = (\<lambda>_. True)\<rparr>"]
    by (simp add: world_of_def)
  have t: "tracked W {} (if ok then {} else UNIV) t" using actor_invariant [OF assms W] by blast
  have d: "distinct (map fst (file_states t))" using t by (simp add: tracked_def)
  have src: "prompt_of h = Some q \<longleftrightarrow> hunk_source h = AgentEdit q" for h
    by (cases "hunk_source h") (simp_all add: prompt_of_def)
  have sub: "h \<in> set (get_all_hunks t) \<and> hunk_source h = AgentEdit q" if "h \<in> set (get_hunks_for_turn t q)" for h
    using that tracked_index [OF t, of _ h q] src all_hunks_live [OF d] unfolding turn_hunks [OF t] by blast
  moreover have "h \<in> set (get_hunks_for_turn t q)" if "ok" "h \<in> set (get_all_hunks t)" "hunk_source h = AgentEdit q" for h
    using that tracked_complete [OF t, of _ h q] src all_hunks_live [OF d] unfolding turn_hunks [OF t] by auto
  ultimately show ?thesis by blast
qed

section \<open>Attribution\<close>

text \<open>C40. After the agent has written a text to a file, the hunks of the file are the difference of its
  baseline to that text, all attributed to the agent's turn, and the file is a file of the agent.\<close>

theorem agent_write_attributed:
  assumes "classify_string content = Full s"
  shows "\<exists>f. lookup (record_agent_write W p content q prev t) p = Some f \<and> is_agent_file f \<and> current_content f = Full s \<and>
    map shape (hunks f) = difference W p (baseline f) (Full s) \<and> (\<forall>h \<in> set (hunks f). hunk_source h = AgentEdit q) \<and>
    (\<forall>g. lookup t p = Some g \<longrightarrow> baseline f = baseline g)"
proof -
  have keep: "hunk_source h = AgentEdit q" if "h \<in> set (claim_ids old [] (fresh_hunks W k p b c (AgentEdit q)))" for h old k b c
    using claim_ids_from [OF that] fresh_source by (fastforce simp: inherit_def is_external_def)
  define t' where "t' = (case lookup t p of
      None \<Rightarrow> let (head, t1) = read_baseline W p t;
                  base = (case head of Missing \<Rightarrow> (case prev of Some x \<Rightarrow> classify_string x | None \<Rightarrow> Missing) | h \<Rightarrow> h)
              in track p base (Full s) True t1
    | Some f \<Rightarrow> put p (f\<lparr>is_agent_file := True\<rparr>) t)"
  have "record_agent_write W p content q prev t = recompute_hunks W p (Some (Full s)) (AgentEdit q) t'"
    using assms by (simp add: record_agent_write_def t'_def Let_def)
  moreover obtain f where "lookup t' p = Some f" "is_agent_file f" "\<forall>g. lookup t p = Some g \<longrightarrow> baseline f = baseline g"
  proof (cases "lookup t p")
    case None
    obtain b u where "read_baseline W p t = (b, u)" by fastforce
    then show ?thesis using None that by (simp add: t'_def Let_def new_file_def)
  next
    case (Some g)
    then show ?thesis using that [of "g\<lparr>is_agent_file := True\<rparr>"] by (simp add: t'_def)
  qed
  ultimately show ?thesis by (auto simp: recompute_lookup fresh_shape intro: keep)
qed

text \<open>An edit from outside never makes a hunk the agent's: a hunk of a turn had its identifier and its
  turn before.\<close>

definition turns_kept :: "Tracker \<Rightarrow> Tracker \<Rightarrow> bool" where
  "turns_kept t u \<longleftrightarrow>
     (\<forall>p h q. live u p h \<and> hunk_source h = AgentEdit q \<longrightarrow>
        (\<exists>k. live t p k \<and> hunk_id k = hunk_id h \<and> hunk_source k = AgentEdit q))"

lemma recompute_turns:
  assumes "is_external src"
  shows "turns_kept t (recompute_hunks W p c src t)"
  unfolding turns_kept_def
proof (intro allI impI)
  fix q h r assume a: "live (recompute_hunks W p c src t) q h \<and> hunk_source h = AgentEdit r"
  show "\<exists>k. live t q k \<and> hunk_id k = hunk_id h \<and> hunk_source k = AgentEdit r"
  proof (cases "q = p \<and> lookup t p \<noteq> None")
    case True
    then obtain f where f: "lookup t p = Some f" by blast
    have "h \<in> set (claim_ids (hunks f) [] (fresh_hunks W (next_id t) p (baseline f) (case c of Some x \<Rightarrow> x | None \<Rightarrow> Missing) src))"
      using a True by (auto simp: live_def recompute_lookup [OF f])
    from claim_ids_from [OF this] consider "hunk_source h = src"
      | n m where "hunk_source n = src" "m \<in> set (hunks f)" "h = inherit n m" using fresh_source by blast
    then show ?thesis
    proof cases
      case 1
      then show ?thesis using a assms by (auto simp: is_external_def)
    next
      case 2
      then show ?thesis using a assms f True
        by (intro exI [of _ m]) (auto simp: inherit_def live_def is_external_def split: if_splits)
    qed
  next
    case False
    then have "live (recompute_hunks W p c src t) q h \<longleftrightarrow> live t q h"
      by (cases "q = p") (simp_all add: live_def, simp add: recompute_hunks_def)
    then show ?thesis using a by blast
  qed
qed

lemma turns_kept_trans: "turns_kept t u \<Longrightarrow> turns_kept u v \<Longrightarrow> turns_kept t v"
  unfolding turns_kept_def by metis

lemma turns_kept_sub: "(\<And>p h. live u p h \<Longrightarrow> live t p h) \<Longrightarrow> turns_kept t u"
  unfolding turns_kept_def by blast

lemma live_track: "lookup t p = None \<Longrightarrow> live (track p b c a t) q h = live t q h"
  by (auto simp: live_def new_file_def)

interpretation external: handlers W is_external "\<lambda>_. turns_kept t0" for W t0
proof (unfold_locales, goal_cases frame outside recompute start edit clear clear_drop stop)
  case (frame E t u)
  then show ?case by (simp add: turns_kept_def live_def lookup_def)
next
  case (recompute E t src p E' c)
  then show ?case using recompute_turns turns_kept_trans by blast
next
  case (start E t p agent base cur)
  then show ?case by (simp add: turns_kept_def live_track)
next
  case (edit E t p f g)
  then have "turns_kept t (put p g t)" by (intro turns_kept_sub) (auto simp: live_put live_def split: if_splits)
  then show ?case using edit turns_kept_trans by blast
next
  case (clear E t p f g)
  then have "turns_kept t (put p g t)" by (intro turns_kept_sub) (auto simp: live_put split: if_splits)
  then show ?case using clear turns_kept_trans by blast
next
  case (clear_drop E t p f g)
  then have "turns_kept t (drop_hunks p (hunks f) (put p g t))"
    by (intro turns_kept_sub) (auto simp: live_def split: if_splits)
  then show ?case using clear_drop turns_kept_trans by blast
next
  case (stop E t p f E')
  then have "turns_kept t (untrack p t)" by (intro turns_kept_sub) (auto simp: live_def split: if_splits)
  then show ?case using stop turns_kept_trans by blast
qed

text \<open>C18. No change from outside is attributed to the agent: after a notification of a change or a deletion,
  a batch of changes, a refresh of all baselines or of the list of changed files, or a baseline reset,
  every hunk that is attributed to a turn of the agent has its identifier and its turn from before.\<close>

theorem outside_edits_keep_turns:
  "turns_kept t (handle_file_change W p t) \<and> turns_kept t (handle_file_deleted W p t) \<and>
   turns_kept t (handle_file_changes_batch W ps t) \<and> turns_kept t (refresh_all_baselines_except W skip t) \<and>
   turns_kept t (refresh_git_dirty_cache W scope t) \<and> turns_kept t (reset_baseline p t)"
proof -
  have "turns_kept t t" by (rule turns_kept_sub)
  then show ?thesis
    by (intro conjI external.change_keeps external.deleted_keeps external.changes_keeps external.refresh_all_keeps
      external.refresh_cache_keeps external.reset_keeps)
qed

section \<open>Files of the agent\<close>

lemma action_agent:
  "map_option is_agent_file (lookup (accept_hunks_batch W p hs t) q) = map_option is_agent_file (lookup t q)"
  "map_option is_agent_file (lookup (snd (reject_hunks_batch W p hs t)) q) = map_option is_agent_file (lookup t q)"
proof -
  have look: "lookup v = lookup t" if "fs_write W p s t = Ok v \<or> fs_remove W p t = Ok v" for s v
    using that fs_write_frame fs_remove_frame by (metis lookup_cong)
  show "map_option is_agent_file (lookup (accept_hunks_batch W p hs t) q) = map_option is_agent_file (lookup t q)"
    by (cases "q = p") (simp_all add: accept_hunks_batch_def recompute_remaining_def recompute_agent Let_def del: map_option_eq_Some split: option.split)
  show "map_option is_agent_file (lookup (snd (reject_hunks_batch W p hs t)) q) = map_option is_agent_file (lookup t q)"
  proof (cases "q = p")
    case True
    then show ?thesis using look
      by (auto simp: reject_hunks_batch_def recompute_remaining_def recompute_agent Let_def
          simp del: map_option_eq_Some split: option.split FileContentState.split sum.split)
  qed (simp add: reject_batch_other)
qed

lemma action_mode:
  "mode (accept_hunks_batch W p hs t) = mode t" "mode (snd (reject_hunks_batch W p hs t)) = mode t"
  by (auto simp: accept_hunks_batch_def reject_hunks_batch_def recompute_remaining_def Let_def
      dest: fs_write_frame fs_remove_frame split: option.split FileContentState.split sum.split)

lemma action_batch_agent:
  "map_option is_agent_file (lookup (snd (apply_action_batch W a files aff t)) q) = map_option is_agent_file (lookup t q) \<and>
   mode (snd (apply_action_batch W a files aff t)) = mode t"
proof (induction files arbitrary: aff t)
  case (Cons x files)
  obtain p hs where x: "x = (p, hs)" by fastforce
  let ?t = "fold (settle a) hs t"
  have s: "lookup ?t = lookup t" "mode ?t = mode t"
    by (rule lookup_cong, simp) (induction hs arbitrary: t, simp_all)
  show ?case
    using Cons.IH x s action_agent [of W p hs ?t q] action_mode [of W p hs ?t]
    by (cases a) (auto simp: Let_def simp del: map_option_eq_Some split: sum.split prod.split)
qed simp

lemma command_agent:
  assumes "\<And>s. c \<noteq> RestoreState s" "distinct (map fst (file_states t))"
  shows "(agents_only t \<longrightarrow> agents_only (snd (handle_command W c t))) \<and>
    (agent_files_kept A t \<longrightarrow> agent_files_kept A (snd (handle_command W c t)))"
proof -
  let ?u = "snd (handle_command W c t)"
  have same: ?thesis if "\<And>q. map_option is_agent_file (lookup ?u q) = map_option is_agent_file (lookup t q)" "mode ?u = mode t"
    using that by (simp add: agents_only_alt agent_files_alt)
  show ?thesis
  proof (cases c)
    case (HunkActionCmd i a)
    show ?thesis
    proof (rule same)
      show "map_option is_agent_file (lookup ?u q) = map_option is_agent_file (lookup t q)" for q
        using HunkActionCmd action_agent [of W _ _ "settle a h t" q for h]
        by (cases a) (simp_all add: with_reply_def apply_hunk_action_def accept_hunk_batch reject_hunk_batch Let_def
            split: option.split)
      show "mode ?u = mode t"
        using HunkActionCmd
        by (cases a) (simp_all add: with_reply_def apply_hunk_action_def accept_hunk_batch reject_hunk_batch action_mode Let_def
            split: option.split)
    qed
  next
    case (FileActionCmd p a)
    show ?thesis
      by (rule same) (use FileActionCmd action_batch_agent [of W a _ "[]" t] in
          \<open>simp_all add: with_reply_def apply_file_action_def del: apply_action_batch.simps split: option.split\<close>)
  next
    case (AllActionCmd a)
    show ?thesis
      by (rule same) (use AllActionCmd action_batch_agent [of W a _ "[]" t] in \<open>simp_all add: with_reply_def apply_all_action_def\<close>)
  next
    case (TurnActionCmd q a)
    show ?thesis
      by (rule same) (use TurnActionCmd action_batch_agent [of W a _ "[]" t] in \<open>simp_all add: with_reply_def apply_turn_action_def\<close>)
  next
    case (SetMode m)
    then show ?thesis using set_mode_agents set_mode_kept assms(2) by simp
  next
    case ResetStats
    show ?thesis by (rule same) (simp_all add: ResetStats lookup_def)
  qed (use assms(1) agent.record_keeps kept.record_keeps agent.change_keeps kept.change_keeps agent.deleted_keeps
      kept.deleted_keeps agent.refresh_cache_keeps kept.refresh_cache_keeps agent.reset_keeps kept.reset_keeps
      agent.refresh_all_keeps kept.refresh_all_keeps in simp_all)
qed

text \<open>C13. In agent-only mode the tracker keeps files of the agent only, and a file the agent has written stays
  tracked as such: every command but the restoration of a snapshot keeps both, whatever is reported
  from the disk, refreshed, accepted, rejected or switched.\<close>

theorem agent_files_tracked:
  assumes "inj ids" "actor ids diff t S ok" "\<And>s. c \<noteq> RestoreState s" "handle_command W c t = (r, u)"
  shows "(agents_only t \<longrightarrow> agents_only u) \<and>
    (\<forall>p f. lookup t p = Some f \<and> is_agent_file f \<longrightarrow> (\<exists>g. lookup u p = Some g \<and> is_agent_file g))"
proof -
  obtain V :: World where V: "world_of ids diff V"
    using that [of "W\<lparr>uuid := ids, differ := diff\<rparr>"] by (simp add: world_of_def)
  have d: "distinct (map fst (file_states t))" using actor_invariant [OF assms(1,2) V] by (simp add: tracked_def)
  have "agent_files_kept {p} t \<longrightarrow> agent_files_kept {p} u" "agents_only t \<longrightarrow> agents_only u" for p
    using command_agent [OF assms(3) d, of W "{p}"] assms(4) by auto
  then show ?thesis by (auto simp: agent_files_kept_def)
qed

section \<open>Actions on the hunks of a file\<close>

text \<open>Patching depends on the shapes of the hunks only.\<close>

lemma insort_key_shape: "map s (insort_key (\<lambda>a. k (s a)) x xs) = insort_key k (s x) (map s xs)"
  by (induction xs) simp_all

lemma sort_key_shape: "map s (sort_key (k \<circ> s) xs) = sort_key k (map s xs)"
  by (induction xs) (simp_all add: insort_key_shape comp_def)

lemma fold_shape: "fold (f \<circ> s) xs a = fold f (map s xs) a"
  by (induction xs arbitrary: a) simp_all

lemma sorted_shape: "fold (f \<circ> s) (sort_desc (k \<circ> s) xs) a = fold f (sort_desc k (map s xs)) a"
  using sort_key_shape [of s k "rev xs"] by (simp only: fold_shape sort_desc_def rev_map [symmetric])

definition accept_shape :: "path \<times> HunkLineInfo \<times> rstr option \<times> rstr \<Rightarrow> rstr \<Rightarrow> rstr" where
  "accept_shape = (\<lambda>(_, li, _, new) b. patch_lines b (old_start li) (old_count li) new)"

definition reject_shape :: "path \<times> HunkLineInfo \<times> rstr option \<times> rstr \<Rightarrow> rstr \<Rightarrow> rstr" where
  "reject_shape = (\<lambda>(_, li, old, _) c. patch_lines c (new_start li) (new_count li) (case old of Some x \<Rightarrow> x | None \<Rightarrow> []))"

lemma patches_shape:
  "accept_patches hs b = fold accept_shape (sort_desc (\<lambda>x. old_start (fst (snd x))) (map shape hs)) b"
  "reject_patches hs b = fold reject_shape (sort_desc (\<lambda>x. new_start (fst (snd x))) (map shape hs)) b"
proof -
  have eqs: "accept_patch = accept_shape \<circ> shape" "reject_patch = reject_shape \<circ> shape"
    "(\<lambda>h. old_start (line_info h)) = (\<lambda>x. old_start (fst (snd x))) \<circ> shape"
    "(\<lambda>h. new_start (line_info h)) = (\<lambda>x. new_start (fst (snd x))) \<circ> shape"
    by (simp_all add: fun_eq_iff accept_patch_def reject_patch_def accept_shape_def reject_shape_def shape_def)
  show "accept_patches hs b = fold accept_shape (sort_desc (\<lambda>x. old_start (fst (snd x))) (map shape hs)) b"
    unfolding accept_patches_def eqs(1,3) by (rule sorted_shape)
  show "reject_patches hs b = fold reject_shape (sort_desc (\<lambda>x. new_start (fst (snd x))) (map shape hs)) b"
    unfolding reject_patches_def eqs(2,4) by (rule sorted_shape)
qed

lemma shape_filter:
  assumes "map shape hs = map shape gs" "distinct (map shape gs)"
  shows "map shape (filter P hs) = map shape (filter (\<lambda>g. \<exists>h \<in> set hs. shape h = shape g \<and> P h) gs)"
    "map shape (filter (\<lambda>h. \<not> P h) hs) = map shape (filter (\<lambda>g. \<not> (\<exists>h \<in> set hs. shape h = shape g \<and> P h)) gs)"
proof -
  let ?S = "\<lambda>s. \<exists>h \<in> set hs. shape h = s \<and> P h"
  have inj: "inj_on shape (set hs)" using assms(2) unfolding assms(1) [symmetric] by (simp add: distinct_map)
  then have eq: "P h \<longleftrightarrow> ?S (shape h)" if "h \<in> set hs" for h using that by (metis inj_onD)
  have "filter P hs = filter (?S \<circ> shape) hs" "filter (\<lambda>h. \<not> P h) hs = filter ((\<lambda>s. \<not> ?S s) \<circ> shape) hs"
    by (rule filter_cong [OF refl], simp only: comp_def eq)+
  then have "map shape (filter P hs) = filter ?S (map shape hs)"
    "map shape (filter (\<lambda>h. \<not> P h) hs) = filter (\<lambda>s. \<not> ?S s) (map shape hs)" by (simp_all only: filter_map)
  then show "map shape (filter P hs) = map shape (filter (\<lambda>g. \<exists>h \<in> set hs. shape h = shape g \<and> P h) gs)"
    "map shape (filter (\<lambda>h. \<not> P h) hs) = map shape (filter (\<lambda>g. \<not> (\<exists>h \<in> set hs. shape h = shape g \<and> P h)) gs)"
    unfolding assms(1) by (simp_all only: filter_map comp_def)
qed

lemma shapes_distinct:
  assumes "sorted_wrt (\<lambda>g h. old_start (line_info g) + old_count (line_info g) < old_start (line_info h) \<and> B g h) hs"
  shows "distinct (map shape hs)"
  using assms by (induction hs) (auto simp: shape_def)

lemma hunks_complement:
  assumes "spells_lines (differ W)" "exact W p f" "hunks f \<noteq> []" "baseline f = Full (lines_text ls)" "current_content f = Full (lines_text ms)"
    "plain_lines ls" "plain_lines ms" "differ W (lines_text ls) (lines_text ms) = Some cs" "\<exists>l. l \<noteq> [] \<and> (Equal, l @ [nl]) \<in> set cs"
  shows "accept_patches (filter P (hunks f)) (lines_text ls) = reject_patches (filter (\<lambda>h. \<not> P h) (hunks f)) (lines_text ms)
    \<and> accept_patches (hunks f) (lines_text ls) = lines_text ms \<and> reject_patches (hunks f) (lines_text ms) = lines_text ls"
proof -
  let ?gs = "compute_hunks (differ W) (uuid W) 0 p (lines_text ls) (lines_text ms) External"
  have gs: "map shape (hunks f) = map shape ?gs"
    using assms(2-5) by (simp add: exact_def difference_def fresh_hunks_def)
  have ne: "?gs \<noteq> []" using gs assms(3) by (metis list.map_disc_iff)
  then have small: "len_bytes (lines_text ls) \<le> MAX_DIFF_FILE_SIZE" "len_bytes (lines_text ms) \<le> MAX_DIFF_FILE_SIZE"
    by (auto simp: compute_hunks_def split: if_splits)
  have "distinct (map shape ?gs)"
    by (rule shapes_distinct [OF conjunct2 [OF computed_lines [OF assms(1,6,7) refl]]])
  note filters = shape_filter [OF gs this, of P]
  note c = patches_complement [OF assms(1,6,7,8) small assms(9) refl, of "\<lambda>g. \<exists>h \<in> set (hunks f). shape h = shape g \<and> P h" "uuid W" 0 p External]
  show ?thesis using c unfolding patches_shape filters gs .
qed


lemma compute_same [simp]: "fresh_hunks W k p (Full s) (Full s) src = []"
  by (simp add: fresh_hunks_def compute_hunks_def)


section \<open>A concrete tracker\<close>

text \<open>The agent replaces the second line of a file of two lines in its turn 3.\<close>

definition demo_world :: World where
  "demo_world = \<lparr>differ = prefix_diff, uuid = (\<lambda>n. [n]), task_ok = True, git_discover = None, git_status = (\<lambda>_. None),
     head_entry = (\<lambda>_. None), head_sync = \<lparr>head_oid = None, index_mtime = None\<rparr>, write_ok = (\<lambda>_. True), delete_ok = (\<lambda>_. True)\<rparr>"

definition demo_path :: path where "demo_path = [47, 102]"

definition demo_tracker :: Tracker where
  "demo_tracker = snd (snd (run_turn demo_world [RecordAgentWrite demo_path (lines_text [[97], [99]]) 3 (Some (lines_text [[97], [98]]))]
     (run_start demo_world (tracker_new [47] AgentOnly (\<lambda>_. None)))))"


definition demo_hunk :: Hunk where
  "demo_hunk = \<lparr>hunk_id = [0], hunk_path = demo_path, line_info = \<lparr>old_start = 2, old_count = 1, new_start = 2, new_count = 1\<rparr>,
     hunk_source = AgentEdit 3, old_text = Some [98, nl], new_text = [99, nl], hunk_patch = None\<rparr>"

definition demo_file :: FileHunkState where
  "demo_file = \<lparr>baseline = Full (lines_text [[97], [98]]), current_content = Full (lines_text [[97], [99]]), hunks = [demo_hunk],
     is_agent_file = True, baseline_accepted = False\<rparr>"

lemma demo_text: "classify_string (lines_text [[a], [b]]) = Full (lines_text [[a], [b]])" if "0 < a" "a < 118" "0 < b" "b < 118"
  using that by (simp add: classify_string_def utf8_def encode_char_def utf8_len_def is_lfs_pointer_def is_binary_def
      LFS_POINTER_PREFIX_def MAX_TRACKED_TEXT_BYTES_def)

lemma demo_diff: "prefix_diff (lines_text [[97], [98]]) (lines_text [[97], [99]]) =
    Some [(Equal, [97, nl]), (Delete, [98, nl]), (Insert, [99, nl])]"
  by (simp add: prefix_diff_def str_lines_text del: text_simps)

lemma demo_hunks: "fresh_hunks demo_world 0 demo_path (Full (lines_text [[97], [98]])) (Full (lines_text [[97], [99]])) (AgentEdit 3) = [demo_hunk]"
proof -
  have "lines_text [[97], [98]] \<noteq> lines_text [[97], [99]]" by simp
  moreover have "len_bytes (lines_text [[97], [98]]) \<le> MAX_DIFF_FILE_SIZE" "len_bytes (lines_text [[97], [99]]) \<le> MAX_DIFF_FILE_SIZE"
    by (simp_all add: len_bytes_def utf8_len_def MAX_DIFF_FILE_SIZE_def)
  ultimately show ?thesis
    by (simp add: fresh_hunks_def demo_world_def compute_hunks_def demo_diff build_hunk_def add_old_line_def add_new_line_def
        get_or_new_def builder_new_def opt_list_def demo_hunk_def del: text_simps)
qed

lemma demo_lookup: "lookup demo_tracker demo_path = Some demo_file"
proof -
  have t: "demo_tracker = record_agent_write demo_world demo_path (lines_text [[97], [99]]) 3 (Some (lines_text [[97], [98]]))
      (tracker_new [47] AgentOnly (\<lambda>_. None))"
    by (simp add: demo_tracker_def run_turn_def is_coalescable_def run_start_def tracker_new_def del: text_simps)
  have new: "lookup (tracker_new [47] AgentOnly (\<lambda>_. None)) q = None" for q by (simp add: tracker_new_def lookup_def)
  have base: "read_baseline demo_world demo_path (tracker_new [47] AgentOnly (\<lambda>_. None)) =
      (Missing, (tracker_new [47] AgentOnly (\<lambda>_. None))\<lparr>git_repo_state := NotARepo\<rparr>)"
    by (simp add: read_baseline_def tracker_new_def demo_world_def open_or_discover_def after_open_def)
  have n: "next_id (tracker_new [47] AgentOnly (\<lambda>_. None)) = 0" by (simp add: tracker_new_def)
  show ?thesis
    unfolding t using new n
    by (simp add: record_agent_write_def demo_text base Let_def recompute_lookup new_file_def demo_hunks demo_file_def track_def
        find_matching_old_hunk_def del: text_simps)
qed

lemma demo_inj: "inj (uuid demo_world)"
  by (simp add: demo_world_def inj_def)

lemma demo_world_of: "world_of (\<lambda>n. [n]) prefix_diff demo_world"
  by (simp add: world_of_def demo_world_def)

lemma demo_actor: "actor (\<lambda>n. [n]) prefix_diff demo_tracker {} True"
proof -
  let ?q = "[RecordAgentWrite demo_path (lines_text [[97], [99]]) 3 (Some (lines_text [[97], [98]]))]"
  let ?t = "run_start demo_world (tracker_new [47] AgentOnly (\<lambda>_. None))"
  have "run_turn demo_world ?q ?t = ([], [NoReply], demo_tracker)"
    by (simp add: demo_tracker_def run_turn_def is_coalescable_def)
  from actor.turn [OF actor.start [OF demo_world_of, of "[47]" AgentOnly "\<lambda>_. None"] demo_world_of _ this]
  show ?thesis by (simp add: failed_write_def)
qed

lemma demo_common: "\<exists>l. l \<noteq> [] \<and> (Equal, l @ [nl]) \<in> set [(Equal, [97, nl]), (Delete, [98, nl]), (Insert, [99, nl])]"
  by (rule exI [of _ "[97]"]) simp


theorem turn_query_exact_witness:
  "set (get_hunks_for_turn demo_tracker 3) = {h \<in> set (get_all_hunks demo_tracker). hunk_source h = AgentEdit 3}"
proof -
  have "inj (\<lambda>n::nat. [n])" by (simp add: inj_def)
  then show ?thesis using turn_query_exact [OF _ demo_actor] by blast
qed

theorem agent_files_tracked_witness:
  "\<exists>g. lookup (snd (handle_command demo_world (SetMode AllDirty) demo_tracker)) demo_path = Some g \<and> is_agent_file g"
proof -
  have "inj (\<lambda>n::nat. [n])" by (simp add: inj_def)
  moreover have "is_agent_file demo_file" by (simp add: demo_file_def)
  ultimately show ?thesis
    using agent_files_tracked [OF _ demo_actor, of "SetMode AllDirty" demo_world NoReply] demo_lookup by simp
qed



theorem agent_write_attributed_witness:
  "\<exists>f. lookup (record_agent_write demo_world demo_path (lines_text [[97], [100]]) 4 None demo_tracker) demo_path = Some f \<and>
     (\<forall>h \<in> set (hunks f). hunk_source h = AgentEdit 4) \<and> baseline f = Full (lines_text [[97], [98]])"
proof -
  have "baseline demo_file = Full (lines_text [[97], [98]])" by (simp add: demo_file_def)
  moreover have "classify_string (lines_text [[97], [100]]) = Full (lines_text [[97], [100]])" by (rule demo_text) simp_all
  ultimately show ?thesis
    using agent_write_attributed [of "lines_text [[97], [100]]" _ demo_world demo_path 4 None demo_tracker] demo_lookup by metis
qed

end
