(* ===== verification/Hunk_Reports.thy ===== *)
theory Hunk_Reports
  imports Hunk_Facts
begin

text \<open>
  The reports of the hunk tracker: the summary of the session, snapshots and their transfer to another
  directory, and the merging of queued notifications; and two shortcomings of actions on hunks.
\<close>

section \<open>The session summary\<close>

definition of_prompt :: "nat \<Rightarrow> (path \<times> Hunk) list \<Rightarrow> (path \<times> Hunk) list" where
  "of_prompt q xs = filter (\<lambda>x. prompt_of (snd x) = Some q) xs"

definition data_of :: "(path \<times> Hunk) list \<Rightarrow> TurnData" where
  "data_of xs = fold (\<lambda>x. add_pending (fst x) (snd x)) xs turn_data_empty"

lemma data_of_snoc: "data_of (xs @ [x]) = add_pending (fst x) (snd x) (data_of xs)"
  by (simp add: data_of_def)

lemma data_of_fields:
  "set (td_files (data_of xs)) = fst ` set xs \<and> distinct (td_files (data_of xs)) \<and> td_pending (data_of xs) = map snd xs \<and>
   td_added (data_of xs) = (\<Sum>x\<leftarrow>xs. new_count (line_info (snd x))) \<and> td_removed (data_of xs) = (\<Sum>x\<leftarrow>xs. old_count (line_info (snd x)))"
proof (induction xs rule: rev_induct)
  case (snoc x xs)
  then show ?case by (simp add: data_of_snoc add_pending_def)
qed (simp add: data_of_def turn_data_empty_def)

lemma by_prompt_step_simps:
  "prompt_of (snd x) = None \<Longrightarrow> by_prompt_step x (m, n) = (m, n + 1)"
  "prompt_of (snd x) = Some k \<Longrightarrow> by_prompt_step x (m, n) =
     (AList.update k (add_pending (fst x) (snd x) (case map_of m k of Some d \<Rightarrow> d | None \<Rightarrow> turn_data_empty)) m, n)"
  by (simp_all add: by_prompt_step_def prompt_of_def Let_def)

lemma by_prompt_fold:
  assumes "fold by_prompt_step xs ([], 0) = (m, n)"
  shows "map_of m q = (if of_prompt q xs = [] then None else Some (data_of (of_prompt q xs))) \<and> distinct (map fst m) \<and>
    n = length (filter (\<lambda>x. prompt_of (snd x) = None) xs)"
  using assms
proof (induction xs arbitrary: m n q rule: rev_induct)
  case Nil
  then show ?case by (simp add: of_prompt_def)
next
  case (snoc x xs)
  obtain m' n' where m': "fold by_prompt_step xs ([], 0) = (m', n')" by fastforce
  note IH = snoc.IH [OF m']
  show ?case
  proof (cases "prompt_of (snd x)")
    case None
    then have "m = m'" "n = n' + 1" using snoc.prems m' by (simp_all add: by_prompt_step_simps)
    then show ?thesis using IH [of q] None by (simp add: of_prompt_def)
  next
    case (Some k)
    let ?d = "case map_of m' k of Some d \<Rightarrow> d | None \<Rightarrow> turn_data_empty"
    have d: "?d = data_of (of_prompt k xs)" using IH [of k] by (simp add: data_of_def)
    have m: "m = AList.update k (add_pending (fst x) (snd x) ?d) m'" "n = n'"
      using snoc.prems m' Some by (simp_all add: by_prompt_step_simps)
    have new: "of_prompt k (xs @ [x]) = of_prompt k xs @ [x]" "j \<noteq> k \<Longrightarrow> of_prompt j (xs @ [x]) = of_prompt j xs" for j
      using Some by (simp_all add: of_prompt_def)
    show ?thesis using IH Some new unfolding m d
      by (cases "q = k") (simp_all add: update_conv distinct_update data_of_snoc)
  qed
qed

lemma sum_update:
  fixes g :: "'k \<times> 'v \<Rightarrow> nat"
  shows "sum_list (map g (AList.update k v al)) + (case map_of al k of Some d \<Rightarrow> g (k, d) | None \<Rightarrow> 0) = sum_list (map g al) + g (k, v)"
  by (induction al) auto

lemma by_prompt_sum:
  assumes "\<And>k d p h. g (k, add_pending p h d) = g (k, d) + w h" "\<And>k. g (k, turn_data_empty) = (0 :: nat)"
  shows "fold by_prompt_step xs ([], 0) = (m, n) \<Longrightarrow> sum_list (map g m) = (\<Sum>x\<leftarrow>filter (\<lambda>x. prompt_of (snd x) \<noteq> None) xs. w (snd x))"
proof (induction xs arbitrary: m n rule: rev_induct)
  case (snoc x xs)
  obtain m' n' where m': "fold by_prompt_step xs ([], 0) = (m', n')" by fastforce
  note IH = snoc.IH [OF m']
  show ?case
  proof (cases "prompt_of (snd x)")
    case None
    then have "m = m'" using snoc.prems m' by (simp add: by_prompt_step_simps)
    then show ?thesis using IH None by simp
  next
    case (Some k)
    let ?d = "case map_of m' k of Some d \<Rightarrow> d | None \<Rightarrow> turn_data_empty"
    have m: "m = AList.update k (add_pending (fst x) (snd x) ?d) m'"
      using snoc.prems m' Some by (simp add: by_prompt_step_simps)
    have "sum_list (map g m) = sum_list (map g m') + w (snd x)"
      using sum_update [of g k "add_pending (fst x) (snd x) ?d" m'] assms unfolding m by (cases "map_of m' k") simp_all
    then show ?thesis using IH Some by simp
  qed
qed simp

lemma sum_sort: "sum_list (map g (sort_key f xs)) = sum_list (map g xs)" for g :: "'a \<Rightarrow> nat"
proof -
  have "sum_list (map g (insort_key f x ys)) = g x + sum_list (map g ys)" for x ys by (induction ys) simp_all
  then show ?thesis by (induction xs) simp_all
qed

lemma strictly_sorted:
  fixes f :: "'a \<Rightarrow> nat"
  assumes "distinct (map f xs)"
  shows "sorted_wrt (\<lambda>a b. f a < f b) (sort_key f xs)"
proof -
  have "map f (sort_key f xs) = sort (map f xs)" using sort_key_shape [of f id xs] by (simp add: comp_def id_def)
  then have "sorted_wrt (<) (map f (sort_key f xs))" using assms by (simp add: strict_sorted_iff)
  then show ?thesis by (simp add: sorted_wrt_map)
qed

lemma pairs_hunks: "map snd (hunk_pairs t) = get_all_hunks t"
proof -
  have "map snd (concat (map (\<lambda>(p, f). map (Pair p) (hunks f)) fs)) = concat (map (\<lambda>(_, f). hunks f) fs)" for fs
    by (induction fs) (auto simp: comp_def)
  then show ?thesis by (simp add: hunk_pairs_def get_all_hunks_def)
qed

lemma filter_pairs: "map snd (filter (\<lambda>x. P (snd x)) (hunk_pairs t)) = filter P (get_all_hunks t)"
  by (simp flip: pairs_hunks add: filter_map comp_def)

text \<open>The session summary is exact: its turns come in ascending order, one for every turn with pending
  hunks, each with just the pending hunks of that turn and the sums of their lines; the totals are those
  of all hunks that are attributed to a turn, and the rest is counted apart.\<close>

theorem session_summary_exact:
  "sorted_wrt (\<lambda>a b. ts_prompt_index a < ts_prompt_index b) (turns (compute_session_summary t)) \<and>
   ts_prompt_index ` set (turns (compute_session_summary t)) = {q. \<exists>h \<in> set (get_all_hunks t). prompt_of h = Some q} \<and>
   (\<forall>s \<in> set (turns (compute_session_summary t)).
      ts_pending s = filter (\<lambda>h. prompt_of h = Some (ts_prompt_index s)) (get_all_hunks t) \<and>
      ts_added s = (\<Sum>h\<leftarrow>ts_pending s. new_count (line_info h)) \<and> ts_removed s = (\<Sum>h\<leftarrow>ts_pending s. old_count (line_info h))) \<and>
   pending_hunks (compute_session_summary t) = length (filter (\<lambda>h. prompt_of h \<noteq> None) (get_all_hunks t)) \<and>
   pending_hunks (compute_session_summary t) + unattributed_pending (compute_session_summary t) = length (get_all_hunks t)"
proof -
  obtain m n where m: "fold by_prompt_step (hunk_pairs t) ([], 0) = (m, n)" by fastforce
  let ?ts = "sort_key ts_prompt_index (map summary_of m)"
  have S: "turns (compute_session_summary t) = ?ts" "unattributed_pending (compute_session_summary t) = n"
    "pending_hunks (compute_session_summary t) = sum_list (map (\<lambda>s. length (ts_pending s)) ?ts)"
    by (simp_all add: compute_session_summary_def m Let_def)
  note F = by_prompt_fold [OF m]
  have dist: "distinct (map fst m)" and look: "map_of m q = (if of_prompt q (hunk_pairs t) = [] then None else Some (data_of (of_prompt q (hunk_pairs t))))" for q
    using F by blast+
  have entry: "d = data_of (of_prompt q (hunk_pairs t)) \<and> of_prompt q (hunk_pairs t) \<noteq> []" if "(q, d) \<in> set m" for q d
    using map_of_is_SomeI [OF dist that] look [of q] by (simp split: if_splits)
  have keys: "map ts_prompt_index (map summary_of m) = map fst m" by (simp add: summary_of_def)
  have pend: "map snd (of_prompt q (hunk_pairs t)) = filter (\<lambda>h. prompt_of h = Some q) (get_all_hunks t)" for q
    using filter_pairs [of "\<lambda>h. prompt_of h = Some q"] by (simp add: of_prompt_def)
  have "sorted_wrt (\<lambda>a b. ts_prompt_index a < ts_prompt_index b) ?ts"
    by (rule strictly_sorted) (use dist keys in \<open>simp only:\<close>)
  moreover have "fst ` set m = {q. of_prompt q (hunk_pairs t) \<noteq> []}"
    using look by (auto simp flip: dom_map_of_conv_image_fst split: if_splits)
  then have "ts_prompt_index ` set ?ts = {q. filter (\<lambda>h. prompt_of h = Some q) (get_all_hunks t) \<noteq> []}"
    by (simp flip: pend add: image_image summary_of_def)
  then have "ts_prompt_index ` set ?ts = {q. \<exists>h \<in> set (get_all_hunks t). prompt_of h = Some q}"
    by (simp add: filter_empty_conv)
  moreover have "ts_pending s = filter (\<lambda>h. prompt_of h = Some (ts_prompt_index s)) (get_all_hunks t) \<and>
      ts_added s = (\<Sum>h\<leftarrow>ts_pending s. new_count (line_info h)) \<and> ts_removed s = (\<Sum>h\<leftarrow>ts_pending s. old_count (line_info h))"
    if s: "s \<in> set ?ts" for s
  proof -
    obtain q d where q: "(q, d) \<in> set m" "s = summary_of (q, d)" using s by auto
    let ?xs = "of_prompt q (hunk_pairs t)"
    have s: "ts_prompt_index s = q" "ts_pending s = map snd ?xs" "ts_added s = (\<Sum>x\<leftarrow>?xs. new_count (line_info (snd x)))"
      "ts_removed s = (\<Sum>x\<leftarrow>?xs. old_count (line_info (snd x)))"
      using q(2) entry [OF q(1)] data_of_fields [of ?xs] by (simp_all add: summary_of_def)
    have "(\<Sum>h\<leftarrow>map snd ?xs. g h) = (\<Sum>x\<leftarrow>?xs. g (snd x))" for g :: "Hunk \<Rightarrow> nat" by (simp add: comp_def)
    then show ?thesis unfolding s pend [symmetric] by simp
  qed
  moreover have total: "sum_list (map (\<lambda>s. length (ts_pending s)) ?ts) = length (filter (\<lambda>h. prompt_of h \<noteq> None) (get_all_hunks t))"
    using by_prompt_sum [of "\<lambda>x. length (td_pending (snd x))" "\<lambda>_. 1", OF _ _ m] filter_pairs [of "\<lambda>h. prompt_of h \<noteq> None" t, symmetric]
    by (simp add: sum_sort comp_def summary_of_def add_pending_def turn_data_empty_def sum_list_triv)
  moreover have "sum_list (map (\<lambda>s. length (ts_pending s)) ?ts) + n = length (get_all_hunks t)"
  proof -
    have n: "n = length (filter (\<lambda>h. prompt_of h = None) (get_all_hunks t))"
      using F filter_pairs [of "\<lambda>h. prompt_of h = None" t, symmetric] by simp
    show ?thesis unfolding total n using sum_length_filter_compl [of "\<lambda>h. prompt_of h = None" "get_all_hunks t"] by linarith
  qed
  ultimately show ?thesis unfolding S by blast
qed

section \<open>Snapshots\<close>

definition lies_in :: "path \<Rightarrow> path \<times> FileHunkStateSnapshot \<Rightarrow> bool" where
  "lies_in dir x \<longleftrightarrow>
     (\<exists>r. fst x = dir @ slash_char # r \<and> \<not> starts_with [slash_char] r) \<and> (\<forall>h \<in> set (snap_hunks (snd x)). hunk_path h = fst x)"

definition plain_dir :: "path \<Rightarrow> bool" where
  "plain_dir dir \<longleftrightarrow> dir \<noteq> [] \<and> last dir \<noteq> slash_char"

lemma rewrite_inside:
  assumes "plain_dir old" "plain_dir new" "fst x = old @ slash_char # r" "\<not> starts_with [slash_char] r"
  shows "rewrite_entry old old new x =
    (new @ slash_char # r, (snd x)\<lparr>snap_hunks := map (\<lambda>h. h\<lparr>hunk_path := new @ slash_char # r\<rparr>) (snap_hunks (snd x))\<rparr>)"
proof -
  have "path_under old (old @ slash_char # r) = Some r"
    using assms(1) strip_prefix_append [of "old @ [slash_char]" r] by (simp add: path_under_def plain_dir_def)
  moreover have "path_in new r = new @ slash_char # r" using assms(2,4) by (simp add: path_in_def plain_dir_def)
  ultimately show ?thesis using assms(3) by (simp add: rewrite_entry_def rewrite_single_path_def Let_def)
qed

lemma rewrite_back:
  assumes "plain_dir old" "plain_dir new" "lies_in old x"
  shows "rewrite_entry new new old (rewrite_entry old old new x) = x"
proof -
  obtain r where r: "fst x = old @ slash_char # r" "\<not> starts_with [slash_char] r" using assms(3) by (auto simp: lies_in_def)
  have "map (\<lambda>h. h\<lparr>hunk_path := old @ slash_char # r\<rparr>) (snap_hunks (snd x)) = snap_hunks (snd x)"
    using assms(3) r(1) by (intro map_idI) (auto simp: lies_in_def)
  then show ?thesis
    using rewrite_inside [OF assms(1,2) r] rewrite_inside [OF assms(2,1) _ r(2)] r(1) by (cases x) (simp add: comp_def)
qed

lemma fold_update_distinct:
  "distinct (map fst xs) \<Longrightarrow> fst ` set xs \<inter> fst ` set ys = {} \<Longrightarrow> fold (\<lambda>(p, f) fs. AList.update p f fs) xs ys = ys @ xs"
proof (induction xs arbitrary: ys)
  case (Cons x xs)
  have "AList.update k v al = al @ [(k, v)]" if "k \<notin> fst ` set al" for k v and al :: "('a \<times> 'b) list"
    using that by (induction al) auto
  then have "AList.update (fst x) (snd x) ys = ys @ [x]" using Cons.prems(2) by auto
  moreover have "fold (\<lambda>(p, f) fs. AList.update p f fs) xs (ys @ [x]) = (ys @ [x]) @ xs"
    using Cons.prems by (intro Cons.IH) auto
  ultimately show ?case by (simp add: split_def)
qed simp



section \<open>Merging notifications\<close>

fun notice :: "path \<Rightarrow> HunkTrackerCommand \<Rightarrow> bool option" where
  "notice p (HandleFileChange q) = (if p = q then Some False else None)"
| "notice p (HandleFileDeleted q) = (if p = q then Some True else None)"
| "notice p _ = None"

definition notices :: "path \<Rightarrow> HunkTrackerCommand list \<Rightarrow> bool list" where
  "notices p cs = List.map_filter (notice p) cs"

definition merged :: "bool list \<Rightarrow> CoalescedPathAction option" where
  "merged ns =
     (if ns = [] then None
      else if last ns then Some DeletedAction
      else if True \<in> set ns then Some DeletedThenChanged else Some ChangedAction)"

lemma notices_snoc: "notices p (cs @ [c]) = notices p cs @ (case notice p c of Some n \<Rightarrow> [n] | None \<Rightarrow> [])"
  by (simp add: notices_def map_filter_def split: option.split)

lemma map_of_update: "map_of (AList.update k v al) p = (if p = k then Some v else map_of al p)"
  by (simp add: update_conv)

text \<open>C39. Merging queued commands loses nothing: the notifications of a file become one action that tells the
  last of them and whether a deletion came before, the refreshes are remembered, every command is
  counted, and all other commands stay in their order.\<close>

theorem coalescing_exact:
  "map_of (file_actions (drain_and_coalesce cs)) p = merged (notices p cs) \<and>
   (refresh_all (drain_and_coalesce cs) \<longleftrightarrow> RefreshAllBaselines \<in> set cs) \<and>
   (refresh_dirty (drain_and_coalesce cs) \<longleftrightarrow> RefreshGitDirtyCache \<in> set cs) \<and>
   other_commands (drain_and_coalesce cs) = filter (\<lambda>c. \<not> is_coalescable c) cs \<and>
   command_count (drain_and_coalesce cs) = length cs"
proof (induction cs arbitrary: p rule: rev_induct)
  case Nil
  then show ?case by (simp add: drain_and_coalesce_def batch_new_def merged_def notices_def map_filter_simps)
next
  case (snoc c cs)
  have d: "drain_and_coalesce (cs @ [c]) = batch_add c (drain_and_coalesce cs)" by (simp add: drain_and_coalesce_def)
  have chg: "changed_after (merged ns) = the (merged (ns @ [False]))" for ns
    by (cases ns rule: rev_cases) (auto simp: merged_def changed_after_def)
  have some: "merged (ns @ [n]) \<noteq> None" for ns n by (simp add: merged_def)
  have del: "merged (ns @ [True]) = Some DeletedAction" for ns by (simp add: merged_def)
  show ?case
    using snoc chg some del unfolding d notices_snoc
    by (cases c) (auto simp: batch_add_def is_coalescable_def map_of_update Let_def)
qed

section \<open>Where actions fall short\<close>

text \<open>A rejection whose write fails leaves the hunk pending, but the hunk has already left the index of its
  turn and has been counted as rejected.\<close>

theorem failed_reject_forgets_turn:
  assumes "inj ids" "actor ids diff t S ok" "world_of ids diff W" "apply_hunk_action W i Reject t = (Err e, u)"
    "live t p h" "hunk_id h = i" "hunk_source h = AgentEdit q"
  shows "live u p h \<and> h \<notin> set (get_hunks_for_turn u q) \<and>
    rejected_hunks (session_stats u) = sat_add64 (rejected_hunks (session_stats t)) 1"
proof -
  have t: "tracked W {} (if ok then {} else UNIV) t" using actor_invariant [OF assms(1-3)] by blast
  have W: "inj (uuid W)" using assms(1,3) by (simp add: world_of_def)
  have d: "distinct (map fst (file_states t))" using t by (simp add: tracked_def)
  obtain f where f: "lookup t p = Some f" "h \<in> set (hunks f)" using assms(5) by (auto simp: live_def)
  then have "(p, f) \<in> set (file_states t)" by (simp add: lookup_def map_of_SomeD)
  then have "find_hunk i (file_states t) \<noteq> None" using f(2) assms(6) unfolding find_hunk_None by blast
  then obtain p' h' where h': "find_hunk i (file_states t) = Some (p', h')" by (cases "find_hunk i (file_states t)") auto
  have l: "live t p' h'" "hunk_id h' = i" using find_hunk_live [OF t h'] by simp_all
  have same: "p' = p" "h' = h" using tracked_unique [OF t l(1) assms(5)] l(2) assms(6) by auto
  have "reject_hunks_batch W p [h] (settle Reject h t) = (Err e, u)"
    using assms(4) h' by (simp add: apply_hunk_action_def reject_hunk_batch same)
  moreover have s: "tracked W {} ((if ok then {} else UNIV) \<union> hunk_id ` set [h]) (settle Reject h t)"
    by (rule tracked_unindex [OF t]) (simp_all add: unindex_def)
  ultimately have u: "u = settle Reject h t"
    using reject_batch_tracked [OF W s, of p "Err e" u] assms(5) by auto
  have tu: "tracked W {} UNIV u" using tracked_mono [OF s] u by blast
  have "hunk_id h \<notin> index (turn_index u) q"
    by (simp add: u index_remove_iff assms(7))
  then have "h \<notin> set (get_hunks_for_turn u q)" unfolding turn_hunks [OF tu] by simp
  moreover have "rejected_hunks (session_stats u) = sat_add64 (rejected_hunks (session_stats t)) 1"
    by (simp add: u settle_def remove_from_turn_index_def update_session_stats_def Let_def)
  ultimately show ?thesis using assms(5) u by simp
qed

text \<open>Accepting one hunk recomputes the others as edits of the source of the first that remains: where that
  is a turn of the agent, all remaining hunks of the file, also the user's own edits and those of other
  turns, are attributed to that turn afterwards, and an action on the turn takes them along.\<close>

theorem accept_reattributes_the_rest:
  assumes "lookup t p = Some f" "baseline f \<noteq> Missing" "retain [h] (hunks f) = k # ks" "hunk_source k = AgentEdit q"
  shows "\<forall>g \<in> set (get_hunks_for_path (accept_hunk W p h t) p). hunk_source g = AgentEdit q"
proof -
  have keep: "hunk_source g = AgentEdit q" if "g \<in> set (claim_ids old [] (fresh_hunks W n p b c (AgentEdit q)))" for g old n b c
    using claim_ids_from [OF that] fresh_source by (fastforce simp: inherit_def is_external_def)
  then show ?thesis
    using assms by (auto simp: accept_hunk_def get_hunks_for_path_def recompute_remaining_def recompute_lookup remaining_source_def Let_def)
qed

end
