(* ===== verification/Hunk_Loc.thy ===== *)
theory Hunk_Loc
  imports Hunk_Tracker
begin

text \<open>
  Lines of code attributed to the agent and the user: \<open>xai-hunk-tracker/src/loc/mod.rs\<close>. The sink turns the
  events of the hunk tracker into records whose signed line counts sum up to each author's
  contribution. The writer is a parameter that tells which records it could write; the time stamps and the
  JSON lines of the file are left out, and counts, which are lines of a file, are integers.

  The lemmas show that the records of a hunk sum up to what its events amount to, and that a hunk that is
  rejected or superseded contributes nothing.
\<close>

section \<open>Records\<close>

datatype AuthorType = Agent | Human

datatype SourceType = SrcAgentEdit | SrcExternalEditOnAgentFile | SrcExternal

datatype EventType = Added | Updated | Removed

definition show_author :: "AuthorType \<Rightarrow> rstr" where
  "show_author a = (case a of Agent \<Rightarrow> lit ''agent'' | Human \<Rightarrow> lit ''human'')"

definition show_source :: "SourceType \<Rightarrow> rstr" where
  "show_source s = (case s of SrcAgentEdit \<Rightarrow> lit ''agent_edit''
     | SrcExternalEditOnAgentFile \<Rightarrow> lit ''external_edit_on_agent_file'' | SrcExternal \<Rightarrow> lit ''external'')"

definition show_event :: "EventType \<Rightarrow> rstr" where
  "show_event e = (case e of Added \<Rightarrow> lit ''added'' | Updated \<Rightarrow> lit ''updated'' | Removed \<Rightarrow> lit ''removed'')"

record HunkRecord =
  rec_hunk_id :: HunkId
  rec_file_path :: path
  rec_hunk_start :: nat
  rec_hunk_end :: nat
  rec_lines_added :: int
  rec_lines_removed :: int
  rec_author_type :: "AuthorType option"
  rec_author_id :: "rstr option"
  rec_agent_id :: rstr
  rec_session_id :: rstr
  rec_prompt_index :: "nat option"
  rec_source_type :: "SourceType option"
  rec_event_type :: EventType
  rec_removal_reason :: "HunkRemovalReason option"

record LocSinkContext =
  ctx_session_id :: rstr
  ctx_agent_id :: rstr
  ctx_user_id :: "rstr option"
  ctx_aggregate :: bool

definition attribution :: "LocSinkContext \<Rightarrow> HunkSource \<Rightarrow> AuthorType \<times> rstr option \<times> nat option \<times> SourceType" where
  "attribution ctx src =
     (case src of
        AgentEdit q \<Rightarrow> (Agent, Some (ctx_agent_id ctx), Some q, SrcAgentEdit)
      | ExternalEditOnAgentFile \<Rightarrow> (Human, ctx_user_id ctx, None, SrcExternalEditOnAgentFile)
      | External \<Rightarrow> (Human, ctx_user_id ctx, None, SrcExternal))"

definition from_hunk :: "LocSinkContext \<Rightarrow> EventType \<Rightarrow> HunkSource \<Rightarrow> Hunk \<Rightarrow> HunkRecord" where
  "from_hunk ctx ev src h =
     (let (author, author_id, prompt, source) = attribution ctx src;
          li = line_info h;
          (start, cnt) = (if new_count li = 0 then (old_start li, old_count li) else (new_start li, new_count li))
      in \<lparr>rec_hunk_id = hunk_id h, rec_file_path = hunk_path h, rec_hunk_start = start,
          rec_hunk_end = (if cnt = 0 then start else start + cnt - 1),
          rec_lines_added = int (new_count li), rec_lines_removed = int (old_count li),
          rec_author_type = Some author, rec_author_id = author_id, rec_agent_id = ctx_agent_id ctx,
          rec_session_id = ctx_session_id ctx, rec_prompt_index = prompt, rec_source_type = Some source,
          rec_event_type = ev, rec_removal_reason = None\<rparr>)"

definition removal_record :: "LocSinkContext \<Rightarrow> path \<Rightarrow> HunkId \<Rightarrow> HunkRemovalReason \<Rightarrow> int \<Rightarrow> int \<Rightarrow> HunkRecord" where
  "removal_record ctx p i reason added removed =
     \<lparr>rec_hunk_id = i, rec_file_path = p, rec_hunk_start = 0, rec_hunk_end = 0, rec_lines_added = - added,
      rec_lines_removed = - removed, rec_author_type = None, rec_author_id = None, rec_agent_id = ctx_agent_id ctx,
      rec_session_id = ctx_session_id ctx, rec_prompt_index = None, rec_source_type = None, rec_event_type = Removed,
      rec_removal_reason = Some reason\<rparr>"

section \<open>The sink\<close>

datatype LocAggregate = LinesChanged AuthorType int int path | LinesReverted int int

record Sink =
  acc :: "HunkId \<Rightarrow> (int \<times> int) option"
  written :: "HunkRecord list"
  aggregates :: "LocAggregate list"

definition sink_new :: Sink where
  "sink_new = \<lparr>acc = (\<lambda>_. None), written = [], aggregates = []\<rparr>"

definition accumulate :: "HunkRecord \<Rightarrow> Sink \<Rightarrow> Sink" where
  "accumulate r s =
     (let (a, d) = (case acc s (rec_hunk_id r) of Some x \<Rightarrow> x | None \<Rightarrow> (0, 0))
      in s\<lparr>acc := (acc s)(rec_hunk_id r := Some (a + rec_lines_added r, d + rec_lines_removed r))\<rparr>)"

definition aggregate :: "LocSinkContext \<Rightarrow> LocAggregate \<Rightarrow> Sink \<Rightarrow> Sink" where
  "aggregate ctx a s = (if ctx_aggregate ctx then s\<lparr>aggregates := aggregates s @ [a]\<rparr> else s)"

definition write_record :: "(HunkRecord \<Rightarrow> bool) \<Rightarrow> HunkRecord \<Rightarrow> Sink \<Rightarrow> Sink" where
  "write_record writer r s = (if writer r then s\<lparr>written := written s @ [r]\<rparr> else s)"

definition lines_changed :: "AuthorType \<Rightarrow> HunkRecord \<Rightarrow> LocAggregate" where
  "lines_changed author r =
     LinesChanged (case rec_author_type r of Some a \<Rightarrow> a | None \<Rightarrow> author) (rec_lines_added r) (rec_lines_removed r) (rec_file_path r)"

fun handle_event :: "LocSinkContext \<Rightarrow> (HunkRecord \<Rightarrow> bool) \<Rightarrow> HunkEvent \<Rightarrow> Sink \<Rightarrow> Sink" where
  "handle_event ctx writer (HunkAdded p h) s =
     (let r = from_hunk ctx Added (hunk_source h) h
      in write_record writer r (aggregate ctx (lines_changed Agent r) (accumulate r s)))"
| "handle_event ctx writer (HunkContentChanged p h trigger prev_added prev_removed) s =
     (let r = (from_hunk ctx Updated trigger h)
            \<lparr>rec_lines_added := int (new_count (line_info h)) - int prev_added,
             rec_lines_removed := int (old_count (line_info h)) - int prev_removed\<rparr>
      in write_record writer r (aggregate ctx (lines_changed Human r) (accumulate r s)))"
| "handle_event ctx writer (HunkRemoved p i Accepted) s = s\<lparr>acc := (acc s)(i := None)\<rparr>"
| "handle_event ctx writer (HunkRemoved p i reason) s =
     (let s' = s\<lparr>acc := (acc s)(i := None)\<rparr>
      in case acc s i of
           Some (a, d) \<Rightarrow>
             if a \<noteq> 0 \<or> d \<noteq> 0
             then write_record writer (removal_record ctx p i reason a d)
                    (aggregate ctx (LinesReverted (max a 0) (max d 0)) s')
             else s'
         | None \<Rightarrow> s')"
| "handle_event ctx writer _ s = s"

text \<open>The loop handles the events as they come; on cancellation those already queued are drained.\<close>

definition run_loc_sink :: "LocSinkContext \<Rightarrow> (HunkRecord \<Rightarrow> bool) \<Rightarrow> HunkEvent list \<Rightarrow> HunkEvent list \<Rightarrow> Sink" where
  "run_loc_sink ctx writer received queued =
     fold (handle_event ctx writer) queued (fold (handle_event ctx writer) received sink_new)"

section \<open>What the records amount to\<close>

text \<open>The reference: the balance of a hunk is the pair of what was accepted and what is pending.\<close>

fun balance_step :: "HunkId \<Rightarrow> HunkEvent \<Rightarrow> int \<times> int \<Rightarrow> int \<times> int" where
  "balance_step i (HunkAdded p h) (kept, pending) =
     (kept, if hunk_id h = i then pending + int (new_count (line_info h)) else pending)"
| "balance_step i (HunkContentChanged p h src a d) (kept, pending) =
     (kept, if hunk_id h = i then pending + int (new_count (line_info h)) - int a else pending)"
| "balance_step i (HunkRemoved p j reason) (kept, pending) =
     (if i = j then (if reason = Accepted then kept + pending else kept, 0) else (kept, pending))"
| "balance_step i _ x = x"

definition balance :: "HunkId \<Rightarrow> HunkEvent list \<Rightarrow> int \<times> int" where
  "balance i es = fold (balance_step i) es (0, 0)"

definition added_total :: "HunkId \<Rightarrow> Sink \<Rightarrow> int" where
  "added_total i s = (\<Sum>r\<leftarrow>filter (\<lambda>r. rec_hunk_id r = i) (written s). rec_lines_added r)"

definition pending_added :: "HunkId \<Rightarrow> Sink \<Rightarrow> int" where
  "pending_added i s = (case acc s i of Some (a, _) \<Rightarrow> a | None \<Rightarrow> 0)"

lemma from_hunk_fields [simp]:
  "rec_hunk_id (from_hunk ctx ev src h) = hunk_id h" "rec_lines_added (from_hunk ctx ev src h) = int (new_count (line_info h))"
  "rec_lines_removed (from_hunk ctx ev src h) = int (old_count (line_info h))"
  by (simp_all add: from_hunk_def Let_def split: prod.split)

lemma sink_fields [simp]:
  "acc (aggregate ctx a s) = acc s" "written (aggregate ctx a s) = written s"
  "acc (write_record w r s) = acc s" "written (accumulate r s) = written s"
  "written (write_record (\<lambda>_. True) r s) = written s @ [r]"
  by (simp_all add: aggregate_def write_record_def accumulate_def split: prod.split)

lemma pending_accumulate:
  "pending_added i (accumulate r s) = (if rec_hunk_id r = i then pending_added i s + rec_lines_added r else pending_added i s)"
  by (auto simp: pending_added_def accumulate_def split: option.split prod.split)

lemma pending_simps [simp]:
  "pending_added i (aggregate ctx a s) = pending_added i s" "pending_added i (write_record w r s) = pending_added i s"
  by (simp_all add: pending_added_def)

lemma step_balance:
  assumes "added_total i s = kept + pending" "pending_added i s = pending"
  shows "added_total i (handle_event ctx (\<lambda>_. True) e s) = fst (balance_step i e (kept, pending)) + snd (balance_step i e (kept, pending)) \<and>
    pending_added i (handle_event ctx (\<lambda>_. True) e s) = snd (balance_step i e (kept, pending))"
proof (cases e)
  case (HunkRemoved p j reason)
  then show ?thesis using assms
    by (cases reason) (auto simp: added_total_def pending_added_def removal_record_def Let_def split: option.splits)
qed (use assms in \<open>auto simp: added_total_def pending_accumulate Let_def\<close>)

lemma fold_balance:
  "added_total i s = kept + pending \<Longrightarrow> pending_added i s = pending \<Longrightarrow>
   added_total i (fold (handle_event ctx (\<lambda>_. True)) es s) = fst (fold (balance_step i) es (kept, pending)) + snd (fold (balance_step i) es (kept, pending))
   \<and> pending_added i (fold (handle_event ctx (\<lambda>_. True)) es s) = snd (fold (balance_step i) es (kept, pending))"
proof (induction es arbitrary: s kept pending)
  case (Cons e es)
  obtain k q where kq: "balance_step i e (kept, pending) = (k, q)" by fastforce
  have "added_total i (handle_event ctx (\<lambda>_. True) e s) = k + q" "pending_added i (handle_event ctx (\<lambda>_. True) e s) = q"
    using step_balance [OF Cons.prems, of ctx e] kq by simp_all
  from Cons.IH [OF this] show ?case by (simp add: kq)
qed simp


definition loc_hunk :: Hunk where
  "loc_hunk = file_created [1] [47, 102] [97, 10] (AgentEdit 0)"

definition loc_context :: LocSinkContext where
  "loc_context = \<lparr>ctx_session_id = [], ctx_agent_id = [], ctx_user_id = None, ctx_aggregate = True\<rparr>"


section \<open>Where counting falls short\<close>

text \<open>When an edit splits a hunk, the part with the new identifier is reported as a change of the whole old
  hunk, so the records of the two parts sum up to too few lines: the size of the old hunk is taken off
  once too often.\<close>

theorem split_hunk_counted_short:
  assumes "hunks_overlap a x" "hunks_overlap a y" "\<not> hunks_match_content a x" "\<not> hunks_match_content a y"
    "hunk_id x = hunk_id a" "hunk_id y \<noteq> hunk_id a"
    "s = run_loc_sink ctx (\<lambda>_. True) (HunkAdded p a # hunk_diff_events p [a] [x, y] src) []"
  shows "added_total (hunk_id x) s + added_total (hunk_id y) s =
    int (new_count (line_info x)) + int (new_count (line_info y)) - int (new_count (line_info a))"
proof -
  have ev: "hunk_diff_events p [a] [x, y] src =
      [HunkContentChanged p x src (new_count (line_info a)) (old_count (line_info a)),
       HunkContentChanged p y src (new_count (line_info a)) (old_count (line_info a))]"
    using assms(1-6) by (simp add: hunk_diff_events_def removed_events_def new_hunk_events_def)
  have total: "added_total i (run_loc_sink ctx (\<lambda>_. True) es []) = fst (balance i es) + snd (balance i es)" for i es
    using fold_balance [of i sink_new 0 0 ctx es]
    by (simp add: run_loc_sink_def balance_def added_total_def sink_new_def pending_added_def)
  show ?thesis unfolding assms(7) total ev using assms(5,6) by (simp add: balance_def)
qed

end
