(* ===== verification/Text_Elements.thy ===== *)
theory Text_Elements
  imports Utf8
begin

text \<open>
  The elements of the text area (\<open>xai-ratatui-textarea/src/textarea.rs\<close>): ranges of the buffer that
  editing treats as units. The operations on positions and ranges (clamping, expanding a range to whole
  elements, shifting elements after an edit), and what an edit of a range that cuts no element keeps:
  elements stay in order, apart and on character boundaries, and keep their text.
\<close>

section \<open>Elements\<close>

text \<open>The display of an element is the list of the contents of its spans; styles are left out.\<close>

record TextElement =
  el_id :: nat
  el_start :: nat
  el_end :: nat
  el_kind :: nat
  el_display :: "bytes list option"

definition holds :: "nat \<Rightarrow> TextElement \<Rightarrow> bool" where
  "holds pos e \<longleftrightarrow> el_start e < pos \<and> pos < el_end e"

definition covers :: "nat \<Rightarrow> TextElement \<Rightarrow> bool" where
  "covers pos e \<longleftrightarrow> el_start e \<le> pos \<and> pos < el_end e"

definition find_element_containing :: "TextElement list \<Rightarrow> nat \<Rightarrow> TextElement option" where
  "find_element_containing es pos = List.find (holds pos) es"

definition is_inside_element :: "TextElement list \<Rightarrow> nat \<Rightarrow> bool" where
  "is_inside_element es pos \<longleftrightarrow> (\<exists>e \<in> set es. covers pos e)"

definition nearest_edge :: "nat \<Rightarrow> TextElement \<Rightarrow> nat" where
  "nearest_edge pos e = (if pos - el_start e \<le> el_end e - pos then el_start e else el_end e)"

definition clamp_pos_for_insertion :: "TextElement list \<Rightarrow> nat \<Rightarrow> nat" where
  "clamp_pos_for_insertion es pos =
     (case find_element_containing es pos of Some e \<Rightarrow> nearest_edge pos e | None \<Rightarrow> pos)"

definition clamp_pos_to_nearest_boundary :: "nat \<Rightarrow> TextElement list \<Rightarrow> nat \<Rightarrow> nat" where
  "clamp_pos_to_nearest_boundary len es pos0 =
     (let pos = (if len < pos0 then len else pos0)
      in case find_element_containing es pos of Some e \<Rightarrow> nearest_edge pos e | None \<Rightarrow> pos)"

definition adjust_pos_out_of_elements :: "TextElement list \<Rightarrow> nat \<Rightarrow> bool \<Rightarrow> nat" where
  "adjust_pos_out_of_elements es pos prefer_start =
     (case find_element_containing es pos of
        Some e \<Rightarrow> if prefer_start then el_start e else el_end e
      | None \<Rightarrow> pos)"

fun expand_pass :: "TextElement list \<Rightarrow> nat \<Rightarrow> nat \<Rightarrow> bool \<Rightarrow> nat \<times> nat \<times> bool" where
  "expand_pass [] a b changed = (a, b, changed)"
| "expand_pass (e # es) a b changed =
     (if el_start e < b \<and> a < el_end e then
        let new_start = min a (el_start e); new_end = max b (el_end e)
        in if new_start \<noteq> a \<or> new_end \<noteq> b then expand_pass es new_start new_end True
           else expand_pass es a b changed
      else expand_pass es a b changed)"

definition last_end :: "TextElement list \<Rightarrow> nat" where
  "last_end es = foldr (\<lambda>e m. max (el_end e) m) es 0"

lemma expand_pass_grows:
  "expand_pass es a b ch = (a', b', ch') \<Longrightarrow>
     a' \<le> a \<and> b \<le> b' \<and> b' \<le> max b (last_end es) \<and> (ch \<longrightarrow> ch') \<and> (ch' \<longrightarrow> ch \<or> a' < a \<or> b < b')"
proof (induction es arbitrary: a b ch)
  case (Cons e es)
  show ?case
  proof (cases "el_start e < b \<and> a < el_end e \<and> (min a (el_start e) \<noteq> a \<or> max b (el_end e) \<noteq> b)")
    case True
    then have "expand_pass es (min a (el_start e)) (max b (el_end e)) True = (a', b', ch')"
      using Cons.prems by (auto simp: Let_def)
    from Cons.IH [OF this] show ?thesis using True by (auto simp: last_end_def)
  next
    case False
    then have "expand_pass es a b ch = (a', b', ch')" using Cons.prems by (auto simp: Let_def split: if_splits)
    from Cons.IH [OF this] show ?thesis by (auto simp: last_end_def)
  qed
qed (simp add: last_end_def)

function expand_range_to_element_boundaries :: "TextElement list \<Rightarrow> nat \<Rightarrow> nat \<Rightarrow> nat \<times> nat" where
  "expand_range_to_element_boundaries es a b =
     (case expand_pass es a b False of
        (a', b', changed) \<Rightarrow> if changed then expand_range_to_element_boundaries es a' b' else (a', b'))"
  by auto

termination
  by (relation "measure (\<lambda>(es, a, b). a + (last_end es - b))") (auto dest!: expand_pass_grows [OF sym])

declare expand_range_to_element_boundaries.simps [simp del]

definition shift_element :: "nat \<Rightarrow> nat \<Rightarrow> nat \<Rightarrow> TextElement \<Rightarrow> TextElement" where
  "shift_element at removed inserted e =
     (if el_end e \<le> at then e
      else if at + removed \<le> el_start e
      then e\<lparr>el_start := el_start e + inserted - removed, el_end := el_end e + inserted - removed\<rparr>
      else e\<lparr>el_start := min at (el_start e), el_end := at + max inserted (el_end e - (at + removed))\<rparr>)"

definition shift_elements :: "nat \<Rightarrow> nat \<Rightarrow> nat \<Rightarrow> TextElement list \<Rightarrow> TextElement list" where
  "shift_elements at removed inserted es =
     map (shift_element at removed inserted) (filter (\<lambda>e. \<not> (at \<le> el_start e \<and> el_end e \<le> at + removed)) es)"

section \<open>Elements in order\<close>

definition el_apart :: "TextElement \<Rightarrow> TextElement \<Rightarrow> bool" where
  "el_apart e f \<longleftrightarrow> el_start e \<le> el_start f \<and> \<not> (el_start e < el_end f \<and> el_start f < el_end e)"

definition elements_ok :: "bytes \<Rightarrow> TextElement list \<Rightarrow> bool" where
  "elements_ok t es \<longleftrightarrow>
     sorted_wrt el_apart es \<and> (\<forall>e \<in> set es. el_start e \<le> el_end e \<and> cut t (el_start e) \<and> cut t (el_end e))"

definition outside :: "TextElement list \<Rightarrow> nat \<Rightarrow> bool" where
  "outside es pos \<longleftrightarrow> (\<forall>e \<in> set es. \<not> holds pos e)"

text \<open>An edit of a range that splits no element.\<close>

definition aligned :: "TextElement list \<Rightarrow> nat \<Rightarrow> nat \<Rightarrow> bool" where
  "aligned es a b \<longleftrightarrow> (\<forall>e \<in> set es. el_end e \<le> a \<or> b \<le> el_start e \<or> (a \<le> el_start e \<and> el_end e \<le> b))"

definition edited :: "nat \<Rightarrow> nat \<Rightarrow> bytes \<Rightarrow> bytes \<Rightarrow> bytes" where
  "edited a b x t = take a t @ x @ drop b t"

lemma elements_okD:
  assumes "elements_ok t es" "e \<in> set es"
  shows "el_start e \<le> el_end e" "cut t (el_start e)" "cut t (el_end e)" "el_end e \<le> length t"
  using assms by (auto simp: elements_ok_def dest: cut_le)

lemma elements_Nil [simp]: "elements_ok t []" "outside [] pos" "aligned [] a b"
  by (simp_all add: elements_ok_def outside_def aligned_def)

lemma el_apart_pair:
  assumes "sorted_wrt el_apart es" "e \<in> set es" "f \<in> set es"
  shows "e = f \<or> \<not> (el_start e < el_end f \<and> el_start f < el_end e)"
  using assms by (induction es) (auto simp: el_apart_def)

lemma edge_outside:
  assumes "elements_ok t es" "e \<in> set es" "p = el_start e \<or> p = el_end e"
  shows "outside es p"
proof -
  have "\<not> holds p f" if f: "f \<in> set es" for f
    using el_apart_pair [of es e f] elements_okD(1) [OF assms(1,2)] assms f
    by (auto simp: holds_def elements_ok_def)
  then show ?thesis by (simp add: outside_def)
qed

lemma find_None_outside: "find_element_containing es pos = None \<longleftrightarrow> outside es pos"
  by (auto simp: find_element_containing_def outside_def find_None_iff)

lemma find_Some_in: "find_element_containing es pos = Some e \<Longrightarrow> e \<in> set es \<and> holds pos e"
  by (auto simp: find_element_containing_def find_Some_iff)

lemma nearest_edge_cases: "nearest_edge pos e = el_start e \<or> nearest_edge pos e = el_end e"
  by (simp add: nearest_edge_def)

text \<open>Every way out of an element ends at a boundary outside all elements.\<close>

lemma clamp_insertion_ok:
  assumes "elements_ok t es" "cut t pos \<or> \<not> outside es pos"
  shows "cut t (clamp_pos_for_insertion es pos)" "outside es (clamp_pos_for_insertion es pos)"
proof -
  have "cut t (clamp_pos_for_insertion es pos) \<and> outside es (clamp_pos_for_insertion es pos)"
  proof (cases "find_element_containing es pos")
    case None
    then show ?thesis using assms(2) find_None_outside [of es pos] by (simp add: clamp_pos_for_insertion_def)
  next
    case (Some e)
    then show ?thesis
      using find_Some_in [OF Some] nearest_edge_cases [of pos e] elements_okD(2,3) [OF assms(1)] edge_outside [OF assms(1)]
      by (auto simp: clamp_pos_for_insertion_def)
  qed
  then show "cut t (clamp_pos_for_insertion es pos)" "outside es (clamp_pos_for_insertion es pos)" by blast+
qed

lemma clamp_outside [simp]: "outside es pos \<Longrightarrow> clamp_pos_for_insertion es pos = pos"
  using find_None_outside [of es pos] by (simp add: clamp_pos_for_insertion_def)

lemma clamp_boundary_eq: "clamp_pos_to_nearest_boundary len es pos = clamp_pos_for_insertion es (min pos len)"
  by (simp add: clamp_pos_to_nearest_boundary_def clamp_pos_for_insertion_def Let_def min_def)

lemma clamp_boundary_ok:
  assumes "elements_ok t es" "cut t (min pos (length t)) \<or> \<not> outside es (min pos (length t))"
  shows "cut t (clamp_pos_to_nearest_boundary (length t) es pos)"
    "outside es (clamp_pos_to_nearest_boundary (length t) es pos)"
  using clamp_insertion_ok [OF assms] by (simp_all add: clamp_boundary_eq)

section \<open>Expanding a range\<close>

lemma expand_pass_ends:
  "expand_pass es a b ch = (a', b', ch') \<Longrightarrow>
     (a' = a \<or> (\<exists>e \<in> set es. a' = el_start e)) \<and> (b' = b \<or> (\<exists>e \<in> set es. b' = el_end e))"
  by (induction es arbitrary: a b ch) (fastforce simp: Let_def min_def max_def split: if_splits)+

lemma expand_pass_still:
  "expand_pass es a b False = (a', b', False) \<Longrightarrow> a' = a \<and> b' = b \<and> aligned es a b"
proof (induction es arbitrary: a b)
  case (Cons e es)
  have no: "\<not> (el_start e < b \<and> a < el_end e \<and> (min a (el_start e) \<noteq> a \<or> max b (el_end e) \<noteq> b))"
  proof
    assume y: "el_start e < b \<and> a < el_end e \<and> (min a (el_start e) \<noteq> a \<or> max b (el_end e) \<noteq> b)"
    then have "expand_pass es (min a (el_start e)) (max b (el_end e)) True = (a', b', False)"
      using Cons.prems by (simp add: Let_def)
    from expand_pass_grows [OF this] show False by simp
  qed
  then have "expand_pass es a b False = (a', b', False)" using Cons.prems by (auto simp: Let_def split: if_splits)
  from Cons.IH [OF this] no show ?case by (auto simp: aligned_def)
qed simp

lemma expand_range_ok:
  "expand_range_to_element_boundaries es a b = (a', b') \<Longrightarrow>
     aligned es a' b' \<and> a' \<le> a \<and> b \<le> b' \<and>
     (a' = a \<or> (\<exists>e \<in> set es. a' = el_start e)) \<and> (b' = b \<or> (\<exists>e \<in> set es. b' = el_end e))"
proof (induction es a b rule: expand_range_to_element_boundaries.induct)
  case (1 es a b)
  obtain c d ch where p: "expand_pass es a b False = (c, d, ch)" by (metis prod_cases3)
  show ?case
  proof (cases ch)
    case True
    then have "expand_range_to_element_boundaries es c d = (a', b')"
      using 1(2) p by (simp add: expand_range_to_element_boundaries.simps [of es a])
    with 1(1) [OF p [symmetric] refl True] expand_pass_grows [OF p] expand_pass_ends [OF p] show ?thesis by auto
  next
    case False
    then show ?thesis
      using 1(2) p expand_pass_still [of es a b c d] by (simp add: expand_range_to_element_boundaries.simps [of es a])
  qed
qed

lemma expand_pass_least:
  assumes "aligned es c d" "c \<le> d"
  shows "expand_pass es a b ch = (a', b', ch') \<Longrightarrow> c \<le> a \<Longrightarrow> b \<le> d \<Longrightarrow> a < b \<Longrightarrow> c \<le> a' \<and> b' \<le> d \<and> a' < b'"
  using assms(1)
proof (induction es arbitrary: a b ch)
  case (Cons e es)
  have al: "aligned es c d" using Cons.prems(5) by (simp add: aligned_def)
  show ?case
  proof (cases "el_start e < b \<and> a < el_end e \<and> (min a (el_start e) \<noteq> a \<or> max b (el_end e) \<noteq> b)")
    case True
    then have "expand_pass es (min a (el_start e)) (max b (el_end e)) True = (a', b', ch')"
      using Cons.prems(1) by (auto simp: Let_def)
    moreover have "c \<le> el_start e" "el_end e \<le> d" using True Cons.prems by (auto simp: aligned_def)
    ultimately show ?thesis using Cons.IH [OF _ _ _ _ al] Cons.prems(2,3,4) by simp
  next
    case False
    then have "expand_pass es a b ch = (a', b', ch')" using Cons.prems(1) by (auto simp: Let_def split: if_splits)
    then show ?thesis using Cons.IH [OF _ _ _ _ al] Cons.prems(2,3,4) by simp
  qed
qed simp

lemma expand_range_bound:
  assumes "aligned es c d"
  shows "expand_range_to_element_boundaries es a b = (a', b') \<Longrightarrow> c \<le> a \<Longrightarrow> b \<le> d \<Longrightarrow> a < b \<Longrightarrow> c \<le> a' \<and> b' \<le> d"
  using assms
proof (induction es a b rule: expand_range_to_element_boundaries.induct)
  case (1 es a b)
  obtain x y ch where p: "expand_pass es a b False = (x, y, ch)" by (metis prod_cases3)
  have "c \<le> d" using 1(3-5) by simp
  note l = expand_pass_least [OF 1(6) this p 1(3-5)]
  show ?case
  proof (cases ch)
    case True
    then have "expand_range_to_element_boundaries es x y = (a', b')"
      using 1(2) p by (simp add: expand_range_to_element_boundaries.simps [of es a])
    with 1(1) [OF p [symmetric] refl True] l 1(6) show ?thesis by blast
  next
    case False
    then show ?thesis using 1(2) p l by (simp add: expand_range_to_element_boundaries.simps [of es a])
  qed
qed

text \<open>
  C1. Widening a range to whole elements gives the least range that contains it and splits no element,
  whatever the elements are.
\<close>

theorem expand_range_least:
  assumes "a < b" "expand_range_to_element_boundaries es a b = (a', b')"
  shows "aligned es a' b' \<and> a' \<le> a \<and> b \<le> b' \<and> (\<forall>c d. aligned es c d \<and> c \<le> a \<and> b \<le> d \<longrightarrow> c \<le> a' \<and> b' \<le> d)"
  using expand_range_ok [OF assms(2)] expand_range_bound [OF _ assms(2) _ _ assms(1)] by blast

theorem expand_range_least_witness:
  "let e = \<lparr>el_id = 0, el_start = 2, el_end = 5, el_kind = 1, el_display = None\<rparr>;
       f = \<lparr>el_id = 1, el_start = 5, el_end = 9, el_kind = 1, el_display = None\<rparr>
   in aligned [e, f] 2 6 = False \<and> expand_range_to_element_boundaries [e, f] 3 6 = (2, 9) \<and> aligned [e, f] 2 9"
proof -
  let ?es = "[\<lparr>el_id = 0, el_start = 2, el_end = 5, el_kind = 1, el_display = None\<rparr>,
    \<lparr>el_id = 1, el_start = 5, el_end = 9, el_kind = 1, el_display = None\<rparr>]"
  have r: "expand_range_to_element_boundaries ?es 3 6 = (2, 9)" by code_simp
  have "\<not> aligned ?es 2 6" by (simp add: aligned_def)
  moreover have "aligned ?es 2 9" using expand_range_least [OF _ r] by simp
  ultimately show ?thesis using r by (simp add: Let_def)
qed

lemma expand_range_cut:
  assumes "expand_range_to_element_boundaries es a b = (a', b')" "elements_ok t es" "cut t a" "cut t b"
  shows "cut t a'" "cut t b'"
  using expand_range_ok [OF assms(1)] elements_okD(2,3) [OF assms(2)] assms(3,4) by auto

section \<open>Edits\<close>

lemma edited_valid: "cut t a \<Longrightarrow> cut t b \<Longrightarrow> valid x \<Longrightarrow> valid (edited a b x t)"
  by (simp add: edited_def cut_def valid_append)

lemma length_edited: "a \<le> b \<Longrightarrow> b \<le> length t \<Longrightarrow> length (edited a b x t) = length t + length x - (b - a)"
  by (simp add: edited_def)

lemma cut_before:
  assumes "cut t a" "cut t b" "valid x" "cut t p" "p \<le> a" "a \<le> b"
  shows "cut (edited a b x t) p"
proof -
  have "drop p (take a t) = take (a - p) (drop p t)" by (simp add: drop_take)
  then have "valid (drop p (take a t))" using valid_between [OF assms(4,1,5)] by simp
  then have "valid (drop p (take a t) @ x @ drop b t)"
    using assms(2,3) by (simp add: cut_def valid_append)
  moreover have "valid (take p t)" "p \<le> length t" using assms(4) by (simp_all add: cut_def)
  ultimately show ?thesis
    using assms(5) cut_le [OF assms(1)] by (simp add: cut_def edited_def min_absorb1)
qed

lemma cut_after:
  assumes "cut t a" "cut t b" "valid x" "cut t p" "b \<le> p" "a \<le> b"
  shows "cut (edited a b x t) (p + length x - (b - a))"
proof -
  have len: "a \<le> length t" "p \<le> length t" using assms cut_le by auto
  have split: "edited a b x t = (take a t @ x @ take (p - b) (drop b t)) @ drop p t"
    using append_take_drop_id [of "p - b" "drop b t"] assms(5) by (simp add: edited_def)
  have "length (take a t @ x @ take (p - b) (drop b t)) = p + length x - (b - a)"
    using len assms(5,6) by simp
  moreover have "valid (take a t @ x @ take (p - b) (drop b t))"
    using assms valid_between [OF assms(2,4,5)] by (simp add: cut_def valid_append)
  moreover have "valid (drop p t)" using assms(4) by (simp add: cut_def)
  moreover have part: "p \<le> length (u @ v) \<and> valid (take p (u @ v)) \<and> valid (drop p (u @ v))"
    if "length u = p" "valid u" "valid v" for u v :: bytes and p
    using that by simp
  ultimately show ?thesis unfolding cut_def split by blast
qed

lemma cut_inserted:
  assumes "cut t a" "cut t b" "valid x" "a \<le> b"
  shows "cut (edited a b x t) a" "cut (edited a b x t) (a + length x)"
  using cut_before [OF assms(1-3,1)] cut_after [OF assms(1-3,2)] assms(4) by (simp_all add: add.commute)

lemma shift_cases:
  assumes "aligned es a b" "e \<in> set es" "\<not> (a \<le> el_start e \<and> el_end e \<le> b)" "a \<le> b" "el_start e \<le> el_end e"
  obtains "el_end e \<le> a" "shift_element a (b - a) n e = e"
  | "b \<le> el_start e" "\<not> el_end e \<le> a"
    "shift_element a (b - a) n e = e\<lparr>el_start := el_start e + n - (b - a), el_end := el_end e + n - (b - a)\<rparr>"
  using assms by (auto simp: aligned_def shift_element_def)

lemma shift_mono:
  assumes "(a :: nat) \<le> b" "b \<le> x"
  shows "a + n \<le> x + n - (b - a)" "x \<le> y \<Longrightarrow> x + n - (b - a) \<le> y + n - (b - a)"
    "x + n - (b - a) < y + n - (b - a) \<Longrightarrow> x < y"
  using assms by simp_all

lemma shift_apart:
  assumes "aligned es a b" "a \<le> b"
    and e: "e \<in> set es" "\<not> (a \<le> el_start e \<and> el_end e \<le> b)"
    and f: "f \<in> set es" "\<not> (a \<le> el_start f \<and> el_end f \<le> b)"
    and le: "el_start e \<le> el_end e" "el_start f \<le> el_end f" and "el_apart e f"
  shows "el_apart (shift_element a (b - a) n e) (shift_element a (b - a) n f)"
proof -
  note d = assms(9) [unfolded el_apart_def]
  show ?thesis
  proof (rule shift_cases [OF assms(1) e assms(2) le(1), of n])
    assume 1: "el_end e \<le> a" "shift_element a (b - a) n e = e"
    show ?thesis
    proof (rule shift_cases [OF assms(1) f assms(2) le(2), of n])
      assume "b \<le> el_start f" "shift_element a (b - a) n f
        = f\<lparr>el_start := el_start f + n - (b - a), el_end := el_end f + n - (b - a)\<rparr>"
      with 1 le shift_mono(1) [OF assms(2), of "el_start f" n] show ?thesis by (simp add: el_apart_def)
    qed (use 1 assms(9) in simp)
  next
    assume 2: "b \<le> el_start e" "\<not> el_end e \<le> a" "shift_element a (b - a) n e
        = e\<lparr>el_start := el_start e + n - (b - a), el_end := el_end e + n - (b - a)\<rparr>"
    show ?thesis
    proof (rule shift_cases [OF assms(1) f assms(2) le(2), of n])
      assume "el_end f \<le> a"
      with 2 d le assms(2) f show ?thesis by linarith
    next
      assume f2: "b \<le> el_start f" "shift_element a (b - a) n f
        = f\<lparr>el_start := el_start f + n - (b - a), el_end := el_end f + n - (b - a)\<rparr>"
      have "\<not> (el_start e + n - (b - a) < el_end f + n - (b - a) \<and> el_start f + n - (b - a) < el_end e + n - (b - a))"
        using d shift_mono(3) [OF assms(2) 2(1)] shift_mono(3) [OF assms(2) f2(1)] by blast
      with 2 f2 d shift_mono(2) [OF assms(2) 2(1)] show ?thesis by (simp add: el_apart_def)
    qed
  qed
qed

lemma shifted_ok:
  assumes "elements_ok t es" "aligned es a b" "a \<le> b" "cut t a" "cut t b" "valid x"
  shows "elements_ok (edited a b x t) (shift_elements a (b - a) (length x) es)"
proof -
  let ?g = "shift_element a (b - a) (length x)" and ?keep = "\<lambda>e. \<not> (a \<le> el_start e \<and> el_end e \<le> b)"
  let ?es = "filter ?keep es"
  have fields: "el_start (?g e) \<le> el_end (?g e) \<and> cut (edited a b x t) (el_start (?g e)) \<and> cut (edited a b x t) (el_end (?g e))"
    if e: "e \<in> set es" "?keep e" for e
    using shift_cases [OF assms(2) e assms(3) elements_okD(1) [OF assms(1) e(1)], of "length x"]
  proof cases
    case 1
    then show ?thesis using elements_okD [OF assms(1) e(1)] cut_before [OF assms(4-6) _ _ assms(3)] by simp
  next
    case 2
    then show ?thesis using elements_okD [OF assms(1) e(1)] cut_after [OF assms(4-6) _ _ assms(3)] by simp
  qed
  have "el_apart (?g e) (?g f)"
    if ef: "e \<in> set es" "?keep e" "f \<in> set es" "?keep f" "el_apart e f" for e f
    by (rule shift_apart [OF assms(2,3) ef(1-4) elements_okD(1) [OF assms(1) ef(1)] elements_okD(1) [OF assms(1) ef(3)] ef(5)])
  moreover have "sorted_wrt el_apart ?es" using assms(1) by (simp add: elements_ok_def sorted_wrt_filter)
  ultimately have "sorted_wrt (\<lambda>e f. el_apart (?g e) (?g f)) ?es"
    by (rule_tac sorted_wrt_mono_rel [of ?es el_apart]) auto
  then have "sorted_wrt el_apart (map ?g ?es)" by (simp add: sorted_wrt_map)
  moreover have "shift_elements a (b - a) (length x) es = map ?g ?es" using assms(3) by (simp add: shift_elements_def)
  ultimately show ?thesis using fields by (auto simp: elements_ok_def)
qed

end
