(* ===== verification/Text_Area.thy ===== *)
theory Text_Area
  imports Text_Elements "HOL-Library.Monad_Syntax"
begin

text \<open>
  The state of the text area (\<open>xai-ratatui-textarea/src/textarea.rs\<close>, \<open>TextArea\<close>) and its editing
  operations: undo checkpoints with their batching rules, undo, redo and undo groups, insertion and
  replacement, the cursor, the selection and the elements. The text is kept in bytes and positions are byte
  offsets; an operation that slices the text off a character boundary (or fails an \<open>assert!\<close>) panics,
  which is the value \<open>None\<close>. The fields that only the mouse and the drawing code read are left out.
\<close>

section \<open>State\<close>

record UndoEntry =
  ue_text :: bytes
  ue_cursor :: nat
  ue_elements :: "TextElement list"

datatype MutationKind = MK_Insert | MK_Delete | MK_Kill | MK_Element | MK_Replace

text \<open>The stacks are kept in the order of the vectors: the last entry is the top.\<close>

record UndoState =
  us_stack :: "UndoEntry list"
  us_redo :: "UndoEntry list"
  us_max_depth :: nat
  us_last_kind :: "MutationKind option"
  us_last_cursor :: nat
  us_last_insert_ws :: bool
  us_group_depth :: nat
  us_group_checkpoint :: "UndoEntry option"

record TextArea =
  ta_text :: bytes
  cursor_pos :: nat
  wrap_cache :: "(nat \<times> (nat \<times> nat) list) option"
  preferred_col :: "nat option"
  ta_elements :: "TextElement list"
  next_element_id :: nat
  kill_buffer :: bytes
  ta_undo :: UndoState
  selection :: "(nat \<times> nat) option"
  provider_contents :: "bytes option"
  clipboard :: "bytes option"
  scroll_override :: "nat option"
  tab_width :: nat

definition undo_default :: UndoState where
  "undo_default = \<lparr>us_stack = [], us_redo = [], us_max_depth = 100, us_last_kind = None, us_last_cursor = 0,
     us_last_insert_ws = False, us_group_depth = 0, us_group_checkpoint = None\<rparr>"

definition new_area :: TextArea where
  "new_area = \<lparr>ta_text = [], cursor_pos = 0, wrap_cache = None, preferred_col = None, ta_elements = [],
     next_element_id = 0, kill_buffer = [], ta_undo = undo_default, selection = None,
     provider_contents = None, clipboard = None, scroll_override = None, tab_width = 4\<rparr>"

abbreviation text_len :: "TextArea \<Rightarrow> nat" where
  "text_len ta \<equiv> length (ta_text ta)"

definition set_tab_width :: "nat \<Rightarrow> TextArea \<Rightarrow> TextArea" where
  "set_tab_width w ta = (if tab_width ta \<noteq> w then ta\<lparr>tab_width := w, wrap_cache := None\<rparr> else ta)"

definition expand_tabs_with_width :: "bytes \<Rightarrow> nat \<Rightarrow> bytes" where
  "expand_tabs_with_width t w =
     (if w = 0 \<or> 9 \<notin> set t then t else concat (map (\<lambda>b. if b = 9 then replicate w 32 else [b]) t))"

definition expand_tabs :: "TextArea \<Rightarrow> bytes \<Rightarrow> bytes" where
  "expand_tabs ta t = expand_tabs_with_width t (tab_width ta)"

section \<open>Undo\<close>

definition snapshot :: "TextArea \<Rightarrow> UndoEntry" where
  "snapshot ta = \<lparr>ue_text = ta_text ta, ue_cursor = cursor_pos ta, ue_elements = ta_elements ta\<rparr>"

definition restore :: "UndoEntry \<Rightarrow> TextArea \<Rightarrow> TextArea" where
  "restore e ta = ta\<lparr>ta_text := ue_text e, cursor_pos := ue_cursor e, ta_elements := ue_elements e,
     wrap_cache := None, preferred_col := None\<rparr>"

definition push_entry :: "UndoEntry \<Rightarrow> UndoState \<Rightarrow> UndoState" where
  "push_entry e u =
     (let st = us_stack u @ [e]
      in u\<lparr>us_stack := if us_max_depth u < length st then tl st else st\<rparr>)"

definition should_push :: "MutationKind \<Rightarrow> TextArea \<Rightarrow> bool" where
  "should_push kind ta =
     (case us_last_kind (ta_undo ta) of
        None \<Rightarrow> True
      | Some prev \<Rightarrow> prev \<noteq> kind \<or> cursor_pos ta \<noteq> us_last_cursor (ta_undo ta) \<or>
                     kind \<in> {MK_Kill, MK_Element, MK_Replace})"

definition pre_mutate :: "MutationKind \<Rightarrow> TextArea \<Rightarrow> TextArea" where
  "pre_mutate kind ta =
     (if 0 < us_group_depth (ta_undo ta) then ta
      else
        let u = (if should_push kind ta then push_entry (snapshot ta) (ta_undo ta) else ta_undo ta)
        in ta\<lparr>ta_undo := u\<lparr>us_redo := [], us_last_kind := Some kind\<rparr>\<rparr>)"

definition post_mutate :: "TextArea \<Rightarrow> TextArea" where
  "post_mutate ta = ta\<lparr>ta_undo := (ta_undo ta)\<lparr>us_last_cursor := cursor_pos ta\<rparr>\<rparr>"

definition clear_history :: "TextArea \<Rightarrow> TextArea" where
  "clear_history ta =
     ta\<lparr>ta_undo := (ta_undo ta)\<lparr>us_stack := [], us_redo := [], us_last_kind := None,
       us_last_cursor := cursor_pos ta\<rparr>\<rparr>"

definition fresh_batch :: "TextArea \<Rightarrow> TextArea" where
  "fresh_batch ta = ta\<lparr>ta_undo := (ta_undo ta)\<lparr>us_last_kind := None, us_last_cursor := cursor_pos ta\<rparr>\<rparr>"

definition undo :: "TextArea \<Rightarrow> TextArea \<times> bool" where
  "undo ta =
     (case rev (us_stack (ta_undo ta)) of
        [] \<Rightarrow> (ta, False)
      | entry # below \<Rightarrow>
          let u = ta_undo ta;
              ta1 = ta\<lparr>scroll_override := None,
                       ta_undo := u\<lparr>us_stack := rev below, us_redo := us_redo u @ [snapshot ta]\<rparr>\<rparr>
          in (fresh_batch (restore entry ta1), True))"

definition redo :: "TextArea \<Rightarrow> TextArea \<times> bool" where
  "redo ta =
     (case rev (us_redo (ta_undo ta)) of
        [] \<Rightarrow> (ta, False)
      | entry # below \<Rightarrow>
          let u = ta_undo ta;
              ta1 = ta\<lparr>scroll_override := None,
                       ta_undo := u\<lparr>us_redo := rev below, us_stack := us_stack u @ [snapshot ta]\<rparr>\<rparr>
          in (fresh_batch (restore entry ta1), True))"

definition can_undo :: "TextArea \<Rightarrow> bool" where "can_undo ta \<longleftrightarrow> us_stack (ta_undo ta) \<noteq> []"
definition can_redo :: "TextArea \<Rightarrow> bool" where "can_redo ta \<longleftrightarrow> us_redo (ta_undo ta) \<noteq> []"

definition begin_undo_group :: "TextArea \<Rightarrow> TextArea" where
  "begin_undo_group ta =
     (let u = ta_undo ta;
          u1 = (if us_group_depth u = 0 then u\<lparr>us_group_checkpoint := Some (snapshot ta)\<rparr> else u)
      in ta\<lparr>ta_undo := u1\<lparr>us_group_depth := us_group_depth u + 1\<rparr>\<rparr>)"

definition group_changed :: "UndoEntry \<Rightarrow> TextArea \<Rightarrow> bool" where
  "group_changed c ta \<longleftrightarrow>
     ue_text c \<noteq> ta_text ta \<or> ue_cursor c \<noteq> cursor_pos ta \<or> length (ue_elements c) \<noteq> length (ta_elements ta)"

definition end_undo_group :: "TextArea \<Rightarrow> TextArea" where
  "end_undo_group ta =
     (let u = ta_undo ta
      in if us_group_depth u = 0 then ta
         else if us_group_depth u = 1 then
           (let u1 = (case us_group_checkpoint u of
                        None \<Rightarrow> u
                      | Some c \<Rightarrow>
                          if group_changed c ta then (push_entry c u)\<lparr>us_redo := []\<rparr> else u)
            in fresh_batch (ta\<lparr>ta_undo := u1\<lparr>us_group_depth := 0, us_group_checkpoint := None\<rparr>\<rparr>))
         else ta\<lparr>ta_undo := u\<lparr>us_group_depth := us_group_depth u - 1\<rparr>\<rparr>)"

definition cancel_undo_group :: "TextArea \<Rightarrow> TextArea" where
  "cancel_undo_group ta =
     (let u = ta_undo ta
      in if us_group_depth u = 0 then ta
         else
           let ta1 = ta\<lparr>ta_undo := u\<lparr>us_group_depth := 0, us_group_checkpoint := None\<rparr>\<rparr>
           in fresh_batch (case us_group_checkpoint u of Some c \<Rightarrow> restore c ta1 | None \<Rightarrow> ta1))"

section \<open>Insertion and replacement\<close>

definition set_text :: "bytes \<Rightarrow> TextArea \<Rightarrow> TextArea" where
  "set_text t ta0 =
     (let ta = pre_mutate MK_Replace ta0;
          t' = expand_tabs ta t
      in post_mutate (ta\<lparr>ta_text := t', cursor_pos := min (cursor_pos ta) (length t'), wrap_cache := None,
           preferred_col := None, ta_elements := [], selection := None, scroll_override := None\<rparr>))"

definition insert_str_inner :: "nat \<Rightarrow> bytes \<Rightarrow> TextArea \<Rightarrow> (TextArea \<times> nat) option" where
  "insert_str_inner pos0 t0 ta =
     (if t0 = [] then Some (ta, 0)
      else
        let pos = clamp_pos_for_insertion (ta_elements ta) pos0; t = expand_tabs ta t0
        in do {
             t' \<leftarrow> str_insert pos t (ta_text ta);
             Some (ta\<lparr>ta_text := t', wrap_cache := None,
                      cursor_pos := if pos \<le> cursor_pos ta then cursor_pos ta + length t else cursor_pos ta,
                      ta_elements := shift_elements pos 0 (length t) (ta_elements ta),
                      preferred_col := None\<rparr>, length t)
           })"

definition note_last_insert :: "bytes \<Rightarrow> TextArea \<Rightarrow> TextArea" where
  "note_last_insert t ta =
     (case last_char t of
        Some c \<Rightarrow> ta\<lparr>ta_undo := (ta_undo ta)\<lparr>us_last_insert_ws := is_whitespace c\<rparr>\<rparr>
      | None \<Rightarrow> ta)"

definition break_insert_batch :: "bytes \<Rightarrow> TextArea \<Rightarrow> TextArea" where
  "break_insert_batch t ta =
     (case first_char t of
        Some c \<Rightarrow>
          if us_last_kind (ta_undo ta) = Some MK_Insert \<and> us_last_insert_ws (ta_undo ta) \<noteq> is_whitespace c
          then ta\<lparr>ta_undo := (ta_undo ta)\<lparr>us_last_kind := None\<rparr>\<rparr> else ta
      | None \<Rightarrow> ta)"

definition insert_str :: "bytes \<Rightarrow> TextArea \<Rightarrow> TextArea option" where
  "insert_str t ta =
     (if t = [] then Some ta
      else do {
        (ta', n) \<leftarrow> insert_str_inner (cursor_pos ta) t
                     (pre_mutate MK_Insert (break_insert_batch t (ta\<lparr>scroll_override := None\<rparr>)));
        Some (post_mutate (note_last_insert t ta'))
      })"

definition insert_str_at :: "nat \<Rightarrow> bytes \<Rightarrow> TextArea \<Rightarrow> TextArea option" where
  "insert_str_at pos t ta =
     (if t = [] then Some ta
      else do {
        (ta', n) \<leftarrow> insert_str_inner pos t (pre_mutate MK_Insert ta);
        Some (post_mutate (note_last_insert t ta'))
      })"

definition cursor_after :: "nat \<Rightarrow> nat \<Rightarrow> nat \<Rightarrow> nat \<Rightarrow> nat" where
  "cursor_after start stop inserted c =
     (if c < start then c
      else if c \<le> stop then start + inserted
      else c + inserted - (stop - start))"

definition replace_range_raw :: "nat \<Rightarrow> nat \<Rightarrow> bytes \<Rightarrow> TextArea \<Rightarrow> (TextArea \<times> nat) option" where
  "replace_range_raw a b x ta =
     (if \<not> a \<le> b then None
      else
        let start = min a (text_len ta); stop = min b (text_len ta); t = expand_tabs ta x;
            removed = stop - start; inserted = length t
        in if removed = 0 \<and> inserted = 0 then Some (ta, 0)
           else do {
             t' \<leftarrow> str_replace start stop t (ta_text ta);
             let es = shift_elements start (stop - start) inserted (ta_elements ta);
             let c = min (cursor_after start stop inserted (cursor_pos ta)) (length t');
             Some (ta\<lparr>scroll_override := None, ta_text := t', wrap_cache := None, preferred_col := None,
                      ta_elements := es,
                      cursor_pos := clamp_pos_to_nearest_boundary (length t') es c\<rparr>, inserted)
           })"

definition replace_range :: "nat \<Rightarrow> nat \<Rightarrow> bytes \<Rightarrow> TextArea \<Rightarrow> TextArea option" where
  "replace_range a b x ta0 =
     (let ta = pre_mutate MK_Replace ta0; (a', b') = expand_range_to_element_boundaries (ta_elements ta) a b
      in do {
        (ta', n) \<leftarrow> replace_range_raw a' b' x ta;
        Some (post_mutate ta')
      })"

definition set_cursor :: "nat \<Rightarrow> TextArea \<Rightarrow> TextArea" where
  "set_cursor pos ta =
     ta\<lparr>cursor_pos := clamp_pos_to_nearest_boundary (text_len ta) (ta_elements ta) (min pos (text_len ta)),
        preferred_col := None, scroll_override := None\<rparr>"

section \<open>Selection and clipboard\<close>

definition selection_range :: "TextArea \<Rightarrow> (nat \<times> nat) option" where
  "selection_range ta =
     (case selection ta of
        None \<Rightarrow> None
      | Some (anchor, head) \<Rightarrow>
          if anchor = head then None
          else
            let (a, b) = expand_range_to_element_boundaries (ta_elements ta) (min anchor head) (max anchor head);
                a' = min a (text_len ta); b' = min b (text_len ta)
            in if b' \<le> a' then None else Some (a', b'))"

definition selected_text :: "TextArea \<Rightarrow> bytes option option" where
  "selected_text ta =
     (case selection_range ta of
        None \<Rightarrow> Some None
      | Some (a, b) \<Rightarrow> map_option Some (str_slice a b (ta_text ta)))"

definition clear_selection :: "TextArea \<Rightarrow> TextArea" where
  "clear_selection ta = ta\<lparr>selection := None\<rparr>"

definition set_selection :: "nat \<Rightarrow> nat \<Rightarrow> TextArea \<Rightarrow> TextArea" where
  "set_selection anchor head ta = ta\<lparr>selection := Some (anchor, head)\<rparr>"

definition delete_selection :: "TextArea \<Rightarrow> (TextArea \<times> bool) option" where
  "delete_selection ta =
     (case selection_range ta of
        None \<Rightarrow> Some (ta, False)
      | Some (a, b) \<Rightarrow>
          do {
            (ta', n) \<leftarrow> replace_range_raw a b [] (pre_mutate MK_Replace ta);
            Some ((post_mutate (ta'\<lparr>cursor_pos := min a (text_len ta')\<rparr>))\<lparr>selection := None\<rparr>, True)
          })"

definition set_clipboard_text :: "bytes \<Rightarrow> TextArea \<Rightarrow> TextArea" where
  "set_clipboard_text t ta =
     (if t \<noteq> [] then ta\<lparr>provider_contents := Some t, clipboard := Some t\<rparr> else ta)"

definition take_clipboard :: "TextArea \<Rightarrow> TextArea \<times> bytes option" where
  "take_clipboard ta = (ta\<lparr>clipboard := None\<rparr>, clipboard ta)"

section \<open>Elements of the area\<close>

definition add_element :: "nat \<Rightarrow> nat \<Rightarrow> nat \<Rightarrow> bytes list option \<Rightarrow> TextArea \<Rightarrow> TextArea \<times> nat" where
  "add_element a b kind disp ta =
     (let e = \<lparr>el_id = next_element_id ta, el_start = a, el_end = b, el_kind = kind, el_display = disp\<rparr>
      in (ta\<lparr>next_element_id := next_element_id ta + 1,
             ta_elements := sort_key el_start (ta_elements ta @ [e])\<rparr>, next_element_id ta))"

definition insert_element :: "bytes \<Rightarrow> nat \<Rightarrow> bytes list option \<Rightarrow> TextArea \<Rightarrow> (TextArea \<times> nat) option" where
  "insert_element t kind disp ta0 =
     (let ta = pre_mutate MK_Element ta0;
          start = clamp_pos_for_insertion (ta_elements ta) (cursor_pos ta)
      in do {
        (ta1, n) \<leftarrow> insert_str_inner start t ta;
        let (ta2, i) = add_element start (start + n) kind disp ta1;
        Some (post_mutate (set_cursor (start + n) ta2), i)
      })"

definition replace_range_with_element ::
  "nat \<Rightarrow> nat \<Rightarrow> bytes \<Rightarrow> nat \<Rightarrow> bytes list option \<Rightarrow> TextArea \<Rightarrow> (TextArea \<times> nat) option" where
  "replace_range_with_element a b t kind disp ta0 =
     (let ta = pre_mutate MK_Element ta0;
          ta1 = ta\<lparr>ta_elements := filter (\<lambda>e. \<not> (el_start e < b \<and> a < el_end e)) (ta_elements ta)\<rparr>;
          start = min a (text_len ta1)
      in do {
        (ta2, n) \<leftarrow> replace_range_raw a b t ta1;
        let (ta3, i) = add_element start (start + n) kind disp ta2;
        Some (post_mutate (set_cursor (start + n) ta3), i)
      })"

definition element_at_cursor :: "TextArea \<Rightarrow> TextElement option" where
  "element_at_cursor ta = List.find (covers (cursor_pos ta)) (ta_elements ta)"

definition element_text :: "nat \<Rightarrow> TextArea \<Rightarrow> bytes option option" where
  "element_text i ta =
     (case List.find (\<lambda>e. el_id e = i) (ta_elements ta) of
        None \<Rightarrow> Some None
      | Some e \<Rightarrow> map_option Some (str_slice (el_start e) (el_end e) (ta_text ta)))"

fun update_display :: "nat \<Rightarrow> bytes list option \<Rightarrow> TextElement list \<Rightarrow> TextElement list" where
  "update_display i d [] = []"
| "update_display i d (e # es) = (if el_id e = i then e\<lparr>el_display := d\<rparr> # es else e # update_display i d es)"

definition set_element_display :: "nat \<Rightarrow> bytes list option \<Rightarrow> TextArea \<Rightarrow> TextArea" where
  "set_element_display i d ta =
     (case List.find (\<lambda>e. el_id e = i) (ta_elements ta) of
        None \<Rightarrow> ta
      | Some _ \<Rightarrow> ta\<lparr>ta_elements := update_display i d (ta_elements ta), wrap_cache := None\<rparr>)"

definition restore_elements ::
  "(nat \<times> nat \<times> nat \<times> bytes list option) list \<Rightarrow> TextArea \<Rightarrow> TextArea" where
  "restore_elements xs ta =
     (fold (\<lambda>(a, b, k, d) ta. fst (add_element a b k d ta)) xs ta)\<lparr>wrap_cache := None\<rparr>"

text \<open>Removal of the first element with an id.\<close>

fun remove_element :: "nat \<Rightarrow> TextElement list \<Rightarrow> TextElement list" where
  "remove_element i [] = []"
| "remove_element i (e # es) = (if el_id e = i then es else e # remove_element i es)"

definition inline_element :: "nat \<Rightarrow> TextArea \<Rightarrow> TextArea \<times> bool" where
  "inline_element i ta0 =
     (case List.find (\<lambda>e. el_id e = i) (ta_elements ta0) of
        None \<Rightarrow> (ta0, False)
      | Some e \<Rightarrow>
          let ta = pre_mutate MK_Element ta0
          in (ta\<lparr>ta_elements := remove_element i (ta_elements ta), cursor_pos := el_end e,
                 preferred_col := None, wrap_cache := None,
                 ta_undo := (ta_undo ta)\<lparr>us_last_kind := None\<rparr>\<rparr>, True))"

section \<open>Kill buffer\<close>

definition kill_range :: "nat \<Rightarrow> nat \<Rightarrow> TextArea \<Rightarrow> TextArea option" where
  "kill_range a b ta =
     (let (a', b') = expand_range_to_element_boundaries (ta_elements ta) a b;
          a'' = min a' (text_len ta); b'' = min b' (text_len ta)
      in if b'' \<le> a'' then Some ta
         else do {
           removed \<leftarrow> str_slice a'' b'' (ta_text ta);
           if removed = [] then Some ta
           else map_option fst (replace_range_raw a'' b'' [] (ta\<lparr>kill_buffer := removed\<rparr>))
         })"

definition yank :: "TextArea \<Rightarrow> TextArea option" where
  "yank ta =
     (if kill_buffer ta = [] then Some ta
      else do {
        let t = kill_buffer ta;
        (ta', n) \<leftarrow> insert_str_inner (cursor_pos ta) t (pre_mutate MK_Insert ta);
        Some (post_mutate (note_last_insert t ta'))
      })"

end
