(* ===== verification/Text_Invariant.thy ===== *)
theory Text_Invariant
  imports Text_Area "HOL-Library.Multiset"
begin

text \<open>
  The invariant of the text area: the text is valid UTF-8, the cursor stands on a character boundary and
  outside every element, the elements are in order, apart, on boundaries and with distinct fresh
  identifiers, and every state kept for undo and redo is of the same kind. No editing operation panics on such an
  area and each leaves one.
\<close>

section \<open>The invariant\<close>

definition content_ok :: "nat \<Rightarrow> bytes \<Rightarrow> nat \<Rightarrow> TextElement list \<Rightarrow> bool" where
  "content_ok n t c es \<longleftrightarrow>
     valid t \<and> cut t c \<and> outside es c \<and> elements_ok t es \<and>
     distinct (map el_id es) \<and> (\<forall>e \<in> set es. el_id e < n)"

definition entry_ok :: "nat \<Rightarrow> UndoEntry \<Rightarrow> bool" where
  "entry_ok n e \<longleftrightarrow> content_ok n (ue_text e) (ue_cursor e) (ue_elements e)"

definition history_ok :: "nat \<Rightarrow> UndoState \<Rightarrow> bool" where
  "history_ok n u \<longleftrightarrow>
     (\<forall>e \<in> set (us_stack u) \<union> set (us_redo u) \<union> set_option (us_group_checkpoint u). entry_ok n e) \<and>
     us_max_depth u = 100 \<and> length (us_stack u) + length (us_redo u) \<le> 100 \<and>
     (us_group_depth u = 0 \<longleftrightarrow> us_group_checkpoint u = None)"

text \<open>The cached lines are ranges between boundaries of the present text.\<close>

definition cache_ok :: "bytes \<Rightarrow> (nat \<times> (nat \<times> nat) list) option \<Rightarrow> bool" where
  "cache_ok t cache \<longleftrightarrow> (\<forall>(w, lines) \<in> set_option cache. \<forall>(a, b) \<in> set lines. a \<le> b \<and> cut t a \<and> cut t b)"

definition area_ok :: "TextArea \<Rightarrow> bool" where
  "area_ok ta \<longleftrightarrow>
     content_ok (next_element_id ta) (ta_text ta) (cursor_pos ta) (ta_elements ta) \<and>
     history_ok (next_element_id ta) (ta_undo ta) \<and> valid (kill_buffer ta) \<and> cache_ok (ta_text ta) (wrap_cache ta) \<and>
     (\<forall>t \<in> set_option (provider_contents ta). valid t)"

lemma area_okD:
  assumes "area_ok ta"
  shows "valid (ta_text ta)" "cut (ta_text ta) (cursor_pos ta)" "outside (ta_elements ta) (cursor_pos ta)"
    "elements_ok (ta_text ta) (ta_elements ta)" "history_ok (next_element_id ta) (ta_undo ta)"
    "valid (kill_buffer ta)" "cursor_pos ta \<le> text_len ta"
  using assms by (auto simp: area_ok_def content_ok_def dest: cut_le)

lemma cache_ok_None [simp]: "cache_ok t None"
  by (simp add: cache_ok_def)

lemma new_area_ok: "area_ok new_area"
  by (simp add: area_ok_def new_area_def undo_default_def history_ok_def content_ok_def)

lemma content_ok_mono: "content_ok n t c es \<Longrightarrow> n \<le> m \<Longrightarrow> content_ok m t c es"
  by (auto simp: content_ok_def)

lemma history_ok_mono: "history_ok n u \<Longrightarrow> n \<le> m \<Longrightarrow> history_ok m u"
  by (auto simp: history_ok_def entry_ok_def intro: content_ok_mono)

text \<open>The area agrees with another in all but the fields that the invariant does not read.\<close>

lemma area_ok_fields [simp]:
  "area_ok (ta\<lparr>scroll_override := s\<rparr>) = area_ok ta" "area_ok (ta\<lparr>selection := sel\<rparr>) = area_ok ta"
  "area_ok (ta\<lparr>preferred_col := p\<rparr>) = area_ok ta"
  "area_ok (ta\<lparr>tab_width := tw\<rparr>) = area_ok ta" "area_ok (ta\<lparr>clipboard := cb\<rparr>) = area_ok ta"
  by (simp_all add: area_ok_def)

lemma history_ok_batch [simp]:
  "history_ok n (u\<lparr>us_last_kind := k\<rparr>) = history_ok n u" "history_ok n (u\<lparr>us_last_cursor := c\<rparr>) = history_ok n u"
  "history_ok n (u\<lparr>us_last_insert_ws := w\<rparr>) = history_ok n u"
  by (simp_all add: history_ok_def)

lemma area_ok_batch [simp]:
  "area_ok (ta\<lparr>ta_undo := (ta_undo ta)\<lparr>us_last_kind := k\<rparr>\<rparr>) = area_ok ta"
  "area_ok (ta\<lparr>ta_undo := (ta_undo ta)\<lparr>us_last_insert_ws := w\<rparr>\<rparr>) = area_ok ta"
  by (simp_all add: area_ok_def)

section \<open>Tabs\<close>

lemma encode_char_tab: "valid_char c \<Longrightarrow> 9 \<in> set (encode_char c) \<longleftrightarrow> c = 9"
  by (auto simp: encode_char_def valid_char_def)

lemma map_no_tab: "9 \<notin> set bs \<Longrightarrow> concat (map (\<lambda>b. if b = 9 then r else [b]) bs) = (bs :: bytes)"
  by (induction bs) auto

lemma expand_tabs_utf8:
  "\<forall>c \<in> set s. valid_char c \<Longrightarrow>
   concat (map (\<lambda>b. if b = 9 then replicate w 32 else [b]) (utf8 s)) =
     utf8 (concat (map (\<lambda>c. if c = 9 then replicate w 32 else [c]) s))"
proof (induction s)
  case (Cons c s)
  have "utf8 (replicate w 32) = replicate w 32" by (induction w) (simp_all add: encode_char_def)
  moreover have "encode_char 9 = [9]" by (simp add: encode_char_def)
  ultimately show ?case using Cons encode_char_tab [of c] by (cases "c = 9") (auto simp: map_no_tab)
qed simp

lemma expand_tabs_valid [simp]: "valid t \<Longrightarrow> valid (expand_tabs ta t)"
proof -
  assume "valid t"
  then obtain s where s: "t = utf8 s" "\<forall>c \<in> set s. valid_char c" by (auto simp: valid_iff)
  have "\<forall>x \<in> set (concat (map (\<lambda>c. if c = 9 then replicate w 32 else [c]) s)). valid_char x" for w
    using s(2) by (auto simp: valid_char_def split: if_splits)
  from valid_utf8 [OF this] show ?thesis
    using s expand_tabs_utf8 [OF s(2)] valid_utf8 [OF s(2)] by (simp add: expand_tabs_def expand_tabs_with_width_def)
qed

lemma expand_tabs_Nil [simp]: "expand_tabs ta [] = []"
  by (simp add: expand_tabs_def expand_tabs_with_width_def)

section \<open>Undo bookkeeping\<close>

lemma snapshot_entry_ok: "area_ok ta \<Longrightarrow> entry_ok (next_element_id ta) (snapshot ta)"
  by (simp add: area_ok_def entry_ok_def snapshot_def)

lemma push_entry_ok:
  assumes "history_ok n u" "entry_ok n e"
  shows "history_ok n ((push_entry e u)\<lparr>us_redo := []\<rparr>)"
proof -
  have "set (tl (us_stack u @ [e])) \<subseteq> set (us_stack u @ [e])"
    by (metis append_is_Nil_conv list.set_sel(2) not_Cons_self2 subsetI)
  then have "\<forall>x \<in> set (tl (us_stack u @ [e])). entry_ok n x" using assms by (auto simp: history_ok_def)
  then show ?thesis using assms by (auto simp: history_ok_def push_entry_def Let_def)
qed

lemma clear_redo_ok: "history_ok n u \<Longrightarrow> history_ok n (u\<lparr>us_redo := []\<rparr>)"
  by (auto simp: history_ok_def)

lemma pre_mutate_ok [simp]: "area_ok ta \<Longrightarrow> area_ok (pre_mutate kind ta)"
  using push_entry_ok [of "next_element_id ta" "ta_undo ta" "snapshot ta"] clear_redo_ok [of "next_element_id ta" "ta_undo ta"]
    snapshot_entry_ok [of ta]
  by (simp add: pre_mutate_def Let_def area_ok_def)

lemma pre_mutate_same [simp]:
  "ta_text (pre_mutate k ta) = ta_text ta" "cursor_pos (pre_mutate k ta) = cursor_pos ta"
  "ta_elements (pre_mutate k ta) = ta_elements ta" "kill_buffer (pre_mutate k ta) = kill_buffer ta"
  "tab_width (pre_mutate k ta) = tab_width ta" "next_element_id (pre_mutate k ta) = next_element_id ta"
  "selection (pre_mutate k ta) = selection ta" "scroll_override (pre_mutate k ta) = scroll_override ta"
  "wrap_cache (pre_mutate k ta) = wrap_cache ta" "preferred_col (pre_mutate k ta) = preferred_col ta"
  "provider_contents (pre_mutate k ta) = provider_contents ta" "clipboard (pre_mutate k ta) = clipboard ta"
  by (simp_all add: pre_mutate_def Let_def)

lemma post_mutate_same [simp]:
  "ta_text (post_mutate ta) = ta_text ta" "cursor_pos (post_mutate ta) = cursor_pos ta"
  "ta_elements (post_mutate ta) = ta_elements ta" "kill_buffer (post_mutate ta) = kill_buffer ta"
  "tab_width (post_mutate ta) = tab_width ta" "next_element_id (post_mutate ta) = next_element_id ta"
  "selection (post_mutate ta) = selection ta" "wrap_cache (post_mutate ta) = wrap_cache ta"
  by (simp_all add: post_mutate_def)

lemma post_mutate_ok [simp]: "area_ok (post_mutate ta) = area_ok ta"
  by (simp add: post_mutate_def area_ok_def)

lemma note_last_insert_ok [simp]: "area_ok (note_last_insert t ta) = area_ok ta"
  by (simp add: note_last_insert_def split: option.splits)

lemma note_last_insert_same [simp]:
  "ta_text (note_last_insert t ta) = ta_text ta" "cursor_pos (note_last_insert t ta) = cursor_pos ta"
  "ta_elements (note_last_insert t ta) = ta_elements ta" "kill_buffer (note_last_insert t ta) = kill_buffer ta"
  by (simp_all add: note_last_insert_def split: option.splits)

lemma break_insert_batch_ok [simp]: "area_ok (break_insert_batch t ta) = area_ok ta"
  by (simp add: break_insert_batch_def split: option.splits)

lemma break_insert_batch_same [simp]:
  "ta_text (break_insert_batch t ta) = ta_text ta" "cursor_pos (break_insert_batch t ta) = cursor_pos ta"
  "ta_elements (break_insert_batch t ta) = ta_elements ta" "tab_width (break_insert_batch t ta) = tab_width ta"
  "kill_buffer (break_insert_batch t ta) = kill_buffer ta"
  by (simp_all add: break_insert_batch_def split: option.splits)

lemma fresh_batch_ok [simp]: "area_ok (fresh_batch ta) = area_ok ta"
  by (simp add: fresh_batch_def area_ok_def)

lemma fresh_batch_same [simp]:
  "ta_text (fresh_batch ta) = ta_text ta" "cursor_pos (fresh_batch ta) = cursor_pos ta"
  "ta_elements (fresh_batch ta) = ta_elements ta" "kill_buffer (fresh_batch ta) = kill_buffer ta"
  "tab_width (fresh_batch ta) = tab_width ta" "next_element_id (fresh_batch ta) = next_element_id ta"
  "selection (fresh_batch ta) = selection ta" "provider_contents (fresh_batch ta) = provider_contents ta"
  "wrap_cache (fresh_batch ta) = wrap_cache ta"
  "us_stack (ta_undo (fresh_batch ta)) = us_stack (ta_undo ta)" "us_redo (ta_undo (fresh_batch ta)) = us_redo (ta_undo ta)"
  "us_max_depth (ta_undo (fresh_batch ta)) = us_max_depth (ta_undo ta)"
  "us_group_depth (ta_undo (fresh_batch ta)) = us_group_depth (ta_undo ta)"
  "us_group_checkpoint (ta_undo (fresh_batch ta)) = us_group_checkpoint (ta_undo ta)"
  by (simp_all add: fresh_batch_def)

lemma undo_ok: "area_ok ta \<Longrightarrow> area_ok (fst (undo ta))"
proof -
  assume ok: "area_ok ta"
  show ?thesis
  proof (cases "rev (us_stack (ta_undo ta))")
    case (Cons e r)
    then have st: "us_stack (ta_undo ta) = rev r @ [e]" by (metis rev.simps(2) rev_swap)
    then show ?thesis
      using Cons ok snapshot_entry_ok [OF ok]
      by (auto simp: undo_def Let_def area_ok_def history_ok_def entry_ok_def restore_def)
  qed (use ok in \<open>simp add: undo_def\<close>)
qed

lemma redo_ok: "area_ok ta \<Longrightarrow> area_ok (fst (redo ta))"
proof -
  assume ok: "area_ok ta"
  show ?thesis
  proof (cases "rev (us_redo (ta_undo ta))")
    case (Cons e r)
    then have st: "us_redo (ta_undo ta) = rev r @ [e]" by (metis rev.simps(2) rev_swap)
    then show ?thesis
      using Cons ok snapshot_entry_ok [OF ok]
      by (auto simp: redo_def Let_def area_ok_def history_ok_def entry_ok_def restore_def)
  qed (use ok in \<open>simp add: redo_def\<close>)
qed

lemma clear_history_ok: "area_ok ta \<Longrightarrow> area_ok (clear_history ta)"
  by (auto simp: clear_history_def area_ok_def history_ok_def)

lemma begin_undo_group_ok: "area_ok ta \<Longrightarrow> area_ok (begin_undo_group ta)"
  using snapshot_entry_ok [of ta] by (auto simp: begin_undo_group_def Let_def area_ok_def history_ok_def)

lemma close_group_ok:
  "history_ok n u \<Longrightarrow> history_ok n (u\<lparr>us_group_depth := 0, us_group_checkpoint := None\<rparr>)"
  by (auto simp: history_ok_def)

lemma end_undo_group_ok: "area_ok ta \<Longrightarrow> area_ok (end_undo_group ta)"
proof -
  assume ok: "area_ok ta"
  let ?u = "ta_undo ta" and ?n = "next_element_id ta"
  have h: "history_ok ?n ?u" using ok by (simp add: area_ok_def)
  then have push: "history_ok ?n ((push_entry c ?u)\<lparr>us_redo := []\<rparr>)" if "us_group_checkpoint ?u = Some c" for c
    using that by (intro push_entry_ok) (auto simp: history_ok_def)
  have dec: "history_ok ?n (?u\<lparr>us_group_depth := us_group_depth ?u - 1\<rparr>)" if "1 < us_group_depth ?u"
    using h that by (auto simp: history_ok_def)
  show ?thesis
  proof (cases "us_group_depth ?u = 1")
    case True
    have "area_ok (ta\<lparr>ta_undo := u\<lparr>us_group_depth := 0, us_group_checkpoint := None\<rparr>\<rparr>)" if "history_ok ?n u" for u
      using ok close_group_ok [OF that] by (simp add: area_ok_def)
    then show ?thesis using True h push by (simp add: end_undo_group_def Let_def split: option.splits)
  next
    case False
    then show ?thesis using ok dec by (simp add: end_undo_group_def Let_def area_ok_def)
  qed
qed

lemma cancel_undo_group_ok: "area_ok ta \<Longrightarrow> area_ok (cancel_undo_group ta)"
  using close_group_ok [of "next_element_id ta" "ta_undo ta"]
  by (auto simp: cancel_undo_group_def Let_def area_ok_def restore_def history_ok_def entry_ok_def split: option.splits)

section \<open>Edits of the content\<close>

lemma shift_id [simp]: "el_id (shift_element a r n e) = el_id e"
  by (simp add: shift_element_def)

lemma shift_elements_ids:
  assumes "distinct (map el_id es)" "\<forall>e \<in> set es. el_id e < m"
  shows "distinct (map el_id (shift_elements a r n es))" "\<forall>e \<in> set (shift_elements a r n es). el_id e < m"
  using assms by (auto simp: shift_elements_def comp_def intro: distinct_map_filter)

text \<open>A position that no element holds maps to one that no shifted element holds.\<close>

lemma outside_before:
  assumes "aligned es a b" "a \<le> b" "outside es p" "p \<le> a" "\<forall>e \<in> set es. el_start e \<le> el_end e"
  shows "outside (shift_elements a (b - a) n es) p"
proof -
  have "\<not> holds p (shift_element a (b - a) n e)" if e: "e \<in> set es" "\<not> (a \<le> el_start e \<and> el_end e \<le> b)" for e
  proof (rule shift_cases [OF assms(1) e assms(2) assms(5) [THEN bspec, OF e(1)], of n])
    assume "shift_element a (b - a) n e = e"
    then show ?thesis using assms(3) e(1) by (simp add: outside_def)
  next
    assume "b \<le> el_start e" "shift_element a (b - a) n e
        = e\<lparr>el_start := el_start e + n - (b - a), el_end := el_end e + n - (b - a)\<rparr>"
    then show ?thesis using shift_mono(1) [OF assms(2), of "el_start e" n] assms(4) by (simp add: holds_def)
  qed
  then show ?thesis using assms(2) by (auto simp: outside_def shift_elements_def)
qed

lemma outside_after:
  assumes "aligned es a b" "a \<le> b" "outside es p" "b \<le> p" "\<forall>e \<in> set es. el_start e \<le> el_end e"
  shows "outside (shift_elements a (b - a) n es) (p + n - (b - a))"
proof -
  have "\<not> holds (p + n - (b - a)) (shift_element a (b - a) n e)"
    if e: "e \<in> set es" "\<not> (a \<le> el_start e \<and> el_end e \<le> b)" for e
  proof (rule shift_cases [OF assms(1) e assms(2) assms(5) [THEN bspec, OF e(1)], of n])
    assume "el_end e \<le> a" "shift_element a (b - a) n e = e"
    then show ?thesis using shift_mono(1) [OF assms(2,4), of n] by (simp add: holds_def)
  next
    assume f: "b \<le> el_start e" "shift_element a (b - a) n e
        = e\<lparr>el_start := el_start e + n - (b - a), el_end := el_end e + n - (b - a)\<rparr>"
    have "\<not> holds p e" using assms(3) e(1) by (simp add: outside_def)
    then show ?thesis
      using f shift_mono(3) [OF assms(2) f(1), of n p] shift_mono(3) [OF assms(2,4), of n "el_end e"] by (auto simp: holds_def)
  qed
  then show ?thesis using assms(2) by (auto simp: outside_def shift_elements_def)
qed

lemma outside_inserted:
  assumes "aligned es a b" "a \<le> b" "\<forall>e \<in> set es. el_start e \<le> el_end e"
  shows "outside (shift_elements a (b - a) n es) a" "outside (shift_elements a (b - a) n es) (a + n)"
proof -
  have "\<not> holds a (shift_element a (b - a) n e) \<and> \<not> holds (a + n) (shift_element a (b - a) n e)"
    if e: "e \<in> set es" "\<not> (a \<le> el_start e \<and> el_end e \<le> b)" for e
  proof (rule shift_cases [OF assms(1) e assms(2) assms(3) [THEN bspec, OF e(1)], of n])
    assume "b \<le> el_start e" "shift_element a (b - a) n e
        = e\<lparr>el_start := el_start e + n - (b - a), el_end := el_end e + n - (b - a)\<rparr>"
    then show ?thesis using shift_mono(1) [OF assms(2), of "el_start e" n] by (simp add: holds_def)
  qed (simp add: holds_def)
  then show "outside (shift_elements a (b - a) n es) a" "outside (shift_elements a (b - a) n es) (a + n)"
    using assms(2) by (auto simp: outside_def shift_elements_def)
qed

lemma elements_le: "elements_ok t es \<Longrightarrow> \<forall>e \<in> set es. el_start e \<le> el_end e"
  by (auto simp: elements_ok_def)

lemma outside_aligned: "outside es p \<Longrightarrow> \<forall>e \<in> set es. el_start e \<le> el_end e \<Longrightarrow> aligned es p p"
  unfolding outside_def holds_def aligned_def by (meson leI)

text \<open>An edit of a range that splits no element, with the cursor before it, at its end or after it.\<close>

lemma content_edit:
  assumes "content_ok m t c es" "aligned es a b" "a \<le> b" "cut t a" "cut t b" "valid x"
    and p: "(p = c \<and> c \<le> a) \<or> p = a \<or> p = a + length x \<or> (p = c + length x - (b - a) \<and> b \<le> c)"
  shows "content_ok m (edited a b x t) p (shift_elements a (b - a) (length x) es)"
proof -
  let ?t = "edited a b x t" and ?es = "shift_elements a (b - a) (length x) es"
  have ok: "elements_ok t es" "cut t c" "outside es c" using assms(1) by (simp_all add: content_ok_def)
  note le = elements_le [OF ok(1)]
  have "cut ?t p \<and> outside ?es p"
    using p
  proof (elim disjE conjE)
    assume "p = c" "c \<le> a"
    then show ?thesis using cut_before [OF assms(4-6) ok(2) _ assms(3)] outside_before [OF assms(2,3) ok(3) _ le] by simp
  next
    assume "p = a"
    then show ?thesis using cut_inserted [OF assms(4-6,3)] outside_inserted [OF assms(2,3) le] by simp
  next
    assume "p = a + length x"
    then show ?thesis using cut_inserted [OF assms(4-6,3)] outside_inserted [OF assms(2,3) le] by simp
  next
    assume "p = c + length x - (b - a)" "b \<le> c"
    then show ?thesis using cut_after [OF assms(4-6) ok(2) _ assms(3)] outside_after [OF assms(2,3) ok(3) _ le] by simp
  qed
  then show ?thesis
    using assms(1) shifted_ok [OF ok(1) assms(2,3,4,5,6)] edited_valid [OF assms(4,5,6)]
      shift_elements_ids [of es m a "b - a" "length x"]
    by (simp add: content_ok_def)
qed

section \<open>The operations on a well-formed area\<close>

text \<open>A position the host may name: a character boundary, or one that an element holds.\<close>

definition pos_ok :: "TextArea \<Rightarrow> nat \<Rightarrow> bool" where
  "pos_ok ta p \<longleftrightarrow> cut (ta_text ta) p \<or> \<not> outside (ta_elements ta) p"

lemma pos_ok_cursor [simp]: "area_ok ta \<Longrightarrow> pos_ok ta (cursor_pos ta)"
  by (simp add: pos_ok_def area_okD)

lemma insert_str_inner_ok:
  assumes "area_ok ta" "valid t" "pos_ok ta pos"
  defines "p \<equiv> clamp_pos_for_insertion (ta_elements ta) pos" and "x \<equiv> expand_tabs ta t"
  shows "\<exists>ta'. insert_str_inner pos t ta = Some (ta', length x) \<and> area_ok ta' \<and>
     ta_text ta' = edited p p x (ta_text ta) \<and>
     (t \<noteq> [] \<longrightarrow> ta_elements ta' = shift_elements p 0 (length x) (ta_elements ta)) \<and>
     (t = [] \<longrightarrow> ta' = ta) \<and>
     cursor_pos ta' = (if p \<le> cursor_pos ta then cursor_pos ta + length x else cursor_pos ta) \<and>
     next_element_id ta' = next_element_id ta \<and> kill_buffer ta' = kill_buffer ta \<and> tab_width ta' = tab_width ta \<and>
     ta_undo ta' = ta_undo ta \<and> selection ta' = selection ta"
proof (cases "t = []")
  case True
  then show ?thesis using assms(1) by (simp add: insert_str_inner_def x_def edited_def)
next
  case False
  note ok = area_okD [OF assms(1)]
  have p: "cut (ta_text ta) p" "outside (ta_elements ta) p"
    using clamp_insertion_ok [OF ok(4)] assms(3) by (simp_all add: pos_ok_def p_def)
  have x: "valid x" using assms(2) by (simp add: x_def)
  have al: "aligned (ta_elements ta) p p" using outside_aligned [OF p(2) elements_le [OF ok(4)]] .
  have "content_ok (next_element_id ta) (edited p p x (ta_text ta))
      (if p \<le> cursor_pos ta then cursor_pos ta + length x else cursor_pos ta) (shift_elements p 0 (length x) (ta_elements ta))"
    using content_edit [of "next_element_id ta" "ta_text ta" "cursor_pos ta" "ta_elements ta" p p x
        "if p \<le> cursor_pos ta then cursor_pos ta + length x else cursor_pos ta"] assms(1) al p(1) x
    by (simp add: area_ok_def)
  moreover have "insert_str_inner pos t ta = Some (ta\<lparr>ta_text := edited p p x (ta_text ta), wrap_cache := None,
      cursor_pos := if p \<le> cursor_pos ta then cursor_pos ta + length x else cursor_pos ta,
      ta_elements := shift_elements p 0 (length x) (ta_elements ta), preferred_col := None\<rparr>, length x)"
    using False p(1) boundary_cut [OF ok(1), of p]
    by (simp add: insert_str_inner_def Let_def p_def x_def str_insert_def edited_def)
  ultimately show ?thesis using assms(1) False by (simp add: area_ok_def)
qed

lemma replace_range_raw_ok:
  assumes "area_ok ta" "valid y" "a \<le> b"
  defines "s \<equiv> min a (text_len ta)" and "e \<equiv> min b (text_len ta)" and "x \<equiv> expand_tabs ta y"
  assumes "cut (ta_text ta) s" "cut (ta_text ta) e" "aligned (ta_elements ta) s e"
  shows "\<exists>ta'. replace_range_raw a b y ta = Some (ta', length x) \<and> area_ok ta' \<and>
     ta_text ta' = edited s e x (ta_text ta) \<and>
     (s < e \<or> x \<noteq> [] \<longrightarrow> ta_elements ta' = shift_elements s (e - s) (length x) (ta_elements ta) \<and>
        cursor_pos ta' = cursor_after s e (length x) (cursor_pos ta)) \<and>
     (s = e \<and> x = [] \<longrightarrow> ta' = ta) \<and>
     next_element_id ta' = next_element_id ta \<and> kill_buffer ta' = kill_buffer ta \<and> tab_width ta' = tab_width ta \<and>
     ta_undo ta' = ta_undo ta \<and> selection ta' = selection ta"
proof (cases "s = e \<and> x = []")
  case True
  then show ?thesis
    using assms(1,3) cut_le [OF assms(7)]
    by (simp add: replace_range_raw_def Let_def edited_def s_def [symmetric] e_def [symmetric] x_def [symmetric])
next
  case False
  note ok = area_okD [OF assms(1)]
  have se: "s \<le> e" using assms(3) by (simp add: s_def e_def)
  have x: "valid x" using assms(2) by (simp add: x_def)
  let ?c = "cursor_after s e (length x) (cursor_pos ta)" and ?t = "edited s e x (ta_text ta)"
    and ?es = "shift_elements s (e - s) (length x) (ta_elements ta)"
  have c: "content_ok (next_element_id ta) ?t ?c ?es"
    using content_edit [of "next_element_id ta" "ta_text ta" "cursor_pos ta" "ta_elements ta" s e x ?c]
      assms(1,7,8,9) se x by (auto simp: area_ok_def cursor_after_def)
  then have "?c \<le> length ?t" "outside ?es ?c" by (auto simp: content_ok_def dest: cut_le)
  then have "clamp_pos_to_nearest_boundary (length ?t) ?es (min ?c (length ?t)) = ?c"
    by (simp add: clamp_boundary_eq min_absorb1)
  moreover have "str_replace s e x (ta_text ta) = Some ?t"
    using se assms(7,8) boundary_cut [OF ok(1)] by (simp add: str_replace_def edited_def)
  moreover have "\<not> (e - s = 0 \<and> length x = 0)" using False se by auto
  ultimately have "replace_range_raw a b y ta = Some (ta\<lparr>scroll_override := None, ta_text := ?t, wrap_cache := None,
      preferred_col := None, ta_elements := ?es, cursor_pos := ?c\<rparr>, length x)"
    using assms(3) unfolding replace_range_raw_def Let_def s_def [symmetric] e_def [symmetric] x_def [symmetric]
    by (simp add: Let_def) blast
  with c show ?thesis using assms(1) False by (auto simp: area_ok_def)
qed

text \<open>A range whose ends are boundaries, widened to whole elements and cut to the text.\<close>

definition range_ok :: "TextArea \<Rightarrow> nat \<Rightarrow> nat \<Rightarrow> bool" where
  "range_ok ta a b \<longleftrightarrow> a \<le> b \<and> cut (ta_text ta) (min a (text_len ta)) \<and> cut (ta_text ta) (min b (text_len ta))"

lemma expanded_range:
  assumes "area_ok ta" "range_ok ta a b" "expand_range_to_element_boundaries (ta_elements ta) a b = (a', b')"
  shows "a' \<le> b'" "cut (ta_text ta) (min a' (text_len ta))" "cut (ta_text ta) (min b' (text_len ta))"
    "aligned (ta_elements ta) (min a' (text_len ta)) (min b' (text_len ta))" "a' \<le> a" "b \<le> b'"
proof -
  note ok = area_okD [OF assms(1)] and els = elements_okD [OF area_okD(4) [OF assms(1)]]
  note e = expand_range_ok [OF assms(3)]
  show "a' \<le> a" "b \<le> b'" "a' \<le> b'" using e assms(2) by (auto simp: range_ok_def)
  have "min (el_end f) (text_len ta) = el_end f" "min (el_start f) (text_len ta) = el_start f" if "f \<in> set (ta_elements ta)" for f
    using els(1,4) [OF that] by simp_all
  then show "cut (ta_text ta) (min a' (text_len ta))" "cut (ta_text ta) (min b' (text_len ta))"
    using e assms(2) els(2,3) by (auto simp: range_ok_def)
  have "aligned (ta_elements ta) a' b'" using e by simp
  then show "aligned (ta_elements ta) (min a' (text_len ta)) (min b' (text_len ta))"
    using els(1,4) unfolding aligned_def by (metis (no_types, lifting) le_trans min.bounded_iff min.coboundedI1)
qed

lemma insert_str_ok:
  assumes "area_ok ta" "valid t"
  shows "\<exists>ta'. insert_str t ta = Some ta' \<and> area_ok ta' \<and>
    ta_text ta' = edited (cursor_pos ta) (cursor_pos ta) (expand_tabs ta t) (ta_text ta) \<and>
    cursor_pos ta' = cursor_pos ta + length (expand_tabs ta t) \<and> kill_buffer ta' = kill_buffer ta"
proof (cases "t = []")
  case True
  then show ?thesis using assms by (simp add: insert_str_def edited_def)
next
  case False
  let ?ta = "pre_mutate MK_Insert (break_insert_batch t (ta\<lparr>scroll_override := None\<rparr>))"
  have ok: "area_ok ?ta" using assms(1) by simp
  from insert_str_inner_ok [OF ok assms(2) pos_ok_cursor [OF ok]] False area_okD(3) [OF assms(1)] show ?thesis
    by (auto simp: insert_str_def expand_tabs_def)
qed

lemma insert_str_at_ok:
  assumes "area_ok ta" "valid t" "pos_ok ta pos"
  shows "\<exists>ta'. insert_str_at pos t ta = Some ta' \<and> area_ok ta'"
proof (cases "t = []")
  case True
  then show ?thesis using assms by (simp add: insert_str_at_def)
next
  case False
  have "area_ok (pre_mutate MK_Insert ta)" "pos_ok (pre_mutate MK_Insert ta) pos" using assms by (simp_all add: pos_ok_def)
  from insert_str_inner_ok [OF this(1) assms(2) this(2)] False show ?thesis by (auto simp: insert_str_at_def)
qed

lemma replace_range_ok:
  assumes "area_ok ta" "valid t" "range_ok ta a b"
  shows "\<exists>ta'. replace_range a b t ta = Some ta' \<and> area_ok ta'"
proof -
  obtain a' b' where ab: "expand_range_to_element_boundaries (ta_elements ta) a b = (a', b')" by fastforce
  have ok: "area_ok (pre_mutate MK_Replace ta)" using assms(1) by simp
  show ?thesis
    using replace_range_raw_ok [OF ok assms(2) expanded_range(1) [OF assms(1,3) ab]] expanded_range(2-4) [OF assms(1,3) ab] ab
    by (auto simp: replace_range_def)
qed

lemma cursor_area_ok:
  "area_ok ta \<Longrightarrow> cut (ta_text ta) c \<Longrightarrow> outside (ta_elements ta) c \<Longrightarrow> area_ok (ta\<lparr>cursor_pos := c\<rparr>)"
  by (simp add: area_ok_def content_ok_def)

lemma set_cursor_ok:
  assumes "area_ok ta" "pos_ok ta (min pos (text_len ta))"
  shows "area_ok (set_cursor pos ta)"
  using cursor_area_ok [OF assms(1)] clamp_boundary_ok [OF area_okD(4) [OF assms(1)], of "min pos (text_len ta)"] assms(2)
  by (simp add: set_cursor_def pos_ok_def)

lemma selection_rangeD:
  assumes "area_ok ta" "selection_range ta = Some (a, b)"
    "\<And>x y. selection ta = Some (x, y) \<Longrightarrow> range_ok ta (min x y) (max x y)"
  shows "a < b" "cut (ta_text ta) a" "cut (ta_text ta) b" "aligned (ta_elements ta) a b" "b \<le> text_len ta"
proof -
  obtain x y where xy: "selection ta = Some (x, y)"
    using assms(2) by (auto simp: selection_range_def split: option.splits prod.splits)
  obtain a' b' where ab: "expand_range_to_element_boundaries (ta_elements ta) (min x y) (max x y) = (a', b')" by fastforce
  have r: "a = min a' (text_len ta)" "b = min b' (text_len ta)" "a < b"
    using assms(2) xy ab by (auto simp: selection_range_def Let_def split: if_splits)
  then show "a < b" "cut (ta_text ta) a" "cut (ta_text ta) b" "aligned (ta_elements ta) a b" "b \<le> text_len ta"
    using expanded_range [OF assms(1) assms(3) [OF xy] ab] by simp_all
qed

lemma selected_text_ok:
  assumes "area_ok ta" "\<And>x y. selection ta = Some (x, y) \<Longrightarrow> range_ok ta (min x y) (max x y)"
  shows "\<exists>r. selected_text ta = Some r \<and> (\<forall>t \<in> set_option r. valid t)"
proof (cases "selection_range ta")
  case (Some p)
  obtain a b where p: "p = (a, b)" by fastforce
  note s = selection_rangeD [OF assms(1) Some [unfolded p] assms(2)]
  show ?thesis
    using s Some p boundary_cut [OF area_okD(1) [OF assms(1)]] valid_between [OF s(2,3)]
    by (simp add: selected_text_def str_slice_def)
qed (simp add: selected_text_def)

lemma delete_selection_ok:
  assumes "area_ok ta" "\<And>x y. selection ta = Some (x, y) \<Longrightarrow> range_ok ta (min x y) (max x y)"
  shows "\<exists>ta' d. delete_selection ta = Some (ta', d) \<and> area_ok ta' \<and> (\<not> d \<longrightarrow> ta' = ta) \<and> (d \<longrightarrow> selection ta' = None)"
proof (cases "selection_range ta")
  case (Some p)
  obtain a b where p: "p = (a, b)" by fastforce
  note s = selection_rangeD [OF assms(1) Some [unfolded p] assms(2)]
  have ok: "area_ok (pre_mutate MK_Replace ta)" using assms(1) by simp
  obtain ta' n where r: "replace_range_raw a b [] (pre_mutate MK_Replace ta) = Some (ta', n)" "area_ok ta'"
      "ta_text ta' = edited a b [] (ta_text ta)" "ta_elements ta' = shift_elements a (b - a) 0 (ta_elements ta)"
    using replace_range_raw_ok [OF ok valid_simps, of a b] s by (auto simp: min_absorb1)
  have le: "a \<le> b" using s(1) by simp
  have "cut (ta_text ta') a"
    using cut_inserted(1) [OF s(2,3) valid_simps le] r(3) by simp
  moreover have "outside (ta_elements ta') a"
    using outside_inserted(1) [OF s(4) le elements_le [OF area_okD(4) [OF assms(1)]], of 0] r(4) by simp
  ultimately have "area_ok (ta'\<lparr>cursor_pos := min a (text_len ta')\<rparr>)"
    using cursor_area_ok [OF r(2)] cut_le [of "ta_text ta'" a] by (simp add: min_absorb1)
  with r(1) Some p show ?thesis by (auto simp: delete_selection_def)
qed (use assms(1) in \<open>auto simp: delete_selection_def\<close>)

section \<open>Elements\<close>

lemma sort_key_snoc:
  assumes "sorted (map f xs)"
  shows "sort_key f (xs @ [e]) = takeWhile (\<lambda>x. f x \<le> f e) xs @ e # dropWhile (\<lambda>x. f x \<le> f e) xs"
proof (rule properties_for_sort_key)
  let ?l = "takeWhile (\<lambda>x. f x \<le> f e) xs" and ?r = "dropWhile (\<lambda>x. f x \<le> f e) xs"
  have l: "\<forall>x \<in> set ?l. f x \<le> f e" by (auto dest: set_takeWhileD)
  have s: "sorted (map f ?l @ map f ?r)" using assms by (metis map_append takeWhile_dropWhile_id)
  have tail: "\<forall>x \<in> set (y # ys). f y \<le> f x" if "sorted (map f u @ map f (y # ys))" for u y ys
    using that by (simp add: sorted_append)
  have r: "\<forall>x \<in> set ?r. f e < f x"
  proof (cases ?r)
    case (Cons y ys)
    have "f e < f y" using hd_dropWhile [of "\<lambda>x. f x \<le> f e" xs] Cons by simp
    moreover have "\<forall>x \<in> set ?r. f y \<le> f x" using tail [of ?l y ys] s unfolding Cons by blast
    ultimately show ?thesis by (meson less_le_trans)
  next
    case Nil
    then show ?thesis by (simp only: list.set ball_empty)
  qed
  have "mset ?l + mset ?r = mset xs" by (metis mset_append takeWhile_dropWhile_id)
  then show "mset (?l @ e # ?r) = mset (xs @ [e])" by simp
  have join: "sorted (map f (u @ e # v))"
    if "sorted (map f u @ map f v)" "\<forall>x \<in> set u. f x \<le> f e" "\<forall>x \<in> set v. f e < f x" for u v
    using that by (simp add: sorted_append less_imp_le)
  show "sorted (map f (?l @ e # ?r))" by (rule join [OF s l r])
  fix k assume "k \<in> set (?l @ e # ?r)"
  have "filter (\<lambda>x. f k = f x) xs = filter (\<lambda>x. f k = f x) ?l @ filter (\<lambda>x. f k = f x) ?r"
    by (metis filter_append takeWhile_dropWhile_id)
  moreover have "filter (\<lambda>x. f k = f x) ?r = []" if "f k = f e" using r that by (auto simp: filter_empty_conv)
  ultimately show "filter (\<lambda>x. f k = f x) (?l @ e # ?r) = filter (\<lambda>x. f k = f x) (xs @ [e])"
    by (cases "f k = f e") simp_all
qed

lemma el_apart_sorted: "sorted_wrt el_apart es \<Longrightarrow> sorted (map el_start es)"
  by (auto simp: sorted_map el_apart_def elim: sorted_wrt_mono_rel [rotated])

text \<open>A new element may take any free range.\<close>

lemma elements_ok_add:
  assumes "elements_ok t es" "el_start e \<le> el_end e" "cut t (el_start e)" "cut t (el_end e)"
    and free: "\<forall>f \<in> set es. \<not> (el_start e < el_end f \<and> el_start f < el_end e)"
  shows "elements_ok t (sort_key el_start (es @ [e]))"
proof -
  have so: "sorted_wrt el_apart es" using assms(1) by (simp add: elements_ok_def)
  let ?P = "\<lambda>x. el_start x \<le> el_start e"
  have eq: "sort_key el_start (es @ [e]) = takeWhile ?P es @ e # dropWhile ?P es"
    by (rule sort_key_snoc [OF el_apart_sorted [OF so]])
  have parts: "sorted_wrt el_apart (takeWhile ?P es)" "sorted_wrt el_apart (dropWhile ?P es)"
    "\<forall>x \<in> set (takeWhile ?P es). \<forall>y \<in> set (dropWhile ?P es). el_apart x y"
    using so takeWhile_dropWhile_id [of ?P es] by (metis sorted_wrt_append)+
  have sub: "set (takeWhile ?P es) \<subseteq> set es" "set (dropWhile ?P es) \<subseteq> set es"
    by (auto dest: set_takeWhileD set_dropWhileD)
  have "\<forall>x \<in> set (takeWhile ?P es). el_apart x e"
    using free sub(1) by (auto simp: el_apart_def dest: set_takeWhileD)
  moreover have "\<forall>y \<in> set (dropWhile ?P es). el_start e \<le> el_start y"
  proof (cases "dropWhile ?P es")
    case (Cons z zs)
    have "el_start e < el_start z" using hd_dropWhile [of ?P es] Cons by simp
    then show ?thesis using parts(2) Cons by (auto simp: el_apart_def)
  next
    case Nil
    then show ?thesis by (simp only: list.set ball_empty)
  qed
  then have "\<forall>y \<in> set (dropWhile ?P es). el_apart e y" using free sub(2) by (auto simp: el_apart_def)
  ultimately have "sorted_wrt el_apart (takeWhile ?P es @ e # dropWhile ?P es)"
    using parts by (auto simp: sorted_wrt_append)
  moreover have "\<forall>x \<in> set (sort_key el_start (es @ [e])). el_start x \<le> el_end x \<and> cut t (el_start x) \<and> cut t (el_end x)"
    using assms by (auto simp: elements_ok_def)
  ultimately show ?thesis unfolding elements_ok_def eq by simp
qed

lemma add_element_ok:
  assumes "area_ok ta" "a \<le> b" "cut (ta_text ta) a" "cut (ta_text ta) b"
    and "\<forall>f \<in> set (ta_elements ta). \<not> (a < el_end f \<and> el_start f < b)" "\<not> (a < cursor_pos ta \<and> cursor_pos ta < b)"
  shows "area_ok (fst (add_element a b k d ta))"
proof -
  let ?e = "\<lparr>el_id = next_element_id ta, el_start = a, el_end = b, el_kind = k, el_display = d\<rparr>"
  have els: "elements_ok (ta_text ta) (sort_key el_start (ta_elements ta @ [?e]))"
    by (rule elements_ok_add) (use assms area_okD(4) in auto)
  have c: "content_ok (next_element_id ta) (ta_text ta) (cursor_pos ta) (ta_elements ta)"
    using assms(1) by (simp add: area_ok_def)
  have "mset (map el_id (sort_key el_start (ta_elements ta @ [?e]))) = mset (map el_id (ta_elements ta @ [?e]))"
    by (simp only: mset_map mset_sort)
  moreover have "distinct (map el_id (ta_elements ta @ [?e]))" using c by (auto simp: content_ok_def)
  ultimately have "distinct (map el_id (sort_key el_start (ta_elements ta @ [?e])))"
    using mset_eq_imp_distinct_iff by blast
  then have "content_ok (next_element_id ta + 1) (ta_text ta) (cursor_pos ta) (sort_key el_start (ta_elements ta @ [?e]))"
    using c els assms(6) by (auto simp: content_ok_def outside_def holds_def)
  moreover have "history_ok (next_element_id ta + 1) (ta_undo ta)"
    by (rule history_ok_mono [OF area_okD(5) [OF assms(1)]]) simp
  ultimately show ?thesis using assms(1) by (simp add: add_element_def Let_def area_ok_def)
qed

lemma shifted_free:
  assumes "aligned es a b" "a \<le> b" "\<forall>e \<in> set es. el_start e \<le> el_end e" "f \<in> set (shift_elements a (b - a) n es)"
  shows "el_end f \<le> a \<or> a + n \<le> el_start f"
proof -
  obtain e where e: "e \<in> set es" "\<not> (a \<le> el_start e \<and> el_end e \<le> b)" "f = shift_element a (b - a) n e"
    using assms(2,4) by (auto simp: shift_elements_def)
  show ?thesis
  proof (rule shift_cases [OF assms(1) e(1,2) assms(2) assms(3) [THEN bspec, OF e(1)], of n])
    assume "b \<le> el_start e" "shift_element a (b - a) n e
        = e\<lparr>el_start := el_start e + n - (b - a), el_end := el_end e + n - (b - a)\<rparr>"
    then show ?thesis using shift_mono(1) [OF assms(2), of "el_start e" n] e(3) by simp
  qed (use e(3) in simp)
qed

lemma add_element_same [simp]:
  "ta_text (fst (add_element a b k d ta)) = ta_text ta" "cursor_pos (fst (add_element a b k d ta)) = cursor_pos ta"
  "snd (add_element a b k d ta) = next_element_id ta"
  by (simp_all add: add_element_def Let_def)

text \<open>The common end of both ways to place an element: the new element takes the inserted range.\<close>

lemma place_element_ok:
  assumes "area_ok ta" "cut (ta_text ta) p" "cut (ta_text ta) (p + n)"
    and free: "\<forall>f \<in> set (ta_elements ta). el_end f \<le> p \<or> p + n \<le> el_start f"
    and "cursor_pos ta \<le> p \<or> p + n \<le> cursor_pos ta"
  shows "area_ok (set_cursor (p + n) (fst (add_element p (p + n) k d ta)))"
proof -
  have ok: "area_ok (fst (add_element p (p + n) k d ta))"
    by (rule add_element_ok [OF assms(1)]) (use assms in auto)
  then show ?thesis
    by (rule set_cursor_ok) (use assms(3) cut_le [OF assms(3)] in \<open>simp add: pos_ok_def min_absorb1\<close>)
qed

lemma insert_element_ok:
  assumes "area_ok ta" "valid t"
  shows "\<exists>ta'. insert_element t k d ta = Some (ta', next_element_id ta) \<and> area_ok ta' \<and>
    ta_text ta' = edited (cursor_pos ta) (cursor_pos ta) (expand_tabs ta t) (ta_text ta)"
proof -
  let ?ta = "pre_mutate MK_Element ta" and ?p = "cursor_pos ta" and ?x = "expand_tabs ta t"
  have ok: "area_ok ?ta" using assms(1) by simp
  note a = area_okD [OF assms(1)]
  have p: "clamp_pos_for_insertion (ta_elements ta) ?p = ?p" using a(3) by simp
  have x: "expand_tabs ?ta t = ?x" by (simp add: expand_tabs_def)
  obtain ta1 where i: "insert_str_inner ?p t ?ta = Some (ta1, length ?x)" "area_ok ta1"
      "ta_text ta1 = edited ?p ?p ?x (ta_text ta)" "cursor_pos ta1 = ?p + length ?x" "next_element_id ta1 = next_element_id ta"
      "t \<noteq> [] \<longrightarrow> ta_elements ta1 = shift_elements ?p 0 (length ?x) (ta_elements ta)" "t = [] \<longrightarrow> ta1 = ?ta"
    using insert_str_inner_ok [OF ok assms(2), of ?p] pos_ok_cursor [OF ok] p x by auto
  have al: "aligned (ta_elements ta) ?p ?p" by (rule outside_aligned [OF a(3) elements_le [OF a(4)]])
  have "area_ok (set_cursor (?p + length ?x) (fst (add_element ?p (?p + length ?x) k d ta1)))"
  proof (rule place_element_ok [OF i(2)])
    show "cut (ta_text ta1) ?p" "cut (ta_text ta1) (?p + length ?x)"
      using cut_inserted [OF a(2,2), of ?x] assms(2) i(3) by simp_all
    show "\<forall>f \<in> set (ta_elements ta1). el_end f \<le> ?p \<or> ?p + length ?x \<le> el_start f"
      using shifted_free [OF al _ elements_le [OF a(4)]] a(3) elements_le [OF a(4)] i(6,7)
      by (cases "t = []") (auto simp: outside_def holds_def not_less)
  qed (simp add: i(4))
  then show ?thesis
    using i p by (auto simp: insert_element_def Let_def add_element_def set_cursor_def split: prod.splits)
qed

lemma cursor_after_away: "s \<le> e \<Longrightarrow> cursor_after s e n c \<le> s \<or> s + n \<le> cursor_after s e n c"
  using shift_mono(1) [of s e c n] by (auto simp: cursor_after_def not_le)

lemma filter_elements_ok:
  assumes "area_ok ta"
  shows "area_ok (ta\<lparr>ta_elements := filter P (ta_elements ta)\<rparr>)"
  using assms by (auto simp: area_ok_def content_ok_def outside_def elements_ok_def sorted_wrt_filter distinct_map_filter)

lemma replace_range_with_element_ok:
  assumes "area_ok ta" "valid t" "range_ok ta a b"
  shows "\<exists>ta'. replace_range_with_element a b t k d ta = Some (ta', next_element_id ta) \<and> area_ok ta'"
proof -
  let ?P = "\<lambda>e. \<not> (el_start e < b \<and> a < el_end e)"
  let ?ta = "(pre_mutate MK_Element ta)\<lparr>ta_elements := filter ?P (ta_elements ta)\<rparr>"
  have ok: "area_ok ?ta" using filter_elements_ok [of "pre_mutate MK_Element ta" ?P] assms(1) by simp
  define s e x where "s = min a (text_len ta)" and "e = min b (text_len ta)" and "x = expand_tabs ?ta t"
  have r: "s \<le> e" "cut (ta_text ta) s" "cut (ta_text ta) e" "a \<le> b" using assms(3) by (auto simp: range_ok_def s_def e_def)
  have x: "valid x" using assms(2) by (simp add: x_def)
  have al: "aligned (ta_elements ?ta) s e"
    using elements_okD(1,4) [OF area_okD(4) [OF assms(1)]] unfolding aligned_def s_def e_def by fastforce
  note le = elements_le [OF area_okD(4) [OF ok]]
  obtain ta1 where i: "replace_range_raw a b t ?ta = Some (ta1, length x)" "area_ok ta1"
      "ta_text ta1 = edited s e x (ta_text ta)" "next_element_id ta1 = next_element_id ta"
      "s < e \<or> x \<noteq> [] \<longrightarrow> ta_elements ta1 = shift_elements s (e - s) (length x) (ta_elements ?ta) \<and>
        cursor_pos ta1 = cursor_after s e (length x) (cursor_pos ta)" "s = e \<and> x = [] \<longrightarrow> ta1 = ?ta"
    using replace_range_raw_ok [OF ok assms(2) r(4)] r al unfolding s_def e_def x_def by auto
  have "area_ok (set_cursor (s + length x) (fst (add_element s (s + length x) k d ta1)))"
  proof (rule place_element_ok [OF i(2)])
    show "cut (ta_text ta1) s" "cut (ta_text ta1) (s + length x)"
      using cut_inserted [OF r(2,3) x r(1)] i(3) by simp_all
    show "\<forall>f \<in> set (ta_elements ta1). el_end f \<le> s \<or> s + length x \<le> el_start f"
    proof (cases "s = e \<and> x = []")
      case True
      have "\<forall>f \<in> set (ta_elements ?ta). el_end f \<le> s \<or> s \<le> el_start f"
        using al True le unfolding aligned_def by fastforce
      then show ?thesis using True i(6) by simp
    next
      case False
      then have eq: "ta_elements ta1 = shift_elements s (e - s) (length x) (ta_elements ?ta)"
        using i(5) r(1) le_neq_implies_less by blast
      show ?thesis unfolding eq using shifted_free [OF al r(1) le] by blast
    qed
    show "cursor_pos ta1 \<le> s \<or> s + length x \<le> cursor_pos ta1"
    proof (cases "s = e \<and> x = []")
      case True
      then show ?thesis by (simp add: linear)
    next
      case False
      then have "cursor_pos ta1 = cursor_after s e (length x) (cursor_pos ta)"
        using i(5) r(1) le_neq_implies_less by blast
      then show ?thesis using cursor_after_away [OF r(1)] by simp
    qed
  qed
  then show ?thesis
    using i by (auto simp: replace_range_with_element_def Let_def add_element_def s_def split: prod.splits)
qed

lemma remove_element_sub:
  "set (remove_element i es) \<subseteq> set es" "sorted_wrt P es \<Longrightarrow> sorted_wrt P (remove_element i es)"
  "distinct (map el_id es) \<Longrightarrow> distinct (map el_id (remove_element i es))"
proof -
  show sub: "set (remove_element i es) \<subseteq> set es" for es by (induction es) auto
  show "sorted_wrt P es \<Longrightarrow> sorted_wrt P (remove_element i es)" using sub by (induction es) auto
  show "distinct (map el_id es) \<Longrightarrow> distinct (map el_id (remove_element i es))" using sub by (induction es) auto
qed

lemma inline_element_ok:
  assumes "area_ok ta"
  shows "area_ok (fst (inline_element i ta))"
proof (cases "List.find (\<lambda>e. el_id e = i) (ta_elements ta)")
  case (Some e)
  then have e: "e \<in> set (ta_elements ta)" by (auto simp: find_Some_iff)
  have ok: "area_ok (pre_mutate MK_Element ta)" using assms by simp
  note els = area_okD(4) [OF assms]
  have c: "cut (ta_text ta) (el_end e)" "outside (ta_elements ta) (el_end e)"
    using elements_okD(3) [OF els e] edge_outside [OF els e] by simp_all
  have "content_ok (next_element_id ta) (ta_text ta) (el_end e) (remove_element i (ta_elements ta))"
    using assms c remove_element_sub [where i = i and es = "ta_elements ta"]
    by (auto simp: area_ok_def content_ok_def outside_def elements_ok_def)
  then show ?thesis using Some ok by (simp add: inline_element_def Let_def area_ok_def)
qed (use assms in \<open>simp add: inline_element_def\<close>)

lemma update_display_fields:
  "map el_id (update_display i d es) = map el_id es" "map el_start (update_display i d es) = map el_start es"
  "map el_end (update_display i d es) = map el_end es"
  by (induction es) auto

lemma update_display_in: "f \<in> set (update_display i d es) \<Longrightarrow> \<exists>e \<in> set es. f = e \<or> f = e\<lparr>el_display := d\<rparr>"
  by (induction es) (auto split: if_splits)

lemma update_display_sorted: "sorted_wrt el_apart es \<Longrightarrow> sorted_wrt el_apart (update_display i d es)"
proof (induction es)
  case (Cons e es)
  have "el_apart e f" if "f \<in> set (update_display i d es)" for f
    using update_display_in [OF that] Cons.prems by (auto simp: el_apart_def)
  with Cons show ?case by (auto simp: el_apart_def)
qed simp

lemma set_element_display_ok:
  assumes "area_ok ta"
  shows "area_ok (set_element_display i d ta)"
proof -
  have "content_ok (next_element_id ta) (ta_text ta) (cursor_pos ta) (update_display i d (ta_elements ta))"
    using assms update_display_sorted [of "ta_elements ta" i d] update_display_in [of _ i d "ta_elements ta"]
    by (fastforce simp: area_ok_def content_ok_def elements_ok_def outside_def holds_def update_display_fields(1))
  then show ?thesis using assms by (simp add: set_element_display_def area_ok_def split: option.splits)
qed

lemma element_text_ok: "area_ok ta \<Longrightarrow> \<exists>r. element_text i ta = Some r \<and> (\<forall>t \<in> set_option r. valid t)"
proof (cases "List.find (\<lambda>e. el_id e = i) (ta_elements ta)")
  case (Some e)
  assume ok: "area_ok ta"
  from Some have e: "e \<in> set (ta_elements ta)" by (auto simp: find_Some_iff)
  note d = elements_okD [OF area_okD(4) [OF ok] e]
  show ?thesis
    using Some d boundary_cut [OF area_okD(1) [OF ok]] valid_between [OF d(2,3,1)]
    by (simp add: element_text_def str_slice_def)
qed (simp add: element_text_def)

section \<open>Kill and yank\<close>

lemma kill_range_ok:
  assumes "area_ok ta" "range_ok ta a b"
  shows "\<exists>ta'. kill_range a b ta = Some ta' \<and> area_ok ta'"
proof -
  obtain a' b' where ab: "expand_range_to_element_boundaries (ta_elements ta) a b = (a', b')" by fastforce
  define s e where "s = min a' (text_len ta)" and "e = min b' (text_len ta)"
  note r = expanded_range [OF assms ab, folded s_def e_def]
  show ?thesis
  proof (cases "e \<le> s")
    case True
    then show ?thesis using assms(1) ab by (simp add: kill_range_def s_def e_def)
  next
    case False
    then have le: "s \<le> e" by simp
    let ?k = "take (e - s) (drop s (ta_text ta))"
    let ?ta = "ta\<lparr>kill_buffer := ?k\<rparr>"
    have "str_slice s e (ta_text ta) = Some ?k" "valid ?k"
      using boundary_cut [OF area_okD(1) [OF assms(1)]] valid_between [OF r(2,3) le] r(2,3) le by (simp_all add: str_slice_def)
    moreover from this have ok: "area_ok ?ta" using assms(1) by (simp add: area_ok_def)
    ultimately show ?thesis
      using replace_range_raw_ok [OF ok valid_simps le] r(2,3,4) ab False assms(1)
      by (auto simp: kill_range_def Let_def s_def e_def)
  qed
qed

lemma yank_ok:
  assumes "area_ok ta"
  shows "\<exists>ta'. yank ta = Some ta' \<and> area_ok ta' \<and>
    ta_text ta' = edited (cursor_pos ta) (cursor_pos ta) (expand_tabs ta (kill_buffer ta)) (ta_text ta)"
proof (cases "kill_buffer ta = []")
  case True
  then show ?thesis using assms by (simp add: yank_def edited_def)
next
  case False
  have ok: "area_ok (pre_mutate MK_Insert ta)" using assms by simp
  show ?thesis
    using insert_str_inner_ok [OF ok area_okD(6) [OF assms] pos_ok_cursor [OF ok]] False area_okD(3) [OF assms]
    by (auto simp: yank_def Let_def expand_tabs_def)
qed

lemma set_text_ok:
  assumes "area_ok ta" "valid t" "cut (expand_tabs ta t) (min (cursor_pos ta) (length (expand_tabs ta t)))"
  shows "area_ok (set_text t ta)"
proof -
  have "area_ok (pre_mutate MK_Replace ta)" using assms(1) by simp
  moreover have "expand_tabs (pre_mutate MK_Replace ta) t = expand_tabs ta t" by (simp add: expand_tabs_def)
  moreover have "valid (expand_tabs ta t)" using assms(2) by simp
  ultimately show ?thesis using assms(3)
    by (simp add: set_text_def Let_def area_ok_def content_ok_def post_mutate_def)
qed

end
