(* ===== verification/Text_Motion.thy ===== *)
theory Text_Motion
  imports Text_Invariant
begin

text \<open>
  Where the cursor of the text area may go: grapheme boundaries and elements as atomic units, words, and
  logical lines, with the deletions and kills built on them (\<open>xai-ratatui-textarea/src/textarea.rs\<close>). The
  segmentation of text into grapheme clusters, the display width of a string and the Unicode table of
  alphanumeric characters belong to other crates and to the standard library's tables; they are the
  fields of the parameter \<open>Unicode\<close>.
\<close>

section \<open>The parameter\<close>

text \<open>
  \<open>gr_prev\<close> and \<open>gr_next\<close> are \<open>GraphemeCursor::new(pos, len, false)\<close> followed by \<open>prev_boundary\<close> and
  \<open>next_boundary\<close>; \<open>graphemes\<close> is the sequence of \<open>graphemes(true)\<close>; \<open>str_width\<close> is the width of
  \<open>unicode_width\<close>. \<open>soft_lines\<close> is \<open>textwrap::wrap\<close> at a width with the first-fit algorithm: the byte ranges
  of the slices it returns, \<open>None\<close> for a slice that does not point into the text.
\<close>

record Unicode =
  gr_prev :: "bytes \<Rightarrow> nat \<Rightarrow> (unit, nat option) result"
  gr_next :: "bytes \<Rightarrow> nat \<Rightarrow> (unit, nat option) result"
  graphemes :: "bytes \<Rightarrow> bytes list"
  str_width :: "bytes \<Rightarrow> nat"
  is_alphanumeric :: "rchar \<Rightarrow> bool"
  soft_lines :: "bytes \<Rightarrow> nat \<Rightarrow> (nat \<times> nat) option list"

text \<open>
  What the code relies on: from a character boundary of a valid text that is not the first (the last) there
  is a previous (a next) grapheme boundary, and it is a character boundary; the graphemes of a valid text are
  not empty, valid, and make up the text; wrapping returns slices of the text.
\<close>

definition unicode_ok :: "Unicode \<Rightarrow> bool" where
  "unicode_ok U \<longleftrightarrow>
     (\<forall>t p. cut t p \<and> 0 < p \<longrightarrow> (\<exists>b < p. gr_prev U t p = Ok (Some b) \<and> cut t b)) \<and>
     (\<forall>t p. cut t p \<and> p < length t \<longrightarrow> (\<exists>b > p. gr_next U t p = Ok (Some b) \<and> cut t b)) \<and>
     (\<forall>t. valid t \<longrightarrow> concat (graphemes U t) = t \<and> (\<forall>g \<in> set (graphemes U t). g \<noteq> [] \<and> valid g)) \<and>
     (\<forall>t w a b. valid t \<and> 0 < w \<and> Some (a, b) \<in> set (soft_lines U t w) \<longrightarrow> a \<le> b \<and> cut t a \<and> cut t b)"

lemma valid_encode: "valid_char c \<Longrightarrow> valid (encode_char c)"
  using valid_utf8 [of "[c]"] by simp

section \<open>A concrete instance\<close>

text \<open>Every scalar value a grapheme of width one, ASCII letters and digits as word characters, one soft line.\<close>

definition scalar_unicode :: Unicode where
  "scalar_unicode = \<lparr>
     gr_prev = \<lambda>t p. Ok (List.find (is_char_boundary t) (rev [0..<p])),
     gr_next = \<lambda>t p. Ok (List.find (is_char_boundary t) [Suc p..<Suc (length t)]),
     graphemes = \<lambda>t. map encode_char (str_chars t),
     str_width = \<lambda>t. length (str_chars t),
     is_alphanumeric = \<lambda>c. (48 \<le> c \<and> c \<le> 57) \<or> (65 \<le> c \<and> c \<le> 90) \<or> (97 \<le> c \<and> c \<le> 122),
     soft_lines = \<lambda>t w. [Some (0, length t)]\<rparr>"

lemma find_first: "x \<in> set xs \<Longrightarrow> P x \<Longrightarrow> \<exists>y. List.find P xs = Some y \<and> y \<in> set xs \<and> P y"
  by (induction xs) auto

lemma scalar_unicode_ok: "unicode_ok scalar_unicode"
  unfolding unicode_ok_def
proof (intro conjI allI impI ballI)
  fix t :: bytes and p :: nat assume a: "cut t p \<and> 0 < p"
  have "is_char_boundary t 0" by (simp add: is_char_boundary_def)
  then obtain b where "List.find (is_char_boundary t) (rev [0..<p]) = Some b" "b < p" "is_char_boundary t b"
    using find_first [of 0 "rev [0..<p]" "is_char_boundary t"] a by auto
  then show "\<exists>b<p. gr_prev scalar_unicode t p = Ok (Some b) \<and> cut t b"
    using boundary_cut [OF cut_valid] a by (auto simp: scalar_unicode_def)
next
  fix t :: bytes and p :: nat assume a: "cut t p \<and> p < length t"
  have "is_char_boundary t (length t)" by (simp add: is_char_boundary_def)
  then obtain b where "List.find (is_char_boundary t) [Suc p..<Suc (length t)] = Some b" "p < b" "is_char_boundary t b"
    using find_first [of "length t" "[Suc p..<Suc (length t)]" "is_char_boundary t"] a by auto
  then show "\<exists>b>p. gr_next scalar_unicode t p = Ok (Some b) \<and> cut t b"
    using boundary_cut [OF cut_valid] a by (auto simp: scalar_unicode_def)
next
  fix t :: bytes assume "valid t"
  then obtain s where s: "t = utf8 s" "\<forall>c \<in> set s. valid_char c" by (auto simp: valid_iff)
  have "str_chars t = s" using from_utf8_utf8 [OF s(2)] s(1) by (simp add: str_chars_def)
  moreover have "concat (map encode_char s) = utf8 s" by (induction s) simp_all
  ultimately show "concat (graphemes scalar_unicode t) = t" using s(1) by (simp add: scalar_unicode_def)
next
  fix t g assume "valid t" "g \<in> set (graphemes scalar_unicode t)"
  then obtain s c where s: "t = utf8 s" "\<forall>c \<in> set s. valid_char c" "c \<in> set (str_chars t)" "g = encode_char c"
    by (auto simp: valid_iff scalar_unicode_def)
  then have "valid_char c" using from_utf8_utf8 [OF s(2)] by (simp add: str_chars_def)
  then show "g \<noteq> []" "valid g" using valid_encode s(4) by (simp_all add: encode_char_def)
next
  fix t w a b assume "valid t \<and> 0 < w \<and> Some (a, b) \<in> set (soft_lines scalar_unicode t w)"
  then show "a \<le> b" "cut t a" "cut t b" by (auto simp: scalar_unicode_def)
qed

section \<open>Atomic boundaries and classes\<close>

definition prev_atomic_boundary :: "Unicode \<Rightarrow> TextArea \<Rightarrow> nat \<Rightarrow> nat" where
  "prev_atomic_boundary U ta pos =
     (if pos = 0 then 0
      else case List.find (\<lambda>e. el_start e < pos \<and> pos \<le> el_end e) (ta_elements ta) of
             Some e \<Rightarrow> el_start e
           | None \<Rightarrow>
               (case gr_prev U (ta_text ta) pos of
                  Ok (Some b) \<Rightarrow>
                    (case find_element_containing (ta_elements ta) b of Some e \<Rightarrow> el_start e | None \<Rightarrow> b)
                | Ok None \<Rightarrow> 0
                | Err _ \<Rightarrow> pos - 1))"

definition next_atomic_boundary :: "Unicode \<Rightarrow> TextArea \<Rightarrow> nat \<Rightarrow> nat" where
  "next_atomic_boundary U ta pos =
     (if text_len ta \<le> pos then text_len ta
      else case List.find (covers pos) (ta_elements ta) of
             Some e \<Rightarrow> el_end e
           | None \<Rightarrow>
               (case gr_next U (ta_text ta) pos of
                  Ok (Some b) \<Rightarrow>
                    (case find_element_containing (ta_elements ta) b of Some e \<Rightarrow> el_end e | None \<Rightarrow> b)
                | Ok None \<Rightarrow> text_len ta
                | Err _ \<Rightarrow> pos + 1))"

definition is_word_char :: "Unicode \<Rightarrow> rchar \<Rightarrow> bool" where
  "is_word_char U c \<longleftrightarrow> is_alphanumeric U c \<or> c = 95"

definition char_class :: "Unicode \<Rightarrow> rchar \<Rightarrow> nat" where
  "char_class U c = (if is_whitespace c then 0 else if is_word_char U c then 1 else 2)"

definition atomic_unit_class :: "Unicode \<Rightarrow> TextArea \<Rightarrow> nat \<Rightarrow> nat \<Rightarrow> nat option option" where
  "atomic_unit_class U ta start stop =
     (if stop \<le> start then Some None
      else if \<exists>e \<in> set (ta_elements ta). el_start e \<le> start \<and> stop \<le> el_end e then Some (Some 3)
      else map_option (\<lambda>s. map_option (char_class U) (first_char s)) (str_slice start stop (ta_text ta)))"

section \<open>Words\<close>

text \<open>The loops of the word motions. \<open>Inl\<close> is an early return, \<open>Inr\<close> the position where the loop ends.\<close>

partial_function (option) skip_spaces_back :: "Unicode \<Rightarrow> TextArea \<Rightarrow> nat \<Rightarrow> (nat + nat) option" where
  "skip_spaces_back U ta pos =
     (if pos = 0 then Some (Inr 0)
      else
        let prev = prev_atomic_boundary U ta pos
        in do {
             c \<leftarrow> atomic_unit_class U ta prev pos;
             if c = Some 0 then skip_spaces_back U ta prev
             else if c = None then Some (Inl 0) else Some (Inr pos)
           })"

partial_function (option) same_class_back :: "Unicode \<Rightarrow> TextArea \<Rightarrow> nat option \<Rightarrow> nat \<Rightarrow> nat option" where
  "same_class_back U ta target pos =
     (if pos = 0 then Some 0
      else
        let prev = prev_atomic_boundary U ta pos
        in do {
             c \<leftarrow> atomic_unit_class U ta prev pos;
             if c = target then same_class_back U ta target prev else Some pos
           })"

partial_function (option) solid_back :: "Unicode \<Rightarrow> TextArea \<Rightarrow> nat \<Rightarrow> nat option" where
  "solid_back U ta pos =
     (if pos = 0 then Some 0
      else
        let prev = prev_atomic_boundary U ta pos
        in do {
             c \<leftarrow> atomic_unit_class U ta prev pos;
             if c = Some 0 \<or> c = None then Some pos else solid_back U ta prev
           })"

partial_function (option) skip_spaces_forward :: "Unicode \<Rightarrow> TextArea \<Rightarrow> nat \<Rightarrow> (nat + nat) option" where
  "skip_spaces_forward U ta pos =
     (if text_len ta \<le> pos then Some (Inr pos)
      else
        let nxt = next_atomic_boundary U ta pos
        in do {
             c \<leftarrow> atomic_unit_class U ta pos nxt;
             if c = Some 0 then skip_spaces_forward U ta nxt
             else if c = None then Some (Inl (text_len ta)) else Some (Inr pos)
           })"

partial_function (option) same_class_forward :: "Unicode \<Rightarrow> TextArea \<Rightarrow> nat option \<Rightarrow> nat \<Rightarrow> nat option" where
  "same_class_forward U ta target pos =
     (if text_len ta \<le> pos then Some pos
      else
        let nxt = next_atomic_boundary U ta pos
        in do {
             c \<leftarrow> atomic_unit_class U ta pos nxt;
             if c = target then same_class_forward U ta target nxt else Some pos
           })"

definition beginning_of_previous_word :: "Unicode \<Rightarrow> TextArea \<Rightarrow> nat option" where
  "beginning_of_previous_word U ta =
     do {
       r \<leftarrow> skip_spaces_back U ta (min (cursor_pos ta) (text_len ta));
       case r of
         Inl v \<Rightarrow> Some v
       | Inr pos \<Rightarrow>
           if pos = 0 then Some 0
           else do {
             target \<leftarrow> atomic_unit_class U ta (prev_atomic_boundary U ta pos) pos;
             same_class_back U ta target pos
           }
     }"

definition beginning_of_previous_unix_word :: "Unicode \<Rightarrow> TextArea \<Rightarrow> nat option" where
  "beginning_of_previous_unix_word U ta =
     do {
       r \<leftarrow> skip_spaces_back U ta (min (cursor_pos ta) (text_len ta));
       case r of Inl v \<Rightarrow> Some v | Inr pos \<Rightarrow> solid_back U ta pos
     }"

definition end_of_next_word :: "Unicode \<Rightarrow> TextArea \<Rightarrow> nat option" where
  "end_of_next_word U ta =
     do {
       r \<leftarrow> skip_spaces_forward U ta (min (cursor_pos ta) (text_len ta));
       case r of
         Inl v \<Rightarrow> Some v
       | Inr pos \<Rightarrow>
           if text_len ta \<le> pos then Some (text_len ta)
           else do {
             target \<leftarrow> atomic_unit_class U ta pos (next_atomic_boundary U ta pos);
             same_class_forward U ta target pos
           }
     }"

section \<open>Lines\<close>

definition line_break :: "TextArea \<Rightarrow> nat \<Rightarrow> bool" where
  "line_break ta i \<longleftrightarrow> ta_text ta ! i = 10 \<and> \<not> is_inside_element (ta_elements ta) i"

definition beginning_of_line :: "TextArea \<Rightarrow> nat \<Rightarrow> nat" where
  "beginning_of_line ta pos = (case List.find (line_break ta) (rev [0..<pos]) of Some i \<Rightarrow> i + 1 | None \<Rightarrow> 0)"

definition end_of_line :: "TextArea \<Rightarrow> nat \<Rightarrow> nat" where
  "end_of_line ta pos =
     (case List.find (line_break ta) [pos..<text_len ta] of Some i \<Rightarrow> i | None \<Rightarrow> text_len ta)"

section \<open>Deletions and kills\<close>

fun back_units :: "Unicode \<Rightarrow> TextArea \<Rightarrow> nat \<Rightarrow> nat \<Rightarrow> nat" where
  "back_units U ta 0 target = target"
| "back_units U ta (Suc n) target =
     (let t = prev_atomic_boundary U ta target in if t = 0 then t else back_units U ta n t)"

fun forward_units :: "Unicode \<Rightarrow> TextArea \<Rightarrow> nat \<Rightarrow> nat \<Rightarrow> nat" where
  "forward_units U ta 0 target = target"
| "forward_units U ta (Suc n) target =
     (let t = next_atomic_boundary U ta target in if text_len ta \<le> t then t else forward_units U ta n t)"

definition delete_backward :: "Unicode \<Rightarrow> nat \<Rightarrow> TextArea \<Rightarrow> TextArea option" where
  "delete_backward U n ta0 =
     (if n = 0 \<or> cursor_pos ta0 = 0 then Some ta0
      else
        let ta = pre_mutate MK_Delete ta0;
            (a, b) = expand_range_to_element_boundaries (ta_elements ta) (back_units U ta n (cursor_pos ta)) (cursor_pos ta)
        in map_option (\<lambda>(ta', n). post_mutate ta') (replace_range_raw a b [] ta))"

definition delete_forward :: "Unicode \<Rightarrow> nat \<Rightarrow> TextArea \<Rightarrow> TextArea option" where
  "delete_forward U n ta0 =
     (if n = 0 \<or> text_len ta0 \<le> cursor_pos ta0 then Some ta0
      else
        let ta = pre_mutate MK_Delete ta0;
            (a, b) = expand_range_to_element_boundaries (ta_elements ta) (cursor_pos ta) (forward_units U ta n (cursor_pos ta))
        in map_option (\<lambda>(ta', n). post_mutate ta') (replace_range_raw a b [] ta))"

text \<open>The three lines every kill command ends with.\<close>

definition kill_step :: "nat \<Rightarrow> nat \<Rightarrow> TextArea \<Rightarrow> TextArea option" where
  "kill_step a b ta = map_option post_mutate (kill_range a b (pre_mutate MK_Kill ta))"

definition delete_backward_word :: "Unicode \<Rightarrow> TextArea \<Rightarrow> TextArea option" where
  "delete_backward_word U ta =
     do {
       start \<leftarrow> beginning_of_previous_word U ta;
       if cursor_pos ta \<le> start then Some ta else kill_step start (cursor_pos ta) ta
     }"

definition delete_backward_unix_word :: "Unicode \<Rightarrow> TextArea \<Rightarrow> TextArea option" where
  "delete_backward_unix_word U ta =
     do {
       start \<leftarrow> beginning_of_previous_unix_word U ta;
       if cursor_pos ta \<le> start then Some ta else kill_step start (cursor_pos ta) ta
     }"

definition delete_forward_word :: "Unicode \<Rightarrow> TextArea \<Rightarrow> TextArea option" where
  "delete_forward_word U ta =
     do {
       stop \<leftarrow> end_of_next_word U ta;
       if cursor_pos ta < stop then kill_step (cursor_pos ta) stop ta else Some ta
     }"

definition kill_to_end_of_line :: "TextArea \<Rightarrow> TextArea option" where
  "kill_to_end_of_line ta =
     (let eol = end_of_line ta (cursor_pos ta)
      in if cursor_pos ta = eol then
           if eol < text_len ta then kill_step (cursor_pos ta) (eol + 1) ta else Some ta
         else kill_step (cursor_pos ta) eol ta)"

definition kill_to_beginning_of_line :: "TextArea \<Rightarrow> TextArea option" where
  "kill_to_beginning_of_line ta =
     (let bol = beginning_of_line ta (cursor_pos ta)
      in if cursor_pos ta = bol then
           if 0 < bol then kill_step (bol - 1) bol ta else Some ta
         else kill_step bol (cursor_pos ta) ta)"

definition kill_current_line :: "TextArea \<Rightarrow> TextArea option" where
  "kill_current_line ta =
     (let bol = beginning_of_line ta (cursor_pos ta); eol = end_of_line ta (cursor_pos ta)
      in if bol = eol then
           if 0 < bol then kill_step (bol - 1) bol ta else Some ta
         else kill_step bol eol ta)"

definition move_cursor_left :: "Unicode \<Rightarrow> TextArea \<Rightarrow> TextArea" where
  "move_cursor_left U ta =
     ta\<lparr>scroll_override := None, cursor_pos := prev_atomic_boundary U ta (cursor_pos ta), preferred_col := None\<rparr>"

definition move_cursor_right :: "Unicode \<Rightarrow> TextArea \<Rightarrow> TextArea" where
  "move_cursor_right U ta =
     ta\<lparr>scroll_override := None, cursor_pos := next_atomic_boundary U ta (cursor_pos ta), preferred_col := None\<rparr>"

section \<open>Every motion ends where the cursor may stand\<close>

definition place_ok :: "TextArea \<Rightarrow> nat \<Rightarrow> bool" where
  "place_ok ta p \<longleftrightarrow> cut (ta_text ta) p \<and> outside (ta_elements ta) p"

lemma place_ok_cursor [simp]: "area_ok ta \<Longrightarrow> place_ok ta (cursor_pos ta)"
  by (simp add: place_ok_def area_okD)

lemma place_ok_edges:
  assumes "area_ok ta" "e \<in> set (ta_elements ta)"
  shows "place_ok ta (el_start e)" "place_ok ta (el_end e)"
  using elements_okD(2,3) [OF area_okD(4) [OF assms(1)] assms(2)] edge_outside [OF area_okD(4) [OF assms(1)] assms(2)]
  by (simp_all add: place_ok_def)

lemma place_ok_ends: "area_ok ta \<Longrightarrow> place_ok ta 0" "area_ok ta \<Longrightarrow> place_ok ta (text_len ta)"
proof -
  assume ok: "area_ok ta"
  have "el_end e \<le> text_len ta" if "e \<in> set (ta_elements ta)" for e
    using elements_okD(4) [OF area_okD(4) [OF ok] that] .
  then show "place_ok ta 0" "place_ok ta (text_len ta)"
    using area_okD(1) [OF ok] by (auto simp: place_ok_def outside_def holds_def not_less)
qed

lemma place_ok_le: "place_ok ta p \<Longrightarrow> p \<le> text_len ta"
  by (auto simp: place_ok_def dest: cut_le)

lemma place_ok_area: "area_ok ta \<Longrightarrow> place_ok ta c \<Longrightarrow> area_ok (ta\<lparr>cursor_pos := c\<rparr>)"
  by (simp add: place_ok_def cursor_area_ok)

lemma place_range_ok: "place_ok ta a \<Longrightarrow> place_ok ta b \<Longrightarrow> a \<le> b \<Longrightarrow> range_ok ta a b"
  using cut_le [of "ta_text ta" a] cut_le [of "ta_text ta" b] by (simp add: place_ok_def range_ok_def min_absorb1)

lemma find_SomeD: "List.find P xs = Some x \<Longrightarrow> x \<in> set xs \<and> P x"
  by (auto simp: find_Some_iff)

lemma prev_atomic_ok:
  assumes U: "unicode_ok U" and ok: "area_ok ta" and p: "place_ok ta p" "0 < p"
  shows "prev_atomic_boundary U ta p < p" "place_ok ta (prev_atomic_boundary U ta p)"
proof -
  have "prev_atomic_boundary U ta p < p \<and> place_ok ta (prev_atomic_boundary U ta p)"
  proof (cases "List.find (\<lambda>e. el_start e < p \<and> p \<le> el_end e) (ta_elements ta)")
    case (Some e)
    then show ?thesis
      using p(2) place_ok_edges [OF ok] find_SomeD [OF Some] by (simp add: prev_atomic_boundary_def)
  next
    case None
    obtain b where b: "b < p" "gr_prev U (ta_text ta) p = Ok (Some b)" "cut (ta_text ta) b"
      using U p unfolding unicode_ok_def place_ok_def by meson
    show ?thesis
    proof (cases "find_element_containing (ta_elements ta) b")
      case (Some e)
      then show ?thesis
        using find_Some_in [OF Some] place_ok_edges [OF ok] b None p(2)
        by (auto simp: prev_atomic_boundary_def holds_def)
    next
      case no: None
      then show ?thesis
        using b None p(2) find_None_outside [THEN iffD1, OF no] by (simp add: prev_atomic_boundary_def place_ok_def)
    qed
  qed
  then show "prev_atomic_boundary U ta p < p" "place_ok ta (prev_atomic_boundary U ta p)" by blast+
qed

lemma next_atomic_ok:
  assumes U: "unicode_ok U" and ok: "area_ok ta" and p: "place_ok ta p" "p < text_len ta"
  shows "p < next_atomic_boundary U ta p" "place_ok ta (next_atomic_boundary U ta p)"
proof -
  have "p < next_atomic_boundary U ta p \<and> place_ok ta (next_atomic_boundary U ta p)"
  proof (cases "List.find (covers p) (ta_elements ta)")
    case (Some e)
    then show ?thesis
      using p(2) place_ok_edges [OF ok] find_SomeD [OF Some] by (simp add: next_atomic_boundary_def covers_def)
  next
    case None
    obtain b where b: "p < b" "gr_next U (ta_text ta) p = Ok (Some b)" "cut (ta_text ta) b"
      using U p unfolding unicode_ok_def place_ok_def by meson
    show ?thesis
    proof (cases "find_element_containing (ta_elements ta) b")
      case (Some e)
      then show ?thesis
        using find_Some_in [OF Some] place_ok_edges [OF ok] b None p(2)
        by (auto simp: next_atomic_boundary_def holds_def)
    next
      case no: None
      then show ?thesis
        using b None p(2) find_None_outside [THEN iffD1, OF no] by (simp add: next_atomic_boundary_def place_ok_def)
    qed
  qed
  then show "p < next_atomic_boundary U ta p" "place_ok ta (next_atomic_boundary U ta p)" by blast+
qed

lemma first_char_valid:
  assumes "valid t" "t \<noteq> []"
  obtains c where "first_char t = Some c"
proof -
  obtain s where s: "t = utf8 s" "\<forall>c \<in> set s. valid_char c" using assms(1) by (auto simp: valid_iff)
  then obtain c r where "s = c # r" using assms(2) by (cases s) auto
  then show ?thesis using that s decode_encode by (simp add: first_char_def)
qed

text \<open>Between two boundaries there is always a class, so the early returns of the word motions are not taken.\<close>

lemma atomic_class_ok:
  assumes ok: "area_ok ta" and "place_ok ta a" "place_ok ta b" "a < b"
  obtains c where "atomic_unit_class U ta a b = Some (Some c)"
proof -
  let ?s = "take (b - a) (drop a (ta_text ta))"
  have c: "cut (ta_text ta) a" "cut (ta_text ta) b" using assms by (simp_all add: place_ok_def)
  then have v: "valid ?s" using valid_between assms(4) by (simp add: less_imp_le)
  have "b \<le> text_len ta" using c(2) by (rule cut_le)
  then have "?s \<noteq> []" using assms(4) by simp
  then obtain ch where "first_char ?s = Some ch" using v first_char_valid by blast
  moreover have "str_slice a b (ta_text ta) = Some ?s"
    using c boundary_cut [OF area_okD(1) [OF ok]] assms(4) by (simp add: str_slice_def)
  ultimately have "\<exists>c. atomic_unit_class U ta a b = Some (Some c)" using assms(4) by (simp add: atomic_unit_class_def)
  then show ?thesis using that by blast
qed

text \<open>Each backward loop ends, at a place not after the start.\<close>

lemma back_step:
  assumes "unicode_ok U" "area_ok ta" "place_ok ta p" "p \<noteq> 0"
  obtains q c where "prev_atomic_boundary U ta p = q" "q < p" "place_ok ta q"
    "atomic_unit_class U ta q p = Some (Some c)"
  using prev_atomic_ok [OF assms(1-3)] atomic_class_ok [OF assms(2) _ assms(3)] assms(4) by (metis gr0I)

lemma forward_step:
  assumes "unicode_ok U" "area_ok ta" "place_ok ta p" "\<not> text_len ta \<le> p"
  obtains q c where "next_atomic_boundary U ta p = q" "p < q" "place_ok ta q"
    "atomic_unit_class U ta p q = Some (Some c)"
  using next_atomic_ok [OF assms(1-3)] atomic_class_ok [OF assms(2,3)] assms(4) by (metis not_le)

text \<open>
  The loops of the word motions scan: at a good position a scan either stops there or goes on at a good
  position that is nearer to its end.
\<close>

locale scan =
  fixes good :: "nat \<Rightarrow> bool" and dist :: "nat \<Rightarrow> nat" and loop :: "nat \<Rightarrow> 'r option" and res :: "nat \<Rightarrow> 'r"
  assumes turn: "good p \<Longrightarrow> loop p = Some (res p) \<or> (\<exists>q. good q \<and> dist q < dist p \<and> loop p = loop q)"
begin

lemma ends: "good p \<Longrightarrow> \<exists>q. good q \<and> dist q \<le> dist p \<and> loop p = Some (res q)"
proof (induction "dist p" arbitrary: p rule: less_induct)
  case less
  from turn [OF less.prems] show ?case
  proof
    assume "\<exists>q. good q \<and> dist q < dist p \<and> loop p = loop q"
    then obtain q where q: "good q" "dist q < dist p" "loop p = loop q" by blast
    then show ?thesis using less.hyps [OF q(2,1)] by (metis le_trans less_imp_le)
  qed (use less.prems in auto)
qed

end

definition scanning :: "Unicode \<Rightarrow> TextArea \<Rightarrow> nat \<Rightarrow> bool" where
  "scanning U ta p \<longleftrightarrow> unicode_ok U \<and> area_ok ta \<and> place_ok ta p"

lemma scan_back:
  assumes "scanning U ta p" "p \<noteq> 0"
  obtains q c where "prev_atomic_boundary U ta p = q" "q < p" "scanning U ta q" "atomic_unit_class U ta q p = Some (Some c)"
  using back_step [of U ta p] assms by (auto simp: scanning_def)

lemma scan_forward:
  assumes "scanning U ta p" "\<not> text_len ta \<le> p"
  obtains q c where "next_atomic_boundary U ta p = q" "text_len ta - q < text_len ta - p" "scanning U ta q"
    "atomic_unit_class U ta p q = Some (Some c)"
proof -
  obtain q c where q: "next_atomic_boundary U ta p = q" "p < q" "place_ok ta q" "atomic_unit_class U ta p q = Some (Some c)"
    using forward_step [of U ta p] assms unfolding scanning_def by blast
  moreover have "text_len ta - q < text_len ta - p" using q(2) assms(2) by linarith
  ultimately show ?thesis using that assms(1) unfolding scanning_def by blast
qed

interpretation spaces_back: scan "scanning U ta" "\<lambda>p. p" "skip_spaces_back U ta" Inr
  for U :: Unicode and ta :: TextArea
proof
  fix p assume g: "scanning U ta p"
  show "skip_spaces_back U ta p = Some (Inr p) \<or> (\<exists>q. scanning U ta q \<and> q < p \<and> skip_spaces_back U ta p = skip_spaces_back U ta q)"
  proof (cases "p = 0")
    case False
    obtain q c where q: "prev_atomic_boundary U ta p = q" "q < p" "scanning U ta q" "atomic_unit_class U ta q p = Some (Some c)"
      by (rule scan_back [OF g False])
    have "skip_spaces_back U ta p = (if c = 0 then skip_spaces_back U ta q else Some (Inr p))"
      by (subst skip_spaces_back.simps) (use q False in \<open>simp add: Let_def\<close>)
    then show ?thesis using q(2,3) by auto
  qed (simp add: skip_spaces_back.simps)
qed

interpretation class_back: scan "scanning U ta" "\<lambda>p. p" "same_class_back U ta k" id
  for U :: Unicode and ta :: TextArea and k
proof
  fix p assume g: "scanning U ta p"
  show "same_class_back U ta k p = Some (id p) \<or> (\<exists>q. scanning U ta q \<and> q < p \<and> same_class_back U ta k p = same_class_back U ta k q)"
  proof (cases "p = 0")
    case False
    obtain q c where q: "prev_atomic_boundary U ta p = q" "q < p" "scanning U ta q" "atomic_unit_class U ta q p = Some (Some c)"
      by (rule scan_back [OF g False])
    have "same_class_back U ta k p = (if Some c = k then same_class_back U ta k q else Some (p))"
      by (subst same_class_back.simps) (use q False in \<open>simp add: Let_def\<close>)
    then show ?thesis using q(2,3) by auto
  qed (simp add: same_class_back.simps)
qed

interpretation solid_back: scan "scanning U ta" "\<lambda>p. p" "solid_back U ta" id
  for U :: Unicode and ta :: TextArea
proof
  fix p assume g: "scanning U ta p"
  show "solid_back U ta p = Some (id p) \<or> (\<exists>q. scanning U ta q \<and> q < p \<and> solid_back U ta p = solid_back U ta q)"
  proof (cases "p = 0")
    case False
    obtain q c where q: "prev_atomic_boundary U ta p = q" "q < p" "scanning U ta q" "atomic_unit_class U ta q p = Some (Some c)"
      by (rule scan_back [OF g False])
    have "solid_back U ta p = (if c \<noteq> 0 then solid_back U ta q else Some (p))"
      by (subst solid_back.simps) (use q False in \<open>simp add: Let_def\<close>)
    then show ?thesis using q(2,3) by auto
  qed (simp add: solid_back.simps)
qed

interpretation spaces_forward: scan "scanning U ta" "\<lambda>p. text_len ta - p" "skip_spaces_forward U ta" Inr
  for U :: Unicode and ta :: TextArea
proof
  fix p assume g: "scanning U ta p"
  show "skip_spaces_forward U ta p = Some (Inr p) \<or>
      (\<exists>q. scanning U ta q \<and> text_len ta - q < text_len ta - p \<and> skip_spaces_forward U ta p = skip_spaces_forward U ta q)"
  proof (cases "text_len ta \<le> p")
    case False
    obtain q c where q: "next_atomic_boundary U ta p = q" "text_len ta - q < text_len ta - p" "scanning U ta q"
        "atomic_unit_class U ta p q = Some (Some c)"
      by (rule scan_forward [OF g False])
    have "skip_spaces_forward U ta p = (if c = 0 then skip_spaces_forward U ta q else Some (Inr p))"
      by (subst skip_spaces_forward.simps) (use q False in \<open>simp add: Let_def\<close>)
    then show ?thesis using q(2,3) by auto
  qed (simp add: skip_spaces_forward.simps)
qed

interpretation class_forward: scan "scanning U ta" "\<lambda>p. text_len ta - p" "same_class_forward U ta k" id
  for U :: Unicode and ta :: TextArea and k
proof
  fix p assume g: "scanning U ta p"
  show "same_class_forward U ta k p = Some (id p) \<or>
      (\<exists>q. scanning U ta q \<and> text_len ta - q < text_len ta - p \<and> same_class_forward U ta k p = same_class_forward U ta k q)"
  proof (cases "text_len ta \<le> p")
    case False
    obtain q c where q: "next_atomic_boundary U ta p = q" "text_len ta - q < text_len ta - p" "scanning U ta q"
        "atomic_unit_class U ta p q = Some (Some c)"
      by (rule scan_forward [OF g False])
    have "same_class_forward U ta k p = (if Some c = k then same_class_forward U ta k q else Some (p))"
      by (subst same_class_forward.simps) (use q False in \<open>simp add: Let_def\<close>)
    then show ?thesis using q(2,3) by auto
  qed (simp add: same_class_forward.simps)
qed

text \<open>Every loop ends, at a place on its side of the start.\<close>

lemma back_loops_ok:
  assumes "unicode_ok U" "area_ok ta" "place_ok ta p"
  shows "\<exists>q \<le> p. skip_spaces_back U ta p = Some (Inr q) \<and> place_ok ta q"
    "\<exists>q \<le> p. same_class_back U ta k p = Some q \<and> place_ok ta q"
    "\<exists>q \<le> p. solid_back U ta p = Some q \<and> place_ok ta q"
  using spaces_back.ends [of U ta p] class_back.ends [of U ta p k] solid_back.ends [of U ta p] assms
  by (auto simp: scanning_def)

lemma forward_loops_ok:
  assumes "unicode_ok U" "area_ok ta" "place_ok ta p"
  shows "\<exists>q \<ge> p. skip_spaces_forward U ta p = Some (Inr q) \<and> place_ok ta q"
    "\<exists>q \<ge> p. same_class_forward U ta k p = Some q \<and> place_ok ta q"
proof -
  have le: "p \<le> q" if "text_len ta - q \<le> text_len ta - p" "place_ok ta q" for q
    using that place_ok_le [OF assms(3)] place_ok_le [OF that(2)] by linarith
  show "\<exists>q \<ge> p. skip_spaces_forward U ta p = Some (Inr q) \<and> place_ok ta q"
    "\<exists>q \<ge> p. same_class_forward U ta k p = Some q \<and> place_ok ta q"
    using spaces_forward.ends [of U ta p] class_forward.ends [of U ta p k] assms le by (auto simp: scanning_def)
qed

lemma cursor_min [simp]: "area_ok ta \<Longrightarrow> min (cursor_pos ta) (text_len ta) = cursor_pos ta"
  by (simp add: area_okD(7) min_absorb1)

lemma beginning_of_previous_word_ok:
  assumes "unicode_ok U" "area_ok ta"
  shows "\<exists>q \<le> cursor_pos ta. beginning_of_previous_word U ta = Some q \<and> place_ok ta q"
proof -
  obtain p where p: "p \<le> cursor_pos ta" "skip_spaces_back U ta (cursor_pos ta) = Some (Inr p)" "place_ok ta p"
    using back_loops_ok(1) [OF assms place_ok_cursor [OF assms(2)]] by blast
  show ?thesis
  proof (cases "p = 0")
    case True
    then show ?thesis using p assms(2) by (simp add: beginning_of_previous_word_def)
  next
    case False
    obtain c where c: "atomic_unit_class U ta (prev_atomic_boundary U ta p) p = Some (Some c)"
      using back_step [OF assms p(3) False] by metis
    obtain q where "q \<le> p" "same_class_back U ta (Some c) p = Some q" "place_ok ta q"
      using back_loops_ok(2) [OF assms p(3)] by blast
    then show ?thesis using p c False assms(2) by (auto simp: beginning_of_previous_word_def)
  qed
qed

lemma beginning_of_previous_unix_word_ok:
  assumes "unicode_ok U" "area_ok ta"
  shows "\<exists>q \<le> cursor_pos ta. beginning_of_previous_unix_word U ta = Some q \<and> place_ok ta q"
proof -
  obtain p where p: "p \<le> cursor_pos ta" "skip_spaces_back U ta (cursor_pos ta) = Some (Inr p)" "place_ok ta p"
    using back_loops_ok(1) [OF assms place_ok_cursor [OF assms(2)]] by blast
  obtain q where "q \<le> p" "solid_back U ta p = Some q" "place_ok ta q" using back_loops_ok(3) [OF assms p(3)] by blast
  then show ?thesis using p assms(2) by (auto simp: beginning_of_previous_unix_word_def)
qed

lemma end_of_next_word_ok:
  assumes "unicode_ok U" "area_ok ta"
  shows "\<exists>q \<ge> cursor_pos ta. end_of_next_word U ta = Some q \<and> place_ok ta q"
proof -
  obtain p where p: "cursor_pos ta \<le> p" "skip_spaces_forward U ta (cursor_pos ta) = Some (Inr p)" "place_ok ta p"
    using forward_loops_ok(1) [OF assms place_ok_cursor [OF assms(2)]] by blast
  show ?thesis
  proof (cases "text_len ta \<le> p")
    case True
    then show ?thesis using p assms(2) place_ok_ends(2) [OF assms(2)] area_okD(7) [OF assms(2)]
      by (simp add: end_of_next_word_def)
  next
    case False
    obtain c where c: "atomic_unit_class U ta p (next_atomic_boundary U ta p) = Some (Some c)"
      using forward_step [OF assms p(3) False] by metis
    obtain q where "p \<le> q" "same_class_forward U ta (Some c) p = Some q" "place_ok ta q"
      using forward_loops_ok(2) [OF assms p(3)] by blast
    then show ?thesis using p c False assms(2) by (auto simp: end_of_next_word_def)
  qed
qed

section \<open>Lines and kills on a well-formed area\<close>

lemma cut_ascii:
  assumes "valid t" "i < length t" "t ! i < 128"
  shows "cut t i" "cut t (Suc i)"
proof -
  have "is_char_boundary t i" using assms(2,3) by (auto simp: is_char_boundary_def cont_def)
  then show c: "cut t i" using boundary_cut [OF assms(1)] by blast
  have v: "valid (drop i t)" "valid (take i t)" using c by (simp_all add: cut_def)
  have d: "drop i t = t ! i # drop (Suc i) t" using assms(2) by (simp add: Cons_nth_drop_Suc)
  have "encode_char (t ! i) = [t ! i]" "valid_char (t ! i)" using assms(3) by (simp_all add: encode_char_def valid_char_def)
  then have one: "valid [t ! i]" using valid_utf8 [of "[t ! i]"] by simp
  then have "valid (drop (Suc i) t)" using valid_cancel [of "[t ! i]" "drop (Suc i) t"] v(1) d by simp
  moreover have "valid (take (Suc i) t)"
    using valid_append [OF v(2) one] assms(2) by (simp add: take_Suc_conv_app_nth)
  ultimately show "cut t (Suc i)" using assms(2) by (simp add: cut_def)
qed

lemma line_break_places:
  assumes "area_ok ta" "line_break ta i" "i < text_len ta"
  shows "place_ok ta i" "place_ok ta (i + 1)"
  using cut_ascii [OF area_okD(1) [OF assms(1)] assms(3)] assms(2)
  by (auto simp: place_ok_def line_break_def is_inside_element_def outside_def holds_def covers_def)

lemma beginning_of_line_ok:
  assumes "area_ok ta" "p \<le> text_len ta"
  shows "place_ok ta (beginning_of_line ta p)" "beginning_of_line ta p \<le> p"
    "0 < beginning_of_line ta p \<Longrightarrow> place_ok ta (beginning_of_line ta p - 1)"
proof -
  have "place_ok ta (beginning_of_line ta p) \<and> beginning_of_line ta p \<le> p \<and>
    (0 < beginning_of_line ta p \<longrightarrow> place_ok ta (beginning_of_line ta p - 1))"
  proof (cases "List.find (line_break ta) (rev [0..<p])")
    case None
    then show ?thesis using place_ok_ends(1) [OF assms(1)] by (simp add: beginning_of_line_def)
  next
    case (Some i)
    then have "line_break ta i" "i < p" using find_SomeD [OF Some] by simp_all
    then show ?thesis using line_break_places [OF assms(1), of i] assms(2) Some by (simp add: beginning_of_line_def)
  qed
  then show "place_ok ta (beginning_of_line ta p)" "beginning_of_line ta p \<le> p"
    "0 < beginning_of_line ta p \<Longrightarrow> place_ok ta (beginning_of_line ta p - 1)" by blast+
qed

lemma end_of_line_ok:
  assumes "area_ok ta" "p \<le> text_len ta"
  shows "place_ok ta (end_of_line ta p)" "p \<le> end_of_line ta p"
    "end_of_line ta p < text_len ta \<Longrightarrow> place_ok ta (end_of_line ta p + 1)"
proof -
  have "place_ok ta (end_of_line ta p) \<and> p \<le> end_of_line ta p \<and>
    (end_of_line ta p < text_len ta \<longrightarrow> place_ok ta (end_of_line ta p + 1))"
  proof (cases "List.find (line_break ta) [p..<text_len ta]")
    case None
    then show ?thesis using place_ok_ends(2) [OF assms(1)] assms(2) by (simp add: end_of_line_def)
  next
    case (Some i)
    then have "line_break ta i" "p \<le> i" "i < text_len ta" using find_SomeD [OF Some] by simp_all
    then show ?thesis using line_break_places [OF assms(1), of i] Some by (simp add: end_of_line_def)
  qed
  then show "place_ok ta (end_of_line ta p)" "p \<le> end_of_line ta p"
    "end_of_line ta p < text_len ta \<Longrightarrow> place_ok ta (end_of_line ta p + 1)" by blast+
qed

lemma kill_step_ok:
  assumes "area_ok ta" "place_ok ta a" "place_ok ta b" "a \<le> b"
  shows "\<exists>ta'. kill_step a b ta = Some ta' \<and> area_ok ta'"
proof -
  have "area_ok (pre_mutate MK_Kill ta)" "range_ok (pre_mutate MK_Kill ta) a b"
    using assms(1) place_range_ok [OF assms(2-4)] by (simp_all add: range_ok_def)
  from kill_range_ok [OF this] show ?thesis by (auto simp: kill_step_def)
qed

lemma kills_ok:
  assumes "area_ok ta"
  shows "\<exists>ta'. kill_to_end_of_line ta = Some ta' \<and> area_ok ta'"
    "\<exists>ta'. kill_to_beginning_of_line ta = Some ta' \<and> area_ok ta'"
    "\<exists>ta'. kill_current_line ta = Some ta' \<and> area_ok ta'"
  using kill_step_ok [OF assms] assms place_ok_cursor [OF assms]
    beginning_of_line_ok [OF assms area_okD(7) [OF assms]] end_of_line_ok [OF assms area_okD(7) [OF assms]]
  by (auto simp: kill_to_end_of_line_def kill_to_beginning_of_line_def kill_current_line_def Let_def)

lemma word_kills_ok:
  assumes "unicode_ok U" "area_ok ta"
  shows "\<exists>ta'. delete_backward_word U ta = Some ta' \<and> area_ok ta'"
    "\<exists>ta'. delete_backward_unix_word U ta = Some ta' \<and> area_ok ta'"
    "\<exists>ta'. delete_forward_word U ta = Some ta' \<and> area_ok ta'"
  using kill_step_ok [OF assms(2)] place_ok_cursor [OF assms(2)] assms(2) beginning_of_previous_word_ok [OF assms]
    beginning_of_previous_unix_word_ok [OF assms] end_of_next_word_ok [OF assms]
  by (auto simp: delete_backward_word_def delete_backward_unix_word_def delete_forward_word_def)

lemma back_units_ok:
  assumes "unicode_ok U" "area_ok ta"
  shows "place_ok ta p \<Longrightarrow> 0 < p \<Longrightarrow> place_ok ta (back_units U ta n p) \<and> back_units U ta n p \<le> p"
proof (induction n arbitrary: p)
  case (Suc n)
  note pr = prev_atomic_ok [OF assms Suc.prems]
  show ?case
    using Suc.IH [OF pr(2)] pr place_ok_ends(1) [OF assms(2)] by (auto simp: Let_def)
qed simp

lemma forward_units_ok:
  assumes "unicode_ok U" "area_ok ta"
  shows "place_ok ta p \<Longrightarrow> p < text_len ta \<Longrightarrow> place_ok ta (forward_units U ta n p) \<and> p \<le> forward_units U ta n p"
proof (induction n arbitrary: p)
  case (Suc n)
  note pr = next_atomic_ok [OF assms Suc.prems]
  show ?case using Suc.IH [OF pr(2)] pr by (auto simp: Let_def)
qed simp

lemma motion_pre_mutate [simp]:
  "prev_atomic_boundary U (pre_mutate k ta) = prev_atomic_boundary U ta"
  "next_atomic_boundary U (pre_mutate k ta) = next_atomic_boundary U ta"
  by (intro ext, simp only: prev_atomic_boundary_def next_atomic_boundary_def pre_mutate_same)+

lemma units_pre_mutate [simp]:
  "back_units U (pre_mutate k ta) n p = back_units U ta n p"
  "forward_units U (pre_mutate k ta) n p = forward_units U ta n p"
  by (induction n arbitrary: p) (simp_all add: Let_def)

lemma delete_ok:
  assumes "unicode_ok U" "area_ok ta"
  shows "\<exists>ta'. delete_backward U n ta = Some ta' \<and> area_ok ta'" "\<exists>ta'. delete_forward U n ta = Some ta' \<and> area_ok ta'"
proof -
  have raw: "\<exists>ta'. (case expand_range_to_element_boundaries (ta_elements ta) a b of
      (a, b) \<Rightarrow> map_option (\<lambda>(ta', n). post_mutate ta') (replace_range_raw a b [] (pre_mutate MK_Delete ta))) = Some ta' \<and> area_ok ta'"
    if ab: "place_ok ta a" "place_ok ta b" "a \<le> b" for a b
  proof -
    obtain a' b' where e: "expand_range_to_element_boundaries (ta_elements ta) a b = (a', b')" by fastforce
    have ok: "area_ok (pre_mutate MK_Delete ta)" using assms(2) by simp
    note r = expanded_range [OF assms(2) place_range_ok [OF ab] e]
    show ?thesis using replace_range_raw_ok [OF ok valid_simps r(1)] r(2-4) e by auto
  qed
  show "\<exists>ta'. delete_backward U n ta = Some ta' \<and> area_ok ta'"
    using raw [of "back_units U ta n (cursor_pos ta)" "cursor_pos ta"] back_units_ok [OF assms, of "cursor_pos ta" n] assms(2)
    by (simp add: delete_backward_def Let_def)
  show "\<exists>ta'. delete_forward U n ta = Some ta' \<and> area_ok ta'"
    using raw [of "cursor_pos ta" "forward_units U ta n (cursor_pos ta)"] forward_units_ok [OF assms, of "cursor_pos ta" n] assms(2)
    by (simp add: delete_forward_def Let_def)
qed

lemma move_cursor_ok:
  assumes "unicode_ok U" "area_ok ta"
  shows "area_ok (move_cursor_left U ta)" "area_ok (move_cursor_right U ta)"
proof -
  have "place_ok ta (prev_atomic_boundary U ta (cursor_pos ta))"
    using prev_atomic_ok(2) [OF assms place_ok_cursor [OF assms(2)]] place_ok_ends(1) [OF assms(2)]
    by (cases "cursor_pos ta = 0") (simp_all add: prev_atomic_boundary_def)
  moreover have "place_ok ta (next_atomic_boundary U ta (cursor_pos ta))"
    using next_atomic_ok(2) [OF assms place_ok_cursor [OF assms(2)]] place_ok_ends(2) [OF assms(2)]
    by (cases "text_len ta \<le> cursor_pos ta") (simp_all add: next_atomic_boundary_def)
  ultimately show "area_ok (move_cursor_left U ta)" "area_ok (move_cursor_right U ta)"
    using place_ok_area [OF assms(2)] by (simp_all add: move_cursor_left_def move_cursor_right_def area_ok_def)
qed

end
