(* ===== verification/Text_Wrap.thy ===== *)
theory Text_Wrap
  imports Text_Motion
begin

text \<open>
  The visual lines of the text area (\<open>xai-ratatui-textarea/src/textarea.rs\<close>): display widths, wrapping with
  elements as units, the map from a column to a position, vertical movement, Home and End on visual rows,
  and the scroll offset. Column and row counts of type \<open>u16\<close> are natural numbers, with the cast of a larger
  number written as a remainder.
\<close>

section \<open>Widths\<close>

definition grapheme_display_width :: "Unicode \<Rightarrow> TextArea \<Rightarrow> bytes \<Rightarrow> nat" where
  "grapheme_display_width U ta g = (if g = [9] then tab_width ta else str_width U g)"

definition plain_display_width :: "Unicode \<Rightarrow> TextArea \<Rightarrow> bytes \<Rightarrow> nat" where
  "plain_display_width U ta t =
     (if tab_width ta = 0 \<or> 9 \<notin> set t then str_width U t
      else sum_list (map (grapheme_display_width U ta) (graphemes U t)))"

definition display_w :: "Unicode \<Rightarrow> bytes list \<Rightarrow> nat" where
  "display_w U spans = sum_list (map (str_width U) spans)"

definition slice_width :: "Unicode \<Rightarrow> TextArea \<Rightarrow> nat \<Rightarrow> nat \<Rightarrow> nat option" where
  "slice_width U ta a b = map_option (plain_display_width U ta) (str_slice a b (ta_text ta))"

fun width_elements :: "Unicode \<Rightarrow> TextArea \<Rightarrow> nat \<Rightarrow> TextElement list \<Rightarrow> nat \<Rightarrow> nat \<Rightarrow> (nat \<times> nat) option" where
  "width_elements U ta to [] pos width = Some (pos, width)"
| "width_elements U ta to (e # es) pos width =
     (if to \<le> el_start e then Some (pos, width)
      else if el_end e \<le> pos then width_elements U ta to es pos width
      else do {
        (pos, width) \<leftarrow>
          (if pos < el_start e then map_option (\<lambda>w. (min (el_start e) to, width + w)) (slice_width U ta pos (min (el_start e) to))
           else Some (pos, width));
        if to \<le> pos then Some (pos, width)
        else
          let a = max (el_start e) pos; b = min (el_end e) to
          in if a < b then do {
               w \<leftarrow> (case el_display e of
                      Some d \<Rightarrow> if a = el_start e then Some (display_w U d) else slice_width U ta a b
                    | None \<Rightarrow> slice_width U ta a b);
               width_elements U ta to es b (width + w)
             }
             else width_elements U ta to es pos width
      })"

definition display_width_of_range :: "Unicode \<Rightarrow> TextArea \<Rightarrow> nat \<Rightarrow> nat \<Rightarrow> nat option" where
  "display_width_of_range U ta from to =
     (if to \<le> from then Some 0
      else do {
        (pos, width) \<leftarrow> width_elements U ta to (ta_elements ta) from 0;
        if pos < to then map_option (\<lambda>w. width + w) (slice_width U ta pos to) else Some width
      })"

section \<open>Wrapping\<close>

partial_function (option) next_logical_newline :: "TextArea \<Rightarrow> nat \<Rightarrow> nat option" where
  "next_logical_newline ta pos =
     (if text_len ta \<le> pos then Some (text_len ta)
      else case List.find (covers pos) (ta_elements ta) of
             Some e \<Rightarrow> next_logical_newline ta (el_end e)
           | None \<Rightarrow> if ta_text ta ! pos = 10 then Some pos else next_logical_newline ta (pos + 1))"

text \<open>The inner loop that drops the blanks a new visual line would begin with.\<close>

function skip_blanks :: "bytes \<Rightarrow> nat \<Rightarrow> nat \<Rightarrow> nat \<Rightarrow> nat" where
  "skip_blanks t stop pos line_start =
     (if line_start < stop \<and> line_start < pos \<and> line_start < length t \<and> t ! line_start \<in> {32, 9}
      then skip_blanks t stop pos (line_start + 1) else line_start)"
  by auto
termination by (relation "measure (\<lambda>(t, stop, pos, ls). stop - ls)") auto

declare skip_blanks.simps [simp del]

definition break_point :: "nat option \<Rightarrow> nat \<Rightarrow> nat" where
  "break_point last_break pos = (case last_break of Some b \<Rightarrow> b | None \<Rightarrow> pos)"

partial_function (option) wrap_loop ::
  "Unicode \<Rightarrow> TextArea \<Rightarrow> nat \<Rightarrow> nat \<Rightarrow> nat \<Rightarrow> nat \<Rightarrow> nat \<Rightarrow> nat option \<Rightarrow> (nat \<times> nat) list
     \<Rightarrow> (nat \<times> nat) list option" where
  "wrap_loop U ta stop width line_start pos dw last_break acc =
     (if stop \<le> pos then Some (acc @ [(line_start, stop)])
      else
        case List.find (\<lambda>e. pos = el_start e \<and> el_start e < el_end e) (ta_elements ta) of
          Some e \<Rightarrow>
            let elem_end = min (el_end e) stop
            in do {
                 elem_dw \<leftarrow> (case el_display e of
                               Some d \<Rightarrow> Some (display_w U d)
                             | None \<Rightarrow> slice_width U ta (el_start e) elem_end);
                 if 0 < dw \<and> width < dw + elem_dw then
                   let break_at = break_point last_break pos; ls = skip_blanks (ta_text ta) stop pos break_at
                   in wrap_loop U ta stop width ls ls 0 None (acc @ [(line_start, break_at)])
                 else wrap_loop U ta stop width line_start elem_end (dw + elem_dw) (Some elem_end) acc
               }
        | None \<Rightarrow>
            do {
              slice \<leftarrow> str_slice pos stop (ta_text ta);
              case graphemes U slice of
                [] \<Rightarrow> Some (acc @ [(line_start, stop)])
              | g # _ \<Rightarrow>
                  let gw = grapheme_display_width U ta g
                  in if width < dw + gw \<and> 0 < dw then
                       let break_at = break_point last_break pos; ls = skip_blanks (ta_text ta) stop pos break_at
                       in do {
                            dw' \<leftarrow> display_width_of_range U ta ls pos;
                            if ls = pos then wrap_loop U ta stop width ls (pos + length g) gw None (acc @ [(line_start, break_at)])
                            else wrap_loop U ta stop width ls pos dw' None (acc @ [(line_start, break_at)])
                          }
                     else wrap_loop U ta stop width line_start (pos + length g) (dw + gw)
                            (if g = [32] \<or> g = [9] then Some (pos + length g) else last_break) acc
            })"

definition greedy_wrap_segment ::
  "Unicode \<Rightarrow> TextArea \<Rightarrow> nat \<Rightarrow> nat \<Rightarrow> nat \<Rightarrow> (nat \<times> nat) list \<Rightarrow> (nat \<times> nat) list option" where
  "greedy_wrap_segment U ta start stop width acc =
     (if stop \<le> start then Some (acc @ [(start, stop)]) else wrap_loop U ta stop width start start 0 None acc)"

partial_function (option) segments_loop ::
  "Unicode \<Rightarrow> TextArea \<Rightarrow> nat \<Rightarrow> nat \<Rightarrow> (nat \<times> nat) list \<Rightarrow> (nat \<times> nat) list option" where
  "segments_loop U ta width seg_start acc =
     do {
       seg_end \<leftarrow> next_logical_newline ta seg_start;
       acc' \<leftarrow> greedy_wrap_segment U ta seg_start seg_end width acc;
       if text_len ta \<le> seg_end then Some acc' else segments_loop U ta width (seg_end + 1) acc'
     }"

definition element_aware_wrap_ranges :: "Unicode \<Rightarrow> TextArea \<Rightarrow> nat \<Rightarrow> (nat \<times> nat) list option" where
  "element_aware_wrap_ranges U ta width0 =
     map_option (\<lambda>result. if result = [] then [(0, 0)] else result) (segments_loop U ta (max width0 1) 0 [])"

text \<open>\<open>wrap_ranges\<close> of \<open>wrapping.rs\<close>: trailing spaces are given back to their line.\<close>

fun wrap_slices :: "bytes \<Rightarrow> (nat \<times> nat) option list \<Rightarrow> (nat \<times> nat) list option" where
  "wrap_slices t [] = Some []"
| "wrap_slices t (None # ls) = wrap_slices t ls"
| "wrap_slices t (Some (a, b) # ls) =
     do {
       rest \<leftarrow> str_slice b (length t) t;
       r \<leftarrow> wrap_slices t ls;
       Some ((a, b + length (takeWhile (\<lambda>c. c = 32) (str_chars rest))) # r)
     }"

definition wrap_ranges :: "Unicode \<Rightarrow> bytes \<Rightarrow> nat \<Rightarrow> (nat \<times> nat) list option" where
  "wrap_ranges U t width = wrap_slices t (soft_lines U t width)"

definition wrapped_lines :: "Unicode \<Rightarrow> nat \<Rightarrow> TextArea \<Rightarrow> (TextArea \<times> (nat \<times> nat) list) option" where
  "wrapped_lines U width0 ta =
     (let width = max width0 1
      in case wrap_cache ta of
           Some (w, lines) \<Rightarrow>
             if w = width then Some (ta, lines)
             else map_option (\<lambda>ls. (ta\<lparr>wrap_cache := Some (width, ls)\<rparr>, ls))
                    (if \<exists>e \<in> set (ta_elements ta). el_display e \<noteq> None then element_aware_wrap_ranges U ta width
                     else wrap_ranges U (ta_text ta) width)
         | None \<Rightarrow>
             map_option (\<lambda>ls. (ta\<lparr>wrap_cache := Some (width, ls)\<rparr>, ls))
               (if \<exists>e \<in> set (ta_elements ta). el_display e \<noteq> None then element_aware_wrap_ranges U ta width
                else wrap_ranges U (ta_text ta) width))"

section \<open>Rows and scrolling\<close>

text \<open>\<open>partition_point\<close> on lines in the order of their starts.\<close>

definition wrapped_line_index_by_start :: "(nat \<times> nat) list \<Rightarrow> nat \<Rightarrow> nat option" where
  "wrapped_line_index_by_start lines pos =
     (let idx = length (takeWhile (\<lambda>r. fst r \<le> pos) lines) in if idx = 0 then None else Some (idx - 1))"

definition as_u16 :: "nat \<Rightarrow> nat" where "as_u16 n = n mod 65536"

definition effective_scroll :: "TextArea \<Rightarrow> nat \<Rightarrow> (nat \<times> nat) list \<Rightarrow> nat \<Rightarrow> nat" where
  "effective_scroll ta area_height lines current_scroll =
     (let total_lines = as_u16 (length lines)
      in if total_lines \<le> area_height then 0
         else
           let max_scroll = total_lines - area_height
           in case scroll_override ta of
                Some ovr \<Rightarrow> min ovr max_scroll
              | None \<Rightarrow>
                  let cursor_line_idx =
                        as_u16 (case wrapped_line_index_by_start lines (cursor_pos ta) of Some i \<Rightarrow> i | None \<Rightarrow> 0);
                      scroll = min current_scroll max_scroll
                  in if cursor_line_idx < scroll then cursor_line_idx
                     else if scroll + area_height \<le> cursor_line_idx then cursor_line_idx + 1 - area_height
                     else scroll)"

section \<open>Columns and vertical movement\<close>

partial_function (option) col_loop ::
  "Unicode \<Rightarrow> TextArea \<Rightarrow> nat \<Rightarrow> nat \<Rightarrow> nat \<Rightarrow> nat \<Rightarrow> (nat \<times> bool) option" where
  "col_loop U ta line_end target_col width pos =
     (if line_end \<le> pos then Some (clamp_pos_to_nearest_boundary (text_len ta) (ta_elements ta) line_end, False)
      else
        case List.find (covers pos) (ta_elements ta) of
          Some e \<Rightarrow>
            let elem_line_end = min (el_end e) line_end
            in if pos = el_start e then
                 do {
                   ew \<leftarrow> (case el_display e of
                            Some d \<Rightarrow> Some (display_w U d)
                          | None \<Rightarrow> slice_width U ta (el_start e) elem_line_end);
                   if target_col < width + ew then
                     let dist_start = target_col - width; dist_end = ew - dist_start
                     in Some (if dist_start \<le> dist_end then el_start e else el_end e, True)
                   else col_loop U ta line_end target_col (width + ew) elem_line_end
                 }
               else
                 do {
                   pw \<leftarrow> slice_width U ta pos elem_line_end;
                   if target_col < width + pw then Some (el_end e, True)
                   else col_loop U ta line_end target_col (width + pw) elem_line_end
                 }
        | None \<Rightarrow>
            do {
              slice \<leftarrow> str_slice pos line_end (ta_text ta);
              case graphemes U slice of
                [] \<Rightarrow> Some (clamp_pos_to_nearest_boundary (text_len ta) (ta_elements ta) line_end, False)
              | g # _ \<Rightarrow>
                  let width' = width + grapheme_display_width U ta g
                  in if target_col < width' then
                       Some (clamp_pos_to_nearest_boundary (text_len ta) (ta_elements ta) pos, False)
                     else col_loop U ta line_end target_col width' (pos + length g)
            })"

definition display_col_to_buffer_pos :: "Unicode \<Rightarrow> TextArea \<Rightarrow> nat \<Rightarrow> nat \<Rightarrow> nat \<Rightarrow> (nat \<times> bool) option" where
  "display_col_to_buffer_pos U ta line_start line_end target_col = col_loop U ta line_end target_col 0 line_start"

definition move_to_display_col_on_line :: "Unicode \<Rightarrow> nat \<Rightarrow> nat \<Rightarrow> nat \<Rightarrow> TextArea \<Rightarrow> TextArea option" where
  "move_to_display_col_on_line U line_start line_end target_col ta =
     map_option (\<lambda>(p, hit). ta\<lparr>cursor_pos := p\<rparr>) (display_col_to_buffer_pos U ta line_start line_end target_col)"

text \<open>The target column, and the range of the row to move to when there is one, from the cached rows.\<close>

definition cached_row :: "Unicode \<Rightarrow> TextArea \<Rightarrow> (nat \<Rightarrow> nat option) \<Rightarrow> (nat \<times> (nat \<times> nat) option) option option" where
  "cached_row U ta step =
     (case wrap_cache ta of
        None \<Rightarrow> Some None
      | Some (w, lines) \<Rightarrow>
          (case wrapped_line_index_by_start lines (cursor_pos ta) of
             None \<Rightarrow> Some None
           | Some idx \<Rightarrow>
               do {
                 target_col \<leftarrow> (case preferred_col ta of
                                  Some c \<Rightarrow> Some c
                                | None \<Rightarrow> display_width_of_range U ta (fst (lines ! idx)) (cursor_pos ta));
                 Some (Some (target_col,
                   case step idx of Some j \<Rightarrow> if j < length lines then Some (lines ! j) else None | None \<Rightarrow> None))
               }))"

definition keep_col :: "nat \<Rightarrow> TextArea \<Rightarrow> TextArea" where
  "keep_col c ta = (if preferred_col ta = None then ta\<lparr>preferred_col := Some c\<rparr> else ta)"

text \<open>\<open>text[p..].find('\n')\<close> as a position of the text, and \<open>text[..p].rfind('\n')\<close>.\<close>

definition find_newline :: "bytes \<Rightarrow> nat \<Rightarrow> nat option option" where
  "find_newline t p = map_option (\<lambda>_. List.find (\<lambda>i. t ! i = 10) [p..<length t]) (str_slice p (length t) t)"

definition rfind_newline :: "bytes \<Rightarrow> nat \<Rightarrow> nat option option" where
  "rfind_newline t p = map_option (\<lambda>_. List.find (\<lambda>i. t ! i = 10) (rev [0..<p])) (str_slice 0 p t)"

definition current_display_col :: "Unicode \<Rightarrow> TextArea \<Rightarrow> nat option" where
  "current_display_col U ta = display_width_of_range U ta (beginning_of_line ta (cursor_pos ta)) (cursor_pos ta)"

definition target_column :: "Unicode \<Rightarrow> TextArea \<Rightarrow> nat option" where
  "target_column U ta = (case preferred_col ta of Some c \<Rightarrow> Some c | None \<Rightarrow> current_display_col U ta)"

definition move_cursor_up :: "Unicode \<Rightarrow> TextArea \<Rightarrow> TextArea option" where
  "move_cursor_up U ta0 =
     (let ta = ta0\<lparr>scroll_override := None\<rparr>
      in do {
           row \<leftarrow> cached_row U ta (\<lambda>idx. if 0 < idx then Some (idx - 1) else None);
           case row of
             Some (target_col, Some (a, b)) \<Rightarrow> move_to_display_col_on_line U a b target_col (keep_col target_col ta)
           | Some (target_col, None) \<Rightarrow> Some (ta\<lparr>cursor_pos := 0, preferred_col := None\<rparr>)
           | None \<Rightarrow>
               do {
                 nl \<leftarrow> rfind_newline (ta_text ta) (cursor_pos ta);
                 case nl of
                   None \<Rightarrow> Some (ta\<lparr>cursor_pos := 0, preferred_col := None\<rparr>)
                 | Some prev_nl \<Rightarrow>
                     do {
                       c \<leftarrow> target_column U ta;
                       nl' \<leftarrow> rfind_newline (ta_text ta) prev_nl;
                       move_to_display_col_on_line U (case nl' of Some i \<Rightarrow> i + 1 | None \<Rightarrow> 0) prev_nl c (keep_col c ta)
                     }
               }
         })"

definition move_cursor_down :: "Unicode \<Rightarrow> TextArea \<Rightarrow> TextArea option" where
  "move_cursor_down U ta0 =
     (let ta = ta0\<lparr>scroll_override := None\<rparr>
      in do {
           row \<leftarrow> cached_row U ta (\<lambda>idx. Some (idx + 1));
           case row of
             Some (target_col, Some (a, b)) \<Rightarrow> move_to_display_col_on_line U a b target_col (keep_col target_col ta)
           | Some (target_col, None) \<Rightarrow> Some (ta\<lparr>cursor_pos := text_len ta, preferred_col := None\<rparr>)
           | None \<Rightarrow>
               do {
                 c \<leftarrow> target_column U ta;
                 nl \<leftarrow> find_newline (ta_text ta) (cursor_pos ta);
                 case nl of
                   None \<Rightarrow> Some (ta\<lparr>cursor_pos := text_len ta, preferred_col := None\<rparr>)
                 | Some next_nl \<Rightarrow>
                     do {
                       nl' \<leftarrow> find_newline (ta_text ta) (next_nl + 1);
                       move_to_display_col_on_line U (next_nl + 1) (case nl' of Some i \<Rightarrow> i | None \<Rightarrow> text_len ta) c
                         (keep_col c ta)
                     }
               }
         })"

section \<open>Home and End\<close>

definition last_char_start :: "bytes \<Rightarrow> nat" where
  "last_char_start s = (case rev (str_chars s) of [] \<Rightarrow> 0 | c # r \<Rightarrow> length (utf8 (rev r)))"

definition clamp_to_line :: "TextArea \<Rightarrow> nat \<Rightarrow> nat \<Rightarrow> nat \<Rightarrow> nat option" where
  "clamp_to_line ta pos line_start line_end =
     (if line_start < line_end then
        map_option (\<lambda>s. min pos (line_start + last_char_start s)) (str_slice line_start line_end (ta_text ta))
      else Some line_start)"

definition beginning_of_current_visual_line :: "TextArea \<Rightarrow> nat option" where
  "beginning_of_current_visual_line ta =
     (case wrap_cache ta of
        None \<Rightarrow> None
      | Some (w, lines) \<Rightarrow> map_option (\<lambda>i. fst (lines ! i)) (wrapped_line_index_by_start lines (cursor_pos ta)))"

definition end_of_current_visual_line :: "TextArea \<Rightarrow> nat option option" where
  "end_of_current_visual_line ta =
     (case wrap_cache ta of
        None \<Rightarrow> Some None
      | Some (w, lines) \<Rightarrow>
          (case wrapped_line_index_by_start lines (cursor_pos ta) of
             None \<Rightarrow> Some None
           | Some idx \<Rightarrow>
               let (a, b) = lines ! idx; stop = min b (text_len ta);
                   soft_continued = (idx + 1 < length lines \<and> fst (lines ! (idx + 1)) = stop)
               in if soft_continued \<and> a < stop then map_option Some (clamp_to_line ta stop a stop)
                  else Some (Some stop)))"

definition move_cursor_to_beginning_of_line :: "bool \<Rightarrow> TextArea \<Rightarrow> TextArea" where
  "move_cursor_to_beginning_of_line move_up_at_bol ta =
     (let logical =
        (let bol = beginning_of_line ta (cursor_pos ta)
         in if move_up_at_bol \<and> cursor_pos ta = bol then set_cursor (beginning_of_line ta (cursor_pos ta - 1)) ta
            else set_cursor bol ta)
      in if move_up_at_bol then logical
         else case beginning_of_current_visual_line ta of Some bol \<Rightarrow> set_cursor bol ta | None \<Rightarrow> logical)"

definition move_cursor_to_end_of_line :: "bool \<Rightarrow> TextArea \<Rightarrow> TextArea option" where
  "move_cursor_to_end_of_line move_down_at_eol ta =
     (let logical =
        (let eol = end_of_line ta (cursor_pos ta)
         in if move_down_at_eol \<and> cursor_pos ta = eol
            then set_cursor (end_of_line ta (min (cursor_pos ta + 1) (text_len ta))) ta
            else set_cursor eol ta)
      in if move_down_at_eol then Some logical
         else map_option (\<lambda>v. case v of Some eol \<Rightarrow> set_cursor eol ta | None \<Rightarrow> logical)
                (end_of_current_visual_line ta))"

section \<open>Measuring never fails\<close>

lemma slice_between:
  assumes "cut t a" "cut t b" "a \<le> b"
  shows "str_slice a b t = Some (take (b - a) (drop a t))" "valid (take (b - a) (drop a t))"
  using boundary_cut [OF cut_valid [OF assms(1)]] assms valid_between [OF assms] by (simp_all add: str_slice_def)

lemma slice_width_ok: "cut (ta_text ta) a \<Longrightarrow> cut (ta_text ta) b \<Longrightarrow> a \<le> b \<Longrightarrow> \<exists>w. slice_width U ta a b = Some w"
  by (simp add: slice_width_def slice_between)

lemma min_cut: "cut t a \<Longrightarrow> cut t b \<Longrightarrow> cut t (min a b)" "cut t a \<Longrightarrow> cut t b \<Longrightarrow> cut t (max a b)"
  by (simp_all add: min_def max_def)

lemma width_elements_ok:
  assumes "\<forall>e \<in> set es. cut (ta_text ta) (el_start e) \<and> cut (ta_text ta) (el_end e)" "cut (ta_text ta) to"
  shows "cut (ta_text ta) pos \<Longrightarrow> pos \<le> to \<Longrightarrow>
    \<exists>p w. width_elements U ta to es pos width = Some (p, w) \<and> cut (ta_text ta) p \<and> p \<le> to"
  using assms(1)
proof (induction es arbitrary: pos width)
  case (Cons e es)
  have e: "cut (ta_text ta) (el_start e)" "cut (ta_text ta) (el_end e)" using Cons.prems(3) by simp_all
  have IH: "\<exists>p w. width_elements U ta to es q v = Some (p, w) \<and> cut (ta_text ta) p \<and> p \<le> to"
    if "cut (ta_text ta) q" "q \<le> to" for q v
    using Cons.IH [OF that] Cons.prems(3) by simp
  show ?case
  proof (cases "to \<le> el_start e \<or> el_end e \<le> pos")
    case True
    then show ?thesis using Cons.prems IH by auto
  next
    case False
    define q where "q = (if pos < el_start e then min (el_start e) to else pos)"
    have q: "cut (ta_text ta) q" "q \<le> to" using Cons.prems e assms(2) by (simp_all add: q_def min_cut)
    obtain v where v: "(if pos < el_start e then map_option (\<lambda>w. (min (el_start e) to, width + w)) (slice_width U ta pos (min (el_start e) to))
        else Some (pos, width)) = Some (q, v)"
    proof (cases "pos < el_start e")
      case True
      then obtain w where "slice_width U ta pos (min (el_start e) to) = Some w"
        using slice_width_ok [of ta pos "min (el_start e) to" U] Cons.prems(1,2) min_cut(1) [OF e(1) assms(2)] by auto
      then show ?thesis using that [of "width + w"] True by (simp add: q_def)
    next
      case no: False
      then show ?thesis using that [of width] by (simp add: q_def)
    qed
    let ?a = "max (el_start e) q" and ?b = "min (el_end e) to"
    have ab: "cut (ta_text ta) ?a" "cut (ta_text ta) ?b" using q e assms(2) by (simp_all add: min_cut)
    have w: "\<exists>w. (case el_display e of Some d \<Rightarrow> if ?a = el_start e then Some (display_w U d) else slice_width U ta ?a ?b
        | None \<Rightarrow> slice_width U ta ?a ?b) = Some w" if "?a < ?b"
      using slice_width_ok [OF ab less_imp_le [OF that], of U] by (auto split: option.splits)
    have step: "width_elements U ta to (e # es) pos width =
        (if to \<le> q then Some (q, v)
         else if ?a < ?b then do {
           w \<leftarrow> (case el_display e of Some d \<Rightarrow> if ?a = el_start e then Some (display_w U d) else slice_width U ta ?a ?b
               | None \<Rightarrow> slice_width U ta ?a ?b);
           width_elements U ta to es ?b (v + w) }
         else width_elements U ta to es q v)"
      using False v by (simp add: Let_def)
    show ?thesis
    proof (cases "?a < ?b")
      case True
      then obtain w where "(case el_display e of Some d \<Rightarrow> if ?a = el_start e then Some (display_w U d) else slice_width U ta ?a ?b
          | None \<Rightarrow> slice_width U ta ?a ?b) = Some w" using w by blast
      then show ?thesis unfolding step using True q IH [OF ab(2), of "v + w"] by simp
    next
      case False
      then show ?thesis unfolding step using q IH [OF q, of v] by (simp del: max_less_iff_conj min_less_iff_conj)
    qed
  qed
qed simp

lemma display_width_ok:
  assumes "area_ok ta" "cut (ta_text ta) a" "cut (ta_text ta) b"
  shows "\<exists>w. display_width_of_range U ta a b = Some w"
proof (cases "b \<le> a")
  case False
  have "\<forall>e \<in> set (ta_elements ta). cut (ta_text ta) (el_start e) \<and> cut (ta_text ta) (el_end e)"
    using elements_okD(2,3) [OF area_okD(4) [OF assms(1)]] by blast
  from width_elements_ok [OF this assms(3,2), of U 0] False obtain p w where
    "width_elements U ta b (ta_elements ta) a 0 = Some (p, w)" "cut (ta_text ta) p" "p \<le> b" by auto
  then show ?thesis using slice_width_ok [of ta p b U] assms(3) False by (auto simp: display_width_of_range_def)
qed (simp add: display_width_of_range_def)

section \<open>Columns\<close>

lemma prefix_cut:
  assumes "cut t a" "cut t b" "a \<le> b" "x @ y = take (b - a) (drop a t)" "valid x"
  shows "a + length x \<le> b" "cut t (a + length x)" "take (length x) (drop a t) = x"
proof -
  have len: "b \<le> length t" using cut_le [OF assms(2)] .
  have "length x + length y = b - a" using arg_cong [OF assms(4), of length] len by simp
  then show le: "a + length x \<le> b" using assms(3) by linarith
  have "take (length x) (x @ y) = take (length x) (drop a t)"
    unfolding assms(4) using \<open>length x + length y = b - a\<close> by simp
  then show tk: "take (length x) (drop a t) = x" by simp
  have "take (a + length x) t = take a t @ x" using tk by (simp add: take_add)
  then have 1: "valid (take (a + length x) t)" using assms(1,5) by (simp add: cut_def valid_append)
  have "x @ drop (a + length x) t = drop a t"
    using append_take_drop_id [of "length x" "drop a t"] unfolding tk by (simp add: add.commute)
  then have "valid (drop (a + length x) t)" using assms(1,5) valid_cancel [of x] by (simp add: cut_def)
  with 1 show "cut t (a + length x)" using le len by (simp add: cut_def)
qed

lemma first_grapheme:
  assumes "unicode_ok U" "cut t a" "cut t b" "a < b"
  obtains g gs where "graphemes U (take (b - a) (drop a t)) = g # gs" "g \<noteq> []" "a + length g \<le> b" "cut t (a + length g)"
    "take (length g) (drop a t) = g"
proof -
  let ?s = "take (b - a) (drop a t)"
  have "valid ?s" using valid_between [OF assms(2,3)] assms(4) by simp
  then have g: "concat (graphemes U ?s) = ?s" "\<forall>g \<in> set (graphemes U ?s). g \<noteq> [] \<and> valid g"
    using assms(1) unfolding unicode_ok_def by blast+
  have "?s \<noteq> []" using assms(4) cut_le [OF assms(3)] by simp
  then obtain x xs where x: "graphemes U ?s = x # xs" using g(1) by (metis concat.simps(1) neq_Nil_conv)
  have eq: "x @ concat xs = ?s" using g(1) unfolding x by simp
  have v: "x \<noteq> []" "valid x" using g(2) unfolding x by simp_all
  show ?thesis using that [OF x v(1)] prefix_cut [OF assms(2,3) less_imp_le [OF assms(4)] eq v(2)] by blast
qed

lemma clamp_place:
  assumes "area_ok ta" "cut (ta_text ta) p"
  shows "place_ok ta (clamp_pos_to_nearest_boundary (text_len ta) (ta_elements ta) p)"
  using clamp_boundary_ok [OF area_okD(4) [OF assms(1)], of p] cut_le [OF assms(2)] assms(2)
  by (simp add: place_ok_def min_absorb1)

lemma col_loop_element:
  assumes "\<not> line_end \<le> pos" "List.find (covers pos) (ta_elements ta) = Some e"
    "slice_width U ta pos (min (el_end e) line_end) = Some v"
    "(case el_display e of Some d \<Rightarrow> Some (display_w U d) | None \<Rightarrow> slice_width U ta (el_start e) (min (el_end e) line_end)) = Some u"
  shows "\<exists>q x. col_loop U ta line_end target width pos =
    (if q then Some (if x then el_start e else el_end e, True)
     else col_loop U ta line_end target (width + (if pos = el_start e then u else v)) (min (el_end e) line_end))"
proof (cases "pos = el_start e")
  case True
  then have "col_loop U ta line_end target width pos =
      (if target < width + u
       then Some (if target - width \<le> u - (target - width) then el_start e else el_end e, True)
       else col_loop U ta line_end target (width + u) (min (el_end e) line_end))"
    by (subst col_loop.simps) (use assms in \<open>simp add: Let_def\<close>)
  with True show ?thesis
    by (rule_tac exI [of _ "target < width + u"], rule_tac exI [of _ "target - width \<le> u - (target - width)"], simp)
next
  case False
  then have "col_loop U ta line_end target width pos =
      (if target < width + v then Some (el_end e, True)
       else col_loop U ta line_end target (width + v) (min (el_end e) line_end))"
    by (subst col_loop.simps) (use assms in \<open>simp add: Let_def\<close>)
  with False show ?thesis
    by (rule_tac exI [of _ "target < width + v"], rule_tac exI [of _ False], simp)
qed

lemma col_loop_plain:
  assumes "\<not> line_end \<le> pos" "List.find (covers pos) (ta_elements ta) = None"
    "str_slice pos line_end (ta_text ta) = Some s" "graphemes U s = g # gs"
  shows "col_loop U ta line_end target width pos =
    (if target < width + grapheme_display_width U ta g
     then Some (clamp_pos_to_nearest_boundary (text_len ta) (ta_elements ta) pos, False)
     else col_loop U ta line_end target (width + grapheme_display_width U ta g) (pos + length g))"
  by (subst col_loop.simps) (use assms in \<open>simp add: Let_def\<close>)

lemma col_loop_ok:
  assumes U: "unicode_ok U" and ok: "area_ok ta" and stop: "cut (ta_text ta) line_end"
  shows "cut (ta_text ta) pos \<Longrightarrow> \<exists>p h. col_loop U ta line_end target width pos = Some (p, h) \<and> place_ok ta p"
proof (induction "line_end - pos" arbitrary: pos width rule: less_induct)
  case less
  show ?case
  proof (cases "line_end \<le> pos")
    case True
    then show ?thesis using clamp_place [OF ok stop] by (auto simp: col_loop.simps)
  next
    case False
    show ?thesis
    proof (cases "List.find (covers pos) (ta_elements ta)")
      case (Some e)
      have e: "e \<in> set (ta_elements ta)" "el_start e \<le> pos" "pos < el_end e"
        using find_SomeD [OF Some] by (simp_all add: covers_def)
      let ?m = "min (el_end e) line_end"
      have m: "cut (ta_text ta) ?m" "pos < ?m" "el_start e \<le> ?m"
        using min_cut(1) [OF elements_okD(3) [OF area_okD(4) [OF ok] e(1)] stop] e(2,3) False by linarith+
      obtain v where v: "slice_width U ta pos ?m = Some v"
        using slice_width_ok [OF less.prems m(1) less_imp_le [OF m(2)]] by blast
      obtain w where "slice_width U ta (el_start e) ?m = Some w"
        using slice_width_ok [OF elements_okD(2) [OF area_okD(4) [OF ok] e(1)] m(1,3)] by blast
      then obtain u where u: "(case el_display e of Some d \<Rightarrow> Some (display_w U d) | None \<Rightarrow> slice_width U ta (el_start e) ?m) = Some u"
        by (cases "el_display e") simp_all
      obtain q x where step: "col_loop U ta line_end target width pos =
          (if q then Some (if x then el_start e else el_end e, True)
           else col_loop U ta line_end target (width + (if pos = el_start e then u else v)) ?m)"
        using col_loop_element [OF False Some v u] by blast
      have less_m: "line_end - ?m < line_end - pos" using m(2) False by linarith
      obtain p h where "col_loop U ta line_end target (width + (if pos = el_start e then u else v)) ?m = Some (p, h)" "place_ok ta p"
        using less.hyps [OF less_m m(1)] by blast
      then show ?thesis using step place_ok_edges [OF ok e(1)] by (cases q; cases x) auto
    next
      case None
      obtain g gs where g: "graphemes U (take (line_end - pos) (drop pos (ta_text ta))) = g # gs" "g \<noteq> []"
          "pos + length g \<le> line_end" "cut (ta_text ta) (pos + length g)"
        using first_grapheme [OF U less.prems stop not_le_imp_less [OF False]] by blast
      have sl: "str_slice pos line_end (ta_text ta) = Some (take (line_end - pos) (drop pos (ta_text ta)))"
        using slice_between(1) [OF less.prems stop] False by simp
      note step = col_loop_plain [OF False None sl g(1), of target width]
      have "0 < length g" using g(2) by simp
      then have less_g: "line_end - (pos + length g) < line_end - pos" using False by linarith
      obtain p h where "col_loop U ta line_end target (width + grapheme_display_width U ta g) (pos + length g) = Some (p, h)"
          "place_ok ta p"
        using less.hyps [OF less_g g(4)] by blast
      then show ?thesis
        using step clamp_place [OF ok less.prems] by (cases "target < width + grapheme_display_width U ta g") auto
    qed
  qed
qed

section \<open>Vertical movement on a well-formed area\<close>

lemma area_ok_keep_col [simp]: "area_ok (keep_col c ta) = area_ok ta"
  by (simp add: keep_col_def)

lemma keep_col_same [simp]:
  "ta_text (keep_col c ta) = ta_text ta" "ta_elements (keep_col c ta) = ta_elements ta"
  "cursor_pos (keep_col c ta) = cursor_pos ta" "tab_width (keep_col c ta) = tab_width ta"
  by (simp_all add: keep_col_def)

lemma move_to_col_ok:
  assumes "unicode_ok U" "area_ok ta" "cut (ta_text ta) a" "cut (ta_text ta) b"
  shows "\<exists>ta'. move_to_display_col_on_line U a b c ta = Some ta' \<and> area_ok ta'"
  using col_loop_ok [OF assms(1,2,4,3), of c 0] place_ok_area [OF assms(2)]
  by (auto simp: move_to_display_col_on_line_def display_col_to_buffer_pos_def)

lemma row_index:
  "wrapped_line_index_by_start lines p = Some i \<Longrightarrow> i < length lines \<and> fst (lines ! i) \<le> p"
proof -
  assume i: "wrapped_line_index_by_start lines p = Some i"
  let ?k = "length (takeWhile (\<lambda>r. fst r \<le> p) lines)"
  have k: "?k \<noteq> 0" "i = ?k - 1" using i by (auto simp: wrapped_line_index_by_start_def Let_def split: if_splits)
  then have "i < ?k" by simp
  moreover have "?k \<le> length lines" by (rule length_takeWhile_le)
  ultimately show ?thesis
    using nth_mem [of i "takeWhile (\<lambda>r. fst r \<le> p) lines"] set_takeWhileD takeWhile_nth by fastforce
qed

lemma cache_line:
  assumes "area_ok ta" "wrap_cache ta = Some (w, lines)" "i < length lines"
  shows "fst (lines ! i) \<le> snd (lines ! i)" "cut (ta_text ta) (fst (lines ! i))" "cut (ta_text ta) (snd (lines ! i))"
  using assms nth_mem [OF assms(3)] by (auto simp: area_ok_def cache_ok_def split_beta)

lemma cached_row_ok:
  assumes "area_ok ta"
  shows "\<exists>row. cached_row U ta step = Some row \<and>
    (\<forall>c a b. row = Some (c, Some (a, b)) \<longrightarrow> cut (ta_text ta) a \<and> cut (ta_text ta) b)"
proof (cases "wrap_cache ta")
  case (Some wl)
  obtain w lines where wl: "wl = (w, lines)" by fastforce
  show ?thesis
  proof (cases "wrapped_line_index_by_start lines (cursor_pos ta)")
    case i: (Some i)
    note l = cache_line [OF assms Some [unfolded wl]]
    have "\<exists>c. (case preferred_col ta of Some c \<Rightarrow> Some c
        | None \<Rightarrow> display_width_of_range U ta (fst (lines ! i)) (cursor_pos ta)) = Some c"
      using display_width_ok [OF assms l(2) area_okD(2) [OF assms], of i U] row_index [OF i] by (auto split: option.splits)
    then obtain c where c: "(case preferred_col ta of Some c \<Rightarrow> Some c
        | None \<Rightarrow> display_width_of_range U ta (fst (lines ! i)) (cursor_pos ta)) = Some c" by blast
    have "cut (ta_text ta) a \<and> cut (ta_text ta) b" if "j < length lines" "lines ! j = (a, b)" for j a b
      using l(2,3) [OF that(1)] that(2) by simp
    then show ?thesis using Some wl i c by (auto simp: cached_row_def split: option.splits)
  qed (use Some wl in \<open>simp add: cached_row_def\<close>)
qed (simp add: cached_row_def)

lemma find_newline_ok:
  assumes "cut t p"
  shows "\<exists>r. find_newline t p = Some r \<and> (\<forall>i. r = Some i \<longrightarrow> p \<le> i \<and> i < length t \<and> cut t i \<and> cut t (i + 1))"
    "\<exists>r. rfind_newline t p = Some r \<and> (\<forall>i. r = Some i \<longrightarrow> i < p \<and> cut t i \<and> cut t (i + 1))"
proof -
  note v = cut_valid [OF assms] and le = cut_le [OF assms]
  show "\<exists>r. find_newline t p = Some r \<and> (\<forall>i. r = Some i \<longrightarrow> p \<le> i \<and> i < length t \<and> cut t i \<and> cut t (i + 1))"
    using slice_between(1) [OF assms cut_ends(2) [OF v] le] cut_ascii [OF v] by (auto simp: find_newline_def dest!: find_SomeD)
  show "\<exists>r. rfind_newline t p = Some r \<and> (\<forall>i. r = Some i \<longrightarrow> i < p \<and> cut t i \<and> cut t (i + 1))"
    using slice_between(1) [OF cut_ends(1) [OF v] assms] cut_ascii [OF v] le by (auto simp: rfind_newline_def dest!: find_SomeD)
qed

lemma target_column_ok:
  assumes "area_ok ta"
  shows "\<exists>c. target_column U ta = Some c"
  using display_width_ok [OF assms _ area_okD(2) [OF assms]] beginning_of_line_ok(1) [OF assms area_okD(7) [OF assms]]
  by (auto simp: target_column_def current_display_col_def place_ok_def split: option.splits)

lemma cursor_to_end_ok:
  assumes "area_ok ta"
  shows "area_ok (ta\<lparr>cursor_pos := 0, preferred_col := p\<rparr>)" "area_ok (ta\<lparr>cursor_pos := text_len ta, preferred_col := p\<rparr>)"
  using place_ok_area [OF assms place_ok_ends(1) [OF assms]] place_ok_area [OF assms place_ok_ends(2) [OF assms]]
  by (simp_all add: area_ok_def)

lemma move_cursor_up_ok:
  assumes "unicode_ok U" "area_ok ta0"
  shows "\<exists>ta'. move_cursor_up U ta0 = Some ta' \<and> area_ok ta'"
proof -
  let ?ta = "ta0\<lparr>scroll_override := None\<rparr>"
  let ?step = "\<lambda>idx. if 0 < idx then Some (idx - 1) else None"
  have ok: "area_ok ?ta" using assms(2) by simp
  note go = move_to_col_ok [OF assms(1)] and ends = cursor_to_end_ok [OF ok]
  obtain row where row: "cached_row U ?ta ?step = Some row"
      "\<forall>c a b. row = Some (c, Some (a, b)) \<longrightarrow> cut (ta_text ?ta) a \<and> cut (ta_text ?ta) b"
    using cached_row_ok [OF ok, of U ?step] by blast
  show ?thesis
  proof (cases row)
    case (Some r)
    obtain c m where r: "r = (c, m)" by fastforce
    show ?thesis
    proof (cases m)
      case None
      then show ?thesis using row Some r ends by (simp add: move_cursor_up_def Let_def)
    next
      case ab: (Some ab)
      obtain a b where "ab = (a, b)" by fastforce
      then show ?thesis
        using row Some r ab go [of "keep_col c ?ta" a b c] ok by (simp add: move_cursor_up_def Let_def)
    qed
  next
    case None
    obtain nl where nl: "rfind_newline (ta_text ?ta) (cursor_pos ?ta) = Some nl"
        "\<forall>i. nl = Some i \<longrightarrow> i < cursor_pos ?ta \<and> cut (ta_text ?ta) i \<and> cut (ta_text ?ta) (i + 1)"
      using find_newline_ok(2) [OF area_okD(2) [OF ok]] by blast
    obtain c where c: "target_column U ?ta = Some c" using target_column_ok [OF ok] by blast
    show ?thesis
    proof (cases nl)
      case no: None
      then show ?thesis using row None nl ends by (simp add: move_cursor_up_def Let_def)
    next
      case (Some i)
      then have i: "cut (ta_text ?ta) i" using nl(2) by blast
      obtain nl' where nl': "rfind_newline (ta_text ?ta) i = Some nl'"
          "\<forall>j. nl' = Some j \<longrightarrow> j < i \<and> cut (ta_text ?ta) j \<and> cut (ta_text ?ta) (j + 1)"
        using find_newline_ok(2) [OF i] by blast
      have "cut (ta_text ?ta) (case nl' of Some j \<Rightarrow> j + 1 | None \<Rightarrow> 0)"
        using nl'(2) area_okD(1) [OF ok] by (simp split: option.splits)
      then show ?thesis
        using row None nl(1) Some c nl'(1) i go [of "keep_col c ?ta" "case nl' of Some j \<Rightarrow> j + 1 | None \<Rightarrow> 0" i c] ok
        by (simp add: move_cursor_up_def Let_def)
    qed
  qed
qed

lemma move_cursor_down_ok:
  assumes "unicode_ok U" "area_ok ta0"
  shows "\<exists>ta'. move_cursor_down U ta0 = Some ta' \<and> area_ok ta'"
proof -
  let ?ta = "ta0\<lparr>scroll_override := None\<rparr>"
  let ?step = "\<lambda>idx. Some (idx + 1)"
  have ok: "area_ok ?ta" using assms(2) by simp
  note go = move_to_col_ok [OF assms(1)] and ends = cursor_to_end_ok [OF ok]
  obtain row where row: "cached_row U ?ta ?step = Some row"
      "\<forall>c a b. row = Some (c, Some (a, b)) \<longrightarrow> cut (ta_text ?ta) a \<and> cut (ta_text ?ta) b"
    using cached_row_ok [OF ok, of U ?step] by blast
  show ?thesis
  proof (cases row)
    case (Some r)
    obtain c m where r: "r = (c, m)" by fastforce
    show ?thesis
    proof (cases m)
      case None
      then show ?thesis using row Some r ends by (simp add: move_cursor_down_def Let_def)
    next
      case ab: (Some ab)
      obtain a b where "ab = (a, b)" by fastforce
      then show ?thesis
        using row Some r ab go [of "keep_col c ?ta" a b c] ok by (simp add: move_cursor_down_def Let_def)
    qed
  next
    case None
    obtain nl where nl: "find_newline (ta_text ?ta) (cursor_pos ?ta) = Some nl"
        "\<forall>i. nl = Some i \<longrightarrow> cursor_pos ?ta \<le> i \<and> i < text_len ?ta \<and> cut (ta_text ?ta) i \<and> cut (ta_text ?ta) (i + 1)"
      using find_newline_ok(1) [OF area_okD(2) [OF ok]] by blast
    obtain c where c: "target_column U ?ta = Some c" using target_column_ok [OF ok] by blast
    show ?thesis
    proof (cases nl)
      case no: None
      then show ?thesis using row None nl c ends by (simp add: move_cursor_down_def Let_def)
    next
      case (Some i)
      then have i: "cut (ta_text ?ta) (i + 1)" using nl(2) by blast
      obtain nl' where nl': "find_newline (ta_text ?ta) (i + 1) = Some nl'"
          "\<forall>j. nl' = Some j \<longrightarrow> i + 1 \<le> j \<and> j < text_len ?ta \<and> cut (ta_text ?ta) j \<and> cut (ta_text ?ta) (j + 1)"
        using find_newline_ok(1) [OF i] by blast
      have "cut (ta_text ?ta) (case nl' of Some j \<Rightarrow> j | None \<Rightarrow> text_len ?ta)"
        using nl'(2) area_okD(1) [OF ok] by (simp split: option.splits)
      then show ?thesis
        using row None nl(1) Some c nl'(1) i go [of "keep_col c ?ta" "i + 1" "case nl' of Some j \<Rightarrow> j | None \<Rightarrow> text_len ?ta" c] ok
        by (simp add: move_cursor_down_def Let_def)
    qed
  qed
qed

section \<open>Home and End on a well-formed area\<close>

lemma set_cursor_cut: "area_ok ta \<Longrightarrow> cut (ta_text ta) p \<Longrightarrow> area_ok (set_cursor p ta)"
  using set_cursor_ok [of ta p] cut_le [of "ta_text ta" p] by (simp add: pos_ok_def min_absorb1)

lemma visual_start_ok:
  "area_ok ta \<Longrightarrow> beginning_of_current_visual_line ta = Some p \<Longrightarrow> cut (ta_text ta) p"
  by (auto simp: beginning_of_current_visual_line_def split: option.splits prod.splits
      dest!: row_index intro: cache_line(2))

lemma last_char_start_cut:
  assumes "cut t a" "cut t b" "a < b"
  shows "cut t (a + last_char_start (take (b - a) (drop a t)))" "a + last_char_start (take (b - a) (drop a t)) \<le> b"
proof -
  let ?s = "take (b - a) (drop a t)"
  have le: "a \<le> b" using assms(3) by simp
  have "valid ?s" by (rule valid_between [OF assms(1,2) le])
  then obtain s where s: "?s = utf8 s" "\<forall>c \<in> set s. valid_char c" by (auto simp: valid_iff)
  have "str_chars ?s = s" using from_utf8_utf8 [OF s(2)] s(1) by (simp add: str_chars_def)
  moreover have "s \<noteq> []" using s(1) assms(3) cut_le [OF assms(2)] by (cases s) auto
  then obtain r c where r: "s = r @ [c]" by (metis rev_exhaust)
  ultimately have l: "last_char_start ?s = length (utf8 r)" by (simp add: last_char_start_def)
  have "utf8 r @ encode_char c = ?s" using s(1) r by simp
  moreover have "valid (utf8 r)" using s(2) r valid_utf8 [of r] by simp
  ultimately show "cut t (a + last_char_start ?s)" "a + last_char_start ?s \<le> b"
    using prefix_cut(1,2) [OF assms(1,2) le, of "utf8 r" "encode_char c"] unfolding l by blast+
qed

lemma visual_end_ok:
  assumes "area_ok ta"
  shows "\<exists>r. end_of_current_visual_line ta = Some r \<and> (\<forall>p. r = Some p \<longrightarrow> cut (ta_text ta) p)"
proof (cases "wrap_cache ta")
  case (Some wl)
  obtain w lines where wl: "wl = (w, lines)" by fastforce
  show ?thesis
  proof (cases "wrapped_line_index_by_start lines (cursor_pos ta)")
    case i: (Some i)
    obtain a b where ab: "lines ! i = (a, b)" by fastforce
    have c: "cut (ta_text ta) a" "cut (ta_text ta) b"
      using cache_line [OF assms Some [unfolded wl]] row_index [OF i] ab by fastforce+
    have m: "min b (text_len ta) = b" using cut_le [OF c(2)] by simp
    have "\<exists>p. clamp_to_line ta b a b = Some p \<and> cut (ta_text ta) p" if "a < b"
      using slice_between(1) [OF c less_imp_le [OF that]] last_char_start_cut [OF c that] that
      by (simp add: clamp_to_line_def min_absorb2)
    then show ?thesis using Some wl i ab c m by (auto simp: end_of_current_visual_line_def Let_def)
  qed (use Some wl in \<open>simp add: end_of_current_visual_line_def\<close>)
qed (simp add: end_of_current_visual_line_def)

lemma move_home_ok:
  assumes "area_ok ta"
  shows "area_ok (move_cursor_to_beginning_of_line up ta)"
proof -
  have "cut (ta_text ta) (beginning_of_line ta p)" if "p \<le> text_len ta" for p
    using beginning_of_line_ok(1) [OF assms that] by (simp add: place_ok_def)
  then show ?thesis
    using set_cursor_cut [OF assms] visual_start_ok [OF assms] area_okD(7) [OF assms]
    by (auto simp: move_cursor_to_beginning_of_line_def Let_def split: option.splits)
qed

lemma move_end_ok:
  assumes "area_ok ta"
  shows "\<exists>ta'. move_cursor_to_end_of_line down ta = Some ta' \<and> area_ok ta'"
proof -
  have e: "cut (ta_text ta) (end_of_line ta p)" if "p \<le> text_len ta" for p
    using end_of_line_ok(1) [OF assms that] by (simp add: place_ok_def)
  obtain r where "end_of_current_visual_line ta = Some r" "\<forall>p. r = Some p \<longrightarrow> cut (ta_text ta) p"
    using visual_end_ok [OF assms] by blast
  then show ?thesis
    using e set_cursor_cut [OF assms] area_okD(7) [OF assms]
    by (auto simp: move_cursor_to_end_of_line_def Let_def split: option.splits)
qed

section \<open>Wrapping loses no text\<close>

definition blank_between :: "bytes \<Rightarrow> nat \<Rightarrow> nat \<Rightarrow> bool" where
  "blank_between t a b \<longleftrightarrow> a \<le> b \<and> (\<forall>i. a \<le> i \<and> i < b \<longrightarrow> t ! i \<in> {32, 9, 10})"

fun lines_cover :: "bytes \<Rightarrow> nat \<Rightarrow> (nat \<times> nat) list \<Rightarrow> nat \<Rightarrow> bool" where
  "lines_cover t p [] q \<longleftrightarrow> blank_between t p q"
| "lines_cover t p ((a, b) # ls) q \<longleftrightarrow>
     blank_between t p a \<and> a \<le> b \<and> cut t a \<and> cut t b \<and> lines_cover t b ls q"

lemma blank_refl [simp]: "blank_between t p p"
  by (simp add: blank_between_def)

lemma blank_trans: "blank_between t p q \<Longrightarrow> blank_between t q r \<Longrightarrow> blank_between t p r"
  unfolding blank_between_def by (meson le_trans not_le)

lemma lines_cover_snoc:
  "lines_cover t p ls q \<Longrightarrow> q \<le> b \<Longrightarrow> cut t q \<Longrightarrow> cut t b \<Longrightarrow> lines_cover t p (ls @ [(q, b)]) b"
  by (induction ls arbitrary: p) auto

lemma lines_cover_gap: "lines_cover t p ls q \<Longrightarrow> blank_between t q r \<Longrightarrow> lines_cover t p ls r"
  by (induction ls arbitrary: p) (auto intro: blank_trans)

lemma lines_cover_cuts: "lines_cover t p ls q \<Longrightarrow> (a, b) \<in> set ls \<Longrightarrow> a \<le> b \<and> cut t a \<and> cut t b"
  by (induction ls arbitrary: p) auto

lemma skip_blanks_ok:
  "valid t \<Longrightarrow> cut t ls \<Longrightarrow> ls \<le> pos \<Longrightarrow>
    blank_between t ls (skip_blanks t stop pos ls) \<and> cut t (skip_blanks t stop pos ls) \<and> skip_blanks t stop pos ls \<le> pos"
proof (induction t stop pos ls rule: skip_blanks.induct)
  case (1 t stop pos ls)
  show ?case
  proof (cases "ls < stop \<and> ls < pos \<and> ls < length t \<and> t ! ls \<in> {32, 9}")
    case True
    then have "cut t (ls + 1)" using cut_ascii(2) [OF 1(2), of ls] by auto
    moreover have "blank_between t ls (ls + 1)" using True by (auto simp: blank_between_def le_less_Suc_eq)
    ultimately show ?thesis
      using 1(1) [OF True 1(2)] True blank_trans by (simp add: skip_blanks.simps [of t stop pos ls])
  next
    case False
    then have "skip_blanks t stop pos ls = ls" by (subst skip_blanks.simps) (simp only: if_False)
    then show ?thesis using 1(3,4) by simp
  qed
qed

lemma next_logical_newline_ok:
  assumes "area_ok ta"
  shows "p \<le> text_len ta \<Longrightarrow> \<exists>q. next_logical_newline ta p = Some q \<and> p \<le> q \<and> q \<le> text_len ta \<and>
    (q < text_len ta \<longrightarrow> ta_text ta ! q = 10)"
proof (induction "text_len ta - p" arbitrary: p rule: less_induct)
  case less
  show ?case
  proof (cases "text_len ta \<le> p")
    case True
    then show ?thesis using less.prems by (simp add: next_logical_newline.simps)
  next
    case False
    show ?thesis
    proof (cases "List.find (covers p) (ta_elements ta)")
      case (Some e)
      then have e: "p < el_end e" "el_end e \<le> text_len ta"
        using find_SomeD [OF Some] elements_okD(4) [OF area_okD(4) [OF assms]] by (auto simp: covers_def)
      then have "text_len ta - el_end e < text_len ta - p" by simp
      then show ?thesis
        using less.hyps [of "el_end e"] e Some False
        by (auto simp: next_logical_newline.simps [of ta p])
    next
      case None
      have "text_len ta - (p + 1) < text_len ta - p" using False by simp
      then show ?thesis
        using less.hyps [of "p + 1"] None False by (auto simp: next_logical_newline.simps [of ta p])
    qed
  qed
qed

text \<open>One turn of the wrapping loop at an element and at plain text.\<close>

lemma wrap_loop_element:
  assumes "\<not> stop \<le> pos" "List.find (\<lambda>e. pos = el_start e \<and> el_start e < el_end e) (ta_elements ta) = Some e"
    "(case el_display e of Some d \<Rightarrow> Some (display_w U d) | None \<Rightarrow> slice_width U ta (el_start e) (min (el_end e) stop)) = Some ew"
    "break_at = break_point lb pos" "ls = skip_blanks (ta_text ta) stop pos break_at"
  shows "wrap_loop U ta stop width line_start pos dw lb acc =
    (if 0 < dw \<and> width < dw + ew then wrap_loop U ta stop width ls ls 0 None (acc @ [(line_start, break_at)])
     else wrap_loop U ta stop width line_start (min (el_end e) stop) (dw + ew) (Some (min (el_end e) stop)) acc)"
  by (subst wrap_loop.simps) (use assms in \<open>simp add: Let_def\<close>)

lemma wrap_loop_plain:
  assumes "\<not> stop \<le> pos" "List.find (\<lambda>e. pos = el_start e \<and> el_start e < el_end e) (ta_elements ta) = None"
    "str_slice pos stop (ta_text ta) = Some s" "graphemes U s = g # gs" "gw = grapheme_display_width U ta g"
    "break_at = break_point lb pos" "ls = skip_blanks (ta_text ta) stop pos break_at"
    "display_width_of_range U ta ls pos = Some dw'"
  shows "wrap_loop U ta stop width line_start pos dw lb acc =
    (if width < dw + gw \<and> 0 < dw
     then if ls = pos then wrap_loop U ta stop width ls (pos + length g) gw None (acc @ [(line_start, break_at)])
          else wrap_loop U ta stop width ls pos dw' None (acc @ [(line_start, break_at)])
     else wrap_loop U ta stop width line_start (pos + length g) (dw + gw)
            (if g = [32] \<or> g = [9] then Some (pos + length g) else lb) acc)"
  by (subst wrap_loop.simps) (use assms in \<open>simp add: Let_def\<close>)

definition wrap_inv :: "bytes \<Rightarrow> nat \<Rightarrow> nat \<Rightarrow> nat \<Rightarrow> nat \<Rightarrow> nat \<Rightarrow> nat option \<Rightarrow> (nat \<times> nat) list \<Rightarrow> bool" where
  "wrap_inv t p0 stop line_start pos dw lb acc \<longleftrightarrow>
     lines_cover t p0 acc line_start \<and> cut t line_start \<and> cut t pos \<and> line_start \<le> pos \<and> pos \<le> stop \<and>
     (0 < dw \<longrightarrow> line_start < pos) \<and> (\<forall>b. lb = Some b \<longrightarrow> line_start < b \<and> b \<le> pos \<and> cut t b)"

lemma wrap_inv_advance:
  assumes "wrap_inv t p0 stop line_start pos dw lb acc" "pos < p" "p \<le> stop" "cut t p"
  shows "wrap_inv t p0 stop line_start p w (if q then Some p else lb) acc"
  using assms by (auto simp: wrap_inv_def)

lemma wrap_inv_break:
  assumes inv: "wrap_inv t p0 stop line_start pos dw lb acc" and "0 < dw"
    and b: "break_at = break_point lb pos" and ls: "ls = skip_blanks t stop pos break_at"
  shows "line_start < ls" "ls \<le> pos" "cut t ls" "lines_cover t p0 (acc @ [(line_start, break_at)]) ls"
proof -
  have c: "cut t line_start" "cut t break_at" "line_start < break_at" "break_at \<le> pos"
    using inv assms(2) b by (cases lb; auto simp: wrap_inv_def break_point_def)+
  have sk: "blank_between t break_at ls" "cut t ls" "ls \<le> pos"
    using skip_blanks_ok [OF cut_valid [OF c(1)] c(2,4), of stop] ls by simp_all
  show "ls \<le> pos" "cut t ls" using sk by simp_all
  show "line_start < ls" using sk(1) c(3) by (simp add: blank_between_def)
  have "lines_cover t p0 (acc @ [(line_start, break_at)]) break_at"
    using inv c by (intro lines_cover_snoc) (auto simp: wrap_inv_def)
  then show "lines_cover t p0 (acc @ [(line_start, break_at)]) ls" using lines_cover_gap sk(1) by blast
qed

lemma wrap_loop_ok:
  assumes U: "unicode_ok U" and ok: "area_ok ta" and stop: "cut (ta_text ta) stop"
  shows "wrap_inv (ta_text ta) p0 stop line_start pos dw lb acc \<Longrightarrow>
    \<exists>ls. wrap_loop U ta stop width line_start pos dw lb acc = Some ls \<and> lines_cover (ta_text ta) p0 ls stop \<and> ls \<noteq> []"
proof (induction "(line_start, pos)" arbitrary: line_start pos dw lb acc
    rule: wf_induct_rule [OF wf_measures [of "[\<lambda>(l, p). stop - l, \<lambda>(l, p). stop - p]"]])
  case less: (1 line_start pos dw lb acc)
  let ?t = "ta_text ta"
  have inv: "lines_cover ?t p0 acc line_start" "cut ?t line_start" "cut ?t pos" "line_start \<le> pos" "pos \<le> stop"
    using less.prems by (simp_all add: wrap_inv_def)
  have IH: "\<exists>ls. wrap_loop U ta stop width l p w b a = Some ls \<and> lines_cover ?t p0 ls stop \<and> ls \<noteq> []"
    if "wrap_inv ?t p0 stop l p w b a" "(line_start < l \<and> l \<le> stop) \<or> (line_start = l \<and> pos < p \<and> p \<le> stop)" for l p w b a
  proof -
    have "((l, p), (line_start, pos)) \<in> measures [\<lambda>(l, p). stop - l, \<lambda>(l, p). stop - p]"
      using that(2) by auto
    then show ?thesis using less.hyps that(1) by blast
  qed
  show ?case
  proof (cases "stop \<le> pos")
    case True
    then have "line_start \<le> stop" using inv(4,5) by simp
    from lines_cover_snoc [OF inv(1) this inv(2) stop] show ?thesis
      using True by (simp add: wrap_loop.simps [of U ta stop])
  next
    case False
    define break_at where "break_at = break_point lb pos"
    define ls where "ls = skip_blanks ?t stop pos break_at"
    note brk = wrap_inv_break [OF less.prems _ break_at_def ls_def]
    show ?thesis
    proof (cases "List.find (\<lambda>e. pos = el_start e \<and> el_start e < el_end e) (ta_elements ta)")
      case (Some e)
      have e: "e \<in> set (ta_elements ta)" "pos = el_start e" "el_start e < el_end e" using find_SomeD [OF Some] by simp_all
      let ?m = "min (el_end e) stop"
      have m: "cut ?t ?m" "pos < ?m" "?m \<le> stop"
        using min_cut(1) [OF elements_okD(3) [OF area_okD(4) [OF ok] e(1)] stop] e(2,3) False by linarith+
      obtain w where "slice_width U ta (el_start e) ?m = Some w"
        using slice_width_ok [OF inv(3) m(1) less_imp_le [OF m(2)], of U] e(2) by auto
      then obtain ew where ew: "(case el_display e of Some d \<Rightarrow> Some (display_w U d)
          | None \<Rightarrow> slice_width U ta (el_start e) ?m) = Some ew"
        by (cases "el_display e") simp_all
      note step = wrap_loop_element [OF False Some ew break_at_def ls_def, of width line_start dw acc]
      show ?thesis
      proof (cases "0 < dw \<and> width < dw + ew")
        case True
        then have dw: "0 < dw" by simp
        have "wrap_inv ?t p0 stop ls ls 0 None (acc @ [(line_start, break_at)])"
          using brk [OF dw] inv(5) by (simp add: wrap_inv_def)
        moreover have "line_start < ls \<and> ls \<le> stop" using brk(1,2) [OF dw] inv(5) by linarith
        ultimately show ?thesis unfolding step using IH True by simp
      next
        case no: False
        have "wrap_inv ?t p0 stop line_start ?m (dw + ew) (Some ?m) acc"
          using wrap_inv_advance [OF less.prems m(2,3,1), of _ True] by simp
        then show ?thesis unfolding step using IH m(2,3) no by (simp only: if_False) blast
      qed
    next
      case None
      obtain g gs where g: "graphemes U (take (stop - pos) (drop pos ?t)) = g # gs" "g \<noteq> []" "pos + length g \<le> stop"
          "cut ?t (pos + length g)"
        using first_grapheme [OF U inv(3) stop not_le_imp_less [OF False]] by blast
      have gl: "pos < pos + length g" using g(2) by simp
      have sl: "str_slice pos stop ?t = Some (take (stop - pos) (drop pos ?t))"
        using slice_between(1) [OF inv(3) stop inv(5)] .
      define gw where "gw = grapheme_display_width U ta g"
      have "cut ?t break_at" "break_at \<le> pos"
        using less.prems by (cases lb; simp add: wrap_inv_def break_at_def break_point_def)+
      then have "cut ?t ls"
        using skip_blanks_ok [OF area_okD(1) [OF ok], of break_at pos stop] by (simp add: ls_def)
      then obtain dw' where dw': "display_width_of_range U ta ls pos = Some dw'"
        using display_width_ok [OF ok _ inv(3)] by blast
      note step = wrap_loop_plain [OF False None sl g(1) gw_def break_at_def ls_def dw', of width line_start dw acc]
      show ?thesis
      proof (cases "width < dw + gw \<and> 0 < dw")
        case True
        then have dw: "0 < dw" by simp
        have far: "line_start < ls \<and> ls \<le> stop" using brk(1,2) [OF dw] inv(5) by linarith
        show ?thesis
        proof (cases "ls = pos")
          case eq: True
          have "wrap_inv ?t p0 stop ls (pos + length g) gw None (acc @ [(line_start, break_at)])"
            using brk [OF dw] g gl eq by (simp add: wrap_inv_def)
          then show ?thesis unfolding step using IH far True eq by simp
        next
          case ne: False
          have "wrap_inv ?t p0 stop ls pos dw' None (acc @ [(line_start, break_at)])"
            using brk [OF dw] inv(3,5) ne by (simp add: wrap_inv_def)
          then show ?thesis unfolding step using IH far True ne by simp
        qed
      next
        case no: False
        have "wrap_inv ?t p0 stop line_start (pos + length g) (dw + gw)
            (if g = [32] \<or> g = [9] then Some (pos + length g) else lb) acc"
          by (rule wrap_inv_advance [OF less.prems gl g(3,4)])
        then show ?thesis unfolding step using IH gl g(3) no by (simp only: if_False) blast
      qed
    qed
  qed
qed

lemma greedy_wrap_segment_ok:
  assumes "unicode_ok U" "area_ok ta" "cut (ta_text ta) a" "cut (ta_text ta) b" "a \<le> b" "lines_cover (ta_text ta) p0 acc a"
  shows "\<exists>ls. greedy_wrap_segment U ta a b width acc = Some ls \<and> lines_cover (ta_text ta) p0 ls b \<and> ls \<noteq> []"
proof (cases "b \<le> a")
  case True
  then show ?thesis
    using lines_cover_snoc [OF assms(6,5,3,4)] assms(5) by (simp add: greedy_wrap_segment_def)
next
  case False
  have "wrap_inv (ta_text ta) p0 b a a 0 None acc" using assms by (simp add: wrap_inv_def)
  from wrap_loop_ok [OF assms(1,2,4) this] show ?thesis using False by (simp add: greedy_wrap_segment_def)
qed

lemma segments_loop_ok:
  assumes U: "unicode_ok U" and ok: "area_ok ta"
  shows "cut (ta_text ta) a \<Longrightarrow> lines_cover (ta_text ta) p0 acc a \<Longrightarrow>
    \<exists>ls. segments_loop U ta width a acc = Some ls \<and> lines_cover (ta_text ta) p0 ls (text_len ta) \<and> ls \<noteq> []"
proof (induction "text_len ta - a" arbitrary: a acc rule: less_induct)
  case less
  have le: "a \<le> text_len ta" by (rule cut_le [OF less.prems(1)])
  obtain q where q: "next_logical_newline ta a = Some q" "a \<le> q" "q \<le> text_len ta" "q < text_len ta \<longrightarrow> ta_text ta ! q = 10"
    using next_logical_newline_ok [OF ok le] by blast
  have cq: "cut (ta_text ta) q" "q < text_len ta \<longrightarrow> cut (ta_text ta) (q + 1)"
    using q(3,4) cut_ascii [OF area_okD(1) [OF ok], of q] cut_ends(2) [OF area_okD(1) [OF ok]]
    by (cases "q = text_len ta"; simp)+
  obtain ls where ls: "greedy_wrap_segment U ta a q width acc = Some ls" "lines_cover (ta_text ta) p0 ls q" "ls \<noteq> []"
    using greedy_wrap_segment_ok [OF U ok less.prems(1) cq(1) q(2) less.prems(2)] by blast
  show ?case
  proof (cases "text_len ta \<le> q")
    case True
    then show ?thesis using q ls by (simp add: segments_loop.simps [of U ta width a acc])
  next
    case False
    have "blank_between (ta_text ta) q (q + 1)" using q(4) False by (auto simp: blank_between_def le_less_Suc_eq)
    then have "lines_cover (ta_text ta) p0 ls (q + 1)" using lines_cover_gap ls(2) by blast
    moreover have "text_len ta - (q + 1) < text_len ta - a" using q(2) False by simp
    ultimately show ?thesis
      using less.hyps [of "q + 1" ls] cq(2) q(1) ls(1) False by (simp add: segments_loop.simps [of U ta width a acc])
  qed
qed

lemma wrap_covers:
  assumes "unicode_ok U" "area_ok ta"
  shows "\<exists>ls. element_aware_wrap_ranges U ta width = Some ls \<and> lines_cover (ta_text ta) 0 ls (text_len ta) \<and> ls \<noteq> []"
  using segments_loop_ok [OF assms cut_ends(1) [OF area_okD(1) [OF assms(2)]], of 0 "[]" "max width 1"]
  by (auto simp: element_aware_wrap_ranges_def)

text \<open>
  C1. Wrapping with elements as units ends and loses no text: at every width it returns rows in the order of
  the text, between character boundaries, and every byte that is in no row is a blank or a line feed.
\<close>

theorem wrap_keeps_text:
  assumes "unicode_ok U" "area_ok ta"
  shows "\<exists>lines. element_aware_wrap_ranges U ta width = Some lines \<and> lines \<noteq> [] \<and>
    lines_cover (ta_text ta) 0 lines (text_len ta)"
  using wrap_covers [OF assms] by blast

theorem wrap_keeps_text_witness:
  "\<exists>lines. element_aware_wrap_ranges scalar_unicode (the (insert_str [97, 98, 32, 99] new_area)) 3 = Some lines \<and>
     lines_cover [97, 98, 32, 99] 0 lines 4"
proof -
  have v: "valid [97, 98, 32, 99]"
    using valid_utf8 [of "[97, 98, 32, 99]"] by (simp add: encode_char_def valid_char_def)
  obtain ta where t: "insert_str [97, 98, 32, 99] new_area = Some ta" "area_ok ta"
      "ta_text ta = edited 0 0 (expand_tabs new_area [97, 98, 32, 99]) []"
    using insert_str_ok [OF new_area_ok v] by (auto simp: new_area_def)
  have "ta_text ta = [97, 98, 32, 99]"
    using t(3) by (simp add: edited_def expand_tabs_def expand_tabs_with_width_def)
  then show ?thesis using wrap_keeps_text [OF scalar_unicode_ok t(2), of 3] t(1) by (auto simp: eval_nat_numeral)
qed

lemma trailing_spaces_cut:
  assumes "cut t b"
  shows "cut t (b + length (takeWhile (\<lambda>c. c = 32) (str_chars (drop b t))))"
proof -
  let ?u = "takeWhile (\<lambda>c. c = 32) (str_chars (drop b t))"
  have v: "valid (drop b t)" using assms by (simp add: cut_def)
  then obtain s where s: "drop b t = utf8 s" "\<forall>c \<in> set s. valid_char c" by (auto simp: valid_iff)
  have sc: "str_chars (drop b t) = s" using from_utf8_utf8 [OF s(2)] s(1) by (simp add: str_chars_def)
  have "utf8 (takeWhile (\<lambda>c. c = 32) s) = takeWhile (\<lambda>c. c = 32) s" by (induction s) (simp_all add: encode_char_def)
  then have u: "utf8 ?u = ?u" unfolding sc .
  have "utf8 ?u @ utf8 (dropWhile (\<lambda>c. c = 32) s) = drop b t"
    using takeWhile_dropWhile_id [of "\<lambda>c. c = 32" s] utf8_simps(3) [of "takeWhile (\<lambda>c. c = 32) s" "dropWhile (\<lambda>c. c = 32) s"]
    unfolding sc by (simp only: s(1))
  then have "?u @ utf8 (dropWhile (\<lambda>c. c = 32) s) = take (length t - b) (drop b t)" using u by simp
  moreover have "valid ?u" using s(2) valid_utf8 [of ?u] u set_takeWhileD sc by fastforce
  ultimately show ?thesis
    using prefix_cut(2) [OF assms cut_ends(2) [OF cut_valid [OF assms]] cut_le [OF assms]] by blast
qed

lemma wrap_slices_ok:
  "valid t \<Longrightarrow> \<forall>a b. Some (a, b) \<in> set ls \<longrightarrow> a \<le> b \<and> cut t a \<and> cut t b \<Longrightarrow>
     \<exists>r. wrap_slices t ls = Some r \<and> (\<forall>(a, b) \<in> set r. a \<le> b \<and> cut t a \<and> cut t b)"
proof (induction t ls rule: wrap_slices.induct)
  case (3 t a b ls)
  have ab: "a \<le> b" "cut t a" "cut t b" using 3(3) by auto
  have sl: "str_slice b (length t) t = Some (drop b t)"
    using slice_between(1) [OF ab(3) cut_ends(2) [OF 3(2)] cut_le [OF ab(3)]] by simp
  obtain r where r: "wrap_slices t ls = Some r" "\<forall>(a, b) \<in> set r. a \<le> b \<and> cut t a \<and> cut t b"
    using 3(1) [OF sl 3(2)] 3(3) by auto
  show ?case using sl r ab trailing_spaces_cut [OF ab(3)] by auto
qed auto

lemma wrapped_lines_ok:
  assumes "unicode_ok U" "area_ok ta"
  shows "\<exists>ta' lines. wrapped_lines U w ta = Some (ta', lines) \<and> area_ok ta' \<and>
    (\<exists>cw. wrap_cache ta' = Some (cw, lines)) \<and> (\<forall>(a, b) \<in> set lines. a \<le> b \<and> cut (ta_text ta) a \<and> cut (ta_text ta) b)"
proof -
  let ?w = "max w 1"
  have w: "0 < ?w" by simp
  let ?ls = "if \<exists>e \<in> set (ta_elements ta). el_display e \<noteq> None then element_aware_wrap_ranges U ta ?w
      else wrap_ranges U (ta_text ta) ?w"
  have soft: "\<forall>a b. Some (a, b) \<in> set (soft_lines U (ta_text ta) ?w) \<longrightarrow> a \<le> b \<and> cut (ta_text ta) a \<and> cut (ta_text ta) b"
    using assms(1) area_okD(1) [OF assms(2)] w unfolding unicode_ok_def by blast
  have "\<exists>ls. ?ls = Some ls \<and> (\<forall>(a, b) \<in> set ls. a \<le> b \<and> cut (ta_text ta) a \<and> cut (ta_text ta) b)"
  proof (cases "\<exists>e \<in> set (ta_elements ta). el_display e \<noteq> None")
    case True
    obtain ls where "element_aware_wrap_ranges U ta ?w = Some ls" "lines_cover (ta_text ta) 0 ls (text_len ta)"
      using wrap_covers [OF assms] by blast
    then show ?thesis using True lines_cover_cuts by (simp only: if_True) fastforce
  next
    case False
    then show ?thesis
      using wrap_slices_ok [OF area_okD(1) [OF assms(2)] soft] by (simp only: if_False wrap_ranges_def)
  qed
  then obtain ls where ls: "?ls = Some ls" "\<forall>(a, b) \<in> set ls. a \<le> b \<and> cut (ta_text ta) a \<and> cut (ta_text ta) b" by blast
  have new: "area_ok (ta\<lparr>wrap_cache := Some (?w, ls)\<rparr>)"
    using assms(2) ls(2) by (auto simp: area_ok_def cache_ok_def)
  show ?thesis
  proof (cases "wrap_cache ta")
    case None
    then have "wrapped_lines U w ta = Some (ta\<lparr>wrap_cache := Some (?w, ls)\<rparr>, ls)"
      using ls(1) by (simp only: wrapped_lines_def Let_def option.case option.map prod.case)
    with new ls(2) show ?thesis by auto
  next
    case (Some c)
    obtain cw lines where c: "c = (cw, lines)" by fastforce
    show ?thesis
    proof (cases "cw = ?w")
      case True
      then have "wrapped_lines U w ta = Some (ta, lines)" using Some c by (simp add: wrapped_lines_def Let_def)
      then show ?thesis using assms(2) Some c by (auto simp: area_ok_def cache_ok_def)
    next
      case False
      then have "wrapped_lines U w ta = Some (ta\<lparr>wrap_cache := Some (?w, ls)\<rparr>, ls)"
        using ls(1) Some c by (simp only: wrapped_lines_def Let_def option.case option.map prod.case if_False)
      with new ls(2) show ?thesis by auto
    qed
  qed
qed

section \<open>The cursor stays in view\<close>

lemma effective_scroll_bounds:
  assumes "length lines < 65536" "0 < height"
  shows "effective_scroll ta height lines s \<le> length lines - height"
    "scroll_override ta = None \<Longrightarrow> wrapped_line_index_by_start lines (cursor_pos ta) = Some i \<Longrightarrow>
      effective_scroll ta height lines s \<le> i \<and> i < effective_scroll ta height lines s + height"
proof -
  have n: "as_u16 (length lines) = length lines" using assms(1) by (simp add: as_u16_def)
  have j: "as_u16 (case wrapped_line_index_by_start lines (cursor_pos ta) of Some i \<Rightarrow> i | None \<Rightarrow> 0) < length lines"
    if "height < length lines"
    using that assms row_index [of lines "cursor_pos ta"] by (auto simp: as_u16_def split: option.splits)
  show "effective_scroll ta height lines s \<le> length lines - height"
    using j assms(2) n by (auto simp: effective_scroll_def Let_def split: option.splits)
  assume i: "scroll_override ta = None" "wrapped_line_index_by_start lines (cursor_pos ta) = Some i"
  then have "i < length lines" "as_u16 i = i" using row_index assms(1) by (fastforce simp: as_u16_def)+
  then show "effective_scroll ta height lines s \<le> i \<and> i < effective_scroll ta height lines s + height"
    using i n assms(2) by (auto simp: effective_scroll_def Let_def)
qed

text \<open>With 65536 lines the line count is read as none, and the view does not follow the cursor.\<close>

lemma scroll_of_many_lines:
  assumes "length lines = 65536"
  shows "effective_scroll ta height lines s = 0"
  using assms by (simp add: effective_scroll_def as_u16_def)

end
