(* ===== verification/Text_Input.thy ===== *)
theory Text_Input
  imports Text_Wrap
begin

text \<open>
  The keys of the text area: \<open>input\<close> of \<open>xai-ratatui-textarea/src/textarea.rs\<close> with \<open>is_undo_input\<close>, and
  \<open>is_altgr\<close> of its \<open>lib.rs\<close>. The two \<open>match\<close> statements are given as functions from a key to what its arm
  does, in the order of the arms, and as the functions that do it.
\<close>

section \<open>Keys\<close>

text \<open>The key codes the arms name; every other code of the terminal library is \<open>KC_Other\<close>.\<close>

datatype KeyCode = KC_Char rchar | KC_Enter | KC_Backspace | KC_Delete | KC_Left | KC_Right | KC_Up | KC_Down
  | KC_Home | KC_End | KC_Other

datatype KeyModifier = SHIFT | CONTROL | ALT | SUPER | HYPER | META

type_synonym KeyEvent = "KeyCode \<times> KeyModifier set"

text \<open>\<open>win\<close> tells whether the program is compiled for Windows.\<close>

definition is_altgr :: "bool \<Rightarrow> KeyModifier set \<Rightarrow> bool" where
  "is_altgr win mods \<longleftrightarrow> win \<and> mods - {SHIFT} = {CONTROL, ALT}"

definition is_undo_input :: "KeyEvent \<Rightarrow> bool" where
  "is_undo_input key \<longleftrightarrow> fst key = KC_Char 122 \<and> (CONTROL \<in> snd key \<or> SUPER \<in> snd key)"

definition apply_shift :: "rchar \<Rightarrow> rchar" where
  "apply_shift c = (if 97 \<le> c \<and> c \<le> 122 then c - 32 else c)"

definition shifted :: "KeyModifier set \<Rightarrow> rchar \<Rightarrow> rchar" where
  "shifted mods c = (if SHIFT \<in> mods then apply_shift c else c)"

section \<open>The arms\<close>

datatype sel_action = Sel_Replace rchar | Sel_Delete | Sel_Cut | Sel_Clear

text \<open>The patterns \<open>KeyCode::Char(c)\<close> with and without the guard against BS and DEL.\<close>

definition is_char :: "KeyCode \<Rightarrow> bool" where
  "is_char code = (case code of KC_Char c \<Rightarrow> True | _ \<Rightarrow> False)"

definition plain_char :: "KeyCode \<Rightarrow> bool" where
  "plain_char code = (case code of KC_Char c \<Rightarrow> c \<noteq> 8 \<and> c \<noteq> 127 | _ \<Rightarrow> False)"

definition sel_arm :: "bool \<Rightarrow> KeyEvent \<Rightarrow> sel_action" where
  "sel_arm win key =
     (let (code, mods) = key
      in if plain_char code \<and> (mods = {} \<or> mods = {SHIFT})
         then (case code of KC_Char c \<Rightarrow> Sel_Replace (shifted mods c) | _ \<Rightarrow> Sel_Clear)
         else if is_char code \<and> is_altgr win mods
         then (case code of KC_Char c \<Rightarrow> Sel_Replace c | _ \<Rightarrow> Sel_Clear)
         else if (code \<in> {KC_Char 106, KC_Char 109} \<and> mods = {CONTROL}) \<or> code = KC_Enter then Sel_Replace 10
         else if code \<in> {KC_Backspace, KC_Delete, KC_Char 8, KC_Char 127} \<or>
                 (code \<in> {KC_Char 104, KC_Char 100} \<and> mods = {CONTROL}) then Sel_Delete
         else if code = KC_Char 120 \<and> mods = {CONTROL} then Sel_Cut
         else Sel_Clear)"

datatype command = C_Left | C_Right | C_Back | C_Insert rchar | C_BackWord | C_KillToBol | C_ForwardWord
  | C_Forward | C_UnixWord | C_WordLeft | C_WordRight | C_KillToEol | C_Yank | C_Undo | C_Redo | C_Paste
  | C_Up | C_Down | C_Home bool | C_End bool | C_Nothing

definition arm :: "bool \<Rightarrow> KeyEvent \<Rightarrow> command" where
  "arm win key =
     (let (code, mods) = key
      in if code = KC_Char 2 \<and> mods = {} then C_Left
         else if code = KC_Char 6 \<and> mods = {} then C_Right
         else if code = KC_Char 127 \<or> (code = KC_Char 8 \<and> mods = {}) then C_Back
         else if plain_char code \<and> (mods = {} \<or> mods = {SHIFT})
         then (case code of KC_Char c \<Rightarrow> C_Insert (shifted mods c) | _ \<Rightarrow> C_Nothing)
         else if (code \<in> {KC_Char 106, KC_Char 109} \<and> mods = {CONTROL}) \<or> code = KC_Enter then C_Insert 10
         else if code = KC_Char 104 \<and> mods = {CONTROL, ALT} then C_BackWord
         else if is_char code \<and> is_altgr win mods
         then (case code of KC_Char c \<Rightarrow> C_Insert c | _ \<Rightarrow> C_Nothing)
         else if code = KC_Backspace \<and> mods = {ALT} then C_BackWord
         else if code = KC_Backspace \<and> mods = {SUPER} then C_KillToBol
         else if code = KC_Backspace \<and> mods = {CONTROL} then C_BackWord
         else if code \<in> {KC_Backspace, KC_Char 8} \<or> (code = KC_Char 104 \<and> mods = {CONTROL}) then C_Back
         else if (code = KC_Delete \<and> (mods = {ALT} \<or> mods = {CONTROL})) \<or>
                 (code = KC_Char 100 \<and> (mods = {ALT} \<or> mods = {SUPER})) then C_ForwardWord
         else if code = KC_Delete \<or> (code = KC_Char 100 \<and> mods = {CONTROL}) then C_Forward
         else if code = KC_Char 119 \<and> mods = {CONTROL} then C_UnixWord
         else if code = KC_Char 98 \<and> mods = {ALT} then C_WordLeft
         else if code = KC_Char 102 \<and> mods = {ALT} then C_WordRight
         else if code = KC_Char 117 \<and> mods = {CONTROL} then C_KillToBol
         else if code = KC_Char 107 \<and> mods = {CONTROL} then C_KillToEol
         else if code = KC_Char 121 \<and> mods = {CONTROL} then C_Yank
         else if code = KC_Char 90 \<and> (CONTROL \<in> mods \<or> SUPER \<in> mods) then C_Redo
         else if is_undo_input key then C_Undo
         else if code = KC_Char 114 \<and> mods = {CONTROL} then C_Redo
         else if code = KC_Char 118 \<and> mods = {CONTROL} then C_Paste
         else if code = KC_Left \<and> mods = {} then C_Left
         else if code = KC_Right \<and> mods = {} then C_Right
         else if code = KC_Char 98 \<and> mods = {CONTROL} then C_Left
         else if code = KC_Char 102 \<and> mods = {CONTROL} then C_Right
         else if code = KC_Left \<and> (mods = {ALT} \<or> mods = {CONTROL}) then C_WordLeft
         else if code = KC_Right \<and> (mods = {ALT} \<or> mods = {CONTROL}) then C_WordRight
         else if code = KC_Left \<and> mods = {SUPER} then C_Home False
         else if code = KC_Right \<and> mods = {SUPER} then C_End False
         else if code = KC_Up \<or> (code = KC_Char 112 \<and> mods = {CONTROL}) then C_Up
         else if code = KC_Down \<or> (code = KC_Char 110 \<and> mods = {CONTROL}) then C_Down
         else if code = KC_Home then C_Home False
         else if code = KC_Char 97 \<and> mods = {CONTROL} then C_Home True
         else if code = KC_End then C_End False
         else if code = KC_Char 101 \<and> mods = {CONTROL} then C_End True
         else C_Nothing)"

section \<open>What the arms do\<close>

text \<open>The selection is replaced by a character as one undo step.\<close>

definition replace_selection :: "rchar \<Rightarrow> TextArea \<Rightarrow> TextArea option" where
  "replace_selection c ta =
     do {
       (ta1, deleted) \<leftarrow> delete_selection (begin_undo_group ta);
       ta2 \<leftarrow> insert_str (encode_char c) (if deleted then ta1 else clear_selection ta1);
       Some (end_undo_group ta2)
     }"

text \<open>\<open>Inl\<close> is the \<open>return\<close> of the first \<open>match\<close>, \<open>Inr\<close> falls through to the second.\<close>

fun run_sel :: "sel_action \<Rightarrow> TextArea \<Rightarrow> (TextArea + TextArea) option" where
  "run_sel (Sel_Replace c) ta = map_option Inl (replace_selection c ta)"
| "run_sel Sel_Delete ta =
     map_option (\<lambda>(ta1, deleted). if deleted then Inl ta1 else Inr (clear_selection ta1)) (delete_selection ta)"
| "run_sel Sel_Cut ta =
     do {
       t \<leftarrow> selected_text ta;
       let ta1 = (case t of Some t \<Rightarrow> set_clipboard_text t ta | None \<Rightarrow> ta);
       (ta2, deleted) \<leftarrow> delete_selection ta1;
       Some (if deleted then Inl ta2 else Inr (clear_selection ta2))
     }"
| "run_sel Sel_Clear ta = Some (Inr (clear_selection ta))"

fun run_command :: "Unicode \<Rightarrow> command \<Rightarrow> TextArea \<Rightarrow> TextArea option" where
  "run_command U C_Left ta = Some (move_cursor_left U ta)"
| "run_command U C_Right ta = Some (move_cursor_right U ta)"
| "run_command U C_Back ta = delete_backward U 1 ta"
| "run_command U (C_Insert c) ta = insert_str (encode_char c) ta"
| "run_command U C_BackWord ta = delete_backward_word U ta"
| "run_command U C_KillToBol ta = kill_to_beginning_of_line ta"
| "run_command U C_ForwardWord ta = delete_forward_word U ta"
| "run_command U C_Forward ta = delete_forward U 1 ta"
| "run_command U C_UnixWord ta = delete_backward_unix_word U ta"
| "run_command U C_WordLeft ta = map_option (\<lambda>p. set_cursor p ta) (beginning_of_previous_word U ta)"
| "run_command U C_WordRight ta = map_option (\<lambda>p. set_cursor p ta) (end_of_next_word U ta)"
| "run_command U C_KillToEol ta = kill_to_end_of_line ta"
| "run_command U C_Yank ta = yank ta"
| "run_command U C_Undo ta = Some (fst (undo ta))"
| "run_command U C_Redo ta = Some (fst (redo ta))"
| "run_command U C_Paste ta = (case provider_contents ta of Some t \<Rightarrow> insert_str t ta | None \<Rightarrow> Some ta)"
| "run_command U C_Up ta = move_cursor_up U ta"
| "run_command U C_Down ta = move_cursor_down U ta"
| "run_command U (C_Home up) ta = Some (move_cursor_to_beginning_of_line up ta)"
| "run_command U (C_End down) ta = move_cursor_to_end_of_line down ta"
| "run_command U C_Nothing ta = Some ta"

definition input :: "Unicode \<Rightarrow> bool \<Rightarrow> KeyEvent \<Rightarrow> TextArea \<Rightarrow> TextArea option" where
  "input U win key ta =
     (if selection ta = None then run_command U (arm win key) ta
      else do {
        r \<leftarrow> run_sel (sel_arm win key) ta;
        case r of Inl ta1 \<Rightarrow> Some ta1 | Inr ta1 \<Rightarrow> run_command U (arm win key) ta1
      })"

section \<open>No key panics\<close>

definition selection_ok :: "TextArea \<Rightarrow> bool" where
  "selection_ok ta \<longleftrightarrow> (\<forall>x y. selection ta = Some (x, y) \<longrightarrow> range_ok ta (min x y) (max x y))"

definition key_ok :: "KeyEvent \<Rightarrow> bool" where
  "key_ok key \<longleftrightarrow> (\<forall>c. fst key = KC_Char c \<longrightarrow> valid_char c)"

fun command_ok :: "command \<Rightarrow> bool" where
  "command_ok (C_Insert c) = valid_char c"
| "command_ok _ = True"

lemma valid_shifted: "valid_char c \<Longrightarrow> valid_char (shifted mods c)"
  by (auto simp: shifted_def apply_shift_def valid_char_def)

lemma command_ok_iff: "command_ok c \<longleftrightarrow> (\<forall>x. c = C_Insert x \<longrightarrow> valid_char x)"
  by (cases c) auto

lemma arm_ok: "key_ok key \<Longrightarrow> command_ok (arm win key)"
proof -
  assume ok: "key_ok key"
  have nl: "valid_char 10" by (simp add: valid_char_def)
  show ?thesis
    using ok nl valid_shifted unfolding command_ok_iff arm_def key_ok_def Let_def is_char_def plain_char_def
    by (cases key) (simp split: if_split KeyCode.split)
qed

lemma sel_arm_ok: "key_ok key \<Longrightarrow> sel_arm win key = Sel_Replace c \<Longrightarrow> valid_char c"
  using valid_shifted unfolding sel_arm_def key_ok_def Let_def is_char_def plain_char_def
  by (cases key) (auto simp: valid_char_def split: if_splits KeyCode.splits)

lemma run_command_ok:
  assumes "unicode_ok U" "area_ok ta" "command_ok c"
  shows "\<exists>ta'. run_command U c ta = Some ta' \<and> area_ok ta'"
proof (cases c)
  case (C_Insert x)
  then show ?thesis using insert_str_ok [OF assms(2) valid_encode] assms(3) by auto
next
  case C_WordLeft
  then show ?thesis
    using beginning_of_previous_word_ok [OF assms(1,2)] set_cursor_cut [OF assms(2)] by (auto simp: place_ok_def)
next
  case C_WordRight
  then show ?thesis
    using end_of_next_word_ok [OF assms(1,2)] set_cursor_cut [OF assms(2)] by (auto simp: place_ok_def)
next
  case C_Paste
  have "valid t" if "provider_contents ta = Some t" for t using assms(2) that by (simp add: area_ok_def)
  then show ?thesis using C_Paste insert_str_ok [OF assms(2)] assms(2) by (auto split: option.split)
qed (use assms(2) delete_ok [OF assms(1,2)] word_kills_ok [OF assms(1,2)] kills_ok [OF assms(2)] yank_ok [OF assms(2)]
    undo_ok [OF assms(2)] redo_ok [OF assms(2)] move_cursor_ok [OF assms(1,2)] move_cursor_up_ok [OF assms(1,2)]
    move_cursor_down_ok [OF assms(1,2)] move_home_ok [OF assms(2)] move_end_ok [OF assms(2)] in auto)

lemma begin_group_same [simp]:
  "selection (begin_undo_group ta) = selection ta" "ta_text (begin_undo_group ta) = ta_text ta"
  "ta_elements (begin_undo_group ta) = ta_elements ta" "cursor_pos (begin_undo_group ta) = cursor_pos ta"
  by (simp_all add: begin_undo_group_def Let_def)

lemma replace_selection_ok:
  assumes "area_ok ta" "selection_ok ta" "valid_char c"
  shows "\<exists>ta'. replace_selection c ta = Some ta' \<and> area_ok ta'"
proof -
  have ok: "area_ok (begin_undo_group ta)" by (rule begin_undo_group_ok [OF assms(1)])
  obtain ta1 d where d: "delete_selection (begin_undo_group ta) = Some (ta1, d)" "area_ok ta1"
    using delete_selection_ok [OF ok] assms(2) by (auto simp: selection_ok_def range_ok_def)
  have "area_ok (if d then ta1 else clear_selection ta1)" using d(2) by (simp add: clear_selection_def)
  from insert_str_ok [OF this valid_encode [OF assms(3)]] obtain ta2 where
    "insert_str (encode_char c) (if d then ta1 else clear_selection ta1) = Some ta2" "area_ok ta2" by blast
  then show ?thesis using d(1) end_undo_group_ok by (simp add: replace_selection_def)
qed

lemma set_clipboard_text_ok: "area_ok ta \<Longrightarrow> valid t \<Longrightarrow> area_ok (set_clipboard_text t ta)"
  by (simp add: set_clipboard_text_def area_ok_def)

lemma set_clipboard_text_same [simp]:
  "selection (set_clipboard_text t ta) = selection ta" "ta_text (set_clipboard_text t ta) = ta_text ta"
  "ta_elements (set_clipboard_text t ta) = ta_elements ta"
  by (simp_all add: set_clipboard_text_def)

lemma run_sel_ok:
  assumes "area_ok ta" "selection_ok ta" "\<And>c. a = Sel_Replace c \<Longrightarrow> valid_char c"
  shows "\<exists>r. run_sel a ta = Some r \<and> area_ok (case_sum (\<lambda>x. x) (\<lambda>x. x) r)"
proof (cases a)
  case (Sel_Replace c)
  then show ?thesis using replace_selection_ok [OF assms(1,2) assms(3)] by auto
next
  case Sel_Delete
  obtain ta1 d where "delete_selection ta = Some (ta1, d)" "area_ok ta1"
    using delete_selection_ok [OF assms(1)] assms(2) by (auto simp: selection_ok_def)
  then show ?thesis using Sel_Delete by (cases d) (simp_all add: clear_selection_def)
next
  case Sel_Cut
  obtain t where t: "selected_text ta = Some t" "\<forall>x \<in> set_option t. valid x"
    using selected_text_ok [OF assms(1)] assms(2) by (auto simp: selection_ok_def)
  let ?ta = "case t of Some t \<Rightarrow> set_clipboard_text t ta | None \<Rightarrow> ta"
  have "area_ok ?ta" "selection_ok ?ta"
    using t(2) assms(1,2) set_clipboard_text_ok by (auto simp: selection_ok_def range_ok_def split: option.splits)
  then obtain ta2 d where "delete_selection ?ta = Some (ta2, d)" "area_ok ta2"
    unfolding selection_ok_def using delete_selection_ok by blast
  then show ?thesis using Sel_Cut t(1) by (auto simp: clear_selection_def)
qed (use assms(1) in \<open>auto simp: clear_selection_def\<close>)

lemma input_area_ok:
  assumes "unicode_ok U" "area_ok ta" "selection_ok ta" "key_ok key"
  shows "\<exists>ta'. input U win key ta = Some ta' \<and> area_ok ta'"
proof (cases "selection ta = None")
  case True
  then show ?thesis using run_command_ok [OF assms(1,2) arm_ok [OF assms(4)]] by (simp add: input_def)
next
  case False
  obtain r where r: "run_sel (sel_arm win key) ta = Some r" "area_ok (case_sum (\<lambda>x. x) (\<lambda>x. x) r)"
    using run_sel_ok [OF assms(2,3), of "sel_arm win key"] sel_arm_ok [OF assms(4)] by blast
  then show ?thesis
    using False run_command_ok [OF assms(1) _ arm_ok [OF assms(4)]] by (cases r) (auto simp: input_def)
qed

section \<open>Keys and the selection\<close>

text \<open>Every editing operation of the keys keeps the selection.\<close>

lemma bind_Some: "Option.bind m f = Some y \<longleftrightarrow> (\<exists>x. m = Some x \<and> f x = Some y)"
  by (cases m) auto

lemma insert_inner_selection: "insert_str_inner p t ta = Some (ta', n) \<Longrightarrow> selection ta' = selection ta"
  by (auto simp: insert_str_inner_def Let_def bind_Some split: if_splits)

lemma replace_raw_selection: "replace_range_raw a b x ta = Some (ta', n) \<Longrightarrow> selection ta' = selection ta"
  by (auto simp: replace_range_raw_def Let_def bind_Some split: if_splits)

lemma same_selection [simp]:
  "selection (note_last_insert t ta) = selection ta" "selection (break_insert_batch t ta) = selection ta"
  "selection (keep_col c ta) = selection ta" "selection (set_cursor p ta) = selection ta"
  by (simp_all add: note_last_insert_def break_insert_batch_def keep_col_def set_cursor_def split: option.splits)

lemma insert_str_selection: "insert_str t ta = Some ta' \<Longrightarrow> selection ta' = selection ta"
  by (auto simp: insert_str_def bind_Some dest!: insert_inner_selection split: if_splits)

lemma kill_step_selection: "kill_step a b ta = Some ta' \<Longrightarrow> selection ta' = selection ta"
  by (auto simp: kill_step_def kill_range_def Let_def bind_Some dest!: replace_raw_selection split: if_splits prod.splits)

lemma undo_selection: "selection (fst (undo ta)) = selection ta" "selection (fst (redo ta)) = selection ta"
  by (simp_all add: undo_def redo_def Let_def restore_def split: list.splits)

lemma move_col_selection: "move_to_display_col_on_line U a b c ta = Some ta' \<Longrightarrow> selection ta' = selection ta"
  by (auto simp: move_to_display_col_on_line_def)

text \<open>The result of a vertical movement, when there is one, is an area with the same selection.\<close>

definition keeps_sel :: "TextArea \<Rightarrow> TextArea option \<Rightarrow> bool" where
  "keeps_sel ta m \<longleftrightarrow> (\<forall>ta'. m = Some ta' \<longrightarrow> selection ta' = selection ta)"

lemma keeps_sel_intros [intro]:
  "selection ta' = selection ta \<Longrightarrow> keeps_sel ta (Some ta')"
  "(\<And>x. m = Some x \<Longrightarrow> keeps_sel ta (f x)) \<Longrightarrow> keeps_sel ta (Option.bind m f)"
  "selection ta1 = selection ta \<Longrightarrow> keeps_sel ta (move_to_display_col_on_line U a b c ta1)"
  by (auto simp: keeps_sel_def bind_Some dest: move_col_selection)

lemma up_down_selection:
  "move_cursor_up U ta = Some ta' \<Longrightarrow> selection ta' = selection ta"
  "move_cursor_down U ta = Some ta' \<Longrightarrow> selection ta' = selection ta"
proof -
  have "keeps_sel ta (move_cursor_up U ta)" "keeps_sel ta (move_cursor_down U ta)"
    unfolding move_cursor_up_def move_cursor_down_def Let_def
    by (intro keeps_sel_intros; auto split: option.split)+
  then show "move_cursor_up U ta = Some ta' \<Longrightarrow> selection ta' = selection ta"
    "move_cursor_down U ta = Some ta' \<Longrightarrow> selection ta' = selection ta"
    by (simp_all add: keeps_sel_def)
qed

lemma command_selection: "run_command U c ta = Some ta' \<Longrightarrow> selection ta' = selection ta"
proof (cases c)
  case C_Back
  then show "run_command U c ta = Some ta' \<Longrightarrow> selection ta' = selection ta"
    by (auto simp: delete_backward_def Let_def dest!: replace_raw_selection split: if_splits prod.splits)
next
  case C_Forward
  then show "run_command U c ta = Some ta' \<Longrightarrow> selection ta' = selection ta"
    by (auto simp: delete_forward_def Let_def dest!: replace_raw_selection split: if_splits prod.splits)
next
  case C_Up
  then show "run_command U c ta = Some ta' \<Longrightarrow> selection ta' = selection ta" using up_down_selection(1) by simp
next
  case C_Down
  then show "run_command U c ta = Some ta' \<Longrightarrow> selection ta' = selection ta" using up_down_selection(2) by simp
next
  case C_Yank
  then show "run_command U c ta = Some ta' \<Longrightarrow> selection ta' = selection ta"
    by (auto simp: yank_def Let_def bind_Some dest!: insert_inner_selection split: if_splits)
qed (auto simp: move_cursor_left_def move_cursor_right_def delete_backward_word_def delete_forward_word_def
    delete_backward_unix_word_def kill_to_beginning_of_line_def kill_to_end_of_line_def Let_def bind_Some
    move_cursor_to_beginning_of_line_def move_cursor_to_end_of_line_def undo_selection
    dest!: insert_str_selection kill_step_selection split: if_splits option.splits)

lemma delete_selection_selection:
  "delete_selection ta = Some (ta', d) \<Longrightarrow> if d then selection ta' = None else ta' = ta"
  by (auto simp: delete_selection_def bind_Some split: option.splits)

lemma end_group_selection [simp]: "selection (end_undo_group ta) = selection ta"
  by (simp add: end_undo_group_def Let_def split: option.splits)

lemma run_sel_selection:
  "run_sel a ta = Some r \<Longrightarrow> selection (case_sum (\<lambda>x. x) (\<lambda>x. x) r) = None"
proof (cases a)
  case (Sel_Replace c)
  then show "run_sel a ta = Some r \<Longrightarrow> selection (case_sum (\<lambda>x. x) (\<lambda>x. x) r) = None"
    by (auto simp: replace_selection_def bind_Some clear_selection_def
        dest!: delete_selection_selection insert_str_selection split: if_splits)
qed (auto simp: bind_Some clear_selection_def Let_def dest!: delete_selection_selection split: if_splits)

lemma input_selection:
  assumes "input U win key ta = Some ta'"
  shows "selection ta' = None"
proof (cases "selection ta = None")
  case True
  then show ?thesis using assms command_selection by (simp add: input_def)
next
  case False
  then obtain r where "run_sel (sel_arm win key) ta = Some r"
      "(case r of Inl t \<Rightarrow> Some t | Inr t \<Rightarrow> run_command U (arm win key) t) = Some ta'"
    using assms by (auto simp: input_def bind_Some)
  with run_sel_selection [OF this(1)] show ?thesis using command_selection by (cases r) fastforce+
qed

section \<open>The undo chord\<close>

lemma undo_chord: "arm False key = C_Undo \<longleftrightarrow> is_undo_input key"
proof (cases "fst key = KC_Char 122")
  case True
  then obtain mods where "key = (KC_Char 122, mods)" by (cases key) simp
  then show ?thesis by (auto simp: arm_def is_undo_input_def is_altgr_def plain_char_def)
next
  case False
  then have "\<not> is_undo_input key" by (simp add: is_undo_input_def)
  moreover from this have "arm False key \<noteq> C_Undo"
    unfolding arm_def Let_def by (cases key) (simp split: KeyCode.split)
  ultimately show ?thesis by simp
qed

lemma undo_chord_on_windows: "is_undo_input (KC_Char 122, {CONTROL, ALT}) \<and> arm True (KC_Char 122, {CONTROL, ALT}) = C_Insert 122"
  by (simp add: is_undo_input_def arm_def is_altgr_def insert_Diff_if is_char_def plain_char_def)

text \<open>
  The control characters for left and right, which the second \<open>match\<close> keeps from being inserted, replace a
  live selection.
\<close>

lemma control_character_replaces_selection:
  "arm win (KC_Char 2, {}) = C_Left \<and> sel_arm win (KC_Char 2, {}) = Sel_Replace 2"
  by (simp add: arm_def sel_arm_def shifted_def plain_char_def)

end
