(* ===== verification/Text_Session.thy ===== *)
theory Text_Session
  imports Text_Input
begin

text \<open>
  The text area as its host uses it: the public operations of \<open>TextArea\<close> as calls, what the host owes with
  each, and the areas that calls reach from a new one. No call that meets its obligation panics, and
  every area reached satisfies the invariant.
\<close>

section \<open>Calls\<close>

datatype call =
    Key KeyEvent
  | Set_text bytes
  | Insert_str bytes
  | Insert_str_at nat bytes
  | Replace_range nat nat bytes
  | Set_cursor nat
  | Set_selection nat nat
  | Clear_selection
  | Delete_selection
  | Insert_element bytes nat "bytes list option"
  | Replace_range_with_element nat nat bytes nat "bytes list option"
  | Set_element_display nat "bytes list option"
  | Inline_element nat
  | Undo
  | Redo
  | Begin_undo_group
  | End_undo_group
  | Cancel_undo_group
  | Clear_history
  | Layout nat
  | Set_tab_width nat
  | Take_clipboard
  | Kill_current_line
  | Restore_elements "(nat \<times> nat \<times> nat \<times> bytes list option) list"

fun run_call :: "Unicode \<Rightarrow> bool \<Rightarrow> call \<Rightarrow> TextArea \<Rightarrow> TextArea option" where
  "run_call U win (Key k) ta = input U win k ta"
| "run_call U win (Set_text t) ta = Some (set_text t ta)"
| "run_call U win (Insert_str t) ta = insert_str t ta"
| "run_call U win (Insert_str_at p t) ta = insert_str_at p t ta"
| "run_call U win (Replace_range a b t) ta = replace_range a b t ta"
| "run_call U win (Set_cursor p) ta = Some (set_cursor p ta)"
| "run_call U win (Set_selection x y) ta = Some (set_selection x y ta)"
| "run_call U win Clear_selection ta = Some (clear_selection ta)"
| "run_call U win Delete_selection ta = map_option fst (delete_selection ta)"
| "run_call U win (Insert_element t k d) ta = map_option fst (insert_element t k d ta)"
| "run_call U win (Replace_range_with_element a b t k d) ta = map_option fst (replace_range_with_element a b t k d ta)"
| "run_call U win (Set_element_display i d) ta = Some (set_element_display i d ta)"
| "run_call U win (Inline_element i) ta = Some (fst (inline_element i ta))"
| "run_call U win Undo ta = Some (fst (undo ta))"
| "run_call U win Redo ta = Some (fst (redo ta))"
| "run_call U win Begin_undo_group ta = Some (begin_undo_group ta)"
| "run_call U win End_undo_group ta = Some (end_undo_group ta)"
| "run_call U win Cancel_undo_group ta = Some (cancel_undo_group ta)"
| "run_call U win Clear_history ta = Some (clear_history ta)"
| "run_call U win (Layout w) ta = map_option fst (wrapped_lines U w ta)"
| "run_call U win (Set_tab_width w) ta = Some (set_tab_width w ta)"
| "run_call U win Take_clipboard ta = Some (fst (take_clipboard ta))"
| "run_call U win Kill_current_line ta = kill_current_line ta"
| "run_call U win (Restore_elements xs) ta = Some (restore_elements xs ta)"

fun run_calls :: "Unicode \<Rightarrow> bool \<Rightarrow> call list \<Rightarrow> TextArea \<Rightarrow> TextArea option" where
  "run_calls U win [] ta = Some ta"
| "run_calls U win (c # cs) ta = Option.bind (run_call U win c ta) (run_calls U win cs)"

text \<open>
  What the host owes: texts are UTF-8 (the type \<open>&str\<close>), positions are character boundaries or inside an
  element, ranges go forward between boundaries, a live selection lies between boundaries when a key or a
  deletion uses it, a replaced text leaves the cursor on a boundary, and restored elements take free
  ranges between boundaries that do not hold the cursor.
\<close>

fun restorable :: "(nat \<times> nat \<times> nat \<times> bytes list option) list \<Rightarrow> TextArea \<Rightarrow> bool" where
  "restorable [] ta = True"
| "restorable ((a, b, k, d) # xs) ta =
     (a \<le> b \<and> cut (ta_text ta) a \<and> cut (ta_text ta) b \<and>
      (\<forall>f \<in> set (ta_elements ta). \<not> (a < el_end f \<and> el_start f < b)) \<and>
      \<not> (a < cursor_pos ta \<and> cursor_pos ta < b) \<and> restorable xs (fst (add_element a b k d ta)))"

fun call_ok :: "call \<Rightarrow> TextArea \<Rightarrow> bool" where
  "call_ok (Key k) ta = (key_ok k \<and> selection_ok ta)"
| "call_ok (Set_text t) ta = (valid t \<and> cut (expand_tabs ta t) (min (cursor_pos ta) (length (expand_tabs ta t))))"
| "call_ok (Insert_str t) ta = valid t"
| "call_ok (Insert_str_at p t) ta = (valid t \<and> pos_ok ta p)"
| "call_ok (Replace_range a b t) ta = (valid t \<and> range_ok ta a b)"
| "call_ok (Set_cursor p) ta = pos_ok ta (min p (text_len ta))"
| "call_ok Delete_selection ta = selection_ok ta"
| "call_ok (Insert_element t k d) ta = valid t"
| "call_ok (Replace_range_with_element a b t k d) ta = (valid t \<and> range_ok ta a b)"
| "call_ok (Restore_elements xs) ta = restorable xs ta"
| "call_ok _ ta = True"

inductive reachable :: "Unicode \<Rightarrow> bool \<Rightarrow> TextArea \<Rightarrow> bool" for U win where
  start: "reachable U win new_area"
| step: "reachable U win ta \<Longrightarrow> call_ok c ta \<Longrightarrow> run_call U win c ta = Some ta' \<Longrightarrow> reachable U win ta'"

lemma set_tab_width_ok: "area_ok ta \<Longrightarrow> area_ok (set_tab_width w ta)"
  by (simp add: set_tab_width_def area_ok_def)

lemma restore_elements_ok: "area_ok ta \<Longrightarrow> restorable xs ta \<Longrightarrow> area_ok (restore_elements xs ta)"
proof -
  have "area_ok (fold (\<lambda>(a, b, k, d) ta. fst (add_element a b k d ta)) xs ta)" if "area_ok ta" "restorable xs ta"
    using that
  proof (induction xs arbitrary: ta)
    case (Cons x xs)
    obtain a b k d where x: "x = (a, b, k, d)" by (metis prod_cases4)
    have "area_ok (fst (add_element a b k d ta))"
      by (rule add_element_ok) (use Cons.prems x in auto)
    then show ?case using Cons x by simp
  qed simp
  moreover have "area_ok ta \<Longrightarrow> area_ok (ta\<lparr>wrap_cache := None\<rparr>)" for ta by (simp add: area_ok_def)
  ultimately show "area_ok ta \<Longrightarrow> restorable xs ta \<Longrightarrow> area_ok (restore_elements xs ta)"
    by (simp add: restore_elements_def)
qed

lemma run_call_ok:
  assumes "unicode_ok U" "area_ok ta" "call_ok c ta"
  shows "\<exists>ta'. run_call U win c ta = Some ta' \<and> area_ok ta'"
proof (cases c)
  case (Key k)
  then show ?thesis using input_area_ok [OF assms(1,2)] assms(3) by simp
next
  case (Insert_str t)
  then show ?thesis using insert_str_ok [OF assms(2)] assms(3) by auto
next
  case (Delete_selection)
  then show ?thesis using delete_selection_ok [OF assms(2)] assms(3) by (fastforce simp: selection_ok_def)
next
  case (Insert_element t k d)
  then show ?thesis using insert_element_ok [OF assms(2)] assms(3) by fastforce
next
  case (Replace_range_with_element a b t k d)
  then show ?thesis using replace_range_with_element_ok [OF assms(2)] assms(3) by fastforce
next
  case (Layout w)
  then show ?thesis using wrapped_lines_ok [OF assms(1,2), of w] by fastforce
qed (use assms(2,3) set_text_ok [OF assms(2)] insert_str_at_ok [OF assms(2)] replace_range_ok [OF assms(2)] set_cursor_ok [OF assms(2)]
    set_element_display_ok [OF assms(2)] inline_element_ok [OF assms(2)] undo_ok [OF assms(2)] redo_ok [OF assms(2)]
    begin_undo_group_ok [OF assms(2)] end_undo_group_ok [OF assms(2)] cancel_undo_group_ok [OF assms(2)]
    clear_history_ok [OF assms(2)] set_tab_width_ok [OF assms(2)]
    kills_ok(3) [OF assms(2)] restore_elements_ok [OF assms(2)]
    in \<open>auto simp: set_selection_def clear_selection_def take_clipboard_def\<close>)

lemma reachable_ok:
  assumes "unicode_ok U" "reachable U win ta"
  shows "area_ok ta"
  using assms(2)
proof induction
  case start
  show ?case by (rule new_area_ok)
next
  case (step ta c ta')
  then show ?case using run_call_ok [OF assms(1) step.IH step.hyps(2), of win] by auto
qed

section \<open>The main property\<close>

text \<open>
  C1. The text area is safe: in every state that calls meeting their obligations reach from a new area, the
  text is valid UTF-8, the cursor is on a boundary outside every element, the elements are in order, apart
  and on boundaries, the history holds at most a hundred such states, and no call that meets its
  obligation (no key whatever) panics or fails to return.
\<close>

theorem text_area_safe:
  assumes "unicode_ok U" "reachable U win ta"
  shows "area_ok ta \<and> (\<forall>c. call_ok c ta \<longrightarrow> (\<exists>ta'. run_call U win c ta = Some ta' \<and> reachable U win ta'))"
proof -
  have ok: "area_ok ta" by (rule reachable_ok [OF assms])
  moreover have "\<exists>ta'. run_call U win c ta = Some ta' \<and> reachable U win ta'" if "call_ok c ta" for c
    using run_call_ok [OF assms(1) ok that, of win] reachable.step [OF assms(2) that] by blast
  ultimately show ?thesis by blast
qed

theorem text_area_safe_witness:
  "area_ok new_area \<and> (\<exists>ta'. run_call scalar_unicode False (Key (KC_Char 97, {})) new_area = Some ta' \<and>
     reachable scalar_unicode False ta')"
proof -
  have "call_ok (Key (KC_Char 97, {})) new_area"
    by (simp add: key_ok_def valid_char_def selection_ok_def new_area_def)
  then show ?thesis using text_area_safe [OF scalar_unicode_ok reachable.start, of False] by blast
qed

section \<open>Where the obligations matter\<close>

text \<open>
  A new text leaves the cursor in the middle of a character: with the cursor at 1, \<open>set_text\<close> of a text that
  begins with a two-byte character keeps it there, and the next insertion panics.
\<close>

lemma set_text_then_insert_panics:
  "Option.bind (insert_str [97] new_area) (\<lambda>ta. insert_str [98] (set_text [195, 169] ta)) = None"
  by code_simp

text \<open>A selection that the host leaves in place while it edits the text can end inside a character.\<close>

lemma stale_selection_panics:
  "Option.bind (insert_str [97, 98] new_area) (\<lambda>ta.
     Option.bind (insert_str_at 0 [195, 169] (set_selection 0 1 ta)) selected_text) = None"
  by code_simp

end
