(* ===== verification/Text_History.thy ===== *)
theory Text_History
  imports Text_Session
begin

text \<open>
  What undo promises for the text area: undo and redo are inverse, a discrete edit is undone by one undo, a
  typed word is one undo step, an undo group is one step and a cancelled group leaves no trace; and
  what edits keep: a kill followed by a yank gives the text back, and an element keeps its text.
\<close>

section \<open>Checkpoints\<close>

text \<open>The last checkpoint is the given state.\<close>

definition topped :: "UndoEntry \<Rightarrow> TextArea \<Rightarrow> bool" where
  "topped e ta \<longleftrightarrow> us_stack (ta_undo ta) \<noteq> [] \<and> last (us_stack (ta_undo ta)) = e"

lemma undo_topped: "topped e ta \<Longrightarrow> snapshot (fst (undo ta)) = e"
proof -
  assume t: "topped e ta"
  then obtain r where "rev (us_stack (ta_undo ta)) = e # r"
    unfolding topped_def by (metis append_butlast_last_id rev_eq_Cons_iff rev_rev_ident)
  then show ?thesis by (simp add: undo_def Let_def restore_def snapshot_def)
qed

lemma undo_topped_ok: "topped e ta \<Longrightarrow> snd (undo ta)"
  by (auto simp: topped_def undo_def Let_def split: list.splits)

lemma push_entry_last: "0 < us_max_depth u \<Longrightarrow> us_stack (push_entry e u) \<noteq> [] \<and> last (us_stack (push_entry e u)) = e"
  by (auto simp: push_entry_def Let_def last_tl tl_append split: list.splits)

lemma pre_mutate_topped:
  assumes "area_ok ta" "us_group_depth (ta_undo ta) = 0" "should_push k ta"
  shows "topped (snapshot ta) (pre_mutate k ta)"
proof -
  have "0 < us_max_depth (ta_undo ta)" using area_okD(5) [OF assms(1)] by (simp add: history_ok_def)
  from push_entry_last [OF this, of "snapshot ta"] show ?thesis
    using assms(2,3) by (simp add: topped_def pre_mutate_def Let_def)
qed

lemma discrete_push [simp]:
  "should_push MK_Kill ta" "should_push MK_Element ta" "should_push MK_Replace ta"
  by (simp_all add: should_push_def split: option.splits)

text \<open>The parts of the undo state that only a checkpoint, undo, redo and groups change.\<close>

definition same_history :: "TextArea \<Rightarrow> TextArea \<Rightarrow> bool" where
  "same_history ta ta' \<longleftrightarrow>
     us_stack (ta_undo ta') = us_stack (ta_undo ta) \<and> us_redo (ta_undo ta') = us_redo (ta_undo ta) \<and>
     us_group_depth (ta_undo ta') = us_group_depth (ta_undo ta) \<and>
     us_group_checkpoint (ta_undo ta') = us_group_checkpoint (ta_undo ta) \<and>
     us_max_depth (ta_undo ta') = us_max_depth (ta_undo ta)"

lemma same_history_refl [simp]: "same_history ta ta"
  by (simp add: same_history_def)

lemma same_history_trans [trans]: "same_history a b \<Longrightarrow> same_history b c \<Longrightarrow> same_history a c"
  by (simp add: same_history_def)

lemma same_history_undo: "ta_undo ta' = ta_undo ta \<Longrightarrow> same_history ta ta'"
  by (simp add: same_history_def)

lemma topped_same: "topped e ta \<Longrightarrow> same_history ta ta' \<Longrightarrow> topped e ta'"
  by (simp add: topped_def same_history_def)

lemma insert_inner_history: "insert_str_inner p t ta = Some (ta', n) \<Longrightarrow> same_history ta ta'"
  by (auto simp: insert_str_inner_def Let_def bind_Some same_history_def split: if_splits)

lemma replace_raw_history: "replace_range_raw a b x ta = Some (ta', n) \<Longrightarrow> same_history ta ta'"
  by (auto simp: replace_range_raw_def Let_def bind_Some same_history_def split: if_splits)

lemma batch_history [simp]:
  "same_history ta (post_mutate ta')= same_history ta ta'" "same_history ta (note_last_insert t ta') = same_history ta ta'"
  "same_history ta (break_insert_batch t ta') = same_history ta ta'" "same_history ta (set_cursor p ta') = same_history ta ta'"
  by (simp_all add: same_history_def post_mutate_def note_last_insert_def break_insert_batch_def set_cursor_def split: option.splits)

lemma kill_range_history: "kill_range a b ta = Some ta' \<Longrightarrow> same_history ta ta'"
  by (auto simp: kill_range_def Let_def bind_Some same_history_def dest!: replace_raw_history split: if_splits prod.splits)

lemma add_element_history: "same_history ta (fst (add_element a b k d ta))"
  by (simp add: add_element_def Let_def same_history_def)

section \<open>Example areas\<close>

text \<open>A new area into which a text was inserted.\<close>

definition typed :: "bytes \<Rightarrow> TextArea" where
  "typed t = the (insert_str t new_area)"

lemma typed_ok:
  assumes "valid t"
  shows "insert_str t new_area = Some (typed t)" "area_ok (typed t)" "9 \<notin> set t \<Longrightarrow> ta_text (typed t) = t"
  using insert_str_ok [OF new_area_ok assms]
  by (auto simp: typed_def edited_def new_area_def expand_tabs_def expand_tabs_with_width_def)

lemma valid_ascii: "\<forall>b \<in> set t. b < 128 \<Longrightarrow> valid t"
proof -
  assume a: "\<forall>b \<in> set t. b < 128"
  then have "utf8 t = t" by (induction t) (simp_all add: encode_char_def)
  then show ?thesis using a valid_utf8 [of t] by (fastforce simp: valid_char_def)
qed

section \<open>Undo and redo are inverse\<close>

definition same_stacks :: "TextArea \<Rightarrow> TextArea \<Rightarrow> bool" where
  "same_stacks ta ta' \<longleftrightarrow> us_stack (ta_undo ta') = us_stack (ta_undo ta) \<and> us_redo (ta_undo ta') = us_redo (ta_undo ta)"

lemma rev_snoc: "rev xs = y # ys \<Longrightarrow> xs = rev ys @ [y]"
  by (metis rev.simps(2) rev_swap)

text \<open>
  C1. Undoing and then redoing gives back the text, the cursor and the elements, and both stacks, whatever
  they hold; and so do redoing and then undoing.
\<close>

theorem undo_redo_inverse:
  "(snd (undo ta) \<longrightarrow> snapshot (fst (redo (fst (undo ta)))) = snapshot ta \<and> same_stacks ta (fst (redo (fst (undo ta))))) \<and>
   (snd (redo ta) \<longrightarrow> snapshot (fst (undo (fst (redo ta)))) = snapshot ta \<and> same_stacks ta (fst (undo (fst (redo ta)))))"
proof
  show "snd (undo ta) \<longrightarrow> snapshot (fst (redo (fst (undo ta)))) = snapshot ta \<and> same_stacks ta (fst (redo (fst (undo ta))))"
    by (cases "rev (us_stack (ta_undo ta))")
      (auto simp: undo_def redo_def Let_def restore_def snapshot_def same_stacks_def dest: rev_snoc)
  show "snd (redo ta) \<longrightarrow> snapshot (fst (undo (fst (redo ta)))) = snapshot ta \<and> same_stacks ta (fst (undo (fst (redo ta))))"
    by (cases "rev (us_redo (ta_undo ta))")
      (auto simp: undo_def redo_def Let_def restore_def snapshot_def same_stacks_def dest: rev_snoc)
qed

theorem undo_redo_inverse_witness:
  "snd (undo (typed [97])) \<and> ta_text (fst (undo (typed [97]))) = [] \<and>
   snapshot (fst (redo (fst (undo (typed [97]))))) = snapshot (typed [97])"
proof -
  have "snd (undo (typed [97])) \<and> ta_text (fst (undo (typed [97]))) = []" by code_simp
  then show ?thesis using undo_redo_inverse [of "typed [97]"] by blast
qed

section \<open>Discrete edits\<close>

fun discrete :: "call \<Rightarrow> bool" where
  "discrete (Set_text t) = True"
| "discrete (Replace_range a b t) = True"
| "discrete Delete_selection = True"
| "discrete (Insert_element t k d) = True"
| "discrete (Replace_range_with_element a b t k d) = True"
| "discrete (Inline_element i) = True"
| "discrete _ = False"

lemma insert_element_history:
  "insert_element t k d ta = Some (ta', i) \<Longrightarrow> same_history (pre_mutate MK_Element ta) ta'"
  by (auto simp: insert_element_def Let_def bind_Some add_element_def same_history_def set_cursor_def post_mutate_def
      dest!: insert_inner_history)

lemma replace_with_element_history:
  "replace_range_with_element a b t k d ta = Some (ta', i) \<Longrightarrow> same_history (pre_mutate MK_Element ta) ta'"
  by (auto simp: replace_range_with_element_def Let_def bind_Some add_element_def same_history_def set_cursor_def
      post_mutate_def dest!: replace_raw_history)

lemma replace_range_history: "replace_range a b t ta = Some ta' \<Longrightarrow> same_history (pre_mutate MK_Replace ta) ta'"
  by (auto simp: replace_range_def Let_def bind_Some dest!: replace_raw_history split: prod.splits)

lemma delete_selection_history:
  "delete_selection ta = Some (ta', d) \<Longrightarrow> if d then same_history (pre_mutate MK_Replace ta) ta' else ta' = ta"
  by (auto simp: delete_selection_def bind_Some same_history_def post_mutate_def dest!: replace_raw_history split: option.splits)

lemma set_text_history: "same_history (pre_mutate MK_Replace ta) (set_text t ta)"
  by (simp add: set_text_def Let_def same_history_def post_mutate_def)

lemma inline_element_history:
  "snd (inline_element i ta) \<Longrightarrow> same_history (pre_mutate MK_Element ta) (fst (inline_element i ta))"
  "\<not> snd (inline_element i ta) \<Longrightarrow> fst (inline_element i ta) = ta"
  by (auto simp: inline_element_def Let_def same_history_def split: option.splits)

lemma kill_step_history: "kill_step a b ta = Some ta' \<Longrightarrow> same_history (pre_mutate MK_Kill ta) ta'"
  by (auto simp: kill_step_def dest: kill_range_history)

lemma discrete_history:
  assumes "discrete c" "run_call U win c ta = Some ta'"
  shows "ta' = ta \<or> (\<exists>k \<in> {MK_Element, MK_Replace}. same_history (pre_mutate k ta) ta')"
proof (cases c)
  case (Inline_element i)
  then show ?thesis using assms(2) inline_element_history [of i ta] by auto
next
  case Delete_selection
  then show ?thesis using assms(2) by (auto dest!: delete_selection_history split: if_splits)
qed (use assms in \<open>auto simp: set_text_history dest: replace_range_history insert_element_history replace_with_element_history\<close>)

text \<open>
  C1. A discrete edit of the host (a new text, a replaced range, a deleted selection, a new or an inlined
  element) outside an undo group is undone by one undo: the text, the cursor and the elements are those
  before the edit.
\<close>

theorem discrete_edit_undone:
  assumes "area_ok ta" "us_group_depth (ta_undo ta) = 0" "discrete c" "run_call U win c ta = Some ta'" "ta' \<noteq> ta"
  shows "snd (undo ta') \<and> snapshot (fst (undo ta')) = snapshot ta"
proof -
  obtain k where k: "k \<in> {MK_Element, MK_Replace}" "same_history (pre_mutate k ta) ta'"
    using discrete_history [OF assms(3,4)] assms(5) by blast
  have "topped (snapshot ta) (pre_mutate k ta)" by (rule pre_mutate_topped [OF assms(1,2)]) (use k(1) in auto)
  then have "topped (snapshot ta) ta'" using topped_same k(2) by blast
  then show ?thesis using undo_topped undo_topped_ok by blast
qed

section \<open>Typing a word\<close>

fun type_chars :: "rchar list \<Rightarrow> TextArea \<Rightarrow> TextArea option" where
  "type_chars [] ta = Some ta"
| "type_chars (c # cs) ta = Option.bind (insert_str (encode_char c) ta) (type_chars cs)"

text \<open>The batch of insertions that began at a checkpoint is open, and the last character was of class \<open>ws\<close>.\<close>

definition batching :: "bool \<Rightarrow> TextArea \<Rightarrow> bool" where
  "batching ws ta \<longleftrightarrow>
     us_group_depth (ta_undo ta) = 0 \<and> us_last_kind (ta_undo ta) = Some MK_Insert \<and>
     us_last_cursor (ta_undo ta) = cursor_pos ta \<and> us_last_insert_ws (ta_undo ta) = ws"

lemma chars_of_char: "valid_char c \<Longrightarrow> first_char (encode_char c) = Some c \<and> last_char (encode_char c) = Some c"
  using decode_encode [of c "[]"] from_utf8_utf8 [of "[c]"] by (simp add: first_char_def last_char_def str_chars_def)

lemma insert_str_batch:
  assumes "insert_str (encode_char c) ta = Some ta'" "valid_char c" "us_group_depth (ta_undo ta) = 0"
  shows "batching (is_whitespace c) ta'"
    "same_history (pre_mutate MK_Insert (break_insert_batch (encode_char c) (ta\<lparr>scroll_override := None\<rparr>))) ta'"
proof -
  let ?ta = "pre_mutate MK_Insert (break_insert_batch (encode_char c) (ta\<lparr>scroll_override := None\<rparr>))"
  have "encode_char c \<noteq> []" by (simp add: encode_char_def)
  then obtain ta1 n where i: "insert_str_inner (cursor_pos ta) (encode_char c) ?ta = Some (ta1, n)"
      "ta' = post_mutate (note_last_insert (encode_char c) ta1)"
    using assms(1) by (auto simp: insert_str_def bind_Some)
  have u: "ta_undo ta1 = ta_undo ?ta" using i(1) by (auto simp: insert_str_inner_def Let_def bind_Some split: if_splits)
  have "us_group_depth (ta_undo ?ta) = 0 \<and> us_last_kind (ta_undo ?ta) = Some MK_Insert"
    using assms(3) by (simp add: pre_mutate_def break_insert_batch_def Let_def push_entry_def split: option.splits)
  then show "batching (is_whitespace c) ta'"
    using i(2) u chars_of_char [OF assms(2)] by (simp add: batching_def post_mutate_def note_last_insert_def)
  show "same_history ?ta ta'" using insert_inner_history [OF i(1)] i(2) by simp
qed

lemma batching_keeps:
  assumes "batching (is_whitespace c) ta" "valid_char c" "topped e ta"
  shows "topped e (pre_mutate MK_Insert (break_insert_batch (encode_char c) (ta\<lparr>scroll_override := None\<rparr>)))"
  using assms chars_of_char [OF assms(2)]
  by (simp add: batching_def break_insert_batch_def pre_mutate_def should_push_def topped_def Let_def)

lemma type_chars_topped:
  "type_chars cs ta = Some ta' \<Longrightarrow> batching ws ta \<Longrightarrow> topped e ta \<Longrightarrow>
     \<forall>c \<in> set cs. valid_char c \<and> is_whitespace c = ws \<Longrightarrow> topped e ta'"
proof (induction cs arbitrary: ta)
  case (Cons c cs)
  then obtain ta1 where t: "insert_str (encode_char c) ta = Some ta1" "type_chars cs ta1 = Some ta'"
    by (auto simp: bind_Some)
  have c: "valid_char c" "is_whitespace c = ws" "us_group_depth (ta_undo ta) = 0"
    using Cons.prems by (simp_all add: batching_def)
  note b = insert_str_batch [OF t(1) c(1,3)]
  have "batching (is_whitespace c) ta" using Cons.prems(2) c(2) by simp
  from topped_same [OF batching_keeps [OF this c(1) Cons.prems(3)] b(2)] have "topped e ta1" .
  then show ?case using Cons.IH [OF t(2)] b(1) c(2) Cons.prems(4) by simp
qed simp

text \<open>
  C1. A word is one undo step: when characters that are all whitespace or all not are typed one after the
  other, the first of them opening a batch, a single undo returns to the state before the first.
\<close>

theorem typed_word_undone:
  assumes "area_ok ta" "us_group_depth (ta_undo ta) = 0" "should_push MK_Insert (break_insert_batch (encode_char c) ta)"
    and "\<forall>x \<in> set (c # cs). valid_char x \<and> is_whitespace x = is_whitespace c" "type_chars (c # cs) ta = Some ta'"
  shows "snd (undo ta') \<and> snapshot (fst (undo ta')) = snapshot ta"
proof -
  obtain ta1 where t: "insert_str (encode_char c) ta = Some ta1" "type_chars cs ta1 = Some ta'"
    using assms(5) by (auto simp: bind_Some)
  have v: "valid_char c" using assms(4) by (meson list.set_intros(1))
  have rest: "\<forall>x \<in> set cs. valid_char x \<and> is_whitespace x = is_whitespace c"
    using assms(4) by (meson list.set_intros(2))
  note b = insert_str_batch [OF t(1) v assms(2)]
  let ?ta = "break_insert_batch (encode_char c) (ta\<lparr>scroll_override := None\<rparr>)"
  have u: "ta_undo ?ta = ta_undo (break_insert_batch (encode_char c) ta)"
    by (simp add: break_insert_batch_def split: option.split)
  have cur: "cursor_pos ?ta = cursor_pos (break_insert_batch (encode_char c) ta)" by simp
  have push: "should_push MK_Insert ?ta" using assms(3) unfolding should_push_def u cur .
  have depth: "us_group_depth (ta_undo ?ta) = 0"
    unfolding u using assms(2) by (simp add: break_insert_batch_def split: option.split)
  have ok: "area_ok ?ta" using assms(1) by simp
  have snap: "snapshot ?ta = snapshot ta" by (simp add: snapshot_def)
  have "topped (snapshot ta) (pre_mutate MK_Insert ?ta)"
    using pre_mutate_topped [OF ok depth push] unfolding snap .
  then have "topped (snapshot ta) ta1" using topped_same b(2) by blast
  then have "topped (snapshot ta) ta'" by (rule type_chars_topped [OF t(2) b(1) _ rest])
  then show ?thesis using undo_topped undo_topped_ok by blast
qed

theorem typed_word_undone_witness:
  "\<exists>ta'. type_chars [97, 98] new_area = Some ta' \<and> ta_text ta' = [97, 98] \<and> snd (undo ta') \<and>
     snapshot (fst (undo ta')) = snapshot new_area"
proof -
  have "map_option (\<lambda>ta. ta_text ta) (Option.bind (insert_str (encode_char 97) new_area) (insert_str (encode_char 98))) =
      Some [97, 98]"
    by code_simp
  then obtain ta' where t: "type_chars [97, 98] new_area = Some ta'" "ta_text ta' = [97, 98]"
    by (auto simp: bind_Some)
  have d: "us_group_depth (ta_undo new_area) = 0" by (simp add: new_area_def undo_default_def)
  have p: "should_push MK_Insert (break_insert_batch (encode_char 97) new_area)" by code_simp
  have w: "\<forall>x \<in> set [97, 98]. valid_char x \<and> is_whitespace x = is_whitespace 97"
    by (simp add: valid_char_def is_whitespace_def)
  show ?thesis using typed_word_undone [OF new_area_ok d p w t(1)] t by auto
qed

section \<open>Groups\<close>

text \<open>The calls that edit, move or measure: all but keys and the calls on the history itself.\<close>

fun group_free :: "call \<Rightarrow> bool" where
  "group_free (Key k) = False"
| "group_free Undo = False"
| "group_free Redo = False"
| "group_free Begin_undo_group = False"
| "group_free End_undo_group = False"
| "group_free Cancel_undo_group = False"
| "group_free Clear_history = False"
| "group_free _ = True"

lemma pre_mutate_in_group: "0 < us_group_depth (ta_undo ta) \<Longrightarrow> pre_mutate k ta = ta"
  by (simp add: pre_mutate_def)

lemma insert_str_in_group:
  assumes "0 < us_group_depth (ta_undo ta)" "insert_str t ta = Some ta'"
  shows "same_history ta ta'"
proof -
  let ?ta = "break_insert_batch t (ta\<lparr>scroll_override := None\<rparr>)"
  have h: "same_history ta ?ta" unfolding batch_history by (simp add: same_history_def)
  then have p: "pre_mutate MK_Insert ?ta = ?ta" using assms(1) pre_mutate_in_group by (simp add: same_history_def)
  show ?thesis
  proof (cases "t = []")
    case False
    then obtain ta1 n where "insert_str_inner (cursor_pos ta) t ?ta = Some (ta1, n)"
        "ta' = post_mutate (note_last_insert t ta1)"
      using assms(2) p by (auto simp: insert_str_def bind_Some)
    then show ?thesis using same_history_trans [OF h insert_inner_history] by simp
  qed (use assms(2) in \<open>simp add: insert_str_def\<close>)
qed

lemma insert_str_at_in_group:
  "0 < us_group_depth (ta_undo ta) \<Longrightarrow> insert_str_at p t ta = Some ta' \<Longrightarrow> same_history ta ta'"
  by (auto simp: insert_str_at_def bind_Some pre_mutate_in_group dest!: insert_inner_history split: if_splits)

lemma wrapped_lines_history: "wrapped_lines U w ta = Some (ta', ls) \<Longrightarrow> same_history ta ta'"
  by (auto simp: wrapped_lines_def Let_def same_history_def split: option.splits if_splits prod.splits)

lemma restore_elements_history: "same_history ta (restore_elements xs ta)"
proof -
  have "same_history ta (fold (\<lambda>(a, b, k, d) ta. fst (add_element a b k d ta)) xs ta)"
  proof (induction xs arbitrary: ta)
    case (Cons x xs)
    obtain a b k d where x: "x = (a, b, k, d)" by (metis prod_cases4)
    show ?case using same_history_trans [OF add_element_history Cons.IH] x by simp
  qed simp
  then show ?thesis by (simp add: restore_elements_def same_history_def)
qed

lemma kill_line_in_group:
  "0 < us_group_depth (ta_undo ta) \<Longrightarrow> kill_current_line ta = Some ta' \<Longrightarrow> same_history ta ta'"
  using kill_step_history [of _ _ ta ta'] unfolding pre_mutate_in_group [of ta]
  by (auto simp: kill_current_line_def Let_def pre_mutate_in_group split: if_splits)

lemma call_in_group:
  assumes "0 < us_group_depth (ta_undo ta)" "group_free c" "run_call U win c ta = Some ta'"
  shows "same_history ta ta'"
proof (cases "discrete c")
  case True
  then show ?thesis
    using discrete_history [OF True assms(3)] unfolding pre_mutate_in_group [OF assms(1)] by fastforce
next
  case False
  show ?thesis
  proof (cases c)
    case (Layout w)
    then show ?thesis using assms(3) wrapped_lines_history by auto
  next
    case (Insert_str t)
    then show ?thesis using insert_str_in_group [OF assms(1)] assms(3) by simp
  next
    case (Insert_str_at p t)
    then show ?thesis using insert_str_at_in_group [OF assms(1)] assms(3) by simp
  next
    case Kill_current_line
    then show ?thesis using kill_line_in_group [OF assms(1)] assms(3) by simp
  next
    case (Restore_elements xs)
    then show ?thesis using restore_elements_history assms(3) by auto
  qed (use False assms(2,3) in
      \<open>auto simp: same_history_def set_selection_def clear_selection_def set_cursor_def set_element_display_def
        set_tab_width_def take_clipboard_def split: option.splits\<close>)
qed

lemma calls_in_group:
  "0 < us_group_depth (ta_undo ta) \<Longrightarrow> \<forall>c \<in> set cs. group_free c \<Longrightarrow> run_calls U win cs ta = Some ta' \<Longrightarrow> same_history ta ta'"
proof (induction cs arbitrary: ta)
  case (Cons c cs)
  then obtain ta1 where t: "run_call U win c ta = Some ta1" "run_calls U win cs ta1 = Some ta'" by (auto simp: bind_Some)
  have h: "same_history ta ta1" using call_in_group [OF Cons.prems(1) _ t(1)] Cons.prems(2) by simp
  then have "same_history ta1 ta'" using Cons.IH [OF _ _ t(2)] Cons.prems by (simp add: same_history_def)
  with h show ?case by (rule same_history_trans)
qed simp

lemma group_state:
  assumes "us_group_depth (ta_undo ta) = 0" "\<forall>c \<in> set cs. group_free c"
    "run_calls U win cs (begin_undo_group ta) = Some ta1"
  shows "us_group_depth (ta_undo ta1) = 1" "us_group_checkpoint (ta_undo ta1) = Some (snapshot ta)"
    "us_stack (ta_undo ta1) = us_stack (ta_undo ta)" "us_redo (ta_undo ta1) = us_redo (ta_undo ta)"
    "us_max_depth (ta_undo ta1) = us_max_depth (ta_undo ta)"
proof -
  have "same_history (begin_undo_group ta) ta1"
    by (rule calls_in_group [OF _ assms(2,3)]) (simp add: begin_undo_group_def Let_def)
  then show "us_group_depth (ta_undo ta1) = 1" "us_group_checkpoint (ta_undo ta1) = Some (snapshot ta)"
    "us_stack (ta_undo ta1) = us_stack (ta_undo ta)" "us_redo (ta_undo ta1) = us_redo (ta_undo ta)"
    "us_max_depth (ta_undo ta1) = us_max_depth (ta_undo ta)"
    using assms(1) by (simp_all add: same_history_def begin_undo_group_def Let_def)
qed

text \<open>
  C1. An undo group is one undo step, and a cancelled group leaves no trace: whatever calls of the host run
  after its begin (all but keys and those on the history itself), when they change the text, the cursor or the number of elements, one undo after the end returns to
  the state at the begin; when they do not, the end leaves both stacks alone; and a cancel instead of the
  end gives back the text, the cursor, the elements and both stacks of the begin.
\<close>

theorem group_is_one_step:
  assumes "area_ok ta" "us_group_depth (ta_undo ta) = 0" "\<forall>c \<in> set cs. group_free c"
    "run_calls U win cs (begin_undo_group ta) = Some ta1"
  shows "(if group_changed (snapshot ta) ta1
      then snd (undo (end_undo_group ta1)) \<and> snapshot (fst (undo (end_undo_group ta1))) = snapshot ta
      else same_stacks ta (end_undo_group ta1)) \<and>
    snapshot (cancel_undo_group ta1) = snapshot ta \<and> same_stacks ta (cancel_undo_group ta1)"
proof -
  note g = group_state [OF assms(2-4)]
  have m: "0 < us_max_depth (ta_undo ta1)" using area_okD(5) [OF assms(1)] g(5) by (simp add: history_ok_def)
  have "topped (snapshot ta) (end_undo_group ta1)" if "group_changed (snapshot ta) ta1"
    using g that push_entry_last [OF m, of "snapshot ta"] by (simp add: end_undo_group_def Let_def topped_def)
  moreover have "same_stacks ta (end_undo_group ta1)" if "\<not> group_changed (snapshot ta) ta1"
    using g that by (simp add: end_undo_group_def Let_def same_stacks_def)
  moreover have "snapshot (cancel_undo_group ta1) = snapshot ta \<and> same_stacks ta (cancel_undo_group ta1)"
    using g by (simp add: cancel_undo_group_def Let_def restore_def snapshot_def same_stacks_def)
  ultimately show ?thesis using undo_topped undo_topped_ok by auto
qed

theorem group_is_one_step_witness:
  "\<exists>ta1. run_calls scalar_unicode False [Insert_str [97], Insert_str [32, 98]] (begin_undo_group new_area) = Some ta1 \<and>
     ta_text ta1 = [97, 32, 98] \<and> snd (undo (end_undo_group ta1)) \<and>
     snapshot (fst (undo (end_undo_group ta1))) = snapshot new_area"
proof -
  let ?cs = "[Insert_str [97], Insert_str [32, 98]]"
  have "map_option (\<lambda>ta. ta_text ta) (Option.bind (insert_str [97] (begin_undo_group new_area)) (insert_str [32, 98])) =
      Some [97, 32, 98]"
    by code_simp
  then obtain ta1 where t: "run_calls scalar_unicode False ?cs (begin_undo_group new_area) = Some ta1"
      "ta_text ta1 = [97, 32, 98]"
    by (auto simp: bind_Some)
  have d: "us_group_depth (ta_undo new_area) = 0" by (simp add: new_area_def undo_default_def)
  have f: "\<forall>c \<in> set ?cs. group_free c" by simp
  have "group_changed (snapshot new_area) ta1" using t(2) by (simp add: group_changed_def snapshot_def new_area_def)
  then show ?thesis using group_is_one_step [OF new_area_ok d f t(1)] t by auto
qed

text \<open>
  The end of a group compares the number of elements only: a group that replaces an element by another
  of the same text, with the cursor where it was, is not recorded although the elements changed.
\<close>

lemma group_swap_not_recorded:
  "let ta = fst (the (insert_element [97] 1 None new_area));
       ta1 = fst (the (replace_range_with_element 0 1 [97] 2 None (begin_undo_group ta)))
   in ta_elements ta1 \<noteq> ta_elements ta \<and> length (us_stack (ta_undo (end_undo_group ta1))) = length (us_stack (ta_undo ta))"
  by code_simp

end
