(* ===== verification/Text_Keep.thy ===== *)
theory Text_Keep
  imports Text_History
begin

text \<open>
  What edits of the text area keep: what a kill command removes a yank puts back, and every element that an
  edit does not meet keeps its text, wherever the edit moves it.
\<close>

section \<open>Kill and yank\<close>

lemma kill_range_shape:
  assumes ok: "area_ok ta" and r: "range_ok ta a b" "a \<le> cursor_pos ta" "cursor_pos ta \<le> b"
    and k: "kill_range a b ta = Some ta1" "ta_text ta1 \<noteq> ta_text ta"
  obtains s e where "s \<le> e" "e \<le> text_len ta" "ta_text ta1 = edited s e [] (ta_text ta)"
    "kill_buffer ta1 = take (e - s) (drop s (ta_text ta))" "cursor_pos ta1 = s" "tab_width ta1 = tab_width ta" "area_ok ta1"
proof -
  obtain a' b' where ab: "expand_range_to_element_boundaries (ta_elements ta) a b = (a', b')" by fastforce
  define s e where "s = min a' (text_len ta)" and "e = min b' (text_len ta)"
  note x = expanded_range [OF ok r(1) ab, folded s_def e_def]
  have lt: "s < e"
  proof (rule ccontr)
    assume "\<not> s < e"
    then have "kill_range a b ta = Some ta"
      unfolding kill_range_def ab Let_def prod.case s_def [symmetric] e_def [symmetric] by simp
    then show False using k by simp
  qed
  let ?k = "take (e - s) (drop s (ta_text ta))"
  have sl: "str_slice s e (ta_text ta) = Some ?k" "valid ?k"
    using slice_between [OF x(2,3) less_imp_le [OF lt]] by simp_all
  have "e \<le> text_len ta" by (simp add: e_def)
  then have ne: "?k \<noteq> []" using lt by simp
  let ?ta = "ta\<lparr>kill_buffer := ?k\<rparr>"
  have ok': "area_ok ?ta" using ok sl(2) by (simp add: area_ok_def)
  obtain ta2 where t: "replace_range_raw s e [] ?ta = Some (ta2, 0)" "area_ok ta2" "ta_text ta2 = edited s e [] (ta_text ta)"
      "cursor_pos ta2 = cursor_after s e 0 (cursor_pos ta)" "kill_buffer ta2 = ?k" "tab_width ta2 = tab_width ta"
    using replace_range_raw_ok [OF ok' valid_simps less_imp_le [OF lt]] x(2-4) lt by (auto simp: s_def e_def)
  have "kill_range a b ta = Some ta2"
    unfolding kill_range_def ab Let_def prod.case s_def [symmetric] e_def [symmetric] using sl(1) ne t(1) lt by simp
  then have "ta1 = ta2" using k(1) by simp
  moreover have "s \<le> cursor_pos ta" "cursor_pos ta \<le> e"
    using x(5,6) r(2,3) area_okD(7) [OF ok] by (simp_all add: s_def e_def)
  then have "cursor_after s e 0 (cursor_pos ta) = s" by (simp add: cursor_after_def)
  ultimately show ?thesis using that [of s e] t lt \<open>e \<le> text_len ta\<close> by simp
qed

lemma edited_back:
  assumes "s \<le> e" "e \<le> length t"
  shows "edited s s (take (e - s) (drop s t)) (edited s e [] t) = t"
proof -
  have "take (e - s) (drop s t) @ drop e t = drop s t"
    using append_take_drop_id [of "e - s" "drop s t"] assms(1) by simp
  then show ?thesis using assms by (simp add: edited_def)
qed

text \<open>The kill commands, each of a range that holds the cursor or ends or begins at it.\<close>

definition kill_commands :: "command set" where
  "kill_commands = {C_KillToBol, C_KillToEol, C_BackWord, C_UnixWord, C_ForwardWord}"

lemma kill_command_step:
  assumes "unicode_ok U" "area_ok ta" "c \<in> kill_commands" "run_command U c ta = Some ta1"
  shows "ta1 = ta \<or> (\<exists>a b. place_ok ta a \<and> place_ok ta b \<and> a \<le> cursor_pos ta \<and> cursor_pos ta \<le> b \<and> kill_step a b ta = Some ta1)"
proof -
  note p = place_ok_cursor [OF assms(2)] and le = area_okD(7) [OF assms(2)]
  note w = beginning_of_previous_word_ok [OF assms(1,2)] beginning_of_previous_unix_word_ok [OF assms(1,2)]
    end_of_next_word_ok [OF assms(1,2)]
  note l = beginning_of_line_ok [OF assms(2) le] end_of_line_ok [OF assms(2) le]
  consider "c = C_KillToBol" | "c = C_KillToEol" | "c = C_BackWord" | "c = C_UnixWord" | "c = C_ForwardWord"
    using assms(3) by (auto simp: kill_commands_def)
  then show ?thesis
  proof cases
    case 1
    then show ?thesis using assms(4) p l
      by (auto simp: kill_to_beginning_of_line_def Let_def split: if_splits intro: diff_le_self)
  next
    case 2
    then show ?thesis using assms(4) p l
      by (auto simp: kill_to_end_of_line_def Let_def split: if_splits intro: le_SucI)
  next
    case 3
    then show ?thesis using assms(4) p w(1) by (auto simp: delete_backward_word_def bind_Some split: if_splits)
  next
    case 4
    then show ?thesis using assms(4) p w(2) by (auto simp: delete_backward_unix_word_def bind_Some split: if_splits)
  next
    case 5
    then show ?thesis using assms(4) p w(3) by (auto simp: delete_forward_word_def bind_Some split: if_splits)
  qed
qed

text \<open>
  C1. What a kill command removed, a yank right after it puts back: the text is the one before the kill.
  (The killed text must be one that tab expansion leaves as it is.)
\<close>

theorem kill_then_yank:
  assumes "unicode_ok U" "area_ok ta" "c \<in> kill_commands" "run_command U c ta = Some ta1" "ta_text ta1 \<noteq> ta_text ta"
    and "expand_tabs ta (kill_buffer ta1) = kill_buffer ta1"
  shows "\<exists>ta2. yank ta1 = Some ta2 \<and> ta_text ta2 = ta_text ta"
proof -
  obtain a b where ab: "place_ok ta a" "place_ok ta b" "a \<le> cursor_pos ta" "cursor_pos ta \<le> b" "kill_step a b ta = Some ta1"
    using kill_command_step [OF assms(1-4)] assms(5) by blast
  let ?ta = "pre_mutate MK_Kill ta"
  obtain ta0 where k: "kill_range a b ?ta = Some ta0" "ta1 = post_mutate ta0" using ab(5) by (auto simp: kill_step_def)
  have ok: "area_ok ?ta" "range_ok ?ta a b" "ta_text ta0 \<noteq> ta_text ?ta"
    using assms(2,5) place_range_ok [OF ab(1,2) le_trans [OF ab(3,4)]] k(2) by (simp_all add: range_ok_def)
  obtain s e where e: "s \<le> e" "e \<le> text_len ta" "ta_text ta0 = edited s e [] (ta_text ta)"
      "kill_buffer ta0 = take (e - s) (drop s (ta_text ta))" "cursor_pos ta0 = s" "tab_width ta0 = tab_width ta" "area_ok ta0"
    using kill_range_shape [OF ok(1,2) _ _ k(1) ok(3)] ab(3,4) by auto
  have x: "expand_tabs ta1 (kill_buffer ta1) = take (e - s) (drop s (ta_text ta))"
    using assms(6) e(4,6) k(2) by (simp add: expand_tabs_def)
  have "area_ok ta1" using e(7) k(2) by simp
  from yank_ok [OF this] show ?thesis
    unfolding x using e k(2) edited_back [OF e(1,2)] by auto
qed

theorem kill_then_yank_witness:
  "\<exists>ta1 ta2. run_command scalar_unicode C_KillToBol (typed [97, 98]) = Some ta1 \<and> ta_text ta1 = [] \<and>
     yank ta1 = Some ta2 \<and> ta_text ta2 = [97, 98]"
proof -
  have v: "valid [97, 98]" by (rule valid_ascii) simp
  note t = typed_ok [OF v]
  have "map_option (\<lambda>ta. (ta_text ta, kill_buffer ta)) (kill_to_beginning_of_line (typed [97, 98])) = Some ([], [97, 98])"
    by code_simp
  then obtain ta1 where k: "run_command scalar_unicode C_KillToBol (typed [97, 98]) = Some ta1" "ta_text ta1 = []"
      "kill_buffer ta1 = [97, 98]"
    by auto
  have c: "C_KillToBol \<in> kill_commands" by (simp add: kill_commands_def)
  have x: "expand_tabs (typed [97, 98]) (kill_buffer ta1) = kill_buffer ta1"
    using k(3) by (simp add: expand_tabs_def expand_tabs_with_width_def)
  show ?thesis using kill_then_yank [OF scalar_unicode_ok t(2) c k(1) _ x] k t(3) by auto
qed

section \<open>Elements keep their text\<close>

definition bytes_of :: "bytes \<Rightarrow> TextElement \<Rightarrow> bytes" where
  "bytes_of t e = take (el_end e - el_start e) (drop (el_start e) t)"

lemma shifted_text:
  assumes "aligned es a b" "a \<le> b" "b \<le> length t" "e \<in> set es" "\<not> (a \<le> el_start e \<and> el_end e \<le> b)" "el_start e \<le> el_end e"
  shows "bytes_of (edited a b x t) (shift_element a (b - a) (length x) e) = bytes_of t e"
proof (rule shift_cases [OF assms(1,4,5,2,6), of "length x"])
  assume "el_end e \<le> a" "shift_element a (b - a) (length x) e = e"
  moreover from this assms(2,3,6) have "take (el_end e - el_start e) (drop (el_start e) (take a t @ x @ drop b t)) =
      take (el_end e - el_start e) (drop (el_start e) (take a t))" by simp
  moreover have "take (el_end e - el_start e) (drop (el_start e) (take a t)) = take (el_end e - el_start e) (drop (el_start e) t)"
    using calculation(1) assms(6) by (simp add: drop_take min_absorb1)
  ultimately show ?thesis by (simp add: bytes_of_def edited_def)
next
  assume f: "b \<le> el_start e" "shift_element a (b - a) (length x) e
      = e\<lparr>el_start := el_start e + length x - (b - a), el_end := el_end e + length x - (b - a)\<rparr>"
  have n: "el_start e + length x - (b - a) = a + length x + (el_start e - b)" using f(1) assms(2) by simp
  have m: "el_end e + length x - (b - a) = a + length x + (el_start e - b) + (el_end e - el_start e)"
    using f(1) assms(2,6) by simp
  have "drop (a + length x + (el_start e - b)) (edited a b x t) = drop (el_start e) t"
    using f(1) assms(2,3) by (simp add: edited_def)
  then show ?thesis unfolding f(2) n m by (simp add: bytes_of_def)
qed

lemma element_text_same: "ta_elements ta' = ta_elements ta \<Longrightarrow> ta_text ta' = ta_text ta \<Longrightarrow> element_text i ta' = element_text i ta"
  by (simp only: element_text_def)

lemma element_text_iff:
  assumes "area_ok ta"
  shows "element_text i ta = Some (Some x) \<longleftrightarrow> (\<exists>e \<in> set (ta_elements ta). el_id e = i \<and> bytes_of (ta_text ta) e = x)"
proof -
  have d: "distinct (map el_id (ta_elements ta))" using assms by (simp add: area_ok_def content_ok_def)
  have f: "List.find (\<lambda>e. el_id e = i) (ta_elements ta) = Some e \<longleftrightarrow> e \<in> set (ta_elements ta) \<and> el_id e = i" for e
    using d by (auto simp: find_Some_iff in_set_conv_nth distinct_conv_nth)
  have sl: "str_slice (el_start e) (el_end e) (ta_text ta) = Some (bytes_of (ta_text ta) e)" if "e \<in> set (ta_elements ta)" for e
    using elements_okD(1,2,3) [OF area_okD(4) [OF assms] that] slice_between(1) by (simp add: bytes_of_def)
  show ?thesis
  proof (cases "List.find (\<lambda>e. el_id e = i) (ta_elements ta)")
    case None
    then have "\<not> (\<exists>e \<in> set (ta_elements ta). el_id e = i)" by (auto simp: find_None_iff)
    then show ?thesis using None by (auto simp: element_text_def)
  next
    case (Some e)
    then have e: "e \<in> set (ta_elements ta)" "el_id e = i" using f by blast+
    have "inj_on el_id (set (ta_elements ta))" using d by (simp add: distinct_map)
    then have u: "g = e" if "g \<in> set (ta_elements ta)" "el_id g = i" for g
      using e that by (simp add: inj_on_def)
    have "element_text i ta = Some (Some (bytes_of (ta_text ta) e))" using Some sl [OF e(1)] by (simp add: element_text_def)
    then show ?thesis using e u by (metis option.inject)
  qed
qed

text \<open>An element that an expanded range does not touch is one that the range did not touch.\<close>

lemma expand_pass_away:
  assumes "\<forall>f \<in> set es. f = e \<or> \<not> (el_start e < el_end f \<and> el_start f < el_end e)" "el_start e < el_end e"
  shows "expand_pass es a b ch = (a', b', ch') \<Longrightarrow> el_end e \<le> a \<or> b \<le> el_start e \<Longrightarrow> a \<le> b \<Longrightarrow>
     (el_end e \<le> a' \<or> b' \<le> el_start e) \<and> a' \<le> b'"
  using assms(1)
proof (induction es arbitrary: a b ch)
  case (Cons f es)
  show ?case
  proof (cases "el_start f < b \<and> a < el_end f \<and> (min a (el_start f) \<noteq> a \<or> max b (el_end f) \<noteq> b)")
    case True
    then have "expand_pass es (min a (el_start f)) (max b (el_end f)) True = (a', b', ch')"
      using Cons.prems(1) by (auto simp: Let_def)
    moreover have "el_end e \<le> min a (el_start f) \<or> max b (el_end f) \<le> el_start e"
      using True Cons.prems(2,4) assms(2) by fastforce
    moreover have "min a (el_start f) \<le> max b (el_end f)" using Cons.prems(3) by simp
    ultimately show ?thesis using Cons.IH Cons.prems(4) by simp
  next
    case False
    then have "expand_pass es a b ch = (a', b', ch')" using Cons.prems(1) by (auto simp: Let_def split: if_splits)
    then show ?thesis using Cons.IH Cons.prems by simp
  qed
qed simp

lemma expand_range_away:
  assumes "\<forall>f \<in> set es. f = e \<or> \<not> (el_start e < el_end f \<and> el_start f < el_end e)" "el_start e < el_end e"
  shows "expand_range_to_element_boundaries es a b = (a', b') \<Longrightarrow> el_end e \<le> a \<or> b \<le> el_start e \<Longrightarrow> a \<le> b \<Longrightarrow>
     el_end e \<le> a' \<or> b' \<le> el_start e"
  using assms(1)
proof (induction es a b rule: expand_range_to_element_boundaries.induct)
  case (1 es a b)
  obtain c d ch where p: "expand_pass es a b False = (c, d, ch)" by (metis prod_cases3)
  note aw = expand_pass_away [OF 1(5) assms(2) p 1(3,4)]
  show ?case
  proof (cases ch)
    case True
    then have "expand_range_to_element_boundaries es c d = (a', b')"
      using 1(2) p by (simp add: expand_range_to_element_boundaries.simps [of es a])
    with 1(1) [OF p [symmetric] refl True] aw 1(5) show ?thesis by blast
  next
    case False
    then show ?thesis using 1(2) p aw by (simp add: expand_range_to_element_boundaries.simps [of es a])
  qed
qed

lemma element_survives:
  assumes "elements_ok t es" "aligned es a b" "a \<le> b" "b \<le> length t" "e \<in> set es" "\<not> (a \<le> el_start e \<and> el_end e \<le> b)"
  shows "\<exists>f \<in> set (shift_elements a (b - a) (length x) es). el_id f = el_id e \<and> bytes_of (edited a b x t) f = bytes_of t e"
  using shifted_text [OF assms(2-6) elements_okD(1) [OF assms(1,5)], of x] assms(3,5,6)
  by (intro bexI [of _ "shift_element a (b - a) (length x) e"]) (auto simp: shift_elements_def)

text \<open>
  C1. Typing and pasting keep the elements: after an insertion at the cursor every element that is not
  empty has the text it had.
\<close>

theorem insert_keeps_elements:
  assumes "area_ok ta" "valid t" "insert_str t ta = Some ta'" "element_text i ta = Some (Some x)" "x \<noteq> []"
  shows "element_text i ta' = Some (Some x)"
proof (cases "t = []")
  case False
  let ?ta = "pre_mutate MK_Insert (break_insert_batch t (ta\<lparr>scroll_override := None\<rparr>))"
  have ok: "area_ok ?ta" using assms(1) by simp
  let ?p = "cursor_pos ta" and ?x = "expand_tabs ?ta t"
  have p: "clamp_pos_for_insertion (ta_elements ta) ?p = ?p" using area_okD(3) [OF assms(1)] by simp
  obtain ta1 where i: "insert_str_inner ?p t ?ta = Some (ta1, length ?x)" "area_ok ta1"
      "ta_text ta1 = edited ?p ?p ?x (ta_text ta)" "ta_elements ta1 = shift_elements ?p (?p - ?p) (length ?x) (ta_elements ta)"
    using insert_str_inner_ok [OF ok assms(2) pos_ok_cursor [OF ok]] p False by auto
  have ta': "ta' = post_mutate (note_last_insert t ta1)" using assms(3) i(1) False by (simp add: insert_str_def)
  obtain e where e: "e \<in> set (ta_elements ta)" "el_id e = i" "bytes_of (ta_text ta) e = x"
    using element_text_iff [OF assms(1)] assms(4) by blast
  have "\<not> (?p \<le> el_start e \<and> el_end e \<le> ?p)" using e(3) assms(5) by (auto simp: bytes_of_def)
  from element_survives [OF area_okD(4) [OF assms(1)] outside_aligned [OF area_okD(3) [OF assms(1)] elements_le [OF area_okD(4) [OF assms(1)]]]
      order_refl area_okD(7) [OF assms(1)] e(1) this, of ?x]
  have "\<exists>f \<in> set (ta_elements ta1). el_id f = i \<and> bytes_of (ta_text ta1) f = x" using e(2,3) i(3,4) by simp
  then have "element_text i ta1 = Some (Some x)" using element_text_iff [OF i(2)] by blast
  moreover have "element_text i ta' = element_text i ta1" unfolding ta' by (rule element_text_same) simp_all
  ultimately show ?thesis by simp
qed (use assms(3,4) in \<open>simp add: insert_str_def\<close>)

text \<open>
  C1. A host edit keeps the elements it does not meet: after a range is replaced, every element that is not
  empty and lies before or after the range has the text it had.
\<close>

theorem replace_keeps_elements:
  assumes "area_ok ta" "valid t" "range_ok ta a b" "replace_range a b t ta = Some ta'"
    and "e \<in> set (ta_elements ta)" "el_start e < el_end e" "el_end e \<le> a \<or> b \<le> el_start e"
  shows "element_text (el_id e) ta' = Some (Some (bytes_of (ta_text ta) e))"
proof -
  let ?ta = "pre_mutate MK_Replace ta"
  have ok: "area_ok ?ta" using assms(1) by simp
  obtain a' b' where ab: "expand_range_to_element_boundaries (ta_elements ta) a b = (a', b')" by fastforce
  define s d x where "s = min a' (text_len ta)" and "d = min b' (text_len ta)" and "x = expand_tabs ?ta t"
  note r = expanded_range [OF assms(1,3) ab, folded s_def d_def]
  have els: "elements_ok (ta_text ta) (ta_elements ta)" by (rule area_okD(4) [OF assms(1)])
  have sd: "s \<le> d" "d \<le> text_len ta" using r(1) by (auto simp: s_def d_def)
  obtain ta1 where i: "replace_range_raw a' b' t ?ta = Some (ta1, length x)" "area_ok ta1"
      "ta_text ta1 = edited s d x (ta_text ta)"
      "s < d \<or> x \<noteq> [] \<longrightarrow> ta_elements ta1 = shift_elements s (d - s) (length x) (ta_elements ta)" "s = d \<and> x = [] \<longrightarrow> ta1 = ?ta"
    using replace_range_raw_ok [OF ok assms(2) r(1)] r(2-4) unfolding s_def d_def x_def by auto
  have ta': "ta' = post_mutate ta1" using assms(4) i(1) ab by (simp add: replace_range_def)
  have pair: "\<forall>f \<in> set (ta_elements ta). f = e \<or> \<not> (el_start e < el_end f \<and> el_start f < el_end e)"
    using el_apart_pair [OF _ assms(5)] els by (auto simp: elements_ok_def)
  have "el_end e \<le> a' \<or> b' \<le> el_start e"
    using expand_range_away [OF pair assms(6) ab assms(7)] assms(3) by (simp add: range_ok_def)
  then have "\<not> (s \<le> el_start e \<and> el_end e \<le> d)"
    using assms(6) elements_okD(4) [OF els assms(5)] by (auto simp: s_def d_def)
  note survives = element_survives [OF els r(4) sd assms(5) this, of x]
  have "\<exists>f \<in> set (ta_elements ta1). el_id f = el_id e \<and> bytes_of (ta_text ta1) f = bytes_of (ta_text ta) e"
  proof (cases "s = d \<and> x = []")
    case True
    then have "ta1 = ?ta" using i(5) by blast
    then show ?thesis using assms(5) by auto
  next
    case False
    then have "ta_elements ta1 = shift_elements s (d - s) (length x) (ta_elements ta)" using i(4) sd(1) le_neq_implies_less by blast
    then show ?thesis using survives i(3) by simp
  qed
  then have "element_text (el_id e) ta1 = Some (Some (bytes_of (ta_text ta) e))" using element_text_iff [OF i(2)] by blast
  moreover have "element_text (el_id e) ta' = element_text (el_id e) ta1" unfolding ta' by (rule element_text_same) simp_all
  ultimately show ?thesis by simp
qed

theorem replace_keeps_elements_witness:
  "\<exists>ta'. replace_range 0 2 [120] (fst (the (insert_element [101, 102] 1 None (typed [97, 98, 99])))) = Some ta' \<and>
     element_text 0 ta' = Some (Some [101, 102])"
proof -
  have v: "valid [97, 98, 99]" "valid [101, 102]" "valid [120]" by (rule valid_ascii, simp)+
  let ?ta = "fst (the (insert_element [101, 102] 1 None (typed [97, 98, 99])))"
  let ?e = "\<lparr>el_id = 0, el_start = 3, el_end = 5, el_kind = 1, el_display = None\<rparr>"
  have ok: "area_ok ?ta" using insert_element_ok [OF typed_ok(2) [OF v(1)] v(2), of 1 None] by auto
  have t: "ta_text ?ta = [97, 98, 99, 101, 102]" "ta_elements ?ta = [?e]" by code_simp+
  have r: "range_ok ?ta 0 2"
    using cut_ascii(1) [OF area_okD(1) [OF ok], of 2] cut_ends(1) [OF area_okD(1) [OF ok]] t(1)
    by (simp add: range_ok_def eval_nat_numeral)
  obtain ta' where r': "replace_range 0 2 [120] ?ta = Some ta'" using replace_range_ok [OF ok v(3) r] by blast
  show ?thesis
    using replace_keeps_elements [OF ok v(3) r r', of ?e] r' t by (simp add: bytes_of_def)
qed

end
