(* ===== verification/Spec2Isabelle.thy ===== *)
theory Spec2Isabelle
  imports Prelude F64 Breaker Breaker_Race Patch_Parser Patch_Apply Patch_Tool Conversation Repair Rewind
    Compaction_Utils Summary_Text History Budget Usage Request Chat_State Chat_Capture Chat_Disk Chat_Billing
    Chat_Requests Perm_Rules Shell_Tree Perm_Policy Shell_Access Auto_Mode Perm_Grants Perm_Manager
    Hunk_Diff Hunk_Content Hunk_Tracker Hunk_Invariant Hunk_Handlers Hunk_Actions Hunk_Actor Hunk_Session
    Hunk_Facts Hunk_Reports Hunk_Loc Utf8 Text_Elements Text_Area Text_Invariant Text_Motion Text_Wrap Text_Input
    Text_Session Text_History Text_Keep
begin

text \<open>
  Verification of the core of the grok-build agent, a coding agent with a terminal interface, written
  in Rust. The development models six parts of the workspace under \<open>src/crates\<close> and proves what they
  promise to the rest of the program.

  \<^bold>\<open>The parts and how they interact.\<close> The agent keeps a conversation with a model. The \<^emph>\<open>chat-state
  actor\<close> owns the conversation, the token estimates, the ledgers and the turn capture; it repairs,
  compacts, prunes and rewinds the conversation and builds the requests for the model with the pure
  functions on \<^emph>\<open>conversation items\<close> and the \<^emph>\<open>compaction helpers\<close>. Requests go through HTTP clients
  guarded by the shared \<^emph>\<open>circuit breaker\<close>. The tool calls in the answers are first presented to the
  \<^emph>\<open>permission engine\<close> and then run; the tool modelled in full is \<^emph>\<open>apply_patch\<close>, which parses a patch,
  matches it against files and writes the result. What the tools and the user do to files is followed by the
  \<^emph>\<open>hunk tracker\<close>, an actor that keeps, for every changed file, a baseline, the current text and the hunks
  between them, attributes each hunk to a turn of the agent or to the user, and accepts or rejects hunks
  on request; its events feed the count of lines of code.

  \<^bold>\<open>Theories and sources.\<close>
  \<^item> \<open>Prelude\<close>: Rust strings, saturating arithmetic, results and list facts; \<open>F64\<close>: binary64 arithmetic
    on the non-negative values the sources compute with.
  \<^item> \<open>Breaker\<close> (\<open>common/xai-circuit-breaker\<close>): sliding window, state machine, registry, run by one caller
    at a time. \<open>Breaker_Race\<close>: the same code as atomic steps of concurrent threads over shared memory.
  \<^item> \<open>Patch_Parser\<close>, \<open>Patch_Apply\<close>, \<open>Patch_Tool\<close> (\<open>xai-grok-tools\<close>, \<open>codex/apply_patch\<close>): the patch
    grammar, the fuzzy search for the lines to change and the splicing, and the tool on a file system.
  \<^item> \<open>Conversation\<close> (\<open>xai-grok-sampling-types/src/conversation.rs\<close>), \<open>Repair\<close>, \<open>Rewind\<close>: items, their
    texts and sizes, the repairs of unanswered and duplicate tool calls, and where a rewind cuts.
  \<^item> \<open>Compaction_Utils\<close>, \<open>Summary_Text\<close>, \<open>History\<close>, \<open>Budget\<close> (\<open>xai-chat-state/src/compaction_utils.rs\<close>
    and the functions it calls): token estimates, fitting to a budget, cleaning the model's summary,
    assembling and validating the compacted history.
  \<^item> \<open>Usage\<close>, \<open>Request\<close>, \<open>Chat_State\<close> (\<open>xai-chat-state/src\<close>): ledgers, request building, and the actor:
    one record for its state, one definition per mutation and query, one datatype constructor per
    command, \<open>handle_command\<close> for the dispatch. \<open>Chat_Capture\<close>, \<open>Chat_Disk\<close>, \<open>Chat_Billing\<close> and
    \<open>Chat_Requests\<close> hold its properties.
  \<^item> \<open>Perm_Rules\<close>, \<open>Shell_Tree\<close>, \<open>Perm_Policy\<close>, \<open>Shell_Access\<close>, \<open>Auto_Mode\<close>, \<open>Perm_Grants\<close>,
    \<open>Perm_Manager\<close> (\<open>xai-grok-workspace/src/permission\<close>): rule language, decomposition of shell scripts,
    policy and command gate, file gate, the auto-mode classifier, remembered approvals, and the manager
    actor with its handle.
  \<^item> \<open>Hunk_Diff\<close> (\<open>xai-hunk-tracker/src/types.rs\<close>, \<open>diff.rs\<close>), \<open>Hunk_Content\<close> (\<open>actor/state.rs\<close>,
    \<open>file_utils.rs\<close>), \<open>Hunk_Tracker\<close> (\<open>hunks.rs\<close>, \<open>git.rs\<close>, \<open>mutations.rs\<close>), \<open>Hunk_Actions\<close>
    (\<open>actions.rs\<close>), \<open>Hunk_Actor\<close> (\<open>queries.rs\<close>, \<open>mod.rs\<close>), \<open>Hunk_Loc\<close> (\<open>loc/mod.rs\<close>): hunks and patches,
    file contents, the tracker's state with one definition per notification and refresh, the actions on
    hunks, queries, snapshots, commands and their coalescing, and the line counts. \<open>Hunk_Invariant\<close>,
    \<open>Hunk_Handlers\<close> and \<open>Hunk_Session\<close> hold the invariant and its preservation, \<open>Hunk_Facts\<close> and
    \<open>Hunk_Reports\<close> the properties. What every handler keeps is proved once in the locale \<open>handlers\<close>, from
    the effect of a put, a recomputation and a removal, and interpreted for the invariant, for the
    files of the agent, for the supply of identifiers and for the turns under changes from outside.

  \<^bold>\<open>What the lemmas show.\<close>
  \<^item> Breaker: the window counts exactly the recent outcomes; it trips exactly at the configured rate; a
    half-open breaker admits its number of probes; no state is final. With concurrent callers the
    number of probes and the window are still right, and a thread that runs alone does what the
    sequential model does.
  \<^item> Patches: printing and parsing are inverse; the search returns the first match of the most exact
    kind; the new contents are the old ones with the matched ranges replaced; no index panics; a run
    either reports an error before it writes or has the effect of its hunks one after the other.
  \<^item> Conversations: the repairs end with every call answered once and in place; a compacted history is
    accepted by the validator; a rewind keeps what precedes the chosen turn; the longest affordable
    tail is kept; the summary cannot carry control tags into the next prompt.
  \<^item> Actor: a turn capture returns exactly the items pushed in the turn; the history on disk is the one
    in memory; the bill of a prompt never exceeds that of the session; a built request has no
    unanswered call.
  \<^item> Permissions: a policy decides by its strongest matching rule; the command gate and the file gate
    judge every command and file of a script they can read, ask otherwise and never allow (both
    instantiate the locale \<open>escalation_gate\<close>); a deny is final in every mode; which requests pass an
    ask rule without a prompt; a managed pin keeps always-approve off for any interleaving of handles
    and actor; grants follow the access the user was asked about; rules are read back from their
    printed form; the domain table is exact; a script that the auto-mode heuristic allows is understood
    to its last wrapper and launcher. Theorems also record where the code falls short: nine
    wrappers hide a command, an ask rule on web searches or setup commands is ignored, and a patch is
    not judged by the paths it changes.
  \<^item> Hunk tracker: the pending hunks are the difference of baseline and current text in every reachable
    state; accepting some hunks and rejecting the others are complementary, and an action on a whole file
    settles it; changes from outside never name a turn; snapshots, merged commands and line records
    lose nothing. Where the code falls short: a failed rejection leaves the turn's index, accepting one
    hunk re-attributes the rest, line ends are rewritten, and split hunks are counted short.

  \<^bold>\<open>Conventions and bounds.\<close> A string is the list of its scalar values; where the source counts bytes
  the model uses UTF-8 lengths. \<open>usize\<close> and \<open>u64\<close> values are natural numbers, saturating where the
  source saturates; the probe counter of the concurrent breaker is a 32-bit word and wraps. Panics are
  \<open>None\<close> results, errors are sums. Loops that are not structural have termination proofs. Fuel
  appears where the source itself counts: eight levels of nested scripts, eight peeled wrappers, forty
  steps of link resolution; and in the duplicate scan of tool results, where twice the length plus two
  is shown to be enough. Two panics are simplified: the text of a backend call that would panic is
  taken as empty by the token estimates, and a debug assertion of the turn tail is not checked. Code
  outside the repository is a parameter: JSON sizes (\<open>JsonSize\<close>), the glob and URL crates, the lower-case
  table, the shell parser and the file system (\<open>Externals\<close>), the file system of the patch tool
  (\<open>FileSystem\<close>), the user's answers, the classifier's model and \<open>serde_json\<close>'s parser, and for the hunk
  tracker the line diff, the supply of identifiers, git and the outcome of writes (\<open>World\<close>). The theorems
  on hunks assume of the diff that the lines it deletes or keeps spell the old text and those it inserts
  or keeps the new one, and of the identifiers that they differ.

  \<^bold>\<open>Not modelled.\<close> Discovery and merging of permission settings (\<open>resolution.rs\<close>) and the exchange with
  the client (\<open>prompter.rs\<close>, \<open>hub_permission.rs\<close>); the session loop and configuration of the shell crate;
  the other tools, MCP clients, telemetry, storage formats and the terminal interface's views; the
  hosted compaction crate. Next in the plan are the text area of the terminal interface, whose editing
  state is independent of rendering, the merging of permission settings, and the compaction crate.
\<close>

end
